(* ===== verification/Prelude.thy ===== *)
theory Prelude
  imports Main "HOL-Library.Multiset" "HOL-Library.Signed_Division"
begin

text \<open>
  Shared vocabulary of the development: fact collections, the fixed-width view of Go's
  \<^verbatim>\<open>int64\<close>, and generic lemmas on lists, options and sums that several components use.

  Go's \<^verbatim>\<open>int\<close> and \<^verbatim>\<open>int64\<close> (both 64 bits on every release target) are
  modelled as \<^typ>\<open>int\<close>. Where a sum or a product can leave the range the
  wrap-around is written out with \<open>w64\<close>; elsewhere the operands are bounded by a guard
  of the code. Go's \<^verbatim>\<open>/\<close> truncates towards zero and is \<open>sdiv\<close>.
\<close>

named_theorems inv_defs \<open>definitions of the components' invariants\<close>
named_theorems step_simps \<open>field equations of the state transformers\<close>

section \<open>Results that carry an error\<close>

type_synonym ('e, 'a) result = "'e + 'a"

fun bind_result :: "('e, 'a) result \<Rightarrow> ('a \<Rightarrow> ('e, 'b) result) \<Rightarrow> ('e, 'b) result" where
  "bind_result (Inl e) f = Inl e"
| "bind_result (Inr a) f = f a"

lemma bind_result_Inr:
  "bind_result r f = Inr b \<longleftrightarrow> (\<exists>a. r = Inr a \<and> f a = Inr b)"
  by (cases r) auto

section \<open>64-bit integers\<close>

definition max_i64 :: int where "max_i64 = 2 ^ 63 - 1"

definition min_i64 :: int where "min_i64 = - (2 ^ 63)"

definition w64 :: "int \<Rightarrow> int" where
  "w64 x = (x + 2 ^ 63) mod 2 ^ 64 - 2 ^ 63"

lemma w64_id: "min_i64 \<le> x \<Longrightarrow> x \<le> max_i64 \<Longrightarrow> w64 x = x"
  by (simp add: w64_def min_i64_def max_i64_def)

lemma w64_range: "min_i64 \<le> w64 x" "w64 x \<le> max_i64"
proof -
  have "0 \<le> (x + 2 ^ 63) mod 2 ^ 64" "(x + 2 ^ 63) mod 2 ^ 64 < 2 ^ 64"
    by simp_all
  then show "min_i64 \<le> w64 x" "w64 x \<le> max_i64"
    by (simp_all add: w64_def min_i64_def max_i64_def)
qed

lemma w64_idempotent: "w64 (w64 x) = w64 x"
  by (rule w64_id) (rule w64_range)+

lemma sdiv_nonneg: "0 \<le> a \<Longrightarrow> 0 < b \<Longrightarrow> (a::int) sdiv b = a div b"
  by (cases "a = 0") (simp_all add: signed_divide_int_def)

section \<open>Lists\<close>

lemma sorted_wrt_less_distinct: "sorted_wrt (<) (xs :: 'a :: linorder list) \<Longrightarrow> distinct xs"
  by (induction xs) auto

lemma sorted_distinct_less:
  "sorted (xs :: 'a :: linorder list) \<Longrightarrow> distinct xs \<Longrightarrow> sorted_wrt (<) xs"
  by (induction xs) (auto simp: order.strict_iff_order)

end
