(* ===== verification/Sources.thy ===== *)
theory Sources
  imports GoText
begin

text \<open>
  \<^verbatim>\<open>internal/swarm/source.go\<close> and \<^verbatim>\<open>policy.go\<close>: where a torrent comes
  from, what is known of its BEP 27 private flag before anything goes online, and the route
  decision \<open>routeFor\<close>.

  Magnet and metainfo parsing belong to anacrolix/torrent: their results are the records below
  and the parsers are arguments of \<open>ParseSource\<close>. \<open>mi_announce\<close> is what
  \<^verbatim>\<open>UpvertedAnnounceList\<close> returns and \<open>mi_info\<close> what
  \<^verbatim>\<open>UnmarshalInfo\<close> returns, \<open>None\<close> being its error.
\<close>

record Info =
  info_private :: "bool option"

record MetaInfo =
  mi_hash :: string
  mi_announce :: "string list list"
  mi_info :: "Info option"

record Magnet =
  mag_hash :: string
  mag_trackers :: "string list"
  mag_name :: string

record Source =
  src_raw :: string
  src_magnet :: "Magnet option"
  src_mi :: "MetaInfo option"
  src_info :: "Info option"

datatype source_error =
    MagnetUnparsable
  | NotReadable string
  | LoadFailed
  | InfoUnparsable
  | EmptySource

definition ParseSource ::
  "(string \<Rightarrow> Magnet option) \<Rightarrow> (string \<Rightarrow> bool) \<Rightarrow> (string \<Rightarrow> MetaInfo option) \<Rightarrow> string
   \<Rightarrow> (source_error, Source) result" where
  "ParseSource parse_magnet readable load s =
     (if HasPrefix s ''magnet:'' then
        (case parse_magnet s of
           None \<Rightarrow> Inl MagnetUnparsable
         | Some m \<Rightarrow> Inr \<lparr>src_raw = s, src_magnet = Some m, src_mi = None, src_info = None\<rparr>)
      else if \<not> readable s then Inl (NotReadable s)
      else (case load s of
          None \<Rightarrow> Inl LoadFailed
        | Some mi \<Rightarrow>
            (case mi_info mi of
               None \<Rightarrow> Inl InfoUnparsable
             | Some info \<Rightarrow>
                 Inr \<lparr>src_raw = s, src_magnet = None, src_mi = Some mi, src_info = Some info\<rparr>)))"

definition IsMagnet :: "Source \<Rightarrow> bool" where
  "IsMagnet s \<longleftrightarrow> src_magnet s \<noteq> None"

definition Trackers :: "Source \<Rightarrow> string list" where
  "Trackers s =
     (case src_magnet s of
        Some m \<Rightarrow> mag_trackers m
      | None \<Rightarrow> (case src_mi s of None \<Rightarrow> [] | Some mi \<Rightarrow> concat (mi_announce mi)))"

definition flagged_private :: "Info \<Rightarrow> bool" where
  "flagged_private i \<longleftrightarrow> info_private i = Some True"

text \<open>The pair (private, known).\<close>

definition Privacy :: "Source \<Rightarrow> bool \<times> bool" where
  "Privacy s = (case src_info s of None \<Rightarrow> (False, False) | Some i \<Rightarrow> (flagged_private i, True))"

definition MagnetDisplayName :: "(string \<Rightarrow> Magnet option) \<Rightarrow> string \<Rightarrow> string option" where
  "MagnetDisplayName parse_magnet source =
     (if \<not> HasPrefix source ''magnet:'' then None
      else (case parse_magnet source of
              None \<Rightarrow> None
            | Some m \<Rightarrow> if mag_name m = [] then None else Some (mag_name m)))"

definition InfoHash :: "Source \<Rightarrow> (source_error, string) result" where
  "InfoHash s =
     (case src_magnet s of
        Some m \<Rightarrow> Inr (mag_hash m)
      | None \<Rightarrow> (case src_mi s of None \<Rightarrow> Inl EmptySource | Some mi \<Rightarrow> Inr (mi_hash mi)))"

section \<open>Configuration and the route decision\<close>

text \<open>\<open>cfg_Ports\<close> says whether the configuration carries the shared port pool.\<close>

record Config =
  cfg_DataDir :: string
  cfg_Upload :: bool
  cfg_DHT :: bool
  cfg_ListenPort :: int
  cfg_Ports :: bool
  cfg_Peers :: "string list"

datatype swarm_error =
    ErrNoMetadata
  | ErrPrivacyUnresolvable
  | ErrPrivateOnDHTClient
  | ErrSharedClientIsPublicOnly bool bool
  | ErrPoolClosed
  | ErrTorrentBusy string
  | NoPortAvailable
  | PortAndPorts int
  | StartFailed
  | SessionClosed
  | AddFailed
  | BadSource source_error

record onlineRoute =
  route_dht :: bool
  probeTrackersFirst :: bool
  blind :: bool
  route_err :: "swarm_error option"

definition routeFor :: "Config \<Rightarrow> Source \<Rightarrow> onlineRoute" where
  "routeFor cfg src =
     (case Privacy src of (private, known) \<Rightarrow>
       if known then
         \<lparr>route_dht = cfg_DHT cfg \<and> \<not> private, probeTrackersFirst = False, blind = False, route_err = None\<rparr>
       else if length (Trackers src) > 0 then
         \<lparr>route_dht = False, probeTrackersFirst = cfg_DHT cfg, blind = False, route_err = None\<rparr>
       else if \<not> cfg_DHT cfg then
         \<lparr>route_dht = False, probeTrackersFirst = False, blind = False,
          route_err = Some ErrPrivacyUnresolvable\<rparr>
       else \<lparr>route_dht = True, probeTrackersFirst = False, blind = True, route_err = None\<rparr>)"

text \<open>What parsing guarantees of a source: it is a magnet that knows nothing yet, or a file
  whose info dictionary is the one its metainfo holds.\<close>

definition wf_source :: "Source \<Rightarrow> bool" where
  "wf_source s \<longleftrightarrow>
     (case src_magnet s of
        Some m \<Rightarrow> src_mi s = None \<and> src_info s = None
      | None \<Rightarrow> (\<exists>mi. src_mi s = Some mi \<and> src_info s = mi_info mi \<and> mi_info mi \<noteq> None))"

lemma ParseSource_wf: "ParseSource pm rd ld s = Inr src \<Longrightarrow> wf_source src"
  by (auto simp: ParseSource_def wf_source_def split: if_splits option.splits)

lemma wf_source_known: "wf_source s \<Longrightarrow> snd (Privacy s) \<longleftrightarrow> \<not> IsMagnet s"
  by (auto simp: wf_source_def Privacy_def IsMagnet_def split: option.splits)

end
