(* ===== verification/Ports.thy ===== *)
theory Ports
  imports GoText
begin

text \<open>
  \<^verbatim>\<open>internal/swarm/ports.go\<close>: the set of BitTorrent ports an operator allocated, its
  textual form, and the pool that hands the ports out one client at a time.

  \<open>PortSet\<close>, \<open>ParsePortSet\<close>, \<open>parsePort\<close> and \<open>PortSet_String\<close> are
  the value type and its parser and printer; \<open>PortPool\<close> and \<open>PortLease\<close> with
  \<open>Acquire\<close> and \<open>Release\<close> are the shared state. The locale \<open>slot_pool\<close>
  is what a client of the pool relies on: taking and putting back conserve the slots.
\<close>

section \<open>Port sets\<close>

record PortSet =
  ports :: "int list"

datatype port_error =
    NoPortsGiven
  | EmptyEntry string
  | NotAPort string
  | PortOutside int
  | RunsBackwards string
  | ListedTwice int

text \<open>\<^verbatim>\<open>seen\<close> in the source is the set of the ports appended so far, so membership
  in the list built so far is the same test.\<close>

definition add_port :: "int list \<Rightarrow> int \<Rightarrow> (port_error, int list) result" where
  "add_port acc port = (if port \<in> set acc then Inl (ListedTwice port) else Inr (acc @ [port]))"

fun add_ports :: "int list \<Rightarrow> int list \<Rightarrow> (port_error, int list) result" where
  "add_ports acc [] = Inr acc"
| "add_ports acc (p # ps) = bind_result (add_port acc p) (\<lambda>acc'. add_ports acc' ps)"

definition parsePort :: "string \<Rightarrow> (port_error, int) result" where
  "parsePort s =
     (case Atoi s of
        None \<Rightarrow> Inl (NotAPort s)
      | Some port \<Rightarrow> if port < 1 \<or> 65535 < port then Inl (PortOutside port) else Inr port)"

text \<open>One pass of the loop over the comma separated items.\<close>

definition parse_item :: "string \<Rightarrow> int list \<Rightarrow> string \<Rightarrow> (port_error, int list) result" where
  "parse_item spec acc raw =
     (let item = TrimSpace raw in
      if item = [] then Inl (EmptyEntry spec)
      else (case Cut item (CHR ''-'') of (lo, hi, isRange) \<Rightarrow>
        if \<not> isRange then bind_result (parsePort item) (add_port acc)
        else bind_result (parsePort (TrimSpace lo)) (\<lambda>first.
             bind_result (parsePort (TrimSpace hi)) (\<lambda>last.
             if first > last then Inl (RunsBackwards item)
             else add_ports acc [first..last]))))"

fun parse_items :: "string \<Rightarrow> int list \<Rightarrow> string list \<Rightarrow> (port_error, int list) result" where
  "parse_items spec acc [] = Inr acc"
| "parse_items spec acc (raw # items) =
     bind_result (parse_item spec acc raw) (\<lambda>acc'. parse_items spec acc' items)"

definition ParsePortSet :: "string \<Rightarrow> (port_error, PortSet) result" where
  "ParsePortSet spec =
     (if TrimSpace spec = [] then Inl NoPortsGiven
      else bind_result (parse_items spec [] (Split spec (CHR '',''))) (\<lambda>ps. Inr \<lparr>ports = sort ps\<rparr>))"

definition PortSet_Managed :: "PortSet \<Rightarrow> bool" where
  "PortSet_Managed s \<longleftrightarrow> 0 < length (ports s)"

definition PortSet_Len :: "PortSet \<Rightarrow> nat" where
  "PortSet_Len s = length (ports s)"

definition PortSet_Ports :: "PortSet \<Rightarrow> int list" where
  "PortSet_Ports s = ports s"

text \<open>\<^verbatim>\<open>PortSet.String\<close>: the inner loop extends a run of consecutive ports, the
  outer one renders a run and moves past it.\<close>

fun extend_run :: "int \<Rightarrow> int list \<Rightarrow> int \<times> int list" where
  "extend_run l [] = (l, [])"
| "extend_run l (p # ps) = (if p = l + 1 then extend_run p ps else (l, p # ps))"

lemma extend_run_length: "length (snd (extend_run l ps)) \<le> length ps"
  by (induction l ps rule: extend_run.induct) auto

function render_runs :: "int list \<Rightarrow> string list" where
  "render_runs [] = []"
| "render_runs (p # ps) =
     (let (l, rest) = extend_run p ps
      in (if l = p then Itoa p else Itoa p @ ''-'' @ Itoa l) # render_runs rest)"
  by pat_completeness auto
termination
proof (relation "measure length")
  fix p :: int and ps x l rest
  assume "x = extend_run p ps" "(l, rest) = x"
  then show "(rest, p # ps) \<in> measure length"
    using extend_run_length [of p ps] by (metis in_measure le_imp_less_Suc length_Cons snd_conv)
qed simp

definition PortSet_String :: "PortSet \<Rightarrow> string" where
  "PortSet_String s = Join (render_runs (ports s)) '',''"

section \<open>What the parser accepts\<close>

definition bindable :: "int \<Rightarrow> bool" where
  "bindable p \<longleftrightarrow> 1 \<le> p \<and> p \<le> 65535"

text \<open>The well-formedness a parsed set has: ascending, free of duplicates, every port one a
  client could bind, and not empty (the empty set is the unmanaged one).\<close>

definition valid_PortSet :: "PortSet \<Rightarrow> bool" where
  "valid_PortSet s \<longleftrightarrow> ports s \<noteq> [] \<and> sorted_wrt (<) (ports s) \<and> (\<forall>p \<in> set (ports s). bindable p)"

lemma parsePort_Inr: "parsePort s = Inr p \<Longrightarrow> bindable p"
  by (auto simp: parsePort_def bindable_def split: option.splits if_splits)

lemma add_port_Inr:
  "add_port acc p = Inr acc' \<longleftrightarrow> p \<notin> set acc \<and> acc' = acc @ [p]"
  by (auto simp: add_port_def)

lemma add_ports_Inr:
  "add_ports acc ps = Inr acc' \<longleftrightarrow> acc' = acc @ ps \<and> distinct ps \<and> set ps \<inter> set acc = {}"
  by (induction acc ps arbitrary: acc' rule: add_ports.induct)
     (auto simp: bind_result_Inr add_port_Inr)

lemma parse_item_Inr:
  assumes "parse_item spec acc raw = Inr acc'" "distinct acc" "\<forall>p \<in> set acc. bindable p"
  shows "distinct acc' \<and> (\<forall>p \<in> set acc'. bindable p) \<and> length acc < length acc'"
proof -
  obtain lo hi r where cut: "Cut (TrimSpace raw) (CHR ''-'') = (lo, hi, r)"
    by (metis prod_cases3)
  show ?thesis
  proof (cases r)
    case False
    with assms cut show ?thesis
      by (auto simp: parse_item_def Let_def bind_result_Inr add_port_Inr
          dest: parsePort_Inr split: if_splits)
  next
    case True
    with assms(1) cut obtain a b where ab:
      "parsePort (TrimSpace lo) = Inr a" "parsePort (TrimSpace hi) = Inr b"
      "a \<le> b" "add_ports acc [a..b] = Inr acc'"
      by (auto simp: parse_item_def Let_def bind_result_Inr split: if_splits)
    from ab(1,2) have "bindable a" "bindable b" by (auto dest: parsePort_Inr)
    with ab(3,4) assms(2,3) show ?thesis
      by (auto simp: add_ports_Inr bindable_def)
  qed
qed

lemma parse_items_Inr:
  assumes "parse_items spec acc items = Inr acc'" "distinct acc" "\<forall>p \<in> set acc. bindable p"
  shows "distinct acc' \<and> (\<forall>p \<in> set acc'. bindable p) \<and> length acc + length items \<le> length acc'"
  using assms
proof (induction spec acc items arbitrary: acc' rule: parse_items.induct)
  case (2 spec acc raw items)
  from "2.prems"(1) obtain acc1 where one: "parse_item spec acc raw = Inr acc1"
    and rest: "parse_items spec acc1 items = Inr acc'"
    by (auto simp: bind_result_Inr)
  have acc1: "distinct acc1" "\<forall>p \<in> set acc1. bindable p" "length acc < length acc1"
    using parse_item_Inr [OF one "2.prems"(2,3)] by simp_all
  from "2.IH" [OF rest acc1(1,2)] acc1(3) show ?case by auto
qed simp

lemma ParsePortSet_valid: "ParsePortSet spec = Inr s \<Longrightarrow> valid_PortSet s"
proof -
  assume "ParsePortSet spec = Inr s"
  then obtain ps where ps: "parse_items spec [] (Split spec (CHR '','')) = Inr ps"
    and s: "s = \<lparr>ports = sort ps\<rparr>"
    by (auto simp: ParsePortSet_def bind_result_Inr split: if_splits)
  have "distinct ps" "\<forall>p \<in> set ps. bindable p" "length (Split spec (CHR '','')) \<le> length ps"
    using parse_items_Inr [OF ps] by simp_all
  moreover from this have "ps \<noteq> []"
    using Split_nonempty [of spec "CHR '',''"] by (cases ps) auto
  ultimately show ?thesis
    by (auto simp: valid_PortSet_def s intro: sorted_distinct_less)
       (metis length_sort list.size(3) length_0_conv)
qed

section \<open>Printing and parsing back\<close>

text \<open>A rendered run parses back to the consecutive ports it stands for.\<close>

lemma extend_run_split:
  assumes "extend_run p ps = (l, rest)"
  shows "p # ps = [p..l] @ rest \<and> p \<le> l"
  using assms
proof (induction p ps rule: extend_run.induct)
  case (2 q p ps)
  show ?case
  proof (cases "p = q + 1")
    case True
    with 2 have "p # ps = [p..l] @ rest" "p \<le> l" by simp_all
    with True show ?thesis by (simp add: upto.simps [of q l])
  qed (use "2.prems" in simp)
qed simp

definition run_str :: "int \<Rightarrow> int \<Rightarrow> string" where
  "run_str p l = (if l = p then Itoa p else Itoa p @ ''-'' @ Itoa l)"

lemma render_runs_Cons:
  "render_runs (p # ps) = (case extend_run p ps of (l, rest) \<Rightarrow> run_str p l # render_runs rest)"
  by (auto simp: run_str_def split: prod.split)

declare render_runs.simps(2) [simp del]

lemma parsePort_Itoa: "bindable p \<Longrightarrow> parsePort (Itoa p) = Inr p"
  by (simp add: parsePort_def bindable_def ParseInt_Itoa max_i64_def)

lemma Itoa_trim: "0 \<le> n \<Longrightarrow> TrimSpace (Itoa n) = Itoa n"
  by (rule TrimSpace_id) (use Itoa_chars in blast)

lemma run_str_chars:
  assumes "bindable p" "bindable l" "c \<in> set (run_str p l)"
  shows "c \<noteq> CHR '','' \<and> \<not> is_space c"
  using assms Itoa_chars [of p c] Itoa_chars [of l c]
  by (auto simp: run_str_def bindable_def is_space_def split: if_splits)

lemma run_str_nonempty: "run_str p l \<noteq> []"
  by (simp add: run_str_def Itoa_nonempty)

lemma parse_item_run_str:
  assumes "bindable p" "bindable l" "p \<le> l" "set acc \<inter> {p..l} = {}"
  shows "parse_item spec acc (run_str p l) = Inr (acc @ [p..l])"
proof -
  have trim: "TrimSpace (run_str p l) = run_str p l"
    by (rule TrimSpace_id) (use run_str_chars assms(1,2) in blast)
  have no_dash: "CHR ''-'' \<notin> set (Itoa q)" if "bindable q" for q
    using Itoa_chars [of q] that by (auto simp: bindable_def)
  show ?thesis
  proof (cases "l = p")
    case True
    with assms trim no_dash [of p] show ?thesis
      by (simp add: parse_item_def run_str_def Itoa_nonempty Cut_absent parsePort_Itoa add_port_def)
  next
    case False
    have "Cut (Itoa p @ CHR ''-'' # Itoa l) (CHR ''-'') = (Itoa p, Itoa l, True)"
      by (rule Cut_append) (rule no_dash [OF assms(1)])
    moreover have "add_ports acc [p..l] = Inr (acc @ [p..l])"
      using assms(4) by (auto simp: add_ports_Inr)
    moreover have "0 \<le> p" "0 \<le> l" using assms(1,2) by (simp_all add: bindable_def)
    ultimately show ?thesis
      using False assms(1,2,3) trim
      by (simp add: parse_item_def run_str_def Itoa_trim parsePort_Itoa)
  qed
qed

lemma parse_items_render:
  assumes "distinct (acc @ ps)" "\<forall>p \<in> set ps. bindable p"
  shows "parse_items spec acc (render_runs ps) = Inr (acc @ ps)"
  using assms
proof (induction ps arbitrary: acc rule: render_runs.induct)
  case (2 p ps)
  obtain l rest where run: "extend_run p ps = (l, rest)" by fastforce
  then have split: "p # ps = [p..l] @ rest" and le: "p \<le> l"
    using extend_run_split by blast+
  have "distinct (acc @ [p..l] @ rest)" "\<forall>q \<in> set ([p..l] @ rest). bindable q"
    using "2.prems" unfolding split by simp_all
  then have d: "distinct ((acc @ [p..l]) @ rest)" "\<forall>q \<in> set rest. bindable q"
    "set acc \<inter> {p..l} = {}" "bindable p" "bindable l"
    using le by auto
  have "parse_items spec (acc @ [p..l]) (render_runs rest) = Inr ((acc @ [p..l]) @ rest)"
    by (rule "2.IH" [OF run [symmetric] refl d(1,2)])
  moreover have "render_runs (p # ps) = run_str p l # render_runs rest"
    by (simp add: render_runs_Cons run)
  moreover have "parse_item spec acc (run_str p l) = Inr (acc @ [p..l])"
    using d(3-5) le by (simp add: parse_item_run_str)
  ultimately show ?case
    by (simp only: split parse_items.simps bind_result.simps append_assoc)
qed simp

lemma render_runs_items:
  "\<forall>p \<in> set ps. bindable p \<Longrightarrow> item \<in> set (render_runs ps) \<Longrightarrow>
   item \<noteq> [] \<and> (\<forall>c \<in> set item. c \<noteq> CHR '','' \<and> \<not> is_space c)"
proof (induction ps rule: render_runs.induct)
  case (2 p ps)
  obtain l rest where run: "extend_run p ps = (l, rest)" by fastforce
  then have split: "p # ps = [p..l] @ rest" and le: "p \<le> l"
    using extend_run_split by blast+
  have b: "\<forall>q \<in> set ([p..l] @ rest). bindable q"
    using "2.prems"(1) unfolding split .
  then have pl: "bindable p" "bindable l" and rest: "\<forall>q \<in> set rest. bindable q"
    using le by auto
  from "2.prems"(2) consider "item = run_str p l" | "item \<in> set (render_runs rest)"
    by (auto simp: render_runs_Cons run)
  then show ?case
  proof cases
    case 1
    then show ?thesis
      using run_str_chars [OF pl] by (simp add: run_str_nonempty)
  next
    case 2
    with "2.IH" [OF run [symmetric] refl rest] show ?thesis by blast
  qed
qed simp

lemma Join_chars: "c \<in> set (Join xs sep) \<Longrightarrow> c \<in> set sep \<or> (\<exists>x \<in> set xs. c \<in> set x)"
  by (induction xs sep rule: Join.induct) auto

lemma render_runs_nonempty: "ps \<noteq> [] \<Longrightarrow> render_runs ps \<noteq> []"
  by (cases ps) (auto simp: render_runs_Cons split: prod.splits)

lemma Join_nonempty: "xs \<noteq> [] \<Longrightarrow> \<forall>x \<in> set xs. x \<noteq> [] \<Longrightarrow> Join xs sep \<noteq> []"
  by (induction xs sep rule: Join.induct) auto

lemma ParsePortSet_String:
  assumes "valid_PortSet s"
  shows "ParsePortSet (PortSet_String s) = Inr s"
proof -
  from assms have ne: "ports s \<noteq> []" and sorted: "sorted_wrt (<) (ports s)"
    and b: "\<forall>p \<in> set (ports s). bindable p"
    by (auto simp: valid_PortSet_def)
  let ?items = "render_runs (ports s)"
  have items: "\<forall>i \<in> set ?items. i \<noteq> [] \<and> (\<forall>c \<in> set i. c \<noteq> CHR '','' \<and> \<not> is_space c)"
    using render_runs_items [OF b] by blast
  have "TrimSpace (Join ?items '','') = Join ?items '',''"
  proof (rule TrimSpace_id)
    fix c assume "c \<in> set (Join ?items '','')"
    then consider "c = CHR '',''" | "\<exists>i \<in> set ?items. c \<in> set i"
      using Join_chars by fastforce
    then show "\<not> is_space c"
      by cases (use items in \<open>auto simp: is_space_def\<close>)
  qed
  moreover have "Join ?items '','' \<noteq> []"
    by (rule Join_nonempty) (use items ne render_runs_nonempty in auto)
  moreover have "Split (Join ?items '','') (CHR '','') = ?items"
    by (rule Split_Join) (use items ne render_runs_nonempty in auto)
  moreover have "parse_items spec [] ?items = Inr (ports s)" for spec
    using parse_items_render [of "[]" "ports s"] sorted b
    by (simp add: sorted_wrt_less_distinct)
  moreover have "sort (ports s) = ports s"
    using strict_sorted_imp_sorted [OF sorted] by (simp add: sorted_sort_id)
  ultimately show ?thesis
    by (simp add: ParsePortSet_def PortSet_String_def)
qed

section \<open>The pool and its leases\<close>

text \<open>The interface a user of the pool relies on. \<open>slots\<close> is what is not handed out,
  \<open>keep\<close> is the part of the state no operation changes.\<close>

locale slot_pool =
  fixes take_slot :: "'s \<Rightarrow> ('p \<times> 's) option"
    and put_slot :: "'p \<Rightarrow> 's \<Rightarrow> 's"
    and slots :: "'s \<Rightarrow> 'p list"
  assumes take_none: "take_slot s = None \<longleftrightarrow> slots s = []"
    and take_some: "take_slot s = Some (p, s') \<Longrightarrow> slots s = p # slots s'"
    and put: "slots (put_slot p s) = slots s @ [p]"
begin

lemma take_mset: "take_slot s = Some (p, s') \<Longrightarrow> mset (slots s) = add_mset p (mset (slots s'))"
  by (simp add: take_some)

lemma put_mset: "mset (slots (put_slot p s)) = add_mset p (mset (slots s))"
  by (simp add: put)

text \<open>First in, first out: a slot handed back is not handed out again while another one is
  free, which is what keeps a just released port out of the next client's hands.\<close>

lemma put_then_take:
  assumes "slots s \<noteq> []" "take_slot (put_slot p s) = Some (q, s')"
  shows "q = hd (slots s) \<and> slots s' = tl (slots s) @ [p]"
  using take_some [OF assms(2)] assms(1) by (cases "slots s") (auto simp: put)

end

text \<open>\<^verbatim>\<open>free\<close> is a queue: Acquire takes its head, a port handed back goes to its end.\<close>

record PortPool =
  pool_set :: PortSet
  free :: "int list"

text \<open>A lease remembers whether it still points at its pool; Release clears that pointer.
  An unmanaged pool leases port 0.\<close>

record PortLease =
  lease_pool :: bool
  lease_port :: int

datatype acquire_error = ErrNoPortAvailable nat PortSet

definition NewPortPool :: "PortSet \<Rightarrow> PortPool" where
  "NewPortPool s = \<lparr>pool_set = s, free = PortSet_Ports s\<rparr>"

definition Acquire :: "PortPool \<Rightarrow> (acquire_error, PortLease \<times> PortPool) result" where
  "Acquire p =
     (if \<not> PortSet_Managed (pool_set p) then Inr (\<lparr>lease_pool = True, lease_port = 0\<rparr>, p)
      else (case free p of
          [] \<Rightarrow> Inl (ErrNoPortAvailable (PortSet_Len (pool_set p)) (pool_set p))
        | port # rest \<Rightarrow> Inr (\<lparr>lease_pool = True, lease_port = port\<rparr>, p\<lparr>free := rest\<rparr>)))"

definition put_port :: "int \<Rightarrow> PortPool \<Rightarrow> PortPool" where
  "put_port port p = (if port = 0 then p else p\<lparr>free := free p @ [port]\<rparr>)"

text \<open>The lease pointer may be nil: \<^verbatim>\<open>Port\<close> and \<^verbatim>\<open>Release\<close> accept it.\<close>

definition Lease_Port :: "PortLease option \<Rightarrow> int" where
  "Lease_Port l = (case l of None \<Rightarrow> 0 | Some l \<Rightarrow> lease_port l)"

definition Release :: "PortLease option \<Rightarrow> PortPool \<Rightarrow> PortLease option \<times> PortPool" where
  "Release l p =
     (case l of
        None \<Rightarrow> (None, p)
      | Some l \<Rightarrow> if \<not> lease_pool l then (Some l, p)
                  else (Some (l\<lparr>lease_pool := False\<rparr>), put_port (lease_port l) p))"

definition Pool_Free :: "PortPool \<Rightarrow> nat" where
  "Pool_Free p = length (free p)"

definition Pool_Size :: "PortPool \<Rightarrow> nat" where
  "Pool_Size p = PortSet_Len (pool_set p)"

lemma Acquire_set: "Acquire p = Inr (l, p') \<Longrightarrow> pool_set p' = pool_set p"
  by (auto simp: Acquire_def split: if_splits list.splits)

lemma put_port_set [simp]: "pool_set (put_port q p) = pool_set p"
  by (simp add: put_port_def)

lemma Release_set: "Release l p = (l', p') \<Longrightarrow> pool_set p' = pool_set p"
  by (auto simp: Release_def split: option.splits if_splits)

text \<open>The managed pool implements the interface, on ports other than 0.\<close>

definition take_free :: "PortPool \<Rightarrow> (int \<times> PortPool) option" where
  "take_free p = (case free p of [] \<Rightarrow> None | port # rest \<Rightarrow> Some (port, p\<lparr>free := rest\<rparr>))"

definition put_free :: "int \<Rightarrow> PortPool \<Rightarrow> PortPool" where
  "put_free port p = p\<lparr>free := free p @ [port]\<rparr>"

interpretation port_pool: slot_pool take_free put_free free
  by unfold_locales (auto simp: take_free_def put_free_def split: list.splits)

lemma Acquire_managed:
  "PortSet_Managed (pool_set p) \<Longrightarrow>
   Acquire p = (case take_free p of
      None \<Rightarrow> Inl (ErrNoPortAvailable (Pool_Size p) (pool_set p))
    | Some (port, p') \<Rightarrow> Inr (\<lparr>lease_pool = True, lease_port = port\<rparr>, p'))"
  by (simp add: Acquire_def take_free_def Pool_Size_def split: list.split)

lemma put_port_free: "q \<noteq> 0 \<Longrightarrow> put_port q p = put_free q p"
  by (simp add: put_port_def put_free_def)

section \<open>Clients taking and returning ports in any order\<close>

text \<open>One pool shared by every client of a process: a schedule is any sequence of acquires and
  releases, releases of leases already handed back included.\<close>

record port_world =
  pool :: PortPool
  leases :: "PortLease list"

datatype port_event = Take | Give nat

fun port_step :: "port_world \<Rightarrow> port_event \<Rightarrow> port_world" where
  "port_step w Take =
     (case Acquire (pool w) of
        Inl e \<Rightarrow> w
      | Inr (l, p) \<Rightarrow> w\<lparr>pool := p, leases := leases w @ [l]\<rparr>)"
| "port_step w (Give i) =
     (if i < length (leases w)
      then (case Release (Some (leases w ! i)) (pool w) of
              (None, p) \<Rightarrow> w
            | (Some l, p) \<Rightarrow> w\<lparr>pool := p, leases := (leases w)[i := l]\<rparr>)
      else w)"

definition port_run :: "PortSet \<Rightarrow> port_event list \<Rightarrow> port_world" where
  "port_run s evs = foldl port_step \<lparr>pool = NewPortPool s, leases = []\<rparr> evs"

definition live_ports :: "port_world \<Rightarrow> int list" where
  "live_ports w = map lease_port (filter lease_pool (leases w))"

text \<open>Every port of the set is either free or held by exactly one live lease.\<close>

definition ports_inv :: "PortSet \<Rightarrow> port_world \<Rightarrow> bool" where
  "ports_inv s w \<longleftrightarrow> pool_set (pool w) = s \<and>
     mset (free (pool w)) + mset (live_ports w) = mset (ports s)"

lemma valid_managed: "valid_PortSet s \<Longrightarrow> PortSet_Managed s"
  by (simp add: valid_PortSet_def PortSet_Managed_def)

lemma filter_update_False:
  assumes "i < length xs" "P (xs ! i)" "\<not> P y"
  shows "add_mset (f (xs ! i)) (mset (map f (filter P (xs[i := y])))) = mset (map f (filter P xs))"
  using assms
proof (induction xs arbitrary: i)
  case (Cons x xs)
  then show ?case by (cases i) (auto simp: add_mset_commute)
qed simp

lemma ports_inv_live:
  assumes "valid_PortSet s" "ports_inv s w"
  shows "distinct (live_ports w)" "set (live_ports w) \<subseteq> set (ports s)"
    "length (free (pool w)) + length (live_ports w) = length (ports s)"
proof -
  have m: "mset (free (pool w) @ live_ports w) = mset (ports s)"
    using assms(2) by (simp add: ports_inv_def)
  have "distinct (free (pool w) @ live_ports w)"
    using mset_eq_imp_distinct_iff [OF m] assms(1)
    by (simp add: valid_PortSet_def sorted_wrt_less_distinct)
  then show "distinct (live_ports w)" by simp
  show "set (live_ports w) \<subseteq> set (ports s)"
    using mset_eq_setD [OF m] by auto
  show "length (free (pool w)) + length (live_ports w) = length (ports s)"
    using mset_eq_length [OF m] by simp
qed

lemma ports_inv_step:
  assumes "valid_PortSet s" "ports_inv s w"
  shows "ports_inv s (port_step w e)"
proof (cases e)
  case Take
  then show ?thesis
    using assms valid_managed
    by (auto simp: ports_inv_def live_ports_def Acquire_def split: list.splits)
next
  case (Give i)
  show ?thesis
  proof (cases "i < length (leases w) \<and> lease_pool (leases w ! i)")
    case True
    let ?l = "leases w ! i"
    let ?w = "port_step w e"
    from True have "lease_port ?l \<in> set (live_ports w)"
      by (auto simp: live_ports_def)
    with ports_inv_live(2) [OF assms] have "lease_port ?l \<in> set (ports s)"
      by blast
    then have nz: "lease_port ?l \<noteq> 0"
      using assms(1) by (auto simp: valid_PortSet_def bindable_def)
    have step: "?w = w\<lparr>pool := put_port (lease_port ?l) (pool w),
        leases := (leases w)[i := ?l\<lparr>lease_pool := False\<rparr>]\<rparr>"
      using True Give by (simp add: Release_def)
    have leases: "leases ?w = (leases w)[i := ?l\<lparr>lease_pool := False\<rparr>]"
      by (simp add: step)
    have "add_mset (lease_port ?l) (mset (live_ports ?w)) = mset (live_ports w)"
      unfolding live_ports_def leases by (rule filter_update_False) (use True in simp_all)
    moreover have "mset (free (pool ?w)) = add_mset (lease_port ?l) (mset (free (pool w)))"
      using nz by (simp add: step put_port_def)
    moreover have "pool_set (pool ?w) = pool_set (pool w)"
      by (simp add: step)
    ultimately show ?thesis
      using assms(2) unfolding ports_inv_def
      by (metis union_mset_add_mset_left union_mset_add_mset_right)
  next
    case False
    then have "port_step w e = w"
      using Give by (auto simp: Release_def)
    with assms(2) show ?thesis by simp
  qed
qed

lemma ports_inv_run: "valid_PortSet s \<Longrightarrow> ports_inv s (port_run s evs)"
proof (induction evs rule: rev_induct)
  case Nil
  then show ?case
    by (simp add: port_run_def ports_inv_def live_ports_def NewPortPool_def PortSet_Ports_def)
next
  case (snoc e evs)
  then show ?case by (simp add: port_run_def ports_inv_step)
qed

section \<open>What the port pool promises\<close>

text \<open>C19: Every port specification the parser accepts denotes a non-empty, strictly ascending set
  of ports between 1 and 65535, and printing that set gives a specification that parses back to it.\<close>

theorem port_spec_roundtrip:
  assumes "ParsePortSet spec = Inr s"
  shows "ports s \<noteq> [] \<and> sorted_wrt (<) (ports s) \<and> (\<forall>p \<in> set (ports s). 1 \<le> p \<and> p \<le> 65535) \<and>
    ParsePortSet (PortSet_String s) = Inr s"
  using ParsePortSet_valid [OF assms] ParsePortSet_String [of s]
  by (simp add: valid_PortSet_def bindable_def)

theorem port_spec_roundtrip_witness:
  "ParsePortSet ''6881-6883, 7000'' = Inr \<lparr>ports = [6881, 6882, 6883, 7000]\<rparr> \<and>
   ParsePortSet (PortSet_String \<lparr>ports = [6881, 6882, 6883, 7000]\<rparr>) = Inr \<lparr>ports = [6881, 6882, 6883, 7000]\<rparr>"
proof -
  have "ParsePortSet ''6881-6883, 7000'' = Inr \<lparr>ports = [6881, 6882, 6883, 7000]\<rparr>" by code_simp
  then show ?thesis using port_spec_roundtrip by blast
qed

text \<open>Whatever clients acquire and release, in any order and with leases released twice, no two
  live leases have the same port, every leased port is one of the set, and an acquire is refused
  exactly when every port of the set is leased.\<close>

theorem ports_exclusive:
  fixes s evs
  defines "w \<equiv> port_run s evs"
  assumes "valid_PortSet s"
  shows "distinct (live_ports w) \<and> set (live_ports w) \<subseteq> set (ports s) \<and>
    ((\<exists>e. Acquire (pool w) = Inl e) \<longleftrightarrow> length (live_ports w) = PortSet_Len s)"
proof -
  have inv: "ports_inv s w" unfolding w_def by (rule ports_inv_run [OF assms(2)])
  note L = ports_inv_live [OF assms(2) inv]
  have "PortSet_Managed (pool_set (pool w))"
    using inv valid_managed [OF assms(2)] by (simp add: ports_inv_def)
  then have "(\<exists>e. Acquire (pool w) = Inl e) \<longleftrightarrow> take_free (pool w) = None"
    by (auto simp: Acquire_managed split: option.splits)
  also have "\<dots> \<longleftrightarrow> free (pool w) = []" by (rule port_pool.take_none)
  finally show ?thesis using L by (auto simp: PortSet_Len_def)
qed

theorem ports_exclusive_witness:
  "\<exists>e. Acquire (pool (port_run \<lparr>ports = [6881, 6882]\<rparr> [Take, Take, Give 0, Give 0, Take])) = Inl e"
proof -
  have "valid_PortSet \<lparr>ports = [6881, 6882]\<rparr>" by (simp add: valid_PortSet_def bindable_def)
  moreover have "length (live_ports (port_run \<lparr>ports = [6881, 6882]\<rparr> [Take, Take, Give 0, Give 0, Take])) = 2"
    by code_simp
  ultimately show ?thesis
    using ports_exclusive [of "\<lparr>ports = [6881, 6882]\<rparr>" "[Take, Take, Give 0, Give 0, Take]"]
    by (simp add: PortSet_Len_def)
qed

text \<open>Releasing a lease a second time changes nothing, and a released port goes to the back of
  the queue: while another port is free, the next acquire hands out that one.\<close>

theorem release_once_and_last:
  assumes "PortSet_Managed (pool_set p)" "lease_pool l" "lease_port l \<noteq> 0"
    and "Release (Some l) p = (l', p')"
  shows "Release l' p' = (l', p') \<and>
    (free p \<noteq> [] \<longrightarrow> (\<exists>l2 p2. Acquire p' = Inr (l2, p2) \<and> lease_port l2 = hd (free p) \<and>
       free p2 = tl (free p) @ [lease_port l]))"
proof -
  have p': "p' = put_free (lease_port l) p" and l': "l' = Some (l\<lparr>lease_pool := False\<rparr>)"
    using assms(2-4) by (auto simp: Release_def put_port_free)
  have "Release l' p' = (l', p')" by (simp add: Release_def l')
  moreover have "\<exists>l2 p2. Acquire p' = Inr (l2, p2) \<and> lease_port l2 = hd (free p) \<and>
      free p2 = tl (free p) @ [lease_port l]" if ne: "free p \<noteq> []"
  proof -
    have "free p' \<noteq> []" by (simp add: p' port_pool.put)
    then obtain q p2 where q: "take_free p' = Some (q, p2)"
      using port_pool.take_none [of p'] by fastforce
    have "q = hd (free p) \<and> free p2 = tl (free p) @ [lease_port l]"
      using port_pool.put_then_take [OF ne] q by (simp add: p')
    moreover have "PortSet_Managed (pool_set p')" using assms(1) by (simp add: p' put_free_def)
    ultimately show ?thesis using q by (simp add: Acquire_managed)
  qed
  ultimately show ?thesis by blast
qed

theorem release_once_and_last_witness:
  "\<exists>l2 p2. Acquire (snd (Release (Some \<lparr>lease_pool = True, lease_port = 6881\<rparr>)
       \<lparr>pool_set = \<lparr>ports = [6881, 6882]\<rparr>, free = [6882]\<rparr>)) = Inr (l2, p2) \<and> lease_port l2 = 6882"
  using release_once_and_last [of "\<lparr>pool_set = \<lparr>ports = [6881, 6882]\<rparr>, free = [6882]\<rparr>"
      "\<lparr>lease_pool = True, lease_port = 6881\<rparr>"]
  by (cases "Release (Some \<lparr>lease_pool = True, lease_port = 6881\<rparr>)
       \<lparr>pool_set = \<lparr>ports = [6881, 6882]\<rparr>, free = [6882]\<rparr>") (auto simp: PortSet_Managed_def)

end
