(* ===== verification/Sessions.thy ===== *)
theory Sessions
  imports Sources Ports
begin

text \<open>
  \<^verbatim>\<open>internal/swarm/session.go\<close>: BitTorrent clients, the one door every torrent enters a
  client through (\<open>addTo\<close>), and the opening orders that settle the private flag before a
  client with DHT starts.

  The anacrolix client is not code of the repository. What it answers is the argument
  \<open>env\<close> of every operation: whether a client starts, whether an add is accepted, what
  metadata arrives in time, what a \<^verbatim>\<open>.torrent\<close> path reads as when it is opened a second
  time. Its own visible behaviour is kept in the record \<open>Client\<close>: the torrents
  attached to it and the infohashes it has announced, which a client with DHT does from the
  moment a torrent is added.

  Sessions and leases are shared by pointer in the source, so they live in the store
  \<open>World\<close> and are named by their index.
\<close>

section \<open>Clients and the store\<close>

text \<open>\<open>te_info = None\<close> is a torrent whose metadata has not arrived. An announcement records
  whether the flag had been read as public before it went out.\<close>

record Entry =
  te_hash :: string
  te_info :: "Info option"
  te_peers :: "string list"

record Announcement =
  an_hash :: string
  an_settled :: bool

record Client =
  cl_torrents :: "Entry list"
  cl_announced :: "Announcement list"
  cl_received :: int

record Session =
  sess_cl :: "Client option"
  sess_cfg :: Config
  sess_lease :: "nat option"
  dhtOn :: bool
  blindly :: bool

record World =
  w_ports :: port_world
  w_sessions :: "Session list"
  w_clock :: nat
  w_discarded :: "string list"

record Env =
  start_ok :: "nat \<Rightarrow> bool"
  add_ok :: "nat \<Rightarrow> bool"
  fetched :: "nat \<Rightarrow> Info option"
  reread :: "nat \<Rightarrow> string \<Rightarrow> MetaInfo"

record Torrent =
  t_hash :: string
  t_info :: Info

definition Private :: "Torrent \<Rightarrow> bool" where
  "Private t = flagged_private (t_info t)"

definition get_session :: "World \<Rightarrow> nat \<Rightarrow> Session" where
  "get_session w h = w_sessions w ! h"

definition set_session :: "nat \<Rightarrow> Session \<Rightarrow> World \<Rightarrow> World" where
  "set_session h s w = w\<lparr>w_sessions := (w_sessions w)[h := s]\<rparr>"

definition tick :: "World \<Rightarrow> World" where
  "tick w = w\<lparr>w_clock := Suc (w_clock w)\<rparr>"

definition discardPieces :: "string \<Rightarrow> string \<Rightarrow> World \<Rightarrow> World" where
  "discardPieces dataDir hash w =
     (if dataDir = [] \<or> hash = [] then w else w\<lparr>w_discarded := w_discarded w @ [hash]\<rparr>)"

section \<open>Ports for clients\<close>

text \<open>\<open>Some i\<close> is the handle of a lease. A failed Acquire changes nothing.\<close>

definition acquire_lease :: "World \<Rightarrow> (swarm_error, nat \<times> int \<times> World) result" where
  "acquire_lease w =
     (case Acquire (pool (w_ports w)) of
        Inl e \<Rightarrow> Inl NoPortAvailable
      | Inr (l, p) \<Rightarrow> Inr (length (leases (w_ports w)), lease_port l,
                          w\<lparr>w_ports := port_step (w_ports w) Take\<rparr>))"

definition release_lease :: "nat option \<Rightarrow> World \<Rightarrow> World" where
  "release_lease l w =
     (case l of None \<Rightarrow> w | Some i \<Rightarrow> w\<lparr>w_ports := port_step (w_ports w) (Give i)\<rparr>)"

definition leasePort :: "Config \<Rightarrow> World \<Rightarrow> (swarm_error, nat option \<times> int \<times> World) result" where
  "leasePort c w =
     (if \<not> cfg_Ports c then Inr (None, cfg_ListenPort c, w)
      else if cfg_ListenPort c \<noteq> 0 then Inl (PortAndPorts (cfg_ListenPort c))
      else bind_result (acquire_lease w) (\<lambda>(l, port, w'). Inr (Some l, port, w')))"

section \<open>Starting, adding, closing\<close>

text \<open>The store grows only when the client started; the storage a failed start opened is closed
  again and leaves nothing.\<close>

definition fresh_session :: "Config \<Rightarrow> bool \<Rightarrow> Session" where
  "fresh_session cfg dht =
     \<lparr>sess_cl = Some \<lparr>cl_torrents = [], cl_announced = [], cl_received = 0\<rparr>,
      sess_cfg = cfg, sess_lease = None, dhtOn = dht, blindly = False\<rparr>"

definition grow :: "Session \<Rightarrow> World \<Rightarrow> World" where
  "grow s w = w\<lparr>w_sessions := w_sessions w @ [s]\<rparr>"

definition newSession :: "Env \<Rightarrow> Config \<Rightarrow> bool \<Rightarrow> World \<Rightarrow> (swarm_error, nat) result \<times> World" where
  "newSession env cfg dht w =
     (if start_ok env (w_clock w)
      then (Inr (length (w_sessions w)), tick (grow (fresh_session cfg dht) w))
      else (Inl StartFailed, tick w))"

definition privacyInHand :: "Source \<Rightarrow> MetaInfo option \<Rightarrow> bool \<times> bool" where
  "privacyInHand src mi =
     (case mi of
        Some m \<Rightarrow> (case mi_info m of None \<Rightarrow> (False, False) | Some i \<Rightarrow> (flagged_private i, True))
      | None \<Rightarrow> Privacy src)"

text \<open>What the client makes of an add at one moment: the hash it goes by and the info the wait
  ends with. Info bytes handed over, or read from a file, satisfy the wait at once.\<close>

definition client_answer :: "Env \<Rightarrow> nat \<Rightarrow> Source \<Rightarrow> MetaInfo option \<Rightarrow> string \<times> Info option" where
  "client_answer env n src mi =
     (case mi of
        Some m \<Rightarrow> (mi_hash m, mi_info m)
      | None \<Rightarrow>
         (case src_magnet src of
            Some m \<Rightarrow> (mag_hash m, fetched env n)
          | None \<Rightarrow> (let m = reread env n (src_raw src) in (mi_hash m, mi_info m))))"

definition attach_entry :: "Entry \<Rightarrow> bool \<Rightarrow> bool \<Rightarrow> Client \<Rightarrow> Client" where
  "attach_entry e dht settled c =
     c\<lparr>cl_torrents := cl_torrents c @ [e],
       cl_announced := cl_announced c @
         (if dht then [\<lparr>an_hash = te_hash e, an_settled = settled\<rparr>] else [])\<rparr>"

definition drop_entry :: "string \<Rightarrow> Client \<Rightarrow> Client" where
  "drop_entry hash c = c\<lparr>cl_torrents := filter (\<lambda>e. te_hash e \<noteq> hash) (cl_torrents c)\<rparr>"

text \<open>The wait for metadata ends with the metadata or without. Where the caller's context is over and the metadata
is in hand at once, the code's \<^verbatim>\<open>select\<close> may go either way; the model takes the metadata.\<close>

definition addTo ::
  "Env \<Rightarrow> nat \<Rightarrow> Source \<Rightarrow> MetaInfo option \<Rightarrow> string list \<Rightarrow> World
   \<Rightarrow> (swarm_error, Torrent) result \<times> World" where
  "addTo env h src mi peers w =
     (let s = get_session w h in
      case sess_cl s of
        None \<Rightarrow> (Inl SessionClosed, w)
      | Some c \<Rightarrow>
        (case privacyInHand src mi of (private, known) \<Rightarrow>
          if known \<and> private \<and> dhtOn s then (Inl ErrPrivateOnDHTClient, w)
          else if \<not> add_ok env (w_clock w) then (Inl AddFailed, tick w)
          else (case client_answer env (w_clock w) src mi of (hash, answer) \<Rightarrow>
            let entry = \<lparr>te_hash = hash, te_info = answer, te_peers = peers\<rparr>;
                c' = attach_entry entry (dhtOn s) known c;
                w' = tick (set_session h (s\<lparr>sess_cl := Some c'\<rparr>) w)
            in (case answer of
                  None \<Rightarrow> (Inl ErrNoMetadata, w')
                | Some info \<Rightarrow>
                    if \<not> known \<and> flagged_private info \<and> dhtOn s then
                      (Inl ErrPrivateOnDHTClient,
                       discardPieces (cfg_DataDir (sess_cfg s)) hash
                         (set_session h (s\<lparr>sess_cl := Some (drop_entry hash c')\<rparr>) w'))
                    else (Inr \<lparr>t_hash = hash, t_info = info\<rparr>, w')))))"

definition add ::
  "Env \<Rightarrow> nat \<Rightarrow> Source \<Rightarrow> MetaInfo option \<Rightarrow> World \<Rightarrow> (swarm_error, Torrent) result \<times> World" where
  "add env h src mi w = addTo env h src mi (cfg_Peers (sess_cfg (get_session w h))) w"

definition Close :: "nat \<Rightarrow> World \<Rightarrow> World" where
  "Close h w =
     (let s = get_session w h in
      case sess_cl s of
        None \<Rightarrow> w
      | Some c \<Rightarrow> set_session h (s\<lparr>sess_cl := None, sess_lease := None\<rparr>) (release_lease (sess_lease s) w))"

definition Received :: "World \<Rightarrow> nat \<Rightarrow> int" where
  "Received w h = (case sess_cl (get_session w h) of None \<Rightarrow> 0 | Some c \<Rightarrow> cl_received c)"

text \<open>A client that was opened with DHT counts as using it, whether or not a DHT server of it has come up.\<close>

definition UsesDHT :: "World \<Rightarrow> nat \<Rightarrow> bool" where
  "UsesDHT w h \<longleftrightarrow> dhtOn (get_session w h) \<and> sess_cl (get_session w h) \<noteq> None"

definition WentOnlineBlind :: "World \<Rightarrow> nat \<Rightarrow> bool" where
  "WentOnlineBlind w h \<longleftrightarrow> blindly (get_session w h)"

section \<open>Opening a source\<close>

definition mark_blind :: "bool \<Rightarrow> nat \<Rightarrow> World \<Rightarrow> World" where
  "mark_blind b h w = set_session h ((get_session w h)\<lparr>blindly := b\<rparr>) w"

definition give_lease :: "nat option \<Rightarrow> nat \<Rightarrow> World \<Rightarrow> World" where
  "give_lease l h w = set_session h ((get_session w h)\<lparr>sess_lease := l\<rparr>) w"

definition openBlind ::
  "Env \<Rightarrow> Config \<Rightarrow> Source \<Rightarrow> World \<Rightarrow> (swarm_error, nat \<times> Torrent) result \<times> World" where
  "openBlind env cfg src w =
     (case newSession env cfg True w of
        (Inl e, w1) \<Rightarrow> (Inl e, w1)
      | (Inr h, w1) \<Rightarrow>
          (case add env h src None (mark_blind True h w1) of
             (Inl e, w2) \<Rightarrow> (Inl e, Close h w2)
           | (Inr t, w2) \<Rightarrow> (Inr (h, t), w2)))"

text \<open>The metainfo the client generates for a torrent whose info has arrived.\<close>

definition metainfo_of :: "Source \<Rightarrow> Torrent \<Rightarrow> MetaInfo" where
  "metainfo_of src t = \<lparr>mi_hash = t_hash t, mi_announce = [Trackers src], mi_info = Some (t_info t)\<rparr>"

definition openOnPort ::
  "Env \<Rightarrow> Config \<Rightarrow> Source \<Rightarrow> onlineRoute \<Rightarrow> World \<Rightarrow> (swarm_error, nat \<times> Torrent) result \<times> World" where
  "openOnPort env cfg src route w =
     (case newSession env cfg (route_dht route) w of
        (Inl e, w1) \<Rightarrow> (Inl e, w1)
      | (Inr h, w1) \<Rightarrow>
          (case add env h src None (mark_blind (blind route) h w1) of
             (Inl e, w2) \<Rightarrow>
               if \<not> probeTrackersFirst route then (Inl e, Close h w2)
               else openBlind env cfg src (Close h w2)
           | (Inr t, w2) \<Rightarrow>
               if \<not> probeTrackersFirst route \<or> Private t then (Inr (h, t), w2)
               else (case newSession env cfg True (Close h w2) of
                       (Inl e, w3) \<Rightarrow> (Inl e, w3)
                     | (Inr h', w3) \<Rightarrow>
                         (case add env h' src (Some (metainfo_of src t)) w3 of
                            (Inl e, w4) \<Rightarrow> (Inl e, Close h' w4)
                          | (Inr t', w4) \<Rightarrow> (Inr (h', t'), w4)))))"

definition Open ::
  "Env \<Rightarrow> Config \<Rightarrow> Source \<Rightarrow> World \<Rightarrow> (swarm_error, nat \<times> Torrent) result \<times> World" where
  "Open env cfg src w =
     (let route = routeFor cfg src in
      case route_err route of
        Some e \<Rightarrow> (Inl e, w)
      | None \<Rightarrow>
        (case leasePort cfg w of
           Inl e \<Rightarrow> (Inl e, w)
         | Inr (lease, port, w1) \<Rightarrow>
             (case openOnPort env (cfg\<lparr>cfg_ListenPort := port\<rparr>) src route w1 of
                (Inl e, w2) \<Rightarrow> (Inl e, release_lease lease w2)
              | (Inr (h, t), w2) \<Rightarrow> (Inr (h, t), give_lease lease h w2))))"

end
