(* ===== verification/Pools.thy ===== *)
theory Pools
  imports Sessions "HOL-Library.AList"
begin

text \<open>
  \<^verbatim>\<open>internal/swarm/pool.go\<close>: the pool every run gets its torrent from. One long-lived
  client for every torrent known to be public, a client of its own for every other one.

  The pool's maps are association lists (\<open>held\<close> is a set of infohashes, \<open>alone\<close> maps
  an infohash to the session that torrent has to itself); a session is its index in the store.
\<close>

record Pool =
  p_cfg :: Config
  p_sess :: "nat option"
  held :: "string list"
  alone :: "(string \<times> nat) list"
  retired :: int
  p_closed :: bool

definition NewPool :: "Config \<Rightarrow> Pool" where
  "NewPool cfg = \<lparr>p_cfg = cfg, p_sess = None, held = [], alone = [], retired = 0, p_closed = False\<rparr>"

text \<open>\<open>att_sess = None\<close>: the torrent is in the shared client.\<close>

record Attachment =
  att_key :: string
  att_torrent :: Torrent
  att_sess :: "nat option"

type_synonym state = "Pool \<times> World"

definition reserve :: "string \<Rightarrow> Pool \<Rightarrow> (swarm_error, Pool) result" where
  "reserve key p =
     (if p_closed p then Inl ErrPoolClosed
      else if key \<in> set (held p) then Inl (ErrTorrentBusy key)
      else Inr (p\<lparr>held := key # held p\<rparr>))"

definition release :: "string \<Rightarrow> Pool \<Rightarrow> Pool" where
  "release key p = p\<lparr>held := removeAll key (held p)\<rparr>"

definition aloneOn :: "string \<Rightarrow> Torrent \<Rightarrow> nat \<Rightarrow> Pool \<Rightarrow> Attachment \<times> Pool" where
  "aloneOn key t h p =
     (\<lparr>att_key = key, att_torrent = t, att_sess = Some h\<rparr>, p\<lparr>alone := AList.update key h (alone p)\<rparr>)"

definition retire :: "string \<Rightarrow> nat \<Rightarrow> World \<Rightarrow> Pool \<Rightarrow> Pool" where
  "retire key h w p = p\<lparr>retired := retired p + Received w h, alone := AList.delete key (alone p)\<rparr>"

definition retireClient :: "nat \<Rightarrow> World \<Rightarrow> Pool \<Rightarrow> Pool" where
  "retireClient h w p = p\<lparr>retired := retired p + Received w h\<rparr>"

definition Downloaded :: "state \<Rightarrow> int" where
  "Downloaded st =
     (case st of (p, w) \<Rightarrow>
        retired p + (case p_sess p of None \<Rightarrow> 0 | Some h \<Rightarrow> Received w h)
        + sum_list (map (\<lambda>(k, h). Received w h) (alone p)))"

definition Up :: "Pool \<Rightarrow> bool" where
  "Up p \<longleftrightarrow> p_sess p \<noteq> None"

definition Pool_UsesDHT :: "state \<Rightarrow> bool" where
  "Pool_UsesDHT st = (case st of (p, w) \<Rightarrow> (case p_sess p of None \<Rightarrow> False | Some h \<Rightarrow> UsesDHT w h))"

definition Attached :: "Pool \<Rightarrow> nat" where
  "Attached p = length (held p)"

definition mergePeers :: "string list \<Rightarrow> string list \<Rightarrow> string list" where
  "mergePeers base extra = (if extra = [] then base else base @ extra)"

section \<open>Attaching\<close>

text \<open>A claim is a settled port with the lease it came from; \<open>None\<close> is the nil claim.\<close>

type_synonym portClaim = "nat option \<times> int"

definition claimPort :: "state \<Rightarrow> (swarm_error, portClaim \<times> World) result" where
  "claimPort st =
     (case st of (p, w) \<Rightarrow>
        bind_result (leasePort (p_cfg p) w) (\<lambda>(lease, port, w'). Inr ((lease, port), w')))"

definition claim_release :: "portClaim option \<Rightarrow> World \<Rightarrow> World" where
  "claim_release c w = (case c of None \<Rightarrow> w | Some (lease, port) \<Rightarrow> release_lease lease w)"

definition startLocked :: "Env \<Rightarrow> portClaim option \<Rightarrow> state \<Rightarrow> swarm_error option \<times> state" where
  "startLocked env spare st =
     (case st of (p, w) \<Rightarrow>
        (case (case spare of Some c \<Rightarrow> Inr (c, w) | None \<Rightarrow> claimPort (p, w)) of
           Inl e \<Rightarrow> (Some e, (p, w))
         | Inr ((lease, port), w1) \<Rightarrow>
             (case newSession env ((p_cfg p)\<lparr>cfg_ListenPort := port, cfg_Ports := False\<rparr>)
                     (cfg_DHT (p_cfg p)) w1 of
                (Inl e, w2) \<Rightarrow> (Some e, (p, release_lease lease w2))
              | (Inr h, w2) \<Rightarrow> (None, (p\<lparr>p_sess := Some h\<rparr>, give_lease lease h w2)))))"

definition attachShared ::
  "Env \<Rightarrow> Source \<Rightarrow> string \<Rightarrow> MetaInfo option \<Rightarrow> string list \<Rightarrow> portClaim option \<Rightarrow> state
   \<Rightarrow> (swarm_error, Attachment) result \<times> state" where
  "attachShared env src key mi peers spare st =
     (case st of (p, w) \<Rightarrow>
       (case privacyInHand src mi of (private, known) \<Rightarrow>
         if \<not> known \<or> private then
           (Inl (ErrSharedClientIsPublicOnly private known), (p, claim_release spare w))
         else if p_closed p then (Inl ErrPoolClosed, (p, claim_release spare w))
         else (case (case p_sess p of
                       None \<Rightarrow> startLocked env spare (p, w)
                     | Some h \<Rightarrow> (None, (p, claim_release spare w))) of
             (Some e, st1) \<Rightarrow> (Inl e, st1)
           | (None, (p1, w1)) \<Rightarrow>
               (case p_sess p1 of
                  None \<Rightarrow> (Inl SessionClosed, (p1, w1))
                | Some h \<Rightarrow>
                   (case addTo env h src mi (mergePeers (cfg_Peers (p_cfg p1)) peers) w1 of
                      (Inl e, w2) \<Rightarrow> (Inl e, (p1, w2))
                    | (Inr t, w2) \<Rightarrow>
                        (Inr \<lparr>att_key = key, att_torrent = t, att_sess = None\<rparr>, (p1, w2)))))))"

definition attachAlone ::
  "Env \<Rightarrow> Source \<Rightarrow> string \<Rightarrow> string list \<Rightarrow> state \<Rightarrow> (swarm_error, Attachment) result \<times> state" where
  "attachAlone env src key peers st =
     (case st of (p, w) \<Rightarrow>
        (case Open env ((p_cfg p)\<lparr>cfg_Peers := mergePeers (cfg_Peers (p_cfg p)) peers\<rparr>) src w of
           (Inl e, w1) \<Rightarrow> (Inl e, (p, w1))
         | (Inr (h, t), w1) \<Rightarrow> (case aloneOn key t h p of (a, p1) \<Rightarrow> (Inr a, (p1, w1)))))"

definition probeThenAttach ::
  "Env \<Rightarrow> Source \<Rightarrow> string \<Rightarrow> string list \<Rightarrow> state \<Rightarrow> (swarm_error, Attachment) result \<times> state" where
  "probeThenAttach env src key peers st =
     (case st of (p, w) \<Rightarrow>
        (case claimPort (p, w) of
           Inl e \<Rightarrow> (Inl e, (p, w))
         | Inr ((lease, port), w1) \<Rightarrow>
            (let cfg = (p_cfg p)\<lparr>cfg_ListenPort := port, cfg_Ports := False,
                        cfg_Peers := mergePeers (cfg_Peers (p_cfg p)) peers\<rparr> in
             (case newSession env cfg False w1 of
                (Inl e, w2) \<Rightarrow> (Inl e, (p, release_lease lease w2))
              | (Inr probe, w2) \<Rightarrow>
                 (case add env probe src None w2 of
                    (Inl e, w3) \<Rightarrow>
                      (case openBlind env cfg src (Close probe w3) of
                         (Inl e', w4) \<Rightarrow> (Inl e', (retireClient probe w3 p, release_lease lease w4))
                       | (Inr (b, t), w4) \<Rightarrow>
                           (case aloneOn key t b (retireClient probe w3 p) of
                              (a, p1) \<Rightarrow> (Inr a, (p1, give_lease lease b w4))))
                  | (Inr t, w3) \<Rightarrow>
                      if Private t then
                        (case aloneOn key t probe p of
                           (a, p1) \<Rightarrow> (Inr a, (p1, give_lease lease probe w3)))
                      else attachShared env src key (Some (metainfo_of src t)) peers (Some (lease, port))
                             (retireClient probe w3 p, Close probe w3))))))"

definition attach ::
  "Env \<Rightarrow> Source \<Rightarrow> string \<Rightarrow> string list \<Rightarrow> state \<Rightarrow> (swarm_error, Attachment) result \<times> state" where
  "attach env src key peers st =
     (let route = routeFor (p_cfg (fst st)) src in
      case route_err route of
        Some e \<Rightarrow> (Inl e, st)
      | None \<Rightarrow>
        (case Privacy src of (private, known) \<Rightarrow>
          if known \<and> \<not> private then attachShared env src key None peers None st
          else if \<not> probeTrackersFirst route then attachAlone env src key peers st
          else probeThenAttach env src key peers st))"

definition Attach ::
  "Env \<Rightarrow> Source \<Rightarrow> string list \<Rightarrow> state \<Rightarrow> (swarm_error, Attachment) result \<times> state" where
  "Attach env src peers st =
     (case InfoHash src of
        Inl e \<Rightarrow> (Inl (BadSource e), st)
      | Inr key \<Rightarrow>
        (case reserve key (fst st) of
           Inl e \<Rightarrow> (Inl e, st)
         | Inr p \<Rightarrow>
            (case attach env src key peers (p, snd st) of
               (Inl e, (p1, w1)) \<Rightarrow> (Inl e, (release key p1, w1))
             | (Inr a, st1) \<Rightarrow> (Inr a, st1))))"

section \<open>Letting go\<close>

definition Drop :: "nat \<Rightarrow> string \<Rightarrow> World \<Rightarrow> World" where
  "Drop h hash w =
     (case sess_cl (get_session w h) of
        None \<Rightarrow> w
      | Some c \<Rightarrow> set_session h ((get_session w h)\<lparr>sess_cl := Some (drop_entry hash c)\<rparr>) w)"

text \<open>A pooled torrent is dropped out of the client it was added to, which is the shared client
  while the pool is open and a closed one afterwards.\<close>

definition detach :: "Attachment \<Rightarrow> state \<Rightarrow> state" where
  "detach a st =
     (case st of (p, w) \<Rightarrow>
       let hash = t_hash (att_torrent a) in
       (case att_sess a of
          Some h \<Rightarrow>
            (release (att_key a) (retire (att_key a) h w p),
             discardPieces (cfg_DataDir (sess_cfg (get_session w h))) hash (Close h w))
        | None \<Rightarrow>
            (release (att_key a) p,
             discardPieces (cfg_DataDir (p_cfg p)) hash
               (case p_sess p of None \<Rightarrow> w | Some h \<Rightarrow> Drop h hash w))))"

definition Pool_Close :: "state \<Rightarrow> state" where
  "Pool_Close st =
     (case st of (p, w) \<Rightarrow>
        if p_closed p then (p, w)
        else (case p_sess p of
                None \<Rightarrow> (p\<lparr>p_closed := True, p_sess := None\<rparr>, w)
              | Some h \<Rightarrow> (p\<lparr>p_closed := True, p_sess := None, retired := retired p + Received w h\<rparr>,
                           Close h w)))"

section \<open>Runs of the pool\<close>

text \<open>Attachments are remembered so that a detach names one; \<open>detached\<close> is the
  \<^verbatim>\<open>sync.Once\<close> that makes Detach idempotent. \<open>Bytes h n\<close> is useful data
  arriving at an open client.\<close>

record System =
  sys_st :: state
  sys_atts :: "(Attachment \<times> bool) list"

datatype pool_event =
    DoAttach Source "string list"
  | DoDetach nat
  | DoClose
  | Bytes nat nat

definition receive :: "nat \<Rightarrow> nat \<Rightarrow> World \<Rightarrow> World" where
  "receive h n w =
     (if h < length (w_sessions w) then
        (case sess_cl (get_session w h) of
           None \<Rightarrow> w
         | Some c \<Rightarrow> set_session h ((get_session w h)\<lparr>sess_cl := Some (c\<lparr>cl_received := cl_received c + int n\<rparr>)\<rparr>) w)
      else w)"

fun pool_step :: "Env \<Rightarrow> System \<Rightarrow> pool_event \<Rightarrow> System" where
  "pool_step env s (DoAttach src peers) =
     (case Attach env src peers (sys_st s) of
        (Inl e, st) \<Rightarrow> s\<lparr>sys_st := st\<rparr>
      | (Inr a, st) \<Rightarrow> s\<lparr>sys_st := st, sys_atts := sys_atts s @ [(a, False)]\<rparr>)"
| "pool_step env s (DoDetach i) =
     (if i < length (sys_atts s) \<and> \<not> snd (sys_atts s ! i)
      then s\<lparr>sys_st := detach (fst (sys_atts s ! i)) (sys_st s),
             sys_atts := (sys_atts s)[i := (fst (sys_atts s ! i), True)]\<rparr>
      else s)"
| "pool_step env s DoClose = s\<lparr>sys_st := Pool_Close (sys_st s)\<rparr>"
| "pool_step env s (Bytes h n) = s\<lparr>sys_st := (fst (sys_st s), receive h n (snd (sys_st s)))\<rparr>"

definition init_world :: "PortSet \<Rightarrow> World" where
  "init_world ps = \<lparr>w_ports = \<lparr>pool = NewPortPool ps, leases = []\<rparr>, w_sessions = [], w_clock = 0,
     w_discarded = []\<rparr>"

definition init_system :: "Config \<Rightarrow> PortSet \<Rightarrow> System" where
  "init_system cfg ps = \<lparr>sys_st = (NewPool cfg, init_world ps), sys_atts = []\<rparr>"

definition pool_run :: "Env \<Rightarrow> Config \<Rightarrow> PortSet \<Rightarrow> pool_event list \<Rightarrow> System" where
  "pool_run env cfg ps evs = foldl (pool_step env) (init_system cfg ps) evs"

end
