(* ===== verification/SessionLaws.thy ===== *)
theory SessionLaws
  imports Sessions
begin

text \<open>
  What every session operation keeps: no private torrent attached to a client with DHT, no
  announcement of an unread flag except on a session marked blind, no lease left on a closed
  session (\<open>world_ok\<close>), and every
  live port lease owned by exactly one session or by the operation in progress
  (\<open>lease_inv\<close>).
\<close>

abbreviation nses :: "World \<Rightarrow> nat" where
  "nses w \<equiv> length (w_sessions w)"

section \<open>Reading and writing the store\<close>

lemma get_set_session [step_simps]:
  "get_session (set_session h s w) h' = (if h = h' \<and> h < nses w then s else get_session w h')"
  by (cases "h < nses w") (auto simp: get_session_def set_session_def nth_list_update list_update_beyond)

lemma nses_simps [step_simps]:
  "nses (set_session h s w) = nses w" "nses (tick w) = nses w"
  "nses (discardPieces d x w) = nses w" "nses (release_lease l w) = nses w"
  by (auto simp: set_session_def tick_def discardPieces_def release_lease_def split: option.split)

lemma get_session_simps [step_simps]:
  "get_session (tick w) h = get_session w h"
  "get_session (discardPieces d x w) h = get_session w h"
  "get_session (release_lease l w) h = get_session w h"
  by (auto simp: get_session_def tick_def discardPieces_def release_lease_def split: option.split)

lemma w_ports_simps [step_simps]:
  "w_ports (set_session h s w) = w_ports w" "w_ports (tick w) = w_ports w"
  "w_ports (discardPieces d x w) = w_ports w"
  by (auto simp: set_session_def tick_def discardPieces_def)

lemma set_set_session [simp]: "set_session h a (tick (set_session h b w)) = tick (set_session h a w)"
  by (simp add: set_session_def tick_def)

lemma grow_simps [step_simps]:
  "nses (grow s w) = Suc (nses w)" "w_ports (grow s w) = w_ports w"
  by (simp_all add: grow_def)

lemma get_grow [step_simps]:
  "h \<le> nses w \<Longrightarrow> get_session (grow s w) h = (if h = nses w then s else get_session w h)"
  by (auto simp: grow_def get_session_def nth_append)

lemma fresh_simps [simp]:
  "sess_cl (fresh_session cfg dht) = Some \<lparr>cl_torrents = [], cl_announced = [], cl_received = 0\<rparr>"
  "sess_lease (fresh_session cfg dht) = None" "dhtOn (fresh_session cfg dht) = dht"
  "blindly (fresh_session cfg dht) = False" "sess_cfg (fresh_session cfg dht) = cfg"
  by (simp_all add: fresh_session_def)

lemma newSession_ports [step_simps]: "w_ports (snd (newSession env cfg dht w)) = w_ports w"
  by (simp add: newSession_def step_simps)

section \<open>BEP 27 on every client\<close>

definition client_ok :: "bool \<Rightarrow> bool \<Rightarrow> Client \<Rightarrow> bool" where
  "client_ok dht bl c \<longleftrightarrow>
     (dht \<longrightarrow> (\<forall>e \<in> set (cl_torrents c). \<forall>i. te_info e = Some i \<longrightarrow> \<not> flagged_private i)) \<and>
     (\<forall>a \<in> set (cl_announced c). dht \<and> (an_settled a \<or> bl))"

definition sess_ok :: "Session \<Rightarrow> bool" where
  "sess_ok s \<longleftrightarrow> (\<forall>c. sess_cl s = Some c \<longrightarrow> client_ok (dhtOn s) (blindly s) c) \<and>
     (sess_cl s = None \<longrightarrow> sess_lease s = None)"

definition world_ok :: "World \<Rightarrow> bool" where
  "world_ok w \<longleftrightarrow> (\<forall>h < nses w. sess_ok (get_session w h))"

text \<open>The one thing relied on outside the code: a \<^verbatim>\<open>.torrent\<close> opened a second time
  holds the info dictionary it held when the source was parsed.\<close>

definition stable_file :: "Env \<Rightarrow> Source \<Rightarrow> bool" where
  "stable_file env src \<longleftrightarrow>
     (src_magnet src = None \<longrightarrow> (\<forall>n. mi_info (reread env n (src_raw src)) = src_info src))"

lemma world_okI: "(\<And>h. h < nses w \<Longrightarrow> sess_ok (get_session w h)) \<Longrightarrow> world_ok w"
  by (simp add: world_ok_def)

lemma world_ok_set:
  "world_ok w \<Longrightarrow> sess_ok s \<Longrightarrow> world_ok (set_session h s w)"
  by (auto simp: world_ok_def step_simps)

lemma world_ok_simps [simp]:
  "world_ok (tick w) = world_ok w" "world_ok (discardPieces d x w) = world_ok w"
  "world_ok (release_lease l w) = world_ok w"
  by (simp_all add: world_ok_def step_simps)

lemma known_answer:
  assumes "wf_source src" "mi = None \<longrightarrow> stable_file env src"
    and "privacyInHand src mi = (private, True)" "client_answer env n src mi = (hash, Some info)"
  shows "flagged_private info = private"
  using assms
  by (auto simp: privacyInHand_def client_answer_def wf_source_def stable_file_def Privacy_def Let_def
      split: option.splits)

lemma addTo_world_ok:
  assumes ok: "world_ok w" and h: "h < nses w"
    and src: "wf_source src" "mi = None \<longrightarrow> stable_file env src"
    and bl: "dhtOn (get_session w h) \<longrightarrow> snd (privacyInHand src mi) \<or> blindly (get_session w h)"
  shows "world_ok (snd (addTo env h src mi peers w))"
proof (cases "sess_cl (get_session w h)")
  case None
  with ok show ?thesis by (simp add: addTo_def)
next
  case (Some c)
  obtain pv known where pk: "privacyInHand src mi = (pv, known)" by fastforce
  obtain hash answer where ans: "client_answer env (w_clock w) src mi = (hash, answer)" by fastforce
  have c_ok: "client_ok (dhtOn (get_session w h)) (blindly (get_session w h)) c"
    using ok h Some by (auto simp: world_ok_def sess_ok_def)
  show ?thesis
  proof (cases answer)
    case None
    with ok c_ok Some pk ans bl show ?thesis
      by (auto simp: addTo_def Let_def attach_entry_def sess_ok_def client_ok_def intro!: world_ok_set)
  next
    case (Some info)
    have "flagged_private info = pv" if known
      using known_answer [OF src] pk ans that Some by simp
    with Some ok c_ok \<open>sess_cl (get_session w h) = Some c\<close> pk ans bl show ?thesis
      by (auto simp: addTo_def Let_def attach_entry_def drop_entry_def sess_ok_def client_ok_def
          intro!: world_ok_set)
  qed
qed

lemma newSession_world_ok: "world_ok w \<Longrightarrow> world_ok (snd (newSession env cfg dht w))"
  by (auto simp: newSession_def world_ok_def step_simps sess_ok_def client_ok_def less_Suc_eq)

lemma Close_world_ok: "world_ok w \<Longrightarrow> world_ok (Close h w)"
  by (auto simp: Close_def Let_def sess_ok_def split: option.split intro!: world_ok_set)

lemma give_lease_world_ok:
  "world_ok w \<Longrightarrow> sess_cl (get_session w h) \<noteq> None \<Longrightarrow> world_ok (give_lease l h w)"
  by (auto simp: world_ok_def give_lease_def step_simps sess_ok_def)

text \<open>A session is marked blind before anything is added to it.\<close>

lemma mark_blind_world_ok:
  "world_ok w \<Longrightarrow> h < nses w \<Longrightarrow> sess_cl (get_session w h) = Some c \<Longrightarrow> cl_announced c = [] \<Longrightarrow>
   world_ok (mark_blind b h w)"
  by (auto simp: world_ok_def mark_blind_def step_simps sess_ok_def client_ok_def)

section \<open>What one operation does to the other sessions\<close>

text \<open>\<open>extends w w'\<close>: the sessions of \<open>w\<close> are untouched. \<open>only_open\<close> says which of
  the new ones may still be open.\<close>

definition extends :: "World \<Rightarrow> World \<Rightarrow> bool" where
  "extends w w' \<longleftrightarrow> nses w \<le> nses w' \<and> (\<forall>h < nses w. get_session w' h = get_session w h)"

lemma extends_refl [simp]: "extends w w"
  by (simp add: extends_def)

lemma extends_trans: "extends u v \<Longrightarrow> extends v w \<Longrightarrow> extends u w"
  by (auto simp: extends_def)

lemma extends_simps [simp]:
  "extends u (tick w) = extends u w" "extends u (discardPieces d x w) = extends u w"
  "extends u (release_lease l w) = extends u w"
  by (simp_all add: extends_def step_simps)

lemma extends_set: "extends u w \<Longrightarrow> nses u \<le> h \<Longrightarrow> extends u (set_session h s w)"
  by (auto simp: extends_def step_simps)

lemma extends_newSession: "extends w (snd (newSession env cfg dht w))"
  by (auto simp: newSession_def extends_def step_simps)

lemma extends_addTo:
  "extends u w \<Longrightarrow> nses u \<le> h \<Longrightarrow> extends u (snd (addTo env h src mi peers w))"
  by (auto simp: addTo_def Let_def extends_set split: option.split prod.split)

lemma extends_Close: "extends u w \<Longrightarrow> nses u \<le> h \<Longrightarrow> extends u (Close h w)"
  by (auto simp: Close_def Let_def extends_set split: option.split)

lemma extends_mark: "extends u w \<Longrightarrow> nses u \<le> h \<Longrightarrow> extends u (mark_blind b h w)"
  by (simp add: mark_blind_def extends_set)

lemma extends_give: "extends u w \<Longrightarrow> nses u \<le> h \<Longrightarrow> extends u (give_lease l h w)"
  by (simp add: give_lease_def extends_set)

lemma nses_addTo [step_simps]: "nses (snd (addTo env h src mi peers w)) = nses w"
  by (auto simp: addTo_def Let_def step_simps split: option.split prod.split)

lemma nses_Close [step_simps]: "nses (Close h w) = nses w"
  by (auto simp: Close_def Let_def step_simps split: option.split)

lemma nses_mark [step_simps]: "nses (mark_blind b h w) = nses w"
  by (simp add: mark_blind_def step_simps)

lemma nses_give [step_simps]: "nses (give_lease l h w) = nses w"
  by (simp add: give_lease_def step_simps)

lemma addTo_other [step_simps]:
  "h' \<noteq> h \<Longrightarrow> get_session (snd (addTo env h src mi peers w)) h' = get_session w h'"
  by (auto simp: addTo_def Let_def step_simps split: option.split prod.split)

lemma addTo_fields [step_simps]:
  "sess_lease (get_session (snd (addTo env h src mi peers w)) h') = sess_lease (get_session w h')"
  "dhtOn (get_session (snd (addTo env h src mi peers w)) h') = dhtOn (get_session w h')"
  "blindly (get_session (snd (addTo env h src mi peers w)) h') = blindly (get_session w h')"
  "sess_cl (get_session (snd (addTo env h src mi peers w)) h') = None \<longleftrightarrow> sess_cl (get_session w h') = None"
  by (auto simp: addTo_def Let_def step_simps split: option.split prod.split)

lemma addTo_ports [step_simps]: "w_ports (snd (addTo env h src mi peers w)) = w_ports w"
  by (auto simp: addTo_def Let_def step_simps split: option.split prod.split)

lemma get_Close [step_simps]:
  "get_session (Close h w) h' =
     (if h = h' \<and> h < nses w \<and> sess_cl (get_session w h) \<noteq> None
      then (get_session w h)\<lparr>sess_cl := None, sess_lease := None\<rparr> else get_session w h')"
  by (auto simp: Close_def Let_def step_simps split: option.split)

lemma Close_ports: "sess_lease (get_session w h) = None \<Longrightarrow> w_ports (Close h w) = w_ports w"
  by (auto simp: Close_def Let_def step_simps release_lease_def split: option.split)

lemma get_mark [step_simps]:
  "get_session (mark_blind b h w) h' =
     (if h = h' \<and> h < nses w then (get_session w h)\<lparr>blindly := b\<rparr> else get_session w h')"
  by (simp add: mark_blind_def step_simps)

lemma mark_ports [step_simps]: "w_ports (mark_blind b h w) = w_ports w"
  by (simp add: mark_blind_def step_simps)

lemma get_give [step_simps]:
  "get_session (give_lease l h w) h' =
     (if h = h' \<and> h < nses w then (get_session w h)\<lparr>sess_lease := l\<rparr> else get_session w h')"
  by (simp add: give_lease_def step_simps)

lemma give_ports [step_simps]: "w_ports (give_lease l h w) = w_ports w"
  by (simp add: give_lease_def step_simps)

lemma Received_simps [step_simps]:
  "Received (tick w) h = Received w h" "Received (discardPieces d x w) h = Received w h"
  "Received (release_lease l w) h = Received w h"
  by (simp_all add: Received_def step_simps)

lemma Received_addTo [step_simps]: "Received (snd (addTo env k src mi peers w)) h = Received w h"
  by (auto simp: addTo_def Let_def step_simps Received_def attach_entry_def drop_entry_def
      split: option.split prod.split)

lemma Received_marks [step_simps]:
  "Received (mark_blind b k w) h = Received w h" "Received (give_lease l k w) h = Received w h"
  by (auto simp: Received_def step_simps)

lemma Received_Close [step_simps]:
  "k < nses w \<Longrightarrow> Received (Close k w) h = (if h = k then 0 else Received w h)"
  by (auto simp: Received_def step_simps)

lemma Received_grow [step_simps]:
  "h \<le> nses w \<Longrightarrow> Received (grow (fresh_session cfg dht) w) h = (if h = nses w then 0 else Received w h)"
  by (auto simp: Received_def step_simps)

lemma addTo_public:
  assumes "wf_source src" "mi = None \<longrightarrow> stable_file env src"
    and "addTo env h src mi peers w = (Inr t, w')" "dhtOn (get_session w h)"
  shows "\<not> Private t"
proof -
  obtain pv known where pk: "privacyInHand src mi = (pv, known)" by fastforce
  obtain hash answer where ans: "client_answer env (w_clock w) src mi = (hash, answer)" by fastforce
  from assms(3) pk ans obtain info where info: "answer = Some info" "t_info t = info"
    by (auto simp: addTo_def Let_def split: option.splits if_splits)
  have "flagged_private info = pv" if known
    using known_answer [OF assms(1,2)] pk ans that info by simp
  with assms(3,4) pk ans info show ?thesis
    by (auto simp: addTo_def Let_def Private_def split: option.splits if_splits)
qed

section \<open>Opening\<close>

text \<open>\<open>brings u r w\<close>: from \<open>u\<close> to \<open>w\<close> only new sessions appeared, none holds a lease
  yet, and at most the one in the result is still open.\<close>

definition brings :: "World \<Rightarrow> (swarm_error, nat \<times> Torrent) result \<Rightarrow> World \<Rightarrow> bool" where
  "brings u r w \<longleftrightarrow> extends u w \<and> world_ok w \<and> w_ports w = w_ports u \<and>
     (\<forall>h. nses u \<le> h \<and> h < nses w \<longrightarrow> sess_lease (get_session w h) = None \<and>
        (sess_cl (get_session w h) \<noteq> None \<longrightarrow> (\<exists>t. r = Inr (h, t)))) \<and>
     (\<forall>h t. r = Inr (h, t) \<longrightarrow> nses u \<le> h \<and> h < nses w \<and> sess_cl (get_session w h) \<noteq> None) \<and>
     (\<forall>h. nses u \<le> h \<and> h < nses w \<longrightarrow> Received w h = 0) \<and>
     (\<forall>h t. r = Inr (h, t) \<longrightarrow> dhtOn (get_session w h) \<longrightarrow> \<not> Private t)"

lemma bringsI:
  assumes "extends u w" "world_ok w" "w_ports w = w_ports u"
    and "\<And>h. nses u \<le> h \<Longrightarrow> h < nses w \<Longrightarrow> sess_lease (get_session w h) = None"
    and "\<And>h. nses u \<le> h \<Longrightarrow> h < nses w \<Longrightarrow> sess_cl (get_session w h) \<noteq> None \<Longrightarrow> \<exists>t. r = Inr (h, t)"
    and "\<And>h t. r = Inr (h, t) \<Longrightarrow> nses u \<le> h \<and> h < nses w \<and> sess_cl (get_session w h) \<noteq> None"
    and "\<And>h. nses u \<le> h \<Longrightarrow> h < nses w \<Longrightarrow> Received w h = 0"
    and "\<And>h t. r = Inr (h, t) \<Longrightarrow> dhtOn (get_session w h) \<Longrightarrow> \<not> Private t"
  shows "brings u r w"
  using assms unfolding brings_def by blast

lemma bringsD:
  assumes "brings u r w"
  shows "extends u w" "world_ok w" "w_ports w = w_ports u"
    and "\<And>h. nses u \<le> h \<Longrightarrow> h < nses w \<Longrightarrow> sess_lease (get_session w h) = None"
    and "\<And>h. nses u \<le> h \<Longrightarrow> h < nses w \<Longrightarrow> sess_cl (get_session w h) \<noteq> None \<Longrightarrow> \<exists>t. r = Inr (h, t)"
    and "\<And>h t. r = Inr (h, t) \<Longrightarrow> nses u \<le> h \<and> h < nses w \<and> sess_cl (get_session w h) \<noteq> None"
    and "\<And>h. nses u \<le> h \<Longrightarrow> h < nses w \<Longrightarrow> Received w h = 0"
    and "\<And>h t. r = Inr (h, t) \<Longrightarrow> dhtOn (get_session w h) \<Longrightarrow> \<not> Private t"
  using assms unfolding brings_def by blast+

lemma extendsD: "extends u w \<Longrightarrow> h < nses u \<Longrightarrow> get_session w h = get_session u h"
  by (simp add: extends_def)

lemma brings_trans:
  assumes uv: "brings u (Inl e) v" and vw: "brings v r w"
  shows "brings u r w"
proof (rule bringsI)
  have le: "nses u \<le> nses v" using bringsD(1) [OF uv] by (simp add: extends_def)
  show "extends u w" by (rule extends_trans [OF bringsD(1) [OF uv] bringsD(1) [OF vw]])
  show "world_ok w" by (rule bringsD(2) [OF vw])
  show "w_ports w = w_ports u" using bringsD(3) [OF uv] bringsD(3) [OF vw] by simp
  fix h
  note old = extendsD [OF bringsD(1) [OF vw], of h]
  show "nses u \<le> h \<Longrightarrow> h < nses w \<Longrightarrow> sess_lease (get_session w h) = None"
    using bringsD(4) [OF uv, of h] bringsD(4) [OF vw, of h] old by (cases "h < nses v") simp_all
  show "nses u \<le> h \<Longrightarrow> h < nses w \<Longrightarrow> sess_cl (get_session w h) \<noteq> None \<Longrightarrow> \<exists>t. r = Inr (h, t)"
    using bringsD(5) [OF uv, of h] bringsD(5) [OF vw, of h] old by (cases "h < nses v") simp_all
  show "nses u \<le> h \<and> h < nses w \<and> sess_cl (get_session w h) \<noteq> None" if "r = Inr (h, t)" for t
    using bringsD(6) [OF vw that] le by auto
  show "nses u \<le> h \<Longrightarrow> h < nses w \<Longrightarrow> Received w h = 0"
    using bringsD(7) [OF uv, of h] bringsD(7) [OF vw, of h] old
    by (cases "h < nses v") (simp_all add: Received_def)
  show "r = Inr (h, t) \<Longrightarrow> dhtOn (get_session w h) \<Longrightarrow> \<not> Private t" for t
    by (rule bringsD(8) [OF vw])
qed

lemma brings_failed_start: "world_ok w \<Longrightarrow> brings w (Inl e) (tick w)"
  by (rule bringsI) (simp_all add: step_simps)

text \<open>The common shape of every opening: a new session, marked, one add, closed on error.\<close>

definition start_and_add ::
  "Env \<Rightarrow> Config \<Rightarrow> bool \<Rightarrow> bool \<Rightarrow> Source \<Rightarrow> MetaInfo option \<Rightarrow> World
   \<Rightarrow> (swarm_error, nat \<times> Torrent) result \<times> World" where
  "start_and_add env cfg dht bl src mi w =
     (case newSession env cfg dht w of
        (Inl e, w1) \<Rightarrow> (Inl e, w1)
      | (Inr h, w1) \<Rightarrow>
          (case add env h src mi (mark_blind bl h w1) of
             (Inl e, w2) \<Rightarrow> (Inl e, Close h w2)
           | (Inr t, w2) \<Rightarrow> (Inr (h, t), w2)))"

lemma start_and_add_brings:
  assumes ok: "world_ok w" and src: "wf_source src" "mi = None \<longrightarrow> stable_file env src"
    and bl: "dht \<longrightarrow> snd (privacyInHand src mi) \<or> bl"
    and r: "start_and_add env cfg dht bl src mi w = (r, w')"
  shows "brings w r w'"
proof (cases "start_ok env (w_clock w)")
  case False
  with r ok show ?thesis
    by (auto simp: start_and_add_def newSession_def brings_failed_start)
next
  case True
  let ?h = "nses w"
  let ?w1 = "mark_blind bl ?h (tick (grow (fresh_session cfg dht) w))"
  let ?a = "add env ?h src mi ?w1"
  have ok1: "world_ok ?w1"
    using newSession_world_ok [OF ok, of env cfg dht] True
    by (intro mark_blind_world_ok [where c = "\<lparr>cl_torrents = [], cl_announced = [], cl_received = 0\<rparr>"])
       (simp_all add: newSession_def step_simps)
  have ok2: "world_ok (snd ?a)"
    unfolding add_def
    by (rule addTo_world_ok [OF ok1 _ src]) (use bl in \<open>simp_all add: step_simps\<close>)
  have ext: "extends w (snd ?a)"
    by (auto simp: add_def extends_def step_simps)
  show ?thesis
  proof (cases "fst ?a")
    case (Inl e)
    then have "r = Inl e" "w' = Close ?h (snd ?a)"
      using r True by (auto simp: start_and_add_def newSession_def split: prod.splits)
    with ok2 ext show ?thesis
      by (intro bringsI)
         (auto simp: Close_world_ok extends_Close Close_ports step_simps add_def less_Suc_eq)
  next
    case (Inr t)
    then have "r = Inr (?h, t)" "w' = snd ?a"
      using r True by (auto simp: start_and_add_def newSession_def split: prod.splits)
    moreover have "dhtOn (get_session w' ?h) \<Longrightarrow> \<not> Private t"
      using addTo_public [OF src, of ?h "cfg_Peers (sess_cfg (get_session ?w1 ?h))" ?w1 t w'] Inr
        \<open>w' = snd ?a\<close> by (simp add: add_def step_simps prod_eq_iff)
    ultimately show ?thesis
      using ok2 ext by (intro bringsI) (auto simp: step_simps add_def less_Suc_eq)
  qed
qed

lemma openBlind_start: "openBlind env cfg src w = start_and_add env cfg True True src None w"
  by (simp add: openBlind_def start_and_add_def)

lemma openBlind_brings:
  assumes "world_ok w" "wf_source src" "stable_file env src" "openBlind env cfg src w = (r, w')"
  shows "brings w r w'"
  using assms unfolding openBlind_start by (intro start_and_add_brings) auto

text \<open>What closing the probe leaves behind is a world to which nothing was brought.\<close>

lemma brings_Close:
  assumes b: "brings u (Inr (h, t)) w"
  shows "brings u (Inl e) (Close h w)"
proof (rule bringsI)
  have h: "nses u \<le> h" "h < nses w" using bringsD(6) [OF b refl] by simp_all
  show "extends u (Close h w)" by (rule extends_Close [OF bringsD(1) [OF b] h(1)])
  show "world_ok (Close h w)" by (rule Close_world_ok [OF bringsD(2) [OF b]])
  show "w_ports (Close h w) = w_ports u"
    using Close_ports bringsD(4) [OF b h] bringsD(3) [OF b] by simp
  fix k assume k: "nses u \<le> k" "k < nses (Close h w)"
  then have k': "k < nses w" by (simp add: step_simps)
  show "sess_lease (get_session (Close h w) k) = None"
    using bringsD(4) [OF b k(1) k'] by (simp add: step_simps)
  show "\<exists>t'. Inl e = Inr (k, t')" if "sess_cl (get_session (Close h w) k) \<noteq> None"
    using bringsD(5) [OF b k(1) k'] that h(2) by (auto simp: step_simps split: if_splits)
  show "Received (Close h w) k = 0"
    using bringsD(7) [OF b k(1) k'] h(2) by (simp add: step_simps)
qed simp_all

lemma mark_blind_False:
  "h < nses w \<Longrightarrow> \<not> blindly (get_session w h) \<Longrightarrow> mark_blind False h w = w"
  by (simp add: mark_blind_def set_session_def get_session_def list_update_same_conv)

lemma start_and_add_unmarked:
  "start_and_add env cfg dht False src mi w =
     (case newSession env cfg dht w of
        (Inl e, w1) \<Rightarrow> (Inl e, w1)
      | (Inr h, w1) \<Rightarrow>
          (case add env h src mi w1 of
             (Inl e, w2) \<Rightarrow> (Inl e, Close h w2)
           | (Inr t, w2) \<Rightarrow> (Inr (h, t), w2)))"
  by (auto simp: start_and_add_def newSession_def mark_blind_False step_simps split: if_splits)

lemma openOnPort_start:
  "openOnPort env cfg src route w =
     (if \<not> start_ok env (w_clock w) then (Inl StartFailed, tick w)
      else (case start_and_add env cfg (route_dht route) (blind route) src None w of
          (Inl e, w2) \<Rightarrow> if \<not> probeTrackersFirst route then (Inl e, w2) else openBlind env cfg src w2
        | (Inr (h, t), w2) \<Rightarrow>
            if \<not> probeTrackersFirst route \<or> Private t then (Inr (h, t), w2)
            else start_and_add env cfg True False src (Some (metainfo_of src t)) (Close h w2)))"
  by (auto simp: openOnPort_def start_and_add_unmarked newSession_def
      start_and_add_def [of env cfg "route_dht route"] split: prod.splits sum.splits)

lemma route_blind:
  "route_err (routeFor cfg src) = None \<Longrightarrow> route_dht (routeFor cfg src) \<Longrightarrow>
   snd (Privacy src) \<or> blind (routeFor cfg src)"
  by (auto simp: routeFor_def split: prod.splits if_splits)

lemma openOnPort_brings:
  assumes ok: "world_ok w" and src: "wf_source src" "stable_file env src"
    and route: "route = routeFor cfg' src" "route_err route = None"
    and r: "openOnPort env cfg src route w = (r, w')"
  shows "brings w r w'"
proof (cases "start_ok env (w_clock w)")
  case False
  with r ok show ?thesis by (auto simp: openOnPort_start brings_failed_start)
next
  case True
  obtain r1 w1 where one: "start_and_add env cfg (route_dht route) (blind route) src None w = (r1, w1)"
    by fastforce
  have b1: "brings w r1 w1"
    using route_blind [of cfg' src] route src ok one
    by (intro start_and_add_brings [OF ok src(1)]) (auto simp: privacyInHand_def)
  show ?thesis
  proof (cases r1)
    case (Inl e)
    show ?thesis
    proof (cases "probeTrackersFirst route")
      case True
      then have "openBlind env cfg src w1 = (r, w')"
        using r \<open>start_ok env (w_clock w)\<close> one Inl by (simp add: openOnPort_start)
      then show ?thesis
        using b1 Inl openBlind_brings [OF bringsD(2) [OF b1] src] brings_trans by blast
    next
      case False
      with r True one Inl b1 show ?thesis by (simp add: openOnPort_start)
    qed
  next
    case (Inr ht)
    obtain h t where ht: "ht = (h, t)" by fastforce
    show ?thesis
    proof (cases "\<not> probeTrackersFirst route \<or> Private t")
      case True
      with r \<open>start_ok env (w_clock w)\<close> one Inr ht b1 show ?thesis by (auto simp: openOnPort_start)
    next
      case False
      have b2: "brings w (Inl StartFailed) (Close h w1)"
        using b1 Inr ht by (simp add: brings_Close)
      have "start_and_add env cfg True False src (Some (metainfo_of src t)) (Close h w1) = (r, w')"
        using r True one Inr ht False by (simp add: openOnPort_start)
      then have "brings (Close h w1) r w'"
        by (rule start_and_add_brings [OF bringsD(2) [OF b2] src(1)  _ _, rotated -1])
           (simp_all add: privacyInHand_def metainfo_of_def)
      with b2 show ?thesis by (rule brings_trans)
    qed
  qed
qed

section \<open>Leases\<close>

text \<open>\<open>X\<close> is what the operation in progress holds and has not given to a session yet.\<close>

definition live_lease :: "World \<Rightarrow> nat \<Rightarrow> bool" where
  "live_lease w i \<longleftrightarrow> i < length (leases (w_ports w)) \<and> lease_pool (leases (w_ports w) ! i)"

definition holds :: "World \<Rightarrow> nat \<Rightarrow> nat \<Rightarrow> bool" where
  "holds w h i \<longleftrightarrow> h < nses w \<and> sess_lease (get_session w h) = Some i"

definition lease_inv :: "nat set \<Rightarrow> World \<Rightarrow> bool" where
  "lease_inv X w \<longleftrightarrow>
     (\<forall>i. live_lease w i \<longleftrightarrow> i \<in> X \<or> (\<exists>h. holds w h i)) \<and>
     (\<forall>i h h'. holds w h i \<and> holds w h' i \<longrightarrow> h = h') \<and>
     (\<forall>i h. i \<in> X \<longrightarrow> \<not> holds w h i)"

lemma lease_invD:
  assumes "lease_inv X w"
  shows "\<And>i. live_lease w i \<longleftrightarrow> i \<in> X \<or> (\<exists>h. holds w h i)"
    and "\<And>i h h'. holds w h i \<Longrightarrow> holds w h' i \<Longrightarrow> h = h'"
    and "\<And>i h. i \<in> X \<Longrightarrow> \<not> holds w h i"
  using assms unfolding lease_inv_def by blast+

lemma lease_inv_cong:
  assumes "\<And>i. live_lease w' i = live_lease w i" "\<And>h i. holds w' h i = holds w h i"
  shows "lease_inv X w' = lease_inv X w"
  using assms by (simp add: lease_inv_def)

lemma acquire_lease_inv:
  assumes "lease_inv X w" "acquire_lease w = Inr (i, port, w')"
  shows "lease_inv (insert i X) w' \<and> i \<notin> X"
proof -
  from assms(2) obtain l where l: "lease_pool l" "leases (w_ports w') = leases (w_ports w) @ [l]"
    and i: "i = length (leases (w_ports w))" and ses: "w_sessions w' = w_sessions w"
    by (fastforce simp: acquire_lease_def Acquire_def split: sum.splits prod.splits if_splits list.splits)
  have "\<not> live_lease w i" by (simp add: live_lease_def i)
  then have free: "i \<notin> X" "\<And>h. \<not> holds w h i"
    using assms(1) by (auto simp: lease_inv_def)
  have "holds w' h j = holds w h j" for h j
    by (simp add: holds_def ses get_session_def)
  moreover have "live_lease w' j = (j = i \<or> live_lease w j)" for j
    using l by (auto simp: live_lease_def i nth_append less_Suc_eq)
  ultimately show ?thesis
    using assms(1) free by (auto simp: lease_inv_def)
qed

lemma acquire_lease_frame:
  "acquire_lease w = Inr (i, port, w') \<Longrightarrow> w_sessions w' = w_sessions w"
  by (auto simp: acquire_lease_def split: sum.splits prod.splits)

lemma give_port_live:
  "live_lease (w\<lparr>w_ports := port_step (w_ports w) (Give i)\<rparr>) j \<longleftrightarrow> live_lease w j \<and> j \<noteq> i"
proof -
  have "j < length (leases (port_step W (Give i))) \<and> lease_pool (leases (port_step W (Give i)) ! j)
      \<longleftrightarrow> j < length (leases W) \<and> lease_pool (leases W ! j) \<and> j \<noteq> i" for W
    by (cases "i < length (leases W) \<and> lease_pool (leases W ! i)")
       (auto simp: Release_def nth_list_update split: if_splits)
  then show ?thesis by (simp add: live_lease_def)
qed

lemma release_lease_inv:
  assumes "lease_inv X w" "set_option l \<subseteq> X"
  shows "lease_inv (X - set_option l) (release_lease l w)"
proof (cases l)
  case None
  with assms show ?thesis by (simp add: release_lease_def)
next
  case (Some i)
  have "holds (release_lease l w) h j = holds w h j" for h j
    by (simp add: holds_def step_simps)
  moreover have "live_lease (release_lease l w) j = (live_lease w j \<and> j \<noteq> i)" for j
    using give_port_live by (simp add: Some release_lease_def)
  ultimately show ?thesis
    using assms Some by (auto simp: lease_inv_def)
qed

lemma give_lease_inv:
  assumes "lease_inv X w" "h < nses w" "sess_lease (get_session w h) = None" "set_option l \<subseteq> X"
  shows "lease_inv (X - set_option l) (give_lease l h w)"
proof -
  have "holds (give_lease l h w) k j = (holds w k j \<or> (k = h \<and> l = Some j))" for k j
    using assms(2,3) by (auto simp: holds_def step_simps)
  moreover have "live_lease (give_lease l h w) j = live_lease w j" for j
    by (simp add: live_lease_def step_simps)
  ultimately show ?thesis
    using assms(1,4) by (auto simp: lease_inv_def)
qed

lemma Close_lease_inv:
  assumes inv: "lease_inv X w" and h: "h < nses w"
  shows "lease_inv X (Close h w)"
proof (cases "sess_cl (get_session w h)")
  case None
  with inv show ?thesis by (simp add: Close_def)
next
  case (Some c)
  let ?l = "sess_lease (get_session w h)"
  have live: "live_lease (Close h w) j = (live_lease w j \<and> ?l \<noteq> Some j)" for j
    using give_port_live [of w _ j] Some
    by (cases ?l) (auto simp: Close_def live_lease_def step_simps release_lease_def)
  have holds: "holds (Close h w) k j = (holds w k j \<and> k \<noteq> h)" for k j
    using Some h by (auto simp: holds_def step_simps)
  have e: "holds w h j \<longleftrightarrow> ?l = Some j" for j using h by (simp add: holds_def)
  note l = lease_invD(1) [OF inv] and u = lease_invD(2) [OF inv] and d = lease_invD(3) [OF inv]
  show ?thesis
    unfolding lease_inv_def live holds
  proof (intro conjI allI)
    fix j
    show "(live_lease w j \<and> ?l \<noteq> Some j) = (j \<in> X \<or> (\<exists>k. holds w k j \<and> k \<noteq> h))"
      using l [of j] u [of h j] d [of j] e [of j] by blast
  qed (use u d in blast)+
qed

lemma brings_lease_inv:
  assumes "brings u r w" "lease_inv X u"
  shows "lease_inv X w"
proof -
  have "holds w h i = holds u h i" for h i
  proof (cases "h < nses u")
    case True
    with bringsD(1) [OF assms(1)] show ?thesis by (auto simp: holds_def extends_def)
  next
    case False
    with bringsD(4) [OF assms(1), of h] show ?thesis by (auto simp: holds_def)
  qed
  moreover have "live_lease w i = live_lease u i" for i
    using bringsD(3) [OF assms(1)] by (simp add: live_lease_def)
  ultimately show ?thesis
    using assms(2) lease_inv_cong by blast
qed

end
