(* ===== verification/PoolLaws.thy ===== *)
theory PoolLaws
  imports Pools SessionLaws
begin

text \<open>
  The invariant of the torrent pool and its preservation by every operation: clients are either
  the shared one or registered for one attachment, the shared client carries only torrents whose
  metadata says public, and every port lease belongs to an open client.
\<close>

section \<open>Opening with a lease\<close>

definition opens :: "nat set \<Rightarrow> World \<Rightarrow> (swarm_error, nat \<times> Torrent) result \<Rightarrow> World \<Rightarrow> bool" where
  "opens X u r w \<longleftrightarrow> extends u w \<and> world_ok w \<and> lease_inv X w \<and>
     (\<forall>h. nses u \<le> h \<and> h < nses w \<and> sess_cl (get_session w h) \<noteq> None \<longrightarrow> (\<exists>t. r = Inr (h, t))) \<and>
     (\<forall>h t. r = Inr (h, t) \<longrightarrow> nses u \<le> h \<and> h < nses w \<and> sess_cl (get_session w h) \<noteq> None) \<and>
     (\<forall>h. nses u \<le> h \<and> h < nses w \<longrightarrow> Received w h = 0) \<and>
     (\<forall>h t. r = Inr (h, t) \<longrightarrow> dhtOn (get_session w h) \<longrightarrow> \<not> Private t)"

lemma opensD:
  assumes "opens X u r w"
  shows "extends u w" "world_ok w" "lease_inv X w"
    and "\<And>h. nses u \<le> h \<Longrightarrow> h < nses w \<Longrightarrow> sess_cl (get_session w h) \<noteq> None \<Longrightarrow> \<exists>t. r = Inr (h, t)"
    and "\<And>h t. r = Inr (h, t) \<Longrightarrow> nses u \<le> h \<and> h < nses w \<and> sess_cl (get_session w h) \<noteq> None"
    and "\<And>h. nses u \<le> h \<Longrightarrow> h < nses w \<Longrightarrow> Received w h = 0"
    and "\<And>h t. r = Inr (h, t) \<Longrightarrow> dhtOn (get_session w h) \<Longrightarrow> \<not> Private t"
  using assms unfolding opens_def by blast+

lemma opensI:
  assumes "extends u w" "world_ok w" "lease_inv X w"
    and "\<And>h. nses u \<le> h \<Longrightarrow> h < nses w \<Longrightarrow> sess_cl (get_session w h) \<noteq> None \<Longrightarrow> \<exists>t. r = Inr (h, t)"
    and "\<And>h t. r = Inr (h, t) \<Longrightarrow> nses u \<le> h \<and> h < nses w \<and> sess_cl (get_session w h) \<noteq> None"
    and "\<And>h. nses u \<le> h \<Longrightarrow> h < nses w \<Longrightarrow> Received w h = 0"
    and "\<And>h t. r = Inr (h, t) \<Longrightarrow> dhtOn (get_session w h) \<Longrightarrow> \<not> Private t"
  shows "opens X u r w"
  using assms unfolding opens_def by blast

lemma brings_opens:
  assumes b: "brings u r w" and inv: "lease_inv X u"
  shows "opens X u r w"
  by (rule opensI [OF bringsD(1,2) [OF b] brings_lease_inv [OF b inv] bringsD(5,6,7,8) [OF b]])

text \<open>A step that keeps what \<open>opens\<close> speaks of keeps \<open>opens\<close>.\<close>

lemma opens_step:
  assumes op: "opens Y u r w"
    and "extends u w'" "world_ok w'" "lease_inv X w'" and n: "nses w' = nses w"
    and cl: "\<And>h. sess_cl (get_session w' h) = sess_cl (get_session w h)"
    and dht: "\<And>h. dhtOn (get_session w' h) = dhtOn (get_session w h)"
  shows "opens X u r w'"
  by (rule opensI [OF assms(2-4)], unfold n cl dht Received_def)
     (use opensD(4-7) [OF op] in \<open>auto simp: Received_def\<close>)

text \<open>Handing a lease over, or back, at the end of an opening.\<close>

lemma opens_release:
  assumes "opens (X \<union> set_option l) u (Inl e) w" "X \<inter> set_option l = {}"
  shows "opens X u (Inl e) (release_lease l w)"
proof -
  have "lease_inv (X \<union> set_option l - set_option l) (release_lease l w)"
    by (rule release_lease_inv [OF opensD(3) [OF assms(1)]]) simp
  moreover have "X \<union> set_option l - set_option l = X"
    using assms(2) by blast
  ultimately show ?thesis
    using opensD(1,2) [OF assms(1)] by (intro opens_step [OF assms(1)]) (simp_all add: step_simps)
qed

lemma opens_give:
  assumes o: "opens (X \<union> set_option l) u (Inr (h, t)) w" "X \<inter> set_option l = {}"
    and none: "sess_lease (get_session w h) = None"
  shows "opens X u (Inr (h, t)) (give_lease l h w)"
proof -
  have h: "nses u \<le> h" "h < nses w" using opensD(5) [OF o(1) refl] by simp_all
  have "lease_inv (X \<union> set_option l - set_option l) (give_lease l h w)"
    by (rule give_lease_inv [OF opensD(3) [OF o(1)] h(2) none]) simp
  moreover have "X \<union> set_option l - set_option l = X"
    using o(2) by blast
  ultimately show ?thesis
    using extends_give [OF opensD(1) [OF o(1)] h(1)] give_lease_world_ok [OF opensD(2) [OF o(1)]] opensD(5) [OF o(1) refl]
    by (intro opens_step [OF o(1)]) (simp_all add: step_simps)
qed

lemma leasePort_inv:
  assumes "lease_inv X w" "leasePort c w = Inr (l, port, w1)"
  shows "lease_inv (X \<union> set_option l) w1 \<and> w_sessions w1 = w_sessions w \<and> X \<inter> set_option l = {}"
  using assms acquire_lease_inv acquire_lease_frame
  by (fastforce simp: leasePort_def bind_result_Inr split: if_splits)

lemma same_sessions:
  assumes "w_sessions w1 = w_sessions w"
  shows "nses w1 = nses w" "get_session w1 = get_session w" "world_ok w1 = world_ok w"
    "Received w1 = Received w"
  using assms by (auto simp: get_session_def world_ok_def Received_def fun_eq_iff)

lemma opens_same_start:
  assumes "w_sessions w1 = w_sessions w"
  shows "opens X w1 r v = opens X w r v"
  unfolding opens_def extends_def same_sessions [OF assms] ..

lemma opens_refl:
  "world_ok w \<Longrightarrow> lease_inv X w \<Longrightarrow> opens X w (Inl e) w"
  by (auto simp: opens_def)

lemma Open_opens:
  assumes ok: "world_ok w" and inv: "lease_inv X w"
    and src: "wf_source src" "stable_file env src"
    and r: "Open env cfg src w = (r, w')"
  shows "opens X w r w'"
proof (cases "route_err (routeFor cfg src)")
  case (Some e)
  with r ok inv show ?thesis by (auto simp: Open_def intro: opens_refl)
next
  case None
  show ?thesis
  proof (cases "leasePort cfg w")
    case (Inl e)
    with None r ok inv show ?thesis by (auto simp: Open_def intro: opens_refl)
  next
    case (Inr x)
    then obtain l port w1 where lp: "leasePort cfg w = Inr (l, port, w1)" by (cases x) auto
    note L = leasePort_inv [OF inv lp]
    obtain r2 w2 where two: "openOnPort env (cfg\<lparr>cfg_ListenPort := port\<rparr>) src (routeFor cfg src) w1 = (r2, w2)"
      by fastforce
    have ses: "w_sessions w1 = w_sessions w" using L by blast
    have ok1: "world_ok w1" using ok same_sessions(3) [OF ses] by simp
    have br: "brings w1 r2 w2"
      by (rule openOnPort_brings [OF ok1 src refl None two])
    have "opens (X \<union> set_option l) w1 r2 w2"
      using br L by (simp add: brings_opens)
    then have op: "opens (X \<union> set_option l) w r2 w2"
      using opens_same_start [OF ses] by simp
    show ?thesis
    proof (cases r2)
      case (Inl e)
      with r None lp two have "r = Inl e" "w' = release_lease l w2" by (auto simp: Open_def)
      with op Inl L show ?thesis by (simp add: opens_release)
    next
      case (Inr ht)
      then obtain h t where ht: "r2 = Inr (h, t)" by (cases ht) auto
      with r None lp two have "r = Inr (h, t)" "w' = give_lease l h w2" by (auto simp: Open_def)
      moreover have "sess_lease (get_session w2 h) = None"
        using bringsD(4,6) [OF br] ht by blast
      ultimately show ?thesis
        using op ht L by (simp add: opens_give)
    qed
  qed
qed

section \<open>The invariant\<close>

definition public_client :: "Client \<Rightarrow> bool" where
  "public_client c \<longleftrightarrow> (\<forall>e \<in> set (cl_torrents c). \<exists>i. te_info e = Some i \<and> \<not> flagged_private i)"

definition shared_ok :: "Pool \<Rightarrow> World \<Rightarrow> bool" where
  "shared_ok p w \<longleftrightarrow> (\<forall>h. p_sess p = Some h \<longrightarrow>
     h < nses w \<and> \<not> blindly (get_session w h) \<and>
     (\<exists>c. sess_cl (get_session w h) = Some c \<and> public_client c))"

definition alone_ok :: "Pool \<Rightarrow> World \<Rightarrow> bool" where
  "alone_ok p w \<longleftrightarrow> distinct (map fst (alone p)) \<and> distinct (map snd (alone p)) \<and>
     (\<forall>h \<in> snd ` set (alone p). h < nses w \<and> sess_cl (get_session w h) \<noteq> None \<and> p_sess p \<noteq> Some h)"

definition no_stray :: "Pool \<Rightarrow> World \<Rightarrow> bool" where
  "no_stray p w \<longleftrightarrow> (\<forall>h < nses w. sess_cl (get_session w h) \<noteq> None \<longrightarrow>
     p_sess p = Some h \<or> h \<in> snd ` set (alone p))"

definition pool_inv :: "nat set \<Rightarrow> Pool \<Rightarrow> World \<Rightarrow> bool" where
  "pool_inv X p w \<longleftrightarrow> world_ok w \<and> lease_inv X w \<and> shared_ok p w \<and> alone_ok p w \<and> no_stray p w"

lemmas pool_inv_defs = pool_inv_def shared_ok_def alone_ok_def no_stray_def

text \<open>What no attaching operation changes.\<close>

definition pool_frame :: "Pool \<Rightarrow> World \<Rightarrow> Pool \<Rightarrow> World \<Rightarrow> bool" where
  "pool_frame p w p' w' \<longleftrightarrow> nses w \<le> nses w' \<and>
     (\<forall>h < nses w. dhtOn (get_session w' h) = dhtOn (get_session w h)) \<and>
     held p' = held p \<and> p_cfg p' = p_cfg p \<and> p_closed p' = p_closed p \<and>
     Downloaded (p', w') = Downloaded (p, w)"

lemma pool_frame_trans:
  "pool_frame p u q v \<Longrightarrow> pool_frame q v r w \<Longrightarrow> pool_frame p u r w"
  by (auto simp: pool_frame_def)

lemma Downloaded_cong:
  assumes "retired p' = retired p" "p_sess p' = p_sess p" "alone p' = alone p"
    and "\<And>h. p_sess p = Some h \<or> h \<in> snd ` set (alone p) \<Longrightarrow> Received w' h = Received w h"
  shows "Downloaded (p', w') = Downloaded (p, w)"
proof -
  have alone: "map (\<lambda>(k, h). Received w' h) (alone p) = map (\<lambda>(k, h). Received w h) (alone p)"
    by (rule map_cong [OF refl]) (use assms(4) in \<open>force simp: image_iff\<close>)
  show ?thesis
    unfolding Downloaded_def prod.case assms(1-3) alone
    using assms(4) by (cases "p_sess p") simp_all
qed

lemma extends_Received: "extends u w \<Longrightarrow> h < nses u \<Longrightarrow> Received w h = Received u h"
  by (simp add: extends_def Received_def)

lemma known_sessions:
  assumes "pool_inv X p w" "p_sess p = Some h \<or> h \<in> snd ` set (alone p)"
  shows "h < nses w"
  using assms by (auto simp: pool_inv_defs)

text \<open>An opening that failed leaves the pool as it was.\<close>

lemma pool_inv_opens_Inl:
  assumes inv: "pool_inv Y p u" and op: "opens X u (Inl e) w"
  shows "pool_inv X p w \<and> pool_frame p u p w"
proof -
  note E = opensD(1) [OF op]
  have old: "get_session w h = get_session u h" if "h < nses u" for h
    using E that by (rule extendsD)
  have le: "nses u \<le> nses w" using E by (simp add: extends_def)
  have new: "sess_cl (get_session w h) = None" if "nses u \<le> h" "h < nses w" for h
    using opensD(4) [OF op that] by blast
  have "shared_ok p w"
    using inv old le by (auto simp: pool_inv_def shared_ok_def)
  moreover have "alone_ok p w"
    using inv old le by (force simp: pool_inv_def alone_ok_def)
  moreover have "no_stray p w"
    unfolding no_stray_def
  proof (intro allI impI)
    fix h assume h: "h < nses w" "sess_cl (get_session w h) \<noteq> None"
    with new [of h] have "h < nses u" by (cases "h < nses u") auto
    with h inv old show "p_sess p = Some h \<or> h \<in> snd ` set (alone p)"
      by (auto simp: pool_inv_def no_stray_def)
  qed
  moreover have "Downloaded (p, w) = Downloaded (p, u)"
    by (rule Downloaded_cong) (use known_sessions [OF inv] extends_Received [OF E] in auto)
  ultimately show ?thesis
    using opensD(2,3) [OF op] old le by (auto simp: pool_inv_def pool_frame_def)
qed

lemma update_new_key:
  "k \<notin> fst ` set al \<Longrightarrow> AList.update k v al = al @ [(k, v)]"
  by (induction al) auto

text \<open>One that succeeded is registered.\<close>

lemma pool_inv_aloneOn:
  assumes inv: "pool_inv Y p u" and op: "opens X u (Inr (h, t)) w"
    and key: "key \<notin> fst ` set (alone p)" and a: "aloneOn key t h p = (a, p')"
  shows "pool_inv X p' w \<and> pool_frame p u p' w"
proof -
  note E = opensD(1) [OF op]
  have old: "get_session w k = get_session u k" if "k < nses u" for k
    using E that by (rule extendsD)
  have le: "nses u \<le> nses w" using E by (simp add: extends_def)
  have h: "nses u \<le> h" "h < nses w" "sess_cl (get_session w h) \<noteq> None"
    using opensD(5) [OF op refl] by simp_all
  have p': "p' = p\<lparr>alone := alone p @ [(key, h)]\<rparr>"
    using a key by (auto simp: aloneOn_def update_new_key)
  have fresh: "k \<noteq> h" if "p_sess p = Some k \<or> k \<in> snd ` set (alone p)" for k
    using known_sessions [OF inv that] h(1) by simp
  have "shared_ok p' w"
    using inv old le by (auto simp: pool_inv_def shared_ok_def p')
  moreover have "alone_ok p' w"
    using inv old le h key fresh unfolding pool_inv_def alone_ok_def p' by (force simp: image_iff)
  moreover have "no_stray p' w"
    unfolding no_stray_def
  proof (intro allI impI)
    fix k assume k: "k < nses w" "sess_cl (get_session w k) \<noteq> None"
    show "p_sess p' = Some k \<or> k \<in> snd ` set (alone p')"
    proof (cases "k < nses u")
      case True
      with k inv old show ?thesis by (auto simp: pool_inv_def no_stray_def p')
    next
      case False
      with opensD(4) [OF op _ k] show ?thesis by (auto simp: p')
    qed
  qed
  moreover have "Downloaded (p', w) = Downloaded (p, w)"
    using opensD(6) [OF op h(1,2)] by (simp add: Downloaded_def p')
  moreover have "Downloaded (p, w) = Downloaded (p, u)"
    by (rule Downloaded_cong) (use known_sessions [OF inv] extends_Received [OF E] in auto)
  ultimately show ?thesis
    using opensD(2,3) [OF op] old le by (auto simp: pool_inv_def pool_frame_def p')
qed

section \<open>The shared client\<close>

lemma brings_newSession:
  assumes "world_ok w" "newSession env cfg dht w = (Inr h, w')" "\<not> Private t"
  shows "brings w (Inr (h, t)) w'"
proof (rule bringsI)
  show "extends w w'" "world_ok w'"
    using extends_newSession [of w env cfg dht] newSession_world_ok [OF assms(1), of env cfg dht] assms(2)
    by simp_all
qed (use assms in \<open>auto simp: newSession_def step_simps less_Suc_eq split: if_splits\<close>)

lemma pool_inv_shared:
  assumes inv: "pool_inv Y p u" and op: "opens X u (Inr (h, t)) w" and none: "p_sess p = None"
    and pub: "\<not> blindly (get_session w h)" "\<exists>c. sess_cl (get_session w h) = Some c \<and> public_client c"
  shows "pool_inv X (p\<lparr>p_sess := Some h\<rparr>) w \<and> pool_frame p u (p\<lparr>p_sess := Some h\<rparr>) w"
proof -
  let ?p = "p\<lparr>p_sess := Some h\<rparr>"
  note E = opensD(1) [OF op]
  have old: "get_session w k = get_session u k" if "k < nses u" for k
    using E that by (rule extendsD)
  have le: "nses u \<le> nses w" using E by (simp add: extends_def)
  have h: "nses u \<le> h" "h < nses w"
    using opensD(5) [OF op refl] by simp_all
  have "shared_ok ?p w"
    using h pub by (auto simp: shared_ok_def)
  moreover have "alone_ok ?p w"
    using inv old le h unfolding pool_inv_def alone_ok_def by force
  moreover have "no_stray ?p w"
    unfolding no_stray_def
  proof (intro allI impI)
    fix k assume k: "k < nses w" "sess_cl (get_session w k) \<noteq> None"
    show "p_sess ?p = Some k \<or> k \<in> snd ` set (alone ?p)"
    proof (cases "k < nses u")
      case True
      with k inv old none show ?thesis by (auto simp: pool_inv_def no_stray_def)
    next
      case False
      with opensD(4) [OF op _ k] show ?thesis by auto
    qed
  qed
  moreover have "Downloaded (?p, w) = Downloaded (p, w)"
    using opensD(6) [OF op h] none by (simp add: Downloaded_def)
  moreover have "Downloaded (p, w) = Downloaded (p, u)"
    by (rule Downloaded_cong) (use known_sessions [OF inv] extends_Received [OF E] in auto)
  ultimately show ?thesis
    using opensD(2,3) [OF op] old le by (auto simp: pool_inv_def pool_frame_def)
qed

text \<open>The lease a claim carries, and giving a claim back.\<close>

definition claimed :: "portClaim option \<Rightarrow> nat set" where
  "claimed c = (case c of None \<Rightarrow> {} | Some (l, port) \<Rightarrow> set_option l)"

lemma pool_inv_lease:
  assumes "pool_inv X p w" "lease_inv Y w'" "w_sessions w' = w_sessions w"
  shows "pool_inv Y p w' \<and> pool_frame p w p w'"
  using assms(1,2)
  unfolding pool_inv_defs pool_frame_def Downloaded_def prod.case same_sessions [OF assms(3)] by blast

lemma release_lease_sessions [simp]: "w_sessions (release_lease l w) = w_sessions w"
  by (simp add: release_lease_def split: option.split)

lemma pool_inv_claim_release:
  assumes "pool_inv (claimed c) p w"
  shows "pool_inv {} p (claim_release c w) \<and> pool_frame p w p (claim_release c w)"
proof (rule pool_inv_lease [OF assms])
  have "lease_inv (claimed c) w" using assms by (simp add: pool_inv_def)
  then show "lease_inv {} (claim_release c w)"
    using release_lease_inv [of "set_option l" w l for l]
    by (auto simp: claim_release_def claimed_def split: option.splits)
qed (simp add: claim_release_def split: option.split)

lemma claimPort_inv:
  assumes "pool_inv {} p w" "claimPort (p, w) = Inr (c, w1)"
  shows "pool_inv (claimed (Some c)) p w1 \<and> pool_frame p w p w1"
proof -
  obtain l port where c: "c = (l, port)" by fastforce
  from assms(2) have lp: "leasePort (p_cfg p) w = Inr (l, port, w1)"
    by (auto simp: claimPort_def bind_result_Inr c)
  have "lease_inv {} w" using assms(1) by (simp add: pool_inv_def)
  from leasePort_inv [OF this lp] have "lease_inv (claimed (Some c)) w1" "w_sessions w1 = w_sessions w"
    by (simp_all add: claimed_def c)
  then show ?thesis by (rule pool_inv_lease [OF assms(1)])
qed

lemma startLocked_inv:
  assumes inv: "pool_inv (claimed spare) p w" and none: "p_sess p = None"
    and r: "startLocked env spare (p, w) = (e, (p', w'))"
  shows "pool_inv {} p' w' \<and> pool_frame p w p' w' \<and> alone p' = alone p"
proof (cases "case spare of Some c \<Rightarrow> Inr (c, w) | None \<Rightarrow> claimPort (p, w)")
  case (Inl e')
  with r inv show ?thesis
    by (cases spare) (auto simp: startLocked_def claimed_def pool_frame_def)
next
  case (Inr x)
  then obtain l port w1 where x: "x = ((l, port), w1)" by (cases x) auto
  have inv1: "pool_inv (set_option l) p w1 \<and> pool_frame p w p w1"
    using Inr x inv claimPort_inv [of p w "(l, port)" w1]
    by (cases spare) (auto simp: claimed_def pool_frame_def)
  then have ok: "world_ok w1" and li: "lease_inv (set_option l) w1" by (simp_all add: pool_inv_def)
  obtain n w2 where ns: "newSession env ((p_cfg p)\<lparr>cfg_ListenPort := port, cfg_Ports := False\<rparr>)
      (cfg_DHT (p_cfg p)) w1 = (n, w2)" by fastforce
  show ?thesis
  proof (cases n)
    case (Inl e')
    with ns have "w2 = tick w1" by (auto simp: newSession_def split: if_splits)
    with ok li have "opens ({} \<union> set_option l) w1 (Inl e') w2"
      by (auto intro: brings_opens brings_failed_start)
    then have "opens {} w1 (Inl e') (release_lease l w2)"
      by (rule opens_release) simp
    from pool_inv_opens_Inl [OF conjunct1 [OF inv1] this] show ?thesis
      using r Inr x ns Inl inv1 pool_frame_trans by (auto simp: startLocked_def)
  next
    case (Inr h)
    obtain t where t: "\<not> Private t"
      by (rule that [of "\<lparr>t_hash = [], t_info = \<lparr>info_private = None\<rparr>\<rparr>"])
         (simp add: Private_def flagged_private_def)
    have br: "brings w1 (Inr (h, t)) w2"
      using ns Inr ok t brings_newSession by blast
    then have op: "opens ({} \<union> set_option l) w1 (Inr (h, t)) w2"
      using li by (simp add: brings_opens)
    have h: "h < nses w2" using bringsD(6) [OF br refl] by simp
    have s: "get_session w2 h = fresh_session ((p_cfg p)\<lparr>cfg_ListenPort := port, cfg_Ports := False\<rparr>)
        (cfg_DHT (p_cfg p))"
      using ns Inr by (auto simp: newSession_def step_simps split: if_splits)
    have "opens {} w1 (Inr (h, t)) (give_lease l h w2)"
      by (rule opens_give [OF op]) (simp_all add: s)
    from pool_inv_shared [OF conjunct1 [OF inv1] this none] show ?thesis
      using r \<open>_ = Inr x\<close> x ns Inr inv1 pool_frame_trans h s
      by (auto simp: startLocked_def step_simps public_client_def)
  qed
qed

end
