(* ===== verification/PoolSafety.thy ===== *)
theory PoolSafety
  imports PoolLaws
begin

text \<open>
  Every way into the pool keeps the invariant of \<open>PoolLaws\<close>, and what an attachment is
  granted: a public torrent in the shared client, or a client of its own that has no DHT when the
  torrent is private.
\<close>

section \<open>Joining the shared client\<close>

lemma shared_public_answer:
  assumes "wf_source src" "mi = None \<longrightarrow> stable_file env src" "privacyInHand src mi = (False, True)"
  shows "\<exists>hash info. client_answer env n src mi = (hash, Some info) \<and> \<not> flagged_private info"
proof -
  have "snd (client_answer env n src mi) \<noteq> None"
    using assms
    by (auto simp: privacyInHand_def client_answer_def wf_source_def stable_file_def Privacy_def Let_def
        split: option.splits)
  then show ?thesis
    using known_answer [OF assms] by (cases "client_answer env n src mi") auto
qed

lemma addTo_lease_inv: "lease_inv X w \<Longrightarrow> lease_inv X (snd (addTo env h src mi peers w))"
  using lease_inv_cong [of "snd (addTo env h src mi peers w)" w X]
  by (simp add: live_lease_def holds_def step_simps)

lemma addTo_public_client:
  assumes "wf_source src" "mi = None \<longrightarrow> stable_file env src" "privacyInHand src mi = (False, True)"
    and "h < nses w" "sess_cl (get_session w h) = Some c" "public_client c"
  shows "\<exists>c'. sess_cl (get_session (snd (addTo env h src mi peers w)) h) = Some c' \<and> public_client c'"
proof -
  obtain hash info where "client_answer env (w_clock w) src mi = (hash, Some info)" "\<not> flagged_private info"
    using shared_public_answer [OF assms(1-3)] by blast
  with assms(3-6) show ?thesis
    by (auto simp: addTo_def Let_def step_simps public_client_def attach_entry_def)
qed

lemma addTo_shared:
  assumes inv: "pool_inv {} p w" and h: "p_sess p = Some h"
    and src: "wf_source src" "mi = None \<longrightarrow> stable_file env src" "privacyInHand src mi = (False, True)"
    and r: "addTo env h src mi peers w = (r, w')"
  shows "pool_inv {} p w' \<and> pool_frame p w p w' \<and> (\<forall>t. r = Inr t \<longrightarrow> \<not> Private t)"
proof -
  have w': "w' = snd (addTo env h src mi peers w)" using r by simp
  obtain c where sh: "h < nses w" "\<not> blindly (get_session w h)" "sess_cl (get_session w h) = Some c"
      "public_client c"
    using inv h by (auto simp: pool_inv_def shared_ok_def)
  have "world_ok w'"
    unfolding w' by (rule addTo_world_ok [OF _ sh(1) src(1,2)]) (use inv src(3) in \<open>auto simp: pool_inv_def\<close>)
  moreover have "lease_inv {} w'"
    unfolding w' by (rule addTo_lease_inv) (use inv in \<open>simp add: pool_inv_def\<close>)
  moreover have "shared_ok p w'"
    using addTo_public_client [OF src sh(1,3,4)] sh h by (simp add: w' shared_ok_def step_simps)
  moreover have "alone_ok p w'" "no_stray p w'"
    using inv by (simp_all add: w' pool_inv_defs step_simps)
  moreover have "pool_frame p w p w'"
    unfolding pool_frame_def by (auto simp: w' step_simps intro: Downloaded_cong)
  moreover have "\<not> Private t" if "r = Inr t" for t
    using r that shared_public_answer [OF src, of "w_clock w"] src(3) sh
    by (auto simp: addTo_def Let_def Private_def split: if_splits)
  ultimately show ?thesis by (simp add: pool_inv_def)
qed

section \<open>What an attaching operation promises\<close>

definition granted ::
  "string \<Rightarrow> Pool \<Rightarrow> World \<Rightarrow> (swarm_error, Attachment) result \<Rightarrow> Pool \<Rightarrow> World \<Rightarrow> bool" where
  "granted key p w r p' w' \<longleftrightarrow> pool_inv {} p' w' \<and> pool_frame p w p' w' \<and>
     (case r of
        Inl e \<Rightarrow> alone p' = alone p
      | Inr a \<Rightarrow> att_key a = key \<and>
          (case att_sess a of
             None \<Rightarrow> alone p' = alone p \<and> \<not> Private (att_torrent a)
           | Some h \<Rightarrow> alone p' = alone p @ [(key, h)] \<and>
               (dhtOn (get_session w' h) \<longrightarrow> \<not> Private (att_torrent a))))"

lemma granted_step:
  "pool_frame p u p v \<Longrightarrow> granted key p v r p' w' \<Longrightarrow> granted key p u r p' w'"
  using pool_frame_trans by (auto simp: granted_def)

lemma granted_opens_Inl:
  "pool_inv Y p u \<Longrightarrow> opens {} u (Inl e) w \<Longrightarrow> granted key p u (Inl e') p w"
  using pool_inv_opens_Inl by (fastforce simp: granted_def)

lemma granted_aloneOn:
  assumes "pool_inv Y p u" "opens {} u (Inr (h, t)) w" "key \<notin> fst ` set (alone p)"
    and "aloneOn key t h p = (a, p')"
  shows "granted key p u (Inr a) p' w"
  using pool_inv_aloneOn [OF assms] opensD(7) [OF assms(2) refl] assms(3,4)
  by (auto simp: granted_def aloneOn_def update_new_key)

lemma attachShared_granted:
  assumes inv: "pool_inv (claimed spare) p w"
    and src: "wf_source src" "mi = None \<longrightarrow> stable_file env src"
    and r: "attachShared env src key mi peers spare (p, w) = (r, (p', w'))"
  shows "granted key p w r p' w'"
proof -
  obtain pv known where pk: "privacyInHand src mi = (pv, known)" by fastforce
  note rel = pool_inv_claim_release [OF inv]
  show ?thesis
  proof (cases "\<not> known \<or> pv \<or> p_closed p")
    case True
    with r pk rel show ?thesis by (auto simp: attachShared_def granted_def split: if_splits)
  next
    case False
    with pk have pub: "privacyInHand src mi = (False, True)" by simp
    define started where "started = (case p_sess p of None \<Rightarrow> startLocked env spare (p, w)
        | Some h \<Rightarrow> (None, (p, claim_release spare w)))"
    obtain e p1 w1 where st: "started = (e, (p1, w1))" by (cases started) auto
    have one: "pool_inv {} p1 w1 \<and> pool_frame p w p1 w1 \<and> alone p1 = alone p"
      using st rel startLocked_inv [OF inv]
      by (auto simp: started_def split: option.splits)
    show ?thesis
    proof (cases "e \<noteq> None \<or> p_sess p1 = None")
      case True
      with r pub False st one show ?thesis
        by (auto simp: attachShared_def started_def [symmetric] granted_def split: option.splits)
    next
      case False2: False
      then obtain h where e: "e = None" and h: "p_sess p1 = Some h" by auto
      obtain r2 w2 where a: "addTo env h src mi (mergePeers (cfg_Peers (p_cfg p1)) peers) w1 = (r2, w2)"
        by fastforce
      have two: "pool_inv {} p1 w2 \<and> pool_frame p1 w1 p1 w2 \<and> (\<forall>t. r2 = Inr t \<longrightarrow> \<not> Private t)"
        by (rule addTo_shared [OF conjunct1 [OF one] h src pub a])
      then have "pool_frame p w p1 w2" using one pool_frame_trans by blast
      moreover have "(p', w') = (p1, w2)"
        and "r = (case r2 of Inl e \<Rightarrow> Inl e
              | Inr t \<Rightarrow> Inr \<lparr>att_key = key, att_torrent = t, att_sess = None\<rparr>)"
        using r pub False st e h a
        by (auto simp: attachShared_def started_def [symmetric] split: sum.splits)
      ultimately show ?thesis
        using one two by (auto simp: granted_def split: sum.splits)
    qed
  qed
qed

section \<open>A client of its own\<close>

lemma attachAlone_granted:
  assumes inv: "pool_inv {} p w" and src: "wf_source src" "stable_file env src"
    and key: "key \<notin> fst ` set (alone p)"
    and r: "attachAlone env src key peers (p, w) = (r, (p', w'))"
  shows "granted key p w r p' w'"
proof -
  obtain r1 w1 where o: "Open env ((p_cfg p)\<lparr>cfg_Peers := mergePeers (cfg_Peers (p_cfg p)) peers\<rparr>) src w
      = (r1, w1)" by fastforce
  have ok: "world_ok w" and li: "lease_inv {} w" using inv by (simp_all add: pool_inv_def)
  have op: "opens {} w r1 w1" by (rule Open_opens [OF ok li src o])
  show ?thesis
  proof (cases r1)
    case (Inl e)
    with r o op granted_opens_Inl [OF inv] show ?thesis by (auto simp: attachAlone_def)
  next
    case (Inr ht)
    obtain h t where "ht = (h, t)" by fastforce
    with Inr r o op granted_aloneOn [OF inv _ key] show ?thesis
      by (auto simp: attachAlone_def split: prod.splits)
  qed
qed

section \<open>Probing the trackers first\<close>

text \<open>The probe seen as an opening: what \<open>start_and_add\<close> says of it, and that it has
  received nothing worth retiring.\<close>

lemma probe_brings:
  assumes ok: "world_ok w" and src: "wf_source src" "stable_file env src"
    and ns: "newSession env cfg False w = (Inr probe, w1)" and ad: "add env probe src None w1 = (r, w2)"
  shows "Received w2 probe = 0"
    and "r = Inl e \<Longrightarrow> brings w (Inl e) (Close probe w2)"
    and "r = Inr t \<Longrightarrow> brings w (Inr (probe, t)) w2"
    and "r = Inr t \<Longrightarrow> \<not> dhtOn (get_session w2 probe)"
proof -
  have w1: "w1 = tick (grow (fresh_session cfg False) w)" "probe = nses w"
    using ns by (auto simp: newSession_def split: if_splits)
  have w2: "w2 = snd (addTo env probe src None (cfg_Peers (sess_cfg (get_session w1 probe))) w1)"
    using ad by (simp add: add_def)
  show "Received w2 probe = 0"
    by (simp add: w2 step_simps w1)
  show "\<not> dhtOn (get_session w2 probe)"
    by (simp add: w2 step_simps w1)
  have sa: "start_and_add env cfg False False src None w =
      (case r of Inl e \<Rightarrow> (Inl e, Close probe w2) | Inr t \<Rightarrow> (Inr (probe, t), w2))"
    using ns ad by (simp add: start_and_add_unmarked)
  note br = start_and_add_brings [OF ok src(1), where dht = False and bl = False and mi = None and env = env
      and cfg = cfg]
  show "brings w (Inl e) (Close probe w2)" if "r = Inl e"
    by (rule br) (use sa that src in auto)
  show "brings w (Inr (probe, t)) w2" if "r = Inr t"
    by (rule br) (use sa that src in auto)
qed

lemma retireClient_zero: "Received w h = 0 \<Longrightarrow> retireClient h w p = p"
  by (simp add: retireClient_def)

lemma granted_give:
  assumes inv: "pool_inv (set_option l) p u" and br: "brings u (Inr (h, t)) w"
    and key: "key \<notin> fst ` set (alone p)" and a: "aloneOn key t h p = (a, p')"
  shows "granted key p u (Inr a) p' (give_lease l h w)"
proof -
  have op: "opens ({} \<union> set_option l) u (Inr (h, t)) w"
    using brings_opens [OF br] inv by (simp add: pool_inv_def)
  have "sess_lease (get_session w h) = None"
    using bringsD(4,6) [OF br] by blast
  then have "opens {} u (Inr (h, t)) (give_lease l h w)"
    using opens_give [OF op] by simp
  then show ?thesis by (rule granted_aloneOn [OF inv _ key a])
qed

lemma granted_giveback:
  assumes inv: "pool_inv (set_option l) p u" and br: "brings u (Inl e) w"
  shows "granted key p u (Inl e') p (release_lease l w)"
proof -
  have op: "opens ({} \<union> set_option l) u (Inl e) w"
    using brings_opens [OF br] inv by (simp add: pool_inv_def)
  then have "opens {} u (Inl e) (release_lease l w)"
    using opens_release by auto
  then show ?thesis by (rule granted_opens_Inl [OF inv])
qed

lemma probeThenAttach_granted:
  assumes inv: "pool_inv {} p w" and src: "wf_source src" "stable_file env src"
    and key: "key \<notin> fst ` set (alone p)"
    and r: "probeThenAttach env src key peers (p, w) = (r, (p', w'))"
  shows "granted key p w r p' w'"
proof (cases "claimPort (p, w)")
  case (Inl e)
  with r inv show ?thesis by (auto simp: probeThenAttach_def granted_def pool_frame_def)
next
  case (Inr x)
  then obtain l port w1 where x: "x = ((l, port), w1)" by (cases x) auto
  let ?cfg = "(p_cfg p)\<lparr>cfg_ListenPort := port, cfg_Ports := False,
      cfg_Peers := mergePeers (cfg_Peers (p_cfg p)) peers\<rparr>"
  from claimPort_inv [OF inv, of "(l, port)" w1] Inr x
  have inv1: "pool_inv (set_option l) p w1" and fr: "pool_frame p w p w1" by (simp_all add: claimed_def)
  have ok: "world_ok w1" and li: "lease_inv (set_option l) w1" using inv1 by (simp_all add: pool_inv_def)
  obtain n w2 where ns: "newSession env ?cfg False w1 = (n, w2)" by fastforce
  have "granted key p w1 r p' w'"
  proof (cases n)
    case (Inl e)
    with ns have "w2 = tick w1" by (auto simp: newSession_def split: if_splits)
    with brings_failed_start [OF ok] granted_giveback [OF inv1] r Inr x ns Inl show ?thesis
      by (auto simp: probeThenAttach_def)
  next
    case n: (Inr probe)
    obtain r3 w3 where ad: "add env probe src None w2 = (r3, w3)" by fastforce
    note P = probe_brings [OF ok src ns [unfolded n] ad]
    note retire = retireClient_zero [OF P(1)]
    show ?thesis
    proof (cases r3)
      case (Inl e)
      obtain r4 w4 where ob: "openBlind env ?cfg src (Close probe w3) = (r4, w4)" by fastforce
      have b3: "brings w1 (Inl e) (Close probe w3)" by (rule P(2) [OF Inl])
      have b4: "brings w1 r4 w4"
        using brings_trans [OF b3 openBlind_brings [OF bringsD(2) [OF b3] src ob]] .
      show ?thesis
      proof (cases r4)
        case e4: (Inl e')
        with r \<open>_ = Inr x\<close> x ns n ad Inl ob retire granted_giveback [OF inv1] b4 show ?thesis
          by (auto simp: probeThenAttach_def Let_def)
      next
        case i4: (Inr bt)
        obtain b t where bt: "bt = (b, t)" by fastforce
        obtain a p1 where al: "aloneOn key t b p = (a, p1)" by fastforce
        have "r = Inr a" "p' = p1" "w' = give_lease l b w4"
          using r \<open>_ = Inr x\<close> x ns n ad Inl ob retire i4 bt al
          by (auto simp: probeThenAttach_def Let_def)
        with granted_give [OF inv1 _ key al] b4 i4 bt show ?thesis by simp
      qed
    next
      case i3: (Inr t)
      show ?thesis
      proof (cases "Private t")
        case True
        obtain a p1 where al: "aloneOn key t probe p = (a, p1)" by fastforce
        have "r = Inr a" "p' = p1" "w' = give_lease l probe w3"
          using r \<open>_ = Inr x\<close> x ns n ad i3 True al by (auto simp: probeThenAttach_def Let_def)
        with granted_give [OF inv1 _ key al] P(3) [OF i3] show ?thesis by simp
      next
        case False
        have b: "brings w1 (Inl StartFailed) (Close probe w3)"
          by (rule brings_Close [OF P(3) [OF i3]])
        have inv3: "pool_inv (set_option l) p (Close probe w3) \<and> pool_frame p w1 p (Close probe w3)"
          by (rule pool_inv_opens_Inl [OF inv1 brings_opens [OF b li]])
        have at: "attachShared env src key (Some (metainfo_of src t)) peers (Some (l, port))
            (p, Close probe w3) = (r, (p', w'))"
          using r \<open>_ = Inr x\<close> x ns n ad i3 False retire by (auto simp: probeThenAttach_def Let_def)
        have "granted key p (Close probe w3) r p' w'"
          by (rule attachShared_granted [OF _ src(1) _ at]) (use inv3 in \<open>simp_all add: claimed_def\<close>)
        then show ?thesis using inv3 granted_step by blast
      qed
    qed
  qed
  with fr show ?thesis by (rule granted_step)
qed

lemma attach_granted:
  assumes inv: "pool_inv {} p w" and src: "wf_source src" "stable_file env src"
    and key: "key \<notin> fst ` set (alone p)"
    and r: "attach env src key peers (p, w) = (r, (p', w'))"
  shows "granted key p w r p' w'"
proof (cases "route_err (routeFor (p_cfg p) src)")
  case (Some e)
  with r inv show ?thesis by (auto simp: attach_def Let_def granted_def pool_frame_def)
next
  case None
  show ?thesis
  proof (cases "Privacy src = (False, True)")
    case True
    then have "attachShared env src key None peers None (p, w) = (r, (p', w'))"
      using r None by (auto simp: attach_def Let_def)
    then show ?thesis
      using inv src by (intro attachShared_granted) (auto simp: claimed_def)
  next
    case False
    then have "\<not> (snd (Privacy src) \<and> \<not> fst (Privacy src))" by (cases "Privacy src") auto
    then show ?thesis
      using r None attachAlone_granted [OF inv src key] probeThenAttach_granted [OF inv src key]
      by (auto simp: attach_def Let_def split: prod.splits if_splits)
  qed
qed

end
