(* ===== verification/PoolRuns.thy ===== *)
theory PoolRuns
  imports PoolSafety
begin

text \<open>
  Whole runs of the pool: any sequence of attaches, detaches, arriving bytes and a Close, from an
  empty pool. The invariant ties the live attachments to the infohashes the pool holds and to the
  clients registered for one torrent.
\<close>

section \<open>Letting go keeps the invariant\<close>

lemma set_delete: "set (AList.delete k al) = {x \<in> set al. fst x \<noteq> k}"
  by (auto simp: AList.delete_eq)

lemma distinct_delete: "distinct (map f al) \<Longrightarrow> distinct (map f (AList.delete k al))"
  by (simp add: AList.delete_eq distinct_map_filter)

lemma sum_delete:
  "distinct (map fst al) \<Longrightarrow> (k, h) \<in> set al \<Longrightarrow>
   sum_list (map (\<lambda>(k, h). (g h :: int)) al) = g h + sum_list (map (\<lambda>(k, h). g h) (AList.delete k al))"
proof (induction al)
  case (Cons x al)
  obtain k' h' where x: "x = (k', h')" by fastforce
  show ?case
  proof (cases "k' = k")
    case True
    then have "AList.delete k al = al"
      using Cons.prems(1) x by simp
    moreover have "(k, h) \<notin> set al"
      using Cons.prems(1) x True by (auto simp: rev_image_eqI)
    ultimately show ?thesis using Cons.prems True x by simp
  next
    case False
    with Cons x show ?thesis by auto
  qed
qed simp

lemma snd_unique:
  "distinct (map snd al) \<Longrightarrow> (k, h) \<in> set al \<Longrightarrow> (k', h) \<in> set al \<Longrightarrow> k = k'"
  by (induction al) (auto simp: image_iff)

lemma lease_inv_set_cl:
  "lease_inv X w \<Longrightarrow> lease_inv X (set_session h ((get_session w h)\<lparr>sess_cl := c\<rparr>) w)"
  using lease_inv_cong [of "set_session h ((get_session w h)\<lparr>sess_cl := c\<rparr>) w" w X]
  by (auto simp: live_lease_def holds_def step_simps)

lemma lease_inv_discard [simp]: "lease_inv X (discardPieces d x w) = lease_inv X w"
  by (rule lease_inv_cong) (simp_all add: live_lease_def holds_def step_simps)

lemma pool_inv_discard [simp]: "pool_inv X p (discardPieces d x w) = pool_inv X p w"
  by (simp add: pool_inv_defs step_simps)

lemma Downloaded_Received:
  assumes "Received w' = Received w"
  shows "Downloaded (p, w') = Downloaded (p, w)"
  unfolding Downloaded_def prod.case assms ..

lemma Downloaded_discard [simp]: "Downloaded (p, discardPieces d x w) = Downloaded (p, w)"
  by (rule Downloaded_Received) (simp add: fun_eq_iff step_simps)

lemma sum_alone_cong:
  "(\<And>k h. (k, h) \<in> set al \<Longrightarrow> f h = g h) \<Longrightarrow>
   sum_list (map (\<lambda>(k, h). (f h :: int)) al) = sum_list (map (\<lambda>(k, h). g h) al)"
  by (rule arg_cong [where f = sum_list], rule map_cong [OF refl]) auto

lemma pool_inv_release [simp]: "pool_inv X (release k p) w = pool_inv X p w"
  by (simp add: pool_inv_defs release_def)

lemma alone_release [simp]: "alone (release k p) = alone p"
  by (simp add: release_def)

lemma Downloaded_release [simp]: "Downloaded (release k p, w) = Downloaded (p, w)"
  by (simp add: Downloaded_def release_def)

lemma pool_inv_retire:
  assumes inv: "pool_inv {} p w" and a: "(k, h) \<in> set (alone p)"
  shows "pool_inv {} (retire k h w p) (Close h w)"
    and "Downloaded (retire k h w p, Close h w) = Downloaded (p, w)"
proof -
  have al: "distinct (map fst (alone p))" "distinct (map snd (alone p))" "h < nses w" "p_sess p \<noteq> Some h"
      "sess_cl (get_session w h) \<noteq> None"
    using inv a by (force simp: pool_inv_def alone_ok_def)+
  have ne: "h' \<noteq> h" if "(k', h') \<in> set (AList.delete k (alone p))" for k' h'
    using that snd_unique [OF al(2) a, of k'] by (auto simp: set_delete)
  have "world_ok (Close h w)" "lease_inv {} (Close h w)"
    using inv al(3) by (simp_all add: pool_inv_def Close_world_ok Close_lease_inv)
  moreover have "shared_ok (retire k h w p) (Close h w)"
    using inv al(4) by (auto simp: pool_inv_def shared_ok_def retire_def step_simps)
  moreover have "alone_ok (retire k h w p) (Close h w)"
    unfolding alone_ok_def
  proof (intro conjI ballI)
    fix h' assume h': "h' \<in> snd ` set (alone (retire k h w p))"
    then obtain k' where k': "(k', h') \<in> set (AList.delete k (alone p))" by (auto simp: retire_def)
    note n = ne [OF k']
    have "h' \<in> snd ` set (alone p)" using k' by (force simp: set_delete)
    then have *: "h' < nses w" "sess_cl (get_session w h') \<noteq> None" "p_sess p \<noteq> Some h'"
      using inv by (auto simp: pool_inv_def alone_ok_def)
    show "h' < nses (Close h w)" "sess_cl (get_session (Close h w) h') \<noteq> None"
      "p_sess (retire k h w p) \<noteq> Some h'"
      using * n by (simp_all add: step_simps retire_def)
  qed (simp_all add: retire_def distinct_delete al)
  moreover have "no_stray (retire k h w p) (Close h w)"
    unfolding no_stray_def
  proof (intro allI impI)
    fix h' assume h': "h' < nses (Close h w)" "sess_cl (get_session (Close h w) h') \<noteq> None"
    then have n: "h' \<noteq> h" and "h' < nses w" "sess_cl (get_session w h') \<noteq> None"
      using al(3,5) by (auto simp: step_simps split: if_splits)
    then have "p_sess p = Some h' \<or> h' \<in> snd ` set (alone p)"
      using inv by (simp add: pool_inv_def no_stray_def)
    then show "p_sess (retire k h w p) = Some h' \<or> h' \<in> snd ` set (alone (retire k h w p))"
    proof
      assume "h' \<in> snd ` set (alone p)"
      then obtain k' where k': "(k', h') \<in> set (alone p)" by auto
      have "k' \<noteq> k"
        using eq_key_imp_eq_value [OF al(1), of k h' h] k' a n by auto
      with k' show ?thesis by (force simp: retire_def set_delete)
    qed (simp add: retire_def)
  qed
  ultimately show "pool_inv {} (retire k h w p) (Close h w)" by (simp add: pool_inv_def)
  define F where "F = Received (Close h w)"
  have F: "F h' = (if h' = h then 0 else Received w h')" for h'
    using al(3) by (simp add: F_def step_simps)
  have "sum_list (map (\<lambda>(k, h'). F h') (AList.delete k (alone p)))
      = sum_list (map (\<lambda>(k, h'). Received w h') (AList.delete k (alone p)))"
    by (rule sum_alone_cong) (use ne F in auto)
  moreover have F': "F x = Received w x" if "p_sess p = Some x" for x
    using F that al(4) by simp
  ultimately show "Downloaded (retire k h w p, Close h w) = Downloaded (p, w)"
    using sum_delete [OF al(1) a, of "Received w"] F'
    by (cases "p_sess p") (simp_all add: Downloaded_def retire_def F_def [symmetric])
qed

lemma get_Drop [step_simps]:
  "get_session (Drop h hash w) k =
     (if h = k \<and> h < nses w
      then (get_session w h)\<lparr>sess_cl := map_option (drop_entry hash) (sess_cl (get_session w h))\<rparr>
      else get_session w k)"
  by (auto simp: Drop_def step_simps split: option.split)

lemma pool_inv_Drop:
  assumes inv: "pool_inv {} p w" and h: "p_sess p = Some h"
  shows "pool_inv {} p (Drop h hash w)" "Downloaded (p, Drop h hash w) = Downloaded (p, w)"
proof -
  have n: "nses (Drop h hash w) = nses w"
    by (simp add: Drop_def step_simps split: option.split)
  have "world_ok (Drop h hash w)"
    using inv unfolding pool_inv_def world_ok_def n
    by (auto simp: step_simps sess_ok_def client_ok_def drop_entry_def)
  moreover have "lease_inv {} (Drop h hash w)"
    using inv by (auto simp: pool_inv_def Drop_def lease_inv_set_cl split: option.split)
  moreover have "shared_ok p (Drop h hash w)"
    using inv unfolding pool_inv_def shared_ok_def n
    by (auto simp: step_simps public_client_def drop_entry_def)
  moreover have "alone_ok p (Drop h hash w)" "no_stray p (Drop h hash w)"
    using inv unfolding pool_inv_def alone_ok_def no_stray_def n by (auto simp: step_simps)
  ultimately show "pool_inv {} p (Drop h hash w)" by (simp add: pool_inv_def)
  have "Received (Drop h hash w) = Received w"
    by (rule ext) (auto simp: Received_def step_simps drop_entry_def split: option.split)
  then show "Downloaded (p, Drop h hash w) = Downloaded (p, w)"
    by (rule Downloaded_Received)
qed

lemma detach_inv:
  assumes inv: "pool_inv {} p w"
    and a: "\<And>h. att_sess a = Some h \<Longrightarrow> (att_key a, h) \<in> set (alone p)"
    and d: "detach a (p, w) = (p', w')"
  shows "pool_inv {} p' w' \<and> Downloaded (p', w') = Downloaded (p, w)"
  using d pool_inv_retire [OF inv a] pool_inv_Drop [OF inv] inv
  by (auto simp: detach_def Let_def split: option.splits)

lemma Pool_Close_inv:
  assumes inv: "pool_inv {} p w" and c: "Pool_Close (p, w) = (p', w')"
  shows "pool_inv {} p' w' \<and> Downloaded (p', w') = Downloaded (p, w) \<and> alone p' = alone p \<and>
    held p' = held p \<and> (\<forall>k. dhtOn (get_session w' k) = dhtOn (get_session w k))"
proof (cases "p_closed p \<or> p_sess p = None")
  case True
  with c inv show ?thesis
    by (auto simp: Pool_Close_def pool_inv_defs Downloaded_def split: if_splits)
next
  case False
  then obtain h where h: "p_sess p = Some h" and open_p: "\<not> p_closed p" by auto
  with c have p': "p' = p\<lparr>p_closed := True, p_sess := None, retired := retired p + Received w h\<rparr>"
    and w': "w' = Close h w" by (auto simp: Pool_Close_def)
  have hn: "h < nses w" and cl: "sess_cl (get_session w h) \<noteq> None"
    using inv h by (auto simp: pool_inv_def shared_ok_def)
  have ne: "k \<noteq> h" if "k \<in> snd ` set (alone p)" for k
    using inv h that by (auto simp: pool_inv_def alone_ok_def)
  have "alone_ok p' w'"
    using inv ne unfolding pool_inv_def alone_ok_def by (force simp: p' w' step_simps)
  moreover have "no_stray p' w'"
    unfolding no_stray_def
  proof (intro allI impI)
    fix k assume k: "k < nses w'" "sess_cl (get_session w' k) \<noteq> None"
    then have "k \<noteq> h" "k < nses w" "sess_cl (get_session w k) \<noteq> None"
      using hn cl by (auto simp: w' step_simps split: if_splits)
    with inv h show "p_sess p' = Some k \<or> k \<in> snd ` set (alone p')"
      by (auto simp: pool_inv_def no_stray_def p')
  qed
  moreover have "sum_list (map (\<lambda>(k, h'). Received w' h') (alone p))
      = sum_list (map (\<lambda>(k, h'). Received w h') (alone p))"
    by (rule sum_alone_cong) (use ne hn in \<open>force simp: w' step_simps\<close>)
  then have "Downloaded (p', w') = Downloaded (p, w)"
    by (simp add: Downloaded_def p' h)
  ultimately show ?thesis
    using inv hn by (auto simp: pool_inv_def shared_ok_def p' w' Close_world_ok Close_lease_inv step_simps)
qed

section \<open>Arriving bytes\<close>

lemma get_receive [step_simps]:
  "get_session (receive h n w) k =
     (if h = k \<and> h < nses w
      then (get_session w h)\<lparr>sess_cl := map_option (\<lambda>c. c\<lparr>cl_received := cl_received c + int n\<rparr>)
             (sess_cl (get_session w h))\<rparr>
      else get_session w k)"
  by (auto simp: receive_def step_simps split: option.split)

lemma nses_receive [step_simps]: "nses (receive h n w) = nses w"
  by (simp add: receive_def step_simps split: option.split)

lemma pool_inv_receive:
  assumes inv: "pool_inv {} p w"
  shows "pool_inv {} p (receive h n w)"
proof -
  have "world_ok (receive h n w)"
    using inv unfolding pool_inv_def world_ok_def
    by (auto simp: step_simps sess_ok_def client_ok_def)
  moreover have "lease_inv {} (receive h n w)"
    using inv by (auto simp: pool_inv_def receive_def lease_inv_set_cl split: option.split)
  moreover have "shared_ok p (receive h n w)"
    using inv unfolding pool_inv_def shared_ok_def by (auto simp: step_simps public_client_def)
  moreover have "alone_ok p (receive h n w)" "no_stray p (receive h n w)"
    using inv unfolding pool_inv_def alone_ok_def no_stray_def by (auto simp: step_simps)
  ultimately show ?thesis by (simp add: pool_inv_def)
qed

definition accepts :: "World \<Rightarrow> nat \<Rightarrow> bool" where
  "accepts w h \<longleftrightarrow> h < nses w \<and> sess_cl (get_session w h) \<noteq> None"

lemma Received_receive:
  "Received (receive h n w) k = Received w k + (if k = h \<and> accepts w h then int n else 0)"
  by (auto simp: Received_def step_simps accepts_def split: option.split)

lemma sum_alone_one:
  "distinct (map snd al) \<Longrightarrow>
   sum_list (map (\<lambda>(k, x). f x + (if x = h \<and> b then int n else 0)) al) =
   sum_list (map (\<lambda>(k, x). f x) al) + (if h \<in> snd ` set al \<and> b then int n else 0)"
  by (induction al) (auto simp: image_iff)

text \<open>Every open client is known to the pool, so the total grows by exactly what arrived.\<close>

lemma Downloaded_receive:
  assumes inv: "pool_inv {} p w"
  shows "Downloaded (p, receive h n w) = Downloaded (p, w) + (if accepts w h then int n else 0)"
proof -
  have d: "distinct (map snd (alone p))" using inv by (simp add: pool_inv_def alone_ok_def)
  have known: "accepts w h \<Longrightarrow> p_sess p = Some h \<or> h \<in> snd ` set (alone p)"
    using inv by (auto simp: pool_inv_def no_stray_def accepts_def)
  have sep: "h \<in> snd ` set (alone p) \<Longrightarrow> p_sess p \<noteq> Some h"
    using inv by (auto simp: pool_inv_def alone_ok_def)
  have sum: "sum_list (map (\<lambda>(k, x). Received (receive h n w) x) (alone p)) =
      sum_list (map (\<lambda>(k, x). Received w x) (alone p)) + (if h \<in> snd ` set (alone p) \<and> accepts w h then int n else 0)"
    unfolding Received_receive by (rule sum_alone_one [OF d])
  show ?thesis
    unfolding Downloaded_def prod.case sum using known sep
    by (cases "p_sess p") (auto simp: Received_receive)
qed

section \<open>The system\<close>

definition live_atts :: "System \<Rightarrow> Attachment list" where
  "live_atts s = map fst (filter (\<lambda>(a, gone). \<not> gone) (sys_atts s))"

definition att_ok :: "state \<Rightarrow> Attachment \<Rightarrow> bool" where
  "att_ok st a \<longleftrightarrow>
     (case att_sess a of
        None \<Rightarrow> \<not> Private (att_torrent a)
      | Some h \<Rightarrow> (att_key a, h) \<in> set (alone (fst st)) \<and>
          (dhtOn (get_session (snd st) h) \<longrightarrow> \<not> Private (att_torrent a)))"

definition sys_inv :: "System \<Rightarrow> bool" where
  "sys_inv s \<longleftrightarrow> pool_inv {} (fst (sys_st s)) (snd (sys_st s)) \<and>
     distinct (held (fst (sys_st s))) \<and> distinct (map att_key (live_atts s)) \<and>
     set (held (fst (sys_st s))) = set (map att_key (live_atts s)) \<and>
     (\<forall>(k, h) \<in> set (alone (fst (sys_st s))). \<exists>a \<in> set (live_atts s). att_key a = k \<and> att_sess a = Some h) \<and>
     (\<forall>a \<in> set (live_atts s). att_ok (sys_st s) a)"

lemma sys_invI:
  assumes "pool_inv {} p w" "distinct (held p)" "distinct (map att_key L)"
    and "set (held p) = set (map att_key L)"
    and "\<And>k h. (k, h) \<in> set (alone p) \<Longrightarrow> \<exists>a \<in> set L. att_key a = k \<and> att_sess a = Some h"
    and "\<And>a. a \<in> set L \<Longrightarrow> att_ok (p, w) a" "sys_st s = (p, w)" "live_atts s = L"
  shows "sys_inv s"
  unfolding sys_inv_def assms(7,8) fst_conv snd_conv using assms(1-6) by blast

lemma sys_invD:
  assumes "sys_inv s" "sys_st s = (p, w)"
  shows "pool_inv {} p w" "distinct (held p)" "distinct (map att_key (live_atts s))"
    "set (held p) = set (map att_key (live_atts s))"
    "\<And>k h. (k, h) \<in> set (alone p) \<Longrightarrow> \<exists>a \<in> set (live_atts s). att_key a = k \<and> att_sess a = Some h"
    "\<And>a. a \<in> set (live_atts s) \<Longrightarrow> att_ok (p, w) a"
  using assms by (auto simp: sys_inv_def)

lemma alone_held: "sys_inv s \<Longrightarrow> sys_st s = (p, w) \<Longrightarrow> fst ` set (alone p) \<subseteq> set (held p)"
  using sys_invD(4,5) [of s p w] by force

lemma live_key_unique:
  "distinct (map att_key L) \<Longrightarrow> a \<in> set L \<Longrightarrow> b \<in> set L \<Longrightarrow> att_key a = att_key b \<Longrightarrow> a = b"
  by (auto simp: distinct_map dest: inj_onD)

fun ok_event :: "Env \<Rightarrow> pool_event \<Rightarrow> bool" where
  "ok_event env (DoAttach src peers) \<longleftrightarrow> wf_source src \<and> stable_file env src"
| "ok_event env ev \<longleftrightarrow> True"

lemma att_ok_cong:
  assumes "att_ok (p, w) a" "set (alone p) \<subseteq> set (alone p')"
    and "\<And>h. h < nses w \<Longrightarrow> dhtOn (get_session w' h) = dhtOn (get_session w h)" "pool_inv X p w"
  shows "att_ok (p', w') a"
proof (cases "att_sess a")
  case (Some h)
  with assms(1) have k: "(att_key a, h) \<in> set (alone p)" by (simp add: att_ok_def)
  then have "h < nses w" using known_sessions [OF assms(4), of h] by force
  with assms Some k show ?thesis by (auto simp: att_ok_def)
qed (use assms in \<open>simp add: att_ok_def\<close>)

lemma Attach_cases:
  assumes inv: "pool_inv {} p w" and src: "wf_source src" "stable_file env src"
    and al: "fst ` set (alone p) \<subseteq> set (held p)" and r: "Attach env src peers (p, w) = (r, (p', w'))"
  shows "(\<exists>e. r = Inl e \<and> (p', w') = (p, w)) \<or>
    (\<exists>key p1. key \<notin> set (held p) \<and> granted key (p\<lparr>held := key # held p\<rparr>) w r p1 w' \<and>
       p' = (case r of Inl e \<Rightarrow> release key p1 | Inr a \<Rightarrow> p1))"
proof (cases "InfoHash src")
  case (Inl e)
  with r show ?thesis by (auto simp: Attach_def)
next
  case (Inr key)
  show ?thesis
  proof (cases "reserve key p")
    case (Inl e)
    with r Inr show ?thesis by (auto simp: Attach_def)
  next
    case res: (Inr p1)
    then have p1: "p1 = p\<lparr>held := key # held p\<rparr>" "key \<notin> set (held p)"
      by (auto simp: reserve_def split: if_splits)
    obtain r2 p2 w2 where a: "attach env src key peers (p1, w) = (r2, (p2, w2))"
      by (metis prod.collapse)
    have "pool_inv {} p1 w" using inv by (simp add: pool_inv_defs p1)
    moreover have "key \<notin> fst ` set (alone p1)" using al p1 by auto
    ultimately have "granted key p1 w r2 p2 w2"
      by (rule attach_granted [OF _ src _ a])
    moreover have "r = r2" "w' = w2" "p' = (case r of Inl e \<Rightarrow> release key p2 | Inr a \<Rightarrow> p2)"
      using r Inr res a by (auto simp: Attach_def split: sum.splits)
    ultimately show ?thesis using p1 by blast
  qed
qed

lemma live_append [simp]:
  "live_atts (s\<lparr>sys_st := st, sys_atts := sys_atts s @ [(a, False)]\<rparr>) = live_atts s @ [a]"
  "live_atts (s\<lparr>sys_st := st\<rparr>) = live_atts s"
  by (simp_all add: live_atts_def)

lemma DoAttach_inv:
  assumes inv: "sys_inv s" and src: "wf_source src" "stable_file env src"
  shows "sys_inv (pool_step env s (DoAttach src peers)) \<and>
    Downloaded (sys_st (pool_step env s (DoAttach src peers))) = Downloaded (sys_st s)"
proof -
  obtain p w where st: "sys_st s = (p, w)" by fastforce
  obtain r p' w' where r: "Attach env src peers (p, w) = (r, (p', w'))" by (metis prod.collapse)
  note I = sys_invD [OF inv st]
  from Attach_cases [OF I(1) src alone_held [OF inv st] r] show ?thesis
  proof (elim disjE exE conjE)
    fix e assume "r = Inl e" "(p', w') = (p, w)"
    with r st have "pool_step env s (DoAttach src peers) = s" by simp
    with inv show ?thesis by simp
  next
    fix key p1
    assume key: "key \<notin> set (held p)"
      and g: "granted key (p\<lparr>held := key # held p\<rparr>) w r p1 w'"
      and p': "p' = (case r of Inl e \<Rightarrow> release key p1 | Inr a \<Rightarrow> p1)"
    have fr: "held p1 = key # held p" "Downloaded (p1, w') = Downloaded (p, w)"
        "\<And>h. h < nses w \<Longrightarrow> dhtOn (get_session w' h) = dhtOn (get_session w h)"
      using g by (auto simp: granted_def pool_frame_def Downloaded_def)
    have inv1: "pool_inv {} p1 w'" using g by (simp add: granted_def)
    show ?thesis
    proof (cases r)
      case (Inl e)
      then have s': "pool_step env s (DoAttach src peers) = s\<lparr>sys_st := (release key p1, w')\<rparr>"
        using r st p' by simp
      have al: "alone p1 = alone p" using g Inl by (simp add: granted_def)
      have "held (release key p1) = held p" using fr(1) key by (simp add: release_def)
      moreover have "pool_inv {} (release key p1) w'" using inv1 by simp
      moreover have "att_ok (release key p1, w') a" if "a \<in> set (live_atts s)" for a
        by (rule att_ok_cong [OF I(6) [OF that] _ fr(3) I(1)]) (simp add: al release_def)
      ultimately have "sys_inv (s\<lparr>sys_st := (release key p1, w')\<rparr>)"
        using I(2-5) al by (intro sys_invI [where L = "live_atts s"]) simp_all
      with s' fr(2) st show ?thesis by simp
    next
      case (Inr a)
      then have s': "pool_step env s (DoAttach src peers) =
          s\<lparr>sys_st := (p1, w'), sys_atts := sys_atts s @ [(a, False)]\<rparr>"
        using r st p' by simp
      have ga: "att_key a = key" "att_ok (p1, w') a" "set (alone p) \<subseteq> set (alone p1)"
        using g Inr by (auto simp: granted_def att_ok_def split: option.splits)
      have new: "\<exists>b \<in> set (live_atts s @ [a]). att_key b = k \<and> att_sess b = Some h"
        if "(k, h) \<in> set (alone p1)" for k h
        using g Inr that I(5) [of k h] by (auto simp: granted_def split: option.splits)
      have "att_ok (p1, w') b" if "b \<in> set (live_atts s)" for b
        by (rule att_ok_cong [OF I(6) [OF that] ga(3) fr(3) I(1)])
      then have "sys_inv (s\<lparr>sys_st := (p1, w'), sys_atts := sys_atts s @ [(a, False)]\<rparr>)"
        using I(2-4) inv1 ga fr(1) key new
        by (intro sys_invI [where L = "live_atts s @ [a]"]) auto
      with s' fr(2) st show ?thesis by simp
    qed
  qed
qed

lemma live_detach:
  assumes i: "i < length (sys_atts s)" "sys_atts s ! i = (a, False)"
  obtains us vs where "live_atts s = us @ a # vs"
    "live_atts (s\<lparr>sys_st := st, sys_atts := (sys_atts s)[i := (a, True)]\<rparr>) = us @ vs"
proof -
  let ?f = "\<lambda>xs. map fst (filter (\<lambda>(a, gone). \<not> gone) xs)"
  have "sys_atts s = take i (sys_atts s) @ (a, False) # drop (Suc i) (sys_atts s)"
    using id_take_nth_drop [OF i(1)] i(2) by simp
  then have "?f (sys_atts s) = ?f (take i (sys_atts s) @ (a, False) # drop (Suc i) (sys_atts s))"
    by (rule arg_cong)
  then have "live_atts s = ?f (take i (sys_atts s)) @ a # ?f (drop (Suc i) (sys_atts s))"
    by (simp add: live_atts_def)
  moreover have "live_atts (s\<lparr>sys_st := st, sys_atts := (sys_atts s)[i := (a, True)]\<rparr>) =
      ?f (take i (sys_atts s)) @ ?f (drop (Suc i) (sys_atts s))"
    using i by (simp add: live_atts_def upd_conv_take_nth_drop)
  ultimately show ?thesis by (rule that)
qed

lemma detach_shape:
  assumes "detach a (p, w) = (p', w')"
  shows "held p' = removeAll (att_key a) (held p)"
    and "alone p' = (if att_sess a = None then alone p else AList.delete (att_key a) (alone p))"
    and "dhtOn (get_session w' k) = dhtOn (get_session w k)"
  using assms
  by (auto simp: detach_def Let_def release_def retire_def step_simps split: option.splits if_splits)

lemma DoDetach_inv:
  assumes inv: "sys_inv s" and i: "i < length (sys_atts s)" "sys_atts s ! i = (a, False)"
  shows "sys_inv (pool_step env s (DoDetach i)) \<and>
    Downloaded (sys_st (pool_step env s (DoDetach i))) = Downloaded (sys_st s)"
proof -
  obtain p w where st: "sys_st s = (p, w)" by fastforce
  obtain p' w' where d: "detach a (p, w) = (p', w')" by fastforce
  note I = sys_invD [OF inv st]
  let ?s = "s\<lparr>sys_st := (p', w'), sys_atts := (sys_atts s)[i := (a, True)]\<rparr>"
  have s': "pool_step env s (DoDetach i) = ?s" using i d st by simp
  obtain us vs where L: "live_atts s = us @ a # vs" "live_atts ?s = us @ vs"
    by (rule live_detach [OF i])
  have a_in: "a \<in> set (live_atts s)" using L by simp
  have D: "pool_inv {} p' w' \<and> Downloaded (p', w') = Downloaded (p, w)"
    by (rule detach_inv [OF I(1) _ d]) (use I(6) [OF a_in] in \<open>auto simp: att_ok_def\<close>)
  note S = detach_shape [OF d]
  have dist: "distinct (map att_key (us @ vs))" and
    keys: "att_key a \<notin> att_key ` set (us @ vs)" using I(3) unfolding L by auto
  have gone: "k \<noteq> att_key a" if kh: "(k, h) \<in> set (alone p')" for k h
  proof (cases "att_sess a")
    case None
    with kh S(2) have "(k, h) \<in> set (alone p)" by simp
    then obtain b where b: "b \<in> set (live_atts s)" "att_key b = k" "att_sess b = Some h"
      using I(5) by blast
    show ?thesis
    proof
      assume "k = att_key a"
      then have "b = a" using live_key_unique [OF I(3) b(1) a_in] b(2) by simp
      with b(3) None show False by simp
    qed
  qed (use kh S(2) in \<open>auto simp: set_delete\<close>)
  have sub: "set (alone p') \<subseteq> set (alone p)" using S(2) by (auto simp: set_delete)
  have alive: "\<exists>b \<in> set (us @ vs). att_key b = k \<and> att_sess b = Some h"
    if kh: "(k, h) \<in> set (alone p')" for k h
    using I(5) [of k h] gone [OF kh] kh sub unfolding L by auto
  have ok: "att_ok (p', w') b" if b: "b \<in> set (us @ vs)" for b
  proof -
    have "att_ok (p, w) b" using I(6) b unfolding L by auto
    moreover have "att_key b \<noteq> att_key a" using keys b by (metis imageI)
    ultimately show ?thesis
      using S by (auto simp: att_ok_def set_delete split: option.splits)
  qed
  have "sys_inv ?s"
    by (rule sys_invI [OF _ _ dist _ alive ok _ L(2)])
       (use D I(2,4) S(1) keys in \<open>auto simp: L distinct_removeAll\<close>)
  with D s' st show ?thesis by simp
qed

lemma pool_step_inv:
  assumes inv: "sys_inv s" and ok: "ok_event env ev"
  shows "sys_inv (pool_step env s ev)"
    and "Downloaded (sys_st (pool_step env s ev)) = Downloaded (sys_st s) +
       (case ev of Bytes h n \<Rightarrow> if accepts (snd (sys_st s)) h then int n else 0 | _ \<Rightarrow> 0)"
proof -
  obtain p w where st: "sys_st s = (p, w)" by fastforce
  note I = sys_invD [OF inv st]
  have "sys_inv (pool_step env s ev) \<and> Downloaded (sys_st (pool_step env s ev)) = Downloaded (sys_st s) +
       (case ev of Bytes h n \<Rightarrow> if accepts (snd (sys_st s)) h then int n else 0 | _ \<Rightarrow> 0)"
  proof (cases ev)
    case (DoAttach src peers)
    with DoAttach_inv [OF inv] ok show ?thesis by simp
  next
    case (DoDetach i)
    show ?thesis
    proof (cases "i < length (sys_atts s) \<and> \<not> snd (sys_atts s ! i)")
      case True
      then obtain a where "sys_atts s ! i = (a, False)" by (cases "sys_atts s ! i") auto
      with DoDetach_inv [OF inv, of i a env] True DoDetach show ?thesis by simp
    next
      case False
      with DoDetach inv show ?thesis by auto
    qed
  next
    case DoClose
    obtain p' w' where c: "Pool_Close (p, w) = (p', w')" by fastforce
    note C = Pool_Close_inv [OF I(1) c]
    have "att_ok (p', w') a" if "a \<in> set (live_atts s)" for a
      using I(6) [OF that] C by (simp add: att_ok_def split: option.splits)
    then have "sys_inv (s\<lparr>sys_st := (p', w')\<rparr>)"
      using I C by (intro sys_invI [where L = "live_atts s"]) simp_all
    with c C st DoClose show ?thesis by simp
  next
    case (Bytes h n)
    have "att_ok (p, receive h n w) a" if "a \<in> set (live_atts s)" for a
      using I(6) [OF that] by (auto simp: att_ok_def step_simps split: option.splits)
    then have "sys_inv (s\<lparr>sys_st := (p, receive h n w)\<rparr>)"
      using I by (intro sys_invI [where L = "live_atts s"]) (simp_all add: pool_inv_receive)
    with Downloaded_receive [OF I(1)] st Bytes show ?thesis by simp
  qed
  then show "sys_inv (pool_step env s ev)"
    and "Downloaded (sys_st (pool_step env s ev)) = Downloaded (sys_st s) +
       (case ev of Bytes h n \<Rightarrow> if accepts (snd (sys_st s)) h then int n else 0 | _ \<Rightarrow> 0)"
    by blast+
qed

lemma init_system_inv: "sys_inv (init_system cfg ps)"
  by (simp add: sys_inv_def init_system_def init_world_def NewPool_def pool_inv_defs world_ok_def
      lease_inv_def live_lease_def holds_def live_atts_def)

lemma pool_run_inv:
  "list_all (ok_event env) evs \<Longrightarrow> sys_inv (pool_run env cfg ps evs)"
proof -
  have "sys_inv s \<Longrightarrow> list_all (ok_event env) evs \<Longrightarrow> sys_inv (foldl (pool_step env) s evs)" for s
    by (induction evs arbitrary: s) (simp_all add: pool_step_inv(1))
  then show "list_all (ok_event env) evs \<Longrightarrow> sys_inv (pool_run env cfg ps evs)"
    by (simp add: pool_run_def init_system_inv)
qed

end
