(* ===== verification/PortUse.thy ===== *)
theory PortUse
  imports PoolRuns
begin

text \<open>
  The port pool seen from the torrent pool: whatever the torrent pool does, its port pool only
  ever sees acquires and releases, so the port accounting of \<open>Ports\<close> holds in every run,
  and the leases still out are exactly those of the sessions that own one.
\<close>

definition ports_path :: "World \<Rightarrow> World \<Rightarrow> bool" where
  "ports_path u w \<longleftrightarrow> (\<exists>evs. w_ports w = foldl port_step (w_ports u) evs)"

lemma ports_path_refl [simp]: "ports_path w w"
  unfolding ports_path_def by (rule exI [of _ "[]"]) simp

lemma ports_path_eq: "w_ports w = w_ports v \<Longrightarrow> ports_path u w = ports_path u v"
  by (simp add: ports_path_def)

lemma ports_path_trans: "ports_path u v \<Longrightarrow> ports_path v w \<Longrightarrow> ports_path u w"
  unfolding ports_path_def by (metis foldl_append)

lemma ports_path_step:
  "ports_path u v \<Longrightarrow> w_ports w = port_step (w_ports v) e \<Longrightarrow> ports_path u w"
  unfolding ports_path_def by (metis foldl_Cons foldl_Nil foldl_append)

lemma ports_path_simps [simp]:
  "ports_path u (tick w) = ports_path u w" "ports_path u (grow s w) = ports_path u w"
  "ports_path u (set_session h s w) = ports_path u w"
  "ports_path u (discardPieces d x w) = ports_path u w"
  "ports_path u (mark_blind b h w) = ports_path u w" "ports_path u (give_lease l h w) = ports_path u w"
  "ports_path u (snd (addTo env h src mi peers w)) = ports_path u w"
  by (auto intro!: ports_path_eq simp: step_simps)

lemma ports_path_release: "ports_path u w \<Longrightarrow> ports_path u (release_lease l w)"
  by (cases l) (auto simp: release_lease_def simp del: port_step.simps intro: ports_path_step)

lemma ports_path_leasePort:
  "ports_path u w \<Longrightarrow> leasePort c w = Inr (l, port, w') \<Longrightarrow> ports_path u w'"
  by (auto simp: leasePort_def acquire_lease_def bind_result_Inr simp del: port_step.simps(1)
      intro: ports_path_step split: if_splits sum.splits prod.splits)

lemma ports_path_Close: "ports_path u w \<Longrightarrow> ports_path u (Close h w)"
  by (auto simp: Close_def Let_def ports_path_release split: option.split)

lemma ports_path_newSession: "newSession env cfg dht w = (r, w') \<Longrightarrow> ports_path u w' = ports_path u w"
  by (auto simp: newSession_def split: if_splits)

lemma ports_path_add: "add env h src mi w = (r, w') \<Longrightarrow> ports_path u w' = ports_path u w"
  unfolding add_def using ports_path_simps(7) by (metis snd_conv)

lemma ports_path_addTo: "addTo env h src mi ps w = (r, w') \<Longrightarrow> ports_path u w' = ports_path u w"
  using ports_path_simps(7) by (metis snd_conv)

lemmas ports_path_rules =
  ports_path_newSession ports_path_add ports_path_addTo ports_path_Close ports_path_release
  ports_path_leasePort

lemma ports_path_start_and_add:
  assumes "ports_path u w" "start_and_add env cfg dht bl src mi w = (r, w')"
  shows "ports_path u w'"
proof -
  obtain n w1 where n: "newSession env cfg dht w = (n, w1)" by fastforce
  have u1: "ports_path u w1" using assms(1) n by (simp add: ports_path_newSession)
  show ?thesis
  proof (cases n)
    case (Inl e)
    with assms(2) n u1 show ?thesis by (simp add: start_and_add_def)
  next
    case (Inr h)
    obtain a w2 where a: "add env h src mi (mark_blind bl h w1) = (a, w2)" by fastforce
    have "ports_path u w2" using ports_path_add [OF a] u1 by simp
    with assms(2) n Inr a show ?thesis
      by (cases a) (auto simp: start_and_add_def ports_path_Close)
  qed
qed

lemma ports_path_openBlind:
  "ports_path u w \<Longrightarrow> openBlind env cfg src w = (r, w') \<Longrightarrow> ports_path u w'"
  unfolding openBlind_start by (rule ports_path_start_and_add)

lemma ports_path_openOnPort:
  assumes u: "ports_path u w" and r: "openOnPort env cfg src route w = (r, w')"
  shows "ports_path u w'"
proof (cases "start_ok env (w_clock w)")
  case False
  with u r show ?thesis by (auto simp: openOnPort_start)
next
  case True
  obtain r1 w1 where one: "start_and_add env cfg (route_dht route) (blind route) src None w = (r1, w1)"
    by fastforce
  note u1 = ports_path_start_and_add [OF u one]
  show ?thesis
  proof (cases r1)
    case (Inl e)
    with r True one u1 ports_path_openBlind [OF u1] show ?thesis
      by (auto simp: openOnPort_start split: if_splits)
  next
    case (Inr ht)
    obtain h t where "ht = (h, t)" by fastforce
    with r True one u1 Inr ports_path_start_and_add [OF ports_path_Close [OF u1, of h]] show ?thesis
      by (auto simp: openOnPort_start split: if_splits)
  qed
qed

lemma ports_path_Open:
  assumes u: "ports_path u w" and r: "Open env cfg src w = (r, w')"
  shows "ports_path u w'"
proof (cases "route_err (routeFor cfg src) \<noteq> None \<or> (\<exists>e. leasePort cfg w = Inl e)")
  case True
  with u r show ?thesis by (auto simp: Open_def Let_def split: option.splits)
next
  case False
  then obtain l port w1 where lp: "leasePort cfg w = Inr (l, port, w1)"
    by (cases "leasePort cfg w") auto
  obtain r2 w2 where two: "openOnPort env (cfg\<lparr>cfg_ListenPort := port\<rparr>) src (routeFor cfg src) w1 = (r2, w2)"
    by fastforce
  have "ports_path u w2" by (rule ports_path_openOnPort [OF ports_path_leasePort [OF u lp] two])
  with r False lp two show ?thesis
    by (auto simp: Open_def Let_def ports_path_release split: sum.splits)
qed

lemma ports_path_claim:
  "ports_path u w \<Longrightarrow> claimPort (p, w) = Inr (c, w') \<Longrightarrow> ports_path u w'"
  by (auto simp: claimPort_def bind_result_Inr intro: ports_path_leasePort)

lemma ports_path_claim_release: "ports_path u w \<Longrightarrow> ports_path u (claim_release c w)"
  by (auto simp: claim_release_def intro: ports_path_release split: option.split)

lemma ports_path_startLocked:
  assumes "ports_path u w" "startLocked env spare (p, w) = (e, (p', w'))"
  shows "ports_path u w'"
proof (cases "case spare of Some c \<Rightarrow> Inr (c, w) | None \<Rightarrow> claimPort (p, w)")
  case (Inl e)
  with assms show ?thesis by (simp add: startLocked_def)
next
  case (Inr x)
  then obtain l port w1 where x: "x = ((l, port), w1)" by (cases x) auto
  have "ports_path u w1"
    using Inr x assms(1) ports_path_claim by (cases spare) auto
  with assms(2) Inr x show ?thesis
    by (auto simp: startLocked_def ports_path_rules split: prod.splits sum.splits)
qed

lemma ports_path_attachShared:
  assumes u: "ports_path u w" and r: "attachShared env src key mi peers spare (p, w) = (r, (p', w'))"
  shows "ports_path u w'"
proof -
  obtain pv known where pk: "privacyInHand src mi = (pv, known)" by fastforce
  define started where "started = (case p_sess p of None \<Rightarrow> startLocked env spare (p, w)
      | Some h \<Rightarrow> (None, (p, claim_release spare w)))"
  obtain e p1 w1 where st: "started = (e, (p1, w1))" by (cases started) auto
  note rel = ports_path_claim_release [OF u, of spare]
  have u1: "ports_path u w1"
    using st rel ports_path_startLocked [OF u] by (cases "p_sess p") (auto simp: started_def)
  obtain r2 w2 where ad: "addTo env (the (p_sess p1)) src mi (mergePeers (cfg_Peers (p_cfg p1)) peers) w1
      = (r2, w2)" by fastforce
  have u2: "ports_path u w2" using u1 ports_path_addTo [OF ad] by simp
  show ?thesis
  proof (cases "(\<not> known \<or> pv) \<or> p_closed p \<or> e \<noteq> None \<or> p_sess p1 = None")
    case True
    with r pk st rel u1 show ?thesis
      by (auto simp: attachShared_def started_def [symmetric] split: if_splits option.splits)
  next
    case False
    with r pk st ad u2 show ?thesis
      by (auto simp: attachShared_def started_def [symmetric] split: sum.splits)
  qed
qed

lemma ports_path_probeThenAttach:
  assumes u: "ports_path u w" and r: "probeThenAttach env src key peers (p, w) = (r, (p', w'))"
  shows "ports_path u w'"
proof (cases "claimPort (p, w)")
  case (Inl e)
  with u r show ?thesis by (simp add: probeThenAttach_def)
next
  case (Inr x)
  then obtain l port w1 where x: "x = ((l, port), w1)" by (cases x) auto
  let ?cfg = "(p_cfg p)\<lparr>cfg_ListenPort := port, cfg_Ports := False,
      cfg_Peers := mergePeers (cfg_Peers (p_cfg p)) peers\<rparr>"
  have u1: "ports_path u w1" using Inr x u ports_path_claim by blast
  obtain n w2 where ns: "newSession env ?cfg False w1 = (n, w2)" by fastforce
  have u2: "ports_path u w2" using ports_path_newSession [OF ns] u1 by simp
  show ?thesis
  proof (cases n)
    case (Inl e)
    with r \<open>_ = Inr x\<close> x ns u2 show ?thesis
      by (auto simp: probeThenAttach_def Let_def ports_path_release)
  next
    case (Inr probe)
    obtain a w3 where ad: "add env probe src None w2 = (a, w3)" by fastforce
    have u3: "ports_path u w3" using ports_path_add [OF ad] u2 by simp
    show ?thesis
    proof (cases a)
      case (Inl e)
      obtain b w4 where ob: "openBlind env ?cfg src (Close probe w3) = (b, w4)" by fastforce
      have "ports_path u w4" by (rule ports_path_openBlind [OF ports_path_Close [OF u3] ob])
      with r \<open>_ = Inr x\<close> x ns \<open>n = Inr probe\<close> ad Inl ob show ?thesis
        by (cases b) (auto simp: probeThenAttach_def Let_def ports_path_release aloneOn_def)
    next
      case (Inr t)
      show ?thesis
      proof (cases "Private t")
        case True
        with r \<open>_ = Inr x\<close> x ns \<open>n = Inr probe\<close> ad Inr u3 show ?thesis
          by (auto simp: probeThenAttach_def Let_def aloneOn_def)
      next
        case False
        with r \<open>_ = Inr x\<close> x ns \<open>n = Inr probe\<close> ad Inr
        have "attachShared env src key (Some (metainfo_of src t)) peers (Some (l, port))
            (retireClient probe w3 p, Close probe w3) = (r, (p', w'))"
          by (simp add: probeThenAttach_def Let_def)
        then show ?thesis by (rule ports_path_attachShared [OF ports_path_Close [OF u3]])
      qed
    qed
  qed
qed

lemma ports_path_attachAlone:
  assumes u: "ports_path u w" and r: "attachAlone env src key peers (p, w) = (r, (p', w'))"
  shows "ports_path u w'"
  using r ports_path_Open [OF u]
  by (auto simp: attachAlone_def aloneOn_def split: prod.splits sum.splits)

lemma ports_path_Attach:
  assumes u: "ports_path u w" and r: "Attach env src peers (p, w) = (r, (p', w'))"
  shows "ports_path u w'"
proof (cases "\<exists>key p1. InfoHash src = Inr key \<and> reserve key p = Inr p1")
  case False
  with u r show ?thesis by (auto simp: Attach_def split: sum.splits)
next
  case True
  then obtain key p1 where k: "InfoHash src = Inr key" "reserve key p = Inr p1" by blast
  obtain r2 p2 w2 where a: "attach env src key peers (p1, w) = (r2, (p2, w2))"
    by (metis prod.collapse)
  have "ports_path u w2"
  proof (cases "route_err (routeFor (p_cfg p1) src)")
    case (Some e)
    with a u show ?thesis by (simp add: attach_def Let_def)
  next
    case None
    with a ports_path_attachShared [OF u] ports_path_attachAlone [OF u] ports_path_probeThenAttach [OF u]
    show ?thesis
      by (simp add: attach_def Let_def split: prod.splits if_splits)
  qed
  moreover have "w' = w2" using r k a by (auto simp: Attach_def split: sum.splits)
  ultimately show ?thesis by simp
qed

lemma ports_path_pool_step:
  assumes u: "ports_path u (snd (sys_st s))"
  shows "ports_path u (snd (sys_st (pool_step env s ev)))"
proof -
  obtain p w where st: "sys_st s = (p, w)" by fastforce
  with u have u': "ports_path u w" by simp
  show ?thesis
  proof (cases ev)
    case (DoAttach src peers)
    obtain r p' w' where "Attach env src peers (p, w) = (r, (p', w'))" by (metis prod.collapse)
    with DoAttach st ports_path_Attach [OF u' this] show ?thesis by (cases r) simp_all
  next
    case (DoDetach i)
    have "ports_path u (Drop h x w)" for h x
      using u' by (simp add: Drop_def split: option.split)
    with DoDetach st u' show ?thesis
      by (auto simp: detach_def Let_def ports_path_Close split: option.split)
  next
    case DoClose
    with st u' show ?thesis by (auto simp: Pool_Close_def ports_path_Close split: option.split)
  next
    case (Bytes h n)
    with st u' show ?thesis by (simp add: receive_def split: option.split)
  qed
qed

lemma ports_path_run: "ports_path (init_world ps) (snd (sys_st (pool_run env cfg ps evs)))"
proof (induction evs rule: rev_induct)
  case Nil
  then show ?case by (simp add: pool_run_def init_system_def)
next
  case (snoc e evs)
  then show ?case by (simp add: pool_run_def ports_path_pool_step)
qed

lemma ports_inv_pool_run:
  assumes "valid_PortSet ps"
  shows "ports_inv ps (w_ports (snd (sys_st (pool_run env cfg ps evs))))"
proof -
  obtain pevs where "w_ports (snd (sys_st (pool_run env cfg ps evs))) = port_run ps pevs"
    using ports_path_run [of ps env cfg evs]
    by (auto simp: ports_path_def init_world_def port_run_def)
  then show ?thesis using ports_inv_run [OF assms] by simp
qed

end
