(* ===== verification/PoolProperties.thy ===== *)
theory PoolProperties
  imports PortUse
begin

text \<open>
  What the pool promises, over every sequence of attaches, detaches, arriving bytes and closes
  from an empty pool, and a run that reaches each of the situations the promises speak of.
\<close>

abbreviation run_pool :: "Env \<Rightarrow> Config \<Rightarrow> PortSet \<Rightarrow> pool_event list \<Rightarrow> Pool" where
  "run_pool env cfg ps evs \<equiv> fst (sys_st (pool_run env cfg ps evs))"

abbreviation run_world :: "Env \<Rightarrow> Config \<Rightarrow> PortSet \<Rightarrow> pool_event list \<Rightarrow> World" where
  "run_world env cfg ps evs \<equiv> snd (sys_st (pool_run env cfg ps evs))"

lemma run_facts:
  assumes "list_all (ok_event env) evs"
  shows "pool_inv {} (run_pool env cfg ps evs) (run_world env cfg ps evs)"
  using pool_run_inv [OF assms] by (simp add: sys_inv_def)

text \<open>A run that reaches a shared client, a private torrent in a client of its own, a blind one,
  a refusal and a detach. Peers of the magnet report public metadata.\<close>

definition demo_env :: Env where
  "demo_env =
     \<lparr>start_ok = (\<lambda>n. True), add_ok = (\<lambda>n. True), fetched = (\<lambda>n. Some \<lparr>info_private = None\<rparr>),
      reread = (\<lambda>n path. \<lparr>mi_hash = ''bb'', mi_announce = [[''http'']],
        mi_info = Some \<lparr>info_private = Some True\<rparr>\<rparr>)\<rparr>"

definition demo_file :: Source where
  "demo_file =
     \<lparr>src_raw = ''b.torrent'', src_magnet = None,
      src_mi = Some \<lparr>mi_hash = ''bb'', mi_announce = [[''http'']], mi_info = Some \<lparr>info_private = Some True\<rparr>\<rparr>,
      src_info = Some \<lparr>info_private = Some True\<rparr>\<rparr>"

definition demo_magnet :: "string \<Rightarrow> string list \<Rightarrow> Source" where
  "demo_magnet hash trackers =
     \<lparr>src_raw = ''magnet:'', src_magnet = Some \<lparr>mag_hash = hash, mag_trackers = trackers, mag_name = []\<rparr>,
      src_mi = None, src_info = None\<rparr>"

definition demo_cfg :: Config where
  "demo_cfg = \<lparr>cfg_DataDir = ''data'', cfg_Upload = False, cfg_DHT = True, cfg_ListenPort = 0,
     cfg_Ports = True, cfg_Peers = []\<rparr>"

definition demo_events :: "pool_event list" where
  "demo_events =
     [DoAttach (demo_magnet ''aa'' [''udp'']) [], DoAttach demo_file [], DoAttach (demo_magnet ''cc'' []) [],
      Bytes 1 10, Bytes 2 5]"

abbreviation demo_ports :: PortSet where
  "demo_ports \<equiv> \<lparr>ports = [6881, 6882, 6883, 6884]\<rparr>"

lemma demo_ok: "list_all (ok_event demo_env) demo_events"
  by (simp add: demo_events_def demo_magnet_def demo_file_def demo_env_def wf_source_def stable_file_def)

section \<open>Private torrents\<close>

text \<open>C1: In every run of the pool, whatever the swarm answers and whatever order torrents are
  attached, detached and closed in, a client that runs DHT never carries a torrent whose metadata
  says private (BEP 27).\<close>

theorem private_never_on_dht:
  assumes "list_all (ok_event env) evs"
    and "h < nses (run_world env cfg ps evs)"
    and "sess_cl (get_session (run_world env cfg ps evs) h) = Some c"
    and "dhtOn (get_session (run_world env cfg ps evs) h)"
    and "e \<in> set (cl_torrents c)" "te_info e = Some i"
  shows "\<not> flagged_private i"
  using run_facts [OF assms(1), of cfg ps] assms(2-)
  by (auto simp: pool_inv_def world_ok_def sess_ok_def client_ok_def)

theorem private_never_on_dht_witness:
  "let s = get_session (run_world demo_env demo_cfg demo_ports demo_events) 1 in
   dhtOn s \<and> \<not> flagged_private (the (te_info (hd (cl_torrents (the (sess_cl s))))))"
proof -
  let ?w = "run_world demo_env demo_cfg demo_ports demo_events"
  let ?s = "get_session ?w 1"
  have n: "1 < nses ?w" by code_simp
  have d: "dhtOn ?s" by code_simp
  have c: "sess_cl ?s = Some (the (sess_cl ?s))" by code_simp
  have e: "hd (cl_torrents (the (sess_cl ?s))) \<in> set (cl_torrents (the (sess_cl ?s)))" by code_simp
  have i: "te_info (hd (cl_torrents (the (sess_cl ?s)))) = Some (the (te_info (hd (cl_torrents (the (sess_cl ?s))))))"
    by code_simp
  show ?thesis
    using private_never_on_dht [OF demo_ok n c d e i] d by (simp add: Let_def)
qed

text \<open>In every run of the pool the shared client is open, was never started blind, and every
  torrent in it has metadata that says public; one registered for a single attachment is another
  client.\<close>

theorem shared_client_public:
  assumes "list_all (ok_event env) evs" and "p_sess (run_pool env cfg ps evs) = Some h"
  shows "\<not> blindly (get_session (run_world env cfg ps evs) h) \<and>
    h \<notin> snd ` set (alone (run_pool env cfg ps evs)) \<and>
    (\<exists>c. sess_cl (get_session (run_world env cfg ps evs) h) = Some c \<and>
       (\<forall>e \<in> set (cl_torrents c). \<exists>i. te_info e = Some i \<and> \<not> flagged_private i))"
  using run_facts [OF assms(1), of cfg ps] assms(2)
  by (auto simp: pool_inv_def shared_ok_def alone_ok_def public_client_def)

theorem shared_client_public_witness:
  "p_sess (run_pool demo_env demo_cfg demo_ports demo_events) = Some 1 \<and>
   \<not> blindly (get_session (run_world demo_env demo_cfg demo_ports demo_events) 1)"
proof -
  have s: "p_sess (run_pool demo_env demo_cfg demo_ports demo_events) = Some 1" by code_simp
  show ?thesis using shared_client_public [OF demo_ok s] s by blast
qed

text \<open>In every run of the pool, a torrent whose private flag had not been read is announced
  only by a client with DHT that is marked as having gone online blind, and such a client is never
  the shared one.\<close>

theorem unsettled_only_blind:
  assumes "list_all (ok_event env) evs" and "h < nses (run_world env cfg ps evs)"
    and "sess_cl (get_session (run_world env cfg ps evs) h) = Some c"
    and "a \<in> set (cl_announced c)" "\<not> an_settled a"
  shows "dhtOn (get_session (run_world env cfg ps evs) h) \<and>
    WentOnlineBlind (run_world env cfg ps evs) h \<and> p_sess (run_pool env cfg ps evs) \<noteq> Some h"
proof -
  have inv: "pool_inv {} (run_pool env cfg ps evs) (run_world env cfg ps evs)"
    by (rule run_facts [OF assms(1)])
  then have "client_ok (dhtOn (get_session (run_world env cfg ps evs) h))
      (blindly (get_session (run_world env cfg ps evs) h)) c"
    using assms(2,3) by (simp add: pool_inv_def world_ok_def sess_ok_def)
  with assms(4,5) inv show ?thesis
    unfolding client_ok_def pool_inv_def shared_ok_def WentOnlineBlind_def by blast
qed

theorem unsettled_only_blind_witness:
  "WentOnlineBlind (run_world demo_env demo_cfg demo_ports demo_events) 3"
proof -
  let ?w = "run_world demo_env demo_cfg demo_ports demo_events"
  let ?s = "get_session ?w 3"
  have n: "3 < nses ?w" by code_simp
  have c: "sess_cl ?s = Some (the (sess_cl ?s))" by code_simp
  have a: "hd (cl_announced (the (sess_cl ?s))) \<in> set (cl_announced (the (sess_cl ?s)))" by code_simp
  have u: "\<not> an_settled (hd (cl_announced (the (sess_cl ?s))))" by code_simp
  show ?thesis using unsettled_only_blind [OF demo_ok n c a u] by blast
qed

section \<open>Attachments\<close>

text \<open>C2: In every run the infohashes the pool holds are exactly those of the attachments not
  detached yet, each held once; and an attachment with a client of its own names an open session
  that is registered under its key, which has no DHT if the torrent is private.\<close>

theorem attachments_exact:
  fixes env cfg ps evs
  defines "s \<equiv> pool_run env cfg ps evs"
  assumes "list_all (ok_event env) evs"
  shows "distinct (map att_key (live_atts s)) \<and>
    set (held (fst (sys_st s))) = set (map att_key (live_atts s)) \<and>
    Attached (fst (sys_st s)) = length (live_atts s) \<and>
    (\<forall>a \<in> set (live_atts s). \<forall>h. att_sess a = Some h \<longrightarrow>
       map_of (alone (fst (sys_st s))) (att_key a) = Some h \<and>
       sess_cl (get_session (snd (sys_st s)) h) \<noteq> None \<and>
       (dhtOn (get_session (snd (sys_st s)) h) \<longrightarrow> \<not> Private (att_torrent a)))"
proof -
  have inv: "sys_inv s" using pool_run_inv [OF assms(2)] by (simp add: s_def)
  obtain p w where st: "sys_st s = (p, w)" by fastforce
  note I = sys_invD [OF inv st]
  have "length (held p) = length (live_atts s)"
    using distinct_card [OF I(2)] distinct_card [OF I(3)] I(4) by simp
  moreover have "map_of (alone p) (att_key a) = Some h \<and> sess_cl (get_session w h) \<noteq> None \<and>
      (dhtOn (get_session w h) \<longrightarrow> \<not> Private (att_torrent a))"
    if a: "a \<in> set (live_atts s)" "att_sess a = Some h" for a h
  proof -
    have k: "(att_key a, h) \<in> set (alone p)" "dhtOn (get_session w h) \<longrightarrow> \<not> Private (att_torrent a)"
      using I(6) [OF a(1)] a(2) by (simp_all add: att_ok_def)
    moreover have "distinct (map fst (alone p))" "h \<in> snd ` set (alone p) \<longrightarrow> sess_cl (get_session w h) \<noteq> None"
      using I(1) by (auto simp: pool_inv_def alone_ok_def)
    ultimately show ?thesis by force
  qed
  ultimately show ?thesis using I(3,4) st by (simp add: Attached_def)
qed

theorem attachments_exact_witness:
  "Attached (run_pool demo_env demo_cfg demo_ports demo_events) =
   length (live_atts (pool_run demo_env demo_cfg demo_ports demo_events))"
  using attachments_exact [OF demo_ok] by blast

text \<open>C6: Attaching a torrent the pool already holds is refused as busy, attaching to a closed
  pool is refused as closed, and any attach that fails leaves the held infohashes, the registered
  clients and the byte total as they were.\<close>

theorem attach_refused:
  assumes inv: "pool_inv {} p w" and src: "wf_source src" "stable_file env src"
    and al: "fst ` set (alone p) \<subseteq> set (held p)" and key: "InfoHash src = Inr key"
    and r: "Attach env src peers (p, w) = (r, (p', w'))"
  shows "(p_closed p \<longrightarrow> r = Inl ErrPoolClosed \<and> (p', w') = (p, w)) \<and>
    (\<not> p_closed p \<and> key \<in> set (held p) \<longrightarrow> r = Inl (ErrTorrentBusy key) \<and> (p', w') = (p, w)) \<and>
    (\<forall>e. r = Inl e \<longrightarrow> held p' = held p \<and> alone p' = alone p \<and>
       Downloaded (p', w') = Downloaded (p, w))"
proof -
  have "r = Inl ErrPoolClosed \<and> (p', w') = (p, w)" if "p_closed p"
    using r key that by (simp add: Attach_def reserve_def)
  moreover have "r = Inl (ErrTorrentBusy key) \<and> (p', w') = (p, w)" if "\<not> p_closed p \<and> key \<in> set (held p)"
    using r key that by (simp add: Attach_def reserve_def)
  moreover have "held p' = held p \<and> alone p' = alone p \<and> Downloaded (p', w') = Downloaded (p, w)"
    if "r = Inl e" for e
    using Attach_cases [OF inv src al r] that
    by (auto simp: granted_def pool_frame_def release_def Downloaded_def)
  ultimately show ?thesis by blast
qed

theorem attach_refused_witness:
  "fst (Attach demo_env demo_file [] (sys_st (pool_run demo_env demo_cfg demo_ports demo_events)))
     = Inl (ErrTorrentBusy ''bb'')"
proof -
  let ?s = "pool_run demo_env demo_cfg demo_ports demo_events"
  obtain p w where st: "sys_st ?s = (p, w)" by fastforce
  note I = sys_invD [OF pool_run_inv [OF demo_ok] st]
  obtain r p' w' where r: "Attach demo_env demo_file [] (p, w) = (r, (p', w'))" by (metis prod.collapse)
  have "wf_source demo_file" "stable_file demo_env demo_file"
    by (simp_all add: demo_file_def demo_env_def wf_source_def stable_file_def)
  moreover have "InfoHash demo_file = Inr ''bb''" by (simp add: demo_file_def InfoHash_def)
  moreover have "\<not> p_closed (fst (sys_st ?s))" "''bb'' \<in> set (held (fst (sys_st ?s)))" by code_simp+
  ultimately show ?thesis
    using attach_refused [OF I(1) _ _ alone_held [OF pool_run_inv [OF demo_ok] st] _ r] r st by simp
qed

section \<open>Accounting\<close>

text \<open>C5: The pool's byte total counts every byte once: it grows by exactly what an open client
  receives, and no attach, detach or close changes it (in particular it never falls).\<close>

theorem downloaded_exact:
  assumes "list_all (ok_event env) (evs @ [ev])"
  shows "Downloaded (sys_st (pool_run env cfg ps (evs @ [ev]))) =
    Downloaded (sys_st (pool_run env cfg ps evs)) +
    (case ev of
       Bytes h n \<Rightarrow> if h < nses (run_world env cfg ps evs) \<and>
                      sess_cl (get_session (run_world env cfg ps evs) h) \<noteq> None then int n else 0
     | _ \<Rightarrow> 0)"
  using pool_step_inv(2) [OF pool_run_inv, of env evs env ev cfg ps] assms
  by (cases ev) (simp_all add: pool_run_def accepts_def)

theorem downloaded_exact_witness:
  "Downloaded (sys_st (pool_run demo_env demo_cfg demo_ports (demo_events @ [DoDetach 1]))) = 15"
proof -
  have "Downloaded (sys_st (pool_run demo_env demo_cfg demo_ports demo_events)) = 15" by code_simp
  then show ?thesis
    using downloaded_exact [of demo_env demo_events "DoDetach 1" demo_cfg demo_ports] demo_ok by simp
qed

text \<open>C3: In every run, the port leases not handed back are exactly those of the sessions that
  own one, each by a single open session; the leased ports are different ports of the configured
  set, and together with the free ones they are all of it.\<close>

theorem ports_owned:
  fixes env cfg ps evs
  defines "w \<equiv> run_world env cfg ps evs"
  assumes "valid_PortSet ps" "list_all (ok_event env) evs"
  shows "(\<forall>i. live_lease w i \<longleftrightarrow> (\<exists>h. holds w h i)) \<and>
    (\<forall>i h h'. holds w h i \<and> holds w h' i \<longrightarrow> h = h') \<and>
    (\<forall>i h. holds w h i \<longrightarrow> sess_cl (get_session w h) \<noteq> None) \<and>
    distinct (live_ports (w_ports w)) \<and> set (live_ports (w_ports w)) \<subseteq> set (ports ps) \<and>
    Pool_Free (pool (w_ports w)) + length (live_ports (w_ports w)) = PortSet_Len ps"
proof -
  have inv: "pool_inv {} (run_pool env cfg ps evs) w" unfolding w_def by (rule run_facts [OF assms(3)])
  have li: "lease_inv {} w" and ok: "world_ok w" using inv by (simp_all add: pool_inv_def)
  have pi: "ports_inv ps (w_ports w)" unfolding w_def by (rule ports_inv_pool_run [OF assms(2)])
  have "\<forall>i h. holds w h i \<longrightarrow> sess_cl (get_session w h) \<noteq> None"
    using ok by (auto simp: holds_def world_ok_def sess_ok_def)
  then show ?thesis
    using lease_invD(1,2) [OF li] ports_inv_live [OF assms(2) pi]
    by (auto simp: Pool_Free_def PortSet_Len_def)
qed

theorem ports_owned_witness:
  "Pool_Free (pool (w_ports (run_world demo_env demo_cfg demo_ports demo_events))) = 1"
proof -
  have v: "valid_PortSet demo_ports" by (simp add: valid_PortSet_def bindable_def)
  have l: "length (live_ports (w_ports (run_world demo_env demo_cfg demo_ports demo_events))) = 3"
    by code_simp
  show ?thesis using ports_owned [OF v demo_ok, of demo_cfg] l by (simp add: PortSet_Len_def)
qed

lemma empty_pool_returned:
  assumes v: "valid_PortSet ps" and ok: "list_all (ok_event env) evs"
    and gone: "live_atts (pool_run env cfg ps evs) = []" "p_sess (run_pool env cfg ps evs) = None"
  shows "Pool_Free (pool (w_ports (run_world env cfg ps evs))) = PortSet_Len ps \<and>
    (\<forall>h < nses (run_world env cfg ps evs). sess_cl (get_session (run_world env cfg ps evs) h) = None)"
proof -
  let ?s = "pool_run env cfg ps evs"
  obtain p w where st: "sys_st ?s = (p, w)" by fastforce
  note I = sys_invD [OF pool_run_inv [OF ok] st]
  have "alone p = []" using I(5) gone(1) by (cases "alone p") auto
  then have closed: "\<forall>h < nses w. sess_cl (get_session w h) = None"
    using I(1) gone(2) st by (auto simp: pool_inv_def no_stray_def)
  have "world_ok w" "lease_inv {} w" using I(1) by (simp_all add: pool_inv_def)
  with closed have "\<not> live_lease w i" for i
    using lease_invD(1) by (auto simp: world_ok_def sess_ok_def holds_def)
  then have "live_ports (w_ports w) = []"
    by (auto simp: live_ports_def live_lease_def filter_empty_conv in_set_conv_nth)
  moreover have "ports_inv ps (w_ports w)" using ports_inv_pool_run [OF v] st by (metis snd_conv)
  ultimately show ?thesis
    using ports_inv_live(3) [OF v] closed st by (fastforce simp: Pool_Free_def PortSet_Len_def)
qed

text \<open>C4: Once every attachment is detached and the shared client is gone, no client is left open
  and every port of the set is free again.\<close>

theorem all_returned:
  assumes v: "valid_PortSet ps" and ok: "list_all (ok_event env) evs"
    and gone: "live_atts (pool_run env cfg ps evs) = []" "p_sess (run_pool env cfg ps evs) = None"
  shows "Pool_Free (pool (w_ports (run_world env cfg ps evs))) = PortSet_Len ps \<and>
    (\<forall>h < nses (run_world env cfg ps evs). sess_cl (get_session (run_world env cfg ps evs) h) = None)"
  using assms by (rule empty_pool_returned)

theorem all_returned_witness:
  "Pool_Free (pool (w_ports (run_world demo_env demo_cfg demo_ports
     (demo_events @ [DoClose, DoDetach 2, DoDetach 0, DoDetach 1])))) = 4"
proof -
  let ?evs = "demo_events @ [DoClose, DoDetach 2, DoDetach 0, DoDetach 1]"
  have v: "valid_PortSet demo_ports" by (simp add: valid_PortSet_def bindable_def)
  have ok: "list_all (ok_event demo_env) ?evs" using demo_ok by simp
  have "live_atts (pool_run demo_env demo_cfg demo_ports ?evs) = []"
    "p_sess (run_pool demo_env demo_cfg demo_ports ?evs) = None" by code_simp+
  from all_returned [OF v ok this] show ?thesis by (simp add: PortSet_Len_def)
qed

end
