(* ===== verification/GoFloat.thy ===== *)
theory GoFloat
  imports Complex_Main Prelude
begin

text \<open>
  The part of IEEE double arithmetic the program uses, exactly: a finite double is a pair
  \<open>(m, e)\<close> standing for \<open>m * 2 ^ e\<close>, conversion from an integer and
  multiplication round the exact result to 53 significant bits, ties to even. Everything here stays
  far from the ends of the exponent range, so overflow and subnormals do not arise.
\<close>

type_synonym f64 = "int \<times> int"

fun bitlen :: "nat \<Rightarrow> nat" where
  "bitlen n = (if n = 0 then 0 else Suc (bitlen (n div 2)))"

declare bitlen.simps [simp del]

definition round_even :: "nat \<Rightarrow> nat \<Rightarrow> nat" where
  "round_even m k =
     (let q = m div 2 ^ k; r = m mod 2 ^ k in
      if 2 ^ k < 2 * r \<or> (2 * r = 2 ^ k \<and> odd q) then q + 1 else q)"

definition f64_round :: "f64 \<Rightarrow> f64" where
  "f64_round x =
     (case x of (m, e) \<Rightarrow>
        let k = bitlen (nat \<bar>m\<bar>) - 53
        in (sgn m * int (round_even (nat \<bar>m\<bar>) k), e + int k))"

definition f64_of_int :: "int \<Rightarrow> f64" where
  "f64_of_int n = f64_round (n, 0)"

definition f64_mult :: "f64 \<Rightarrow> f64 \<Rightarrow> f64" where
  "f64_mult x y = (case x of (m, e) \<Rightarrow> case y of (m', e') \<Rightarrow> f64_round (m * m', e + e'))"

text \<open>The quotient keeps two bits more than fit and a sticky one, so that rounding it rounds the exact
quotient. Division by zero does not arise.\<close>

definition f64_div :: "f64 \<Rightarrow> f64 \<Rightarrow> f64" where
  "f64_div x y =
     (case x of (m, e) \<Rightarrow> case y of (m', e') \<Rightarrow>
        let s = bitlen (nat \<bar>m'\<bar>) + 55;
            a = nat \<bar>m\<bar> * 2 ^ s;
            q = a div nat \<bar>m'\<bar>;
            sticky = (if a mod nat \<bar>m'\<bar> = 0 then 0 else 1)
        in f64_round (sgn m * sgn m' * int (2 * q + sticky), e - e' - int s - 1))"

definition f64_add :: "f64 \<Rightarrow> f64 \<Rightarrow> f64" where
  "f64_add x y =
     (case x of (m, e) \<Rightarrow> case y of (m', e') \<Rightarrow>
        let l = min e e' in f64_round (m * 2 ^ nat (e - l) + m' * 2 ^ nat (e' - l), l))"

text \<open>Conversion to an integer truncates towards zero.\<close>

definition f64_trunc :: "f64 \<Rightarrow> int" where
  "f64_trunc x =
     (case x of (m, e) \<Rightarrow> if 0 \<le> e then m * 2 ^ nat e else sgn m * (\<bar>m\<bar> div 2 ^ nat (- e)))"

definition f64_less :: "f64 \<Rightarrow> f64 \<Rightarrow> bool" where
  "f64_less x y =
     (case x of (m, e) \<Rightarrow> case y of (m', e') \<Rightarrow>
        if e \<le> e' then m < m' * 2 ^ nat (e' - e) else m * 2 ^ nat (e - e') < m')"

definition f64_le :: "f64 \<Rightarrow> f64 \<Rightarrow> bool" where
  "f64_le x y \<longleftrightarrow> \<not> f64_less y x"

section \<open>Values\<close>

definition f64_val :: "f64 \<Rightarrow> real" where
  "f64_val x = (case x of (m, e) \<Rightarrow> of_int m * 2 powi e)"

lemma f64_less_val: "f64_less x y \<longleftrightarrow> f64_val x < f64_val y"
proof -
  obtain m e m' e' where xy: "x = (m, e)" "y = (m', e')" by (cases x, cases y)
  have pos: "(0::real) < 2 powi i" for i by simp
  show ?thesis
  proof (cases "e \<le> e'")
    case True
    have "(2::real) powi e' = 2 powi e * 2 ^ nat (e' - e)"
      using True by (simp flip: power_int_of_nat power_int_add)
    then have "f64_val y = of_int (m' * 2 ^ nat (e' - e)) * 2 powi e"
      by (simp add: f64_val_def xy)
    moreover have "f64_val x = of_int m * 2 powi e" by (simp add: f64_val_def xy)
    ultimately have "f64_val x < f64_val y \<longleftrightarrow> (of_int m :: real) < of_int (m' * 2 ^ nat (e' - e))"
      by (simp only: mult_less_cancel_right) (simp add: pos [THEN less_imp_le] pos [THEN not_le [THEN iffD2]])
    then show ?thesis using True by (simp add: f64_less_def xy del: of_int_mult of_int_power)
  next
    case False
    have "(2::real) powi e = 2 powi e' * 2 ^ nat (e - e')"
      using False by (simp flip: power_int_of_nat power_int_add)
    then have "f64_val x = of_int (m * 2 ^ nat (e - e')) * 2 powi e'"
      by (simp add: f64_val_def xy)
    moreover have "f64_val y = of_int m' * 2 powi e'" by (simp add: f64_val_def xy)
    ultimately have "f64_val x < f64_val y \<longleftrightarrow> (of_int (m * 2 ^ nat (e - e')) :: real) < of_int m'"
      by (simp only: mult_less_cancel_right) (simp add: pos [THEN less_imp_le] pos [THEN not_le [THEN iffD2]])
    then show ?thesis using False by (simp add: f64_less_def xy del: of_int_mult of_int_power)
  qed
qed

lemma f64_le_val: "f64_le x y \<longleftrightarrow> f64_val x \<le> f64_val y"
  by (auto simp: f64_le_def f64_less_val)

lemma bitlen_bounds: "0 < n \<Longrightarrow> 2 ^ (bitlen n - 1) \<le> n \<and> n < 2 ^ bitlen n"
proof (induction n rule: bitlen.induct)
  case (1 n)
  show ?case
  proof (cases "n div 2 = 0")
    case True
    with 1 have "n = 1" by presburger
    then show ?thesis by (simp add: bitlen.simps)
  next
    case False
    with 1 have IH: "2 ^ (bitlen (n div 2) - 1) \<le> n div 2" "n div 2 < 2 ^ bitlen (n div 2)" by auto
    have b: "bitlen n = Suc (bitlen (n div 2))" using 1 by (simp add: bitlen.simps [of n])
    have "bitlen (n div 2) > 0" using False by (simp add: bitlen.simps [of "n div 2"])
    then have p: "(2::nat) ^ bitlen (n div 2) = 2 * 2 ^ (bitlen (n div 2) - 1)"
      by (cases "bitlen (n div 2)") simp_all
    have "2 ^ bitlen (n div 2) \<le> n" using IH(1) p by linarith
    moreover have "n < 2 * 2 ^ bitlen (n div 2)" using IH(2) by linarith
    ultimately show ?thesis by (simp add: b)
  qed
qed

text \<open>Rounding at most doubles, and it keeps what fits in 53 bits.\<close>

lemma round_even_zero [simp]: "round_even m 0 = m"
  by (simp add: round_even_def)

lemma if_Suc_le: "(if b then q + 1 else q) \<le> (q :: nat) + 1"
  by simp

lemma round_even_upper: "k = bitlen m - 53 \<Longrightarrow> round_even m k * 2 ^ k \<le> 2 * m"
proof (cases "k = 0")
  case False
  assume k: "k = bitlen m - 53"
  have "bitlen 0 = 0" by (simp add: bitlen.simps)
  with k False have m: "0 < m" by (cases "m = 0") auto
  have "(2::nat) ^ k \<le> 2 ^ (bitlen m - 1)" using k by (intro power_increasing) auto
  also have "\<dots> \<le> m" using bitlen_bounds [OF m] by simp
  finally have le: "2 ^ k \<le> m" .
  have "round_even m k \<le> m div 2 ^ k + 1"
    unfolding round_even_def Let_def by (rule if_Suc_le)
  then have "round_even m k * 2 ^ k \<le> (m div 2 ^ k + 1) * 2 ^ k" by (rule mult_le_mono1)
  also have "\<dots> = m div 2 ^ k * 2 ^ k + 2 ^ k" by (simp only: distrib_right mult_1)
  also have "\<dots> \<le> m + m" using le div_times_less_eq_dividend by (intro add_mono)
  finally show ?thesis by simp
qed simp

lemma f64_round_upper: "0 \<le> m \<Longrightarrow> f64_val (f64_round (m, e)) \<le> 2 * f64_val (m, e)"
proof -
  assume m: "0 \<le> m"
  define k where "k = bitlen (nat \<bar>m\<bar>) - 53"
  define r where "r = round_even (nat m) k"
  have "r * 2 ^ k \<le> 2 * nat m"
    using round_even_upper [OF k_def] m by (simp add: r_def)
  then have "int (r * 2 ^ k) \<le> int (2 * nat m)" by (rule of_nat_mono)
  then have "int r * 2 ^ k \<le> 2 * m" using m by simp
  then have "(of_int (int r * 2 ^ k) :: real) \<le> of_int (2 * m)" by (rule of_int_le_iff [THEN iffD2])
  then have c: "(of_nat r * 2 ^ k :: real) * 2 powi e \<le> 2 * of_int m * 2 powi e"
    by (simp add: mult_right_mono)
  have v: "f64_val (f64_round (m, e)) = of_int (sgn m) * of_nat r * 2 powi (e + int k)"
    using m by (simp add: f64_val_def f64_round_def Let_def k_def r_def)
  have s: "2 powi (e + int k) = (2::real) ^ k * 2 powi e"
    by (simp add: power_int_add)
  show ?thesis
  proof (cases "m = 0")
    case True
    then show ?thesis by (simp add: f64_val_def f64_round_def Let_def)
  next
    case False
    with m v s c show ?thesis by (simp add: f64_val_def mult.assoc)
  qed
qed

lemma f64_round_nonneg: "0 \<le> m \<Longrightarrow> 0 \<le> f64_val (f64_round (m, e))"
  by (cases "m = 0") (simp_all add: f64_round_def f64_val_def Let_def)

lemma f64_of_int_exact: "\<bar>n\<bar> < 2 ^ 53 \<Longrightarrow> f64_of_int n = (n, 0)"
proof -
  assume n: "\<bar>n\<bar> < 2 ^ 53"
  have "bitlen (nat \<bar>n\<bar>) \<le> 53"
  proof (cases "n = 0")
    case False
    show ?thesis
    proof (rule ccontr)
      assume "\<not> ?thesis"
      then have "(2::nat) ^ 53 \<le> 2 ^ (bitlen (nat \<bar>n\<bar>) - 1)" by (intro power_increasing) auto
      also have "\<dots> \<le> nat \<bar>n\<bar>" using bitlen_bounds [of "nat \<bar>n\<bar>"] False by simp
      finally have "(2::int) ^ 53 \<le> \<bar>n\<bar>" by simp
      with n show False by simp
    qed
  qed (simp add: bitlen.simps)
  then show ?thesis by (simp add: f64_of_int_def f64_round_def Let_def sgn_mult_abs)
qed

text \<open>Rounding adds at most one part in \<open>2 ^ 52\<close>.\<close>

lemma round_even_tight: "k = bitlen m - 53 \<Longrightarrow> round_even m k * 2 ^ k * 2 ^ 52 \<le> m * (2 ^ 52 + 1)"
proof (cases "k = 0")
  case False
  assume k: "k = bitlen m - 53"
  have "bitlen 0 = 0" by (simp add: bitlen.simps)
  with k False have m: "0 < m" by (cases "m = 0") auto
  have "bitlen m - 1 = k + 52" using k False by simp
  then have "(2::nat) ^ k * 2 ^ 52 = 2 ^ (bitlen m - 1)" by (simp only: power_add)
  also have "\<dots> \<le> m" using bitlen_bounds [OF m] by simp
  finally have le: "(2::nat) ^ k * 2 ^ 52 \<le> m" .
  have "round_even m k \<le> m div 2 ^ k + 1"
    unfolding round_even_def Let_def by (rule if_Suc_le)
  then have "round_even m k * 2 ^ k \<le> (m div 2 ^ k + 1) * 2 ^ k" by (rule mult_le_mono1)
  also have "\<dots> = m div 2 ^ k * 2 ^ k + 2 ^ k" by (simp only: distrib_right mult_1)
  also have "\<dots> \<le> m + 2 ^ k" using div_times_less_eq_dividend by (intro add_mono) simp_all
  finally have "round_even m k * 2 ^ k * 2 ^ 52 \<le> (m + 2 ^ k) * 2 ^ 52" by (rule mult_le_mono1)
  also have "\<dots> \<le> m * 2 ^ 52 + m" using le by (simp add: distrib_right)
  finally show ?thesis by (simp add: distrib_left)
qed (simp)

lemma f64_round_tight: "0 \<le> m \<Longrightarrow> f64_val (f64_round (m, e)) * 2 ^ 52 \<le> f64_val (m, e) * (2 ^ 52 + 1)"
proof (cases "m = 0")
  case True
  then show ?thesis by (simp add: f64_val_def f64_round_def Let_def)
next
  case False
  assume "0 \<le> m"
  with False have m: "0 < m" by simp
  define k where "k = bitlen (nat \<bar>m\<bar>) - 53"
  define r where "r = round_even (nat m) k"
  have "r * 2 ^ k * 2 ^ 52 \<le> nat m * (2 ^ 52 + 1)"
    using round_even_tight [OF k_def] m by (simp add: r_def)
  then have "real (r * 2 ^ k * 2 ^ 52) \<le> real (nat m * (2 ^ 52 + 1))" by (rule of_nat_mono)
  then have "real r * 2 ^ k * 2 ^ 52 \<le> of_int m * (2 ^ 52 + 1)" using m by simp
  then have "real r * 2 ^ k * 2 ^ 52 * 2 powi e \<le> of_int m * (2 ^ 52 + 1) * 2 powi e"
    by (rule mult_right_mono) simp
  moreover have "f64_val (f64_round (m, e)) = of_nat r * 2 ^ k * 2 powi e"
    using m by (simp add: f64_val_def f64_round_def Let_def k_def r_def power_int_add)
  ultimately show ?thesis by (simp add: f64_val_def mult.commute mult.left_commute)
qed

text \<open>A share of a whole number, taken by multiplication, stays below the number.\<close>

lemma f64_share_le:
  assumes "0 \<le> n" "n < 2 ^ 53" "0 \<le> m" "m * (2 ^ 52 + 1) \<le> 2 ^ 52 * 2 ^ 53" "n \<le> x" "x < 2 ^ 53"
  shows "f64_le (f64_mult (f64_of_int n) (m, - 53)) (f64_of_int x)"
proof -
  have "f64_of_int n = (n, 0)" "f64_of_int x = (x, 0)" using assms by (auto intro: f64_of_int_exact)
  moreover have "f64_val (f64_round (n * m, - 53)) * 2 ^ 52 \<le> f64_val (n * m, - 53) * (2 ^ 52 + 1)"
    using assms by (intro f64_round_tight) simp
  moreover have "f64_val (n * m, - 53) * (2 ^ 52 + 1) \<le> of_int n * 2 ^ 52"
  proof -
    have "n * (m * (2 ^ 52 + 1)) \<le> n * (2 ^ 52 * 2 ^ 53)"
      using assms(1,4) by (rule mult_left_mono [rotated])
    then have "(of_int (n * (m * (2 ^ 52 + 1))) :: real) \<le> of_int (n * (2 ^ 52 * 2 ^ 53))"
      by (rule of_int_le_iff [THEN iffD2])
    then show ?thesis
      by (simp add: f64_val_def power_int_minus field_simps)
  qed
  moreover have "(of_int n :: real) * 2 ^ 52 \<le> of_int x * 2 ^ 52"
    using assms(5) by simp
  ultimately have "f64_val (f64_round (n * m, - 53)) * 2 ^ 52 \<le> of_int x * 2 ^ 52"
    by linarith
  then have "f64_val (f64_round (n * m, - 53)) \<le> of_int x" by simp
  with \<open>f64_of_int n = _\<close> \<open>f64_of_int x = _\<close> show ?thesis
    by (simp add: f64_le_val f64_mult_def) (simp add: f64_val_def)
qed

end
