(* ===== verification/Files.thy ===== *)
theory Files
  imports GoText GoFloat
begin

text \<open>
  \<^verbatim>\<open>internal/swarm/files.go\<close>: which files of a torrent are videos worth sampling
  (\<open>SelectVideos\<close>) and which of them the user asked for (\<open>Select\<close>), with the parts
  of Go's \<^verbatim>\<open>path\<close> package they use, over byte strings.
\<close>

section \<open>path\<close>

fun base_rev :: "string \<Rightarrow> string" where
  "base_rev s = takeWhile (\<lambda>c. c \<noteq> CHR ''/'') s"

definition path_Base :: "string \<Rightarrow> string" where
  "path_Base p =
     (if p = [] then ''.''
      else (let r = dropWhile (\<lambda>c. c = CHR ''/'') (rev p) in
            if r = [] then ''/'' else rev (base_rev r)))"

text \<open>From the end, up to a dot, not past a slash.\<close>

fun ext_rev :: "string \<Rightarrow> string \<Rightarrow> string" where
  "ext_rev [] acc = []"
| "ext_rev (c # cs) acc =
     (if c = CHR ''/'' then [] else if c = CHR ''.'' then c # acc else ext_rev cs (c # acc))"

definition path_Ext :: "string \<Rightarrow> string" where
  "path_Ext p = ext_rev (rev p) []"

text \<open>\<^verbatim>\<open>path.Match\<close>, as far as its \<^verbatim>\<open>true\<close> result goes: a malformed pattern
  yields an error, which the only caller treats as no match. \<open>class_char\<close> reads one
  character of a bracket class, an escape included, which must leave something behind it.\<close>

fun class_char :: "string \<Rightarrow> (char \<times> string) option" where
  "class_char [] = None"
| "class_char (c # cs) =
     (if c = CHR ''-'' \<or> c = CHR '']'' then None
      else (case (if c = CHR 0x5C then cs else c # cs) of
              [] \<Rightarrow> None
            | d # ds \<Rightarrow> if ds = [] then None else Some (d, ds)))"

definition class_range :: "string \<Rightarrow> (char \<times> char \<times> string) option" where
  "class_range p =
     (case class_char p of
        None \<Rightarrow> None
      | Some (lo, q) \<Rightarrow>
          (case q of
             [] \<Rightarrow> None
           | c # r \<Rightarrow>
               if c = CHR ''-'' then
                 (case class_char r of None \<Rightarrow> None | Some (hi, s) \<Rightarrow> Some (lo, hi, s))
               else Some (lo, lo, q)))"

lemma class_char_shorter: "class_char p = Some (c, q) \<Longrightarrow> length q < length p"
  by (cases p) (auto split: if_splits list.splits)

lemma class_range_shorter: "class_range p = Some (lo, hi, q) \<Longrightarrow> length q < length p"
  by (auto simp: class_range_def split: option.splits list.splits if_splits dest!: class_char_shorter)

text \<open>The ranges up to the closing bracket: whether one of them holds the character, and what
  follows the class.\<close>

function class_match :: "char \<Rightarrow> bool \<Rightarrow> bool \<Rightarrow> string \<Rightarrow> (bool \<times> string) option" where
  "class_match c some hit p =
     (if p \<noteq> [] \<and> hd p = CHR '']'' \<and> some then Some (hit, tl p)
      else (case class_range p of
              None \<Rightarrow> None
            | Some (lo, hi, q) \<Rightarrow>
                class_match c True (hit \<or> of_char lo \<le> (of_char c :: nat) \<and> of_char c \<le> (of_char hi :: nat)) q))"
  by pat_completeness auto
termination
  by (relation "measure (\<lambda>(c, some, hit, p). length p)") (auto dest: class_range_shorter)

declare class_match.simps [simp del]

lemma class_match_shorter: "class_match c some hit p = Some (b, q) \<Longrightarrow> length q < length p"
proof (induction c some hit p rule: class_match.induct)
  case (1 c some hit p)
  show ?case
  proof (cases "p \<noteq> [] \<and> hd p = CHR '']'' \<and> some")
    case True
    with "1.prems" show ?thesis by (cases p) (auto simp: class_match.simps)
  next
    case False
    with "1.prems" obtain lo hi r where r: "class_range p = Some (lo, hi, r)"
      by (subst (asm) class_match.simps) (auto split: option.splits)
    with "1.prems" False
    have "class_match c True (hit \<or> of_char lo \<le> (of_char c :: nat) \<and> of_char c \<le> (of_char hi :: nat)) r = Some (b, q)"
      by (subst (asm) class_match.simps) auto
    with "1.IH" [OF False r refl refl] class_range_shorter [OF r] show ?thesis by simp
  qed
qed

function path_Match :: "string \<Rightarrow> string \<Rightarrow> bool" where
  "path_Match [] s = (s = [])"
| "path_Match (c # p) s =
     (if c = CHR ''*'' then
        path_Match p s \<or>
        (case s of [] \<Rightarrow> False | d # t \<Rightarrow> d \<noteq> CHR ''/'' \<and> path_Match (c # p) t)
      else (case s of
              [] \<Rightarrow> False
            | d # t \<Rightarrow>
                if c = CHR ''?'' then d \<noteq> CHR ''/'' \<and> path_Match p t
                else if c = CHR ''['' then
                  (let neg = (p \<noteq> [] \<and> hd p = CHR ''^'') in
                   (case class_match d False False (if neg then tl p else p) of
                      None \<Rightarrow> False
                    | Some (hit, q) \<Rightarrow> hit \<noteq> neg \<and> path_Match q t))
                else if c = CHR 0x5C then
                  (case p of [] \<Rightarrow> False | e # q \<Rightarrow> e = d \<and> path_Match q t)
                else c = d \<and> path_Match p t))"
  by pat_completeness auto
termination
  by (relation "measures [\<lambda>(p, s). length s, \<lambda>(p, s). length p]") auto

declare path_Match.simps [simp del]

section \<open>Video files\<close>

record FileInfo =
  fi_Index :: int
  fi_Path :: string
  fi_Length :: int
  fi_Offset :: int

definition fi_Name :: "FileInfo \<Rightarrow> string" where
  "fi_Name f = path_Base (fi_Path f)"

definition videoExtensions :: "string list" where
  "videoExtensions =
     [''.mkv'', ''.mp4'', ''.avi'', ''.m4v'', ''.mov'', ''.ts'', ''.m2ts'', ''.mts'', ''.wmv'', ''.flv'',
      ''.webm'', ''.mpg'', ''.mpeg'', ''.vob'', ''.ogv'', ''.divx'', ''.rmvb'', ''.asf'', ''.3gp'']"

text \<open>The double nearest to 0.10.\<close>

definition sampleFraction :: f64 where
  "sampleFraction = (7205759403792794, -56)"

definition looksLikeSample :: "FileInfo \<Rightarrow> int \<Rightarrow> bool" where
  "looksLikeSample f largest =
     (let name = ToLower (fi_Path f);
          named = Contains name ''sample'' \<or> Contains name ''trailer''
      in named \<and> f64_less (f64_of_int (fi_Length f)) (f64_mult (f64_of_int largest) sampleFraction))"

definition is_video :: "FileInfo \<Rightarrow> bool" where
  "is_video f \<longleftrightarrow> ToLower (path_Ext (fi_Path f)) \<in> set videoExtensions"

fun video_candidates :: "FileInfo list \<Rightarrow> int \<Rightarrow> FileInfo list \<times> int" where
  "video_candidates [] largest = ([], largest)"
| "video_candidates (f # fs) largest =
     (if \<not> is_video f then video_candidates fs largest
      else (case video_candidates fs (if fi_Length f > largest then fi_Length f else largest) of
              (candidates, l) \<Rightarrow> (f # candidates, l)))"

definition SelectVideos :: "FileInfo list \<Rightarrow> FileInfo list" where
  "SelectVideos files =
     (case video_candidates files 0 of
        (candidates, largest) \<Rightarrow> filter (\<lambda>f. \<not> looksLikeSample f largest) candidates)"

section \<open>The user's selection\<close>

datatype select_error = ErrNoFileMatch string

definition ContainsAny :: "string \<Rightarrow> string \<Rightarrow> bool" where
  "ContainsAny s chars \<longleftrightarrow> (\<exists>c \<in> set s. c \<in> set chars)"

definition matches :: "FileInfo \<Rightarrow> string \<Rightarrow> bool" where
  "matches f spec =
     (case Atoi spec of
        Some n \<Rightarrow> fi_Index f = n
      | None \<Rightarrow>
          (let spec = ToLower spec; full = ToLower (fi_Path f) in
           if ContainsAny spec ''*?['' then
             path_Match spec full \<or> path_Match spec (ToLower (fi_Name f))
           else Contains full spec))"

text \<open>The indices kept by the specs seen so far, and the first spec that names nothing.\<close>

fun select_specs :: "FileInfo list \<Rightarrow> string list \<Rightarrow> int list \<Rightarrow> (select_error, int list) result" where
  "select_specs files [] keep = Inr keep"
| "select_specs files (raw # specs) keep =
     (let spec = TrimSpace raw in
      if spec = [] then select_specs files specs keep
      else (let named = map fi_Index (filter (\<lambda>f. matches f spec) files) in
            if named = [] then Inl (ErrNoFileMatch spec)
            else select_specs files specs (keep @ named)))"

definition Select :: "FileInfo list \<Rightarrow> string list \<Rightarrow> (select_error, FileInfo list) result" where
  "Select files specs =
     (if specs = [] then Inr files
      else bind_result (select_specs files specs [])
             (\<lambda>keep. Inr (filter (\<lambda>f. fi_Index f \<in> set keep) files)))"

section \<open>What the two filters promise\<close>

lemma video_candidates_eq:
  "video_candidates files largest =
     (filter is_video files, foldl max largest (map fi_Length (filter is_video files)))"
  by (induction files arbitrary: largest) (auto simp: max_def)

lemma foldl_max: "foldl max (a :: int) xs = Max (insert a (set xs))"
proof (induction xs arbitrary: a)
  case (Cons x xs)
  then show ?case by (cases "set xs = {}") (simp_all add: insert_commute max.left_commute)
qed simp

lemma SelectVideos_eq:
  "SelectVideos files =
     filter (\<lambda>f. is_video f \<and>
       \<not> looksLikeSample f (Max (insert 0 (fi_Length ` set (filter is_video files))))) files"
  by (simp add: SelectVideos_def video_candidates_eq foldl_max conj_commute)

text \<open>Ten percent of a size, as doubles, is below the size itself.\<close>

lemma not_below_tenth:
  assumes "0 \<le> n"
  shows "\<not> f64_less (f64_of_int n) (f64_mult (f64_of_int n) sampleFraction)"
proof -
  obtain m e where x: "f64_of_int n = (m, e)" by fastforce
  have m: "0 \<le> m" using assms x by (cases "n = 0") (auto simp: f64_of_int_def f64_round_def Let_def)
  have "f64_val (f64_mult (f64_of_int n) sampleFraction) \<le> 2 * f64_val (m * 7205759403792794, e - 56)"
    using f64_round_upper [of "m * 7205759403792794" "e - 56"] m
    by (simp add: f64_mult_def x sampleFraction_def)
  also have "\<dots> = of_int m * 2 powi e * (2 * 7205759403792794 / 2 ^ 56)"
    by (simp add: f64_val_def power_int_diff)
  also have "\<dots> \<le> of_int m * 2 powi e * 1"
    using m by (intro mult_left_mono) simp_all
  finally show ?thesis by (simp add: f64_less_val x f64_val_def not_less)
qed

text \<open>The files chosen for sampling are video files in the torrent's order; a video is left out
  only when its path says sample or trailer and it is small beside the largest video, so the largest
  ones always stay and a torrent with a video never selects to nothing.\<close>

theorem videos_selected:
  assumes "\<forall>f \<in> set files. 0 \<le> fi_Length f"
  shows "\<exists>keep. SelectVideos files = filter keep files \<and>
    (\<forall>f \<in> set files. keep f \<longrightarrow> is_video f) \<and>
    (\<forall>f \<in> set files. is_video f \<and> \<not> Contains (ToLower (fi_Path f)) ''sample'' \<and>
       \<not> Contains (ToLower (fi_Path f)) ''trailer'' \<longrightarrow> keep f) \<and>
    (\<forall>f \<in> set files. is_video f \<and> (\<forall>g \<in> set files. is_video g \<longrightarrow> fi_Length g \<le> fi_Length f) \<longrightarrow> keep f) \<and>
    ((\<exists>f \<in> set files. is_video f) \<longrightarrow> SelectVideos files \<noteq> [])"
proof -
  let ?L = "Max (insert 0 (fi_Length ` set (filter is_video files)))"
  let ?keep = "\<lambda>f. is_video f \<and> \<not> looksLikeSample f ?L"
  have eq: "SelectVideos files = filter ?keep files" by (rule SelectVideos_eq)
  have largest: "?keep f"
    if f: "f \<in> set files" "is_video f" "\<forall>g \<in> set files. is_video g \<longrightarrow> fi_Length g \<le> fi_Length f" for f
  proof -
    have "?L = fi_Length f" by (rule Max_eqI) (use f assms in auto)
    then show ?thesis
      using f not_below_tenth [of "fi_Length f"] assms by (simp add: looksLikeSample_def Let_def)
  qed
  have some: "\<exists>f \<in> set files. is_video f \<and> (\<forall>g \<in> set files. is_video g \<longrightarrow> fi_Length g \<le> fi_Length f)"
    if "\<exists>f \<in> set files. is_video f"
  proof -
    let ?V = "{f \<in> set files. is_video f}"
    have fin: "finite (fi_Length ` ?V)" "fi_Length ` ?V \<noteq> {}" using that by auto
    from Max_in [OF fin] obtain f where f: "f \<in> ?V" "Max (fi_Length ` ?V) = fi_Length f" by (rule imageE)
    have "fi_Length g \<le> fi_Length f" if "g \<in> ?V" for g
      using Max_ge [OF fin(1), of "fi_Length g"] that f(2) by simp
    with f(1) show ?thesis by blast
  qed
  have ne: "(\<exists>f \<in> set files. is_video f) \<longrightarrow> SelectVideos files \<noteq> []"
    using some largest unfolding eq filter_empty_conv by blast
  show ?thesis
    by (intro exI [of _ ?keep] conjI eq ne) (use largest in \<open>auto simp: looksLikeSample_def Let_def\<close>)
qed

theorem videos_selected_witness:
  "SelectVideos [\<lparr>fi_Index = 0, fi_Path = ''Sample.MKV'', fi_Length = 5, fi_Offset = 0\<rparr>] \<noteq> []"
proof -
  let ?f = "\<lparr>fi_Index = 0, fi_Path = ''Sample.MKV'', fi_Length = 5, fi_Offset = 0\<rparr>"
  have "is_video ?f" by code_simp
  then show ?thesis using videos_selected [of "[?f]"] by force
qed

lemma select_specs_Inr:
  "select_specs files specs keep = Inr out \<Longrightarrow>
   (\<forall>raw \<in> set specs. TrimSpace raw \<noteq> [] \<longrightarrow> (\<exists>f \<in> set files. matches f (TrimSpace raw))) \<and>
   set out = set keep \<union> {fi_Index f | f raw. f \<in> set files \<and> raw \<in> set specs \<and> TrimSpace raw \<noteq> [] \<and>
     matches f (TrimSpace raw)}"
proof (induction files specs keep arbitrary: out rule: select_specs.induct)
  case (2 files raw specs keep)
  show ?case
  proof (cases "TrimSpace raw = []")
    case True
    with 2 show ?thesis by (auto simp: Let_def)
  next
    case False
    let ?named = "map fi_Index (filter (\<lambda>f. matches f (TrimSpace raw)) files)"
    from "2.prems" False have ne: "?named \<noteq> []" and rest: "select_specs files specs (keep @ ?named) = Inr out"
      by (auto simp: Let_def split: if_splits)
    note IH = "2.IH"(2) [OF refl False refl ne rest]
    from ne have "\<exists>f \<in> set files. matches f (TrimSpace raw)" by (auto simp: filter_empty_conv)
    with IH False show ?thesis by auto
  qed
qed simp

lemma select_specs_Inl:
  "select_specs files specs keep = Inl e \<Longrightarrow>
   \<exists>raw \<in> set specs. e = ErrNoFileMatch (TrimSpace raw) \<and> TrimSpace raw \<noteq> [] \<and>
     (\<forall>f \<in> set files. \<not> matches f (TrimSpace raw))"
  by (induction files specs keep rule: select_specs.induct)
     (auto simp: Let_def filter_empty_conv split: if_splits)

text \<open>A selection that is accepted keeps, in order, exactly the files some non-blank spec names
  (indices being distinct), and every such spec names at least one file; it is refused exactly
  when a non-blank spec names none, and the error carries that spec.\<close>

theorem selection_exact:
  assumes "distinct (map fi_Index files)" "specs \<noteq> []"
  shows "case Select files specs of
      Inr out \<Rightarrow>
        out = filter (\<lambda>f. \<exists>raw \<in> set specs. TrimSpace raw \<noteq> [] \<and> matches f (TrimSpace raw)) files \<and>
        (\<forall>raw \<in> set specs. TrimSpace raw \<noteq> [] \<longrightarrow> (\<exists>f \<in> set out. matches f (TrimSpace raw)))
    | Inl e \<Rightarrow>
        (\<exists>raw \<in> set specs. e = ErrNoFileMatch (TrimSpace raw) \<and> TrimSpace raw \<noteq> [] \<and>
           (\<forall>f \<in> set files. \<not> matches f (TrimSpace raw)))"
proof (cases "select_specs files specs []")
  case (Inl e)
  with select_specs_Inl [OF Inl] assms(2) show ?thesis by (simp add: Select_def)
next
  case (Inr keep)
  note K = select_specs_Inr [OF Inr]
  have inj: "inj_on fi_Index (set files)" using assms(1) by (simp add: distinct_map)
  have "fi_Index f \<in> set keep \<longleftrightarrow> (\<exists>raw \<in> set specs. TrimSpace raw \<noteq> [] \<and> matches f (TrimSpace raw))"
    if "f \<in> set files" for f
    using K that inj_onD [OF inj] by (fastforce simp: set_eq_iff)
  then have out: "filter (\<lambda>f. fi_Index f \<in> set keep) files =
      filter (\<lambda>f. \<exists>raw \<in> set specs. TrimSpace raw \<noteq> [] \<and> matches f (TrimSpace raw)) files"
    by (intro filter_cong) auto
  have "Select files specs = Inr (filter (\<lambda>f. fi_Index f \<in> set keep) files)"
    using assms(2) Inr by (simp add: Select_def)
  then have S: "Select files specs =
      Inr (filter (\<lambda>f. \<exists>raw \<in> set specs. TrimSpace raw \<noteq> [] \<and> matches f (TrimSpace raw)) files)"
    by (simp only: out)
  show ?thesis
    unfolding S sum.case set_filter using conjunct1 [OF K] by blast
qed

theorem selection_exact_witness:
  "Select [\<lparr>fi_Index = 0, fi_Path = ''a/Show.S01E01.mkv'', fi_Length = 5, fi_Offset = 0\<rparr>,
           \<lparr>fi_Index = 1, fi_Path = ''a/Show.S01E02.mkv'', fi_Length = 5, fi_Offset = 5\<rparr>] ['' *e02* '', '' ''] =
   Inr [\<lparr>fi_Index = 1, fi_Path = ''a/Show.S01E02.mkv'', fi_Length = 5, fi_Offset = 5\<rparr>]"
  (is "Select [?f, ?g] ?specs = _")
proof -
  have "Select [?f, ?g] ?specs = Inr [?g]" by code_simp
  then show ?thesis using selection_exact [of "[?f, ?g]" ?specs] by simp
qed

end
