(* ===== verification/Pieces.thy ===== *)
theory Pieces
  imports Files "HOL-Library.Product_Lexorder"
begin

text \<open>
  \<^verbatim>\<open>internal/swarm/fetch.go\<close> and the claim records of
  \<^verbatim>\<open>internal/swarm/torrent.go\<close>: byte ranges of a file as pieces of the torrent,
  what one claim orders from the swarm, and the two records kept of it (the run's claimed pieces and
  the per-file log of a capture point).

  The library's piece scheduler is not code of the repository: the calls made to it are kept in
  order in \<open>tor_calls\<close>. A nil claim log and an empty one behave alike and are both the
  empty map.
\<close>

section \<open>Profiles\<close>

record Profile =
  prof_Name :: string
  Readahead :: int
  prof_Window :: int
  Responsive :: bool

definition MinTime :: Profile where
  "MinTime = \<lparr>prof_Name = ''min-time'', Readahead = 2097152, prof_Window = 4194304, Responsive = True\<rparr>"

definition MinTraffic :: Profile where
  "MinTraffic = \<lparr>prof_Name = ''min-traffic'', Readahead = 262144, prof_Window = 1048576, Responsive = False\<rparr>"

definition alignUp :: "int \<Rightarrow> int \<Rightarrow> int" where
  "alignUp intent pieceLength =
     (if pieceLength \<le> 0 then intent
      else if intent \<le> pieceLength then pieceLength
      else w64 ((w64 (w64 (intent + pieceLength) - 1) sdiv pieceLength) * pieceLength))"

definition WindowSize :: "Profile \<Rightarrow> int \<Rightarrow> int" where
  "WindowSize p pieceLength = alignUp (prof_Window p) pieceLength"

definition ReadaheadSize :: "Profile \<Rightarrow> int \<Rightarrow> int" where
  "ReadaheadSize p pieceLength = Readahead p"

definition ProfileByName :: "string \<Rightarrow> (string, Profile) result" where
  "ProfileByName name =
     (if name = prof_Name MinTime then Inr MinTime
      else if name = prof_Name MinTraffic then Inr MinTraffic
      else Inl name)"

section \<open>Pieces of a byte range\<close>

record PieceRange =
  Begin :: int
  End :: int

definition PieceRange_Len :: "PieceRange \<Rightarrow> int" where
  "PieceRange_Len r = End r - Begin r"

datatype lib_call =
    DownloadPieces int int
  | PriorityNow int
  | PriorityNone int
  | CancelPieces int int

record TorrentState =
  tor_files :: "FileInfo list"
  pieceLength :: int
  numPieces :: int
  tor_length :: int
  claimedSeen :: "int set"
  claimedByte :: int
  claimLog :: "int \<Rightarrow> (int \<times> int) list option"
  tor_calls :: "lib_call list"

datatype fetch_error = FileOutOfRange int | NoPieceLength

definition PieceRangeFor :: "TorrentState \<Rightarrow> int \<Rightarrow> int \<Rightarrow> int \<Rightarrow> (fetch_error, PieceRange) result" where
  "PieceRangeFor t file off length0 =
     (if file < 0 \<or> file \<ge> int (length (tor_files t)) then Inl (FileOutOfRange file)
      else let f = tor_files t ! nat file; pieceLen = pieceLength t in
        if pieceLen \<le> 0 then Inl NoPieceLength
        else
          let off = (if off < 0 then 0 else off);
              off = (if off > fi_Length f then fi_Length f else off);
              len = (if length0 \<le> 0 \<or> w64 (off + length0) > fi_Length f then fi_Length f - off else length0);
              lo = w64 (fi_Offset f + off) sdiv pieceLen;
              hi = w64 (w64 (w64 (fi_Offset f + off) + len) - 1) sdiv pieceLen + 1;
              hi = (if len = 0 then lo + 1 else hi);
              hi = (if hi > numPieces t then numPieces t else hi)
          in Inr \<lparr>Begin = lo, End = hi\<rparr>)"

definition WindowFor ::
  "TorrentState \<Rightarrow> int \<Rightarrow> int \<Rightarrow> int \<Rightarrow> Profile \<Rightarrow> (fetch_error, PieceRange) result" where
  "WindowFor t file off length0 p =
     (let window = WindowSize p (pieceLength t);
          len = (if window > length0 then window else length0)
      in PieceRangeFor t file off len)"

definition fileBytesOf :: "TorrentState \<Rightarrow> int \<Rightarrow> PieceRange \<Rightarrow> (int \<times> int) option" where
  "fileBytesOf t file pieces =
     (if file < 0 \<or> file \<ge> int (length (tor_files t)) \<or> pieceLength t \<le> 0 then None
      else let f = tor_files t ! nat file in
        if fi_Length f \<le> 0 then None
        else
          let lo = w64 (w64 (Begin pieces * pieceLength t) - fi_Offset f);
              hi = w64 (w64 (End pieces * pieceLength t) - fi_Offset f);
              lo = (if lo < 0 then 0 else lo);
              hi = (if hi > fi_Length f then fi_Length f else hi)
          in if hi \<le> lo then None else Some (lo, hi))"

definition pieceBytes :: "TorrentState \<Rightarrow> int \<Rightarrow> int" where
  "pieceBytes t i =
     (if pieceLength t \<le> 0 \<or> i < 0 \<or> (numPieces t > 0 \<and> i \<ge> numPieces t) then 0
      else if numPieces t > 0 \<and> i = numPieces t - 1 then
        (let tail = w64 (tor_length t - w64 ((numPieces t - 1) * pieceLength t)) in
         if tail > 0 \<and> tail < pieceLength t then tail else pieceLength t)
      else pieceLength t)"

section \<open>Claims\<close>

definition note_piece :: "TorrentState \<Rightarrow> int \<Rightarrow> TorrentState" where
  "note_piece t i =
     (if i \<in> claimedSeen t then t
      else t\<lparr>claimedSeen := insert i (claimedSeen t), claimedByte := w64 (claimedByte t + pieceBytes t i)\<rparr>)"

definition noteClaimed :: "PieceRange \<Rightarrow> TorrentState \<Rightarrow> TorrentState" where
  "noteClaimed pieces t = foldl note_piece t [Begin pieces..End pieces - 1]"

definition logClaim :: "int \<Rightarrow> PieceRange \<Rightarrow> TorrentState \<Rightarrow> TorrentState" where
  "logClaim file pieces t =
     (case claimLog t file of
        None \<Rightarrow> t
      | Some spans \<Rightarrow>
          (case fileBytesOf t file pieces of
             None \<Rightarrow> t
           | Some s \<Rightarrow> t\<lparr>claimLog := (claimLog t)(file \<mapsto> spans @ [s])\<rparr>))"

definition log_calls :: "lib_call list \<Rightarrow> TorrentState \<Rightarrow> TorrentState" where
  "log_calls cs t = t\<lparr>tor_calls := tor_calls t @ cs\<rparr>"

record Window =
  win_pieces :: PieceRange
  win_released :: bool

definition Claim ::
  "int \<Rightarrow> int \<Rightarrow> int \<Rightarrow> Profile \<Rightarrow> TorrentState \<Rightarrow> (fetch_error, Window) result \<times> TorrentState" where
  "Claim file off length0 p t =
     (case WindowFor t file off length0 p of
        Inl e \<Rightarrow> (Inl e, t)
      | Inr pieces \<Rightarrow>
          (Inr \<lparr>win_pieces = pieces, win_released = False\<rparr>,
           logClaim file pieces (noteClaimed pieces
             (log_calls (DownloadPieces (Begin pieces) (End pieces) #
                map PriorityNow [Begin pieces..End pieces - 1]) t))))"

text \<open>\<open>None\<close> is the nil window, which Release accepts.\<close>

definition Window_Release :: "Window option \<Rightarrow> TorrentState \<Rightarrow> Window option \<times> TorrentState" where
  "Window_Release w t =
     (case w of
        None \<Rightarrow> (None, t)
      | Some w \<Rightarrow>
          if win_released w then (Some w, t)
          else (Some (w\<lparr>win_released := True\<rparr>),
                log_calls (map PriorityNone [Begin (win_pieces w)..End (win_pieces w) - 1] @
                  [CancelPieces (Begin (win_pieces w)) (End (win_pieces w))]) t))"

section \<open>Reading the records\<close>

definition Claimed :: "TorrentState \<Rightarrow> nat \<times> int" where
  "Claimed t = (card (claimedSeen t), claimedByte t)"

fun join_pieces :: "PieceRange \<Rightarrow> int list \<Rightarrow> PieceRange list" where
  "join_pieces r [] = [r]"
| "join_pieces r (i # is) =
     (if i = End r then join_pieces (r\<lparr>End := End r + 1\<rparr>) is
      else r # join_pieces \<lparr>Begin = i, End = i + 1\<rparr> is)"

definition ClaimedRanges :: "TorrentState \<Rightarrow> PieceRange list" where
  "ClaimedRanges t =
     (case sorted_list_of_set (claimedSeen t) of
        [] \<Rightarrow> []
      | i # is \<Rightarrow> join_pieces \<lparr>Begin = i, End = i + 1\<rparr> is)"

definition StartClaimLog :: "int \<Rightarrow> TorrentState \<Rightarrow> TorrentState" where
  "StartClaimLog file t = t\<lparr>claimLog := (claimLog t)(file \<mapsto> [])\<rparr>"

fun merge_spans :: "int \<times> int \<Rightarrow> (int \<times> int) list \<Rightarrow> (int \<times> int) list" where
  "merge_spans s [] = [s]"
| "merge_spans (a, b) ((c, d) # rest) =
     (if c \<le> b then merge_spans (a, if d > b then d else b) rest
      else (a, b) # merge_spans (c, d) rest)"

definition coalesceSpans :: "(int \<times> int) list \<Rightarrow> (int \<times> int) list" where
  "coalesceSpans spans = (case sort spans of [] \<Rightarrow> [] | s # rest \<Rightarrow> merge_spans s rest)"

definition EndClaimLog :: "int \<Rightarrow> TorrentState \<Rightarrow> (int \<times> int) list \<times> TorrentState" where
  "EndClaimLog file t =
     ((case claimLog t file of None \<Rightarrow> [] | Some spans \<Rightarrow> coalesceSpans spans),
      t\<lparr>claimLog := (claimLog t)(file := None)\<rparr>)"

end
