(* ===== verification/PieceLaws.thy ===== *)
theory PieceLaws
  imports Pieces
begin

text \<open>
  The geometry of pieces: a claim covers exactly the pieces its bytes touch, clipping it to the file
  and expanding it again gives the same pieces, the run's claimed figure is the weight of the set of
  pieces ordered at least once, and the ranges reported are that set.
\<close>

section \<open>A torrent laid out end to end\<close>

definition geometry :: "TorrentState \<Rightarrow> bool" where
  "geometry t \<longleftrightarrow> 0 < pieceLength t \<and> 0 \<le> tor_length t \<and> tor_length t + pieceLength t \<le> max_i64 \<and>
     numPieces t = (tor_length t + pieceLength t - 1) div pieceLength t \<and>
     (\<forall>f \<in> set (tor_files t). 0 \<le> fi_Offset f \<and> 0 \<le> fi_Length f \<and> fi_Offset f + fi_Length f \<le> tor_length t)"

lemma geometryD:
  assumes "geometry t"
  shows "0 < pieceLength t" "0 \<le> tor_length t" "tor_length t + pieceLength t \<le> max_i64"
    "numPieces t = (tor_length t + pieceLength t - 1) div pieceLength t"
  using assms by (auto simp: geometry_def)

lemma geometry_file:
  assumes "geometry t" "0 \<le> file" "file < int (length (tor_files t))"
  shows "0 \<le> fi_Offset (tor_files t ! nat file)" "0 \<le> fi_Length (tor_files t ! nat file)"
    "fi_Offset (tor_files t ! nat file) + fi_Length (tor_files t ! nat file) \<le> tor_length t"
  using assms by (auto simp: geometry_def)

lemma w64_small: "0 \<le> x \<Longrightarrow> x \<le> max_i64 \<Longrightarrow> w64 x = x"
  by (rule w64_id) (simp_all add: min_i64_def)

lemma div_lt: 
  assumes p: "0 < p"
  shows "(x::int) div p < i \<longleftrightarrow> x < i * p"
proof
  have x: "x = p * (x div p) + x mod p" "0 \<le> x mod p" "x mod p < p" using p by simp_all
  show "x < i * p" if "x div p < i"
  proof -
    have "p * (x div p + 1) \<le> p * i" using that p by (intro mult_left_mono) auto
    then have "p * (x div p) + p \<le> i * p" by (simp add: algebra_simps)
    with x show ?thesis by linarith
  qed
  show "x div p < i" if "x < i * p"
  proof (rule ccontr)
    assume "\<not> ?thesis"
    then have "p * i \<le> p * (x div p)" using p by (intro mult_left_mono) auto
    with x that show False unfolding mult.commute [of i p] by linarith
  qed
qed

lemma le_div: "0 < p \<Longrightarrow> i \<le> (x::int) div p \<longleftrightarrow> i * p \<le> x"
  by (metis div_lt not_le)

lemma numPieces_bounds:
  assumes "geometry t"
  shows "0 \<le> numPieces t" "numPieces t * pieceLength t < tor_length t + pieceLength t"
    "tor_length t \<le> numPieces t * pieceLength t"
proof -
  note g = geometryD [OF assms]
  show "0 \<le> numPieces t" using g by (simp add: pos_imp_zdiv_nonneg_iff)
  show "numPieces t * pieceLength t < tor_length t + pieceLength t"
    using le_div [OF g(1), of "numPieces t" "tor_length t + pieceLength t - 1"] g(4) by simp
  have "\<not> numPieces t + 1 \<le> (tor_length t + pieceLength t - 1) div pieceLength t" using g(4) by simp
  then show "tor_length t \<le> numPieces t * pieceLength t"
    unfolding le_div [OF g(1)] by (simp add: algebra_simps)
qed

text \<open>The bytes a request is clamped to.\<close>

definition clamp_off :: "FileInfo \<Rightarrow> int \<Rightarrow> int" where
  "clamp_off f off = max 0 (min off (fi_Length f))"

definition clamp_len :: "FileInfo \<Rightarrow> int \<Rightarrow> int \<Rightarrow> int" where
  "clamp_len f off len =
     (if len \<le> 0 \<or> clamp_off f off + len > fi_Length f then fi_Length f - clamp_off f off else len)"

definition touches :: "TorrentState \<Rightarrow> int \<Rightarrow> int \<Rightarrow> int \<Rightarrow> bool" where
  "touches t i lo hi \<longleftrightarrow> i * pieceLength t < hi \<and> lo < (i + 1) * pieceLength t"

lemma clamp_bounds:
  "0 \<le> fi_Length f \<Longrightarrow> 0 \<le> clamp_off f off \<and> 0 \<le> clamp_len f off len \<and>
     clamp_off f off + clamp_len f off len \<le> fi_Length f"
  by (auto simp: clamp_off_def clamp_len_def)

lemma PieceRangeFor_bounds:
  assumes g: "geometry t" and r: "PieceRangeFor t file off len = Inr r"
  shows "0 \<le> Begin r \<and> End r \<le> numPieces t"
proof -
  let ?f = "tor_files t ! nat file"
  from r have fl: "0 \<le> file" "file < int (length (tor_files t))"
    by (auto simp: PieceRangeFor_def split: if_splits)
  note f = geometry_file [OF g fl]
  have c: "(if (if off < 0 then 0 else off) > fi_Length ?f then fi_Length ?f else if off < 0 then 0 else off)
      = clamp_off ?f off"
    using f by (auto simp: clamp_off_def)
  have o: "0 \<le> fi_Offset ?f + clamp_off ?f off" "fi_Offset ?f + clamp_off ?f off \<le> max_i64"
    using f geometryD(1,3) [OF g] by (auto simp: clamp_off_def)
  have "0 \<le> w64 (fi_Offset ?f + clamp_off ?f off) sdiv pieceLength t"
    using o geometryD(1) [OF g] by (simp add: w64_small sdiv_nonneg pos_imp_zdiv_nonneg_iff)
  with r fl geometryD(1) [OF g] show ?thesis
    by (auto simp: PieceRangeFor_def Let_def c)
qed

lemma PieceRangeFor_eq:
  assumes g: "geometry t" and fl: "0 \<le> file" "file < int (length (tor_files t))"
    and fits: "clamp_off (tor_files t ! nat file) off + len \<le> max_i64"
  defines "f \<equiv> tor_files t ! nat file"
  defines "lo \<equiv> fi_Offset f + clamp_off f off"
  shows "PieceRangeFor t file off len =
     Inr \<lparr>Begin = lo div pieceLength t,
          End = (if clamp_len f off len = 0 then min (lo div pieceLength t + 1) (numPieces t)
                 else (lo + clamp_len f off len - 1) div pieceLength t + 1)\<rparr>"
proof -
  note G = geometryD [OF g] and F = geometry_file [OF g fl, folded f_def]
  note C = clamp_bounds [OF F(2), of off len]
  have c: "(if (if off < 0 then 0 else off) > fi_Length f then fi_Length f else if off < 0 then 0 else off)
      = clamp_off f off"
    using F by (auto simp: clamp_off_def)
  have l: "(if len \<le> 0 \<or> w64 (clamp_off f off + len) > fi_Length f then fi_Length f - clamp_off f off else len)
      = clamp_len f off len"
    using fits C by (cases "len \<le> 0") (auto simp: clamp_len_def w64_small f_def)
  have lo: "0 \<le> lo" "lo \<le> max_i64" "lo + clamp_len f off len \<le> tor_length t"
    using C F G by (auto simp: lo_def)
  have w: "w64 lo = lo" "w64 (lo + clamp_len f off len) = lo + clamp_len f off len"
    using lo C G by (simp_all add: w64_small)
  have "\<not> (lo + clamp_len f off len - 1) div pieceLength t + 1 > numPieces t"
    if "clamp_len f off len \<noteq> 0"
  proof -
    have "(lo + clamp_len f off len - 1) div pieceLength t \<le> (tor_length t - 1) div pieceLength t"
      using lo G by (intro zdiv_mono1) auto
    also have "\<dots> = (tor_length t + pieceLength t - 1) div pieceLength t - 1"
      using G(1) div_add_self2 [of "pieceLength t" "tor_length t - 1"] by (simp add: algebra_simps)
    finally show ?thesis using G by simp
  qed
  moreover have "w64 (lo + clamp_len f off len - 1) = lo + clamp_len f off len - 1"
    "0 \<le> lo + clamp_len f off len - 1" if "clamp_len f off len \<noteq> 0"
    using lo C G that by (auto intro: w64_small)
  moreover have "\<not> (file < 0 \<or> file \<ge> int (length (tor_files t)))" "\<not> pieceLength t \<le> 0"
    using fl G by simp_all
  ultimately show ?thesis
    unfolding PieceRangeFor_def Let_def f_def [symmetric] c l lo_def [symmetric] w
    by (cases "clamp_len f off len = 0") (use lo(1) G(1) in \<open>simp_all add: sdiv_nonneg\<close>)
qed

lemma div_eqI: "0 < p \<Longrightarrow> i * p \<le> x \<Longrightarrow> x < (i + 1) * p \<Longrightarrow> (x::int) div p = i"
  using le_div [of p i x] div_lt [of p x "i + 1"] by linarith

lemma div_bounds: "0 < p \<Longrightarrow> (x::int) div p * p \<le> x \<and> x < (x div p + 1) * p"
  using le_div [of p "x div p" x] div_lt [of p x "x div p + 1"] by linarith

text \<open>The range of a non-empty request, by its edges.\<close>

lemma range_edges:
  assumes g: "geometry t" and fl: "0 \<le> file" "file < int (length (tor_files t))"
    and fits: "clamp_off (tor_files t ! nat file) off + len \<le> max_i64"
    and r: "PieceRangeFor t file off len = Inr r"
    and some: "clamp_len (tor_files t ! nat file) off len > 0"
  defines "f \<equiv> tor_files t ! nat file"
  defines "lo \<equiv> fi_Offset f + clamp_off f off"
  defines "hi \<equiv> lo + clamp_len f off len"
  shows "Begin r * pieceLength t \<le> lo" "lo < (Begin r + 1) * pieceLength t"
    "(End r - 1) * pieceLength t < hi" "hi \<le> End r * pieceLength t"
    "0 \<le> Begin r" "Begin r < End r" "End r \<le> numPieces t"
proof -
  have eq: "r = \<lparr>Begin = lo div pieceLength t, End = (hi - 1) div pieceLength t + 1\<rparr>"
    using PieceRangeFor_eq [OF g fl fits] r some
    by (simp add: f_def [symmetric] lo_def [symmetric] hi_def)
  note p = geometryD(1) [OF g]
  show "Begin r * pieceLength t \<le> lo" "lo < (Begin r + 1) * pieceLength t"
    using div_bounds [OF p, of lo] by (simp_all add: eq)
  show "(End r - 1) * pieceLength t < hi" "hi \<le> End r * pieceLength t"
    using div_bounds [OF p, of "hi - 1"] by (simp_all add: eq)
  show "0 \<le> Begin r" "End r \<le> numPieces t" using PieceRangeFor_bounds [OF g r] by simp_all
  have "lo div pieceLength t \<le> (hi - 1) div pieceLength t"
    using some p by (intro zdiv_mono1) (simp_all add: hi_def f_def)
  then show "Begin r < End r" by (simp add: eq)
qed

text \<open>The pieces of a byte range are exactly those that hold at least one of its bytes, once the
  range is clamped to the file, and they are pieces the torrent has.\<close>

theorem pieces_cover:
  assumes "geometry t" "0 \<le> file" "file < int (length (tor_files t))"
    and "clamp_off (tor_files t ! nat file) off + len \<le> max_i64"
    and "PieceRangeFor t file off len = Inr r"
    and "clamp_len (tor_files t ! nat file) off len > 0"
  defines "f \<equiv> tor_files t ! nat file"
  shows "(\<forall>i. Begin r \<le> i \<and> i < End r \<longleftrightarrow>
       touches t i (fi_Offset f + clamp_off f off) (fi_Offset f + clamp_off f off + clamp_len f off len)) \<and>
    0 \<le> Begin r \<and> Begin r < End r \<and> End r \<le> numPieces t"
proof -
  note p = geometryD(1) [OF assms(1)]
  note E = range_edges [OF assms(1-6), folded f_def]
  let ?lo = "fi_Offset f + clamp_off f off" and ?hi = "fi_Offset f + clamp_off f off + clamp_len f off len"
  have "Begin r \<le> i \<and> i < End r \<longleftrightarrow> touches t i ?lo ?hi" for i
  proof
    assume i: "Begin r \<le> i \<and> i < End r"
    have "(Begin r + 1) * pieceLength t \<le> (i + 1) * pieceLength t" using i p by (intro mult_right_mono) auto
    moreover have "i * pieceLength t \<le> (End r - 1) * pieceLength t" using i p by (intro mult_right_mono) auto
    ultimately show "touches t i ?lo ?hi" using E by (simp add: touches_def)
  next
    assume i: "touches t i ?lo ?hi"
    then have "Begin r * pieceLength t < (i + 1) * pieceLength t" "i * pieceLength t < End r * pieceLength t"
      using E by (auto simp: touches_def)
    with p show "Begin r \<le> i \<and> i < End r" by (simp add: mult_less_cancel_right)
  qed
  with E show ?thesis by blast
qed

definition demo_torrent :: TorrentState where
  "demo_torrent =
     \<lparr>tor_files = [\<lparr>fi_Index = 0, fi_Path = ''a.nfo'', fi_Length = 10, fi_Offset = 0\<rparr>,
                   \<lparr>fi_Index = 1, fi_Path = ''a.mkv'', fi_Length = 90, fi_Offset = 10\<rparr>],
      pieceLength = 16, numPieces = 7, tor_length = 100, claimedSeen = {}, claimedByte = 0,
      claimLog = (\<lambda>_. None), tor_calls = []\<rparr>"

lemma demo_geometry: "geometry demo_torrent"
  by (simp add: geometry_def demo_torrent_def max_i64_def)

lemma demo_range: "PieceRangeFor demo_torrent 1 20 30 = Inr \<lparr>Begin = 1, End = 4\<rparr>"
  by code_simp

theorem pieces_cover_witness:
  "touches demo_torrent 3 30 60 \<and> \<not> touches demo_torrent 4 30 60"
proof -
  have "\<forall>i. 1 \<le> i \<and> i < 4 \<longleftrightarrow> touches demo_torrent i 30 60"
    using pieces_cover [OF demo_geometry _ _ _ demo_range]
    by (simp add: demo_torrent_def clamp_off_def clamp_len_def max_i64_def)
  from this [rule_format, of 3] this [rule_format, of 4] show ?thesis by simp
qed

text \<open>Clipping the pieces of a claim to the bytes of its file covers what was asked for, stays
  inside the file, and asking for those bytes again gives the very same pieces.\<close>

theorem clip_expand_roundtrip:
  assumes g: "geometry t" and fl: "0 \<le> file" "file < int (length (tor_files t))"
    and fits: "clamp_off (tor_files t ! nat file) off + len \<le> max_i64"
    and r: "PieceRangeFor t file off len = Inr r"
    and some: "clamp_len (tor_files t ! nat file) off len > 0"
  defines "f \<equiv> tor_files t ! nat file"
  shows "\<exists>b e. fileBytesOf t file r = Some (b, e) \<and> 0 \<le> b \<and> b \<le> clamp_off f off \<and>
    clamp_off f off + clamp_len f off len \<le> e \<and> e \<le> fi_Length f \<and>
    PieceRangeFor t file b (e - b) = Inr r"
proof -
  note G = geometryD [OF g] and F = geometry_file [OF g fl, folded f_def]
  note E = range_edges [OF g fl fits r some, folded f_def]
  have some': "clamp_len f off len > 0" using some by (simp add: f_def)
  note C = clamp_bounds [OF F(2), of off len]
  define p where "p = pieceLength t"
  define B where "B = Begin r * p"
  define U where "U = End r * p"
  note E' = E [folded p_def]
  have U: "U \<le> numPieces t * p" unfolding U_def using E(7) G(1) by (intro mult_right_mono) (simp_all add: p_def)
  then have U2: "U < tor_length t + p" using numPieces_bounds(2) [OF g] by (simp add: p_def)
  have B: "0 \<le> B" "B \<le> fi_Offset f + clamp_off f off" "fi_Offset f + clamp_off f off < B + p"
    using E(5) E'(1,2) G(1) by (simp_all add: B_def p_def algebra_simps)
  have Uh: "U - p < fi_Offset f + clamp_off f off + clamp_len f off len"
    "fi_Offset f + clamp_off f off + clamp_len f off len \<le> U"
    using E'(3,4) by (simp_all add: U_def algebra_simps)
  let ?b = "max 0 (B - fi_Offset f)" and ?e = "min (fi_Length f) (U - fi_Offset f)"
  have w: "w64 B = B" "w64 U = U" "w64 (B - fi_Offset f) = B - fi_Offset f" "w64 (U - fi_Offset f) = U - fi_Offset f"
    using B Uh U2 G F C by (auto intro!: w64_id simp: min_i64_def max_i64_def p_def)
  have be: "?b \<le> clamp_off f off" "clamp_off f off + clamp_len f off len \<le> ?e" "?b < ?e"
    using B Uh C some' by auto
  have ifs: "(if B - fi_Offset f < 0 then 0 else B - fi_Offset f) = ?b"
    "(if U - fi_Offset f > fi_Length f then fi_Length f else U - fi_Offset f) = ?e"
    by (simp_all add: max_def min_def)
  have ne: "(?e \<le> ?b) = False" unfolding not_less [symmetric] eq_False not_not using be(3) .
  have "fi_Length f > 0" using C some' by linarith
  then have "fileBytesOf t file r = Some (?b, ?e)"
    using fl G(1)
    unfolding fileBytesOf_def Let_def f_def [symmetric] p_def [symmetric] B_def [symmetric]
      U_def [symmetric] w ifs ne by simp
  moreover have "PieceRangeFor t file ?b (?e - ?b) = Inr r"
  proof -
    define b where "b = ?b"
    define e where "e = ?e"
    have b: "0 \<le> b" "b \<le> clamp_off f off" "B \<le> fi_Offset f + b" "fi_Offset f + b < B + p"
      using be B F by (simp_all add: b_def)
    have e: "clamp_off f off + clamp_len f off len \<le> e" "e \<le> fi_Length f" "fi_Offset f + e \<le> U"
      "b < e" using be by (simp_all add: b_def e_def)
    have c: "clamp_off f b = b" "clamp_len f b (e - b) = e - b"
      using b e C by (simp_all add: clamp_off_def clamp_len_def)
    have "clamp_off f b + (e - b) \<le> max_i64" using c(1) e F G by linarith
    from PieceRangeFor_eq [OF g fl this [unfolded f_def], folded f_def]
    have eq: "PieceRangeFor t file b (e - b) =
        Inr \<lparr>Begin = (fi_Offset f + b) div p, End = (fi_Offset f + e - 1) div p + 1\<rparr>"
      using e(4) by (simp add: c p_def)
    have "(fi_Offset f + b) div p = Begin r"
      by (rule div_eqI) (use b G(1) in \<open>simp_all add: p_def B_def algebra_simps\<close>)
    moreover have "(fi_Offset f + e - 1) div p = End r - 1"
      by (rule div_eqI) (use e Uh(1) G(1) in \<open>simp_all add: p_def U_def algebra_simps\<close>)
    ultimately show ?thesis unfolding b_def [symmetric] e_def [symmetric] by (simp add: eq)
  qed
  ultimately show ?thesis
    using be(1,2) by (intro exI [of _ ?b] exI [of _ ?e]) (simp only: max.cobounded1 min.cobounded1 simp_thms)
qed

theorem clip_expand_roundtrip_witness:
  "fileBytesOf demo_torrent 1 \<lparr>Begin = 1, End = 4\<rparr> = Some (6, 54) \<and>
   PieceRangeFor demo_torrent 1 6 48 = Inr \<lparr>Begin = 1, End = 4\<rparr>"
proof -
  have "fileBytesOf demo_torrent 1 \<lparr>Begin = 1, End = 4\<rparr> = Some (6, 54)" by code_simp
  then show ?thesis
    using clip_expand_roundtrip [OF demo_geometry _ _ _ demo_range]
    by (simp add: demo_torrent_def clamp_off_def clamp_len_def max_i64_def)
qed

end
