(* ===== verification/Claims.thy ===== *)
theory Claims
  imports PieceLaws
begin

text \<open>
  What a run's claims add up to: any sequence of claims, releases and capture-point logs on one
  torrent. The claimed set is the union of the claimed ranges, its weight is counted once per piece,
  the reported ranges are that set, and a file's log holds what that file ordered while it was open.
\<close>

section \<open>Sequences of operations on one torrent\<close>

datatype claim_event =
    EStart int
  | EClaim int int int Profile
  | EEnd int
  | ERelease Window

fun claim_step :: "TorrentState \<Rightarrow> claim_event \<Rightarrow> TorrentState" where
  "claim_step t (EStart file) = StartClaimLog file t"
| "claim_step t (EClaim file off len p) = snd (Claim file off len p t)"
| "claim_step t (EEnd file) = snd (EndClaimLog file t)"
| "claim_step t (ERelease w) = snd (Window_Release (Some w) t)"

definition claim_run :: "TorrentState \<Rightarrow> claim_event list \<Rightarrow> TorrentState" where
  "claim_run t evs = foldl claim_step t evs"

text \<open>The fields no operation changes, and the ranges that are read from them alone.\<close>

definition same_layout :: "TorrentState \<Rightarrow> TorrentState \<Rightarrow> bool" where
  "same_layout t u \<longleftrightarrow> tor_files u = tor_files t \<and> pieceLength u = pieceLength t \<and>
     numPieces u = numPieces t \<and> tor_length u = tor_length t"

lemma same_layout_refl [simp]: "same_layout t t"
  by (simp add: same_layout_def)

lemma same_layout_trans: "same_layout t u \<Longrightarrow> same_layout u v \<Longrightarrow> same_layout t v"
  by (simp add: same_layout_def)

lemma same_layout_reads:
  assumes "same_layout t u"
  shows "geometry u = geometry t" "WindowFor u file off len p = WindowFor t file off len p"
    "fileBytesOf u file r = fileBytesOf t file r" "pieceBytes u = pieceBytes t"
proof -
  have e: "tor_files u = tor_files t" "pieceLength u = pieceLength t" "numPieces u = numPieces t"
    "tor_length u = tor_length t"
    using assms by (simp_all add: same_layout_def)
  show "geometry u = geometry t" unfolding geometry_def e ..
  show "WindowFor u file off len p = WindowFor t file off len p"
    unfolding WindowFor_def PieceRangeFor_def e ..
  show "fileBytesOf u file r = fileBytesOf t file r" unfolding fileBytesOf_def e ..
  show "pieceBytes u = pieceBytes t" by (rule ext) (simp only: pieceBytes_def e)
qed

lemma note_layout: "same_layout t (note_piece t i)"
  by (simp add: note_piece_def same_layout_def)

lemma notes_layout: "same_layout t (foldl note_piece t is)"
proof (induction "is" arbitrary: t)
  case (Cons i "is")
  show ?case using same_layout_trans [OF note_layout Cons] by simp
qed simp

lemma logClaim_fields:
  "same_layout t (logClaim file r t)" "claimedSeen (logClaim file r t) = claimedSeen t"
  "claimedByte (logClaim file r t) = claimedByte t"
  by (simp_all add: logClaim_def same_layout_def split: option.split)

lemma log_calls_fields [simp]:
  "same_layout t (log_calls cs t)" "claimedSeen (log_calls cs t) = claimedSeen t"
  "claimedByte (log_calls cs t) = claimedByte t" "claimLog (log_calls cs t) = claimLog t"
  by (simp_all add: log_calls_def same_layout_def)

lemma claim_step_layout: "same_layout t (claim_step t ev)"
proof (cases ev)
  case (EClaim fl off len p)
  have "same_layout t (logClaim fl r (noteClaimed r (log_calls cs t)))" for r cs
    unfolding noteClaimed_def
    by (rule same_layout_trans [OF same_layout_trans [OF log_calls_fields(1) notes_layout] logClaim_fields(1)])
  with EClaim show ?thesis by (simp add: Claim_def split: sum.split)
qed (auto simp: StartClaimLog_def EndClaimLog_def Window_Release_def same_layout_def log_calls_def)

lemma claim_run_layout: "same_layout t (claim_run t evs)"
  unfolding claim_run_def
proof (induction evs arbitrary: t)
  case (Cons ev evs)
  show ?case using same_layout_trans [OF claim_step_layout Cons] by simp
qed simp

section \<open>The claimed set and its weight\<close>

lemma piece_weight:
  assumes g: "geometry t" and i: "0 \<le> i" "i < numPieces t"
  shows "pieceBytes t i = min ((i + 1) * pieceLength t) (tor_length t) - i * pieceLength t"
    "0 < pieceBytes t i"
proof -
  note G = geometryD [OF g] and N = numPieces_bounds [OF g]
  let ?p = "pieceLength t" and ?n = "numPieces t" and ?l = "tor_length t"
  have n1: "(?n - 1) * ?p < ?l" using N(2) by (simp add: algebra_simps)
  have n2: "0 \<le> (?n - 1) * ?p" using i G(1) by simp
  have w: "w64 ((?n - 1) * ?p) = (?n - 1) * ?p" "w64 (?l - (?n - 1) * ?p) = ?l - (?n - 1) * ?p"
    using n1 n2 G by (simp_all add: w64_small)
  have "pieceBytes t i = min ((i + 1) * ?p) ?l - i * ?p \<and> 0 < pieceBytes t i"
  proof (cases "i = ?n - 1")
    case True
    define q where "q = (?n - 1) * ?p"
    have q: "i * ?p = q" using True by (simp add: q_def)
    have q1: "(i + 1) * ?p = q + ?p" by (simp only: distrib_right q mult_1)
    have n: "?l \<le> q + ?p" "q < ?l" using N(3) n1 by (simp_all add: q_def algebra_simps)
    have "pieceBytes t i = (if ?l - q > 0 \<and> ?l - q < ?p then ?l - q else ?p)"
      using True i G(1) by (simp add: pieceBytes_def Let_def w q_def)
    then show ?thesis using n G(1) unfolding q q1 by auto
  next
    case False
    then have "(i + 1) * ?p \<le> (?n - 1) * ?p" using i G(1) by (intro mult_right_mono) auto
    with n1 i G(1) False show ?thesis by (auto simp: pieceBytes_def min_def algebra_simps)
  qed
  then show "pieceBytes t i = min ((i + 1) * ?p) ?l - i * ?p" "0 < pieceBytes t i" by blast+
qed

lemma sum_pieces:
  assumes g: "geometry t"
  shows "int n \<le> numPieces t \<Longrightarrow> (\<Sum>i \<in> {0..<int n}. pieceBytes t i) = min (int n * pieceLength t) (tor_length t)"
proof (induction n)
  case 0
  then show ?case using geometryD(2) [OF g] by simp
next
  case (Suc n)
  have "{0..<int (Suc n)} = insert (int n) {0..<int n}" by auto
  then have "(\<Sum>i \<in> {0..<int (Suc n)}. pieceBytes t i)
      = pieceBytes t (int n) + min (int n * pieceLength t) (tor_length t)"
    using Suc by simp
  moreover have "int n * pieceLength t \<le> tor_length t"
  proof -
    have "int n * pieceLength t \<le> (numPieces t - 1) * pieceLength t"
      using Suc.prems geometryD(1) [OF g] by (intro mult_right_mono) auto
    then show ?thesis using numPieces_bounds(2) [OF g] by (simp add: algebra_simps)
  qed
  ultimately show ?case
    using piece_weight(1) [OF g, of "int n"] Suc.prems by (simp add: add.commute)
qed

text \<open>All the pieces together weigh what the torrent weighs.\<close>

lemma sum_all_pieces:
  assumes "geometry t"
  shows "(\<Sum>i \<in> {0..<numPieces t}. pieceBytes t i) = tor_length t"
  using sum_pieces [OF assms, of "nat (numPieces t)"] numPieces_bounds [OF assms] by simp

definition weight :: "TorrentState \<Rightarrow> int set \<Rightarrow> int" where
  "weight t A = (\<Sum>i \<in> A. pieceBytes t i)"

lemma weight_le:
  assumes g: "geometry t" and A: "A \<subseteq> {0..<numPieces t}"
  shows "0 \<le> weight t A \<and> weight t A \<le> tor_length t"
proof -
  have pos: "0 \<le> pieceBytes t i" if "i \<in> {0..<numPieces t}" for i
    using piece_weight(2) [OF g, of i] that by simp
  have "weight t A \<le> weight t {0..<numPieces t}"
    unfolding weight_def by (rule sum_mono2) (use A pos in auto)
  moreover have "0 \<le> weight t A" unfolding weight_def by (rule sum_nonneg) (use A pos in auto)
  ultimately show ?thesis using sum_all_pieces [OF g] by (simp add: weight_def)
qed

definition tally :: "TorrentState \<Rightarrow> bool" where
  "tally t \<longleftrightarrow> claimedSeen t \<subseteq> {0..<numPieces t} \<and> claimedByte t = weight t (claimedSeen t)"

lemma tally_finite: "tally t \<Longrightarrow> finite (claimedSeen t)"
  unfolding tally_def using finite_subset by blast

lemma note_tally:
  assumes g: "geometry t" and inv: "tally t" and i: "0 \<le> i" "i < numPieces t"
  shows "tally (note_piece t i) \<and> claimedSeen (note_piece t i) = insert i (claimedSeen t)"
proof (cases "i \<in> claimedSeen t")
  case True
  with inv show ?thesis by (auto simp: note_piece_def)
next
  case False
  let ?A = "insert i (claimedSeen t)"
  have sub: "?A \<subseteq> {0..<numPieces t}" using inv i by (auto simp: tally_def)
  have "weight t ?A = weight t (claimedSeen t) + pieceBytes t i"
    using False tally_finite [OF inv] by (simp add: weight_def)
  with weight_le [OF g sub] geometryD [OF g] inv
  have "w64 (claimedByte t + pieceBytes t i) = weight t ?A"
    by (simp add: tally_def w64_small)
  moreover have "weight (note_piece t i) = weight t"
    using same_layout_reads(4) [OF note_layout] by (simp add: weight_def fun_eq_iff)
  ultimately show ?thesis
    using False sub note_layout [of t i]
    by (auto simp: tally_def same_layout_def) (auto simp: note_piece_def)
qed

lemma notes_tally:
  assumes "geometry t" "tally t" "\<forall>i \<in> set is. 0 \<le> i \<and> i < numPieces t"
  shows "tally (foldl note_piece t is) \<and> claimedSeen (foldl note_piece t is) = claimedSeen t \<union> set is"
  using assms
proof (induction "is" arbitrary: t)
  case (Cons i "is")
  have one: "tally (note_piece t i)" "claimedSeen (note_piece t i) = insert i (claimedSeen t)"
    using note_tally Cons.prems by auto
  have "geometry (note_piece t i)" "\<forall>j \<in> set is. 0 \<le> j \<and> j < numPieces (note_piece t i)"
    using Cons.prems same_layout_reads(1) [OF note_layout] note_layout [of t i]
    by (auto simp: same_layout_def)
  from Cons.IH [OF this(1) one(1) this(2)] one(2) show ?case by auto
qed simp

text \<open>The pieces one event orders.\<close>

fun ordered :: "TorrentState \<Rightarrow> claim_event \<Rightarrow> int set" where
  "ordered t (EClaim file off len p) =
     (case WindowFor t file off len p of Inl e \<Rightarrow> {} | Inr r \<Rightarrow> {Begin r..<End r})"
| "ordered t ev = {}"

lemma WindowFor_bounds:
  "geometry t \<Longrightarrow> WindowFor t file off len p = Inr r \<Longrightarrow> 0 \<le> Begin r \<and> End r \<le> numPieces t"
  unfolding WindowFor_def Let_def by (rule PieceRangeFor_bounds)

lemma tally_cong:
  "same_layout t u \<Longrightarrow> claimedSeen u = claimedSeen t \<Longrightarrow> claimedByte u = claimedByte t \<Longrightarrow> tally u = tally t"
  using same_layout_reads(4) [of t u] by (simp add: tally_def weight_def same_layout_def)

lemma claim_step_tally:
  assumes g: "geometry t" and inv: "tally t"
  shows "tally (claim_step t ev) \<and> claimedSeen (claim_step t ev) = claimedSeen t \<union> ordered t ev"
proof (cases ev)
  case (EClaim fl off len p)
  show ?thesis
  proof (cases "WindowFor t fl off len p")
    case (Inl e)
    with EClaim inv show ?thesis by (simp add: Claim_def)
  next
    case (Inr r)
    let ?c = "log_calls (DownloadPieces (Begin r) (End r) # map PriorityNow [Begin r..End r - 1]) t"
    have c: "geometry ?c" "tally ?c"
      using g inv same_layout_reads(1) [OF log_calls_fields(1)] tally_cong [OF log_calls_fields(1)] by simp_all
    have "\<forall>i \<in> set [Begin r..End r - 1]. 0 \<le> i \<and> i < numPieces ?c"
      using WindowFor_bounds [OF g Inr] by (auto simp: log_calls_def)
    from notes_tally [OF c this]
    have "tally (noteClaimed r ?c) \<and> claimedSeen (noteClaimed r ?c) = claimedSeen t \<union> {Begin r..<End r}"
      by (auto simp: noteClaimed_def)
    moreover have "claim_step t ev = logClaim fl r (noteClaimed r ?c)"
      using EClaim Inr by (simp add: Claim_def)
    ultimately show ?thesis
      using EClaim Inr tally_cong [OF logClaim_fields] by (simp add: logClaim_fields(2))
  qed
next
  case (EStart fl)
  have "tally (claim_step t ev) = tally t"
    by (rule tally_cong [OF claim_step_layout]) (simp_all add: EStart StartClaimLog_def)
  with EStart inv show ?thesis by (simp add: StartClaimLog_def)
next
  case (EEnd fl)
  have "tally (claim_step t ev) = tally t"
    by (rule tally_cong [OF claim_step_layout]) (simp_all add: EEnd EndClaimLog_def)
  with EEnd inv show ?thesis by (simp add: EndClaimLog_def)
next
  case (ERelease w)
  have "tally (claim_step t ev) = tally t"
    by (rule tally_cong [OF claim_step_layout]) (simp_all add: ERelease Window_Release_def)
  with ERelease inv show ?thesis by (simp add: Window_Release_def)
qed

lemma ordered_layout: "same_layout t u \<Longrightarrow> ordered u ev = ordered t ev"
  using same_layout_reads(2) by (cases ev) simp_all

lemma claim_run_tally:
  assumes g: "geometry t" and inv: "tally t"
  shows "tally (claim_run t evs) \<and> claimedSeen (claim_run t evs) = claimedSeen t \<union> (\<Union>ev \<in> set evs. ordered t ev)"
proof (induction evs rule: rev_induct)
  case Nil
  with inv show ?case by (simp add: claim_run_def)
next
  case (snoc ev evs)
  let ?u = "claim_run t evs"
  have l: "same_layout t ?u" by (rule claim_run_layout)
  have "tally (claim_step ?u ev) \<and> claimedSeen (claim_step ?u ev) = claimedSeen ?u \<union> ordered ?u ev"
    using claim_step_tally same_layout_reads(1) [OF l] g snoc by blast
  with snoc ordered_layout [OF l, of ev] show ?case by (auto simp: claim_run_def)
qed

section \<open>The ranges reported\<close>

definition ascending :: "PieceRange list \<Rightarrow> bool" where
  "ascending rs \<longleftrightarrow> (\<forall>r \<in> set rs. Begin r < End r) \<and> sorted_wrt (\<lambda>a b. End a < Begin b) rs"

lemma join_pieces_spec:
  assumes "Begin r < End r" "sorted_wrt (<) is" "\<forall>i \<in> set is. End r \<le> i"
  shows "ascending (join_pieces r is) \<and>
    (\<Union>q \<in> set (join_pieces r is). {Begin q..<End q}) = {Begin r..<End r} \<union> set is \<and>
    sum_list (map PieceRange_Len (join_pieces r is)) = PieceRange_Len r + int (length is) \<and>
    (\<forall>q \<in> set (join_pieces r is). Begin r \<le> Begin q)"
  using assms
proof (induction r "is" rule: join_pieces.induct)
  case (1 r)
  then show ?case by (simp add: ascending_def)
next
  case (2 r i "is")
  show ?case
  proof (cases "i = End r")
    case True
    let ?r = "r\<lparr>End := End r + 1\<rparr>"
    have "Begin ?r < End ?r" "sorted_wrt (<) is" "\<forall>j \<in> set is. End ?r \<le> j"
      using "2.prems" True by auto
    note IH = "2.IH"(1) [OF True this]
    have "{Begin ?r..<End ?r} = insert i {Begin r..<End r}" using "2.prems"(1) True by auto
    with IH True show ?thesis by (simp add: PieceRange_Len_def)
  next
    case False
    let ?q = "\<lparr>Begin = i, End = i + 1\<rparr>"
    have "Begin ?q < End ?q" "sorted_wrt (<) is" "\<forall>j \<in> set is. End ?q \<le> j"
      using "2.prems" by auto
    note IH = "2.IH"(2) [OF False this]
    have "End r < i" using "2.prems" False by auto
    then have "\<forall>q \<in> set (join_pieces ?q is). End r < Begin q" using IH by auto
    with IH "2.prems"(1) False have "ascending (join_pieces r (i # is))"
      by (auto simp: ascending_def)
    moreover have "{Begin ?q..<End ?q} = {i}" by auto
    moreover have "\<forall>q \<in> set (join_pieces r (i # is)). Begin r \<le> Begin q"
      using IH False \<open>End r < i\<close> "2.prems"(1) by auto
    ultimately show ?thesis using IH False by (auto simp: PieceRange_Len_def)
  qed
qed

lemma ClaimedRanges_spec:
  assumes "finite (claimedSeen t)"
  shows "ascending (ClaimedRanges t) \<and>
    (\<Union>q \<in> set (ClaimedRanges t). {Begin q..<End q}) = claimedSeen t \<and>
    sum_list (map PieceRange_Len (ClaimedRanges t)) = int (card (claimedSeen t))"
proof (cases "sorted_list_of_set (claimedSeen t)")
  case Nil
  with assms show ?thesis by (simp add: ClaimedRanges_def ascending_def)
next
  case (Cons i "is")
  have s: "sorted_wrt (<) (i # is)" and st: "set (i # is) = claimedSeen t" and
    len: "length (i # is) = card (claimedSeen t)"
    using strict_sorted_list_of_set [of "claimedSeen t"] assms set_sorted_list_of_set [OF assms]
      length_sorted_list_of_set [of "claimedSeen t"] Cons by simp_all
  have "{Begin \<lparr>Begin = i, End = i + 1\<rparr>..<End \<lparr>Begin = i, End = i + 1\<rparr>} = {i}" by auto
  moreover have "sorted_wrt (<) is" "\<forall>j \<in> set is. i + 1 \<le> j" using s by auto
  ultimately show ?thesis
    using join_pieces_spec [of "\<lparr>Begin = i, End = i + 1\<rparr>" "is"] st len
    by (simp add: ClaimedRanges_def Cons PieceRange_Len_def)
qed

definition fresh_torrent :: "TorrentState \<Rightarrow> bool" where
  "fresh_torrent t \<longleftrightarrow> geometry t \<and> claimedSeen t = {} \<and> claimedByte t = 0 \<and> claimLog t = (\<lambda>_. None)"

text \<open>C20: After any sequence of claims, releases and capture-point logs, the claimed figure is the
  number and the weight of the pieces ordered at least once: re-ordering a piece or releasing a window
  changes nothing, pieces weigh what they hold, and the total never exceeds the torrent.\<close>

theorem claimed_exact:
  assumes "fresh_torrent t"
  shows "claimedSeen (claim_run t evs) = (\<Union>ev \<in> set evs. ordered t ev) \<and>
    Claimed (claim_run t evs) = (card (\<Union>ev \<in> set evs. ordered t ev),
      \<Sum>i \<in> (\<Union>ev \<in> set evs. ordered t ev). min ((i + 1) * pieceLength t) (tor_length t) - i * pieceLength t) \<and>
    snd (Claimed (claim_run t evs)) \<le> tor_length t"
proof -
  have g: "geometry t" and inv: "tally t"
    using assms by (simp_all add: fresh_torrent_def tally_def weight_def)
  let ?A = "\<Union>ev \<in> set evs. ordered t ev"
  note run = claim_run_tally [OF g inv, of evs]
  note l = claim_run_layout [of t evs]
  have seen: "claimedSeen (claim_run t evs) = ?A" using run assms by (simp add: fresh_torrent_def)
  have sub: "?A \<subseteq> {0..<numPieces t}" using run seen l by (simp add: tally_def same_layout_def)
  have "claimedByte (claim_run t evs) = weight t ?A"
    using run seen same_layout_reads(4) [OF l] by (simp add: tally_def weight_def)
  moreover have "weight t ?A = (\<Sum>i \<in> ?A. min ((i + 1) * pieceLength t) (tor_length t) - i * pieceLength t)"
    unfolding weight_def by (rule sum.cong [OF refl]) (use sub piece_weight(1) [OF g] in auto)
  ultimately show ?thesis using seen weight_le [OF g sub] by (simp add: Claimed_def)
qed

definition demo_claims :: "claim_event list" where
  "demo_claims =
     [EStart 1, EClaim 1 20 30 MinTraffic, EStart 0, EClaim 0 0 4 MinTraffic,
      ERelease \<lparr>win_pieces = \<lparr>Begin = 0, End = 7\<rparr>, win_released = False\<rparr>, EClaim 1 85 5 MinTraffic]"

lemma demo_fresh: "fresh_torrent demo_torrent"
  using demo_geometry by (simp add: fresh_torrent_def demo_torrent_def)

theorem claimed_exact_witness:
  "Claimed (claim_run demo_torrent demo_claims) = (7, 100)"
proof -
  have "(\<Union>ev \<in> set demo_claims. ordered demo_torrent ev) = {0..<7}" by code_simp
  then show ?thesis
    using claimed_exact [OF demo_fresh, of demo_claims] by (simp add: demo_torrent_def) code_simp
qed

text \<open>The claimed ranges are ascending, non-empty and do not touch, they are exactly the claimed
  pieces, and their lengths add up to the claimed count.\<close>

theorem claimed_ranges_exact:
  assumes "fresh_torrent t"
  shows "ascending (ClaimedRanges (claim_run t evs)) \<and>
    (\<Union>r \<in> set (ClaimedRanges (claim_run t evs)). {Begin r..<End r}) = (\<Union>ev \<in> set evs. ordered t ev) \<and>
    sum_list (map PieceRange_Len (ClaimedRanges (claim_run t evs))) = int (fst (Claimed (claim_run t evs)))"
proof -
  have g: "geometry t" and inv: "tally t"
    using assms by (simp_all add: fresh_torrent_def tally_def weight_def)
  note run = claim_run_tally [OF g inv, of evs]
  from ClaimedRanges_spec [OF tally_finite [OF conjunct1 [OF run]]] run assms show ?thesis
    by (simp add: fresh_torrent_def Claimed_def)
qed

theorem claimed_ranges_exact_witness:
  "sum_list (map PieceRange_Len (ClaimedRanges (claim_run demo_torrent demo_claims))) = 7"
proof -
  have "fst (Claimed (claim_run demo_torrent demo_claims)) = 7" by code_simp
  then show ?thesis using claimed_ranges_exact [OF demo_fresh, of demo_claims] by simp
qed

section \<open>Capture-point logs\<close>

definition disjoint_spans :: "(int \<times> int) list \<Rightarrow> bool" where
  "disjoint_spans xs \<longleftrightarrow> (\<forall>(a, b) \<in> set xs. a < b) \<and> sorted_wrt (\<lambda>(a, b) (c, d). b < c) xs"

definition span_bytes :: "(int \<times> int) list \<Rightarrow> int set" where
  "span_bytes xs = (\<Union>(a, b) \<in> set xs. {a..<b})"

lemma merge_spans_spec:
  assumes "fst s < snd s" "\<forall>(a, b) \<in> set xs. a < b" "sorted (s # xs)"
  shows "disjoint_spans (merge_spans s xs) \<and> span_bytes (merge_spans s xs) = span_bytes (s # xs) \<and>
    (\<forall>(a, b) \<in> set (merge_spans s xs). fst s \<le> a)"
  using assms
proof (induction s xs rule: merge_spans.induct)
  case (1 s)
  then show ?case by (cases s) (simp add: disjoint_spans_def)
next
  case (2 a b c d rest)
  have ac: "a \<le> c" and cd: "c < d" using "2.prems" by (auto simp: less_eq_prod_def)
  show ?case
  proof (cases "c \<le> b")
    case True
    let ?s = "(a, if d > b then d else b)"
    have "sorted (?s # rest)"
    proof -
      have "?s \<le> x" if x: "x \<in> set rest" for x
      proof -
        obtain u v where uv: "x = (u, v)" by fastforce
        from x "2.prems"(3) uv have "(c, d) \<le> (u, v)" "(a, b) \<le> (u, v)" by auto
        with uv ac show ?thesis by (auto simp: less_eq_prod_def)
      qed
      with "2.prems"(3) show ?thesis by simp
    qed
    moreover have "fst ?s < snd ?s" "\<forall>(a, b) \<in> set rest. a < b" using "2.prems" by auto
    ultimately have IH: "disjoint_spans (merge_spans ?s rest) \<and>
        span_bytes (merge_spans ?s rest) = span_bytes (?s # rest) \<and>
        (\<forall>(u, v) \<in> set (merge_spans ?s rest). a \<le> u)"
      using "2.IH"(1) [OF True] by simp
    have "{a..<if d > b then d else b} = {a..<b} \<union> {c..<d}" using True ac cd by auto
    with IH True show ?thesis by (auto simp: span_bytes_def)
  next
    case False
    have "sorted ((c, d) # rest)" "\<forall>(a, b) \<in> set rest. a < b" using "2.prems" by auto
    then have IH: "disjoint_spans (merge_spans (c, d) rest) \<and>
        span_bytes (merge_spans (c, d) rest) = span_bytes ((c, d) # rest) \<and>
        (\<forall>(u, v) \<in> set (merge_spans (c, d) rest). c \<le> u)"
      using "2.IH"(2) [OF False] cd by simp
    with False "2.prems"(1) ac show ?thesis
      by (auto simp: disjoint_spans_def span_bytes_def)
  qed
qed

lemma coalesceSpans_spec:
  assumes "\<forall>(a, b) \<in> set xs. a < b"
  shows "disjoint_spans (coalesceSpans xs) \<and> span_bytes (coalesceSpans xs) = span_bytes xs"
proof (cases "sort xs")
  case Nil
  then have "xs = []" by (metis length_0_conv length_sort)
  then show ?thesis by (simp add: coalesceSpans_def disjoint_spans_def span_bytes_def)
next
  case (Cons s rest)
  have st: "set (s # rest) = set xs" using Cons set_sort by metis
  have "sorted (s # rest)" using Cons sorted_sort by metis
  moreover have "fst s < snd s" "\<forall>(a, b) \<in> set rest. a < b" using assms st by (auto simp: case_prod_beta)
  ultimately have "disjoint_spans (merge_spans s rest) \<and> span_bytes (merge_spans s rest) = span_bytes (s # rest)"
    using merge_spans_spec by blast
  with st Cons show ?thesis by (simp add: coalesceSpans_def span_bytes_def)
qed

text \<open>What one event adds to an open log of a file.\<close>

fun logged :: "TorrentState \<Rightarrow> int \<Rightarrow> claim_event \<Rightarrow> (int \<times> int) list" where
  "logged t f (EClaim file off len p) =
     (if file = f
      then (case WindowFor t file off len p of
              Inl e \<Rightarrow> []
            | Inr r \<Rightarrow> (case fileBytesOf t file r of None \<Rightarrow> [] | Some s \<Rightarrow> [s]))
      else [])"
| "logged t f ev = []"

fun keeps_log :: "int \<Rightarrow> claim_event \<Rightarrow> bool" where
  "keeps_log f (EStart file) \<longleftrightarrow> file \<noteq> f"
| "keeps_log f (EEnd file) \<longleftrightarrow> file \<noteq> f"
| "keeps_log f ev \<longleftrightarrow> True"

lemma notes_log: "claimLog (foldl note_piece t is) = claimLog t"
  by (induction "is" arbitrary: t) (simp_all add: note_piece_def)

lemma claim_step_log:
  assumes "claimLog t f = Some spans" "keeps_log f ev"
  shows "claimLog (claim_step t ev) f = Some (spans @ logged t f ev)"
proof (cases ev)
  case (EClaim fl off len p)
  show ?thesis
  proof (cases "WindowFor t fl off len p")
    case (Inl e)
    with EClaim assms show ?thesis by (auto simp: Claim_def)
  next
    case (Inr r)
    let ?u = "noteClaimed r (log_calls (DownloadPieces (Begin r) (End r) # map PriorityNow [Begin r..End r - 1]) t)"
    have l: "same_layout t ?u"
      unfolding noteClaimed_def by (rule same_layout_trans [OF log_calls_fields(1) notes_layout])
    have u: "claimLog ?u = claimLog t" by (simp add: noteClaimed_def notes_log)
    have "claim_step t ev = logClaim fl r ?u" using EClaim Inr by (simp add: Claim_def)
    with u EClaim Inr assms(1) same_layout_reads(3) [OF l] show ?thesis
      by (auto simp: logClaim_def split: option.split)
  qed
qed (use assms in \<open>auto simp: StartClaimLog_def EndClaimLog_def Window_Release_def\<close>)

lemma logged_layout: "same_layout t u \<Longrightarrow> logged u f ev = logged t f ev"
  using same_layout_reads(2,3) by (cases ev) (simp_all split: sum.split)

lemma claim_run_log:
  assumes "claimLog t f = Some spans" "list_all (keeps_log f) evs"
  shows "claimLog (claim_run t evs) f = Some (spans @ concat (map (logged t f) evs))"
  using assms(2)
proof (induction evs rule: rev_induct)
  case Nil
  with assms(1) show ?case by (simp add: claim_run_def)
next
  case (snoc ev evs)
  then have "claimLog (claim_step (claim_run t evs) ev) f =
      Some (spans @ concat (map (logged t f) evs) @ logged (claim_run t evs) f ev)"
    using claim_step_log by auto
  with logged_layout [OF claim_run_layout] show ?case by (simp add: claim_run_def)
qed

lemma fileBytesOf_proper: "fileBytesOf t file r = Some (a, b) \<Longrightarrow> a < b"
  by (auto simp: fileBytesOf_def Let_def split: if_splits)

lemma logged_proper:
  assumes "(a, b) \<in> set (logged t f ev)"
  shows "a < b"
proof (cases ev)
  case (EClaim fl off len p)
  show ?thesis
  proof (cases "WindowFor t fl off len p")
    case (Inr r)
    with EClaim assms have "fileBytesOf t fl r = Some (a, b)"
      by (cases "fl = f"; cases "fileBytesOf t fl r") auto
    then show ?thesis by (rule fileBytesOf_proper)
  qed (use EClaim assms in \<open>cases "fl = f"; simp\<close>)
qed (use assms in simp_all)

text \<open>Closing a file's log reports non-empty ascending ranges that do not touch, covering exactly
  the bytes of that file ordered since the log was opened, whatever was ordered before, ordered from
  other files, released, or logged for other files meanwhile; the log is then closed.\<close>

theorem claim_log_exact:
  assumes "list_all (keeps_log f) evs"
    and "EndClaimLog f (claim_run (StartClaimLog f t) evs) = (spans, t')"
  shows "disjoint_spans spans \<and>
    span_bytes spans = (\<Union>ev \<in> set evs. span_bytes (logged t f ev)) \<and>
    fst (EndClaimLog f t') = []"
proof -
  let ?s = "StartClaimLog f t"
  have "same_layout t ?s" using claim_step_layout [of t "EStart f"] by simp
  then have "logged ?s f = logged t f" using logged_layout by blast
  moreover have "claimLog ?s f = Some []" by (simp add: StartClaimLog_def)
  ultimately have log: "claimLog (claim_run ?s evs) f = Some (concat (map (logged t f) evs))"
    using claim_run_log [OF _ assms(1), of ?s "[]"] by simp
  then have spans: "spans = coalesceSpans (concat (map (logged t f) evs))"
    and t': "t' = (claim_run ?s evs)\<lparr>claimLog := (claimLog (claim_run ?s evs))(f := None)\<rparr>"
    using assms(2) by (auto simp: EndClaimLog_def)
  have "\<forall>(a, b) \<in> set (concat (map (logged t f) evs)). a < b" using logged_proper by fastforce
  from coalesceSpans_spec [OF this]
  have "disjoint_spans spans" "span_bytes spans = span_bytes (concat (map (logged t f) evs))"
    by (simp_all add: spans)
  moreover have "span_bytes (concat (map (logged t f) evs)) = (\<Union>ev \<in> set evs. span_bytes (logged t f ev))"
    by (auto simp: span_bytes_def)
  ultimately show ?thesis by (simp add: t' EndClaimLog_def)
qed

theorem claim_log_exact_witness:
  "disjoint_spans (fst (EndClaimLog 1 (claim_run (StartClaimLog 1 demo_torrent) (tl demo_claims))))"
proof -
  have "list_all (keeps_log 1) (tl demo_claims)" by (simp add: demo_claims_def)
  from claim_log_exact [OF this] show ?thesis by (metis prod.collapse)
qed

lemma notes_calls: "tor_calls (foldl note_piece u is) = tor_calls u"
  by (induction "is" arbitrary: u) (simp_all add: note_piece_def)

lemma logClaim_calls: "tor_calls (logClaim file r u) = tor_calls u"
  by (simp add: logClaim_def split: option.split)

lemma window_calls:
  assumes "Claim file off len p t = (Inr w, t1)" "Window_Release (Some w) t1 = (w', t2)"
  shows "tor_calls t1 = tor_calls t @ DownloadPieces (Begin (win_pieces w)) (End (win_pieces w)) #
      map PriorityNow [Begin (win_pieces w)..End (win_pieces w) - 1]"
    and "tor_calls t2 = tor_calls t1 @ map PriorityNone [Begin (win_pieces w)..End (win_pieces w) - 1] @
      [CancelPieces (Begin (win_pieces w)) (End (win_pieces w))]"
    and "Window_Release w' t2 = (w', t2)" "Claimed t2 = Claimed t1"
  using assms
  by (auto simp: Claim_def Window_Release_def notes_calls logClaim_calls noteClaimed_def log_calls_def
      Claimed_def split: sum.splits)

text \<open>A claim orders every piece of its window at once and releasing it withdraws exactly those
  orders, once: a second release makes no call, and no release changes what the run has claimed.\<close>

theorem window_release_once:
  assumes "Claim file off len p t = (Inr w, t1)" "Window_Release (Some w) t1 = (w', t2)"
  shows "tor_calls t1 = tor_calls t @ DownloadPieces (Begin (win_pieces w)) (End (win_pieces w)) #
      map PriorityNow [Begin (win_pieces w)..End (win_pieces w) - 1] \<and>
    tor_calls t2 = tor_calls t1 @ map PriorityNone [Begin (win_pieces w)..End (win_pieces w) - 1] @
      [CancelPieces (Begin (win_pieces w)) (End (win_pieces w))] \<and>
    Window_Release w' t2 = (w', t2) \<and> Claimed t2 = Claimed t1"
  using window_calls [OF assms] by simp

theorem window_release_once_witness:
  "Claimed (snd (Window_Release (Some \<lparr>win_pieces = \<lparr>Begin = 1, End = 7\<rparr>, win_released = False\<rparr>)
     (snd (Claim 1 20 30 MinTraffic demo_torrent)))) = Claimed (snd (Claim 1 20 30 MinTraffic demo_torrent))"
proof -
  let ?w = "\<lparr>win_pieces = \<lparr>Begin = 1, End = 7\<rparr>, win_released = False\<rparr>"
  have "fst (Claim 1 20 30 MinTraffic demo_torrent) = Inr ?w" by code_simp
  then have "Claim 1 20 30 MinTraffic demo_torrent = (Inr ?w, snd (Claim 1 20 30 MinTraffic demo_torrent))"
    by (metis prod.collapse)
  from window_release_once [OF this] show ?thesis by (metis prod.collapse)
qed

end
