(* ===== verification/Bridge.thy ===== *)
theory Bridge
  imports Claims
begin

text \<open>
  \<^verbatim>\<open>internal/bridge\<close>: the local HTTP server that lets ffmpeg read a torrent file by
  byte ranges. \<open>parseRange\<close> resolves a Range header, \<open>serve\<close> is the handler,
  \<open>Publish\<close> and its undo maintain the table of published files, \<open>noteStall\<close> the record
  of reads that timed out, and \<open>Content_Fetch\<close> the claim a request turns into.

  The network is the argument \<open>Outcome\<close> of a request: whether the content's Fetch failed,
  how many bytes its body delivered, and whether the request's deadline passed. The publication token
  is random in the source and an argument here.
\<close>

section \<open>Ranges\<close>

record byteRange =
  Start :: int
  Length :: int

definition byteRange_End :: "byteRange \<Rightarrow> int" where
  "byteRange_End r = Start r + Length r - 1"

definition contentRange :: "byteRange \<Rightarrow> int \<Rightarrow> string" where
  "contentRange r sz =
     ''bytes '' @ Itoa (Start r) @ ''-'' @ Itoa (byteRange_End r) @ ''/'' @ Itoa sz"

datatype range_error =
    UnsupportedUnit
  | MultipleRanges
  | MalformedRange
  | MalformedSuffix
  | MalformedStart
  | MalformedEnd
  | errUnsatisfiable

definition parseRange :: "string \<Rightarrow> int \<Rightarrow> (range_error, byteRange) result" where
  "parseRange header sz =
     (case CutPrefix (TrimSpace header) ''bytes='' of (spec, ok) \<Rightarrow>
       if \<not> ok then Inl UnsupportedUnit
       else if Contains spec '','' then Inl MultipleRanges
       else (case Cut (TrimSpace spec) (CHR ''-'') of (first0, final0, ok) \<Rightarrow>
         if \<not> ok then Inl MalformedRange
         else
           let first = TrimSpace first0; final = TrimSpace final0 in
           if first = [] then
             if final = [] then Inl MalformedRange
             else (case ParseInt final of
                     None \<Rightarrow> Inl MalformedSuffix
                   | Some n \<Rightarrow>
                       if n < 0 then Inl MalformedSuffix
                       else if n = 0 then Inl errUnsatisfiable
                       else (let n = (if n > sz then sz else n)
                             in Inr \<lparr>Start = sz - n, Length = n\<rparr>))
           else (case ParseInt first of
                   None \<Rightarrow> Inl MalformedStart
                 | Some start \<Rightarrow>
                     if start < 0 then Inl MalformedStart
                     else if start \<ge> sz then Inl errUnsatisfiable
                     else if final = [] then Inr \<lparr>Start = start, Length = sz - start\<rparr>
                     else (case ParseInt final of
                             None \<Rightarrow> Inl MalformedEnd
                           | Some stop \<Rightarrow>
                               if stop < start then Inl MalformedEnd
                               else (let stop = (if stop \<ge> sz then sz - 1 else stop)
                                     in Inr \<lparr>Start = start, Length = stop - start + 1\<rparr>)))))"

section \<open>Publications and the handler\<close>

record StallError =
  st_Off :: int
  st_Length :: int
  st_Delivered :: int
  st_Timeout :: int
  st_Elapsed :: int

text \<open>A content is what the interface answers: the length of a file, if it has one, and its name.\<close>

record Content =
  content_Length :: "int \<Rightarrow> int option"
  content_Name :: "int \<Rightarrow> string"

record publication =
  pub_content :: Content
  pub_file :: int
  stalls :: nat
  pub_last :: "StallError option"

record Bridge =
  RequestTimeout :: int
  baseURL :: string
  published :: "string \<Rightarrow> publication option"

definition noteStall_pub :: "StallError \<Rightarrow> publication \<Rightarrow> publication" where
  "noteStall_pub err p = p\<lparr>stalls := stalls p + 1, pub_last := Some err\<rparr>"

definition Start_timeout :: "int \<Rightarrow> int" where
  "Start_timeout timeout = (if timeout \<le> 0 then 60 * 10 ^ 9 else timeout)"

definition Publish :: "Content \<Rightarrow> int \<Rightarrow> string \<Rightarrow> Bridge \<Rightarrow> string option \<times> Bridge" where
  "Publish c file token b =
     (case content_Length c file of
        None \<Rightarrow> (None, b)
      | Some n \<Rightarrow>
          (Some (baseURL b @ ''/'' @ token @ ''/'' @ path_Base (content_Name c file)),
           b\<lparr>published := (published b)(token \<mapsto>
               \<lparr>pub_content = c, pub_file = file, stalls = 0, pub_last = None\<rparr>)\<rparr>))"

definition Unpublish :: "string \<Rightarrow> Bridge \<Rightarrow> Bridge" where
  "Unpublish token b = b\<lparr>published := (published b)(token := None)\<rparr>"

definition Stalls :: "string \<Rightarrow> Bridge \<Rightarrow> nat \<times> StallError option" where
  "Stalls url b =
     (case CutPrefix url (baseURL b @ ''/'') of (rest, ok) \<Rightarrow>
       if \<not> ok then (0, None)
       else (case Cut rest (CHR ''/'') of (token, t) \<Rightarrow>
         (case published b token of None \<Rightarrow> (0, None) | Some p \<Rightarrow> (stalls p, pub_last p))))"

datatype http_method = GET | HEAD | OtherMethod

record Request =
  rq_method :: http_method
  rq_path :: string
  rq_range :: string

record Outcome =
  fetch_failed :: bool
  body_bytes :: int
  deadline :: bool
  elapsed :: int

datatype reply =
    MethodNotAllowed
  | NotFound
  | ServerError
  | RangeNotSatisfiable int
  | BadRequest range_error
  | Answer bool byteRange int "int option"

text \<open>\<open>Answer partial rng sz body\<close>: a 206 when partial, else a 200, with the headers of
  \<open>rng\<close>; \<open>body\<close> is how many bytes were sent from its start, \<open>None\<close> when no
  fetch was made.\<close>

definition noteStall :: "Outcome \<Rightarrow> string \<Rightarrow> byteRange \<Rightarrow> int \<Rightarrow> Bridge \<Rightarrow> Bridge" where
  "noteStall oc token rng sent b =
     (if sent \<ge> Length rng \<or> \<not> deadline oc then b
      else (case published b token of
              None \<Rightarrow> b
            | Some p \<Rightarrow>
                b\<lparr>published := (published b)(token \<mapsto> noteStall_pub
                    \<lparr>st_Off = Start rng, st_Length = Length rng, st_Delivered = sent,
                     st_Timeout = RequestTimeout b, st_Elapsed = elapsed oc\<rparr> p)\<rparr>))"

definition serve :: "Request \<Rightarrow> Outcome \<Rightarrow> Bridge \<Rightarrow> reply \<times> Bridge" where
  "serve r oc b =
     (if rq_method r = OtherMethod then (MethodNotAllowed, b)
      else (case Cut (fst (CutPrefix (rq_path r) ''/'')) (CHR ''/'') of (token, t) \<Rightarrow>
        (case published b token of
           None \<Rightarrow> (NotFound, b)
         | Some p \<Rightarrow>
           (case content_Length (pub_content p) (pub_file p) of
              None \<Rightarrow> (ServerError, b)
            | Some sz \<Rightarrow>
              (case (if rq_range r = [] then Inr (\<lparr>Start = 0, Length = sz\<rparr>, False)
                     else bind_result (parseRange (rq_range r) sz) (\<lambda>s. Inr (s, True))) of
                 Inl e \<Rightarrow> (if e = errUnsatisfiable then RangeNotSatisfiable sz else BadRequest e, b)
               | Inr (rng, partial) \<Rightarrow>
                   if rq_method r = HEAD \<or> Length rng = 0 then (Answer partial rng sz None, b)
                   else if fetch_failed oc then
                     (Answer partial rng sz (Some 0), noteStall oc token rng 0 b)
                   else (Answer partial rng sz (Some (body_bytes oc)),
                         noteStall oc token rng (body_bytes oc) b))))))"

section \<open>Torrent content\<close>

definition torrent_content :: "TorrentState \<Rightarrow> Content" where
  "torrent_content t =
     \<lparr>content_Length = (\<lambda>file. if file < 0 \<or> file \<ge> int (length (tor_files t)) then None
        else Some (fi_Length (tor_files t ! nat file))),
      content_Name = (\<lambda>file. if file < 0 \<or> file \<ge> int (length (tor_files t)) then ''stream.bin''
        else fi_Name (tor_files t ! nat file))\<rparr>"

text \<open>Fetch claims the head of the range and opens a reader on the rest; \<open>seek_ok\<close> says whether
  the library's Seek succeeded. The reader releases its window when it is closed.\<close>

definition Content_Fetch ::
  "Profile \<Rightarrow> int \<Rightarrow> int \<Rightarrow> int \<Rightarrow> bool \<Rightarrow> TorrentState \<Rightarrow> Window option \<times> TorrentState" where
  "Content_Fetch p file off len seek_ok t =
     (let window = WindowSize p (pieceLength t);
          head = (if window > 0 \<and> len > window then window else len)
      in (case Claim file off head p t of
            (Inl e, t1) \<Rightarrow> (None, t1)
          | (Inr w, t1) \<Rightarrow>
              if file < 0 \<or> file \<ge> int (length (tor_files t1)) \<or> \<not> seek_ok
              then (None, snd (Window_Release (Some w) t1))
              else (Some w, t1)))"

definition windowedReader_Close :: "Window \<Rightarrow> TorrentState \<Rightarrow> TorrentState" where
  "windowedReader_Close w t = snd (Window_Release (Some w) t)"

end
