(* ===== verification/BridgeLaws.thy ===== *)
theory BridgeLaws
  imports Bridge
begin

text \<open>
  What the bridge promises ffmpeg and the engine: a served range lies inside the file, the three
  forms of a range mean what HTTP says, a stall is recorded for exactly the published file whose read
  was cut short by its deadline, and a request never claims more than one window of pieces.
\<close>

section \<open>Text facts\<close>

lemma HasPrefix_append [simp]: "HasPrefix (p @ s) p"
  by (induction p) simp_all

lemma CutPrefix_append [simp]: "CutPrefix (p @ s) p = (s, True)"
  by (simp add: CutPrefix_def)

lemma Contains_char: "Contains s [c] \<longleftrightarrow> c \<in> set s"
  by (induction s) auto

lemma Contains_string_char: "Contains s '','' \<longleftrightarrow> CHR '','' \<in> set s"
  by (rule Contains_char)

section \<open>Ranges\<close>

lemma parse_spec:
  assumes "\<forall>c \<in> set (first @ final). c \<noteq> CHR '','' \<and> \<not> is_space c" "CHR ''-'' \<notin> set first"
  shows "parseRange (''bytes='' @ first @ ''-'' @ final) sz =
    (if first = [] then
       if final = [] then Inl MalformedRange
       else (case ParseInt final of
               None \<Rightarrow> Inl MalformedSuffix
             | Some n \<Rightarrow> if n < 0 then Inl MalformedSuffix
                         else if n = 0 then Inl errUnsatisfiable
                         else Inr \<lparr>Start = sz - (if n > sz then sz else n), Length = if n > sz then sz else n\<rparr>)
     else (case ParseInt first of
             None \<Rightarrow> Inl MalformedStart
           | Some start \<Rightarrow>
               if start < 0 then Inl MalformedStart
               else if start \<ge> sz then Inl errUnsatisfiable
               else if final = [] then Inr \<lparr>Start = start, Length = sz - start\<rparr>
               else (case ParseInt final of
                       None \<Rightarrow> Inl MalformedEnd
                     | Some stop \<Rightarrow> if stop < start then Inl MalformedEnd
                         else Inr \<lparr>Start = start, Length = (if stop \<ge> sz then sz - 1 else stop) - start + 1\<rparr>)))"
proof -
  have t: "TrimSpace (''bytes='' @ first @ ''-'' @ final) = ''bytes='' @ first @ ''-'' @ final"
    by (rule TrimSpace_id) (use assms(1) in \<open>auto simp: is_space_def\<close>)
  have t2: "TrimSpace (first @ ''-'' @ final) = first @ ''-'' @ final"
    by (rule TrimSpace_id) (use assms(1) in \<open>auto simp: is_space_def\<close>)
  have t3: "TrimSpace first = first" by (rule TrimSpace_id) (use assms(1) in auto)
  have t4: "TrimSpace final = final" by (rule TrimSpace_id) (use assms(1) in auto)
  have c: "\<not> Contains (first @ ''-'' @ final) '',''"
    unfolding Contains_string_char using assms(1) by auto
  have cut: "Cut (first @ ''-'' @ final) (CHR ''-'') = (first, final, True)"
    using Cut_append [OF assms(2), of final] by simp
  have u: "(\<not> True) = False" by simp
  show ?thesis
    unfolding parseRange_def t CutPrefix_append prod.case t2 cut t3 t4 Let_def u if_False if_not_P [OF c]
    by (rule refl)
qed

lemma parseRange_within:
  assumes "parseRange header sz = Inr r" "0 \<le> sz"
  shows "0 \<le> Start r \<and> 0 \<le> Length r \<and> Start r + Length r \<le> sz \<and> (0 < sz \<longrightarrow> 0 < Length r)"
  using assms
  by (auto simp: parseRange_def Let_def split: prod.splits if_splits option.splits)

lemma plain_number:
  "0 \<le> n \<Longrightarrow> \<forall>c \<in> set (Itoa n). c \<noteq> CHR '','' \<and> \<not> is_space c" "0 \<le> n \<Longrightarrow> CHR ''-'' \<notin> set (Itoa n)"
  using Itoa_chars by blast+

text \<open>A Range header either is refused or names bytes of the file, at least one if the file has
  any; a closed range is cut at the end of the file, an open one runs to the end, a suffix is the last
  bytes, a start past the end is unsatisfiable and a backwards range is malformed.\<close>

theorem range_resolved:
  assumes sz: "0 \<le> sz" "sz \<le> max_i64" and a: "0 \<le> a" "a \<le> max_i64" and b: "0 \<le> b" "b \<le> max_i64"
  shows "(\<forall>header r. parseRange header sz = Inr r \<longrightarrow>
       0 \<le> Start r \<and> 0 \<le> Length r \<and> Start r + Length r \<le> sz \<and> (0 < sz \<longrightarrow> 0 < Length r)) \<and>
    parseRange (''bytes='' @ Itoa a @ ''-'' @ Itoa b) sz =
      (if a \<ge> sz then Inl errUnsatisfiable else if b < a then Inl MalformedEnd
       else Inr \<lparr>Start = a, Length = min (b + 1) sz - a\<rparr>) \<and>
    parseRange (''bytes='' @ Itoa a @ ''-'') sz =
      (if a \<ge> sz then Inl errUnsatisfiable else Inr \<lparr>Start = a, Length = sz - a\<rparr>) \<and>
    parseRange (''bytes=-'' @ Itoa b) sz =
      (if b = 0 then Inl errUnsatisfiable else Inr \<lparr>Start = sz - min b sz, Length = min b sz\<rparr>)"
proof -
  note N = ParseInt_Itoa [OF a] ParseInt_Itoa [OF b] Itoa_nonempty [of a] Itoa_nonempty [of b]
  note A = plain_number [OF a(1)] and B = plain_number [OF b(1)]
  have "parseRange (''bytes='' @ Itoa a @ ''-'' @ Itoa b) sz =
      (if a \<ge> sz then Inl errUnsatisfiable else if b < a then Inl MalformedEnd
       else Inr \<lparr>Start = a, Length = min (b + 1) sz - a\<rparr>)"
    by (subst parse_spec) (use A B N a b in \<open>auto simp: min_def\<close>)
  moreover have "parseRange (''bytes='' @ Itoa a @ ''-'' @ []) sz =
      (if a \<ge> sz then Inl errUnsatisfiable else Inr \<lparr>Start = a, Length = sz - a\<rparr>)"
    by (subst parse_spec) (use A N a in auto)
  moreover have "parseRange (''bytes='' @ [] @ ''-'' @ Itoa b) sz =
      (if b = 0 then Inl errUnsatisfiable else Inr \<lparr>Start = sz - min b sz, Length = min b sz\<rparr>)"
    by (subst parse_spec) (use B N b in \<open>auto simp: min_def\<close>)
  ultimately show ?thesis using parseRange_within sz(1) by simp
qed

theorem range_resolved_witness:
  "parseRange ''bytes=90-200'' 100 = Inr \<lparr>Start = 90, Length = 10\<rparr> \<and>
   parseRange ''bytes=-7'' 100 = Inr \<lparr>Start = 93, Length = 7\<rparr>"
proof -
  have "Itoa 90 = ''90''" "Itoa 200 = ''200''" "Itoa 7 = ''7''" by code_simp+
  then show ?thesis
    using range_resolved [of 100 90 200] range_resolved [of 100 90 7] by (simp add: max_i64_def)
qed

section \<open>Serving\<close>

definition token_of :: "Request \<Rightarrow> string" where
  "token_of r = fst (Cut (fst (CutPrefix (rq_path r) ''/'')) (CHR ''/''))"

definition request_range :: "Request \<Rightarrow> int \<Rightarrow> (range_error, byteRange) result" where
  "request_range r sz = (if rq_range r = [] then Inr \<lparr>Start = 0, Length = sz\<rparr> else parseRange (rq_range r) sz)"

definition delivered :: "Outcome \<Rightarrow> int" where
  "delivered oc = (if fetch_failed oc then 0 else body_bytes oc)"

text \<open>The read of a request was cut short by its deadline.\<close>

definition cut_short :: "publication \<Rightarrow> Request \<Rightarrow> Outcome \<Rightarrow> bool" where
  "cut_short p r oc \<longleftrightarrow> rq_method r = GET \<and>
     (case content_Length (pub_content p) (pub_file p) of
        None \<Rightarrow> False
      | Some sz \<Rightarrow>
          (case request_range r sz of
             Inl e \<Rightarrow> False
           | Inr rng \<Rightarrow> Length rng \<noteq> 0 \<and> delivered oc < Length rng \<and> deadline oc))"

text \<open>The handler, read case by case.\<close>

lemma serve_eq:
  "serve r oc b =
     (if rq_method r = OtherMethod then (MethodNotAllowed, b)
      else (case published b (token_of r) of
           None \<Rightarrow> (NotFound, b)
         | Some p \<Rightarrow>
           (case content_Length (pub_content p) (pub_file p) of
              None \<Rightarrow> (ServerError, b)
            | Some sz \<Rightarrow>
              (case request_range r sz of
                 Inl e \<Rightarrow> (if e = errUnsatisfiable then RangeNotSatisfiable sz else BadRequest e, b)
               | Inr rng \<Rightarrow>
                   if rq_method r = HEAD \<or> Length rng = 0 then (Answer (rq_range r \<noteq> []) rng sz None, b)
                   else (Answer (rq_range r \<noteq> []) rng sz (Some (delivered oc)),
                         noteStall oc (token_of r) rng (delivered oc) b)))))"
proof -
  obtain tok rest where cut: "Cut (fst (CutPrefix (rq_path r) ''/'')) (CHR ''/'') = (tok, rest)"
    by (cases "Cut (fst (CutPrefix (rq_path r) ''/'')) (CHR ''/'')")
  have tok: "token_of r = tok" by (simp add: token_of_def cut)
  show ?thesis
  proof (cases "published b tok")
    case None
    then show ?thesis by (simp add: serve_def cut tok)
  next
    case (Some p)
    show ?thesis
    proof (cases "content_Length (pub_content p) (pub_file p)")
      case None
      with Some show ?thesis by (simp add: serve_def cut tok)
    next
      case sz: (Some sz)
      have "(if rq_range r = [] then Inr (\<lparr>Start = 0, Length = sz\<rparr>, False)
          else bind_result (parseRange (rq_range r) sz) (\<lambda>s. Inr (s, True))) =
        (case request_range r sz of Inl e \<Rightarrow> Inl e | Inr rng \<Rightarrow> Inr (rng, rq_range r \<noteq> []))"
        by (cases "parseRange (rq_range r) sz") (auto simp: request_range_def)
      then show ?thesis
        using Some sz by (cases "request_range r sz") (simp_all add: serve_def cut tok delivered_def)
    qed
  qed
qed

lemma noteStall_id: "\<not> (sent < Length rng \<and> deadline oc) \<Longrightarrow> noteStall oc token rng sent b = b"
  by (auto simp: noteStall_def)

lemma noteStall_hit:
  assumes "published b token = Some p" "sent < Length rng" "deadline oc"
  shows "\<exists>e. noteStall oc token rng sent b = b\<lparr>published := (published b)(token \<mapsto> noteStall_pub e p)\<rparr> \<and>
    st_Timeout e = RequestTimeout b \<and> st_Delivered e = sent"
  using assms
  by (intro exI [of _ "\<lparr>st_Off = Start rng, st_Length = Length rng, st_Delivered = sent,
        st_Timeout = RequestTimeout b, st_Elapsed = elapsed oc\<rparr>"]) (simp add: noteStall_def)

lemma serve_quiet:
  assumes "\<And>p. published b (token_of r) = Some p \<Longrightarrow> \<not> cut_short p r oc"
  shows "snd (serve r oc b) = b"
proof (cases "published b (token_of r)")
  case (Some p)
  note no = assms [OF Some]
  show ?thesis
  proof (cases "content_Length (pub_content p) (pub_file p)")
    case sz: (Some sz)
    show ?thesis
    proof (cases "request_range r sz")
      case (Inr rng)
      have "\<not> (rq_method r = GET \<and> Length rng \<noteq> 0 \<and> delivered oc < Length rng \<and> deadline oc)"
        using no sz Inr by (auto simp: cut_short_def)
      then show ?thesis
        using \<open>published b (token_of r) = Some p\<close> sz Inr noteStall_id
        by (cases "rq_method r") (auto simp: serve_eq)
    qed (use Some sz in \<open>simp add: serve_eq\<close>)
  qed (use Some in \<open>simp add: serve_eq\<close>)
qed (simp add: serve_eq)

lemma serve_stalled:
  assumes "published b (token_of r) = Some p" "cut_short p r oc"
  shows "\<exists>e. snd (serve r oc b) = b\<lparr>published := (published b)(token_of r \<mapsto> noteStall_pub e p)\<rparr> \<and>
     st_Timeout e = RequestTimeout b \<and> st_Delivered e = delivered oc"
proof -
  obtain sz rng where sr: "content_Length (pub_content p) (pub_file p) = Some sz" "request_range r sz = Inr rng"
    and c: "rq_method r = GET" "Length rng \<noteq> 0" "delivered oc < Length rng" "deadline oc"
    using assms(2) by (auto simp: cut_short_def split: option.splits sum.splits)
  have "snd (serve r oc b) = noteStall oc (token_of r) rng (delivered oc) b"
    using assms(1) sr c(1,2) by (simp add: serve_eq)
  with noteStall_hit [OF assms(1) c(3,4)] show ?thesis by simp
qed

lemma serve_other:
  "token \<noteq> token_of r \<Longrightarrow> published (snd (serve r oc b)) token = published b token"
  "baseURL (snd (serve r oc b)) = baseURL b"
  using serve_quiet [of b r oc] serve_stalled [of b r _ oc] by (fastforce)+

definition lengths_ok :: "Bridge \<Rightarrow> bool" where
  "lengths_ok b \<longleftrightarrow>
     (\<forall>token p sz. published b token = Some p \<longrightarrow> content_Length (pub_content p) (pub_file p) = Some sz \<longrightarrow> 0 \<le> sz)"

text \<open>C21: The handler answers only for a published token; what it announces lies inside that file, a
  request without a range gets the whole of it with status 200, one with a range a 206, a HEAD request
  fetches nothing, and the table of publications and the other publications stay as they were.\<close>

theorem serve_inside_file:
  assumes ok: "lengths_ok b" and r: "serve r oc b = (Answer partial rng sz body, b')"
  shows "\<exists>p. published b (token_of r) = Some p \<and> content_Length (pub_content p) (pub_file p) = Some sz \<and>
    0 \<le> Start rng \<and> 0 \<le> Length rng \<and> Start rng + Length rng \<le> sz \<and>
    (partial \<longleftrightarrow> rq_range r \<noteq> []) \<and> (\<not> partial \<longrightarrow> rng = \<lparr>Start = 0, Length = sz\<rparr>) \<and>
    (rq_method r = HEAD \<longrightarrow> body = None) \<and>
    (\<forall>token. token \<noteq> token_of r \<longrightarrow> published b' token = published b token)"
proof -
  have m: "rq_method r \<noteq> OtherMethod" using r by (auto simp: serve_eq)
  obtain p where p: "published b (token_of r) = Some p"
    using r m by (cases "published b (token_of r)") (simp_all add: serve_eq)
  obtain n where n: "content_Length (pub_content p) (pub_file p) = Some n"
    using r m p by (cases "content_Length (pub_content p) (pub_file p)") (simp_all add: serve_eq)
  obtain rng' where rr: "request_range r n = Inr rng'"
    using r m p n by (cases "request_range r n") (simp_all add: serve_eq split: if_splits)
  have out: "partial = (rq_range r \<noteq> [])" "rng = rng'" "sz = n" "rq_method r = HEAD \<longrightarrow> body = None"
    using r m p n rr by (auto simp: serve_eq split: if_splits)
  have n0: "0 \<le> n" using ok p n by (auto simp: lengths_ok_def)
  have "0 \<le> Start rng \<and> 0 \<le> Length rng \<and> Start rng + Length rng \<le> sz"
    "\<not> partial \<longrightarrow> rng = \<lparr>Start = 0, Length = sz\<rparr>"
    using rr out n0 parseRange_within by (auto simp: request_range_def split: if_splits)
  moreover have "\<forall>token. token \<noteq> token_of r \<longrightarrow> published b' token = published b token"
    using serve_other(1) r by (metis snd_conv)
  ultimately show ?thesis using p n out by auto
qed

definition demo_bridge :: Bridge where
  "demo_bridge = snd (Publish (torrent_content demo_torrent) 1 ''ab12''
     \<lparr>RequestTimeout = 60, baseURL = ''http://127.0.0.1:9'', published = (\<lambda>_. None)\<rparr>)"

definition demo_get :: Request where
  "demo_get = \<lparr>rq_method = GET, rq_path = ''/ab12/a.mkv'', rq_range = ''bytes=20-49''\<rparr>"

lemma demo_bridge_ok: "lengths_ok demo_bridge"
  by (simp add: lengths_ok_def demo_bridge_def Publish_def torrent_content_def demo_torrent_def)

theorem serve_inside_file_witness:
  "\<exists>b'. serve demo_get \<lparr>fetch_failed = False, body_bytes = 30, deadline = False, elapsed = 5\<rparr> demo_bridge =
     (Answer True \<lparr>Start = 20, Length = 30\<rparr> 90 (Some 30), b') \<and> published b' ''cd'' = None"
proof -
  let ?oc = "\<lparr>fetch_failed = False, body_bytes = 30, deadline = False, elapsed = 5\<rparr>"
  have "fst (serve demo_get ?oc demo_bridge) = Answer True \<lparr>Start = 20, Length = 30\<rparr> 90 (Some 30)"
    by code_simp
  then obtain b' where s: "serve demo_get ?oc demo_bridge = (Answer True \<lparr>Start = 20, Length = 30\<rparr> 90 (Some 30), b')"
    by (metis prod.collapse)
  have t: "''cd'' \<noteq> token_of demo_get" "published demo_bridge ''cd'' = None" by code_simp+
  have "published b' ''cd'' = published demo_bridge ''cd''"
    using serve_inside_file [OF demo_bridge_ok s] t(1) by blast
  with s t(2) show ?thesis by simp
qed

section \<open>Stalls over the life of a publication\<close>

datatype bridge_event =
    Serve Request Outcome
  | Pub Content int string
  | Unpub string

fun bridge_step :: "Bridge \<Rightarrow> bridge_event \<Rightarrow> Bridge" where
  "bridge_step b (Serve r oc) = snd (serve r oc b)"
| "bridge_step b (Pub c file token) = snd (Publish c file token b)"
| "bridge_step b (Unpub token) = Unpublish token b"

fun leaves_token :: "string \<Rightarrow> bridge_event \<Rightarrow> bool" where
  "leaves_token token (Serve r oc) \<longleftrightarrow> True"
| "leaves_token token (Pub c file t) \<longleftrightarrow> t \<noteq> token"
| "leaves_token token (Unpub t) \<longleftrightarrow> t \<noteq> token"

fun stall_of :: "string \<Rightarrow> publication \<Rightarrow> bridge_event \<Rightarrow> bool" where
  "stall_of token p (Serve r oc) \<longleftrightarrow> token_of r = token \<and> cut_short p r oc"
| "stall_of token p ev \<longleftrightarrow> False"

definition same_pub :: "publication \<Rightarrow> publication \<Rightarrow> bool" where
  "same_pub p q \<longleftrightarrow> pub_content q = pub_content p \<and> pub_file q = pub_file p"

lemma stall_of_cong: "same_pub p q \<Longrightarrow> stall_of token q ev = stall_of token p ev"
  by (cases ev) (simp_all add: same_pub_def cut_short_def)

lemma bridge_step_pub:
  assumes "published b token = Some p" "leaves_token token ev"
  shows "\<exists>q. published (bridge_step b ev) token = Some q \<and> same_pub p q \<and>
    stalls q = stalls p + (if stall_of token p ev then 1 else 0) \<and> baseURL (bridge_step b ev) = baseURL b"
proof (cases ev)
  case (Serve r oc)
  show ?thesis
  proof (cases "token_of r = token \<and> cut_short p r oc")
    case True
    then obtain e where "snd (serve r oc b) = b\<lparr>published := (published b)(token \<mapsto> noteStall_pub e p)\<rparr>"
      using serve_stalled assms(1) by blast
    with True Serve show ?thesis by (simp add: noteStall_pub_def same_pub_def)
  next
    case False
    have "published (snd (serve r oc b)) token = Some p"
    proof (cases "token_of r = token")
      case True
      with False assms(1) have "snd (serve r oc b) = b" by (intro serve_quiet) auto
      with assms(1) show ?thesis by simp
    next
      case False
      with serve_other(1) assms(1) show ?thesis by metis
    qed
    with False Serve show ?thesis by (simp add: same_pub_def serve_other(2))
  qed
qed (use assms in \<open>auto simp: Publish_def Unpublish_def same_pub_def split: option.split\<close>)

lemma bridge_run_pub:
  assumes "published b token = Some p" "list_all (leaves_token token) evs"
  shows "\<exists>q. published (foldl bridge_step b evs) token = Some q \<and>
    stalls q = stalls p + length (filter (stall_of token p) evs) \<and>
    baseURL (foldl bridge_step b evs) = baseURL b"
  using assms
proof (induction evs arbitrary: b p)
  case (Cons ev evs)
  from Cons.prems obtain q where q: "published (bridge_step b ev) token = Some q" "same_pub p q"
      "stalls q = stalls p + (if stall_of token p ev then 1 else 0)" "baseURL (bridge_step b ev) = baseURL b"
    using bridge_step_pub [of b token p ev] by auto
  from Cons.IH [OF q(1)] Cons.prems(2) obtain q' where
    q': "published (foldl bridge_step (bridge_step b ev) evs) token = Some q'"
      "stalls q' = stalls q + length (filter (stall_of token q) evs)"
      "baseURL (foldl bridge_step (bridge_step b ev) evs) = baseURL b" using q(4) by auto
  have "stall_of token q = stall_of token p" using stall_of_cong [OF q(2)] by blast
  with q q' show ?case by auto
qed simp

text \<open>Asking for the stalls of the URL a file was published under gives the number of requests for
  that publication whose read its deadline cut short, whatever else was served, published or withdrawn
  meanwhile; once it is withdrawn the answer is none.\<close>

theorem stalls_counted:
  assumes pub: "Publish c file token b = (Some url, b1)" and tok: "CHR ''/'' \<notin> set token"
    and evs: "list_all (leaves_token token) evs"
  shows "fst (Stalls url (foldl bridge_step b1 evs)) =
      length (filter (stall_of token \<lparr>pub_content = c, pub_file = file, stalls = 0, pub_last = None\<rparr>) evs) \<and>
    Stalls url (Unpublish token (foldl bridge_step b1 evs)) = (0, None)"
proof -
  let ?p = "\<lparr>pub_content = c, pub_file = file, stalls = 0, pub_last = None\<rparr>"
  have b1: "published b1 token = Some ?p" "baseURL b1 = baseURL b"
    and url: "url = baseURL b @ ''/'' @ token @ ''/'' @ path_Base (content_Name c file)"
    using pub by (auto simp: Publish_def split: option.splits)
  from bridge_run_pub [OF b1(1) evs] obtain q where
    q: "published (foldl bridge_step b1 evs) token = Some q"
      "stalls q = length (filter (stall_of token ?p) evs)" "baseURL (foldl bridge_step b1 evs) = baseURL b"
    using b1(2) by auto
  have look: "CutPrefix url (baseURL b @ ''/'') = (token @ ''/'' @ path_Base (content_Name c file), True)"
    using CutPrefix_append [of "baseURL b @ ''/''"] by (simp add: url)
  have cut: "Cut (token @ ''/'' @ path_Base (content_Name c file)) (CHR ''/'') =
      (token, path_Base (content_Name c file), True)"
    using Cut_append [OF tok] by simp
  have "Stalls url (foldl bridge_step b1 evs) = (stalls q, pub_last q)"
    unfolding Stalls_def q(3) look prod.case cut using q(1) by simp
  moreover have "Stalls url (Unpublish token (foldl bridge_step b1 evs)) = (0, None)"
  proof -
    have "baseURL (Unpublish token (foldl bridge_step b1 evs)) = baseURL b" using q(3) by (simp add: Unpublish_def)
    then show ?thesis unfolding Stalls_def by (simp only: look prod.case cut) (simp add: Unpublish_def)
  qed
  ultimately show ?thesis using q(2) by simp
qed

theorem stalls_counted_witness:
  "fst (Stalls ''http://127.0.0.1:9/ab12/a.mkv''
     (foldl bridge_step demo_bridge
        [Serve demo_get \<lparr>fetch_failed = False, body_bytes = 12, deadline = True, elapsed = 60\<rparr>,
         Serve demo_get \<lparr>fetch_failed = False, body_bytes = 30, deadline = False, elapsed = 3\<rparr>])) = 1"
proof -
  let ?b = "\<lparr>RequestTimeout = 60, baseURL = ''http://127.0.0.1:9'', published = (\<lambda>_. None)\<rparr>"
  let ?evs = "[Serve demo_get \<lparr>fetch_failed = False, body_bytes = 12, deadline = True, elapsed = 60\<rparr>,
     Serve demo_get \<lparr>fetch_failed = False, body_bytes = 30, deadline = False, elapsed = 3\<rparr>]"
  have "fst (Publish (torrent_content demo_torrent) 1 ''ab12'' ?b) = Some ''http://127.0.0.1:9/ab12/a.mkv''"
    by code_simp
  then have p: "Publish (torrent_content demo_torrent) 1 ''ab12'' ?b =
      (Some ''http://127.0.0.1:9/ab12/a.mkv'', demo_bridge)"
    unfolding demo_bridge_def by (metis prod.collapse)
  have f: "length (filter (stall_of ''ab12'' \<lparr>pub_content = torrent_content demo_torrent, pub_file = 1,
      stalls = 0, pub_last = None\<rparr>) ?evs) = 1" by code_simp
  show ?thesis using stalls_counted [OF p, of ?evs] f by simp
qed

section \<open>What a request claims\<close>

lemma alignUp_exact:
  assumes "0 < p" "0 \<le> n" "n + p \<le> max_i64"
  shows "alignUp n p = (if n \<le> p then p else (n + p - 1) div p * p)" "0 < alignUp n p" "n \<le> alignUp n p"
    "alignUp n p < n + p \<or> alignUp n p = p" "alignUp n p mod p = 0"
proof -
  have d: "(n + p - 1) div p * p \<le> n + p - 1" "n + p - 1 < ((n + p - 1) div p + 1) * p"
    using div_bounds [OF assms(1), of "n + p - 1"] by simp_all
  have d2: "n \<le> (n + p - 1) div p * p" using d(2) by (simp add: algebra_simps)
  show eq: "alignUp n p = (if n \<le> p then p else (n + p - 1) div p * p)"
    using assms d d2 by (simp add: alignUp_def w64_small sdiv_nonneg)
  show "0 < alignUp n p" "n \<le> alignUp n p" "alignUp n p < n + p \<or> alignUp n p = p" "alignUp n p mod p = 0"
    using assms d d2 unfolding eq by auto
qed


text \<open>However long the range ffmpeg asks for, a request claims no more pieces than one profile
  window holds, plus one for a window that starts inside a piece; a read that cannot seek withdraws
  the whole claim it made.\<close>

theorem fetch_claims_window:
  assumes g: "geometry t" and fl: "0 \<le> file" "file < int (length (tor_files t))"
    and off: "0 \<le> off" "off < fi_Length (tor_files t ! nat file)"
    and p: "0 \<le> prof_Window p" "tor_length t + prof_Window p + pieceLength t \<le> max_i64"
    and c: "Content_Fetch p file off n ok t = (w, t')"
  shows "(ok \<longrightarrow> (\<exists>v. w = Some v \<and> 0 < PieceRange_Len (win_pieces v) \<and>
      PieceRange_Len (win_pieces v) \<le> WindowSize p (pieceLength t) div pieceLength t + 1)) \<and>
    (\<not> ok \<longrightarrow> w = None \<and> (\<exists>b e. last (tor_calls t') = CancelPieces b e \<and>
       DownloadPieces b e \<in> set (tor_calls t')))"
proof -
  let ?f = "tor_files t ! nat file" and ?p = "pieceLength t"
  define W where "W = WindowSize p ?p"
  note G = geometryD [OF g] and F = geometry_file [OF g fl]
  have fits: "prof_Window p + ?p \<le> max_i64" using G p by linarith
  have W: "0 < W" "W mod ?p = 0" "W < prof_Window p + ?p \<or> W = ?p"
    using alignUp_exact [OF G(1) p(1) fits] by (simp_all add: W_def WindowSize_def)
  have Wmax: "W \<le> prof_Window p + ?p" using W(3) p(1) by linarith
  define head where "head = (if W > 0 \<and> n > W then W else n)"
  have wf: "WindowFor t file off head p = PieceRangeFor t file off W"
    using W(1) by (auto simp: WindowFor_def W_def [symmetric] Let_def head_def)
  have coff: "clamp_off ?f off = off" using off by (simp add: clamp_off_def)
  have lenW: "clamp_off ?f off + W \<le> max_i64" using coff off F G Wmax p by linarith
  have some: "clamp_len ?f off W > 0" "clamp_len ?f off W \<le> W"
    using off W(1) by (auto simp: clamp_len_def coff)
  obtain r where r: "PieceRangeFor t file off W = Inr r"
    using PieceRangeFor_eq [OF g fl lenW] by blast
  note E = range_edges [OF g fl lenW r some(1)]
  have "(End r - 1 - Begin r - 1) * ?p < W"
    using E(2,3) some(2) by (simp add: algebra_simps)
  then have "(End r - 1 - Begin r - 1) * ?p < W div ?p * ?p"
    using W(2) div_mult_mod_eq [of W ?p] by simp
  then have "End r - Begin r \<le> W div ?p + 1" using G(1) by (simp add: mult_less_cancel_right)
  then have len: "0 < PieceRange_Len r \<and> PieceRange_Len r \<le> W div ?p + 1"
    using E(6) by (simp add: PieceRange_Len_def)
  obtain t1 where cl: "Claim file off head p t = (Inr \<lparr>win_pieces = r, win_released = False\<rparr>, t1)"
    by (simp add: Claim_def wf r)
  obtain w2 t2 where rel: "Window_Release (Some \<lparr>win_pieces = r, win_released = False\<rparr>) t1 = (w2, t2)"
    by fastforce
  have "tor_files t1 = tor_files t"
    using claim_step_layout [of t "EClaim file off head p"] cl by (simp add: same_layout_def)
  then have out: "(w, t') = (if ok then (Some \<lparr>win_pieces = r, win_released = False\<rparr>, t1) else (None, t2))"
    using c fl cl rel by (cases ok) (auto simp: Content_Fetch_def W_def [symmetric] head_def [symmetric] Let_def)
  show ?thesis
  proof (cases ok)
    case True
    with out len show ?thesis by (simp add: W_def)
  next
    case False
    from window_calls [OF cl rel] have
      "last (tor_calls t2) = CancelPieces (Begin r) (End r)"
      "DownloadPieces (Begin r) (End r) \<in> set (tor_calls t2)" by simp_all
    with out False show ?thesis by auto
  qed
qed

theorem fetch_claims_window_witness:
  "\<exists>v. fst (Content_Fetch MinTraffic 1 20 1000000 True demo_torrent) = Some v \<and>
     PieceRange_Len (win_pieces v) \<le> 65537"
proof -
  obtain w t' where c: "Content_Fetch MinTraffic 1 20 1000000 True demo_torrent = (w, t')" by fastforce
  have s: "WindowSize MinTraffic (pieceLength demo_torrent) div pieceLength demo_torrent + 1 = 65537"
    by code_simp
  have "\<exists>v. w = Some v \<and> 0 < PieceRange_Len (win_pieces v) \<and>
      PieceRange_Len (win_pieces v) \<le> WindowSize MinTraffic (pieceLength demo_torrent) div pieceLength demo_torrent + 1"
    using fetch_claims_window [OF demo_geometry _ _ _ _ _ _ c]
    by (simp add: demo_torrent_def MinTraffic_def max_i64_def)
  with c s show ?thesis by auto
qed

end
