(* ===== verification/Availability.thy ===== *)
theory Availability
  imports PieceLaws
begin

text \<open>
  \<^verbatim>\<open>internal/swarm/availability.go\<close>: how many connected peers hold each piece, asked
  of a piece, of a byte range, of a file, and summarised in buckets. A connection is the set of pieces
  its bitmap holds, \<open>None\<close> for one that has not announced any.
\<close>

record Availability =
  counts :: "int list"
  av_peers :: int
  av_pieceLength :: int
  av_length :: int

definition count_piece :: "int set option list \<Rightarrow> int \<Rightarrow> int" where
  "count_piece conns i = int (length (filter (\<lambda>c. case c of None \<Rightarrow> False | Some s \<Rightarrow> i \<in> s) conns))"

definition Torrent_Availability :: "TorrentState \<Rightarrow> int set option list \<Rightarrow> Availability" where
  "Torrent_Availability t conns =
     \<lparr>counts = map (count_piece conns) [0..numPieces t - 1],
      av_peers = int (length conns), av_pieceLength = pieceLength t, av_length = tor_length t\<rparr>"

definition At :: "Availability \<Rightarrow> int \<Rightarrow> int" where
  "At a piece = (if piece < 0 \<or> piece \<ge> int (length (counts a)) then 0 else counts a ! nat piece)"

definition AtOffset :: "Availability \<Rightarrow> int \<Rightarrow> int" where
  "AtOffset a off = (if av_pieceLength a \<le> 0 then 0 else At a (off sdiv av_pieceLength a))"

definition least_step :: "Availability \<Rightarrow> int \<Rightarrow> int \<Rightarrow> int" where
  "least_step a least piece = (let n = At a piece in if least < 0 \<or> n < least then n else least)"

definition OverRange :: "Availability \<Rightarrow> int \<Rightarrow> int \<Rightarrow> int" where
  "OverRange a start stop =
     (if av_pieceLength a \<le> 0 \<or> stop \<le> start then 0
      else
        let start = (if start < 0 then 0 else start);
            stop = (if av_length a > 0 \<and> stop > av_length a then av_length a else stop)
        in if stop \<le> start then 0
           else
             let first = start sdiv av_pieceLength a;
                 final = (stop - 1) sdiv av_pieceLength a;
                 least = foldl (least_step a) (-1) [first..final]
             in if least < 0 then 0 else least)"

definition OverFileRange :: "Availability \<Rightarrow> FileInfo \<Rightarrow> int \<Rightarrow> int \<Rightarrow> int" where
  "OverFileRange a f off len =
     (let off = (if off < 0 then 0 else off) in
      if off > fi_Length f then 0
      else (let len = (if w64 (off + len) > fi_Length f then fi_Length f - off else len)
            in OverRange a (w64 (fi_Offset f + off)) (w64 (w64 (fi_Offset f + off) + len))))"

definition Known :: "Availability \<Rightarrow> bool" where
  "Known a \<longleftrightarrow> av_peers a \<noteq> 0 \<and> (\<exists>n \<in> set (counts a). n > 0)"

definition Unavailable :: "Availability \<Rightarrow> int" where
  "Unavailable a = int (length (filter (\<lambda>n. n = 0) (counts a)))"

definition bucket_edge :: "FileInfo \<Rightarrow> int \<Rightarrow> int \<Rightarrow> int" where
  "bucket_edge f buckets i = w64 (fi_Offset f + w64 (fi_Length f * i) sdiv buckets)"

definition Coarse :: "Availability \<Rightarrow> FileInfo \<Rightarrow> int \<Rightarrow> int list" where
  "Coarse a f buckets =
     (if buckets \<le> 0 \<or> fi_Length f \<le> 0 \<or> av_pieceLength a \<le> 0 then []
      else
        let spanned = w64 (w64 (fi_Offset f + fi_Length f) - 1) sdiv av_pieceLength a
                        - fi_Offset f sdiv av_pieceLength a + 1;
            buckets = (if buckets > spanned then spanned else buckets)
        in map (\<lambda>i. OverRange a (bucket_edge f buckets i) (bucket_edge f buckets (i + 1))) [0..buckets - 1])"

section \<open>The minimum over a range\<close>

definition nonneg_counts :: "Availability \<Rightarrow> bool" where
  "nonneg_counts a \<longleftrightarrow> (\<forall>n \<in> set (counts a). 0 \<le> n)"

lemma At_nonneg: "nonneg_counts a \<Longrightarrow> 0 \<le> At a i"
  by (auto simp: nonneg_counts_def At_def)

lemma least_fold:
  assumes "nonneg_counts a" "0 \<le> m"
  shows "foldl (least_step a) m is = Min (insert m (At a ` set is))"
  using assms(2)
proof (induction "is" arbitrary: m)
  case (Cons i "is")
  have s: "least_step a m i = min m (At a i)" using Cons.prems by (auto simp: least_step_def Let_def)
  have "0 \<le> min m (At a i)" using Cons.prems At_nonneg [OF assms(1)] by simp
  from Cons.IH [OF this] show ?case
    by (cases "is = []") (simp_all add: s Min.insert_not_elem min.assoc Min_insert)
qed simp

lemma least_all:
  assumes "nonneg_counts a" "is \<noteq> []"
  shows "foldl (least_step a) (-1) is = Min (At a ` set is)"
proof -
  obtain i js where i: "is = i # js" using assms(2) by (cases "is") auto
  have "least_step a (-1) i = At a i" by (simp add: least_step_def Let_def)
  with least_fold [OF assms(1) At_nonneg [OF assms(1)]] show ?thesis by (simp add: i)
qed

definition pieces_of :: "Availability \<Rightarrow> int \<Rightarrow> int \<Rightarrow> int set" where
  "pieces_of a lo hi = {i. i * av_pieceLength a < hi \<and> lo < (i + 1) * av_pieceLength a}"

lemma pieces_of_eq:
  assumes "0 < av_pieceLength a" "lo < hi"
  shows "pieces_of a lo hi = {lo div av_pieceLength a..(hi - 1) div av_pieceLength a}"
proof -
  have "i * av_pieceLength a < hi \<longleftrightarrow> i \<le> (hi - 1) div av_pieceLength a" for i
    using le_div [OF assms(1), of i "hi - 1"] by linarith
  moreover have "lo < (i + 1) * av_pieceLength a \<longleftrightarrow> lo div av_pieceLength a \<le> i" for i
    using div_lt [OF assms(1), of lo "i + 1"] by linarith
  ultimately show ?thesis by (auto simp: pieces_of_def)
qed

text \<open>Inside the torrent, a range asks for the scarcest piece it touches.\<close>

lemma OverRange_Min:
  assumes nn: "nonneg_counts a" and p: "0 < av_pieceLength a"
    and r: "0 \<le> lo" "lo < hi" "av_length a > 0 \<longrightarrow> hi \<le> av_length a"
  shows "OverRange a lo hi = Min (At a ` pieces_of a lo hi)" "0 \<le> OverRange a lo hi"
    "finite (pieces_of a lo hi)" "pieces_of a lo hi \<noteq> {}"
proof -
  let ?first = "lo div av_pieceLength a" and ?final = "(hi - 1) div av_pieceLength a"
  have le: "?first \<le> ?final" using r p by (intro zdiv_mono1) auto
  have P: "pieces_of a lo hi = {?first..?final}" by (rule pieces_of_eq [OF p r(2)])
  show "finite (pieces_of a lo hi)" "pieces_of a lo hi \<noteq> {}" using le by (auto simp: P)
  have ne: "[?first..?final] \<noteq> []" using le by simp
  have s: "lo sdiv av_pieceLength a = ?first" "(hi - 1) sdiv av_pieceLength a = ?final"
    using r p by (simp_all add: sdiv_nonneg)
  have "0 \<le> Min (At a ` {?first..?final})"
    using le At_nonneg [OF nn] by (subst Min_ge_iff) auto
  then have "OverRange a lo hi = Min (At a ` {?first..?final})"
    using r p least_all [OF nn ne] by (auto simp: OverRange_def Let_def s)
  with \<open>0 \<le> Min _\<close> P show "OverRange a lo hi = Min (At a ` pieces_of a lo hi)" "0 \<le> OverRange a lo hi"
    by simp_all
qed

text \<open>The availability of a non-empty byte range inside the torrent is that of the scarcest piece
  holding one of its bytes, so a range is available only if every piece of it is.\<close>

theorem over_range_scarcest:
  assumes "nonneg_counts a" "0 < av_pieceLength a" "0 \<le> lo" "lo < hi" "av_length a > 0 \<longrightarrow> hi \<le> av_length a"
  shows "(\<exists>i \<in> pieces_of a lo hi. OverRange a lo hi = At a i) \<and>
    (\<forall>i \<in> pieces_of a lo hi. OverRange a lo hi \<le> At a i) \<and>
    (OverRange a lo hi > 0 \<longleftrightarrow> (\<forall>i \<in> pieces_of a lo hi. At a i > 0))"
proof -
  note O = OverRange_Min [OF assms]
  have fin: "finite (At a ` pieces_of a lo hi)" "At a ` pieces_of a lo hi \<noteq> {}" using O(3,4) by auto
  from Min_in [OF fin] Min_ge_iff [OF fin] Min_gr_iff [OF fin] show ?thesis
    unfolding O(1) by auto
qed

definition demo_av :: Availability where
  "demo_av = Torrent_Availability demo_torrent [Some {0, 1, 2, 3, 5, 6}, None, Some {0, 1, 2, 4, 5, 6}, Some {0, 1, 2, 3, 5, 6}]"

lemma demo_av_ok: "nonneg_counts demo_av" "0 < av_pieceLength demo_av" "av_length demo_av = 100"
  by code_simp+

theorem over_range_scarcest_witness: "OverRange demo_av 30 70 \<le> At demo_av 4"
proof -
  have "4 \<in> pieces_of demo_av 30 70" by (simp add: pieces_of_def) code_simp
  then show ?thesis using over_range_scarcest [OF demo_av_ok(1,2), of 30 70] demo_av_ok(3) by simp
qed

section \<open>The summary\<close>

lemma div_slow: "0 < p \<Longrightarrow> 0 \<le> n \<Longrightarrow> (x + n) div p \<le> x div p + (n::int)"
proof -
  assume p: "0 < p" and n: "0 \<le> n"
  have "x < (x div p + 1) * p" using div_bounds [OF p] by simp
  moreover have "n * 1 \<le> n * p" using p n by (intro mult_left_mono) auto
  ultimately have "x + n < (x div p + 1) * p + n * p" by linarith
  also have "\<dots> = (x div p + 1 + n) * p" by (simp add: algebra_simps)
  finally show ?thesis using div_lt [OF p, of "x + n" "x div p + 1 + n"] by linarith
qed

lemma between_edges:
  fixes e :: "int \<Rightarrow> int"
  shows "e 0 \<le> x \<Longrightarrow> x < e (int n) \<Longrightarrow> \<exists>j. 0 \<le> j \<and> j < int n \<and> e j \<le> x \<and> x < e (j + 1)"
proof (induction n)
  case (Suc n)
  show ?case
  proof (cases "x < e (int n)")
    case True
    with Suc obtain j where "0 \<le> j" "j < int n" "e j \<le> x" "x < e (j + 1)" by auto
    then show ?thesis by (intro exI [of _ j]) simp
  next
    case False
    with Suc.prems show ?thesis by (intro exI [of _ "int n"]) (simp add: add.commute)
  qed
qed simp

text \<open>The number of buckets a summary really has.\<close>

definition bucket_count :: "Availability \<Rightarrow> FileInfo \<Rightarrow> int \<Rightarrow> int" where
  "bucket_count a f buckets =
     min buckets ((fi_Offset f + fi_Length f - 1) div av_pieceLength a - fi_Offset f div av_pieceLength a + 1)"

definition file_ok :: "Availability \<Rightarrow> FileInfo \<Rightarrow> int \<Rightarrow> bool" where
  "file_ok a f buckets \<longleftrightarrow> nonneg_counts a \<and> 0 < av_pieceLength a \<and> 0 < buckets \<and> 0 \<le> fi_Offset f \<and>
     0 < fi_Length f \<and> fi_Offset f + fi_Length f \<le> av_length a \<and> av_length a \<le> max_i64 \<and>
     fi_Length f * buckets \<le> max_i64"

definition edge_of :: "FileInfo \<Rightarrow> int \<Rightarrow> int \<Rightarrow> int" where
  "edge_of f b i = fi_Offset f + fi_Length f * i div b"

lemma Coarse_eq:
  assumes ok: "file_ok a f buckets"
  defines "b \<equiv> bucket_count a f buckets"
  defines "e \<equiv> edge_of f b"
  shows "Coarse a f buckets = map (\<lambda>i. OverRange a (e i) (e (i + 1))) [0..b - 1]"
    and "1 \<le> b" "b \<le> fi_Length f" "e 0 = fi_Offset f" "e b = fi_Offset f + fi_Length f"
    and "\<And>i. 0 \<le> i \<Longrightarrow> i < b \<Longrightarrow> fi_Offset f \<le> e i \<and> e i < e (i + 1) \<and> e (i + 1) \<le> fi_Offset f + fi_Length f"
proof -
  let ?p = "av_pieceLength a" and ?O = "fi_Offset f" and ?L = "fi_Length f"
  have p: "0 < ?p" and O: "0 \<le> ?O" and L: "0 < ?L" and top: "?O + ?L \<le> max_i64" "?L * buckets \<le> max_i64"
    and n: "0 < buckets"
    using ok by (auto simp: file_ok_def)
  have "?O div ?p \<le> (?O + ?L - 1) div ?p" using L p by (intro zdiv_mono1) auto
  then show b1: "1 \<le> b" using n by (simp add: b_def bucket_count_def)
  have "(?O + (?L - 1)) div ?p \<le> ?O div ?p + (?L - 1)" using L by (intro div_slow [OF p]) simp
  then show bL: "b \<le> ?L" by (simp add: b_def bucket_count_def algebra_simps)
  have bb: "b \<le> buckets" by (simp add: b_def bucket_count_def)
  show "e 0 = ?O" "e b = ?O + ?L" using b1 by (simp_all add: e_def edge_of_def)
  have mono: "e i \<le> e j" if "i \<le> j" for i j
    using that b1 L by (auto simp: e_def edge_of_def intro!: zdiv_mono1 mult_left_mono)
  show mid: "?O \<le> e i \<and> e i < e (i + 1) \<and> e (i + 1) \<le> ?O + ?L" if i: "0 \<le> i" "i < b" for i
  proof -
    have "?L * i div b + 1 = (?L * i + b) div b" using b1 by simp
    also have "\<dots> \<le> ?L * (i + 1) div b" using bL b1 by (intro zdiv_mono1) (simp_all add: algebra_simps)
    finally have "e i < e (i + 1)" by (simp add: e_def edge_of_def)
    then show ?thesis using mono [of 0 i] mono [of "i + 1" b] i \<open>e 0 = ?O\<close> \<open>e b = ?O + ?L\<close> by simp
  qed
  have edge: "bucket_edge f b i = e i" if i: "0 \<le> i" "i \<le> b" for i
  proof -
    have "?L * i \<le> ?L * buckets" using i bb L by (intro mult_left_mono) auto
    then have "?L * i \<le> max_i64" using top by linarith
    then have w: "w64 (?L * i) = ?L * i" using i L by (intro w64_small) auto
    have "0 \<le> e i" "e i \<le> max_i64"
      using mono [of 0 i] mono [of i b] i O top \<open>e 0 = ?O\<close> \<open>e b = ?O + ?L\<close> by simp_all
    then show ?thesis
      using i L b1 by (simp add: bucket_edge_def w sdiv_nonneg e_def edge_of_def w64_small)
  qed
  have w: "w64 (?O + ?L) = ?O + ?L" "w64 (?O + ?L - 1) = ?O + ?L - 1"
    using O L top by (auto intro!: w64_small)
  have s: "(?O + ?L - 1) sdiv ?p = (?O + ?L - 1) div ?p" "?O sdiv ?p = ?O div ?p"
    using O L p by (simp_all add: sdiv_nonneg)
  have m: "(if buckets > (?O + ?L - 1) div ?p - ?O div ?p + 1 then (?O + ?L - 1) div ?p - ?O div ?p + 1
      else buckets) = b"
    by (simp add: b_def bucket_count_def min_def)
  have "Coarse a f buckets = map (\<lambda>i. OverRange a (bucket_edge f b i) (bucket_edge f b (i + 1))) [0..b - 1]"
    using p L n unfolding Coarse_def Let_def w s m by simp
  also have "\<dots> = map (\<lambda>i. OverRange a (e i) (e (i + 1))) [0..b - 1]"
    by (rule map_cong [OF refl]) (use edge in auto)
  finally show "Coarse a f buckets = map (\<lambda>i. OverRange a (e i) (e (i + 1))) [0..b - 1]" .
qed

text \<open>A file's summary has at most the buckets asked for and never an empty one, and its scarcest
  bucket is exactly as scarce as the scarcest piece of the file: summarising hides no missing piece.\<close>

theorem summary_keeps_scarcest:
  assumes ok: "file_ok a f buckets"
  shows "1 \<le> length (Coarse a f buckets) \<and> int (length (Coarse a f buckets)) \<le> buckets \<and>
    Min (set (Coarse a f buckets)) = OverRange a (fi_Offset f) (fi_Offset f + fi_Length f) \<and>
    (0 \<in> set (Coarse a f buckets) \<longleftrightarrow>
       (\<exists>i \<in> pieces_of a (fi_Offset f) (fi_Offset f + fi_Length f). At a i = 0))"
proof -
  define b where "b = bucket_count a f buckets"
  define e where "e = edge_of f b"
  note C = Coarse_eq [OF ok, folded b_def, folded e_def]
  let ?lo = "fi_Offset f" and ?hi = "fi_Offset f + fi_Length f"
  have nn: "nonneg_counts a" and p: "0 < av_pieceLength a" and O: "0 \<le> ?lo" "?lo < ?hi" "?hi \<le> av_length a"
    using ok by (auto simp: file_ok_def)
  note W = OverRange_Min [OF nn p O(1,2)]
  have whole: "OverRange a ?lo ?hi = Min (At a ` pieces_of a ?lo ?hi)" "finite (pieces_of a ?lo ?hi)"
    "pieces_of a ?lo ?hi \<noteq> {}" using W O(3) by auto
  have buck: "OverRange a (e i) (e (i + 1)) = Min (At a ` pieces_of a (e i) (e (i + 1)))"
    "finite (pieces_of a (e i) (e (i + 1)))" "pieces_of a (e i) (e (i + 1)) \<noteq> {}"
    "pieces_of a (e i) (e (i + 1)) \<subseteq> pieces_of a ?lo ?hi" if i: "0 \<le> i" "i < b" for i
  proof -
    note m = C(6) [OF i]
    have "0 \<le> e i" "e i < e (i + 1)" "av_length a > 0 \<longrightarrow> e (i + 1) \<le> av_length a" using m O by auto
    note B = OverRange_Min [OF nn p this]
    show "OverRange a (e i) (e (i + 1)) = Min (At a ` pieces_of a (e i) (e (i + 1)))"
      "finite (pieces_of a (e i) (e (i + 1)))" "pieces_of a (e i) (e (i + 1)) \<noteq> {}" using B by auto
    show "pieces_of a (e i) (e (i + 1)) \<subseteq> pieces_of a ?lo ?hi" using m by (auto simp: pieces_of_def)
  qed
  let ?M = "Min (At a ` pieces_of a ?lo ?hi)"
  have ge: "?M \<le> v" if "v \<in> set (Coarse a f buckets)" for v
  proof -
    from that obtain i where i: "0 \<le> i" "i < b" "v = OverRange a (e i) (e (i + 1))"
      by (auto simp: C(1))
    show ?thesis unfolding i(3) buck(1) [OF i(1,2)]
      by (rule Min_antimono) (use buck [OF i(1,2)] whole(2) in auto)
  qed
  have hit: "?M \<in> set (Coarse a f buckets)"
  proof -
    have "?M \<in> At a ` pieces_of a ?lo ?hi" using whole(2,3) by (intro Min_in) auto
    then obtain i where i: "i \<in> pieces_of a ?lo ?hi" "?M = At a i" by auto
    define x where "x = max (i * av_pieceLength a) ?lo"
    have x: "?lo \<le> x" "x < ?hi" "i * av_pieceLength a \<le> x" "x < (i + 1) * av_pieceLength a"
      using i(1) p O by (auto simp: x_def pieces_of_def algebra_simps)
    then obtain j where j: "0 \<le> j" "j < b" "e j \<le> x" "x < e (j + 1)"
      using between_edges [of e x "nat b"] C(2,4,5) by auto
    have "i \<in> pieces_of a (e j) (e (j + 1))" using x j by (simp add: pieces_of_def)
    then have "OverRange a (e j) (e (j + 1)) \<le> ?M"
      unfolding buck(1) [OF j(1,2)] i(2) using buck(2) [OF j(1,2)] by (intro Min_le) auto
    moreover have "OverRange a (e j) (e (j + 1)) \<in> set (Coarse a f buckets)" using j by (auto simp: C(1))
    ultimately show ?thesis using ge by force
  qed
  have min: "Min (set (Coarse a f buckets)) = ?M" by (rule Min_eqI) (use ge hit in auto)
  have pos: "0 \<le> ?M" using OverRange_Min(2) [OF nn p O(1,2)] O(3) whole(1) by simp
  have "0 \<in> set (Coarse a f buckets) \<longleftrightarrow> ?M = 0" using ge hit pos by force
  also have "\<dots> \<longleftrightarrow> (\<exists>i \<in> pieces_of a ?lo ?hi. At a i = 0)"
  proof
    show "?M = 0 \<Longrightarrow> \<exists>i \<in> pieces_of a ?lo ?hi. At a i = 0"
      using Min_in [of "At a ` pieces_of a ?lo ?hi"] whole(2,3) by auto
    assume "\<exists>i \<in> pieces_of a ?lo ?hi. At a i = 0"
    then have "?M \<le> 0" using whole(2) by (metis Min_le finite_imageI image_eqI)
    with pos show "?M = 0" by simp
  qed
  finally have "0 \<in> set (Coarse a f buckets) \<longleftrightarrow> (\<exists>i \<in> pieces_of a ?lo ?hi. At a i = 0)" .
  moreover have "b \<le> buckets" by (simp add: b_def bucket_count_def)
  ultimately show ?thesis using min whole(1) C(1,2) by simp
qed

theorem summary_keeps_scarcest_witness:
  "Min (set (Coarse demo_av \<lparr>fi_Index = 1, fi_Path = ''a.mkv'', fi_Length = 90, fi_Offset = 10\<rparr> 3)) =
   OverRange demo_av 10 100"
proof -
  let ?f = "\<lparr>fi_Index = 1, fi_Path = ''a.mkv'', fi_Length = 90, fi_Offset = 10\<rparr>"
  have "file_ok demo_av ?f 3" using demo_av_ok by (simp add: file_ok_def max_i64_def)
  from summary_keeps_scarcest [OF this] show ?thesis by simp
qed

end
