(* ===== verification/Manifests.thy ===== *)
theory Manifests
  imports GoFloat
begin

text \<open>
  \<^verbatim>\<open>internal/manifest/manifest.go\<close>: what one file's results say of themselves, and what a
  file's streams are (\<^verbatim>\<open>internal/probe/probe.go\<close>), as far as a manifest repeats it. The
  version and tool stamps and the times of writing are left out: no modelled code reads them.
\<close>

section \<open>Streams\<close>

record VideoStream =
  vs_Index :: int
  vs_Codec :: string
  vs_Profile :: string
  vs_Width :: int
  vs_Height :: int
  vs_FPS :: f64
  vs_BitRate :: int
  vs_ColorTransfer :: string
  vs_ColorPrimaries :: string
  vs_ColorSpace :: string
  vs_ColorRange :: string
  vs_DolbyVisionProfile :: int

record AudioStream =
  as_Index :: int
  as_Codec :: string
  as_Language :: string
  as_Title :: string
  as_Channels :: int
  as_BitRate :: int
  as_Default :: bool

record SubtitleStream =
  ss_Index :: int
  ss_Codec :: string
  ss_Language :: string
  ss_Title :: string
  ss_Forced :: bool
  ss_Default :: bool

record MediaInfo =
  mi_FormatName :: string
  mi_Duration :: int
  mi_Size :: int
  mi_BitRate :: int
  mi_Video :: VideoStream
  mi_Audio :: "AudioStream list"
  mi_Subtitles :: "SubtitleStream list"

text \<open>The zero values.\<close>

definition no_video :: VideoStream where
  "no_video =
     \<lparr>vs_Index = 0, vs_Codec = [], vs_Profile = [], vs_Width = 0, vs_Height = 0, vs_FPS = (0, 0), vs_BitRate = 0,
      vs_ColorTransfer = [], vs_ColorPrimaries = [], vs_ColorSpace = [], vs_ColorRange = [], vs_DolbyVisionProfile = 0\<rparr>"

definition no_media :: MediaInfo where
  "no_media =
     \<lparr>mi_FormatName = [], mi_Duration = 0, mi_Size = 0, mi_BitRate = 0, mi_Video = no_video,
      mi_Audio = [], mi_Subtitles = []\<rparr>"

definition BitsPerPixel :: "VideoStream \<Rightarrow> f64" where
  "BitsPerPixel v =
     (let pixels = f64_mult (f64_mult (f64_of_int (vs_Width v)) (f64_of_int (vs_Height v))) (vs_FPS v) in
      if fst pixels = 0 \<or> vs_BitRate v = 0 then (0, 0)
      else f64_div (f64_of_int (vs_BitRate v)) pixels)"

section \<open>Manifests\<close>

record ManifestTorrent =
  mt_InfoHash :: string
  mt_Name :: string
  mt_PieceLength :: int
  mt_Private :: bool
  mt_Peers :: int
  mt_Seeds :: int
  mt_Availability :: "int list"

record ManifestFile =
  mfl_Index :: int
  mfl_Path :: string
  mfl_Bytes :: int
  mfl_DurationMS :: int
  mfl_Container :: string

record ManifestVideo =
  mv_Codec :: string
  mv_Profile :: string
  mv_Width :: int
  mv_Height :: int
  mv_FPS :: f64
  mv_BitRate :: int
  mv_BitsPerPixel :: f64
  mv_DynamicRange :: string
  mv_ToneMappedTo :: string
  mv_ColorTransfer :: string
  mv_ColorPrimaries :: string
  mv_ColorSpace :: string
  mv_DolbyVisionProfile :: int

record ManifestAudio =
  ma_Index :: int
  ma_Language :: string
  ma_Codec :: string
  ma_Channels :: int
  ma_Title :: string
  ma_Default :: bool

record ManifestSubtitle =
  ms_Index :: int
  ms_Language :: string
  ms_Format :: string
  ms_Title :: string
  ms_Forced :: bool
  ms_Default :: bool

datatype Shift = ShiftNone | ShiftUnavailable | ShiftBlank | ShiftFailed

record ManifestFrame =
  mf_Index :: int
  mf_RequestedMS :: int
  mf_ActualMS :: "int option"
  mf_Path :: string
  mf_Shift :: Shift
  mf_Width :: int
  mf_Height :: int
  mf_Error :: string
  mf_ByteRanges :: "(int \<times> int) list"

record Cost =
  DownloadedBytes :: int
  ElapsedMS :: int
  Cost_LimitBytes :: int
  LimitMS :: int
  LimitHit :: string
  Cost_Sequential :: bool

record Manifest =
  m_Torrent :: ManifestTorrent
  m_File :: ManifestFile
  m_Video :: ManifestVideo
  m_Audio :: "ManifestAudio list"
  m_Subtitles :: "ManifestSubtitle list"
  m_Frames :: "ManifestFrame list"
  m_Cost :: Cost

text \<open>The zero values.\<close>

definition no_frame :: ManifestFrame where
  "no_frame =
     \<lparr>mf_Index = 0, mf_RequestedMS = 0, mf_ActualMS = None, mf_Path = [], mf_Shift = ShiftNone,
      mf_Width = 0, mf_Height = 0, mf_Error = [], mf_ByteRanges = []\<rparr>"

definition no_cost :: Cost where
  "no_cost =
     \<lparr>DownloadedBytes = 0, ElapsedMS = 0, Cost_LimitBytes = 0, LimitMS = 0, LimitHit = [], Cost_Sequential = False\<rparr>"

definition no_manifest :: Manifest where
  "no_manifest =
     \<lparr>m_Torrent = \<lparr>mt_InfoHash = [], mt_Name = [], mt_PieceLength = 0, mt_Private = False, mt_Peers = 0,
                    mt_Seeds = 0, mt_Availability = []\<rparr>,
      m_File = \<lparr>mfl_Index = 0, mfl_Path = [], mfl_Bytes = 0, mfl_DurationMS = 0, mfl_Container = []\<rparr>,
      m_Video = \<lparr>mv_Codec = [], mv_Profile = [], mv_Width = 0, mv_Height = 0, mv_FPS = (0, 0),
                  mv_BitRate = 0, mv_BitsPerPixel = (0, 0), mv_DynamicRange = [], mv_ToneMappedTo = [],
                  mv_ColorTransfer = [], mv_ColorPrimaries = [], mv_ColorSpace = [], mv_DolbyVisionProfile = 0\<rparr>,
      m_Audio = [], m_Subtitles = [], m_Frames = [], m_Cost = no_cost\<rparr>"

end
