(* ===== verification/Cache.thy ===== *)
theory Cache
  imports Manifests
begin

text \<open>
  What a run leaves on disk, as its readers see it: the run record of
  \<^verbatim>\<open>internal/cache/cache.go\<close> and the manifests of \<open>Manifests\<close>. Reading and writing the
  JSON is I/O: a disk is an argument, the answers \<^verbatim>\<open>LoadRun\<close> and
  \<^verbatim>\<open>LoadManifest\<close> give for its directories. Tool and version stamps are left out.
\<close>

record RunPlan =
  pl_Count :: int
  pl_Start :: f64
  pl_End :: f64
  pl_Profile :: string
  pl_Format :: string
  pl_Sequential :: bool

record CacheFile =
  cf_Index :: int
  cf_Path :: string
  cf_Bytes :: int
  cf_Offset :: int

text \<open>A nil slice and an empty one are told apart where the code does: \<open>None\<close> is nil.\<close>

record RunRecord =
  rr_Source :: string
  rr_InfoHash :: string
  rr_Name :: string
  rr_Private :: bool
  rr_Plan :: RunPlan
  rr_Videos :: "CacheFile list"
  rr_Files :: "CacheFile list option"
  rr_Selected :: "int list option"
  rr_Complete :: "int list"
  rr_Claimed :: "(int \<times> int) list option"
  rr_CreatedAt :: int

definition SelectedCount :: "RunRecord \<Rightarrow> int" where
  "SelectedCount r =
     (case rr_Selected r of None \<Rightarrow> int (length (rr_Videos r)) | Some sel \<Rightarrow> int (length sel))"

text \<open>A usable manifest has a frame, and every frame it shows is a non-empty file; \<open>stat\<close> is the size
of a path on disk, nothing if it is missing.\<close>

definition served :: "ManifestFrame \<Rightarrow> bool" where
  "served f \<longleftrightarrow> \<not> (mf_Shift f = ShiftFailed \<or> mf_Path f = [])"

fun usable_from :: "(string \<Rightarrow> int option) \<Rightarrow> ManifestFrame list \<Rightarrow> nat \<Rightarrow> bool" where
  "usable_from stat [] n \<longleftrightarrow> 0 < n"
| "usable_from stat (f # fs) n \<longleftrightarrow>
     (if \<not> served f then usable_from stat fs n
      else if stat (mf_Path f) = None \<or> stat (mf_Path f) = Some 0 then False
      else usable_from stat fs (n + 1))"

definition Usable :: "(string \<Rightarrow> int option) \<Rightarrow> Manifest \<Rightarrow> bool" where
  "Usable stat m \<longleftrightarrow> usable_from stat (m_Frames m) 0"

text \<open>The disk under an output root: run records by infohash and parameters, manifests by file.\<close>

record Disk =
  LoadRun :: "string \<Rightarrow> string \<Rightarrow> RunRecord option"
  LoadManifest :: "string \<Rightarrow> string \<Rightarrow> int \<Rightarrow> string \<Rightarrow> Manifest option"
  ReadDir :: "string \<Rightarrow> (string \<times> bool) list option"
  StatSize :: "string \<Rightarrow> int option"

section \<open>Names that reach the filesystem\<close>

definition hexOfLength :: "string \<Rightarrow> nat \<Rightarrow> bool" where
  "hexOfLength s n \<longleftrightarrow>
     length s = n \<and>
     list_all (\<lambda>c. \<not> ((of_char c < (48::nat) \<or> 57 < (of_char c :: nat)) \<and>
                        (of_char c < (97::nat) \<or> 102 < (of_char c :: nat)))) s"

definition validInfoHash :: "string \<Rightarrow> bool" where "validInfoHash s = hexOfLength s 40"
definition validParams :: "string \<Rightarrow> bool" where "validParams s = hexOfLength s 16"

text \<open>How many frames a manifest shows, the count both the replay and the price of a top-up take.\<close>

definition capturedFrames :: "Manifest \<Rightarrow> int" where
  "capturedFrames m = int (length (filter (\<lambda>f. mf_Shift f \<noteq> ShiftFailed \<and> mf_Path f \<noteq> []) (m_Frames m)))"

end
