(* ===== verification/Budget.thy ===== *)
theory Budget
  imports GoFloat
begin

text \<open>
  \<^verbatim>\<open>internal/core/budget.go\<close>: the ceilings of a run and of the client it shares, the tracker
  that watches a run against both, and the price of finishing a stopped run. The tracker's meters and
  its clock belong to other parts of the program: what one call reads off them is a \<open>Reading\<close>,
  an argument. Durations are nanoseconds. The two latches of the tracker are its only state.
\<close>

section \<open>Ceilings\<close>

record Budget =
  MaxBytes :: int
  MaxTime :: int
  WarnAt :: f64

record Roof =
  Roof_MaxBytes :: int
  Roof_WarnAt :: f64

definition Reached :: "Roof \<Rightarrow> int \<Rightarrow> bool" where
  "Reached r received \<longleftrightarrow> 0 < Roof_MaxBytes r \<and> Roof_MaxBytes r \<le> received"

definition bytesPerFile :: int where "bytesPerFile = 150 * 2 ^ 20"
definition maxRunBytes :: int where "maxRunBytes = 2 * 2 ^ 30"
definition defaultRunTime :: int where "defaultRunTime = 10 * 60 * 10 ^ 9"

text \<open>The double nearest to 0.8.\<close>

definition defaultWarnAt :: f64 where "defaultWarnAt = (7205759403792794, - 53)"

definition DefaultRoof :: Roof where
  "DefaultRoof = \<lparr>Roof_MaxBytes = 0, Roof_WarnAt = defaultWarnAt\<rparr>"

definition DefaultBudget :: "int \<Rightarrow> Budget" where
  "DefaultBudget files =
     (let files = if files < 1 then 1 else files;
          maxBytes = w64 (files * bytesPerFile);
          maxBytes = if maxRunBytes < maxBytes then maxRunBytes else maxBytes
      in \<lparr>MaxBytes = maxBytes, MaxTime = defaultRunTime, WarnAt = defaultWarnAt\<rparr>)"

section \<open>The tracker\<close>

datatype StopReason = StopCompleted | StopBudget | StopTime | StopRoof | StopCancelled

datatype LimitScope = LimitRun | LimitClient

record BudgetWarning =
  Scope :: LimitScope
  SpentBytes :: int
  LimitBytes :: int
  Elapsed :: int
  LimitTime :: int

text \<open>Whether a tracker has a meter and a client at all is fixed when it is made.\<close>

record BudgetTracker =
  bt_budget :: Budget
  bt_meter :: bool
  bt_roof :: Roof
  bt_client :: bool
  bt_start :: int
  warned :: bool
  warnedAbove :: bool

record Reading =
  meter_now :: int
  client_now :: int
  clock_now :: int

definition newBudgetTracker :: "Budget \<Rightarrow> bool \<Rightarrow> Roof \<Rightarrow> bool \<Rightarrow> int \<Rightarrow> BudgetTracker" where
  "newBudgetTracker b meter roof client now =
     \<lparr>bt_budget = b, bt_meter = meter, bt_roof = roof, bt_client = client, bt_start = now,
      warned = False, warnedAbove = False\<rparr>"

text \<open>\<^verbatim>\<open>time.Time.Sub\<close> saturates.\<close>

definition time_Sub :: "int \<Rightarrow> int \<Rightarrow> int" where
  "time_Sub t u = max min_i64 (min max_i64 (t - u))"

definition BT_Received :: "BudgetTracker \<Rightarrow> Reading \<Rightarrow> int" where
  "BT_Received t r = (if bt_client t then client_now r else 0)"

definition Spent :: "BudgetTracker \<Rightarrow> Reading \<Rightarrow> int \<times> int" where
  "Spent t r = (if bt_meter t then meter_now r else 0, time_Sub (clock_now r) (bt_start t))"

definition Limits :: "BudgetTracker \<Rightarrow> int \<times> int" where
  "Limits t = (MaxBytes (bt_budget t), MaxTime (bt_budget t))"

definition RoofLimit :: "BudgetTracker \<Rightarrow> int" where
  "RoofLimit t = (if bt_client t then Roof_MaxBytes (bt_roof t) else 0)"

definition Exhausted :: "BudgetTracker \<Rightarrow> Reading \<Rightarrow> bool \<times> StopReason" where
  "Exhausted t r =
     (if bt_client t \<and> Reached (bt_roof t) (client_now r) then (True, StopRoof)
      else case Spent t r of (bytes, elapsed) \<Rightarrow>
        if 0 < MaxTime (bt_budget t) \<and> MaxTime (bt_budget t) \<le> elapsed then (True, StopTime)
        else if 0 < MaxBytes (bt_budget t) \<and> MaxBytes (bt_budget t) \<le> bytes then (True, StopBudget)
        else (False, StopCompleted))"

definition roofWarning :: "BudgetTracker \<Rightarrow> Reading \<Rightarrow> BudgetWarning option \<times> BudgetTracker" where
  "roofWarning t r =
     (if \<not> bt_client t \<or> Roof_MaxBytes (bt_roof t) \<le> 0 \<or> f64_le (Roof_WarnAt (bt_roof t)) (0, 0) then (None, t)
      else let received = client_now r in
        if f64_less (f64_of_int received)
             (f64_mult (f64_of_int (Roof_MaxBytes (bt_roof t))) (Roof_WarnAt (bt_roof t))) then (None, t)
        else if warnedAbove t then (None, t)
        else case Spent t r of (_, elapsed) \<Rightarrow>
          (Some \<lparr>Scope = LimitClient, SpentBytes = received, LimitBytes = Roof_MaxBytes (bt_roof t),
                 Elapsed = elapsed, LimitTime = 0\<rparr>,
           t\<lparr>warnedAbove := True\<rparr>))"

definition runWarning :: "BudgetTracker \<Rightarrow> Reading \<Rightarrow> BudgetWarning option \<times> BudgetTracker" where
  "runWarning t r =
     (let b = bt_budget t in
      if f64_le (WarnAt b) (0, 0) then (None, t)
      else case Spent t r of (bytes, elapsed) \<Rightarrow>
        if \<not> (0 < MaxBytes b \<and> f64_le (f64_mult (f64_of_int (MaxBytes b)) (WarnAt b)) (f64_of_int bytes))
           \<and> \<not> (0 < MaxTime b \<and> f64_le (f64_mult (f64_of_int (MaxTime b)) (WarnAt b)) (f64_of_int elapsed))
        then (None, t)
        else if warned t then (None, t)
        else
          (Some \<lparr>Scope = LimitRun, SpentBytes = bytes, LimitBytes = MaxBytes b,
                 Elapsed = elapsed, LimitTime = MaxTime b\<rparr>,
           t\<lparr>warned := True\<rparr>))"

definition Warning :: "BudgetTracker \<Rightarrow> Reading \<Rightarrow> BudgetWarning option \<times> BudgetTracker" where
  "Warning t r =
     (case roofWarning t r of
        (Some w, t') \<Rightarrow> (Some w, t')
      | (None, t') \<Rightarrow> runWarning t' r)"

definition Remaining :: "BudgetTracker \<Rightarrow> Reading \<Rightarrow> int \<times> int" where
  "Remaining t r =
     (case Spent t r of (spentBytes, elapsed) \<Rightarrow>
        (if 0 < MaxBytes (bt_budget t) then
           (let bytes = w64 (MaxBytes (bt_budget t) - spentBytes) in if bytes < 0 then 0 else bytes)
         else 0,
         if 0 < MaxTime (bt_budget t) then
           (let remaining = w64 (MaxTime (bt_budget t) - elapsed) in if remaining < 0 then 0 else remaining)
         else 0))"

text \<open>The context a run works under: no deadline, already over, or one that ends after a time.\<close>

datatype RunContext = NoDeadline | AlreadyOver | Deadline int

definition BT_Context :: "BudgetTracker \<Rightarrow> Reading \<Rightarrow> RunContext" where
  "BT_Context t r =
     (if MaxTime (bt_budget t) \<le> 0 then NoDeadline
      else case Remaining t r of (_, remaining) \<Rightarrow>
        if remaining \<le> 0 then AlreadyOver else Deadline remaining)"

section \<open>The price of finishing\<close>

definition mib :: int where "mib = 2 ^ 20"

definition TopUpBytes :: "int \<Rightarrow> int \<Rightarrow> int \<Rightarrow> int \<Rightarrow> int" where
  "TopUpBytes remaining short captured spent =
     (if remaining \<le> 0 \<or> short \<le> 0 then 0
      else
        let want = MaxBytes (DefaultBudget short);
            measured = w64 (spent * w64 (remaining + 1)) sdiv captured;
            want = if 0 < captured \<and> 0 < spent \<and> want < measured then measured else want;
            want = w64 (w64 (want + mib - 1) sdiv mib * mib)
        in if maxRunBytes < want then maxRunBytes else want)"

definition TopUpFloor :: "int \<Rightarrow> int \<Rightarrow> int \<Rightarrow> int" where
  "TopUpFloor remaining captured spent =
     (if remaining \<le> 0 \<or> captured \<le> 0 \<or> spent \<le> 0 then 0
      else w64 (spent * remaining) sdiv captured)"

end
