(* ===== verification/BudgetLaws.thy ===== *)
theory BudgetLaws
  imports Budget
begin

text \<open>
  What the tracker of \<open>Budget\<close> promises the run it watches: a stop is final and agrees with what
  is left, each ceiling is announced once and never after the stop it announces, and the price of
  finishing a run covers an ordinary run of the same files.
\<close>

lemmas tracker_sels = BudgetTracker.select_convs BudgetTracker.update_convs

section \<open>Stopping\<close>

definition later :: "Reading \<Rightarrow> Reading \<Rightarrow> bool" where
  "later r r' \<longleftrightarrow> meter_now r \<le> meter_now r' \<and> client_now r \<le> client_now r' \<and> clock_now r \<le> clock_now r'"

fun rank :: "StopReason \<Rightarrow> nat" where
  "rank StopRoof = 3"
| "rank StopTime = 2"
| "rank StopBudget = 1"
| "rank StopCompleted = 0"
| "rank StopCancelled = 0"

definition same_limits :: "BudgetTracker \<Rightarrow> BudgetTracker \<Rightarrow> bool" where
  "same_limits t t' \<longleftrightarrow>
     bt_budget t' = bt_budget t \<and> bt_meter t' = bt_meter t \<and> bt_roof t' = bt_roof t \<and>
     bt_client t' = bt_client t \<and> bt_start t' = bt_start t"

lemma same_limits_refl [simp]: "same_limits t t"
  by (simp add: same_limits_def)

lemma same_limits_trans [trans]: "same_limits t u \<Longrightarrow> same_limits u v \<Longrightarrow> same_limits t v"
  by (simp add: same_limits_def)

lemma time_Sub_mono: "a \<le> b \<Longrightarrow> time_Sub a s \<le> time_Sub b s"
  by (simp add: time_Sub_def)

lemma Exhausted_cases:
  "Exhausted t r =
     (if bt_client t \<and> Reached (bt_roof t) (client_now r) then (True, StopRoof)
      else if 0 < MaxTime (bt_budget t) \<and> MaxTime (bt_budget t) \<le> snd (Spent t r) then (True, StopTime)
      else if 0 < MaxBytes (bt_budget t) \<and> MaxBytes (bt_budget t) \<le> fst (Spent t r) then (True, StopBudget)
      else (False, StopCompleted))"
  by (simp add: Exhausted_def Spent_def)

lemma Spent_mono:
  "later r r' \<Longrightarrow> same_limits t t' \<Longrightarrow> fst (Spent t r) \<le> fst (Spent t' r') \<and> snd (Spent t r) \<le> snd (Spent t' r')"
  by (simp add: Spent_def later_def same_limits_def time_Sub_mono)

lemma Reached_mono: "Reached f a \<Longrightarrow> a \<le> b \<Longrightarrow> Reached f b"
  by (simp add: Reached_def)

lemma stop_kept:
  assumes "later r r'" "same_limits t t'" "Exhausted t r = (True, why)"
  shows "fst (Exhausted t' r') \<and> rank why \<le> rank (snd (Exhausted t' r'))"
proof -
  from Spent_mono [OF assms(1,2)] have m:
    "fst (Spent t r) \<le> fst (Spent t' r')" "snd (Spent t r) \<le> snd (Spent t' r')" by auto
  from assms(1) have c: "client_now r \<le> client_now r'" by (simp add: later_def)
  from assms(2) have e: "bt_budget t' = bt_budget t" "bt_roof t' = bt_roof t" "bt_client t' = bt_client t"
    by (simp_all add: same_limits_def)
  show ?thesis
    using assms(3) m c Reached_mono [OF _ c]
    by (auto simp: Exhausted_cases e split: if_splits)
qed

section \<open>Warnings\<close>

definition roof_due :: "BudgetTracker \<Rightarrow> Reading \<Rightarrow> bool" where
  "roof_due t r \<longleftrightarrow>
     bt_client t \<and> 0 < Roof_MaxBytes (bt_roof t) \<and> f64_less (0, 0) (Roof_WarnAt (bt_roof t)) \<and>
     f64_le (f64_mult (f64_of_int (Roof_MaxBytes (bt_roof t))) (Roof_WarnAt (bt_roof t)))
       (f64_of_int (client_now r))"

definition run_due :: "BudgetTracker \<Rightarrow> Reading \<Rightarrow> bool" where
  "run_due t r \<longleftrightarrow>
     (let b = bt_budget t in
      f64_less (0, 0) (WarnAt b) \<and>
      (0 < MaxBytes b \<and> f64_le (f64_mult (f64_of_int (MaxBytes b)) (WarnAt b)) (f64_of_int (fst (Spent t r))) \<or>
       0 < MaxTime b \<and> f64_le (f64_mult (f64_of_int (MaxTime b)) (WarnAt b)) (f64_of_int (snd (Spent t r)))))"

lemma due_same:
  assumes "same_limits t t'"
  shows "roof_due t' r = roof_due t r" "run_due t' r = run_due t r"
  using assms by (simp_all add: roof_due_def run_due_def Spent_def same_limits_def)

definition roof_notice :: "BudgetTracker \<Rightarrow> Reading \<Rightarrow> BudgetWarning" where
  "roof_notice t r =
     \<lparr>Scope = LimitClient, SpentBytes = client_now r, LimitBytes = Roof_MaxBytes (bt_roof t),
      Elapsed = snd (Spent t r), LimitTime = 0\<rparr>"

definition run_notice :: "BudgetTracker \<Rightarrow> Reading \<Rightarrow> BudgetWarning" where
  "run_notice t r =
     \<lparr>Scope = LimitRun, SpentBytes = fst (Spent t r), LimitBytes = MaxBytes (bt_budget t),
      Elapsed = snd (Spent t r), LimitTime = MaxTime (bt_budget t)\<rparr>"

lemma Scope_notice [simp]: "Scope (roof_notice t r) = LimitClient" "Scope (run_notice t r) = LimitRun"
  by (simp_all add: roof_notice_def run_notice_def)

lemma roofWarning_eq:
  "roofWarning t r =
     (if roof_due t r \<and> \<not> warnedAbove t then (Some (roof_notice t r), t\<lparr>warnedAbove := True\<rparr>) else (None, t))"
  by (simp add: roofWarning_def roof_due_def roof_notice_def f64_le_def Let_def case_prod_unfold)

lemma runWarning_eq:
  "runWarning t r =
     (if run_due t r \<and> \<not> warned t then (Some (run_notice t r), t\<lparr>warned := True\<rparr>) else (None, t))"
  by (simp add: runWarning_def run_due_def run_notice_def f64_le_def Let_def case_prod_unfold)

lemma Warning_eq:
  "Warning t r =
     (if roof_due t r \<and> \<not> warnedAbove t then (Some (roof_notice t r), t\<lparr>warnedAbove := True\<rparr>)
      else if run_due t r \<and> \<not> warned t then (Some (run_notice t r), t\<lparr>warned := True\<rparr>)
      else (None, t))"
  by (simp add: Warning_def roofWarning_eq runWarning_eq)

lemma Warning_same_limits: "same_limits t (snd (Warning t r))"
  by (simp add: Warning_eq same_limits_def)

text \<open>The warnings a tracker gives over a run's readings, in order.\<close>

fun warnings :: "BudgetTracker \<Rightarrow> Reading list \<Rightarrow> BudgetWarning list" where
  "warnings t [] = []"
| "warnings t (r # rs) =
     (case Warning t r of (w, t') \<Rightarrow> (case w of None \<Rightarrow> [] | Some x \<Rightarrow> [x]) @ warnings t' rs)"

definition after_first :: "('a \<Rightarrow> bool) \<Rightarrow> 'a list \<Rightarrow> 'a list" where
  "after_first P xs = takeWhile (\<lambda>x. \<not> P x) xs @ tl (dropWhile (\<lambda>x. \<not> P x) xs)"

lemma after_first_simps [simp]:
  "after_first P [] = []"
  "after_first P (x # xs) = (if P x then xs else x # after_first P xs)"
  by (simp_all add: after_first_def)

definition of_scope :: "LimitScope \<Rightarrow> BudgetWarning list \<Rightarrow> BudgetWarning list" where
  "of_scope s ws = filter (\<lambda>w. Scope w = s) ws"

lemma of_scope_simps [simp]:
  "of_scope s [] = []"
  "of_scope s (w # ws) = (if Scope w = s then w # of_scope s ws else of_scope s ws)"
  by (simp_all add: of_scope_def)

definition first_notice :: "(Reading \<Rightarrow> BudgetWarning) \<Rightarrow> (Reading \<Rightarrow> bool) \<Rightarrow> Reading list \<Rightarrow> BudgetWarning list" where
  "first_notice f P rs = map f (take 1 (filter P rs))"

lemma first_notice_simps [simp]:
  "first_notice f P [] = []"
  "first_notice f P (r # rs) = (if P r then [f r] else first_notice f P rs)"
  by (simp_all add: first_notice_def)

lemma notice_latched [simp]:
  "roof_due (t\<lparr>warnedAbove := b\<rparr>) = roof_due t" "roof_due (t\<lparr>warned := b\<rparr>) = roof_due t"
  "run_due (t\<lparr>warnedAbove := b\<rparr>) = run_due t" "run_due (t\<lparr>warned := b\<rparr>) = run_due t"
  "roof_notice (t\<lparr>warnedAbove := b\<rparr>) = roof_notice t" "roof_notice (t\<lparr>warned := b\<rparr>) = roof_notice t"
  "run_notice (t\<lparr>warnedAbove := b\<rparr>) = run_notice t" "run_notice (t\<lparr>warned := b\<rparr>) = run_notice t"
  by (simp_all add: roof_due_def run_due_def roof_notice_def run_notice_def Spent_def fun_eq_iff)

lemma warnings_roof:
  "of_scope LimitClient (warnings t rs) =
     (if warnedAbove t then [] else first_notice (roof_notice t) (roof_due t) rs)"
  by (induction rs arbitrary: t) (simp_all add: Warning_eq)

lemma warnings_run:
  "of_scope LimitRun (warnings t rs) =
     (if warned t then []
      else first_notice (run_notice t) (run_due t) (if warnedAbove t then rs else after_first (roof_due t) rs))"
  by (induction rs arbitrary: t) (simp_all add: Warning_eq)

section \<open>The properties of the tracker\<close>

definition limits_ok :: "BudgetTracker \<Rightarrow> bool" where
  "limits_ok t \<longleftrightarrow>
     MaxBytes (bt_budget t) < 2 ^ 53 \<and> MaxTime (bt_budget t) < 2 ^ 53 \<and> Roof_MaxBytes (bt_roof t) < 2 ^ 53"

definition reading_ok :: "BudgetTracker \<Rightarrow> Reading \<Rightarrow> bool" where
  "reading_ok t r \<longleftrightarrow>
     0 \<le> meter_now r \<and> meter_now r < 2 ^ 53 \<and> 0 \<le> client_now r \<and> client_now r < 2 ^ 53 \<and>
     bt_start t \<le> clock_now r \<and> clock_now r - bt_start t < 2 ^ 53"

lemma Spent_ok:
  assumes "reading_ok t r"
  shows "0 \<le> fst (Spent t r)" "fst (Spent t r) < 2 ^ 53" "0 \<le> snd (Spent t r)" "snd (Spent t r) < 2 ^ 53"
  using assms by (auto simp: reading_ok_def Spent_def time_Sub_def max_i64_def min_i64_def)

lemma Remaining_ok:
  assumes "limits_ok t" "reading_ok t r"
  shows "Remaining t r =
     (if 0 < MaxBytes (bt_budget t) then max 0 (MaxBytes (bt_budget t) - fst (Spent t r)) else 0,
      if 0 < MaxTime (bt_budget t) then max 0 (MaxTime (bt_budget t) - snd (Spent t r)) else 0)"
proof -
  have w: "w64 (b - x) = b - x" if "0 < b" "b < 2 ^ 53" "0 \<le> x" "x < 2 ^ 53" for b x
    using that by (intro w64_id) (simp_all add: max_i64_def min_i64_def)
  show ?thesis
    using assms Spent_ok [OF assms(2)]
    by (simp add: Remaining_def case_prod_unfold Let_def limits_ok_def w max_def)
qed

text \<open>C22: A stop is final and it is the same fact the run's other questions see. Over meters and a clock
that only grow, a run once told to stop is told to stop at every later reading, whatever it was warned
of in between, and the reason can only be replaced by one that outranks it (the client's roof over the
clock, the clock over the traffic ceiling). A run is told to go on exactly when its client is below
its roof, the context made for the run is not already over, and some of a limited traffic allowance
is left.\<close>

theorem stop_is_final:
  assumes "limits_ok t" "reading_ok t r" "later r r'" "same_limits t t'"
  shows "(fst (Exhausted t r) \<longrightarrow>
            fst (Exhausted t' r') \<and> rank (snd (Exhausted t r)) \<le> rank (snd (Exhausted t' r'))) \<and>
         (\<not> fst (Exhausted t r) \<longleftrightarrow>
            \<not> (bt_client t \<and> 0 < RoofLimit t \<and> RoofLimit t \<le> BT_Received t r) \<and>
            BT_Context t r \<noteq> AlreadyOver \<and>
            (0 < fst (Limits t) \<longrightarrow> 0 < fst (Remaining t r)))"
proof (rule conjI, rule impI)
  assume "fst (Exhausted t r)"
  then have "Exhausted t r = (True, snd (Exhausted t r))" by (simp add: prod_eq_iff)
  from stop_kept [OF assms(3,4) this]
  show "fst (Exhausted t' r') \<and> rank (snd (Exhausted t r)) \<le> rank (snd (Exhausted t' r'))" .
next
  show "\<not> fst (Exhausted t r) \<longleftrightarrow>
           \<not> (bt_client t \<and> 0 < RoofLimit t \<and> RoofLimit t \<le> BT_Received t r) \<and>
           BT_Context t r \<noteq> AlreadyOver \<and>
           (0 < fst (Limits t) \<longrightarrow> 0 < fst (Remaining t r))"
    by (auto simp: Exhausted_cases Reached_def BT_Context_def Remaining_ok [OF assms(1,2)] RoofLimit_def
          BT_Received_def Limits_def max_def)
qed

definition demo_tracker :: BudgetTracker where
  "demo_tracker = newBudgetTracker (DefaultBudget 1) True \<lparr>Roof_MaxBytes = 1000, Roof_WarnAt = defaultWarnAt\<rparr> True 5"

definition demo_reading :: "int \<Rightarrow> int \<Rightarrow> int \<Rightarrow> Reading" where
  "demo_reading b c n = \<lparr>meter_now = b, client_now = c, clock_now = n\<rparr>"

lemmas budget_eval =
  demo_tracker_def demo_reading_def newBudgetTracker_def DefaultBudget_def w64_def bytesPerFile_def
  maxRunBytes_def defaultRunTime_def time_Sub_def min_i64_def max_i64_def Exhausted_cases Spent_def
  Reached_def

lemma stop_is_final_witness:
  "Exhausted demo_tracker (demo_reading 10 1000 6) = (True, StopRoof) \<and>
   fst (Exhausted demo_tracker (demo_reading 11 1500 9)) \<and>
   (\<not> fst (Exhausted demo_tracker (demo_reading 10 999 6)) \<longleftrightarrow>
      \<not> (bt_client demo_tracker \<and> 0 < RoofLimit demo_tracker \<and>
         RoofLimit demo_tracker \<le> BT_Received demo_tracker (demo_reading 10 999 6)) \<and>
      BT_Context demo_tracker (demo_reading 10 999 6) \<noteq> AlreadyOver \<and>
      (0 < fst (Limits demo_tracker) \<longrightarrow> 0 < fst (Remaining demo_tracker (demo_reading 10 999 6))))"
proof -
  have l: "limits_ok demo_tracker" by (simp add: limits_ok_def budget_eval)
  have o: "reading_ok demo_tracker (demo_reading 10 c 6)" if "0 \<le> c" "c < 2000" for c
    using that by (simp add: reading_ok_def budget_eval)
  have e: "Exhausted demo_tracker (demo_reading 10 1000 6) = (True, StopRoof)" by (simp add: budget_eval)
  have a: "later (demo_reading 10 1000 6) (demo_reading 11 1500 9)" by (simp add: later_def demo_reading_def)
  show ?thesis
    using stop_is_final [OF l o a same_limits_refl]
      stop_is_final [OF l o [of 999], of "demo_reading 10 999 6" demo_tracker] e
    by (simp add: later_def)
qed

lemma same_limits_warnedAbove: "same_limits t (t\<lparr>warnedAbove := b\<rparr>)" "same_limits t (t\<lparr>warned := b\<rparr>)"
  by (simp_all add: same_limits_def)

lemma default_share_le:
  "0 < n \<Longrightarrow> n < 2 ^ 53 \<Longrightarrow> n \<le> x \<Longrightarrow> x < 2 ^ 53 \<Longrightarrow>
   f64_le (f64_mult (f64_of_int n) defaultWarnAt) (f64_of_int x)"
  unfolding defaultWarnAt_def by (rule f64_share_le) simp_all

lemma roof_stop_due:
  "limits_ok t \<Longrightarrow> reading_ok t r \<Longrightarrow> Roof_WarnAt (bt_roof t) = defaultWarnAt \<Longrightarrow>
   Exhausted t r = (True, StopRoof) \<Longrightarrow> roof_due t r"
  by (auto simp: Exhausted_cases roof_due_def Reached_def limits_ok_def reading_ok_def
        intro: default_share_le split: if_splits) (simp add: defaultWarnAt_def f64_less_def)

lemma run_stop_due:
  assumes "limits_ok t" "reading_ok t r" "WarnAt (bt_budget t) = defaultWarnAt"
    "Exhausted t r = (True, why)" "why \<noteq> StopRoof"
  shows "run_due t r"
proof -
  have "f64_less (0, 0) defaultWarnAt" by (simp add: defaultWarnAt_def f64_less_def)
  moreover have
    "0 < MaxTime (bt_budget t) \<and> MaxTime (bt_budget t) \<le> snd (Spent t r) \<or>
     0 < MaxBytes (bt_budget t) \<and> MaxBytes (bt_budget t) \<le> fst (Spent t r)"
    using assms(4,5) by (auto simp: Exhausted_cases split: if_splits)
  ultimately show ?thesis
    using assms(1,3) Spent_ok [OF assms(2)]
    by (auto simp: run_due_def limits_ok_def Let_def intro: default_share_le)
qed

text \<open>Over the readings of a whole run the tracker announces each of the two ceilings at most once:
the client's roof at the first reading at which its share is reached, the run's own ceilings at the
first reading at which theirs is, passing over the one reading that announced the roof. Each notice
carries the scope, the figures and the limits of that reading. With the default share, a reading that
stops the run is one at which the notice of the ceiling that stopped it is due, so no run stops at a
ceiling whose announcement was not yet due.\<close>

theorem ceilings_announced:
  assumes "\<not> warned t" "\<not> warnedAbove t"
  shows "of_scope LimitClient (warnings t rs) = first_notice (roof_notice t) (roof_due t) rs \<and>
         of_scope LimitRun (warnings t rs) = first_notice (run_notice t) (run_due t) (after_first (roof_due t) rs) \<and>
         (limits_ok t \<and> reading_ok t r \<and> Roof_WarnAt (bt_roof t) = defaultWarnAt \<and>
          WarnAt (bt_budget t) = defaultWarnAt \<and> Exhausted t r = (True, why) \<longrightarrow>
          (if why = StopRoof then roof_due t r else run_due t r))"
  using assms roof_stop_due [of t r] run_stop_due [of t r why]
  by (simp_all add: warnings_roof warnings_run)

lemma ceilings_announced_witness:
  "of_scope LimitClient (warnings demo_tracker [demo_reading 10 1000 6]) =
     first_notice (roof_notice demo_tracker) (roof_due demo_tracker) [demo_reading 10 1000 6] \<and>
   roof_due demo_tracker (demo_reading 10 1000 6)"
proof -
  have u: "\<not> warned demo_tracker" "\<not> warnedAbove demo_tracker" by (simp_all add: budget_eval)
  have "limits_ok demo_tracker" "reading_ok demo_tracker (demo_reading 10 1000 6)"
    "Roof_WarnAt (bt_roof demo_tracker) = defaultWarnAt" "WarnAt (bt_budget demo_tracker) = defaultWarnAt"
    "Exhausted demo_tracker (demo_reading 10 1000 6) = (True, StopRoof)"
    by (simp_all add: limits_ok_def reading_ok_def budget_eval)
  then show ?thesis
    using ceilings_announced [OF u, of "[demo_reading 10 1000 6]" "demo_reading 10 1000 6" StopRoof] by simp
qed

section \<open>The price of finishing a run\<close>

lemma DefaultBudget_MaxBytes:
  "n \<le> 2 ^ 32 \<Longrightarrow> MaxBytes (DefaultBudget n) = min (max 1 n * bytesPerFile) maxRunBytes"
proof -
  assume n: "n \<le> 2 ^ 32"
  have "w64 (max 1 n * bytesPerFile) = max 1 n * bytesPerFile"
    using n by (intro w64_id) (simp_all add: max_i64_def min_i64_def bytesPerFile_def)
  moreover have "(if n < 1 then 1 else n) = max 1 n" by simp
  ultimately show ?thesis by (simp only: DefaultBudget_def Let_def Budget.select_convs) simp
qed

definition round_up :: "int \<Rightarrow> int" where
  "round_up x = (x + mib - 1) div mib * mib"

lemma round_up_bounds: "x \<le> round_up x" "round_up x < x + mib" "mib dvd round_up x"
proof -
  have m: "0 < mib" by (simp add: mib_def)
  have "(x + mib - 1) div mib * mib + (x + mib - 1) mod mib = x + mib - 1" by simp
  moreover have "0 \<le> (x + mib - 1) mod mib" "(x + mib - 1) mod mib < mib" using m by simp_all
  ultimately show "x \<le> round_up x" "round_up x < x + mib" unfolding round_up_def by linarith+
  show "mib dvd round_up x" by (simp add: round_up_def)
qed

definition receipt :: "int \<Rightarrow> int \<Rightarrow> int \<Rightarrow> int" where
  "receipt points captured spent = (if 0 < captured \<and> 0 < spent then spent * points div captured else 0)"

lemma receipt_bounds:
  assumes "spent * points \<le> 2 ^ 62" "0 \<le> points"
  shows "0 \<le> receipt points captured spent" "receipt points captured spent \<le> 2 ^ 62"
proof -
  have "spent * points div captured \<le> spent * points" if "0 < captured" "0 < spent"
    using that assms zdiv_mono2 [of "spent * points" 1 captured] by simp
  then show "receipt points captured spent \<le> 2 ^ 62" "0 \<le> receipt points captured spent"
    using assms by (auto simp: receipt_def div_int_pos_iff)
qed

lemma TopUpBytes_eq:
  assumes "0 < remaining" "0 < short" "short \<le> 2 ^ 32" "remaining < max_i64" "spent * (remaining + 1) \<le> 2 ^ 62"
  shows "TopUpBytes remaining short captured spent =
     min maxRunBytes (round_up (max (MaxBytes (DefaultBudget short)) (receipt (remaining + 1) captured spent)))"
proof -
  let ?d = "MaxBytes (DefaultBudget short)" and ?c = "receipt (remaining + 1) captured spent"
  have d: "0 \<le> ?d" "?d \<le> maxRunBytes" using assms by (auto simp: DefaultBudget_MaxBytes bytesPerFile_def maxRunBytes_def)
  have c: "0 \<le> ?c" "?c \<le> 2 ^ 62" using receipt_bounds [OF assms(5)] assms(1) by auto
  have r: "w64 (remaining + 1) = remaining + 1" using assms(1,4) by (intro w64_id) (simp_all add: min_i64_def)
  have m: "w64 (spent * w64 (remaining + 1)) sdiv captured = ?c" if "0 < captured" "0 < spent"
  proof -
    have "0 \<le> spent * (remaining + 1)" using that assms(1) by simp
    moreover have "w64 (spent * (remaining + 1)) = spent * (remaining + 1)"
      using assms(5) calculation by (intro w64_id) (simp_all add: min_i64_def max_i64_def)
    ultimately show ?thesis using that by (simp add: r receipt_def sdiv_nonneg)
  qed
  have want: "(if 0 < captured \<and> 0 < spent \<and> ?d < w64 (spent * w64 (remaining + 1)) sdiv captured
               then w64 (spent * w64 (remaining + 1)) sdiv captured else ?d) = max ?d ?c"
    using m d by (cases "0 < captured \<and> 0 < spent") (auto simp: receipt_def)
  have up: "w64 (w64 (x + mib - 1) sdiv mib * mib) = round_up x" if "0 \<le> x" "x \<le> 2 ^ 62" for x
  proof -
    have "w64 (x + mib - 1) = x + mib - 1" using that by (intro w64_id) (simp_all add: min_i64_def max_i64_def mib_def)
    moreover have "w64 (round_up x) = round_up x"
      using that round_up_bounds [of x] by (intro w64_id) (simp_all add: min_i64_def max_i64_def mib_def)
    ultimately show ?thesis using that by (simp add: sdiv_nonneg mib_def round_up_def)
  qed
  have "max ?d ?c \<le> 2 ^ 62" "0 \<le> max ?d ?c" using c d by (auto simp: maxRunBytes_def)
  then have "w64 (w64 (max ?d ?c + mib - 1) sdiv mib * mib) = round_up (max ?d ?c)" by (intro up)
  then show ?thesis
    using assms(1,2) unfolding TopUpBytes_def Let_def want by simp
qed

lemma TopUpFloor_eq:
  assumes "0 < remaining" "spent * remaining \<le> 2 ^ 62"
  shows "TopUpFloor remaining captured spent = receipt remaining captured spent"
proof -
  have "w64 (spent * remaining) sdiv captured = spent * remaining div captured" if "0 < captured" "0 < spent"
  proof -
    have "0 \<le> spent * remaining" using that assms by simp
    moreover have "w64 (spent * remaining) = spent * remaining"
      using calculation assms by (intro w64_id) (simp_all add: min_i64_def max_i64_def)
    ultimately show ?thesis using that by (simp add: sdiv_nonneg)
  qed
  then show ?thesis using assms(1) by (auto simp: TopUpFloor_def receipt_def)
qed

lemma receipt_mono: "points \<le> points' \<Longrightarrow> receipt points captured spent \<le> receipt points' captured spent"
  by (simp add: receipt_def zdiv_mono1 mult_left_mono)

lemma mib_dvd_max: "mib dvd maxRunBytes" "mib dvd bytesPerFile"
  by (simp_all add: mib_def maxRunBytes_def bytesPerFile_def)

lemma top_up_covers:
  assumes "short \<le> 2 ^ 32" "remaining < max_i64" "spent * (remaining + 1) \<le> 2 ^ 62" "0 \<le> spent"
    and p: "0 < remaining" "0 < short"
  shows "min (short * bytesPerFile) maxRunBytes \<le> TopUpBytes remaining short captured spent \<and>
         TopUpBytes remaining short captured spent \<le> maxRunBytes \<and>
         (TopUpBytes remaining short captured spent < maxRunBytes \<longrightarrow>
            TopUpFloor (remaining + 1) captured spent \<le> TopUpBytes remaining short captured spent \<and>
            TopUpFloor remaining captured spent \<le> TopUpBytes remaining short captured spent)"
proof -
  let ?t = "TopUpBytes remaining short captured spent"
  let ?w = "max (MaxBytes (DefaultBudget short)) (receipt (remaining + 1) captured spent)"
  have t: "?t = min maxRunBytes (round_up ?w)" using p assms by (intro TopUpBytes_eq)
  have "MaxBytes (DefaultBudget short) = min (short * bytesPerFile) maxRunBytes"
    using assms p by (simp add: DefaultBudget_MaxBytes)
  moreover have "spent * remaining \<le> spent * (remaining + 1)" using assms(4) by (simp add: mult_left_mono)
  then have "TopUpFloor remaining captured spent = receipt remaining captured spent"
    using p assms(3) by (intro TopUpFloor_eq) auto
  moreover have "TopUpFloor (remaining + 1) captured spent = receipt (remaining + 1) captured spent"
    using p assms by (intro TopUpFloor_eq) auto
  moreover have "receipt remaining captured spent \<le> receipt (remaining + 1) captured spent"
    by (rule receipt_mono) simp
  ultimately show ?thesis using t round_up_bounds(1) [of ?w] by (auto simp: min_def max_def split: if_splits)
qed

lemma top_up_offer:
  assumes "short \<le> 2 ^ 32" "remaining < max_i64" "spent * (remaining + 1) \<le> 2 ^ 62" "0 \<le> spent"
    and "0 < remaining" "0 < short"
  shows "0 < TopUpBytes remaining short captured spent \<and> TopUpBytes remaining short captured spent \<le> maxRunBytes"
proof -
  have "0 < min (short * bytesPerFile) maxRunBytes"
    using assms(6) by (simp add: bytesPerFile_def maxRunBytes_def)
  with top_up_covers [OF assms, of captured] show ?thesis by linarith
qed

text \<open>C23: Finishing a stopped run is offered a whole number of MiB, never less than a plain run of the
files still short would be allowed and never more than one run's cap; short of that cap it covers what
the receipt says of the points still owed and one more, and it is never below the least finishing can
cost. Nothing is offered exactly when no point is missing or no file is short.\<close>

theorem top_up_priced:
  assumes "short \<le> 2 ^ 32" "remaining < max_i64" "spent * (remaining + 1) \<le> 2 ^ 62" "0 \<le> spent"
  shows "(TopUpBytes remaining short captured spent = 0 \<longleftrightarrow> remaining \<le> 0 \<or> short \<le> 0) \<and>
         mib dvd TopUpBytes remaining short captured spent \<and>
         (0 < remaining \<and> 0 < short \<longrightarrow>
           min (short * bytesPerFile) maxRunBytes \<le> TopUpBytes remaining short captured spent \<and>
           TopUpBytes remaining short captured spent \<le> maxRunBytes \<and>
           (TopUpBytes remaining short captured spent < maxRunBytes \<longrightarrow>
              TopUpFloor (remaining + 1) captured spent \<le> TopUpBytes remaining short captured spent \<and>
              TopUpFloor remaining captured spent \<le> TopUpBytes remaining short captured spent))"
proof -
  let ?t = "TopUpBytes remaining short captured spent"
  have covers: "min (short * bytesPerFile) maxRunBytes \<le> ?t \<and> ?t \<le> maxRunBytes \<and>
           (?t < maxRunBytes \<longrightarrow>
              TopUpFloor (remaining + 1) captured spent \<le> ?t \<and> TopUpFloor remaining captured spent \<le> ?t)"
    if p: "0 < remaining" "0 < short"
    using assms p by (rule top_up_covers)
  have whole: "mib dvd ?t"
  proof (cases "remaining \<le> 0 \<or> short \<le> 0")
    case False
    then have "?t = min maxRunBytes (round_up (max (MaxBytes (DefaultBudget short)) (receipt (remaining + 1) captured spent)))"
      using assms by (intro TopUpBytes_eq) auto
    then show ?thesis using round_up_bounds(3) mib_dvd_max by (simp add: min_def)
  qed (simp add: TopUpBytes_def)
  have "?t = 0 \<longleftrightarrow> remaining \<le> 0 \<or> short \<le> 0"
    using top_up_offer [OF assms, of captured] by (auto simp: TopUpBytes_def)
  with covers whole show ?thesis by blast
qed

text \<open>The receipts of a real stopped set: one point missing of twenty, 20971520 bytes spent on one.\<close>

lemma top_up_priced_witness:
  "min (1 * bytesPerFile) maxRunBytes \<le> TopUpBytes 1 1 1 20971520 \<and> TopUpBytes 1 1 1 20971520 = 157286400 \<and>
   TopUpFloor 1 1 20971520 \<le> TopUpBytes 1 1 1 20971520"
proof -
  have v: "TopUpBytes 1 1 1 20971520 = 157286400" by code_simp
  have "TopUpBytes 1 1 1 20971520 < maxRunBytes" by (simp add: v maxRunBytes_def)
  with v top_up_priced [of 1 1 20971520 1] show ?thesis by (simp add: max_i64_def)
qed

end
