(* ===== verification/FilePaths.thy ===== *)
theory FilePaths
  imports GoText
begin

text \<open>
  Go's \<^verbatim>\<open>path/filepath\<close> on a Unix host, as far as the program uses it: cleaning, joining,
  the relative path between two places, and whether a path stays inside the directory it is read from. A
  path is taken apart into its components and whether it starts at the root; the lemmas show that cleaned
  paths are exactly the printed forms of component lists without surprises in them.
\<close>

section \<open>Components\<close>

abbreviation slash :: char where "slash \<equiv> CHR ''/''"

definition rooted :: "string \<Rightarrow> bool" where
  "rooted s \<longleftrightarrow> s \<noteq> [] \<and> hd s = slash"

text \<open>One component of a path being cleaned; what is kept so far is in reverse.\<close>

definition clean_step :: "bool \<Rightarrow> string list \<Rightarrow> string \<Rightarrow> string list" where
  "clean_step r out c =
     (if c = [] \<or> c = ''.'' then out
      else if c = ''..'' then
        (case out of [] \<Rightarrow> if r then [] else [c] | d # ds \<Rightarrow> if d = ''..'' then c # out else ds)
      else c # out)"

lemma clean_step_empty [simp]: "clean_step r out [] = out"
  by (simp add: clean_step_def)

definition path_parts :: "string \<Rightarrow> bool \<times> string list" where
  "path_parts s = (rooted s, rev (foldl (clean_step (rooted s)) [] (Split s slash)))"

definition path_show :: "bool \<times> string list \<Rightarrow> string" where
  "path_show p =
     (case p of (r, cs) \<Rightarrow> if r then slash # Join cs [slash] else if cs = [] then ''.'' else Join cs [slash])"

definition path_Clean :: "string \<Rightarrow> string" where
  "path_Clean s = path_show (path_parts s)"

text \<open>\<^verbatim>\<open>Join\<close> starts at the first element that is not empty.\<close>

definition path_Join :: "string list \<Rightarrow> string" where
  "path_Join elems =
     (case dropWhile (\<lambda>e. e = []) elems of [] \<Rightarrow> [] | es \<Rightarrow> path_Clean (Join es [slash]))"

text \<open>The part of a path up to its last slash, cleaned.\<close>

definition path_Dir :: "string \<Rightarrow> string" where
  "path_Dir s = path_Clean (rev (dropWhile (\<lambda>c. c \<noteq> slash) (rev s)))"

text \<open>What is left of two component lists after the part they share.\<close>

fun strip_common :: "string list \<Rightarrow> string list \<Rightarrow> string list \<times> string list" where
  "strip_common (a # as) (b # bs) = (if a = b then strip_common as bs else (a # as, b # bs))"
| "strip_common as bs = (as, bs)"

text \<open>\<^verbatim>\<open>Rel\<close>; \<open>None\<close> is its error.\<close>

definition path_Rel :: "string \<Rightarrow> string \<Rightarrow> string option" where
  "path_Rel base targ =
     (case path_parts base of (rb, bs) \<Rightarrow> case path_parts targ of (rt, ts) \<Rightarrow>
        if rb \<noteq> rt then None
        else (case strip_common bs ts of (bs, ts) \<Rightarrow>
          if bs \<noteq> [] \<and> hd bs = ''..'' then None
          else Some (path_show (False, replicate (length bs) ''..'' @ ts))))"

definition IsLocal :: "string \<Rightarrow> bool" where
  "IsLocal s \<longleftrightarrow>
     \<not> rooted s \<and> s \<noteq> [] \<and> (case snd (path_parts s) of [] \<Rightarrow> True | c # cs \<Rightarrow> c \<noteq> ''..'')"

section \<open>Clean paths\<close>

text \<open>Component lists as cleaning leaves them.\<close>

definition plain_part :: "string \<Rightarrow> bool" where
  "plain_part c \<longleftrightarrow> c \<noteq> [] \<and> c \<noteq> ''.'' \<and> c \<noteq> ''..'' \<and> slash \<notin> set c"

definition cleaned :: "bool \<times> string list \<Rightarrow> bool" where
  "cleaned p \<longleftrightarrow> (\<exists>n cs. snd p = replicate n ''..'' @ cs \<and> list_all plain_part cs \<and> (fst p \<longrightarrow> n = 0))"

lemma Split_parts: "c \<in> set (Split s sep) \<Longrightarrow> sep \<notin> set c"
  by (induction s arbitrary: c) (auto split: if_splits list.splits)

lemma Split_join: "Split (s @ sep # t) sep = Split s sep @ Split t sep"
  by (induction s) (auto split: list.splits)

text \<open>What cleaning has kept so far: plain components on top of steps up.\<close>

definition clean_stack :: "bool \<Rightarrow> string list \<Rightarrow> bool" where
  "clean_stack r out \<longleftrightarrow> (\<exists>n cs. out = cs @ replicate n ''..'' \<and> list_all plain_part cs \<and> (r \<longrightarrow> n = 0))"

lemma clean_step_stack:
  assumes "clean_stack r out" "slash \<notin> set c"
  shows "clean_stack r (clean_step r out c)"
proof -
  from assms(1) obtain n cs where o: "out = cs @ replicate n ''..''" "list_all plain_part cs" "r \<longrightarrow> n = 0"
    by (auto simp: clean_stack_def)
  consider (skip) "c = [] \<or> c = ''.''" | (up) "c = ''..''" | (down) "plain_part c"
    using assms(2) by (auto simp: plain_part_def)
  then show ?thesis
  proof cases
    case skip
    with assms(1) show ?thesis by (simp add: clean_step_def)
  next
    case up
    show ?thesis
    proof (cases cs)
      case Nil
      have "clean_step r out c = [] @ replicate (if r then 0 else Suc n) ''..''"
        using o up Nil by (cases n) (simp_all add: clean_step_def)
      then show ?thesis unfolding clean_stack_def
        by (intro exI [of _ "if r then 0 else Suc n"] exI [of _ "[]"]) simp
    next
      case (Cons d ds)
      with o up show ?thesis by (auto simp: clean_step_def clean_stack_def plain_part_def)
    qed
  next
    case down
    with o have "clean_step r out c = (c # cs) @ replicate n ''..''" "list_all plain_part (c # cs)"
      by (auto simp: clean_step_def plain_part_def)
    with o(3) show ?thesis unfolding clean_stack_def by blast
  qed
qed

lemma foldl_clean_stack:
  "clean_stack r out \<Longrightarrow> (\<And>c. c \<in> set cs \<Longrightarrow> slash \<notin> set c) \<Longrightarrow> clean_stack r (foldl (clean_step r) out cs)"
  by (induction cs arbitrary: out) (simp_all add: clean_step_stack)

lemma cleaned_parts: "cleaned (path_parts s)"
proof -
  have "clean_stack (rooted s) (foldl (clean_step (rooted s)) [] (Split s slash))"
    by (rule foldl_clean_stack) (auto simp: clean_stack_def dest: Split_parts)
  then obtain n cs where c: "foldl (clean_step (rooted s)) [] (Split s slash) = cs @ replicate n ''..''"
      "list_all plain_part cs" "rooted s \<longrightarrow> n = 0"
    by (auto simp: clean_stack_def)
  show ?thesis unfolding cleaned_def path_parts_def
    by (intro exI [of _ n] exI [of _ "rev cs"]) (use c in \<open>simp add: list_all_rev\<close>)
qed

lemma clean_ups: "foldl (clean_step False) (replicate k ''..'') (replicate n ''..'') = replicate (n + k) ''..''"
proof (induction n arbitrary: k)
  case (Suc n)
  have "clean_step False (replicate k ''..'') ''..'' = replicate (Suc k) ''..''"
    by (cases k) (simp_all add: clean_step_def)
  with Suc [of "Suc k"] show ?case by simp
qed simp

lemma clean_plain: "list_all plain_part cs \<Longrightarrow> foldl (clean_step r) out cs = rev cs @ out"
  by (induction cs arbitrary: out) (simp_all add: clean_step_def plain_part_def)

lemma cleaned_fixed: "cleaned (r, cs) \<Longrightarrow> rev (foldl (clean_step r) [] cs) = cs"
proof -
  assume "cleaned (r, cs)"
  then obtain n ds where c: "cs = replicate n ''..'' @ ds" "list_all plain_part ds" "r \<longrightarrow> n = 0"
    by (auto simp: cleaned_def)
  then show ?thesis using clean_ups [of 0 n] by (cases r) (auto simp: clean_plain)
qed

lemma parts_slashless: "cleaned (r, cs) \<Longrightarrow> c \<in> set cs \<Longrightarrow> slash \<notin> set c \<and> c \<noteq> []"
proof -
  assume "cleaned (r, cs)" "c \<in> set cs"
  then obtain n ds where "list_all plain_part ds" "c \<in> set (replicate n ''..'') \<or> c \<in> set ds"
    unfolding cleaned_def by auto
  then have "c = ''..'' \<or> plain_part c" by (auto simp: list_all_iff)
  then show ?thesis by (elim disjE) (simp_all add: plain_part_def)
qed

lemma hd_Join: "cs \<noteq> [] \<Longrightarrow> hd cs \<noteq> [] \<Longrightarrow> Join cs sep \<noteq> [] \<and> hd (Join cs sep) = hd (hd cs)"
proof -
  assume "cs \<noteq> []" "hd cs \<noteq> []"
  then obtain c ds where "cs = c # ds" "c \<noteq> []" by (cases cs) auto
  then show ?thesis by (cases ds) simp_all
qed

lemma parts_show: "cleaned p \<Longrightarrow> path_parts (path_show p) = p"
proof -
  assume c: "cleaned p"
  obtain r cs where p: "p = (r, cs)" by (cases p)
  note sl = parts_slashless [OF c [unfolded p]]
  show ?thesis
  proof (cases cs)
    case Nil
    then show ?thesis by (simp add: p path_show_def path_parts_def rooted_def clean_step_def)
  next
    case (Cons d ds)
    have s: "Split (Join cs [slash]) slash = cs" using Split_Join [of cs slash] sl Cons by auto
    have "hd d \<noteq> slash" using sl [of d] Cons by (cases d) auto
    then have h: "rooted (Join cs [slash]) = False"
      using hd_Join [of cs "[slash]"] sl [of d] Cons by (simp add: rooted_def)
    have f: "rev (foldl (clean_step r) [] cs) = cs" using c cleaned_fixed by (simp add: p)
    show ?thesis
    proof (cases r)
      case True
      with s f show ?thesis by (simp add: p path_show_def path_parts_def rooted_def)
    next
      case False
      with s f h Cons show ?thesis by (simp add: p path_show_def path_parts_def)
    qed
  qed
qed

lemma Clean_parts [simp]: "path_parts (path_Clean s) = path_parts s"
  by (simp add: path_Clean_def parts_show cleaned_parts)

lemma Clean_idempotent: "path_Clean (path_Clean s) = path_Clean s"
  unfolding path_Clean_def by (simp add: parts_show cleaned_parts)

lemma Clean_nonempty: "path_Clean s \<noteq> []"
  using cleaned_parts [of s] hd_Join [of "snd (path_parts s)" "[slash]"] parts_slashless [of "fst (path_parts s)" "snd (path_parts s)"]
  by (auto simp: path_Clean_def path_show_def split: prod.splits)

section \<open>Joining a plain name\<close>

lemma parts_append:
  assumes "d \<noteq> []" "plain_part n"
  shows "path_parts (d @ slash # n) = (fst (path_parts d), snd (path_parts d) @ [n])"
proof -
  have "rooted (d @ slash # n) = rooted d" using assms(1) by (simp add: rooted_def)
  moreover have "Split n slash = [n]" using assms(2) by (simp add: plain_part_def Split_absent)
  ultimately show ?thesis
    using clean_plain [of "[n]"] assms(2) by (simp add: path_parts_def Split_join)
qed

lemma Join_name:
  assumes "d \<noteq> []" "plain_part n"
  shows "path_Join [d, n] = path_show (fst (path_parts d), snd (path_parts d) @ [n])"
  using assms by (simp add: path_Join_def path_Clean_def parts_append)

lemma Join_names:
  assumes "d \<noteq> []" "plain_part n" "plain_part k"
  shows "path_Join [d, n, k] = path_Join [path_Join [d, n], k]"
proof -
  have "path_Join [d, n, k] = path_Clean ((d @ slash # n) @ slash # k)" using assms(1) by (simp add: path_Join_def)
  also have "\<dots> = path_show (fst (path_parts (d @ slash # n)), snd (path_parts (d @ slash # n)) @ [k])"
    unfolding path_Clean_def using assms(3) by (subst parts_append) simp_all
  also have "\<dots> = path_Join [path_Join [d, n], k]"
    using assms Join_name [OF Clean_nonempty assms(3), of "d @ slash # n"] by (simp add: path_Join_def)
  finally show ?thesis .
qed

lemma parts_Join:
  assumes "d \<noteq> []" "plain_part n"
  shows "path_parts (path_Join [d, n]) = (fst (path_parts d), snd (path_parts d) @ [n])"
  using assms by (simp add: path_Join_def parts_append)

lemma Join_two_nonempty: "d \<noteq> [] \<Longrightarrow> path_Join [d, n] \<noteq> []"
  by (simp add: path_Join_def Clean_nonempty)

lemma strip_common_prefix: "strip_common as (as @ bs) = ([], bs)"
  by (induction as) (cases bs; simp)+

lemma Rel_below:
  assumes "path_parts t = (fst (path_parts d), snd (path_parts d) @ cs)"
  shows "path_Rel d t = Some (path_show (False, cs))"
  using assms strip_common_prefix by (simp add: path_Rel_def split: prod.splits)

lemma plain_cleaned: "list_all plain_part cs \<Longrightarrow> cleaned (r, cs)"
  unfolding cleaned_def by (intro exI [of _ 0] exI [of _ cs]) simp

lemma show_local: "list_all plain_part cs \<Longrightarrow> cs \<noteq> [] \<Longrightarrow> IsLocal (path_show (False, cs))"
proof -
  assume p: "list_all plain_part cs" "cs \<noteq> []"
  then have "path_parts (path_show (False, cs)) = (False, cs)" by (intro parts_show plain_cleaned)
  moreover have "path_show (False, cs) \<noteq> []" "\<not> rooted (path_show (False, cs))"
    using p hd_Join [of cs "[slash]"] by (auto simp: path_show_def rooted_def neq_Nil_conv plain_part_def)
  ultimately show ?thesis using p by (auto simp: IsLocal_def plain_part_def split: list.splits)
qed

section \<open>Staying inside a directory\<close>

text \<open>The components of a path that stays inside begin with those of the directory.\<close>

definition inside :: "string \<Rightarrow> string \<Rightarrow> bool" where
  "inside d s \<longleftrightarrow> fst (path_parts s) = fst (path_parts d) \<and> (\<exists>cs. snd (path_parts s) = snd (path_parts d) @ cs)"

lemma clean_keeps_ups: "''..'' \<in> set out \<Longrightarrow> ''..'' \<in> set (clean_step False out c)"
  by (cases out) (auto simp: clean_step_def)

lemma clean_above:
  assumes "''..'' \<notin> set (foldl (clean_step False) [] cs)"
  shows "foldl (clean_step r) base cs = foldl (clean_step False) [] cs @ base"
  using assms
proof (induction cs rule: rev_induct)
  case (snoc c cs)
  let ?o = "foldl (clean_step False) [] cs"
  from snoc.prems have no: "''..'' \<notin> set ?o" using clean_keeps_ups by auto
  have "clean_step False ?o c \<noteq> [''..'']" using snoc.prems by auto
  then have "clean_step r (?o @ base) c = clean_step False ?o c @ base"
    using no by (cases ?o) (auto simp: clean_step_def)
  with snoc.IH no show ?case by simp
qed simp

lemma IsLocal_plain:
  assumes "IsLocal s"
  shows "fst (path_parts s) = False" "list_all plain_part (snd (path_parts s))"
proof -
  show "fst (path_parts s) = False" using assms by (simp add: IsLocal_def path_parts_def)
  from cleaned_parts [of s] obtain n cs where c: "snd (path_parts s) = replicate n ''..'' @ cs" "list_all plain_part cs"
    by (auto simp: cleaned_def)
  have "n = 0"
  proof (rule ccontr)
    assume "n \<noteq> 0"
    then obtain m where "n = Suc m" by (cases n) simp_all
    with assms c(1) show False by (simp add: IsLocal_def)
  qed
  with c show "list_all plain_part (snd (path_parts s))" by simp
qed

lemma parts_local_Join:
  assumes "IsLocal s" "d \<noteq> []"
  shows "path_parts (path_Join [d, s]) = (fst (path_parts d), snd (path_parts d) @ snd (path_parts s))"
proof -
  have r: "rooted s = False" using assms(1) by (simp add: IsLocal_def)
  have "''..'' \<notin> set (snd (path_parts s))"
    using IsLocal_plain(2) [OF assms(1)] by (auto simp: list_all_iff plain_part_def)
  then have "''..'' \<notin> set (foldl (clean_step False) [] (Split s slash))" by (simp add: path_parts_def r)
  note a = clean_above [OF this, of "rooted d" "foldl (clean_step (rooted d)) [] (Split d slash)"]
  have "rooted (d @ slash # s) = rooted d" using assms(2) by (simp add: rooted_def)
  with a have "path_parts (d @ slash # s) = (fst (path_parts d), snd (path_parts d) @ snd (path_parts s))"
    by (simp add: path_parts_def Split_join r)
  with assms(2) show ?thesis by (simp add: path_Join_def)
qed

lemma local_inside: "IsLocal s \<Longrightarrow> d \<noteq> [] \<Longrightarrow> inside d (path_Join [d, s])"
  by (simp add: inside_def parts_local_Join)

end
