(* ===== verification/TopUps.thy ===== *)
theory TopUps
  imports Cache BudgetLaws FilePaths
begin

text \<open>
  \<^verbatim>\<open>internal/web/runs.go\<close>: what a page is told before a stopped result set is finished, and
  the request that finishes it. The disk is an argument, as in \<open>Cache\<close>.
\<close>

section \<open>Requests\<close>

record CaptureWindow =
  cw_Start :: f64
  cw_End :: f64
  cw_Format :: string
  cw_Sequential :: bool

record RunRequest =
  rq_Source :: string
  rq_Mode :: string
  rq_Files :: "string list"
  rq_Count :: int
  rq_Label :: string
  rq_MaxBytes :: int
  rq_Window :: "CaptureWindow option"

section \<open>What finishing a set would take\<close>

record TopUpFile =
  tf_Index :: int
  tf_Path :: string
  tf_Captured :: int
  tf_Planned :: int

record TopUp =
  tu_InfoHash :: string
  tu_Params :: string
  tu_Count :: int
  tu_Files :: "TopUpFile list"
  tu_Captured :: int
  tu_Remaining :: int
  tu_SpentBytes :: int
  tu_CeilingBytes :: int
  tu_StoppedBy :: string
  tu_Limit :: string
  tu_OfferBytes :: int
  tu_RaiseHelps :: bool
  tu_RoofBytes :: int
  tu_RoofCapped :: bool
  tu_Refused :: string
  tu_Complete :: bool

definition tf_Short :: "TopUpFile \<Rightarrow> bool" where
  "tf_Short f \<longleftrightarrow> tf_Captured f < tf_Planned f"

definition LimitTraffic :: string where "LimitTraffic = ''traffic''"
definition Limit_Time :: string where "Limit_Time = ''time''"
definition LimitRoof :: string where "LimitRoof = ''roof''"

text \<open>The stop reasons as the manifests spell them.\<close>

definition stop_budget :: string where "stop_budget = ''budget''"
definition stop_time :: string where "stop_time = ''time''"
definition stop_roof :: string where "stop_roof = ''traffic_roof''"

definition absorbCost :: "TopUp \<Rightarrow> Cost \<Rightarrow> TopUp" where
  "absorbCost t c =
     (let t = (if tu_SpentBytes t < DownloadedBytes c
               then t\<lparr>tu_SpentBytes := DownloadedBytes c, tu_CeilingBytes := Cost_LimitBytes c\<rparr> else t)
      in if LimitHit c = [] then t
         else if tu_StoppedBy t = stop_roof then t
         else t\<lparr>tu_StoppedBy := LimitHit c,
                tu_Limit :=
                  (if LimitHit c = stop_roof then LimitRoof
                   else if LimitHit c = stop_time then Limit_Time
                   else if 0 < LimitMS c \<and> LimitMS c \<le> ElapsedMS c then Limit_Time
                   else LimitTraffic)\<rparr>)"

definition shortFiles :: "TopUp \<Rightarrow> int" where
  "shortFiles t = int (length (filter tf_Short (tu_Files t)))"

definition mbAtLeast :: "int \<Rightarrow> string" where
  "mbAtLeast bytes = Itoa (w64 (bytes + 1000 * 1000 - 1) sdiv (1000 * 1000)) @ '' MB''"

definition mbAtMost :: "int \<Rightarrow> string" where
  "mbAtMost bytes = Itoa (bytes sdiv (1000 * 1000)) @ '' MB''"

definition price :: "TopUp \<Rightarrow> int \<Rightarrow> TopUp" where
  "price t roofBytes =
     (let fl = TopUpFloor (tu_Remaining t) (tu_Captured t) (tu_SpentBytes t) in
      if 0 < roofBytes \<and> roofBytes < fl then
        t\<lparr>tu_Refused :=
            ''the client-wide traffic roof of '' @ mbAtMost roofBytes @ '' is below the '' @ mbAtLeast fl @
            '' finishing this would cost at '' @ ''the very least, so no run can complete it however often it is '' @
            ''started - raise -max-client-bytes, or ask for fewer frames''\<rparr>
      else
        let t = t\<lparr>tu_RaiseHelps := tu_Limit t = LimitTraffic \<or> tu_Limit t = []\<rparr> in
        if \<not> tu_RaiseHelps t then t
        else
          let t = t\<lparr>tu_OfferBytes := TopUpBytes (tu_Remaining t) (shortFiles t) (tu_Captured t) (tu_SpentBytes t)\<rparr> in
          if 0 < roofBytes \<and> roofBytes < tu_OfferBytes t
          then t\<lparr>tu_OfferBytes := roofBytes, tu_RoofCapped := True\<rparr> else t)"

text \<open>One selected file: skipped when the record does not know it, else measured against the plan. The
last entry of the record with an index is the one the code's map keeps.\<close>

definition byIndex :: "CacheFile list \<Rightarrow> int \<Rightarrow> CacheFile option" where
  "byIndex videos i = map_of (rev (map (\<lambda>v. (cf_Index v, v)) videos)) i"

definition topup_file :: "Disk \<Rightarrow> RunRecord \<Rightarrow> TopUp \<Rightarrow> int \<Rightarrow> TopUp" where
  "topup_file d r t index =
     (case byIndex (rr_Videos r) index of
        None \<Rightarrow> t
      | Some video \<Rightarrow>
          let planned = pl_Count (rr_Plan r);
              loaded = LoadManifest d (tu_InfoHash t) (tu_Params t) index (cf_Path video);
              t = (case loaded of None \<Rightarrow> t | Some m \<Rightarrow> absorbCost t (m_Cost m));
              captured = (case loaded of None \<Rightarrow> 0 | Some m \<Rightarrow> capturedFrames m);
              captured = (if planned < captured then planned else captured)
          in t\<lparr>tu_Files := tu_Files t @
                 [\<lparr>tf_Index = index, tf_Path = cf_Path video, tf_Captured = captured, tf_Planned = planned\<rparr>],
               tu_Captured := w64 (tu_Captured t + captured),
               tu_Remaining := w64 (tu_Remaining t + (planned - captured))\<rparr>)"

definition new_topup :: "string \<Rightarrow> string \<Rightarrow> int \<Rightarrow> int \<Rightarrow> TopUp" where
  "new_topup hash params n roof =
     \<lparr>tu_InfoHash = hash, tu_Params = params, tu_Count = n, tu_Files = [], tu_Captured = 0,
      tu_Remaining = 0, tu_SpentBytes = 0, tu_CeilingBytes = 0, tu_StoppedBy = [], tu_Limit = [],
      tu_OfferBytes = 0, tu_RaiseHelps = False, tu_RoofBytes = roof, tu_RoofCapped = False,
      tu_Refused = [], tu_Complete = False\<rparr>"

definition topUpFor :: "Disk \<Rightarrow> string \<Rightarrow> string \<Rightarrow> string \<Rightarrow> int \<Rightarrow> TopUp option" where
  "topUpFor d out_root infoHash params roofBytes =
     (if out_root = [] \<or> \<not> validInfoHash infoHash \<or> \<not> validParams params then None
      else case LoadRun d infoHash params of
        None \<Rightarrow> None
      | Some r \<Rightarrow>
          let t = new_topup infoHash params (pl_Count (rr_Plan r)) roofBytes in
          if pl_Count (rr_Plan r) \<le> 0 then
            Some (t\<lparr>tu_Refused := ''this run was recorded before torpeek kept the capture plan, '' @
                                  ''so there is no way to ask for the same frames again''\<rparr>)
          else if rr_Source r = [] then
            Some (t\<lparr>tu_Refused := ''this run was recorded before torpeek kept the source, '' @
                                  ''so there is nothing to run again without pasting the link''\<rparr>)
          else (case rr_Selected r of
            None \<Rightarrow>
              Some (t\<lparr>tu_Refused := ''this run was recorded before torpeek kept which files were asked for, '' @
                                    ''so there is no way to tell a file that was never picked from one that failed''\<rparr>)
          | Some sel \<Rightarrow>
              let t = foldl (topup_file d r) t sel in
              if tu_Files t = [] then
                Some (t\<lparr>tu_Refused := ''this run's record names no files that are still on disk''\<rparr>)
              else if tu_Remaining t = 0 then
                Some (t\<lparr>tu_Refused := ''every frame this run asked for is already on disk'', tu_Complete := True\<rparr>)
              else Some (price t roofBytes)))"

definition request :: "TopUp \<Rightarrow> RunRecord \<Rightarrow> RunRequest" where
  "request t r =
     \<lparr>rq_Source = rr_Source r, rq_Mode = pl_Profile (rr_Plan r),
      rq_Files = map (\<lambda>f. Itoa (tf_Index f)) (filter tf_Short (tu_Files t)),
      rq_Count = pl_Count (rr_Plan r), rq_Label = [], rq_MaxBytes = tu_OfferBytes t,
      rq_Window = Some \<lparr>cw_Start = pl_Start (rr_Plan r), cw_End = pl_End (rr_Plan r),
                        cw_Format = pl_Format (rr_Plan r), cw_Sequential = pl_Sequential (rr_Plan r)\<rparr>\<rparr>"

text \<open>The one result set of a torrent, when it has exactly one.\<close>

fun resolve_dirs :: "(string \<Rightarrow> RunRecord option) \<Rightarrow> (string \<times> bool) list \<Rightarrow> string \<Rightarrow> string option" where
  "resolve_dirs load [] found = (if found = [] then None else Some found)"
| "resolve_dirs load ((name, isdir) # ds) found =
     (if \<not> isdir then resolve_dirs load ds found
      else if load name = None then resolve_dirs load ds found
      else if found \<noteq> [] then None
      else resolve_dirs load ds name)"

definition resolveSet :: "Disk \<Rightarrow> string \<Rightarrow> string \<Rightarrow> string option" where
  "resolveSet d out_root infoHash =
     (if out_root = [] \<or> \<not> validInfoHash infoHash then None
      else case ReadDir d (path_Join [out_root, infoHash]) of
        None \<Rightarrow> None
      | Some dirs \<Rightarrow> resolve_dirs (LoadRun d infoHash) dirs [])"

text \<open>The offer for a torrent whose set is not named is the one of its only set.\<close>

definition Server_TopUp :: "Disk \<Rightarrow> string \<Rightarrow> int \<Rightarrow> string \<Rightarrow> string \<Rightarrow> TopUp option" where
  "Server_TopUp d out_root roofBytes infoHash params =
     (let infoHash = TrimSpace infoHash; params = TrimSpace params in
      if params = [] then
        (case resolveSet d out_root infoHash of
           None \<Rightarrow> None
         | Some resolved \<Rightarrow> topUpFor d out_root infoHash resolved roofBytes)
      else topUpFor d out_root infoHash params roofBytes)"

end
