(* ===== verification/TopUpLaws.thy ===== *)
theory TopUpLaws
  imports TopUps
begin

text \<open>
  The account a top-up gives of a stopped set adds up, and what it offers is a run that can finish it,
  inside the client's roof and under the plan the set was taken with.
\<close>

section \<open>Sums\<close>

lemma w64_add_left: "w64 (w64 a + b) = w64 (a + b)"
  by (simp add: w64_def mod_simps algebra_simps)

definition measured :: "Disk \<Rightarrow> RunRecord \<Rightarrow> string \<Rightarrow> string \<Rightarrow> int \<Rightarrow> CacheFile \<Rightarrow> TopUpFile" where
  "measured d r hash params i v =
     \<lparr>tf_Index = i, tf_Path = cf_Path v,
      tf_Captured = min (pl_Count (rr_Plan r))
        (case LoadManifest d hash params i (cf_Path v) of None \<Rightarrow> 0 | Some m \<Rightarrow> capturedFrames m),
      tf_Planned = pl_Count (rr_Plan r)\<rparr>"

definition measured_files :: "Disk \<Rightarrow> RunRecord \<Rightarrow> string \<Rightarrow> string \<Rightarrow> int list \<Rightarrow> TopUpFile list" where
  "measured_files d r hash params sel =
     concat (map (\<lambda>i. case byIndex (rr_Videos r) i of None \<Rightarrow> [] | Some v \<Rightarrow> [measured d r hash params i v]) sel)"

lemma measured_files_simps [simp]:
  "measured_files d r hash params [] = []"
  "measured_files d r hash params (i # sel) =
     (case byIndex (rr_Videos r) i of None \<Rightarrow> [] | Some v \<Rightarrow> [measured d r hash params i v]) @
     measured_files d r hash params sel"
  by (simp_all add: measured_files_def)

definition costs :: "Disk \<Rightarrow> RunRecord \<Rightarrow> string \<Rightarrow> string \<Rightarrow> int list \<Rightarrow> Cost list" where
  "costs d r hash params sel =
     concat (map (\<lambda>i. case byIndex (rr_Videos r) i of None \<Rightarrow> []
        | Some v \<Rightarrow> (case LoadManifest d hash params i (cf_Path v) of None \<Rightarrow> [] | Some m \<Rightarrow> [m_Cost m])) sel)"

lemma costs_simps [simp]:
  "costs d r hash params [] = []"
  "costs d r hash params (i # sel) =
     (case byIndex (rr_Videos r) i of None \<Rightarrow> []
      | Some v \<Rightarrow> (case LoadManifest d hash params i (cf_Path v) of None \<Rightarrow> [] | Some m \<Rightarrow> [m_Cost m])) @
     costs d r hash params sel"
  by (simp_all add: costs_def)

lemma absorbCost_fields [simp]:
  "tu_InfoHash (absorbCost t c) = tu_InfoHash t" "tu_Params (absorbCost t c) = tu_Params t"
  "tu_Files (absorbCost t c) = tu_Files t" "tu_Captured (absorbCost t c) = tu_Captured t"
  "tu_Remaining (absorbCost t c) = tu_Remaining t" "tu_Count (absorbCost t c) = tu_Count t"
  "tu_OfferBytes (absorbCost t c) = tu_OfferBytes t" "tu_RoofCapped (absorbCost t c) = tu_RoofCapped t"
  "tu_Refused (absorbCost t c) = tu_Refused t" "tu_Complete (absorbCost t c) = tu_Complete t"
  by (simp_all add: absorbCost_def Let_def)

lemma topup_file_none: "byIndex (rr_Videos r) i = None \<Longrightarrow> topup_file d r t i = t"
  by (simp add: topup_file_def)

lemma topup_file_some:
  assumes "byIndex (rr_Videos r) i = Some v"
  shows "tu_InfoHash (topup_file d r t i) = tu_InfoHash t" "tu_Params (topup_file d r t i) = tu_Params t"
    "tu_Files (topup_file d r t i) = tu_Files t @ [measured d r (tu_InfoHash t) (tu_Params t) i v]"
    "tu_Captured (topup_file d r t i) =
       w64 (tu_Captured t + tf_Captured (measured d r (tu_InfoHash t) (tu_Params t) i v))"
    "tu_Remaining (topup_file d r t i) =
       w64 (tu_Remaining t + (pl_Count (rr_Plan r) - tf_Captured (measured d r (tu_InfoHash t) (tu_Params t) i v)))"
    "tu_OfferBytes (topup_file d r t i) = tu_OfferBytes t" "tu_Refused (topup_file d r t i) = tu_Refused t"
    "tu_Complete (topup_file d r t i) = tu_Complete t"
    "tu_RoofCapped (topup_file d r t i) = tu_RoofCapped t"
  using assms by (simp_all add: topup_file_def measured_def Let_def min_def split: option.splits)

lemma topup_file_cost:
  assumes "byIndex (rr_Videos r) i = Some v"
  shows "(tu_SpentBytes (topup_file d r t i), tu_StoppedBy (topup_file d r t i), tu_Limit (topup_file d r t i)) =
     (let t' = (case LoadManifest d (tu_InfoHash t) (tu_Params t) i (cf_Path v) of None \<Rightarrow> t | Some m \<Rightarrow> absorbCost t (m_Cost m))
      in (tu_SpentBytes t', tu_StoppedBy t', tu_Limit t'))"
  using assms by (simp add: topup_file_def Let_def split: option.splits)

lemma fold_kept:
  "tu_InfoHash (foldl (topup_file d r) t sel) = tu_InfoHash t \<and>
   tu_Params (foldl (topup_file d r) t sel) = tu_Params t \<and>
   tu_OfferBytes (foldl (topup_file d r) t sel) = tu_OfferBytes t \<and>
   tu_Refused (foldl (topup_file d r) t sel) = tu_Refused t \<and>
   tu_Complete (foldl (topup_file d r) t sel) = tu_Complete t \<and>
   tu_RoofCapped (foldl (topup_file d r) t sel) = tu_RoofCapped t"
proof (induction sel arbitrary: t)
  case (Cons i sel)
  then show ?case
    by (cases "byIndex (rr_Videos r) i") (simp_all add: topup_file_none topup_file_some)
qed simp

lemma fold_files:
  "tu_Files (foldl (topup_file d r) t sel) = tu_Files t @ measured_files d r (tu_InfoHash t) (tu_Params t) sel"
proof (induction sel arbitrary: t)
  case (Cons i sel)
  then show ?case
    by (cases "byIndex (rr_Videos r) i") (simp_all add: topup_file_none topup_file_some)
qed simp

definition owed :: "TopUpFile \<Rightarrow> int" where
  "owed f = tf_Planned f - tf_Captured f"

lemma fold_sums:
  "w64 (tu_Captured t) = tu_Captured t \<Longrightarrow> w64 (tu_Remaining t) = tu_Remaining t \<Longrightarrow>
   tu_Captured (foldl (topup_file d r) t sel) =
     w64 (tu_Captured t + sum_list (map tf_Captured (measured_files d r (tu_InfoHash t) (tu_Params t) sel))) \<and>
   tu_Remaining (foldl (topup_file d r) t sel) =
     w64 (tu_Remaining t + sum_list (map owed (measured_files d r (tu_InfoHash t) (tu_Params t) sel)))"
proof (induction sel arbitrary: t)
  case (Cons i sel)
  show ?case
  proof (cases "byIndex (rr_Videos r) i")
    case None
    then show ?thesis using Cons by (simp add: topup_file_none)
  next
    case (Some v)
    let ?t = "topup_file d r t i" and ?f = "measured d r (tu_InfoHash t) (tu_Params t) i v"
    have o: "owed ?f = pl_Count (rr_Plan r) - tf_Captured ?f" by (simp add: owed_def measured_def)
    have c: "tu_Captured ?t = w64 (tu_Captured t + tf_Captured ?f)"
      and m: "tu_Remaining ?t = w64 (tu_Remaining t + owed ?f)"
      using Some by (simp_all add: topup_file_some o)
    have "w64 (tu_Captured ?t) = tu_Captured ?t" "w64 (tu_Remaining ?t) = tu_Remaining ?t"
      by (simp_all add: c m w64_idempotent)
    from Cons.IH [OF this] show ?thesis
      using Some by (simp add: topup_file_some(1,2) c m w64_add_left add.assoc)
  qed
qed simp

lemma measured_bounds:
  assumes "f \<in> set (measured_files d r hash params sel)" "0 \<le> pl_Count (rr_Plan r)"
  shows "0 \<le> tf_Captured f \<and> tf_Captured f \<le> tf_Planned f \<and> tf_Planned f = pl_Count (rr_Plan r)"
  using assms by (auto simp: measured_files_def measured_def capturedFrames_def split: option.splits)

lemma length_measured: "length (measured_files d r hash params sel) \<le> length sel"
proof (induction sel)
  case (Cons i sel)
  then show ?case by (cases "byIndex (rr_Videos r) i") simp_all
qed simp

lemma measured_indices:
  "map tf_Index (measured_files d r hash params sel) = filter (\<lambda>i. byIndex (rr_Videos r) i \<noteq> None) sel"
proof (induction sel)
  case (Cons i sel)
  then show ?case by (cases "byIndex (rr_Videos r) i") (simp_all add: measured_def)
qed simp

definition counted :: "int \<Rightarrow> TopUpFile \<Rightarrow> bool" where
  "counted n f \<longleftrightarrow> 0 \<le> tf_Captured f \<and> 0 \<le> owed f \<and> tf_Captured f + owed f = n \<and> (owed f = 0 \<longleftrightarrow> \<not> tf_Short f)"

lemma counted_sums:
  "list_all (counted n) fs \<Longrightarrow>
   0 \<le> sum_list (map tf_Captured fs) \<and> 0 \<le> sum_list (map owed fs) \<and>
   sum_list (map tf_Captured fs) + sum_list (map owed fs) = n * int (length fs) \<and>
   (sum_list (map owed fs) = 0 \<longleftrightarrow> list_all (\<lambda>f. \<not> tf_Short f) fs)"
proof (induction fs)
  case (Cons f fs)
  then have c: "counted n f" and IH: "0 \<le> sum_list (map tf_Captured fs)" "0 \<le> sum_list (map owed fs)"
    "sum_list (map tf_Captured fs) + sum_list (map owed fs) = n * int (length fs)"
    "sum_list (map owed fs) = 0 \<longleftrightarrow> list_all (\<lambda>f. \<not> tf_Short f) fs" by auto
  have d: "n * int (length (f # fs)) = n + n * int (length fs)" by (simp add: distrib_left)
  from c have f: "0 \<le> tf_Captured f" "0 \<le> owed f" "tf_Captured f + owed f = n" "owed f = 0 \<longleftrightarrow> \<not> tf_Short f"
    by (simp_all add: counted_def)
  have z: "owed f + sum_list (map owed fs) = 0 \<longleftrightarrow> owed f = 0 \<and> sum_list (map owed fs) = 0"
    using f(2) IH(2) by linarith
  have "tf_Captured f + sum_list (map tf_Captured fs) + (owed f + sum_list (map owed fs)) = n * int (length (f # fs))"
    unfolding d using f(3) IH(3) by linarith
  then show ?case using f(1,2,4) IH(1,2,4) z by simp
qed simp

lemma measured_counted:
  "0 \<le> pl_Count (rr_Plan r) \<Longrightarrow> list_all (counted (pl_Count (rr_Plan r))) (measured_files d r hash params sel)"
  by (auto simp: list_all_iff counted_def owed_def tf_Short_def dest: measured_bounds)

section \<open>Which ceiling stopped the set\<close>

lemma LimitRoof_neq [simp]: "LimitRoof \<noteq> LimitTraffic" "LimitRoof \<noteq> []" "Limit_Time \<noteq> LimitTraffic" "Limit_Time \<noteq> []"
  by (simp_all add: LimitRoof_def LimitTraffic_def Limit_Time_def)

lemma stop_roof_neq [simp]: "stop_roof \<noteq> []" "[] \<noteq> stop_roof"
  by (simp_all add: stop_roof_def)

definition roof_noted :: "TopUp \<Rightarrow> bool" where
  "roof_noted t \<longleftrightarrow> tu_StoppedBy t = stop_roof \<and> tu_Limit t = LimitRoof"

definition limit_ok :: "TopUp \<Rightarrow> bool" where
  "limit_ok t \<longleftrightarrow> 0 \<le> tu_SpentBytes t \<and> (tu_StoppedBy t = stop_roof \<longrightarrow> tu_Limit t = LimitRoof)"

lemma absorbCost_limit:
  "limit_ok t \<Longrightarrow> limit_ok (absorbCost t c)"
  "roof_noted t \<Longrightarrow> roof_noted (absorbCost t c)"
  "limit_ok t \<Longrightarrow> LimitHit c = stop_roof \<Longrightarrow> roof_noted (absorbCost t c)"
  by (auto simp: absorbCost_def limit_ok_def roof_noted_def Let_def)

lemma topup_file_limit:
  assumes "byIndex (rr_Videos r) i = Some v"
  shows "limit_ok (topup_file d r t i) \<longleftrightarrow> limit_ok (case LoadManifest d (tu_InfoHash t) (tu_Params t) i (cf_Path v) of None \<Rightarrow> t | Some m \<Rightarrow> absorbCost t (m_Cost m))"
    and "roof_noted (topup_file d r t i) \<longleftrightarrow> roof_noted (case LoadManifest d (tu_InfoHash t) (tu_Params t) i (cf_Path v) of None \<Rightarrow> t | Some m \<Rightarrow> absorbCost t (m_Cost m))"
  using topup_file_cost [OF assms, of d t]
  by (simp_all add: limit_ok_def roof_noted_def Let_def)

lemma fold_limit:
  "limit_ok t \<Longrightarrow>
   limit_ok (foldl (topup_file d r) t sel) \<and>
   (roof_noted t \<or> (\<exists>c\<in>set (costs d r (tu_InfoHash t) (tu_Params t) sel). LimitHit c = stop_roof) \<longrightarrow>
      roof_noted (foldl (topup_file d r) t sel))"
proof (induction sel arbitrary: t)
  case (Cons i sel)
  show ?case
  proof (cases "byIndex (rr_Videos r) i")
    case None
    then show ?thesis using Cons by (simp add: topup_file_none)
  next
    case (Some v)
    let ?t = "topup_file d r t i"
    have ok: "limit_ok ?t"
      using Cons.prems absorbCost_limit(1) by (simp add: topup_file_limit [OF Some] split: option.splits)
    have kept: "roof_noted t \<Longrightarrow> roof_noted ?t"
      using absorbCost_limit(2) by (simp add: topup_file_limit [OF Some] split: option.splits)
    have new: "roof_noted ?t"
      if "LoadManifest d (tu_InfoHash t) (tu_Params t) i (cf_Path v) = Some m" "LimitHit (m_Cost m) = stop_roof" for m
      using that Cons.prems absorbCost_limit(3) by (simp add: topup_file_limit [OF Some])
    show ?thesis
    proof (cases "LoadManifest d (tu_InfoHash t) (tu_Params t) i (cf_Path v)")
      case None
      with Cons.IH [OF ok] show ?thesis using Some kept by (simp add: topup_file_some(1,2))
    next
      case m: (Some m)
      with Cons.IH [OF ok] show ?thesis using Some kept new [OF m] by (auto simp: topup_file_some(1,2))
    qed
  qed
qed simp

section \<open>The offer\<close>

definition gathered :: "Disk \<Rightarrow> RunRecord \<Rightarrow> string \<Rightarrow> string \<Rightarrow> int \<Rightarrow> int list \<Rightarrow> TopUp" where
  "gathered d r hash params roof sel = foldl (topup_file d r) (new_topup hash params (pl_Count (rr_Plan r)) roof) sel"

lemma new_topup_sels [simp]:
  "tu_InfoHash (new_topup h p n f) = h" "tu_Params (new_topup h p n f) = p" "tu_Files (new_topup h p n f) = []"
  "tu_Captured (new_topup h p n f) = 0" "tu_Remaining (new_topup h p n f) = 0"
  "tu_OfferBytes (new_topup h p n f) = 0" "tu_Refused (new_topup h p n f) = []"
  "tu_Complete (new_topup h p n f) = False" "tu_SpentBytes (new_topup h p n f) = 0"
  "tu_RoofCapped (new_topup h p n f) = False" "limit_ok (new_topup h p n f)"
  by (simp_all add: new_topup_def limit_ok_def)

lemma gathered_fields:
  assumes "0 \<le> pl_Count (rr_Plan r)" "pl_Count (rr_Plan r) * int (length sel) \<le> max_i64"
  shows "tu_Files (gathered d r hash params roof sel) = measured_files d r hash params sel"
    and "tu_Captured (gathered d r hash params roof sel) = sum_list (map tf_Captured (measured_files d r hash params sel))"
    and "tu_Remaining (gathered d r hash params roof sel) = sum_list (map owed (measured_files d r hash params sel))"
proof -
  let ?m = "measured_files d r hash params sel" and ?n = "pl_Count (rr_Plan r)"
  show "tu_Files (gathered d r hash params roof sel) = ?m" by (simp add: gathered_def fold_files)
  from counted_sums [OF measured_counted [OF assms(1)]]
  have s: "0 \<le> sum_list (map tf_Captured ?m)" "0 \<le> sum_list (map owed ?m)"
    "sum_list (map tf_Captured ?m) + sum_list (map owed ?m) = ?n * int (length ?m)" by auto
  have "?n * int (length ?m) \<le> ?n * int (length sel)"
    using assms(1) length_measured by (intro mult_left_mono) simp_all
  with s assms(2) have u: "sum_list (map tf_Captured ?m) \<le> max_i64" "sum_list (map owed ?m) \<le> max_i64" by auto
  have z: "w64 0 = 0" by (intro w64_id) (simp_all add: min_i64_def max_i64_def)
  have "min_i64 \<le> 0" by (simp add: min_i64_def)
  then have "w64 (sum_list (map tf_Captured ?m)) = sum_list (map tf_Captured ?m)"
    "w64 (sum_list (map owed ?m)) = sum_list (map owed ?m)"
    using s u by (auto intro!: w64_id)
  then show "tu_Captured (gathered d r hash params roof sel) = sum_list (map tf_Captured ?m)"
    and "tu_Remaining (gathered d r hash params roof sel) = sum_list (map owed ?m)"
    using fold_sums [of "new_topup hash params ?n roof" d r sel] by (simp_all add: gathered_def z)
qed

definition readable :: "Disk \<Rightarrow> string \<Rightarrow> string \<Rightarrow> string \<Rightarrow> RunRecord \<Rightarrow> int list \<Rightarrow> bool" where
  "readable d dir hash params r sel \<longleftrightarrow>
     dir \<noteq> [] \<and> validInfoHash hash \<and> validParams params \<and> LoadRun d hash params = Some r \<and>
     0 < pl_Count (rr_Plan r) \<and> rr_Source r \<noteq> [] \<and> rr_Selected r = Some sel"

lemma topUpFor_readable:
  "readable d dir hash params r sel \<Longrightarrow>
   topUpFor d dir hash params roof =
     Some (let t = gathered d r hash params roof sel in
       if tu_Files t = [] then t\<lparr>tu_Refused := ''this run's record names no files that are still on disk''\<rparr>
       else if tu_Remaining t = 0
         then t\<lparr>tu_Refused := ''every frame this run asked for is already on disk'', tu_Complete := True\<rparr>
       else price t roof)"
  by (simp add: topUpFor_def readable_def gathered_def Let_def)

lemma topUpFor_unrefused:
  "topUpFor d dir hash params roof = Some t \<Longrightarrow> tu_Refused t = [] \<Longrightarrow>
   \<exists>r sel. readable d dir hash params r sel \<and> t = price (gathered d r hash params roof sel) roof \<and>
           tu_Files (gathered d r hash params roof sel) \<noteq> [] \<and>
           tu_Remaining (gathered d r hash params roof sel) \<noteq> 0"
  by (auto simp: topUpFor_def readable_def gathered_def Let_def split: if_splits option.splits)

lemma price_fields [simp]:
  "tu_Files (price t roof) = tu_Files t" "tu_Captured (price t roof) = tu_Captured t"
  "tu_Remaining (price t roof) = tu_Remaining t" "tu_Limit (price t roof) = tu_Limit t"
  "tu_SpentBytes (price t roof) = tu_SpentBytes t" "tu_Complete (price t roof) = tu_Complete t"
  by (simp_all add: price_def Let_def)

lemma price_unrefused:
  assumes "tu_Refused (price t roof) = []" "tu_OfferBytes t = 0"
  shows "roof \<le> 0 \<or> TopUpFloor (tu_Remaining t) (tu_Captured t) (tu_SpentBytes t) \<le> roof"
    and "tu_RaiseHelps (price t roof) \<longleftrightarrow> tu_Limit t = LimitTraffic \<or> tu_Limit t = []"
    and "tu_OfferBytes (price t roof) =
       (if tu_RaiseHelps (price t roof)
        then (let b = TopUpBytes (tu_Remaining t) (shortFiles t) (tu_Captured t) (tu_SpentBytes t)
              in if 0 < roof \<and> roof < b then roof else b)
        else 0)"
  using assms by (auto simp: price_def Let_def shortFiles_def split: if_splits)

definition demo_hash :: string where "demo_hash = replicate 40 CHR ''a''"
definition demo_params :: string where "demo_params = replicate 16 CHR ''1''"

definition demo_record :: RunRecord where
  "demo_record =
     \<lparr>rr_Source = ''magnet'', rr_InfoHash = demo_hash, rr_Name = ''n'', rr_Private = False,
      rr_Plan = \<lparr>pl_Count = 2, pl_Start = (0, 0), pl_End = (1, 0), pl_Profile = ''p'', pl_Format = ''jpg'', pl_Sequential = False\<rparr>,
      rr_Videos = [\<lparr>cf_Index = 3, cf_Path = ''a'', cf_Bytes = 9, cf_Offset = 0\<rparr>],
      rr_Files = None, rr_Selected = Some [3, 7], rr_Complete = [],
      rr_Claimed = None, rr_CreatedAt = 0\<rparr>"

definition demo_manifest :: Manifest where
  "demo_manifest =
     no_manifest\<lparr>m_Frames := [no_frame\<lparr>mf_Path := ''f''\<rparr>, no_frame\<lparr>mf_Index := 1, mf_Shift := ShiftFailed\<rparr>],
      m_Cost := no_cost\<lparr>DownloadedBytes := 1000, ElapsedMS := 5, Cost_LimitBytes := 900, LimitHit := stop_budget\<rparr>\<rparr>"

definition demo_disk :: Disk where
  "demo_disk =
     \<lparr>LoadRun = (\<lambda>h p. if h = demo_hash \<and> p = demo_params then Some demo_record else None),
      LoadManifest = (\<lambda>h p i path. if i = 3 then Some demo_manifest else None),
      ReadDir = (\<lambda>h. None), StatSize = (\<lambda>p. None)\<rparr>"

lemma demo_readable: "readable demo_disk ''out'' demo_hash demo_params demo_record [3, 7]"
  by (simp add: readable_def demo_disk_def demo_record_def demo_hash_def demo_params_def validInfoHash_def
        validParams_def hexOfLength_def list_all_iff)

definition demo_topup :: TopUp where
  "demo_topup = the (topUpFor demo_disk ''out'' demo_hash demo_params 500000000)"

lemma demo_topup:
  "topUpFor demo_disk ''out'' demo_hash demo_params 500000000 = Some demo_topup \<and> tu_Refused demo_topup = [] \<and>
   tu_SpentBytes demo_topup = 1000 \<and> tu_Remaining demo_topup = 1 \<and> tu_RaiseHelps demo_topup \<and>
   tu_Files demo_topup = [\<lparr>tf_Index = 3, tf_Path = ''a'', tf_Captured = 1, tf_Planned = 2\<rparr>]"
  unfolding demo_topup_def by code_simp

lemma demo_LoadRun: "LoadRun demo_disk demo_hash demo_params = Some demo_record"
  by (simp add: demo_disk_def)

lemma demo_counts: "pl_Count (rr_Plan demo_record) = 2" "rr_Selected demo_record = Some [3, 7]"
  by (simp_all add: demo_record_def)

text \<open>For a set whose record can be read, the account adds up: it lists the selected files the record
knows, in order, each with at most its planned frames captured; captured and owed points together are
the planned count per file times the files; and it is called complete exactly when it has files and
none is short of its plan.\<close>

theorem top_up_accounts:
  assumes "readable d dir hash params r sel" "pl_Count (rr_Plan r) * int (length sel) \<le> max_i64"
    and "topUpFor d dir hash params roof = Some t"
  shows "map tf_Index (tu_Files t) = filter (\<lambda>i. byIndex (rr_Videos r) i \<noteq> None) sel \<and>
         (\<forall>f\<in>set (tu_Files t). 0 \<le> tf_Captured f \<and> tf_Captured f \<le> tf_Planned f \<and> tf_Planned f = pl_Count (rr_Plan r)) \<and>
         tu_Captured t = sum_list (map tf_Captured (tu_Files t)) \<and>
         tu_Captured t + tu_Remaining t = pl_Count (rr_Plan r) * int (length (tu_Files t)) \<and>
         (tu_Complete t \<longleftrightarrow> tu_Files t \<noteq> [] \<and> (\<forall>f\<in>set (tu_Files t). \<not> tf_Short f))"
proof -
  let ?g = "gathered d r hash params roof sel" and ?m = "measured_files d r hash params sel"
  from assms(1) have n: "0 \<le> pl_Count (rr_Plan r)" by (simp add: readable_def)
  note g = gathered_fields [OF n assms(2), of d hash params roof]
  have f: "tu_Files t = ?m" "tu_Captured t = tu_Captured ?g" "tu_Remaining t = tu_Remaining ?g"
    and c: "tu_Complete t \<longleftrightarrow> tu_Files ?g \<noteq> [] \<and> tu_Remaining ?g = 0"
    using assms(3) fold_kept [of d r "new_topup hash params (pl_Count (rr_Plan r)) roof" sel]
    by (auto simp: topUpFor_readable [OF assms(1)] Let_def g(1) gathered_def [symmetric] split: if_splits)
  note s = counted_sums [OF measured_counted [OF n], of d hash params sel]
  have "map tf_Index (tu_Files t) = filter (\<lambda>i. byIndex (rr_Videos r) i \<noteq> None) sel"
    by (simp only: f measured_indices)
  moreover have "\<forall>f\<in>set (tu_Files t). 0 \<le> tf_Captured f \<and> tf_Captured f \<le> tf_Planned f \<and> tf_Planned f = pl_Count (rr_Plan r)"
    unfolding f using measured_bounds [OF _ n] by blast
  moreover have "tu_Captured t = sum_list (map tf_Captured (tu_Files t))" by (simp add: f g)
  moreover have "tu_Captured t + tu_Remaining t = pl_Count (rr_Plan r) * int (length (tu_Files t))"
    using s by (simp only: f g)
  moreover have "tu_Complete t \<longleftrightarrow> tu_Files t \<noteq> [] \<and> (\<forall>f\<in>set (tu_Files t). \<not> tf_Short f)"
    using s by (simp only: c f g list_all_iff)
  ultimately show ?thesis by (intro conjI)
qed

lemma top_up_accounts_witness:
  "map tf_Index (tu_Files demo_topup) = [3] \<and>
   tu_Captured demo_topup + tu_Remaining demo_topup = pl_Count (rr_Plan demo_record) * int (length (tu_Files demo_topup)) \<and>
   \<not> tu_Complete demo_topup"
proof -
  have n: "pl_Count (rr_Plan demo_record) * int (length [3 :: int, 7]) \<le> max_i64"
    by (simp add: demo_counts max_i64_def)
  note w = top_up_accounts [OF demo_readable n conjunct1 [OF demo_topup]]
  from w have "map tf_Index (tu_Files demo_topup) = [3]" by (simp add: byIndex_def demo_record_def)
  moreover from w have "\<not> tu_Complete demo_topup" using demo_topup by (simp add: tf_Short_def)
  ultimately show ?thesis using w by blast
qed

definition plan_of :: "RunRequest \<Rightarrow> RunPlan option" where
  "plan_of q =
     map_option (\<lambda>w. \<lparr>pl_Count = rq_Count q, pl_Start = cw_Start w, pl_End = cw_End w, pl_Profile = rq_Mode q,
                      pl_Format = cw_Format w, pl_Sequential = cw_Sequential w\<rparr>) (rq_Window q)"

text \<open>C34: An offer that is not refused is one that can finish the set. Its request names exactly the files
still short, at least one, and carries the whole plan the set was recorded with. A raise is offered
unless the roof or the clock stopped the set, and never when any of its files recorded the roof; then
it is positive, within one run's cap, within the client's roof if there is one, and that roof is not
below the least finishing costs. No raise means no ceiling of its own.\<close>

theorem top_up_request:
  assumes "topUpFor d dir hash params roof = Some t" "tu_Refused t = []"
    and "LoadRun d hash params = Some r" "rr_Selected r = Some sel" "length sel \<le> 2 ^ 32"
    and "pl_Count (rr_Plan r) * int (length sel) < max_i64"
    and "tu_SpentBytes t * (tu_Remaining t + 1) \<le> 2 ^ 62"
  shows "rq_Files (request t r) = map (Itoa \<circ> tf_Index) (filter tf_Short (tu_Files t)) \<and> rq_Files (request t r) \<noteq> [] \<and>
         plan_of (request t r) = Some (rr_Plan r) \<and> rq_Source (request t r) = rr_Source r \<and>
         (tu_RaiseHelps t \<longleftrightarrow> tu_Limit t = LimitTraffic \<or> tu_Limit t = []) \<and>
         ((\<exists>c\<in>set (costs d r hash params sel). LimitHit c = stop_roof) \<longrightarrow> \<not> tu_RaiseHelps t) \<and>
         (if tu_RaiseHelps t
         then 0 < rq_MaxBytes (request t r) \<and> rq_MaxBytes (request t r) \<le> maxRunBytes \<and>
              (0 < roof \<longrightarrow> rq_MaxBytes (request t r) \<le> roof \<and>
                 TopUpFloor (tu_Remaining t) (tu_Captured t) (tu_SpentBytes t) \<le> roof)
         else rq_MaxBytes (request t r) = 0)"
proof -
  from topUpFor_unrefused [OF assms(1,2)] assms(3,4)
  obtain rd: "readable d dir hash params r sel"
    and t: "t = price (gathered d r hash params roof sel) roof"
    and ne: "tu_Files (gathered d r hash params roof sel) \<noteq> []" "tu_Remaining (gathered d r hash params roof sel) \<noteq> 0"
    by (auto simp: readable_def)
  let ?g = "gathered d r hash params roof sel" and ?m = "measured_files d r hash params sel"
  from rd have n: "0 \<le> pl_Count (rr_Plan r)" by (simp add: readable_def)
  from assms(6) have le: "pl_Count (rr_Plan r) * int (length sel) \<le> max_i64" by simp
  note g = gathered_fields [OF n le, of d hash params roof]
  note s = counted_sums [OF measured_counted [OF n], of d hash params sel]
  have o: "tu_OfferBytes ?g = 0" and lim: "limit_ok ?g"
    using fold_kept [of d r "new_topup hash params (pl_Count (rr_Plan r)) roof" sel]
      fold_limit [of "new_topup hash params (pl_Count (rr_Plan r)) roof" d r sel]
    by (simp_all add: gathered_def)
  note p = price_unrefused [OF assms(2) [unfolded t] o]
  have sh: "filter tf_Short (tu_Files t) \<noteq> []"
    using s ne(2) by (auto simp: t g filter_empty_conv list_all_iff)
  then have files: "rq_Files (request t r) = map (Itoa \<circ> tf_Index) (filter tf_Short (tu_Files t)) \<and> rq_Files (request t r) \<noteq> []"
    by (simp add: request_def)
  have plan: "plan_of (request t r) = Some (rr_Plan r) \<and> rq_Source (request t r) = rr_Source r"
    by (simp add: plan_of_def request_def)
  have h: "tu_RaiseHelps t \<longleftrightarrow> tu_Limit t = LimitTraffic \<or> tu_Limit t = []"
    using p(2) by (simp add: t)
  have roofed: "\<not> tu_RaiseHelps t" if "\<exists>c\<in>set (costs d r hash params sel). LimitHit c = stop_roof"
    using that fold_limit [of "new_topup hash params (pl_Count (rr_Plan r)) roof" d r sel]
    unfolding h by (simp add: t gathered_def roof_noted_def)
  have owed: "0 < tu_Remaining ?g" using s ne(2) by (simp add: g)
  have short: "0 < shortFiles ?g" "shortFiles ?g \<le> 2 ^ 32"
  proof -
    have "length (filter tf_Short (tu_Files ?g)) \<le> length (tu_Files ?g)" by (rule length_filter_le)
    also have "\<dots> \<le> length sel" by (simp add: g length_measured)
    also have "\<dots> \<le> 2 ^ 32" by (rule assms(5))
    finally show "shortFiles ?g \<le> 2 ^ 32" by (simp add: shortFiles_def)
    show "0 < shortFiles ?g" using sh by (simp add: shortFiles_def t)
  qed
  have rem: "tu_Remaining ?g < max_i64"
  proof -
    have "tu_Remaining ?g \<le> pl_Count (rr_Plan r) * int (length ?m)" using s by (simp add: g)
    also have "\<dots> \<le> pl_Count (rr_Plan r) * int (length sel)"
      using n length_measured by (intro mult_left_mono) simp_all
    finally show ?thesis using assms(6) by simp
  qed
  let ?b = "TopUpBytes (tu_Remaining ?g) (shortFiles ?g) (tu_Captured ?g) (tu_SpentBytes ?g)"
  have b: "0 < ?b" "?b \<le> maxRunBytes"
    using top_up_offer [OF short(2) rem _ _ owed short(1), of "tu_SpentBytes ?g" "tu_Captured ?g"] assms(7) lim
    by (auto simp: t limit_ok_def)
  have r0: "rq_MaxBytes (request t r) = tu_OfferBytes t" by (simp add: request_def)
  have "if tu_RaiseHelps t
         then 0 < rq_MaxBytes (request t r) \<and> rq_MaxBytes (request t r) \<le> maxRunBytes \<and>
              (0 < roof \<longrightarrow> rq_MaxBytes (request t r) \<le> roof \<and>
                 TopUpFloor (tu_Remaining t) (tu_Captured t) (tu_SpentBytes t) \<le> roof)
         else rq_MaxBytes (request t r) = 0"
  proof (cases "tu_RaiseHelps t")
    case True
    then have "tu_OfferBytes t = (if 0 < roof \<and> roof < ?b then roof else ?b)"
      using p(3) by (simp add: t Let_def)
    with True b p(1) show ?thesis unfolding r0 by (auto simp: t)
  next
    case False
    then show ?thesis unfolding r0 using p(3) by (simp add: t)
  qed
  with files plan h roofed show ?thesis by blast
qed

lemma top_up_request_witness:
  "rq_Files (request demo_topup demo_record) \<noteq> [] \<and>
   plan_of (request demo_topup demo_record) = Some (rr_Plan demo_record) \<and>
   0 < rq_MaxBytes (request demo_topup demo_record) \<and>
   rq_MaxBytes (request demo_topup demo_record) \<le> 500000000"
proof -
  note d = demo_topup
  have n: "length [3 :: int, 7] \<le> 2 ^ 32" "pl_Count (rr_Plan demo_record) * int (length [3 :: int, 7]) < max_i64"
    "tu_SpentBytes demo_topup * (tu_Remaining demo_topup + 1) \<le> 2 ^ 62"
    using d by (simp_all add: demo_counts max_i64_def)
  note w = top_up_request [OF conjunct1 [OF d] _ demo_LoadRun demo_counts(2) n]
  show ?thesis using w d by (simp add: tf_Short_def)
qed

end
