(* ===== verification/RunQueue.thy ===== *)
theory RunQueue
  imports TopUps "HOL-Library.Multiset"
begin

text \<open>
  The run registry and its queue, \<^verbatim>\<open>internal/web/server.go\<close> and the types of
  \<^verbatim>\<open>internal/web/runs.go\<close>. Each function here is one critical section of the code, what
  one call does between taking and giving up \<^verbatim>\<open>Server.mu\<close>, or one of its actions on the registry
  outside the lock; the rest of a call (its later sections, what it does after unlocking, the goroutines it starts)
  is left behind as a \<open>Task\<close>. A context that is ended through a local handle is ended with the section. A server's
  entries are addressed
  by their ids, which is what the code's pointers amount to as long as ids are not drawn twice; an id no
  run has maps to a blank, finished entry. What goes to the event stream is not part of this state.

  The runner, the lister and the drawing of ids are arguments: what they answered when asked.
\<close>

section \<open>Entries\<close>

datatype RunState =
  RunQueued | RunRunning | RunReplaying | RunDone | RunFailed | RunCancelled | RunNeedsAction

definition final :: "RunState \<Rightarrow> bool" where
  "final s \<longleftrightarrow> s = RunDone \<or> s = RunFailed \<or> s = RunCancelled"

definition queueable :: "RunState \<Rightarrow> bool" where
  "queueable s \<longleftrightarrow> s = RunQueued \<or> s = RunNeedsAction"

definition PriorityLow :: int where "PriorityLow = - 1"
definition PriorityNormal :: int where "PriorityNormal = 0"
definition PriorityHigh :: int where "PriorityHigh = 1"

definition Priority_valid :: "int \<Rightarrow> bool" where
  "Priority_valid p \<longleftrightarrow> PriorityLow \<le> p \<and> p \<le> PriorityHigh"

definition Priority_String :: "int \<Rightarrow> string" where
  "Priority_String p =
     (if PriorityNormal < p then ''high'' else if p < PriorityNormal then ''low'' else ''normal'')"

text \<open>\<open>re_cancel\<close> is the handle of the context an entry's run works under, \<open>re_cleanup\<close> that of the
removal of the file its source was staged in.\<close>

record runEntry =
  re_source :: string
  re_req :: RunRequest
  re_state :: RunState
  re_cancel :: "nat option"
  re_cancelled :: bool
  re_cleanup :: "nat option"
  re_videos :: "int list"
  re_pending :: "string list"
  re_asked :: "string list"
  re_name :: string
  re_listed :: bool
  re_infoHash :: string
  re_err :: "string option"
  re_priority :: int
  re_queueSeq :: nat
  re_arrival :: int

definition no_request :: RunRequest where
  "no_request = \<lparr>rq_Source = [], rq_Mode = [], rq_Files = [], rq_Count = 0, rq_Label = [], rq_MaxBytes = 0,
                 rq_Window = None\<rparr>"

definition blank :: runEntry where
  "blank = \<lparr>re_source = [], re_req = no_request, re_state = RunDone, re_cancel = None, re_cancelled = False,
            re_cleanup = None, re_videos = [], re_pending = [], re_asked = [], re_name = [], re_listed = False,
            re_infoHash = [], re_err = None, re_priority = PriorityNormal, re_queueSeq = 0, re_arrival = 0\<rparr>"

section \<open>The server\<close>

text \<open>What is left of the calls under way: a call of \<open>dispatch\<close> about to take its next turn; a listing with
its context; a pump reading its stream with the outcome so far, the same after its cleanup, and the
sections it still has then; a retry or a start still to take the lock a second time; the cleanup of an entry
that is over, to be run after unlocking, and then a call of \<open>trim\<close>, each with whether \<open>dispatch\<close> follows it;
and a close after unlocking, with the entries whose contexts it still ends and whose cleanups it then runs.\<close>

datatype Task =
  Dispatching
| Listing string nat
| Pumping string RunState "string option"
| Settling string RunState "string option"
| Ending string string
| Passing string string
| Rearming string string RunRequest
| Retrying string RunRequest
| Starting RunRequest
| Cleaning string bool
| Trimming bool
| Stopping "string list" "string list"

record Server =
  sv_lister :: bool
  sv_replayer :: bool
  sv_entry :: "string \<Rightarrow> runEntry"
  sv_ids :: "string set"
  sv_order :: "string list"
  sv_waiting :: "string list"
  sv_queueSeq :: nat
  sv_arrivalSeq :: int
  sv_running :: "string set"
  sv_maxActive :: int
  sv_stopped :: bool
  sv_contexts :: nat
  sv_ended :: "nat set"
  sv_staged :: "nat set"
  sv_cleaned :: "nat list"
  sv_tasks :: "Task multiset"

definition DefaultMaxActiveTorrents :: int where "DefaultMaxActiveTorrents = 5"

definition maxActiveOrDefault :: "int \<Rightarrow> int" where
  "maxActiveOrDefault n = (if n \<le> 0 then DefaultMaxActiveTorrents else n)"

definition newServer :: "bool \<Rightarrow> bool \<Rightarrow> int \<Rightarrow> Server" where
  "newServer lister replayer maxActive =
     \<lparr>sv_lister = lister, sv_replayer = replayer, sv_entry = (\<lambda>_. blank), sv_ids = {}, sv_order = [],
      sv_waiting = [], sv_queueSeq = 0, sv_arrivalSeq = 0, sv_running = {},
      sv_maxActive = maxActiveOrDefault maxActive, sv_stopped = False, sv_contexts = 0, sv_ended = {},
      sv_staged = {}, sv_cleaned = [], sv_tasks = {#}\<rparr>"

text \<open>The registry's answer for an id.\<close>

definition lookup_run :: "Server \<Rightarrow> string \<Rightarrow> runEntry option" where
  "lookup_run s i = (if i \<in> set (sv_order s) then Some (sv_entry s i) else None)"

definition upd :: "string \<Rightarrow> (runEntry \<Rightarrow> runEntry) \<Rightarrow> Server \<Rightarrow> Server" where
  "upd i f s = s\<lparr>sv_entry := (sv_entry s)(i := f (sv_entry s i))\<rparr>"

definition leave :: "Task \<Rightarrow> Server \<Rightarrow> Server" where
  "leave t s = s\<lparr>sv_tasks := add_mset t (sv_tasks s)\<rparr>"

definition taken_up :: "Task \<Rightarrow> Server \<Rightarrow> Server" where
  "taken_up t s = s\<lparr>sv_tasks := sv_tasks s - {#t#}\<rparr>"

text \<open>Running an entry's cleanup, when it has one.\<close>

definition run_cleanup :: "nat option \<Rightarrow> Server \<Rightarrow> Server" where
  "run_cleanup c s = (case c of None \<Rightarrow> s | Some k \<Rightarrow> s\<lparr>sv_cleaned := sv_cleaned s @ [k]\<rparr>)"

definition end_context :: "nat option \<Rightarrow> Server \<Rightarrow> Server" where
  "end_context c s = (case c of None \<Rightarrow> s | Some k \<Rightarrow> s\<lparr>sv_ended := insert k (sv_ended s)\<rparr>)"

section \<open>The queue\<close>

definition queueBefore :: "runEntry \<Rightarrow> runEntry \<Rightarrow> bool" where
  "queueBefore a b \<longleftrightarrow>
     (if re_priority a \<noteq> re_priority b then re_priority b < re_priority a else re_queueSeq a < re_queueSeq b)"

text \<open>The place of an entry: before the first waiting one it comes before, else last.\<close>

definition insertWaitingLocked :: "string \<Rightarrow> Server \<Rightarrow> Server" where
  "insertWaitingLocked i s =
     (let later = (\<lambda>w. queueBefore (sv_entry s i) (sv_entry s w))
      in s\<lparr>sv_waiting := takeWhile (\<lambda>w. \<not> later w) (sv_waiting s) @ i # dropWhile (\<lambda>w. \<not> later w) (sv_waiting s)\<rparr>)"

definition enqueueWaitingLocked :: "string \<Rightarrow> Server \<Rightarrow> Server" where
  "enqueueWaitingLocked i s =
     (let n = Suc (sv_queueSeq s) in
      insertWaitingLocked i (upd i (\<lambda>e. e\<lparr>re_queueSeq := n\<rparr>) (s\<lparr>sv_queueSeq := n\<rparr>)))"

definition dropWaitingLocked :: "string \<Rightarrow> Server \<Rightarrow> Server" where
  "dropWaitingLocked i s = s\<lparr>sv_waiting := remove1 i (sv_waiting s)\<rparr>"

fun position_of :: "string list \<Rightarrow> string \<Rightarrow> nat" where
  "position_of [] i = 0"
| "position_of (w # ws) i = (if w = i then 1 else case position_of ws i of 0 \<Rightarrow> 0 | Suc n \<Rightarrow> Suc (Suc n))"

definition queuePositionLocked :: "Server \<Rightarrow> string \<Rightarrow> nat" where
  "queuePositionLocked s i = position_of (sv_waiting s) i"

definition releaseSlotLocked :: "string \<Rightarrow> Server \<Rightarrow> Server" where
  "releaseSlotLocked i s = s\<lparr>sv_running := sv_running s - {i}\<rparr>"

definition needsListingLocked :: "Server \<Rightarrow> string \<Rightarrow> bool" where
  "needsListingLocked s i \<longleftrightarrow> sv_lister s \<and> \<not> re_listed (sv_entry s i) \<and> rq_Files (re_req (sv_entry s i)) = []"

section \<open>Starting runs\<close>

datatype QueueError =
  ErrClosed
| ErrNoSuchRun
| NoSource
| NegativeCount int
| NothingRunning
| NameWhich
| AlreadyOver RunState
| NotFinished RunState
| PickAFile
| NotAVideo string
| TickRefused
| UntickRefused
| BadPriority int
| NotWaiting RunState
| BadWidth int
| DroppedFile
| ReplayUnavailable
| NothingNamed
| TopUpRefused string

definition startRun :: "RunRequest \<Rightarrow> nat option \<Rightarrow> string \<Rightarrow> Server \<Rightarrow> (QueueError + string) \<times> Server" where
  "startRun req cleanup i s =
     (let req = req\<lparr>rq_Source := TrimSpace (rq_Source req)\<rparr>;
          s = s\<lparr>sv_staged := sv_staged s \<union> set_option cleanup\<rparr> in
      if rq_Source req = [] then (Inl NoSource, run_cleanup cleanup s)
      else if rq_Count req < 0 then (Inl (NegativeCount (rq_Count req)), run_cleanup cleanup s)
      else if sv_stopped s then (Inl ErrClosed, run_cleanup cleanup s)
      else
        let arrival = sv_arrivalSeq s + 1;
            e = blank\<lparr>re_source := (if rq_Label req \<noteq> [] then rq_Label req else rq_Source req), re_req := req,
                      re_state := RunQueued, re_cleanup := cleanup, re_arrival := arrival\<rparr>;
            s = s\<lparr>sv_arrivalSeq := arrival, sv_ids := insert i (sv_ids s), sv_order := sv_order s @ [i]\<rparr>
        in (Inr i, leave Dispatching (enqueueWaitingLocked i (upd i (\<lambda>_. e) s))))"

text \<open>\<open>beginRun\<close> asks the runner; a refusal ends the entry and leaves its cleanup for after the unlocking, a
stream is left to a pump.\<close>

definition beginRun :: "(RunRequest \<Rightarrow> string option) \<Rightarrow> nat \<Rightarrow> string \<Rightarrow> Server \<Rightarrow> bool \<times> Server" where
  "beginRun runner ctx i s =
     (case runner (re_req (sv_entry s i)) of
        Some err \<Rightarrow>
          (False,
           leave (Cleaning i False)
             (releaseSlotLocked i
               (upd i (\<lambda>e. e\<lparr>re_state := RunFailed, re_err := Some err\<rparr>) (end_context (Some ctx) s))))
      | None \<Rightarrow>
          (True,
           leave (Pumping i RunDone None)
             ((upd i (\<lambda>e. e\<lparr>re_cancel := Some ctx, re_state := RunRunning\<rparr>) s)
                \<lparr>sv_running := insert i (sv_running s)\<rparr>)))"

text \<open>One turn of \<open>dispatch\<close>: whether it takes another.\<close>

definition dispatch :: "(string \<Rightarrow> RunRequest \<Rightarrow> string option) \<Rightarrow> Server \<Rightarrow> bool \<times> Server" where
  "dispatch runner s =
     (if sv_stopped s \<or> sv_maxActive s \<le> int (card (sv_running s)) \<or> sv_waiting s = [] then (False, s)
      else
        let i = hd (sv_waiting s);
            ctx = sv_contexts s;
            s = s\<lparr>sv_waiting := tl (sv_waiting s), sv_contexts := Suc ctx\<rparr>
        in if needsListingLocked s i then
             (True,
              leave (Listing i ctx)
                ((upd i (\<lambda>e. e\<lparr>re_cancel := Some ctx, re_state := RunRunning\<rparr>) s)
                   \<lparr>sv_running := insert i (sv_running s)\<rparr>))
           else (True, snd (beginRun (runner i) ctx i s)))"

text \<open>What the lister found: the name, the infohash and the indices of the video files.\<close>

record Contents =
  ct_Name :: string
  ct_InfoHash :: string
  ct_Videos :: "int list"

definition listed :: "(string + Contents) \<Rightarrow> runEntry \<Rightarrow> runEntry" where
  "listed answer e =
     (case answer of
        Inl err \<Rightarrow> e\<lparr>re_listed := True\<rparr>
      | Inr c \<Rightarrow> e\<lparr>re_listed := True, re_videos := ct_Videos c, re_infoHash := ct_InfoHash c, re_name := ct_Name c\<rparr>)"

definition listing_over :: "RunState \<Rightarrow> string option \<Rightarrow> nat \<Rightarrow> string \<Rightarrow> Server \<Rightarrow> Server" where
  "listing_over st err ctx i s =
     (let s = upd i (\<lambda>e. e\<lparr>re_state := st, re_err := err, re_cancel := None\<rparr>) s;
          s = end_context (Some ctx) (releaseSlotLocked i s)
      in leave (if st = RunNeedsAction then Dispatching else Cleaning i True) s)"

definition listThenRun ::
  "(RunRequest \<Rightarrow> string option) \<Rightarrow> nat \<Rightarrow> string \<Rightarrow> (string + Contents) \<Rightarrow> Server \<Rightarrow> Server" where
  "listThenRun runner ctx i answer s =
     (let s = upd i (listed answer) s; e = sv_entry s i in
      if re_cancelled e \<or> sv_stopped s then listing_over RunCancelled (re_err e) ctx i s
      else case answer of
        Inl err \<Rightarrow> listing_over RunFailed (Some err) ctx i s
      | Inr c \<Rightarrow>
          if 1 < length (ct_Videos c) then listing_over RunNeedsAction (re_err e) ctx i s
          else (case beginRun runner ctx i s of
                  (True, s') \<Rightarrow> s'
                | (False, s') \<Rightarrow> leave Dispatching s'))"

end
