(* ===== verification/RunOps.thy ===== *)
theory RunOps
  imports RunQueue
begin

text \<open>
  The handlers of \<^verbatim>\<open>internal/web/server.go\<close> that act on the registry of \<open>RunQueue\<close>: what
  a pump does with its stream and after it, cancelling, ticking and un-ticking files, priorities, the
  width of the queue, trimming, running again and closing.
\<close>

section \<open>The pump\<close>

text \<open>The events a pump reads that change its entry or its outcome.\<close>

datatype RunEvent =
  MetadataReady string string "int list"
| RunFailedEvent int string
| RunDoneEvent StopReason
| OtherEvent

definition pump_event :: "string \<Rightarrow> RunState \<Rightarrow> string option \<Rightarrow> RunEvent \<Rightarrow> Server \<Rightarrow> Server" where
  "pump_event i outcome failure ev s =
     (case ev of
        MetadataReady hash name videos \<Rightarrow>
          leave (Pumping i outcome failure)
            (upd i (\<lambda>e. e\<lparr>re_infoHash := hash, re_name := name, re_videos := videos\<rparr>) s)
      | RunFailedEvent fl err \<Rightarrow>
          leave (if fl < 0 then Pumping i RunFailed (Some err) else Pumping i outcome failure) s
      | RunDoneEvent reason \<Rightarrow>
          leave (if reason = StopCancelled \<and> outcome \<noteq> RunFailed then Pumping i RunCancelled failure
                 else Pumping i outcome failure) s
      | OtherEvent \<Rightarrow> leave (Pumping i outcome failure) s)"

text \<open>The stream has ended: the cleanup, before the lock is taken; then the final state and the slot.\<close>

definition pump_clean :: "string \<Rightarrow> RunState \<Rightarrow> string option \<Rightarrow> Server \<Rightarrow> Server" where
  "pump_clean i outcome failure s =
     leave (Settling i outcome failure) (run_cleanup (re_cleanup (sv_entry s i)) s)"

definition pump_over :: "string \<Rightarrow> RunState \<Rightarrow> string option \<Rightarrow> Server \<Rightarrow> Server" where
  "pump_over i outcome failure s =
     (let outcome = (if outcome = RunDone \<and> re_cancelled (sv_entry s i) then RunCancelled else outcome);
          s = releaseSlotLocked i (upd i (\<lambda>e. e\<lparr>re_state := outcome, re_err := failure\<rparr>) s)
      in leave (Ending i (re_infoHash (sv_entry s i))) s)"

text \<open>Its context is released, then the files ticked meanwhile are claimed, then run again.\<close>

definition pump_release :: "string \<Rightarrow> string \<Rightarrow> Server \<Rightarrow> Server" where
  "pump_release i hash s = leave (Passing i hash) (end_context (re_cancel (sv_entry s i)) s)"

definition pendingPass :: "string \<Rightarrow> Server \<Rightarrow> RunRequest option \<times> Server" where
  "pendingPass i s =
     (let e = sv_entry s i; s' = upd i (\<lambda>e. e\<lparr>re_pending := []\<rparr>) s in
      if re_pending e = [] \<or> re_cancelled e \<or> sv_stopped s then (None, s')
      else (Some ((re_req e)\<lparr>rq_Files := re_pending e, rq_MaxBytes := 0\<rparr>), s'))"

definition pump_pass :: "string \<Rightarrow> string \<Rightarrow> Server \<Rightarrow> Server" where
  "pump_pass i hash s =
     (case pendingPass i s of
        (None, s') \<Rightarrow> leave (Trimming True) s'
      | (Some req, s') \<Rightarrow> leave (Rearming i hash req) s')"

section \<open>Running again\<close>

text \<open>Where there is no finished entry of this torrent to run again, a fresh one is started once the lock has
been given up; its id is not known yet.\<close>

definition again :: "string \<Rightarrow> string \<Rightarrow> RunRequest \<Rightarrow> Server \<Rightarrow> (QueueError + string option) \<times> Server" where
  "again i infoHash req s =
     (if sv_stopped s then (Inl ErrClosed, s)
      else case lookup_run s i of
        None \<Rightarrow> (Inr None, leave (Starting req) s)
      | Some e \<Rightarrow>
          if \<not> final (re_state e) then (Inl (NotFinished (re_state e)), s)
          else if infoHash \<noteq> [] \<and> re_infoHash e \<noteq> [] \<and> re_infoHash e \<noteq> infoHash
          then (Inr None, leave (Starting req) s)
          else (Inr (Some i),
                leave Dispatching (enqueueWaitingLocked i
                  (upd i (\<lambda>e. e\<lparr>re_req := req, re_state := RunQueued, re_err := None, re_cancelled := False,
                               re_cleanup := None\<rparr>) s))))"

text \<open>A retry reads the request in one section and runs it again in the next.\<close>

definition RetryRun :: "string \<Rightarrow> Server \<Rightarrow> (QueueError + unit) \<times> Server" where
  "RetryRun i s =
     (let i = TrimSpace i in
      case (if i = [] then None else lookup_run s i) of
        None \<Rightarrow> (Inl ErrNoSuchRun, s)
      | Some e \<Rightarrow>
          if rq_Label (re_req e) \<noteq> [] then (Inl DroppedFile, s)
          else (Inr (), leave (Retrying i ((re_req e)\<lparr>rq_MaxBytes := 0\<rparr>)) s))"

text \<open>A top-up runs what \<open>TopUps\<close> priced; the record is read again in between.\<close>

definition TopUpRun ::
  "Disk \<Rightarrow> Disk \<Rightarrow> string \<Rightarrow> int \<Rightarrow> string \<Rightarrow> string \<Rightarrow> string \<Rightarrow> Server \<Rightarrow> (QueueError + string option) \<times> Server" where
  "TopUpRun d d' out roofBytes infoHash params i s =
     (let infoHash = TrimSpace infoHash; params = TrimSpace params in
      case Server_TopUp d out roofBytes infoHash params of
        None \<Rightarrow> (Inl ErrNoSuchRun, s)
      | Some plan \<Rightarrow>
          if tu_Refused plan \<noteq> [] then (Inl (TopUpRefused (tu_Refused plan)), s)
          else (case LoadRun d' infoHash (tu_Params plan) of
                  None \<Rightarrow> (Inl ErrNoSuchRun, s)
                | Some r \<Rightarrow> again (TrimSpace i) infoHash (request plan r) s))"

text \<open>A replay is pumped by the request itself, outside the queue.\<close>

definition ReopenRun :: "string \<Rightarrow> string \<Rightarrow> string \<Rightarrow> Server \<Rightarrow> (QueueError + string) \<times> Server" where
  "ReopenRun infoHash params i s =
     (let infoHash = TrimSpace infoHash; params = TrimSpace params in
      if infoHash = [] \<or> params = [] then (Inl NothingNamed, s)
      else if \<not> sv_replayer s then (Inl ReplayUnavailable, s)
      else if sv_stopped s then (Inl ErrClosed, s)
      else
        let arrival = sv_arrivalSeq s + 1;
            e = blank\<lparr>re_source := ''reopened'', re_state := RunReplaying, re_infoHash := infoHash,
                      re_cancel := Some (sv_contexts s), re_arrival := arrival\<rparr>;
            s = s\<lparr>sv_arrivalSeq := arrival, sv_ids := insert i (sv_ids s), sv_order := sv_order s @ [i],
                  sv_contexts := Suc (sv_contexts s)\<rparr>
        in (Inr i, leave (Pumping i RunDone None) (upd i (\<lambda>_. e) s)))"

section \<open>Cancelling\<close>

text \<open>The one entry of the running map, when there is one.\<close>

definition only_running :: "Server \<Rightarrow> QueueError + string" where
  "only_running s =
     (case filter (\<lambda>i. i \<in> sv_running s) (sv_order s) of
        [] \<Rightarrow> Inl NothingRunning
      | [i] \<Rightarrow> Inr i
      | _ \<Rightarrow> Inl NameWhich)"

definition cancel_entry :: "string \<Rightarrow> Server \<Rightarrow> (QueueError + string) \<times> Server" where
  "cancel_entry i s =
     (let e = sv_entry s i in
      case re_state e of
        RunRunning \<Rightarrow> (Inr i, end_context (re_cancel e) (upd i (\<lambda>e. e\<lparr>re_cancelled := True\<rparr>) s))
      | RunQueued \<Rightarrow>
          (Inr i,
           leave (Cleaning i False)
             (dropWaitingLocked i (upd i (\<lambda>e. e\<lparr>re_cancelled := True, re_state := RunCancelled\<rparr>) s)))
      | RunNeedsAction \<Rightarrow>
          (Inr i,
           leave (Cleaning i False) (upd i (\<lambda>e. e\<lparr>re_cancelled := True, re_state := RunCancelled\<rparr>) s))
      | st \<Rightarrow> (Inl (AlreadyOver st), s))"

definition CancelRun :: "string \<Rightarrow> Server \<Rightarrow> (QueueError + string) \<times> Server" where
  "CancelRun i s =
     (if i \<noteq> [] then
        (if lookup_run s i = None then (Inl ErrNoSuchRun, s) else cancel_entry i s)
      else case only_running s of
        Inl err \<Rightarrow> (Inl err, s)
      | Inr j \<Rightarrow> cancel_entry j s)"

section \<open>Ticking files\<close>

definition containsFile :: "string list \<Rightarrow> string \<Rightarrow> bool" where
  "containsFile files spec \<longleftrightarrow> spec \<in> set files"

fun withFiles :: "string list \<Rightarrow> string list \<Rightarrow> string list" where
  "withFiles have [] = have"
| "withFiles have (spec # want) =
     withFiles (if containsFile have spec then have else have @ [spec]) want"

definition withoutFiles :: "string list \<Rightarrow> string list \<Rightarrow> string list" where
  "withoutFiles want have = filter (\<lambda>spec. \<not> containsFile have spec) want"

definition holdsFile :: "runEntry \<Rightarrow> string \<Rightarrow> bool" where
  "holdsFile e spec = (case ParseInt spec of None \<Rightarrow> False | Some i \<Rightarrow> i \<in> set (re_videos e))"

definition asksEveryVideo :: "runEntry \<Rightarrow> bool" where
  "asksEveryVideo e \<longleftrightarrow> re_state e \<noteq> RunNeedsAction \<and> rq_Files (re_req e) = []"

text \<open>Why a tick is refused, nothing when it is not.\<close>

datatype TickRefusal = NoVideosYet | StagedCopyGoes | ReadBack | NoRunLeft RunState

definition refuseTick :: "runEntry \<Rightarrow> TickRefusal option" where
  "refuseTick e =
     (if re_videos e = [] then Some NoVideosYet
      else case re_state e of
        RunNeedsAction \<Rightarrow> None
      | RunQueued \<Rightarrow> None
      | RunRunning \<Rightarrow> if rq_Label (re_req e) \<noteq> [] then Some StagedCopyGoes else None
      | RunReplaying \<Rightarrow> Some ReadBack
      | st \<Rightarrow> Some (NoRunLeft st))"

datatype UntickRefusal = InThePass | ReadBackUntick | Undecided | NothingLeft | NotWaitingFor

definition refuseUntick :: "runEntry \<Rightarrow> string \<Rightarrow> UntickRefusal option" where
  "refuseUntick e spec =
     (if containsFile (re_pending e) spec then None
      else if re_state e = RunRunning \<and> (asksEveryVideo e \<or> containsFile (rq_Files (re_req e)) spec) then Some InThePass
      else if re_state e = RunReplaying then Some ReadBackUntick
      else if \<not> final (re_state e) \<and> \<not> queueable (re_state e) \<and> containsFile (rq_Files (re_req e)) spec then Some Undecided
      else if queueable (re_state e) \<and> containsFile (rq_Files (re_req e)) spec then None
      else if final (re_state e) then Some NothingLeft
      else Some NotWaitingFor)"

definition set_files :: "string list \<Rightarrow> runEntry \<Rightarrow> runEntry" where
  "set_files fs e = e\<lparr>re_req := (re_req e)\<lparr>rq_Files := fs\<rparr>\<rparr>"

definition set_count :: "bool \<Rightarrow> int \<Rightarrow> runEntry \<Rightarrow> runEntry" where
  "set_count b n e = (if b then e\<lparr>re_req := (re_req e)\<lparr>rq_Count := n\<rparr>\<rparr> else e)"

text \<open>The tick of an entry that is not refused, with the specs known to name its videos.\<close>

definition tick :: "string \<Rightarrow> string list \<Rightarrow> int \<Rightarrow> Server \<Rightarrow> Server" where
  "tick i chosen n s =
     (if asksEveryVideo (sv_entry s i) then s
      else
        let s = upd i (\<lambda>e. e\<lparr>re_asked := withFiles (re_asked e) chosen\<rparr>) s;
            e = sv_entry s i;
            parked = re_state e = RunNeedsAction
        in if re_state e = RunRunning then
             let want = withoutFiles chosen (rq_Files (re_req e));
                 opens = re_pending e = [];
                 grown = withFiles (re_pending e) want
             in if length grown = length (re_pending e) then s
                else leave Dispatching (upd i (\<lambda>e. set_count (0 < n \<and> opens) n (e\<lparr>re_pending := grown\<rparr>)) s)
           else
             let opens = rq_Files (re_req e) = [];
                 grown = withFiles (rq_Files (re_req e)) chosen
             in if length grown = length (rq_Files (re_req e)) \<and> \<not> parked then s
                else
                  let s = upd i (\<lambda>e. set_count (0 < n \<and> opens) n (set_files grown e)) s
                  in leave Dispatching
                       (if parked then enqueueWaitingLocked i (upd i (\<lambda>e. e\<lparr>re_state := RunQueued\<rparr>) s) else s))"

definition DecideRun :: "string \<Rightarrow> string list \<Rightarrow> int \<Rightarrow> Server \<Rightarrow> (QueueError + string) \<times> Server" where
  "DecideRun i files n s =
     (let i = TrimSpace i in
      if i = [] then (Inl ErrNoSuchRun, s)
      else if files = [] then (Inl PickAFile, s)
      else if n < 0 then (Inl (NegativeCount n), s)
      else if sv_stopped s then (Inl ErrClosed, s)
      else case lookup_run s i of
        None \<Rightarrow> (Inl ErrNoSuchRun, s)
      | Some e \<Rightarrow>
          if refuseTick e \<noteq> None then (Inl TickRefused, s)
          else
            let chosen = map TrimSpace files in
            (case filter (\<lambda>spec. \<not> holdsFile e spec) chosen of
               spec # _ \<Rightarrow> (Inl (NotAVideo spec), s)
             | [] \<Rightarrow> (Inr i, tick i chosen n s)))"

definition untick :: "string \<Rightarrow> string \<Rightarrow> Server \<Rightarrow> Server" where
  "untick i spec s =
     (let s = upd i (\<lambda>e. e\<lparr>re_pending := withoutFiles (re_pending e) [spec],
                          re_asked := withoutFiles (re_asked e) [spec]\<rparr>) s;
          e = sv_entry s i
      in if queueable (re_state e) \<and> containsFile (rq_Files (re_req e)) spec then
           let s = upd i (set_files (withoutFiles (rq_Files (re_req e)) [spec])) s;
               e = sv_entry s i
           in if rq_Files (re_req e) = [] \<and> re_state e = RunQueued then
                upd i (\<lambda>e. e\<lparr>re_state := RunNeedsAction\<rparr>) (dropWaitingLocked i s)
              else s
         else s)"

definition UntickFile :: "string \<Rightarrow> string \<Rightarrow> Server \<Rightarrow> (QueueError + string) \<times> Server" where
  "UntickFile i spec s =
     (let i = TrimSpace i; spec = TrimSpace spec in
      if i = [] then (Inl ErrNoSuchRun, s)
      else if sv_stopped s then (Inl ErrClosed, s)
      else case lookup_run s i of
        None \<Rightarrow> (Inl ErrNoSuchRun, s)
      | Some e \<Rightarrow>
          if \<not> holdsFile e spec then (Inl (NotAVideo spec), s)
          else if refuseUntick e spec \<noteq> None then (Inl UntickRefused, s)
          else (Inr i, untick i spec s))"

section \<open>Priorities, width, trimming, closing\<close>

definition SetRunPriority :: "string \<Rightarrow> int \<Rightarrow> Server \<Rightarrow> (QueueError + string) \<times> Server" where
  "SetRunPriority i p s =
     (let i = TrimSpace i in
      if i = [] then (Inl ErrNoSuchRun, s)
      else if \<not> Priority_valid p then (Inl (BadPriority p), s)
      else if sv_stopped s then (Inl ErrClosed, s)
      else case lookup_run s i of
        None \<Rightarrow> (Inl ErrNoSuchRun, s)
      | Some e \<Rightarrow>
          if \<not> queueable (re_state e) then (Inl (NotWaiting (re_state e)), s)
          else
            let s = upd i (\<lambda>e. e\<lparr>re_priority := p\<rparr>) s in
            (Inr i,
             leave Dispatching
               (if re_state e = RunQueued then insertWaitingLocked i (dropWaitingLocked i s) else s)))"

definition SetMaxActiveTorrents :: "int \<Rightarrow> Server \<Rightarrow> (QueueError + unit) \<times> Server" where
  "SetMaxActiveTorrents n s =
     (if n < 1 then (Inl (BadWidth n), s) else (Inr (), leave Dispatching (s\<lparr>sv_maxActive := n\<rparr>)))"

definition keepFinishedRuns :: nat where "keepFinishedRuns = 10"

text \<open>The ids \<open>trim\<close> drops, walking the registry from its end.\<close>

fun trim_drops :: "(string \<Rightarrow> bool) \<Rightarrow> nat \<Rightarrow> string list \<Rightarrow> string list" where
  "trim_drops over finished [] = []"
| "trim_drops over finished (i # is) =
     (if \<not> over i then trim_drops over finished is
      else (if keepFinishedRuns < Suc finished then [i] else []) @ trim_drops over (Suc finished) is)"

definition trim :: "Server \<Rightarrow> Server" where
  "trim s =
     (let gone = trim_drops (\<lambda>i. final (re_state (sv_entry s i))) 0 (rev (sv_order s))
      in s\<lparr>sv_order := filter (\<lambda>i. i \<notin> set gone) (sv_order s)\<rparr>)"

text \<open>What follows an entry's end once the lock is given up: whatever cleanup the entry holds then.\<close>

definition clean_entry :: "string \<Rightarrow> bool \<Rightarrow> Server \<Rightarrow> Server" where
  "clean_entry i b s = leave (Trimming b) (run_cleanup (re_cleanup (sv_entry s i)) s)"

text \<open>Closing strands what waits and what is parked. Once it has given up the lock it ends the contexts of what
was running then, and after them it cleans up what it stranded. Where an entry has no context any more the code
calls through nil, which ends the process; the model goes on.\<close>

definition strand :: "string \<Rightarrow> Server \<Rightarrow> Server" where
  "strand i s = upd i (\<lambda>e. e\<lparr>re_cancelled := True, re_state := RunCancelled\<rparr>) s"

definition Server_Close :: "Server \<Rightarrow> Server" where
  "Server_Close s =
     (if sv_stopped s then s
      else
        let running = filter (\<lambda>i. i \<in> sv_running s) (sv_order s);
            stranded = sv_waiting s @ filter (\<lambda>i. re_state (sv_entry s i) = RunNeedsAction) (sv_order s);
            s = s\<lparr>sv_stopped := True, sv_waiting := []\<rparr>
        in leave (Stopping running stranded) (fold strand stranded s))"

fun close_on :: "string list \<Rightarrow> string list \<Rightarrow> Server \<Rightarrow> Server" where
  "close_on (i # is) js s = leave (Stopping is js) (end_context (re_cancel (sv_entry s i)) s)"
| "close_on [] (j # js) s = leave (Stopping [] js) (run_cleanup (re_cleanup (sv_entry s j)) s)"
| "close_on [] [] s = s"

end
