(* ===== verification/WaitingLine.thy ===== *)
theory WaitingLine
  imports Prelude
begin

text \<open>
  The contract between the run registry and its queue: a strict order on places and an insertion that
  keeps a line in that order. What the registry relies on follows from it: a line is determined by who
  stands in it, its head goes before everyone else, and leaving and coming back with the same claim
  gives back the same line.
\<close>

locale waiting_line =
  fixes before :: "'k \<Rightarrow> 'k \<Rightarrow> bool"
    and place :: "('a \<Rightarrow> 'k) \<Rightarrow> 'a \<Rightarrow> 'a list \<Rightarrow> 'a list"
  assumes before_irrefl: "\<not> before a a"
    and before_trans: "before a b \<Longrightarrow> before b c \<Longrightarrow> before a c"
    and place_mset: "mset (place key x ws) = add_mset x (mset ws)"
    and place_line:
      "sorted_wrt (\<lambda>a b. before (key a) (key b)) ws \<Longrightarrow> \<forall>w\<in>set ws. before (key x) (key w) \<or> before (key w) (key x) \<Longrightarrow>
       sorted_wrt (\<lambda>a b. before (key a) (key b)) (place key x ws)"
begin

lemma place_set: "set (place key x ws) = insert x (set ws)"
  using place_mset [of key x ws] by (metis set_mset_add_mset_insert set_mset_mset)

lemma line_distinct: "sorted_wrt (\<lambda>a b. before (key a) (key b)) ws \<Longrightarrow> distinct ws"
proof (induction ws)
  case (Cons w ws)
  then show ?case using before_irrefl by auto
qed simp

lemma line_head:
  "sorted_wrt (\<lambda>a b. before (key a) (key b)) ws \<Longrightarrow> v \<in> set ws \<Longrightarrow> v \<noteq> hd ws \<Longrightarrow> before (key (hd ws)) (key v)"
  by (cases ws) auto

lemma line_remove:
  "sorted_wrt (\<lambda>a b. before (key a) (key b)) ws \<Longrightarrow> sorted_wrt (\<lambda>a b. before (key a) (key b)) (remove1 x ws)"
  by (induction ws) (auto dest: subsetD [OF set_remove1_subset])

lemma line_unique:
  assumes "sorted_wrt (\<lambda>a b. before (key a) (key b)) xs" "sorted_wrt (\<lambda>a b. before (key a) (key b)) ys"
    and "set xs = set ys"
  shows "xs = ys"
  using assms
proof (induction xs arbitrary: ys)
  case (Cons x xs)
  then obtain y zs where ys: "ys = y # zs" by (cases ys) auto
  have "x = y"
  proof (rule ccontr)
    assume "x \<noteq> y"
    with Cons.prems(3) ys have "x \<in> set zs" "y \<in> set xs" by auto
    with Cons.prems(1,2) ys have "before (key y) (key x)" "before (key x) (key y)" by auto
    with before_trans before_irrefl show False by blast
  qed
  moreover have "x \<notin> set xs" "y \<notin> set zs"
    using line_distinct [OF Cons.prems(1)] line_distinct [OF Cons.prems(2)] ys by auto
  then have "set xs = set zs" using Cons.prems(3) ys \<open>x = y\<close> by auto
  with Cons.IH [of zs] Cons.prems(1,2) ys have "xs = zs" by simp
  ultimately show ?case by (simp add: ys)
qed simp

lemma line_rejoin:
  assumes "sorted_wrt (\<lambda>a b. before (key a) (key b)) ws" "x \<in> set ws"
  shows "place key x (remove1 x ws) = ws"
proof (rule line_unique [where key = key])
  have d: "distinct ws" using assms(1) by (rule line_distinct)
  have "before (key x) (key w) \<or> before (key w) (key x)" if w: "w \<in> set (remove1 x ws)" for w
  proof -
    from w d have "w \<in> set ws" "w \<noteq> x" by auto
    with assms show ?thesis by (induction ws) auto
  qed
  with line_remove [OF assms(1)] show "sorted_wrt (\<lambda>a b. before (key a) (key b)) (place key x (remove1 x ws))"
    by (intro place_line) auto
  show "sorted_wrt (\<lambda>a b. before (key a) (key b)) ws" by (rule assms(1))
  show "set (place key x (remove1 x ws)) = set ws"
    using assms(2) d by (auto simp: place_set)
qed

end

end
