(* ===== verification/RunLaws.thy ===== *)
theory RunLaws
  imports RunOps WaitingLine
begin

text \<open>
  The invariants of the run registry, one section of each call at a time: the queue is the line of the
  queued entries, the running set is that of the running ones, and every entry that runs or replays has
  exactly one goroutine working for it.
\<close>

section \<open>The queue is a line\<close>

definition qkey :: "(string \<Rightarrow> runEntry) \<Rightarrow> string \<Rightarrow> int \<times> nat" where
  "qkey E i = (re_priority (E i), re_queueSeq (E i))"

definition key_before :: "int \<times> nat \<Rightarrow> int \<times> nat \<Rightarrow> bool" where
  "key_before a b \<longleftrightarrow> (if fst a \<noteq> fst b then fst b < fst a else snd a < snd b)"

definition place :: "(string \<Rightarrow> int \<times> nat) \<Rightarrow> string \<Rightarrow> string list \<Rightarrow> string list" where
  "place key i ws =
     takeWhile (\<lambda>w. \<not> key_before (key i) (key w)) ws @ i # dropWhile (\<lambda>w. \<not> key_before (key i) (key w)) ws"

lemma queueBefore_key: "queueBefore (E a) (E b) = key_before (qkey E a) (qkey E b)"
  by (simp add: queueBefore_def key_before_def qkey_def)

lemma key_before_irrefl: "\<not> key_before a a"
  by (simp add: key_before_def)

lemma key_before_trans: "key_before a b \<Longrightarrow> key_before b c \<Longrightarrow> key_before a c"
  by (auto simp: key_before_def split: if_splits)

lemma key_before_total: "a \<noteq> b \<Longrightarrow> key_before a b \<or> key_before b a"
  by (cases a, cases b) (auto simp: key_before_def)

lemma place_mset: "mset (place key i ws) = add_mset i (mset ws)"
proof -
  have "mset ws = mset (takeWhile P ws) + mset (dropWhile P ws)" for P
    by (metis mset_append takeWhile_dropWhile_id)
  then show ?thesis by (simp add: place_def)
qed

lemma place_line:
  assumes "sorted_wrt (\<lambda>a b. key_before (key a) (key b)) ws"
    and "\<forall>w\<in>set ws. key_before (key i) (key w) \<or> key_before (key w) (key i)"
  shows "sorted_wrt (\<lambda>a b. key_before (key a) (key b)) (place key i ws)"
  using assms
proof (induction ws)
  case (Cons w ws)
  show ?case
  proof (cases "key_before (key i) (key w)")
    case True
    with Cons.prems show ?thesis by (auto simp: place_def intro: key_before_trans)
  next
    case False
    with Cons.prems(2) have b: "key_before (key w) (key i)" by auto
    have "place key i (w # ws) = w # place key i ws" using False by (simp add: place_def)
    moreover have "set (place key i ws) = insert i (set ws)"
      using place_mset [of key i ws] by (metis set_mset_add_mset_insert set_mset_mset)
    ultimately show ?thesis using Cons b by auto
  qed
qed (simp add: place_def)

interpretation wl: waiting_line key_before place
  by unfold_locales (rule key_before_irrefl, rule key_before_trans, assumption, assumption, rule place_mset, rule place_line)

section \<open>Fields of the primitives\<close>

lemma insertWaitingLocked_eq:
  "insertWaitingLocked i s = s\<lparr>sv_waiting := place (qkey (sv_entry s)) i (sv_waiting s)\<rparr>"
  by (simp add: insertWaitingLocked_def place_def queueBefore_key Let_def)

lemma upd_fields [simp]:
  "sv_entry (upd i f s) = (sv_entry s)(i := f (sv_entry s i))"
  "sv_lister (upd i f s) = sv_lister s" "sv_replayer (upd i f s) = sv_replayer s"
  "sv_ids (upd i f s) = sv_ids s" "sv_order (upd i f s) = sv_order s"
  "sv_waiting (upd i f s) = sv_waiting s" "sv_queueSeq (upd i f s) = sv_queueSeq s"
  "sv_arrivalSeq (upd i f s) = sv_arrivalSeq s" "sv_running (upd i f s) = sv_running s"
  "sv_maxActive (upd i f s) = sv_maxActive s" "sv_stopped (upd i f s) = sv_stopped s"
  "sv_contexts (upd i f s) = sv_contexts s" "sv_ended (upd i f s) = sv_ended s"
  "sv_staged (upd i f s) = sv_staged s" "sv_cleaned (upd i f s) = sv_cleaned s" "sv_tasks (upd i f s) = sv_tasks s"
  by (simp_all add: upd_def)

lemma leave_fields [simp]:
  "sv_entry (leave t s) = sv_entry s"
  "sv_lister (leave t s) = sv_lister s" "sv_replayer (leave t s) = sv_replayer s"
  "sv_ids (leave t s) = sv_ids s" "sv_order (leave t s) = sv_order s"
  "sv_waiting (leave t s) = sv_waiting s" "sv_queueSeq (leave t s) = sv_queueSeq s"
  "sv_arrivalSeq (leave t s) = sv_arrivalSeq s" "sv_running (leave t s) = sv_running s"
  "sv_maxActive (leave t s) = sv_maxActive s" "sv_stopped (leave t s) = sv_stopped s"
  "sv_contexts (leave t s) = sv_contexts s" "sv_ended (leave t s) = sv_ended s"
  "sv_staged (leave t s) = sv_staged s" "sv_cleaned (leave t s) = sv_cleaned s"
  "sv_tasks (leave t s) = add_mset t (sv_tasks s)"
  by (simp_all add: leave_def)

lemma taken_up_fields [simp]:
  "sv_entry (taken_up t s) = sv_entry s"
  "sv_lister (taken_up t s) = sv_lister s" "sv_replayer (taken_up t s) = sv_replayer s"
  "sv_ids (taken_up t s) = sv_ids s" "sv_order (taken_up t s) = sv_order s"
  "sv_waiting (taken_up t s) = sv_waiting s" "sv_queueSeq (taken_up t s) = sv_queueSeq s"
  "sv_arrivalSeq (taken_up t s) = sv_arrivalSeq s" "sv_running (taken_up t s) = sv_running s"
  "sv_maxActive (taken_up t s) = sv_maxActive s" "sv_stopped (taken_up t s) = sv_stopped s"
  "sv_contexts (taken_up t s) = sv_contexts s" "sv_ended (taken_up t s) = sv_ended s"
  "sv_staged (taken_up t s) = sv_staged s" "sv_cleaned (taken_up t s) = sv_cleaned s"
  "sv_tasks (taken_up t s) = sv_tasks s - {#t#}"
  by (simp_all add: taken_up_def)

definition token :: "'a option \<Rightarrow> 'a list" where
  "token c = (case c of None \<Rightarrow> [] | Some k \<Rightarrow> [k])"

lemma token_simps [simp]: "token None = []" "token (Some k) = [k]"
  by (simp_all add: token_def)

lemma set_token [simp]: "set (token c) = set_option c"
  by (cases c) simp_all

lemma run_cleanup_fields [simp]:
  "sv_entry (run_cleanup c s) = sv_entry s"
  "sv_lister (run_cleanup c s) = sv_lister s" "sv_replayer (run_cleanup c s) = sv_replayer s"
  "sv_ids (run_cleanup c s) = sv_ids s" "sv_order (run_cleanup c s) = sv_order s"
  "sv_waiting (run_cleanup c s) = sv_waiting s" "sv_queueSeq (run_cleanup c s) = sv_queueSeq s"
  "sv_arrivalSeq (run_cleanup c s) = sv_arrivalSeq s" "sv_running (run_cleanup c s) = sv_running s"
  "sv_maxActive (run_cleanup c s) = sv_maxActive s" "sv_stopped (run_cleanup c s) = sv_stopped s"
  "sv_contexts (run_cleanup c s) = sv_contexts s" "sv_ended (run_cleanup c s) = sv_ended s"
  "sv_staged (run_cleanup c s) = sv_staged s" "sv_cleaned (run_cleanup c s) = sv_cleaned s @ token c"
  "sv_tasks (run_cleanup c s) = sv_tasks s"
  by (simp_all add: run_cleanup_def split: option.split)

lemma end_context_fields [simp]:
  "sv_entry (end_context c s) = sv_entry s"
  "sv_lister (end_context c s) = sv_lister s" "sv_replayer (end_context c s) = sv_replayer s"
  "sv_ids (end_context c s) = sv_ids s" "sv_order (end_context c s) = sv_order s"
  "sv_waiting (end_context c s) = sv_waiting s" "sv_queueSeq (end_context c s) = sv_queueSeq s"
  "sv_arrivalSeq (end_context c s) = sv_arrivalSeq s" "sv_running (end_context c s) = sv_running s"
  "sv_maxActive (end_context c s) = sv_maxActive s" "sv_stopped (end_context c s) = sv_stopped s"
  "sv_contexts (end_context c s) = sv_contexts s" "sv_ended (end_context c s) = sv_ended s \<union> set_option c"
  "sv_staged (end_context c s) = sv_staged s" "sv_cleaned (end_context c s) = sv_cleaned s"
  "sv_tasks (end_context c s) = sv_tasks s"
  by (auto simp: end_context_def split: option.split)

end
