(* ===== verification/RunSteps.thy ===== *)
theory RunSteps
  imports RunLaws
begin

text \<open>
  The steps a server takes, one section of one call at a time in any order, and the invariants of its
  registry, each over the fields it speaks of.
\<close>

section \<open>Invariants by field\<close>

definition queue_ok :: "(string \<Rightarrow> runEntry) \<Rightarrow> string list \<Rightarrow> nat \<Rightarrow> bool" where
  "queue_ok E w n \<longleftrightarrow>
     sorted_wrt (\<lambda>a b. key_before (qkey E a) (qkey E b)) w \<and>
     (\<forall>i. i \<in> set w \<longleftrightarrow> re_state (E i) = RunQueued) \<and>
     inj_on (\<lambda>i. re_queueSeq (E i)) (set w) \<and> (\<forall>i. re_queueSeq (E i) \<le> n)"

lemma line_cong:
  "(\<And>i. i \<in> set w \<Longrightarrow> k i = k' i) \<Longrightarrow>
   sorted_wrt (\<lambda>a b. key_before (k a) (k b)) w \<longleftrightarrow> sorted_wrt (\<lambda>a b. key_before (k' a) (k' b)) w"
  by (induction w) auto

lemma queue_ok_same:
  assumes "queue_ok E w n" "re_state e = re_state (E i)" "re_priority e = re_priority (E i)"
    "re_queueSeq e = re_queueSeq (E i)"
  shows "queue_ok (E(i := e)) w n"
proof -
  have "re_state ((E(i := e)) j) = re_state (E j)" "re_queueSeq ((E(i := e)) j) = re_queueSeq (E j)"
    "qkey (E(i := e)) j = qkey E j" for j
    using assms(2-) by (simp_all add: qkey_def)
  with assms(1) show ?thesis unfolding queue_ok_def by simp
qed

lemma queue_ok_drop:
  assumes "queue_ok E w n" "re_state e \<noteq> RunQueued" "re_queueSeq e \<le> n"
  shows "queue_ok (E(i := e)) (remove1 i w) n"
proof -
  from assms(1) have l: "sorted_wrt (\<lambda>a b. key_before (qkey E a) (qkey E b)) w"
    and m: "\<And>i. i \<in> set w \<longleftrightarrow> re_state (E i) = RunQueued"
    and inj: "inj_on (\<lambda>i. re_queueSeq (E i)) (set w)" and b: "\<And>i. re_queueSeq (E i) \<le> n"
    by (auto simp: queue_ok_def)
  have d: "distinct w" using l by (rule wl.line_distinct)
  then have s: "set (remove1 i w) = set w - {i}" by simp
  have "sorted_wrt (\<lambda>a b. key_before (qkey (E(i := e)) a) (qkey (E(i := e)) b)) (remove1 i w) \<longleftrightarrow>
        sorted_wrt (\<lambda>a b. key_before (qkey E a) (qkey E b)) (remove1 i w)"
    using s by (intro line_cong) (auto simp: qkey_def)
  moreover have "inj_on (\<lambda>j. re_queueSeq ((E(i := e)) j)) (set w - {i})"
    using inj by (auto simp: inj_on_def)
  ultimately show ?thesis
    using wl.line_remove [OF l] m b assms(2,3) by (auto simp: queue_ok_def s)
qed

lemma queue_ok_place:
  assumes l: "sorted_wrt (\<lambda>a b. key_before (qkey E a) (qkey E b)) w"
    and m: "\<And>j. j \<in> set w \<longleftrightarrow> re_state (E j) = RunQueued \<and> j \<noteq> i"
    and inj: "inj_on (\<lambda>j. re_queueSeq (E j)) (set w)" and b: "\<And>j. re_queueSeq (E j) \<le> n"
    and i: "re_state (E i) = RunQueued" "\<And>j. j \<in> set w \<Longrightarrow> re_queueSeq (E j) \<noteq> re_queueSeq (E i)"
  shows "queue_ok E (place (qkey E) i w) n"
proof -
  have "sorted_wrt (\<lambda>a b. key_before (qkey E a) (qkey E b)) (place (qkey E) i w)"
  proof (rule wl.place_line [OF l])
    show "\<forall>v\<in>set w. key_before (qkey E i) (qkey E v) \<or> key_before (qkey E v) (qkey E i)"
    proof (intro ballI key_before_total)
      fix v assume "v \<in> set w"
      from i(2) [OF this] show "qkey E i \<noteq> qkey E v" by (simp add: qkey_def)
    qed
  qed
  moreover have "inj_on (\<lambda>j. re_queueSeq (E j)) (insert i (set w))"
    using inj i(2) by (auto simp: inj_on_def) (metis i(2))
  ultimately show ?thesis using m i(1) b by (auto simp: queue_ok_def wl.place_set)
qed

lemma queue_ok_enqueue:
  assumes q: "queue_ok E w n" and "re_state (E i) \<noteq> RunQueued" "re_state e = RunQueued" "re_queueSeq e = Suc n"
  shows "queue_ok (E(i := e)) (place (qkey (E(i := e))) i w) (Suc n)"
proof (rule queue_ok_place)
  from q assms(2) have n: "i \<notin> set w" by (simp add: queue_ok_def)
  then have k: "qkey (E(i := e)) j = qkey E j" if "j \<in> set w" for j using that by (auto simp: qkey_def)
  show "sorted_wrt (\<lambda>a b. key_before (qkey (E(i := e)) a) (qkey (E(i := e)) b)) w"
    using q line_cong [of w "qkey (E(i := e))" "qkey E", OF k] by (simp add: queue_ok_def)
  show "j \<in> set w \<longleftrightarrow> re_state ((E(i := e)) j) = RunQueued \<and> j \<noteq> i" for j
    using q n by (auto simp: queue_ok_def)
  show "inj_on (\<lambda>j. re_queueSeq ((E(i := e)) j)) (set w)"
    using q n by (auto simp: queue_ok_def inj_on_def)
  have b: "re_queueSeq (E j) \<le> n" for j using q by (simp add: queue_ok_def)
  then show "re_queueSeq ((E(i := e)) j) \<le> Suc n" for j by (simp add: assms(4) le_SucI)
  show "re_state ((E(i := e)) i) = RunQueued" by (simp add: assms(3))
  show "re_queueSeq ((E(i := e)) j) \<noteq> re_queueSeq ((E(i := e)) i)" if "j \<in> set w" for j
    using that n b [of j] by (auto simp: assms(4))
qed

lemma queue_ok_reprioritise:
  assumes q: "queue_ok E w n" and "re_state (E i) = RunQueued" "re_state e = RunQueued"
    "re_queueSeq e = re_queueSeq (E i)"
  shows "queue_ok (E(i := e)) (place (qkey (E(i := e))) i (remove1 i w)) n"
proof (rule queue_ok_place)
  from q have l: "sorted_wrt (\<lambda>a b. key_before (qkey E a) (qkey E b)) w"
    and m: "\<And>i. i \<in> set w \<longleftrightarrow> re_state (E i) = RunQueued"
    and inj: "inj_on (\<lambda>i. re_queueSeq (E i)) (set w)" and b: "\<And>i. re_queueSeq (E i) \<le> n"
    by (auto simp: queue_ok_def)
  have s: "set (remove1 i w) = set w - {i}" using wl.line_distinct [OF l] by simp
  have k: "qkey (E(i := e)) j = qkey E j" if "j \<in> set (remove1 i w)" for j using that s by (auto simp: qkey_def)
  show "sorted_wrt (\<lambda>a b. key_before (qkey (E(i := e)) a) (qkey (E(i := e)) b)) (remove1 i w)"
    using wl.line_remove [OF l, of i] line_cong [of "remove1 i w" "qkey (E(i := e))" "qkey E", OF k] by simp
  show "j \<in> set (remove1 i w) \<longleftrightarrow> re_state ((E(i := e)) j) = RunQueued \<and> j \<noteq> i" for j
    using m s by auto
  show "inj_on (\<lambda>j. re_queueSeq ((E(i := e)) j)) (set (remove1 i w))"
    using inj s by (auto simp: inj_on_def)
  show "re_queueSeq ((E(i := e)) j) \<le> n" for j using b by (simp add: assms(4))
  show "re_state ((E(i := e)) i) = RunQueued" by (simp add: assms(3))
  have "i \<in> set w" using m assms(2) by simp
  then show "re_queueSeq ((E(i := e)) j) \<noteq> re_queueSeq ((E(i := e)) i)" if "j \<in> set (remove1 i w)" for j
    using that inj s assms(4) by (auto simp: inj_on_def)
qed

text \<open>The running set.\<close>

definition run_ok :: "(string \<Rightarrow> runEntry) \<Rightarrow> string set \<Rightarrow> bool" where
  "run_ok E r \<longleftrightarrow> finite r \<and> r = {i. re_state (E i) = RunRunning}"

lemma run_ok_same: "run_ok E r \<Longrightarrow> re_state e = re_state (E i) \<Longrightarrow> run_ok (E(i := e)) r"
  by (auto simp: run_ok_def)

lemma run_ok_start: "run_ok E r \<Longrightarrow> re_state e = RunRunning \<Longrightarrow> run_ok (E(i := e)) (insert i r)"
  by (auto simp: run_ok_def)

lemma run_ok_stop: "run_ok E r \<Longrightarrow> re_state e \<noteq> RunRunning \<Longrightarrow> run_ok (E(i := e)) (r - {i})"
  by (auto simp: run_ok_def)

lemma run_ok_other:
  "run_ok E r \<Longrightarrow> re_state e \<noteq> RunRunning \<Longrightarrow> re_state (E i) \<noteq> RunRunning \<Longrightarrow> run_ok (E(i := e)) r"
  by (auto simp: run_ok_def)

text \<open>One goroutine for each entry that runs or replays, none for any other.\<close>

fun drives :: "string \<Rightarrow> Task \<Rightarrow> bool" where
  "drives i (Listing j ctx) \<longleftrightarrow> j = i"
| "drives i (Pumping j oc err) \<longleftrightarrow> j = i"
| "drives i (Settling j oc err) \<longleftrightarrow> j = i"
| "drives i Dispatching \<longleftrightarrow> False"
| "drives i (Ending j h) \<longleftrightarrow> False"
| "drives i (Passing j h) \<longleftrightarrow> False"
| "drives i (Rearming j h q) \<longleftrightarrow> False"
| "drives i (Retrying j q) \<longleftrightarrow> False"
| "drives i (Starting q) \<longleftrightarrow> False"
| "drives i (Cleaning j b) \<longleftrightarrow> False"
| "drives i (Trimming b) \<longleftrightarrow> False"
| "drives i (Stopping js ks) \<longleftrightarrow> False"

definition active :: "RunState \<Rightarrow> bool" where
  "active st \<longleftrightarrow> st = RunRunning \<or> st = RunReplaying"

lemma active_simps [simp]:
  "active RunRunning" "active RunReplaying" "\<not> active RunQueued" "\<not> active RunNeedsAction"
  "\<not> active RunDone" "\<not> active RunFailed" "\<not> active RunCancelled"
  by (simp_all add: active_def)

definition drivers :: "string \<Rightarrow> Task multiset \<Rightarrow> nat" where
  "drivers i T = size (filter_mset (drives i) T)"

lemma drivers_simps [simp]:
  "drivers i {#} = 0"
  "drivers i (add_mset t T) = (if drives i t then Suc (drivers i T) else drivers i T)"
  by (simp_all add: drivers_def)

lemma drivers_diff: "t \<in># T \<Longrightarrow> drivers i (T - {#t#}) = (if drives i t then drivers i T - 1 else drivers i T)"
  by (auto simp: drivers_def size_Diff_singleton)

lemma drivers_pos: "t \<in># T \<Longrightarrow> drives i t \<Longrightarrow> 0 < drivers i T"
  by (auto simp: drivers_def nonempty_has_size [symmetric])

definition drive_ok :: "(string \<Rightarrow> runEntry) \<Rightarrow> Task multiset \<Rightarrow> bool" where
  "drive_ok E T \<longleftrightarrow> (\<forall>i. drivers i T = of_bool (active (re_state (E i))))"

lemma drive_ok_active: "drive_ok E T \<Longrightarrow> t \<in># T \<Longrightarrow> drives i t \<Longrightarrow> active (re_state (E i))"
  using drivers_pos [of t T i] by (auto simp: drive_ok_def split: if_splits)

lemma drive_ok_same:
  "drive_ok E T \<Longrightarrow> active (re_state e) = active (re_state (E i)) \<Longrightarrow> drive_ok (E(i := e)) T"
  by (simp add: drive_ok_def)

lemma drive_ok_leave: "drive_ok E T \<Longrightarrow> (\<And>i. \<not> drives i t) \<Longrightarrow> drive_ok E (add_mset t T)"
  by (simp add: drive_ok_def)

lemma drive_ok_take: "drive_ok E T \<Longrightarrow> t \<in># T \<Longrightarrow> (\<And>i. \<not> drives i t) \<Longrightarrow> drive_ok E (T - {#t#})"
  by (simp add: drive_ok_def drivers_diff)

lemma drive_ok_start:
  "drive_ok E T \<Longrightarrow> \<not> active (re_state (E i)) \<Longrightarrow> active (re_state e) \<Longrightarrow> (\<And>j. drives j t \<longleftrightarrow> j = i) \<Longrightarrow>
   drive_ok (E(i := e)) (add_mset t T)"
  by (auto simp: drive_ok_def)

lemma drive_ok_hand:
  "drive_ok E T \<Longrightarrow> t \<in># T \<Longrightarrow> (\<And>j. drives j t \<longleftrightarrow> j = i) \<Longrightarrow> (\<And>j. drives j u \<longleftrightarrow> j = i) \<Longrightarrow>
   active (re_state e) \<Longrightarrow> drive_ok (E(i := e)) (add_mset u (T - {#t#}))"
  using drive_ok_active [of E T t i] by (auto simp: drive_ok_def drivers_diff)

lemma drive_ok_stop:
  "drive_ok E T \<Longrightarrow> t \<in># T \<Longrightarrow> (\<And>j. drives j t \<longleftrightarrow> j = i) \<Longrightarrow> \<not> active (re_state e) \<Longrightarrow>
   drive_ok (E(i := e)) (T - {#t#})"
  using drive_ok_active [of E T t i] by (auto simp: drive_ok_def drivers_diff)

text \<open>The registry: ids are drawn once, and what trimming drops is over.\<close>

definition reg_ok :: "(string \<Rightarrow> runEntry) \<Rightarrow> string set \<Rightarrow> string list \<Rightarrow> bool" where
  "reg_ok E ids ord \<longleftrightarrow>
     distinct ord \<and> set ord \<subseteq> ids \<and> (\<forall>i. i \<notin> set ord \<longrightarrow> final (re_state (E i))) \<and> (\<forall>i. i \<notin> ids \<longrightarrow> E i = blank)"

lemma reg_ok_upd: "reg_ok E ids ord \<Longrightarrow> i \<in> set ord \<Longrightarrow> reg_ok (E(i := e)) ids ord"
  by (auto simp: reg_ok_def)

lemma reg_ok_final: "reg_ok E ids ord \<Longrightarrow> i \<in> ids \<Longrightarrow> final (re_state e) \<Longrightarrow> reg_ok (E(i := e)) ids ord"
  by (auto simp: reg_ok_def)

lemma reg_ok_new: "reg_ok E ids ord \<Longrightarrow> i \<notin> ids \<Longrightarrow> reg_ok (E(i := e)) (insert i ids) (ord @ [i])"
  by (auto simp: reg_ok_def)

lemma reg_ok_listed: "reg_ok E ids ord \<Longrightarrow> \<not> final (re_state (E i)) \<Longrightarrow> i \<in> set ord"
  by (auto simp: reg_ok_def)

text \<open>A closed server has nothing waiting.\<close>

definition stop_ok :: "bool \<Rightarrow> (string \<Rightarrow> runEntry) \<Rightarrow> bool" where
  "stop_ok b E \<longleftrightarrow> (b \<longrightarrow> (\<forall>i. \<not> queueable (re_state (E i))))"

text \<open>Whoever frees a slot or fills the queue dispatches afterwards.\<close>

fun wakes :: "Task \<Rightarrow> bool" where
  "wakes Dispatching \<longleftrightarrow> True"
| "wakes (Ending i h) \<longleftrightarrow> True"
| "wakes (Passing i h) \<longleftrightarrow> True"
| "wakes (Rearming i h q) \<longleftrightarrow> True"
| "wakes (Cleaning i b) \<longleftrightarrow> b"
| "wakes (Trimming b) \<longleftrightarrow> b"
| "wakes (Retrying i q) \<longleftrightarrow> False"
| "wakes (Starting q) \<longleftrightarrow> False"
| "wakes (Stopping js ks) \<longleftrightarrow> False"
| "wakes (Listing i ctx) \<longleftrightarrow> False"
| "wakes (Pumping i oc err) \<longleftrightarrow> False"
| "wakes (Settling i oc err) \<longleftrightarrow> False"

definition awake :: "Task multiset \<Rightarrow> bool" where
  "awake T \<longleftrightarrow> (\<exists>t\<in>#T. wakes t)"

lemma awake_simps [simp]: "\<not> awake {#}" "awake (add_mset t T) \<longleftrightarrow> wakes t \<or> awake T"
  by (auto simp: awake_def)

lemma awake_take: "t \<in># T \<Longrightarrow> \<not> wakes t \<Longrightarrow> awake (T - {#t#}) = awake T"
  by (metis awake_simps(2) insert_DiffM)

definition idle_slot :: "Server \<Rightarrow> bool" where
  "idle_slot s \<longleftrightarrow> \<not> sv_stopped s \<and> int (card (sv_running s)) < sv_maxActive s \<and> sv_waiting s \<noteq> []"

definition wake_ok :: "Server \<Rightarrow> bool" where
  "wake_ok s \<longleftrightarrow> (idle_slot s \<longrightarrow> awake (sv_tasks s))"

definition core_ok :: "Server \<Rightarrow> bool" where
  "core_ok s \<longleftrightarrow>
     queue_ok (sv_entry s) (sv_waiting s) (sv_queueSeq s) \<and> run_ok (sv_entry s) (sv_running s) \<and>
     drive_ok (sv_entry s) (sv_tasks s) \<and> reg_ok (sv_entry s) (sv_ids s) (sv_order s) \<and>
     stop_ok (sv_stopped s) (sv_entry s)"

end
