(* ===== verification/RunInvariant.thy ===== *)
theory RunInvariant
  imports RunSteps
begin

text \<open>Every section of every call keeps the registry's invariants, in any order of the calls.\<close>

section \<open>Steps\<close>

definition dispatch_task :: "(string \<Rightarrow> RunRequest \<Rightarrow> string option) \<Rightarrow> Server \<Rightarrow> Server" where
  "dispatch_task runner s =
     (case dispatch runner s of (True, s') \<Rightarrow> s' | (False, s') \<Rightarrow> taken_up Dispatching s')"

definition trim_task :: "bool \<Rightarrow> Server \<Rightarrow> Server" where
  "trim_task b s =
     (let s = trim (taken_up (Trimming b) s) in if b then leave Dispatching s else s)"

text \<open>A cleanup is handed over once: the staged file of one upload is removed by one cleanup.\<close>

inductive step :: "Server \<Rightarrow> Server \<Rightarrow> bool" where
  started: "i \<notin> sv_ids s \<Longrightarrow> set_option cleanup \<inter> sv_staged s = {} \<Longrightarrow> step s (snd (startRun req cleanup i s))"
| retried: "step s (snd (RetryRun i s))"
| retrying: "Retrying i req \<in># sv_tasks s \<Longrightarrow> step s (snd (again i [] req (taken_up (Retrying i req) s)))"
| topped_up: "step s (snd (TopUpRun d d' out roofBytes h p i s))"
| starting: "Starting req \<in># sv_tasks s \<Longrightarrow> i \<notin> sv_ids s \<Longrightarrow>
     step s (snd (startRun req None i (taken_up (Starting req) s)))"
| reopened: "i \<notin> sv_ids s \<Longrightarrow> step s (snd (ReopenRun h p i s))"
| cancelled: "step s (snd (CancelRun i s))"
| decided: "step s (snd (DecideRun i files n s))"
| unticked: "step s (snd (UntickFile i spec s))"
| prioritised: "step s (snd (SetRunPriority i p s))"
| widened: "step s (snd (SetMaxActiveTorrents n s))"
| closed: "step s (Server_Close s)"
| dispatched: "Dispatching \<in># sv_tasks s \<Longrightarrow> step s (dispatch_task runner s)"
| listed: "Listing i ctx \<in># sv_tasks s \<Longrightarrow> step s (listThenRun runner ctx i answer (taken_up (Listing i ctx) s))"
| event: "Pumping i oc err \<in># sv_tasks s \<Longrightarrow> step s (pump_event i oc err ev (taken_up (Pumping i oc err) s))"
| drained: "Pumping i oc err \<in># sv_tasks s \<Longrightarrow> step s (pump_clean i oc err (taken_up (Pumping i oc err) s))"
| ended: "Settling i oc err \<in># sv_tasks s \<Longrightarrow> step s (pump_over i oc err (taken_up (Settling i oc err) s))"
| released: "Ending i h \<in># sv_tasks s \<Longrightarrow> step s (pump_release i h (taken_up (Ending i h) s))"
| passed: "Passing i h \<in># sv_tasks s \<Longrightarrow> step s (pump_pass i h (taken_up (Passing i h) s))"
| rearmed: "Rearming i h req \<in># sv_tasks s \<Longrightarrow>
     step s (leave (Trimming True) (snd (again i h req (taken_up (Rearming i h req) s))))"
| cleaned: "Cleaning i b \<in># sv_tasks s \<Longrightarrow> step s (clean_entry i b (taken_up (Cleaning i b) s))"
| stopping: "Stopping is js \<in># sv_tasks s \<Longrightarrow> step s (close_on is js (taken_up (Stopping is js) s))"
| trimmed: "Trimming b \<in># sv_tasks s \<Longrightarrow> step s (trim_task b s)"

inductive reachable :: "bool \<Rightarrow> bool \<Rightarrow> int \<Rightarrow> Server \<Rightarrow> bool" for lister replayer width where
  reachable_new: "reachable lister replayer width (newServer lister replayer width)"
| reachable_step: "reachable lister replayer width s \<Longrightarrow> step s s' \<Longrightarrow> reachable lister replayer width s'"

section \<open>Each section of a call\<close>

lemma core_okD:
  assumes "core_ok s"
  shows "queue_ok (sv_entry s) (sv_waiting s) (sv_queueSeq s)" "run_ok (sv_entry s) (sv_running s)"
    "drive_ok (sv_entry s) (sv_tasks s)" "reg_ok (sv_entry s) (sv_ids s) (sv_order s)"
    "stop_ok (sv_stopped s) (sv_entry s)"
  using assms by (simp_all add: core_ok_def)

lemma core_ok_leave [simp]: "(\<And>i. \<not> drives i t) \<Longrightarrow> core_ok (leave t s) \<longleftrightarrow> core_ok s"
  by (simp add: core_ok_def drive_ok_def)

lemma core_ok_take: "core_ok s \<Longrightarrow> t \<in># sv_tasks s \<Longrightarrow> (\<And>i. \<not> drives i t) \<Longrightarrow> core_ok (taken_up t s)"
  by (simp add: core_ok_def drive_ok_take)

lemma core_ok_context [simp]: "core_ok (end_context c s) \<longleftrightarrow> core_ok s"
  by (simp add: core_ok_def)

lemma core_ok_cleanup [simp]: "core_ok (run_cleanup c s) \<longleftrightarrow> core_ok s"
  by (simp add: core_ok_def)

lemma final_simps [simp]:
  "final RunDone" "final RunFailed" "final RunCancelled" "\<not> final RunQueued" "\<not> final RunRunning"
  "\<not> final RunReplaying" "\<not> final RunNeedsAction"
  by (simp_all add: final_def)

lemma queueable_simps [simp]:
  "queueable RunQueued" "queueable RunNeedsAction" "\<not> queueable RunDone" "\<not> queueable RunFailed"
  "\<not> queueable RunCancelled" "\<not> queueable RunRunning" "\<not> queueable RunReplaying"
  by (simp_all add: queueable_def)

lemma awake_ok: "awake (sv_tasks s) \<Longrightarrow> wake_ok s"
  by (simp add: wake_ok_def)

lemma wake_ok_kept:
  "wake_ok s \<Longrightarrow> (idle_slot s' \<Longrightarrow> idle_slot s) \<Longrightarrow> (awake (sv_tasks s) \<Longrightarrow> awake (sv_tasks s')) \<Longrightarrow> wake_ok s'"
  by (auto simp: wake_ok_def)

lemma stop_ok_upd: "stop_ok b E \<Longrightarrow> \<not> b \<or> \<not> queueable (re_state e) \<Longrightarrow> stop_ok b (E(i := e))"
  by (auto simp: stop_ok_def)

lemma queue_ok_other:
  assumes "queue_ok E w n" "re_state (E i) \<noteq> RunQueued" "re_state e \<noteq> RunQueued" "re_queueSeq e \<le> n"
  shows "queue_ok (E(i := e)) w n"
proof -
  have "remove1 i w = w" using assms(1,2) by (intro remove1_idem) (simp add: queue_ok_def)
  with queue_ok_drop [OF assms(1,3,4), of i] show ?thesis by simp
qed

lemma blank_simps [simp]:
  "re_state blank = RunDone" "re_cleanup blank = None" "re_queueSeq blank = 0"
  by (simp_all add: blank_def)

lemma enqueue_fields [simp]:
  fixes i s
  defines "E \<equiv> (sv_entry s)(i := (sv_entry s i)\<lparr>re_queueSeq := Suc (sv_queueSeq s)\<rparr>)"
  shows "sv_entry (enqueueWaitingLocked i s) = E"
    "sv_waiting (enqueueWaitingLocked i s) = place (qkey E) i (sv_waiting s)"
    "sv_queueSeq (enqueueWaitingLocked i s) = Suc (sv_queueSeq s)"
    "sv_running (enqueueWaitingLocked i s) = sv_running s" "sv_tasks (enqueueWaitingLocked i s) = sv_tasks s"
    "sv_ids (enqueueWaitingLocked i s) = sv_ids s" "sv_order (enqueueWaitingLocked i s) = sv_order s"
    "sv_stopped (enqueueWaitingLocked i s) = sv_stopped s" "sv_staged (enqueueWaitingLocked i s) = sv_staged s"
    "sv_cleaned (enqueueWaitingLocked i s) = sv_cleaned s" "sv_maxActive (enqueueWaitingLocked i s) = sv_maxActive s"
    "sv_contexts (enqueueWaitingLocked i s) = sv_contexts s" "sv_ended (enqueueWaitingLocked i s) = sv_ended s"
    "sv_lister (enqueueWaitingLocked i s) = sv_lister s"
  by (simp_all add: enqueueWaitingLocked_def insertWaitingLocked_eq Let_def E_def)

lemma startRun_ok:
  assumes s: "core_ok s" and i: "i \<notin> sv_ids s"
  shows "core_ok (snd (startRun req cleanup i s))"
proof -
  note d = core_okD [OF s]
  have bl: "sv_entry s i = blank" using d(4) i by (simp add: reg_ok_def)
  have refused: "core_ok (run_cleanup cleanup (s\<lparr>sv_staged := sv_staged s \<union> set_option cleanup\<rparr>))"
    using d by (simp add: core_ok_def)
  let ?q = "req\<lparr>rq_Source := TrimSpace (rq_Source req)\<rparr>"
  show ?thesis
  proof (cases "rq_Source ?q = [] \<or> rq_Count ?q < 0 \<or> sv_stopped s")
    case True
    then show ?thesis using refused by (auto simp: startRun_def Let_def)
  next
    case False
    let ?n = "Suc (sv_queueSeq s)"
    define e where "e = blank\<lparr>re_source := (if rq_Label ?q \<noteq> [] then rq_Label ?q else rq_Source ?q), re_req := ?q,
                      re_state := RunQueued, re_cleanup := cleanup, re_arrival := sv_arrivalSeq s + 1,
                      re_queueSeq := ?n\<rparr>"
    have e: "re_state e = RunQueued" "re_queueSeq e = ?n" by (simp_all add: e_def)
    define s' where "s' = snd (startRun req cleanup i s)"
    have f: "sv_entry s' = (sv_entry s)(i := e)" "sv_waiting s' = place (qkey ((sv_entry s)(i := e))) i (sv_waiting s)"
      "sv_queueSeq s' = ?n" "sv_running s' = sv_running s" "sv_tasks s' = add_mset Dispatching (sv_tasks s)"
      "sv_ids s' = insert i (sv_ids s)" "sv_order s' = sv_order s @ [i]" "sv_stopped s' = sv_stopped s"
      using False by (simp_all add: s'_def startRun_def Let_def e_def)
    have "core_ok s'" unfolding core_ok_def f
    proof (intro conjI)
      show "queue_ok ((sv_entry s)(i := e)) (place (qkey ((sv_entry s)(i := e))) i (sv_waiting s)) ?n"
        using d(1) bl e by (intro queue_ok_enqueue) simp_all
      show "run_ok ((sv_entry s)(i := e)) (sv_running s)" using d(2) bl e by (intro run_ok_other) simp_all
      show "drive_ok ((sv_entry s)(i := e)) (add_mset Dispatching (sv_tasks s))"
        using d(3) bl e by (intro drive_ok_leave drive_ok_same) simp_all
      show "reg_ok ((sv_entry s)(i := e)) (insert i (sv_ids s)) (sv_order s @ [i])" using d(4) i by (rule reg_ok_new)
      show "stop_ok (sv_stopped s) ((sv_entry s)(i := e))" using d(5) False by (intro stop_ok_upd) simp_all
    qed
    then show ?thesis by (simp add: s'_def)
  qed
qed

lemma startRun_wake: "wake_ok s \<Longrightarrow> wake_ok (snd (startRun req cleanup i s))"
  by (auto simp: startRun_def Let_def wake_ok_def idle_slot_def)

lemma again_ok:
  assumes s: "core_ok s"
  shows "core_ok (snd (again i h req s))"
proof -
  note d = core_okD [OF s]
  show ?thesis
  proof (cases "\<not> sv_stopped s \<and> i \<in> set (sv_order s) \<and> final (re_state (sv_entry s i)) \<and>
                \<not> (h \<noteq> [] \<and> re_infoHash (sv_entry s i) \<noteq> [] \<and> re_infoHash (sv_entry s i) \<noteq> h)")
    case False
    then show ?thesis using s by (auto simp: again_def lookup_run_def)
  next
    case True
    let ?n = "Suc (sv_queueSeq s)"
    define e where "e = (sv_entry s i)\<lparr>re_req := req, re_state := RunQueued, re_err := None, re_cancelled := False,
                               re_cleanup := None, re_queueSeq := ?n\<rparr>"
    have e: "re_state e = RunQueued" "re_queueSeq e = ?n" by (simp_all add: e_def)
    have na: "\<not> active (re_state (sv_entry s i))" "re_state (sv_entry s i) \<noteq> RunQueued" "re_state (sv_entry s i) \<noteq> RunRunning"
      using True by (auto simp: final_def)
    define s' where "s' = snd (again i h req s)"
    have f: "sv_entry s' = (sv_entry s)(i := e)" "sv_waiting s' = place (qkey ((sv_entry s)(i := e))) i (sv_waiting s)"
      "sv_queueSeq s' = ?n" "sv_running s' = sv_running s" "sv_tasks s' = add_mset Dispatching (sv_tasks s)"
      "sv_ids s' = sv_ids s" "sv_order s' = sv_order s" "sv_stopped s' = sv_stopped s"
      using True by (auto simp: s'_def again_def lookup_run_def e_def)
    have "core_ok s'" unfolding core_ok_def f
    proof (intro conjI)
      show "queue_ok ((sv_entry s)(i := e)) (place (qkey ((sv_entry s)(i := e))) i (sv_waiting s)) ?n"
        using d(1) na e by (intro queue_ok_enqueue) simp_all
      show "run_ok ((sv_entry s)(i := e)) (sv_running s)" using d(2) na e by (intro run_ok_other) simp_all
      show "drive_ok ((sv_entry s)(i := e)) (add_mset Dispatching (sv_tasks s))"
        using d(3) na e by (intro drive_ok_leave drive_ok_same) simp_all
      show "reg_ok ((sv_entry s)(i := e)) (sv_ids s) (sv_order s)" using d(4) True by (intro reg_ok_upd) simp_all
      show "stop_ok (sv_stopped s) ((sv_entry s)(i := e))" using d(5) True by (intro stop_ok_upd) simp_all
    qed
    then show ?thesis by (simp add: s'_def)
  qed
qed

lemma again_wake: "wake_ok s \<Longrightarrow> wake_ok (snd (again i h req s))"
  by (auto simp: again_def wake_ok_def idle_slot_def split: option.split)

lemma RetryRun_ok: "core_ok s \<Longrightarrow> core_ok (snd (RetryRun i s))"
  by (auto simp: RetryRun_def Let_def split: option.split)

lemma RetryRun_wake: "wake_ok s \<Longrightarrow> wake_ok (snd (RetryRun i s))"
  by (auto simp: RetryRun_def Let_def wake_ok_def idle_slot_def split: option.split)

lemma TopUpRun_ok: "core_ok s \<Longrightarrow> core_ok (snd (TopUpRun d d' out roofBytes h p i s))"
  by (auto simp: TopUpRun_def Let_def again_ok split: option.split)

lemma TopUpRun_wake: "wake_ok s \<Longrightarrow> wake_ok (snd (TopUpRun d d' out roofBytes h p i s))"
  by (auto simp: TopUpRun_def Let_def again_wake split: option.split)

lemma ReopenRun_ok:
  assumes s: "core_ok s" and i: "i \<notin> sv_ids s"
  shows "core_ok (snd (ReopenRun h p i s))"
proof (cases "TrimSpace h = [] \<or> TrimSpace p = [] \<or> \<not> sv_replayer s \<or> sv_stopped s")
  case True
  then show ?thesis using s by (auto simp: ReopenRun_def Let_def)
next
  case False
  note d = core_okD [OF s]
  have bl: "sv_entry s i = blank" using d(4) i by (simp add: reg_ok_def)
  define e where "e = blank\<lparr>re_source := ''reopened'', re_state := RunReplaying, re_infoHash := TrimSpace h,
                      re_cancel := Some (sv_contexts s), re_arrival := sv_arrivalSeq s + 1\<rparr>"
  have e: "re_state e = RunReplaying" "re_queueSeq e = 0" by (simp_all add: e_def)
  define s' where "s' = snd (ReopenRun h p i s)"
  have f: "sv_entry s' = (sv_entry s)(i := e)" "sv_waiting s' = sv_waiting s"
    "sv_queueSeq s' = sv_queueSeq s" "sv_running s' = sv_running s"
    "sv_tasks s' = add_mset (Pumping i RunDone None) (sv_tasks s)"
    "sv_ids s' = insert i (sv_ids s)" "sv_order s' = sv_order s @ [i]" "sv_stopped s' = sv_stopped s"
    using False by (simp_all add: s'_def ReopenRun_def Let_def e_def)
  have "core_ok s'" unfolding core_ok_def f
  proof (intro conjI)
    show "queue_ok ((sv_entry s)(i := e)) (sv_waiting s) (sv_queueSeq s)"
      using d(1) bl e by (intro queue_ok_other) simp_all
    show "run_ok ((sv_entry s)(i := e)) (sv_running s)" using d(2) bl e by (intro run_ok_other) simp_all
    show "drive_ok ((sv_entry s)(i := e)) (add_mset (Pumping i RunDone None) (sv_tasks s))"
      using d(3) bl e by (intro drive_ok_start) auto
    show "reg_ok ((sv_entry s)(i := e)) (insert i (sv_ids s)) (sv_order s @ [i])" using d(4) i by (rule reg_ok_new)
    show "stop_ok (sv_stopped s) ((sv_entry s)(i := e))" using d(5) e by (intro stop_ok_upd) simp_all
  qed
  then show ?thesis by (simp add: s'_def)
qed

lemma ReopenRun_wake: "wake_ok s \<Longrightarrow> wake_ok (snd (ReopenRun h p i s))"
  by (auto simp: ReopenRun_def Let_def wake_ok_def idle_slot_def)

text \<open>An entry that waits or is parked ends where it stands.\<close>

lemma finish_waiting_ok:
  assumes s: "core_ok s" and i: "queueable (re_state (sv_entry s i))"
    and e: "re_state e = RunCancelled" "re_queueSeq e = re_queueSeq (sv_entry s i)"
    and f: "sv_entry s' = (sv_entry s)(i := e)" "sv_waiting s' = remove1 i (sv_waiting s)"
      "sv_queueSeq s' = sv_queueSeq s" "sv_running s' = sv_running s" "sv_tasks s' = sv_tasks s"
      "sv_ids s' = sv_ids s" "sv_order s' = sv_order s" "sv_stopped s' = sv_stopped s"
  shows "core_ok s'"
  unfolding core_ok_def f
proof (intro conjI)
  note d = core_okD [OF s]
  have st: "\<not> final (re_state (sv_entry s i))" "re_state (sv_entry s i) \<noteq> RunRunning" "\<not> active (re_state (sv_entry s i))"
    using i by (auto simp: queueable_def)
  have q: "re_queueSeq (sv_entry s i) \<le> sv_queueSeq s" using d(1) by (simp add: queue_ok_def)
  show "queue_ok ((sv_entry s)(i := e)) (remove1 i (sv_waiting s)) (sv_queueSeq s)"
    using d(1) e q by (intro queue_ok_drop) simp_all
  show "run_ok ((sv_entry s)(i := e)) (sv_running s)" using d(2) st e by (intro run_ok_other) simp_all
  show "drive_ok ((sv_entry s)(i := e)) (sv_tasks s)" using d(3) st e by (intro drive_ok_same) simp_all
  show "reg_ok ((sv_entry s)(i := e)) (sv_ids s) (sv_order s)"
    using d(4) st reg_ok_listed by (intro reg_ok_upd) auto
  show "stop_ok (sv_stopped s) ((sv_entry s)(i := e))" using d(5) e by (intro stop_ok_upd) simp_all
qed

lemma not_waiting: "core_ok s \<Longrightarrow> re_state (sv_entry s i) \<noteq> RunQueued \<Longrightarrow> remove1 i (sv_waiting s) = sv_waiting s"
  by (intro remove1_idem) (simp add: core_ok_def queue_ok_def)

text \<open>What an update that keeps state, cleanup, place and priority changes is none of this.\<close>

definition quiet :: "runEntry \<Rightarrow> runEntry \<Rightarrow> bool" where
  "quiet e e' \<longleftrightarrow> re_state e' = re_state e \<and> re_cleanup e' = re_cleanup e \<and> re_queueSeq e' = re_queueSeq e \<and>
     re_priority e' = re_priority e"

lemma quiet_ok:
  assumes s: "core_ok s" and e: "quiet (sv_entry s i) (f (sv_entry s i))" and i: "i \<in> set (sv_order s)"
  shows "core_ok (upd i f s)"
proof -
  note d = core_okD [OF s]
  show ?thesis
    using d e i reg_ok_upd stop_ok_upd [OF d(5)]
    by (auto simp: core_ok_def quiet_def stop_ok_def intro!: queue_ok_same run_ok_same drive_ok_same)
qed

lemma cancel_entry_ok:
  assumes s: "core_ok s" and i: "i \<in> set (sv_order s)"
  shows "core_ok (snd (cancel_entry i s))"
proof (cases "re_state (sv_entry s i)")
  case RunQueued
  then show ?thesis
    by (simp add: cancel_entry_def Let_def)
      (rule finish_waiting_ok [OF s, where i = i and e = "(sv_entry s i)\<lparr>re_cancelled := True, re_state := RunCancelled\<rparr>"],
       simp_all add: dropWaitingLocked_def)
next
  case RunNeedsAction
  then show ?thesis
    by (simp add: cancel_entry_def Let_def)
      (rule finish_waiting_ok [OF s, where i = i and e = "(sv_entry s i)\<lparr>re_cancelled := True, re_state := RunCancelled\<rparr>"],
       simp_all add: not_waiting [OF s])
next
  case RunRunning
  then show ?thesis using s i by (simp add: cancel_entry_def Let_def) (rule quiet_ok, simp_all add: quiet_def)
qed (use s in \<open>simp_all add: cancel_entry_def Let_def\<close>)

lemma only_running_listed: "only_running s = Inr i \<Longrightarrow> i \<in> set (sv_order s)"
  unfolding only_running_def by (auto split: list.splits dest!: arg_cong [of _ _ set])

lemma CancelRun_ok: "core_ok s \<Longrightarrow> core_ok (snd (CancelRun i s))"
  using cancel_entry_ok [of s] only_running_listed [of s]
  by (auto simp: CancelRun_def lookup_run_def split: sum.split)

lemma dropWaiting_fields [simp]:
  "sv_entry (dropWaitingLocked i s) = sv_entry s" "sv_waiting (dropWaitingLocked i s) = remove1 i (sv_waiting s)"
  "sv_tasks (dropWaitingLocked i s) = sv_tasks s" "sv_running (dropWaitingLocked i s) = sv_running s"
  "sv_queueSeq (dropWaitingLocked i s) = sv_queueSeq s" "sv_ids (dropWaitingLocked i s) = sv_ids s"
  "sv_order (dropWaitingLocked i s) = sv_order s" "sv_stopped (dropWaitingLocked i s) = sv_stopped s"
  "sv_staged (dropWaitingLocked i s) = sv_staged s" "sv_cleaned (dropWaitingLocked i s) = sv_cleaned s"
  "sv_maxActive (dropWaitingLocked i s) = sv_maxActive s" "sv_contexts (dropWaitingLocked i s) = sv_contexts s"
  "sv_ended (dropWaitingLocked i s) = sv_ended s" "sv_lister (dropWaitingLocked i s) = sv_lister s"
  by (simp_all add: dropWaitingLocked_def)

lemma cancel_entry_wake: "wake_ok s \<Longrightarrow> wake_ok (snd (cancel_entry i s))"
  by (auto simp: cancel_entry_def Let_def wake_ok_def idle_slot_def split: RunState.split)

lemma CancelRun_wake: "wake_ok s \<Longrightarrow> wake_ok (snd (CancelRun i s))"
  using cancel_entry_wake [of s] by (auto simp: CancelRun_def split: sum.split)

text \<open>Ticks and un-ticks.\<close>

lemma set_count_quiet [simp]: "quiet e (set_count b n e') \<longleftrightarrow> quiet e e'"
  by (simp add: set_count_def quiet_def)

lemma set_files_quiet [simp]: "quiet e (set_files fs e') \<longleftrightarrow> quiet e e'"
  by (simp add: set_files_def quiet_def)

lemma quiet_refl [simp]: "quiet e e"
  by (simp add: quiet_def)

lemma quiet_fields [simp]:
  "quiet e (e\<lparr>re_asked := a\<rparr>)" "quiet e (e\<lparr>re_pending := ps\<rparr>)"
  "quiet e (e\<lparr>re_pending := ps, re_asked := a\<rparr>)"
  by (simp_all add: quiet_def)

lemma re_state_set [simp]:
  "re_state (set_count b n e) = re_state e" "re_state (set_files fs e) = re_state e"
  "re_cleanup (set_count b n e) = re_cleanup e" "re_cleanup (set_files fs e) = re_cleanup e"
  by (simp_all add: set_count_def set_files_def)

lemma unpark_ok:
  assumes s: "core_ok s" and i: "re_state (sv_entry s i) = RunNeedsAction" and b: "\<not> sv_stopped s"
  shows "core_ok (enqueueWaitingLocked i (upd i (\<lambda>e. e\<lparr>re_state := RunQueued\<rparr>) s))"
proof -
  note d = core_okD [OF s]
  have l: "i \<in> set (sv_order s)" using d(4) i reg_ok_listed by force
  let ?E = "(sv_entry s)(i := (sv_entry s i)\<lparr>re_state := RunQueued, re_queueSeq := Suc (sv_queueSeq s)\<rparr>)"
  have "queue_ok ?E (place (qkey ?E) i (sv_waiting s)) (Suc (sv_queueSeq s))"
    using d(1) i by (intro queue_ok_enqueue) simp_all
  moreover have "run_ok ?E (sv_running s)" using d(2) i by (intro run_ok_other) simp_all
  moreover have "drive_ok ?E (sv_tasks s)" using d(3) i by (intro drive_ok_same) simp_all
  moreover have "reg_ok ?E (sv_ids s) (sv_order s)" using d(4) l by (rule reg_ok_upd)
  moreover have "stop_ok (sv_stopped s) ?E" using d(5) b by (intro stop_ok_upd) simp_all
  ultimately show ?thesis by (simp add: core_ok_def)
qed

lemma tick_ok:
  assumes s: "core_ok s" and i: "i \<in> set (sv_order s)" and b: "\<not> sv_stopped s"
  shows "core_ok (tick i chosen n s)"
proof -
  let ?s = "upd i (\<lambda>e. e\<lparr>re_asked := withFiles (re_asked e) chosen\<rparr>) s"
  have a: "core_ok ?s" using s i by (intro quiet_ok) simp_all
  have p: "core_ok (upd i (\<lambda>e. set_count c n (e\<lparr>re_pending := g\<rparr>)) ?s)" for c g
    by (rule quiet_ok [OF a]) (use i in simp_all)
  have q: "core_ok (upd i (\<lambda>e. set_count c n (set_files g e)) ?s)" for c g
    by (rule quiet_ok [OF a]) (use i in simp_all)
  have r: "core_ok (enqueueWaitingLocked i (upd i (\<lambda>e. e\<lparr>re_state := RunQueued\<rparr>)
             (upd i (\<lambda>e. set_count c n (set_files g e)) ?s)))" if "re_state (sv_entry s i) = RunNeedsAction" for c g
    using q b that by (intro unpark_ok) simp_all
  show ?thesis
    using s a p q r by (simp add: tick_def Let_def)
qed

lemma tick_wake: "wake_ok s \<Longrightarrow> wake_ok (tick i chosen n s)"
  by (simp add: tick_def Let_def wake_ok_def idle_slot_def)

lemma DecideRun_ok: "core_ok s \<Longrightarrow> core_ok (snd (DecideRun i files n s))"
  by (auto simp: DecideRun_def Let_def lookup_run_def tick_ok split: option.split list.split)

lemma DecideRun_wake: "wake_ok s \<Longrightarrow> wake_ok (snd (DecideRun i files n s))"
  by (auto simp: DecideRun_def Let_def tick_wake split: option.split list.split)

lemma park_ok:
  assumes s: "core_ok s" and i: "re_state (sv_entry s i) = RunQueued" and b: "\<not> sv_stopped s"
  shows "core_ok (upd i (\<lambda>e. e\<lparr>re_state := RunNeedsAction\<rparr>) (dropWaitingLocked i s))"
proof -
  note d = core_okD [OF s]
  have l: "i \<in> set (sv_order s)" using d(4) i reg_ok_listed by force
  have q: "re_queueSeq (sv_entry s i) \<le> sv_queueSeq s" using d(1) by (simp add: queue_ok_def)
  let ?E = "(sv_entry s)(i := (sv_entry s i)\<lparr>re_state := RunNeedsAction\<rparr>)"
  have "queue_ok ?E (remove1 i (sv_waiting s)) (sv_queueSeq s)" using d(1) q by (intro queue_ok_drop) simp_all
  moreover have "run_ok ?E (sv_running s)" using d(2) i by (intro run_ok_other) simp_all
  moreover have "drive_ok ?E (sv_tasks s)" using d(3) i by (intro drive_ok_same) simp_all
  moreover have "reg_ok ?E (sv_ids s) (sv_order s)" using d(4) l by (rule reg_ok_upd)
  moreover have "stop_ok (sv_stopped s) ?E" using d(5) b by (intro stop_ok_upd) simp_all
  ultimately show ?thesis by (simp add: core_ok_def)
qed

lemma untick_ok:
  assumes s: "core_ok s" and i: "i \<in> set (sv_order s)" and b: "\<not> sv_stopped s"
  shows "core_ok (untick i spec s)"
proof -
  let ?s = "upd i (\<lambda>e. e\<lparr>re_pending := withoutFiles (re_pending e) [spec],
                          re_asked := withoutFiles (re_asked e) [spec]\<rparr>) s"
  have a: "core_ok ?s" using s i by (intro quiet_ok) simp_all
  have q: "core_ok (upd i (set_files g) ?s)" for g by (rule quiet_ok [OF a]) (use i in simp_all)
  have r: "core_ok (upd i (\<lambda>e. e\<lparr>re_state := RunNeedsAction\<rparr>) (dropWaitingLocked i (upd i (set_files g) ?s)))"
    if "re_state (sv_entry s i) = RunQueued" for g
    using q b that by (intro park_ok) simp_all
  show ?thesis using a q r by (simp add: untick_def Let_def)
qed

lemma untick_wake: "wake_ok s \<Longrightarrow> wake_ok (untick i spec s)"
  by (auto simp: untick_def Let_def wake_ok_def idle_slot_def)

lemma UntickFile_ok: "core_ok s \<Longrightarrow> core_ok (snd (UntickFile i spec s))"
  by (auto simp: UntickFile_def Let_def lookup_run_def untick_ok split: option.split)

lemma UntickFile_wake: "wake_ok s \<Longrightarrow> wake_ok (snd (UntickFile i spec s))"
  by (auto simp: UntickFile_def Let_def untick_wake split: option.split)

text \<open>Priorities and the width.\<close>

lemma reprioritise_ok:
  assumes s: "core_ok s" and i: "queueable (re_state (sv_entry s i))" and b: "\<not> sv_stopped s"
    and that: "TrimSpace j = i"
  shows "core_ok (snd (SetRunPriority j p s))"
proof (cases "i = [] \<or> \<not> Priority_valid p \<or> i \<notin> set (sv_order s)")
  case True
  then show ?thesis using s that by (auto simp: SetRunPriority_def Let_def lookup_run_def)
next
  case False
  note d = core_okD [OF s]
  let ?e = "(sv_entry s i)\<lparr>re_priority := p\<rparr>"
  let ?E = "(sv_entry s)(i := ?e)"
  have o: "run_ok ?E (sv_running s)" "drive_ok ?E (sv_tasks s)" "reg_ok ?E (sv_ids s) (sv_order s)"
    "stop_ok (sv_stopped s) ?E"
    using d False b by (auto intro!: run_ok_same drive_ok_same reg_ok_upd stop_ok_upd)
  show ?thesis
  proof (cases "re_state (sv_entry s i) = RunQueued")
    case True
    then have "queue_ok ?E (place (qkey ?E) i (remove1 i (sv_waiting s))) (sv_queueSeq s)"
      using d(1) by (intro queue_ok_reprioritise) simp_all
    with o True False b that show ?thesis
      by (simp add: SetRunPriority_def Let_def lookup_run_def core_ok_def insertWaitingLocked_eq drive_ok_leave)
  next
    case nq: False
    have q: "re_queueSeq (sv_entry s i) \<le> sv_queueSeq s" using d(1) by (simp add: queue_ok_def)
    have "queue_ok ?E (sv_waiting s) (sv_queueSeq s)" using d(1) nq q by (intro queue_ok_other) simp_all
    with o i nq False b that show ?thesis
      by (simp add: SetRunPriority_def Let_def lookup_run_def core_ok_def drive_ok_leave)
  qed
qed

lemma SetRunPriority_ok:
  assumes "core_ok s"
  shows "core_ok (snd (SetRunPriority j p s))"
proof (cases "queueable (re_state (sv_entry s (TrimSpace j))) \<and> \<not> sv_stopped s")
  case True
  with reprioritise_ok [OF assms, of "TrimSpace j"] show ?thesis by simp
next
  case False
  with assms show ?thesis by (auto simp: SetRunPriority_def Let_def lookup_run_def split: option.split)
qed

lemma SetRunPriority_wake: "wake_ok s \<Longrightarrow> wake_ok (snd (SetRunPriority j p s))"
  by (auto simp: SetRunPriority_def Let_def wake_ok_def split: option.split)

lemma SetMaxActive_ok: "core_ok s \<Longrightarrow> core_ok (snd (SetMaxActiveTorrents n s))"
  by (simp add: SetMaxActiveTorrents_def core_ok_def drive_ok_leave)

lemma SetMaxActive_wake: "wake_ok s \<Longrightarrow> wake_ok (snd (SetMaxActiveTorrents n s))"
  by (simp add: SetMaxActiveTorrents_def wake_ok_def)

end
