(* ===== verification/RunReach.thy ===== *)
theory RunReach
  imports RunInvariant
begin

text \<open>The sections that start and end runs, trimming and closing, and the invariants of every reachable
server.\<close>

section \<open>An entry moves on\<close>

lemma moved_ok:
  assumes q: "queue_ok (sv_entry s) (sv_waiting s) (sv_queueSeq s)" and r: "run_ok (sv_entry s) (sv_running s)"
    and g: "reg_ok (sv_entry s) (sv_ids s) (sv_order s)" and st: "stop_ok (sv_stopped s) (sv_entry s)"
    and old: "\<not> final (re_state (sv_entry s i))"
    and e: "re_state e \<noteq> RunQueued" "re_state e = RunNeedsAction \<Longrightarrow> \<not> sv_stopped s"
      "re_queueSeq e = re_queueSeq (sv_entry s i)"
    and f: "sv_entry s' = (sv_entry s)(i := e)" "sv_waiting s' = remove1 i (sv_waiting s)"
      "sv_queueSeq s' = sv_queueSeq s"
      "sv_running s' = (if re_state e = RunRunning then insert i (sv_running s) else sv_running s - {i})"
      "sv_ids s' = sv_ids s" "sv_order s' = sv_order s" "sv_stopped s' = sv_stopped s"
    and dr: "drive_ok ((sv_entry s)(i := e)) (sv_tasks s')"
  shows "core_ok s'"
  unfolding core_ok_def f
proof (intro conjI)
  have b: "re_queueSeq (sv_entry s i) \<le> sv_queueSeq s" using q by (simp add: queue_ok_def)
  show "queue_ok ((sv_entry s)(i := e)) (remove1 i (sv_waiting s)) (sv_queueSeq s)"
    using q e b by (intro queue_ok_drop) simp_all
  show "run_ok ((sv_entry s)(i := e))
     (if re_state e = RunRunning then insert i (sv_running s) else sv_running s - {i})"
    using r by (simp add: run_ok_start run_ok_stop)
  show "drive_ok ((sv_entry s)(i := e)) (sv_tasks s')" by (rule dr)
  show "reg_ok ((sv_entry s)(i := e)) (sv_ids s) (sv_order s)"
    using g reg_ok_listed [OF g old] by (rule reg_ok_upd)
  show "stop_ok (sv_stopped s) ((sv_entry s)(i := e))"
    using st e(1,2) by (intro stop_ok_upd) (auto simp: queueable_def)
qed

lemma releaseSlot_fields [simp]:
  "sv_entry (releaseSlotLocked i s) = sv_entry s" "sv_waiting (releaseSlotLocked i s) = sv_waiting s"
  "sv_tasks (releaseSlotLocked i s) = sv_tasks s" "sv_running (releaseSlotLocked i s) = sv_running s - {i}"
  "sv_queueSeq (releaseSlotLocked i s) = sv_queueSeq s" "sv_ids (releaseSlotLocked i s) = sv_ids s"
  "sv_order (releaseSlotLocked i s) = sv_order s" "sv_stopped (releaseSlotLocked i s) = sv_stopped s"
  "sv_staged (releaseSlotLocked i s) = sv_staged s" "sv_cleaned (releaseSlotLocked i s) = sv_cleaned s"
  "sv_maxActive (releaseSlotLocked i s) = sv_maxActive s" "sv_contexts (releaseSlotLocked i s) = sv_contexts s"
  "sv_ended (releaseSlotLocked i s) = sv_ended s"
  by (simp_all add: releaseSlotLocked_def)

text \<open>What \<open>beginRun\<close> does to the fields the invariants speak of, on either answer.\<close>

definition begun :: "(RunRequest \<Rightarrow> string option) \<Rightarrow> nat \<Rightarrow> runEntry \<Rightarrow> runEntry" where
  "begun runner ctx e =
     (case runner (re_req e) of
        Some err \<Rightarrow> e\<lparr>re_state := RunFailed, re_err := Some err\<rparr>
      | None \<Rightarrow> e\<lparr>re_cancel := Some ctx, re_state := RunRunning\<rparr>)"

lemma begun_fields [simp]:
  "re_cleanup (begun runner ctx e) = re_cleanup e" "re_queueSeq (begun runner ctx e) = re_queueSeq e"
  "re_priority (begun runner ctx e) = re_priority e"
  "re_state (begun runner ctx e) = (if runner (re_req e) = None then RunRunning else RunFailed)"
  by (simp_all add: begun_def split: option.split)

lemma beginRun_fields:
  fixes runner ctx i s
  defines "s' \<equiv> snd (beginRun runner ctx i s)" and "e \<equiv> begun runner ctx (sv_entry s i)"
  shows "sv_entry s' = (sv_entry s)(i := e)" "sv_waiting s' = sv_waiting s" "sv_queueSeq s' = sv_queueSeq s"
    "sv_running s' = (if re_state e = RunRunning then insert i (sv_running s) else sv_running s - {i})"
    "sv_ids s' = sv_ids s" "sv_order s' = sv_order s" "sv_stopped s' = sv_stopped s" "sv_staged s' = sv_staged s"
    "sv_cleaned s' = sv_cleaned s"
    "sv_tasks s' = add_mset (if re_state e = RunRunning then Pumping i RunDone None else Cleaning i False) (sv_tasks s)"
    "fst (beginRun runner ctx i s) \<longleftrightarrow> re_state e = RunRunning"
    "sv_maxActive s' = sv_maxActive s"
  by (simp_all add: s'_def e_def beginRun_def begun_def split: option.split)

lemma queued_hd:
  assumes "core_ok s" "sv_waiting s \<noteq> []"
  shows "re_state (sv_entry s (hd (sv_waiting s))) = RunQueued"
    "remove1 (hd (sv_waiting s)) (sv_waiting s) = tl (sv_waiting s)"
  using assms by (auto simp: core_ok_def queue_ok_def) (cases "sv_waiting s"; simp)

lemma dispatch_idle:
  "dispatch runner s = (False, s) \<and> \<not> idle_slot s \<or> idle_slot s \<and> fst (dispatch runner s)"
  by (auto simp: dispatch_def idle_slot_def Let_def)

lemma dispatch_ok:
  assumes s: "core_ok s"
  shows "core_ok (snd (dispatch runner s))"
proof (cases "idle_slot s")
  case False
  then have "dispatch runner s = (False, s)" by (auto simp: dispatch_def idle_slot_def)
  with s show ?thesis by simp
next
  case True
  note d = core_okD [OF s]
  define i where "i = hd (sv_waiting s)"
  let ?c = "sv_contexts s"
  let ?s = "s\<lparr>sv_waiting := tl (sv_waiting s), sv_contexts := Suc ?c\<rparr>"
  from True have w: "sv_waiting s \<noteq> []" by (simp add: idle_slot_def)
  from queued_hd [OF s w] have i: "re_state (sv_entry s i) = RunQueued"
    and tl: "tl (sv_waiting s) = remove1 i (sv_waiting s)" by (simp_all add: i_def)
  show ?thesis
  proof (cases "needsListingLocked ?s i")
    case nl: True
    let ?e = "(sv_entry s i)\<lparr>re_cancel := Some ?c, re_state := RunRunning\<rparr>"
    have dr: "drive_ok ((sv_entry s)(i := ?e)) (add_mset (Listing i ?c) (sv_tasks s))"
      using d(3) i by (intro drive_ok_start) auto
    have "snd (dispatch runner s) = leave (Listing i ?c)
                ((upd i (\<lambda>e. e\<lparr>re_cancel := Some ?c, re_state := RunRunning\<rparr>) ?s)
                   \<lparr>sv_running := insert i (sv_running s)\<rparr>)"
      using True nl by (simp add: dispatch_def idle_slot_def Let_def i_def)
    then show ?thesis
      using i tl dr by (intro moved_ok [OF d(1,2,4,5), of i ?e]) simp_all
  next
    case nl: False
    let ?e = "begun (runner i) ?c (sv_entry s i)"
    have "snd (dispatch runner s) = snd (beginRun (runner i) ?c i ?s)"
      using True nl by (simp add: dispatch_def idle_slot_def Let_def i_def)
    moreover have "drive_ok ((sv_entry s)(i := ?e))
        (add_mset (if re_state ?e = RunRunning then Pumping i RunDone None else Cleaning i False) (sv_tasks s))"
    proof (cases "runner i (re_req (sv_entry s i)) = None")
      case True
      with d(3) i show ?thesis by (simp, intro drive_ok_start) auto
    next
      case False
      with d(3) i have "drive_ok ((sv_entry s)(i := ?e)) (sv_tasks s)" by (intro drive_ok_same) auto
      with False show ?thesis by (auto simp: drive_ok_leave)
    qed
    ultimately show ?thesis
      using i tl by (intro moved_ok [OF d(1,2,4,5), of i ?e]) (simp_all add: beginRun_fields split: if_splits)
  qed
qed

lemma dispatch_tasks: "set_mset (sv_tasks s) \<subseteq> set_mset (sv_tasks (snd (dispatch runner s)))"
  by (auto simp: dispatch_def Let_def beginRun_fields)

lemma dispatch_task_ok:
  assumes s: "core_ok s" "Dispatching \<in># sv_tasks s"
  shows "core_ok (dispatch_task runner s)" "wake_ok (dispatch_task runner s)"
proof -
  consider (stop) "dispatch runner s = (False, s)" "\<not> idle_slot s" | (go) "fst (dispatch runner s)"
    using dispatch_idle [of runner s] by blast
  then have "core_ok (dispatch_task runner s) \<and> wake_ok (dispatch_task runner s)"
  proof cases
    case stop
    then have t: "dispatch_task runner s = taken_up Dispatching s" by (simp add: dispatch_task_def)
    have "core_ok (taken_up Dispatching s)" using s by (intro core_ok_take) simp_all
    moreover have "\<not> idle_slot (taken_up Dispatching s)" using stop(2) by (simp add: idle_slot_def)
    ultimately show ?thesis by (simp add: t wake_ok_def)
  next
    case go
    then have t: "dispatch_task runner s = snd (dispatch runner s)"
      by (cases "dispatch runner s") (simp add: dispatch_task_def)
    have "Dispatching \<in># sv_tasks (snd (dispatch runner s))" using dispatch_tasks s(2) by blast
    then have "awake (sv_tasks (snd (dispatch runner s)))" by (auto simp: awake_def intro!: bexI [of _ Dispatching])
    then show ?thesis using dispatch_ok [OF s(1)] by (simp add: t awake_ok)
  qed
  then show "core_ok (dispatch_task runner s)" "wake_ok (dispatch_task runner s)" by auto
qed

section \<open>A listing ends\<close>

lemma listed_fields [simp]:
  "re_state (listed a e) = re_state e" "re_cleanup (listed a e) = re_cleanup e"
  "re_queueSeq (listed a e) = re_queueSeq e" "re_priority (listed a e) = re_priority e"
  "re_cancelled (listed a e) = re_cancelled e"
  by (simp_all add: listed_def split: sum.split)

lemma listThenRun_cases:
  fixes runner ctx i answer s
  defines "E1 \<equiv> listed answer (sv_entry s i)"
  shows "(\<exists>st err. (final st \<or> st = RunNeedsAction \<and> \<not> sv_stopped s) \<and>
            listThenRun runner ctx i answer s = listing_over st err ctx i (upd i (listed answer) s)) \<or>
         listThenRun runner ctx i answer s =
           (let s' = snd (beginRun runner ctx i (upd i (listed answer) s))
            in if fst (beginRun runner ctx i (upd i (listed answer) s)) then s' else leave Dispatching s')"
proof (cases "re_cancelled E1 \<or> sv_stopped s")
  case True
  then have "listThenRun runner ctx i answer s =
      listing_over RunCancelled (re_err E1) ctx i (upd i (listed answer) s)"
    by (simp add: listThenRun_def Let_def E1_def)
  then show ?thesis by (intro disjI1 exI [of _ RunCancelled] exI [of _ "re_err E1"]) simp
next
  case False
  show ?thesis
  proof (cases answer)
    case (Inl err)
    with False have "listThenRun runner ctx i answer s =
        listing_over RunFailed (Some err) ctx i (upd i (listed answer) s)"
      by (simp add: listThenRun_def Let_def E1_def)
    then show ?thesis by (intro disjI1 exI [of _ RunFailed] exI [of _ "Some err"]) simp
  next
    case (Inr c)
    show ?thesis
    proof (cases "1 < length (ct_Videos c)")
      case True
      with False Inr have "listThenRun runner ctx i answer s =
          listing_over RunNeedsAction (re_err E1) ctx i (upd i (listed answer) s)"
        by (simp add: listThenRun_def Let_def E1_def)
      with False show ?thesis by (intro disjI1 exI [of _ RunNeedsAction] exI [of _ "re_err E1"]) simp
    next
      case short: False
      with False Inr show ?thesis
        by (simp add: listThenRun_def Let_def E1_def case_prod_unfold split: bool.split)
    qed
  qed
qed

lemma listing_over_fields:
  fixes st err ctx i s
  defines "s' \<equiv> listing_over st err ctx i s"
  shows "sv_entry s' = (sv_entry s)(i := (sv_entry s i)\<lparr>re_state := st, re_err := err, re_cancel := None\<rparr>)"
    "sv_waiting s' = sv_waiting s" "sv_queueSeq s' = sv_queueSeq s" "sv_running s' = sv_running s - {i}"
    "sv_ids s' = sv_ids s" "sv_order s' = sv_order s" "sv_stopped s' = sv_stopped s" "sv_staged s' = sv_staged s"
    "sv_cleaned s' = sv_cleaned s"
    "sv_tasks s' = add_mset (if st = RunNeedsAction then Dispatching else Cleaning i True) (sv_tasks s)"
  by (simp_all add: s'_def listing_over_def Let_def)

text \<open>The server a goroutine sees whose task has been taken up: all but the count of drivers holds.\<close>

lemma listThenRun_ok:
  assumes s: "core_ok s" "Listing i ctx \<in># sv_tasks s"
  shows "core_ok (listThenRun runner ctx i answer (taken_up (Listing i ctx) s)) \<and>
         awake (sv_tasks (listThenRun runner ctx i answer (taken_up (Listing i ctx) s))) \<or>
         core_ok (listThenRun runner ctx i answer (taken_up (Listing i ctx) s)) \<and>
         (idle_slot (listThenRun runner ctx i answer (taken_up (Listing i ctx) s)) \<longrightarrow> idle_slot s) \<and>
         (awake (sv_tasks s) \<longrightarrow> awake (sv_tasks (listThenRun runner ctx i answer (taken_up (Listing i ctx) s))))"
proof -
  note d = core_okD [OF s(1)]
  define t where "t = taken_up (Listing i ctx) s"
  define u where "u = upd i (listed answer) t"
  have act: "active (re_state (sv_entry s i))" using drive_ok_active [OF d(3) s(2)] by simp
  then have nf: "\<not> final (re_state (sv_entry s i))" and nq: "re_state (sv_entry s i) \<noteq> RunQueued"
    by (auto simp: active_def)
  have wt: "remove1 i (sv_waiting s) = sv_waiting s" using not_waiting [OF s(1) nq] .
  have ue: "sv_entry u = (sv_entry s)(i := listed answer (sv_entry s i))" by (simp add: u_def t_def)
  have du: "queue_ok (sv_entry u) (sv_waiting u) (sv_queueSeq u)" "run_ok (sv_entry u) (sv_running u)"
    "reg_ok (sv_entry u) (sv_ids u) (sv_order u)" "stop_ok (sv_stopped u) (sv_entry u)"
    unfolding ue using d reg_ok_listed [OF d(4) nf]
    by (auto simp: u_def t_def stop_ok_def intro!: queue_ok_same run_ok_same reg_ok_upd)
  have wu: "remove1 i (sv_waiting u) = sv_waiting u" by (simp add: u_def t_def wt)
  have Eu: "sv_entry u i = listed answer (sv_entry s i)" by (simp add: ue)
  have nfu: "\<not> final (re_state (sv_entry u i))" using nf by (simp add: Eu)
  have drv: "drive_ok ((sv_entry s)(i := e)) (sv_tasks s - {#Listing i ctx#})" if "\<not> active (re_state e)" for e
    using d(3) s(2) that by (intro drive_ok_stop) auto
  have tu: "sv_tasks u = sv_tasks s - {#Listing i ctx#}" by (simp add: u_def t_def)
  from listThenRun_cases [where runner = runner and ctx = ctx and i = i and answer = answer and s = t, folded u_def]
  consider (over) st err where "final st \<or> st = RunNeedsAction \<and> \<not> sv_stopped t"
      "listThenRun runner ctx i answer t = listing_over st err ctx i u"
    | (begin_) "listThenRun runner ctx i answer t =
           (let s' = snd (beginRun runner ctx i u) in if fst (beginRun runner ctx i u) then s' else leave Dispatching s')"
    by blast
  then show ?thesis
  proof cases
    case over
    let ?s = "listing_over st err ctx i u"
    let ?e = "(sv_entry u i)\<lparr>re_state := st, re_err := err, re_cancel := None\<rparr>"
    have "core_ok ?s"
    proof (rule moved_ok [OF du nfu, of ?e])
      show "drive_ok ((sv_entry u)(i := ?e)) (sv_tasks ?s)"
        unfolding listing_over_fields ue tu
        using over(1) drv [of ?e] by (auto simp: drive_ok_leave final_def Eu)
    qed (use over(1) wu in \<open>auto simp: listing_over_fields final_def u_def t_def\<close>)
    moreover have "awake (sv_tasks ?s)" by (simp add: listing_over_fields)
    ultimately show ?thesis unfolding t_def [symmetric] over(2) by blast
  next
    case begin_
    let ?s = "snd (beginRun runner ctx i u)" and ?e = "begun runner ctx (sv_entry u i)"
    have dr: "drive_ok ((sv_entry s)(i := ?e)) (sv_tasks ?s)"
    proof (cases "runner (re_req (sv_entry u i)) = None")
      case True
      then show ?thesis unfolding beginRun_fields tu
        by (simp, intro drive_ok_hand [OF d(3) s(2)]) auto
    next
      case False
      then have "drive_ok ((sv_entry s)(i := ?e)) (sv_tasks s - {#Listing i ctx#})" by (intro drv) simp
      with False show ?thesis unfolding beginRun_fields tu by (auto simp: drive_ok_leave)
    qed
    have core: "core_ok ?s"
      by (rule moved_ok [OF du nfu, of ?e]) (use dr wu in \<open>auto simp: beginRun_fields ue split: if_splits\<close>)
    show ?thesis
    proof (cases "re_state ?e = RunRunning")
      case False
      then have "listThenRun runner ctx i answer t = leave Dispatching ?s"
        unfolding begin_ by (simp add: beginRun_fields Let_def)
      then show ?thesis using core by (simp add: t_def [symmetric])
    next
      case True
      then have eq: "listThenRun runner ctx i answer t = ?s"
        unfolding begin_ by (simp add: beginRun_fields Let_def)
      have "finite (sv_running s)" using d(2) unfolding run_ok_def by (rule conjunct1)
      then have "card (sv_running s) \<le> card (insert i (sv_running s))" by (intro card_mono) auto
      then have "idle_slot ?s \<longrightarrow> idle_slot s"
        using True by (auto simp: idle_slot_def beginRun_fields u_def t_def)
      moreover have "awake (sv_tasks s) \<longrightarrow> awake (sv_tasks ?s)"
        using awake_take [OF s(2)] by (simp add: beginRun_fields tu)
      ultimately show ?thesis using core by (simp add: t_def [symmetric] eq)
    qed
  qed
qed

section \<open>A pump ends\<close>

lemma pump_event_ok:
  fixes ev
  assumes s: "core_ok s" "Pumping i oc err \<in># sv_tasks s" and w: "wake_ok s"
  defines "s' \<equiv> pump_event i oc err ev (taken_up (Pumping i oc err) s)"
  shows "core_ok s'" "wake_ok s'"
proof -
  note d = core_okD [OF s(1)]
  have act: "active (re_state (sv_entry s i))" using drive_ok_active [OF d(3) s(2)] by simp
  then have l: "i \<in> set (sv_order s)" using reg_ok_listed [OF d(4)] by (auto simp: active_def)
  define e where "e = (case ev of MetadataReady hash name videos \<Rightarrow>
      (sv_entry s i)\<lparr>re_infoHash := hash, re_name := name, re_videos := videos\<rparr> | _ \<Rightarrow> sv_entry s i)"
  have q: "quiet (sv_entry s i) e" "sv_entry s' = (sv_entry s)(i := e)"
    by (simp_all add: e_def quiet_def s'_def pump_event_def split: RunEvent.split)
  have "\<exists>oc' err'. sv_tasks s' = add_mset (Pumping i oc' err') (sv_tasks s - {#Pumping i oc err#})"
    by (cases ev) (auto simp: s'_def pump_event_def)
  then obtain oc' err' where "sv_tasks s' = add_mset (Pumping i oc' err') (sv_tasks s - {#Pumping i oc err#})" by blast
  note e = q this
  have f: "sv_waiting s' = sv_waiting s" "sv_queueSeq s' = sv_queueSeq s" "sv_running s' = sv_running s"
    "sv_ids s' = sv_ids s" "sv_order s' = sv_order s" "sv_stopped s' = sv_stopped s" "sv_staged s' = sv_staged s"
    "sv_cleaned s' = sv_cleaned s" "sv_maxActive s' = sv_maxActive s"
    by (simp_all add: s'_def pump_event_def split: RunEvent.split)
  have dr: "drive_ok ((sv_entry s)(i := e)) (sv_tasks s')"
    unfolding e(3) using act e(1) by (intro drive_ok_hand [OF d(3) s(2)]) (auto simp: quiet_def)
  show "core_ok s'"
    unfolding core_ok_def f e(2) using d e(1) l dr
    by (auto simp: quiet_def stop_ok_def intro!: queue_ok_same run_ok_same reg_ok_upd)
  show "wake_ok s'"
    by (rule wake_ok_kept [OF w]) (use awake_take [OF s(2)] in \<open>auto simp: idle_slot_def f e(3)\<close>)
qed

lemma pump_clean_ok:
  assumes s: "core_ok s" "Pumping i oc err \<in># sv_tasks s" and w: "wake_ok s"
  defines "s' \<equiv> pump_clean i oc err (taken_up (Pumping i oc err) s)"
  shows "core_ok s'" "wake_ok s'"
proof -
  note d = core_okD [OF s(1)]
  have act: "active (re_state (sv_entry s i))" using drive_ok_active [OF d(3) s(2)] by simp
  have t: "sv_tasks s' = add_mset (Settling i oc err) (sv_tasks s - {#Pumping i oc err#})"
    by (simp add: s'_def pump_clean_def)
  have "drive_ok ((sv_entry s)(i := sv_entry s i)) (sv_tasks s')"
    unfolding t using act by (intro drive_ok_hand [OF d(3) s(2)]) auto
  with d show "core_ok s'" by (simp add: core_ok_def s'_def pump_clean_def)
  show "wake_ok s'"
    by (rule wake_ok_kept [OF w]) (use awake_take [OF s(2)] in \<open>auto simp: s'_def pump_clean_def idle_slot_def\<close>)
qed

lemma pump_over_ok:
  assumes s: "core_ok s" "Settling i oc err \<in># sv_tasks s" and oc: "final oc"
  defines "s' \<equiv> pump_over i oc err (taken_up (Settling i oc err) s)"
  shows "core_ok s'" "wake_ok s'"
proof -
  note d = core_okD [OF s(1)]
  have act: "active (re_state (sv_entry s i))" using drive_ok_active [OF d(3) s(2)] by simp
  then have nf: "\<not> final (re_state (sv_entry s i))" and nq: "re_state (sv_entry s i) \<noteq> RunQueued"
    by (auto simp: active_def)
  define st where "st = (if oc = RunDone \<and> re_cancelled (sv_entry s i) then RunCancelled else oc)"
  have st: "final st" using oc by (simp add: st_def)
  let ?e = "(sv_entry s i)\<lparr>re_state := st, re_err := err\<rparr>"
  have f: "sv_entry s' = (sv_entry s)(i := ?e)"
    "sv_tasks s' = add_mset (Ending i (re_infoHash (sv_entry s i))) (sv_tasks s - {#Settling i oc err#})"
    by (simp_all add: s'_def pump_over_def Let_def st_def)
  have na: "\<not> active (re_state ?e)" using st by (auto simp: final_def)
  have dr: "drive_ok ((sv_entry s)(i := ?e)) (sv_tasks s')"
    unfolding f(2) using na by (intro drive_ok_leave drive_ok_stop [OF d(3) s(2)]) auto
  have nr: "st \<noteq> RunQueued" "st \<noteq> RunNeedsAction" "st \<noteq> RunRunning" using st by (auto simp: final_def)
  show "core_ok s'"
    by (rule moved_ok [OF d(1,2,4,5) nf, of ?e])
      (use f dr st nr not_waiting [OF s(1) nq] in \<open>simp_all add: s'_def pump_over_def Let_def st_def\<close>)
  show "wake_ok s'" by (rule awake_ok) (simp add: f)
qed

text \<open>The sections after the stream touch neither states nor the queue, but for the claimed files.\<close>

lemma pump_release_ok:
  assumes s: "core_ok s" "Ending i h \<in># sv_tasks s"
  shows "core_ok (pump_release i h (taken_up (Ending i h) s))" "wake_ok (pump_release i h (taken_up (Ending i h) s))"
proof -
  show "core_ok (pump_release i h (taken_up (Ending i h) s))"
    using s by (simp add: pump_release_def core_ok_take)
  show "wake_ok (pump_release i h (taken_up (Ending i h) s))"
    by (rule awake_ok) (simp add: pump_release_def)
qed

lemma quiet_upd_ok:
  assumes s: "core_ok s" and e: "quiet (sv_entry s i) (f (sv_entry s i))"
    and i: "i \<in> set (sv_order s) \<or> i \<in> sv_ids s \<and> final (re_state (sv_entry s i))"
  shows "core_ok (upd i f s)"
proof (cases "i \<in> set (sv_order s)")
  case True
  with s e show ?thesis by (intro quiet_ok)
next
  case False
  with i have i: "i \<in> sv_ids s" "final (re_state (sv_entry s i))" by auto
  note d = core_okD [OF s]
  have st: "re_state (f (sv_entry s i)) = re_state (sv_entry s i)" using e by (simp add: quiet_def)
  have "reg_ok ((sv_entry s)(i := f (sv_entry s i))) (sv_ids s) (sv_order s)"
    using d(4) i st by (intro reg_ok_final) simp_all
  then show ?thesis
    using d e by (auto simp: core_ok_def quiet_def stop_ok_def
        intro!: queue_ok_same run_ok_same drive_ok_same)
qed

text \<open>The ids of tasks have been drawn.\<close>

fun task_id :: "Task \<Rightarrow> string set" where
  "task_id (Listing i ctx) = {i}"
| "task_id (Pumping i oc err) = {i}"
| "task_id (Settling i oc err) = {i}"
| "task_id (Ending i h) = {i}"
| "task_id (Passing i h) = {i}"
| "task_id (Rearming i h q) = {i}"
| "task_id Dispatching = {}"
| "task_id (Retrying i q) = {i}"
| "task_id (Starting q) = {}"
| "task_id (Cleaning i b) = {i}"
| "task_id (Trimming b) = {}"
| "task_id (Stopping is js) = set is \<union> set js"

fun outcome_ok :: "Task \<Rightarrow> bool" where
  "outcome_ok (Pumping i oc err) \<longleftrightarrow> final oc"
| "outcome_ok (Settling i oc err) \<longleftrightarrow> final oc"
| "outcome_ok t \<longleftrightarrow> True"

definition tasks_ok :: "Server \<Rightarrow> bool" where
  "tasks_ok s \<longleftrightarrow> (\<forall>t\<in>#sv_tasks s. task_id t \<subseteq> sv_ids s \<and> outcome_ok t)"

lemma not_listed_final: "core_ok s \<Longrightarrow> i \<notin> set (sv_order s) \<Longrightarrow> final (re_state (sv_entry s i))"
  by (auto simp: core_ok_def reg_ok_def)

lemma pump_pass_ok:
  assumes s: "core_ok s" "Passing i h \<in># sv_tasks s" and t: "tasks_ok s"
  shows "core_ok (pump_pass i h (taken_up (Passing i h) s))" "wake_ok (pump_pass i h (taken_up (Passing i h) s))"
proof -
  have "i \<in> sv_ids s" using t s(2) by (auto simp: tasks_ok_def)
  moreover have c: "core_ok (taken_up (Passing i h) s)" using s by (simp add: core_ok_take)
  ultimately have "core_ok (upd i (\<lambda>e. e\<lparr>re_pending := []\<rparr>) (taken_up (Passing i h) s))"
    using not_listed_final [OF s(1)] by (intro quiet_upd_ok) auto
  then show "core_ok (pump_pass i h (taken_up (Passing i h) s))"
    by (simp add: pump_pass_def pendingPass_def Let_def)
  show "wake_ok (pump_pass i h (taken_up (Passing i h) s))"
    by (rule awake_ok) (simp add: pump_pass_def pendingPass_def Let_def)
qed

section \<open>Trimming and closing\<close>

lemma trim_drops_over: "i \<in> set (trim_drops over n is) \<Longrightarrow> over i \<and> i \<in> set is"
  by (induction over n "is" rule: trim_drops.induct) (auto split: if_splits)

lemma trim_fields [simp]:
  "sv_entry (trim s) = sv_entry s" "sv_waiting (trim s) = sv_waiting s" "sv_queueSeq (trim s) = sv_queueSeq s"
  "sv_running (trim s) = sv_running s" "sv_tasks (trim s) = sv_tasks s" "sv_ids (trim s) = sv_ids s"
  "sv_stopped (trim s) = sv_stopped s" "sv_staged (trim s) = sv_staged s" "sv_cleaned (trim s) = sv_cleaned s"
  "sv_maxActive (trim s) = sv_maxActive s"
  by (simp_all add: trim_def Let_def)

lemma trim_ok: "core_ok s \<Longrightarrow> core_ok (trim s)"
proof -
  assume s: "core_ok s"
  let ?over = "\<lambda>i. final (re_state (sv_entry s i))"
  let ?gone = "trim_drops ?over 0 (rev (sv_order s))"
  have o: "sv_order (trim s) = filter (\<lambda>i. i \<notin> set ?gone) (sv_order s)" by (simp add: trim_def Let_def)
  have r: "reg_ok (sv_entry s) (sv_ids s) (sv_order s)" using core_okD(4) [OF s] .
  have fin: "?over i" if "i \<notin> set (sv_order (trim s))" for i
  proof (cases "i \<in> set (sv_order s)")
    case True
    with that have "i \<in> set ?gone" by (simp add: o)
    from trim_drops_over [OF this] show ?thesis by simp
  qed (use r in \<open>simp add: reg_ok_def\<close>)
  have "reg_ok (sv_entry s) (sv_ids s) (sv_order (trim s))"
    unfolding reg_ok_def
  proof (intro conjI allI impI)
    show "distinct (sv_order (trim s))" "set (sv_order (trim s)) \<subseteq> sv_ids s"
      using r by (auto simp: o reg_ok_def)
    show "?over i" if "i \<notin> set (sv_order (trim s))" for i using that by (rule fin)
    show "sv_entry s i = blank" if "i \<notin> sv_ids s" for i using r that by (simp add: reg_ok_def)
  qed
  with s show ?thesis by (simp add: core_ok_def)
qed

lemma trim_task_ok:
  assumes s: "core_ok s" "Trimming b \<in># sv_tasks s" and w: "wake_ok s"
  shows "core_ok (trim_task b s)" "wake_ok (trim_task b s)"
proof -
  have c: "core_ok (taken_up (Trimming b) s)" using s by (simp add: core_ok_take)
  from trim_ok [OF this] show "core_ok (trim_task b s)" by (cases b) (simp_all add: trim_task_def Let_def)
  show "wake_ok (trim_task b s)"
  proof (cases b)
    case True
    then show ?thesis by (simp add: trim_task_def Let_def awake_ok)
  next
    case False
    with s(2) have "awake (sv_tasks s - {#Trimming b#}) = awake (sv_tasks s)" by (intro awake_take) auto
    with w False show ?thesis by (simp add: trim_task_def Let_def wake_ok_def idle_slot_def)
  qed
qed

lemma clean_entry_ok:
  assumes s: "core_ok s" "Cleaning i b \<in># sv_tasks s" and w: "wake_ok s"
  shows "core_ok (clean_entry i b (taken_up (Cleaning i b) s))" "wake_ok (clean_entry i b (taken_up (Cleaning i b) s))"
proof -
  have "core_ok (taken_up (Cleaning i b) s)" using s by (simp add: core_ok_take)
  then show "core_ok (clean_entry i b (taken_up (Cleaning i b) s))" by (simp add: clean_entry_def)
  show "wake_ok (clean_entry i b (taken_up (Cleaning i b) s))"
  proof (cases b)
    case True
    then show ?thesis by (simp add: clean_entry_def awake_ok)
  next
    case False
    with s(2) have "awake (sv_tasks s - {#Cleaning i b#}) = awake (sv_tasks s)" by (intro awake_take) auto
    with w show ?thesis by (simp add: clean_entry_def wake_ok_def idle_slot_def)
  qed
qed

lemma strand_fields [simp]:
  "sv_entry (strand i s) = (sv_entry s)(i := (sv_entry s i)\<lparr>re_cancelled := True, re_state := RunCancelled\<rparr>)"
  "sv_waiting (strand i s) = sv_waiting s" "sv_queueSeq (strand i s) = sv_queueSeq s"
  "sv_running (strand i s) = sv_running s" "sv_tasks (strand i s) = sv_tasks s" "sv_ids (strand i s) = sv_ids s"
  "sv_order (strand i s) = sv_order s" "sv_stopped (strand i s) = sv_stopped s" "sv_staged (strand i s) = sv_staged s"
  "sv_cleaned (strand i s) = sv_cleaned s"
  "sv_maxActive (strand i s) = sv_maxActive s" "sv_ended (strand i s) = sv_ended s"
  by (simp_all add: strand_def)

lemma fold_strand_fields [simp]:
  "sv_waiting (fold strand is s) = sv_waiting s" "sv_queueSeq (fold strand is s) = sv_queueSeq s"
  "sv_running (fold strand is s) = sv_running s" "sv_tasks (fold strand is s) = sv_tasks s"
  "sv_ids (fold strand is s) = sv_ids s" "sv_order (fold strand is s) = sv_order s"
  "sv_stopped (fold strand is s) = sv_stopped s" "sv_staged (fold strand is s) = sv_staged s"
  "sv_cleaned (fold strand is s) = sv_cleaned s" "sv_maxActive (fold strand is s) = sv_maxActive s"
  "sv_ended (fold strand is s) = sv_ended s"
  by (induction "is" arbitrary: s) simp_all

lemma fold_strand_entry:
  "sv_entry (fold strand is s) i =
     (if i \<in> set is then (sv_entry s i)\<lparr>re_cancelled := True, re_state := RunCancelled\<rparr> else sv_entry s i)"
  by (induction "is" arbitrary: s) auto

text \<open>Stranding in turn is cancelling each where it stands, with the queue emptied as it goes.\<close>

lemma strand_all:
  assumes "core_ok s" "distinct is" "\<forall>i\<in>set is. queueable (re_state (sv_entry s i))" "s' = s\<lparr>sv_waiting := w, sv_stopped := b\<rparr>"
  shows "core_ok ((fold strand is s')\<lparr>sv_waiting := filter (\<lambda>i. i \<notin> set is) (sv_waiting s), sv_stopped := sv_stopped s\<rparr>)"
  using assms
proof (induction "is" arbitrary: s s')
  case Nil
  then show ?case by (simp add: core_ok_def)
next
  case (Cons i "is")
  define u where "u = (strand i s)\<lparr>sv_waiting := remove1 i (sv_waiting s)\<rparr>"
  have q: "queueable (re_state (sv_entry s i))" using Cons.prems(3) by simp
  have u: "core_ok u"
    by (rule finish_waiting_ok [OF Cons.prems(1) q, where e = "(sv_entry s i)\<lparr>re_cancelled := True, re_state := RunCancelled\<rparr>"])
      (simp_all add: u_def)
  have e: "strand i s' = u\<lparr>sv_waiting := w, sv_stopped := b\<rparr>"
    by (simp add: Cons.prems(4) u_def strand_def upd_def)
  have d: "distinct (sv_waiting s)"
    using core_okD(1) [OF Cons.prems(1)] wl.line_distinct by (auto simp: queue_ok_def)
  have qu: "\<forall>j\<in>set is. queueable (re_state (sv_entry u j))"
    using Cons.prems(2,3) by (auto simp: u_def)
  have du: "distinct is" using Cons.prems(2) by simp
  have "filter (\<lambda>j. j \<notin> set is) (sv_waiting u) = filter (\<lambda>j. j \<notin> set (i # is)) (sv_waiting s)"
    by (auto simp: u_def distinct_remove1_removeAll [OF d] removeAll_filter_not_eq intro: filter_cong)
  with Cons.IH [OF u du qu e] show ?case by (simp add: u_def)
qed

text \<open>Whom a close stops: what runs, and what waits or is parked.\<close>

definition going :: "Server \<Rightarrow> string list" where
  "going s = filter (\<lambda>i. i \<in> sv_running s) (sv_order s)"

definition stranded :: "Server \<Rightarrow> string list" where
  "stranded s = sv_waiting s @ filter (\<lambda>i. re_state (sv_entry s i) = RunNeedsAction) (sv_order s)"

lemma stranded_all:
  assumes s: "core_ok s"
  shows "distinct (stranded s)" "i \<in> set (stranded s) \<longleftrightarrow> queueable (re_state (sv_entry s i))"
    "set (stranded s) \<subseteq> sv_ids s" "set (going s) \<subseteq> sv_ids s"
proof -
  note d = core_okD [OF s]
  have w: "i \<in> set (sv_waiting s) \<longleftrightarrow> re_state (sv_entry s i) = RunQueued" for i
    using d(1) by (simp add: queue_ok_def)
  have "sorted_wrt (\<lambda>a b. key_before (qkey (sv_entry s) a) (qkey (sv_entry s) b)) (sv_waiting s)"
    using d(1) by (simp add: queue_ok_def)
  then have dw: "distinct (sv_waiting s)" by (rule wl.line_distinct)
  have "distinct (sv_order s)" using d(4) by (simp add: reg_ok_def)
  then have "distinct (filter (\<lambda>i. re_state (sv_entry s i) = RunNeedsAction) (sv_order s))" by (rule distinct_filter)
  moreover have "set (sv_waiting s) \<inter> set (filter (\<lambda>i. re_state (sv_entry s i) = RunNeedsAction) (sv_order s)) = {}"
    by (simp add: w disjoint_iff)
  ultimately show "distinct (stranded s)" using dw unfolding stranded_def distinct_append by blast
  have all: "i \<in> set (stranded s) \<longleftrightarrow> queueable (re_state (sv_entry s i))" for i
    using w [of i] reg_ok_listed [OF d(4), of i] unfolding stranded_def queueable_def
    by (cases "re_state (sv_entry s i)") simp_all
  then show "i \<in> set (stranded s) \<longleftrightarrow> queueable (re_state (sv_entry s i))" .
  have o: "set (sv_order s) \<subseteq> sv_ids s" using d(4) by (simp add: reg_ok_def)
  then show "set (going s) \<subseteq> sv_ids s" by (auto simp: going_def)
  have "i \<in> set (sv_order s)" if "i \<in> set (stranded s)" for i
    using that all [of i] reg_ok_listed [OF d(4), of i] by (auto simp: queueable_def)
  with o show "set (stranded s) \<subseteq> sv_ids s" by blast
qed

lemma Server_Close_fields:
  assumes "\<not> sv_stopped s"
  shows "Server_Close s = leave (Stopping (going s) (stranded s)) (fold strand (stranded s) (s\<lparr>sv_waiting := [], sv_stopped := True\<rparr>))"
    "sv_stopped (Server_Close s)" "sv_waiting (Server_Close s) = []" "sv_ids (Server_Close s) = sv_ids s"
    "sv_tasks (Server_Close s) = add_mset (Stopping (going s) (stranded s)) (sv_tasks s)"
    "sv_running (Server_Close s) = sv_running s" "sv_maxActive (Server_Close s) = sv_maxActive s"
    "sv_staged (Server_Close s) = sv_staged s" "sv_cleaned (Server_Close s) = sv_cleaned s"
    "sv_entry (Server_Close s) i =
      (if i \<in> set (stranded s) then (sv_entry s i)\<lparr>re_cancelled := True, re_state := RunCancelled\<rparr> else sv_entry s i)"
proof -
  have swap: "s\<lparr>sv_stopped := True, sv_waiting := []\<rparr> = s\<lparr>sv_waiting := [], sv_stopped := True\<rparr>" by simp
  show c: "Server_Close s = leave (Stopping (going s) (stranded s)) (fold strand (stranded s) (s\<lparr>sv_waiting := [], sv_stopped := True\<rparr>))"
    using assms unfolding Server_Close_def Let_def swap going_def stranded_def by simp
  show "sv_stopped (Server_Close s)" "sv_waiting (Server_Close s) = []" "sv_ids (Server_Close s) = sv_ids s"
    "sv_tasks (Server_Close s) = add_mset (Stopping (going s) (stranded s)) (sv_tasks s)"
    "sv_running (Server_Close s) = sv_running s" "sv_maxActive (Server_Close s) = sv_maxActive s"
    "sv_staged (Server_Close s) = sv_staged s" "sv_cleaned (Server_Close s) = sv_cleaned s"
    "sv_entry (Server_Close s) i =
      (if i \<in> set (stranded s) then (sv_entry s i)\<lparr>re_cancelled := True, re_state := RunCancelled\<rparr> else sv_entry s i)"
    by (simp_all add: c fold_strand_entry)
qed

lemma Server_Close_ok: "core_ok s \<Longrightarrow> core_ok (Server_Close s)"
proof (cases "sv_stopped s")
  case False
  assume s: "core_ok s"
  let ?s = "s\<lparr>sv_waiting := [], sv_stopped := True\<rparr>"
  have qi: "\<forall>i\<in>set (stranded s). queueable (re_state (sv_entry s i))" using stranded_all(2) [OF s] by simp
  have "filter (\<lambda>i. i \<notin> set (stranded s)) (sv_waiting s) = []" by (simp add: stranded_def filter_empty_conv)
  with strand_all [OF s stranded_all(1) [OF s] qi refl, where w = "[]" and b = True]
  have r: "core_ok ((fold strand (stranded s) ?s)\<lparr>sv_waiting := [], sv_stopped := sv_stopped s\<rparr>)" by simp
  have "\<not> queueable (re_state (sv_entry (fold strand (stranded s) ?s) i))" for i
    using stranded_all(2) [OF s, of i] by (simp add: fold_strand_entry)
  with r have "core_ok (fold strand (stranded s) ?s)" by (simp add: core_ok_def stop_ok_def)
  then show ?thesis by (simp add: Server_Close_fields(1) [OF False])
qed (simp add: Server_Close_def)

lemma Server_Close_wake: "wake_ok s \<Longrightarrow> wake_ok (Server_Close s)"
  by (cases "sv_stopped s") (simp_all add: Server_Close_def Server_Close_fields wake_ok_def idle_slot_def)

lemma close_on_fields:
  "sv_entry (close_on is js s) = sv_entry s" "sv_waiting (close_on is js s) = sv_waiting s"
  "sv_queueSeq (close_on is js s) = sv_queueSeq s" "sv_running (close_on is js s) = sv_running s"
  "sv_ids (close_on is js s) = sv_ids s" "sv_order (close_on is js s) = sv_order s"
  "sv_stopped (close_on is js s) = sv_stopped s" "sv_maxActive (close_on is js s) = sv_maxActive s"
  "sv_staged (close_on is js s) = sv_staged s"
  "sv_tasks (close_on is js s) = (if is = [] \<and> js = [] then sv_tasks s
     else add_mset (Stopping (tl is) (if is = [] then tl js else js)) (sv_tasks s))"
  by (cases "(is, js, s)" rule: close_on.cases; simp)+

lemma close_on_ok:
  assumes s: "core_ok s" "Stopping is js \<in># sv_tasks s" and w: "wake_ok s"
  shows "core_ok (close_on is js (taken_up (Stopping is js) s))" "wake_ok (close_on is js (taken_up (Stopping is js) s))"
proof -
  have "core_ok (taken_up (Stopping is js) s)" using s by (simp add: core_ok_take)
  then show "core_ok (close_on is js (taken_up (Stopping is js) s))"
    unfolding core_ok_def close_on_fields by (auto simp: drive_ok_leave)
  show "wake_ok (close_on is js (taken_up (Stopping is js) s))"
    by (rule wake_ok_kept [OF w]) (use awake_take [OF s(2)] in \<open>auto simp: idle_slot_def close_on_fields split: if_splits\<close>)
qed

section \<open>Reachable servers\<close>

lemma tasks_okI:
  assumes "tasks_ok s" "sv_ids s \<subseteq> sv_ids s'"
    and "\<And>t. t \<in># sv_tasks s' \<Longrightarrow> t \<in># sv_tasks s \<or> task_id t \<subseteq> sv_ids s' \<and> outcome_ok t"
  shows "tasks_ok s'"
  unfolding tasks_ok_def
proof
  fix t assume "t \<in># sv_tasks s'"
  with assms(3) consider "t \<in># sv_tasks s" | "task_id t \<subseteq> sv_ids s' \<and> outcome_ok t" by blast
  then show "task_id t \<subseteq> sv_ids s' \<and> outcome_ok t"
  proof cases
    case 1
    with assms(1,2) show ?thesis unfolding tasks_ok_def by blast
  qed simp
qed

lemma tasks_ok_leave: "tasks_ok s \<Longrightarrow> task_id t \<subseteq> sv_ids s \<Longrightarrow> outcome_ok t \<Longrightarrow> tasks_ok (leave t s)"
  by (auto simp: tasks_ok_def)

lemma tasks_ok_take: "tasks_ok s \<Longrightarrow> tasks_ok (taken_up t s)"
  by (auto simp: tasks_ok_def dest: in_diffD)

lemma tasks_ok_fields: "tasks_ok s \<Longrightarrow> sv_tasks s' = sv_tasks s \<Longrightarrow> sv_ids s' = sv_ids s \<Longrightarrow> tasks_ok s'"
  by (simp add: tasks_ok_def)

lemma tasks_ok_end [simp]: "tasks_ok (end_context c s) = tasks_ok s" "tasks_ok (upd i f s) = tasks_ok s"
  by (simp_all add: tasks_ok_def)

text \<open>Of the calls only a start, a replay and running again draw ids, and only a replay starts a pump.\<close>

lemma startRun_tasks: "tasks_ok s \<Longrightarrow> tasks_ok (snd (startRun req c i s))"
  by (auto simp: startRun_def Let_def tasks_ok_def)

lemma again_tasks: "tasks_ok s \<Longrightarrow> tasks_ok (snd (again i h req s))"
  by (auto simp: again_def tasks_ok_def split: option.split)

lemma listed_id: "core_ok s \<Longrightarrow> i \<in> set (sv_order s) \<Longrightarrow> i \<in> sv_ids s"
  by (auto simp: core_ok_def reg_ok_def)

lemma active_id: "core_ok s \<Longrightarrow> \<not> final (re_state (sv_entry s i)) \<Longrightarrow> i \<in> sv_ids s"
  using reg_ok_listed [OF core_okD(4)] listed_id by blast

lemma RetryRun_tasks: "core_ok s \<Longrightarrow> tasks_ok s \<Longrightarrow> tasks_ok (snd (RetryRun i s))"
  using listed_id [of s] by (auto simp: RetryRun_def Let_def tasks_ok_def lookup_run_def split: option.split if_splits)

lemma TopUpRun_tasks: "tasks_ok s \<Longrightarrow> tasks_ok (snd (TopUpRun d d' out roofBytes h p i s))"
  by (auto simp: TopUpRun_def Let_def again_tasks split: option.split)

lemma ReopenRun_tasks: "tasks_ok s \<Longrightarrow> tasks_ok (snd (ReopenRun h p i s))"
  by (auto simp: ReopenRun_def Let_def tasks_ok_def)

lemma CancelRun_tasks: "core_ok s \<Longrightarrow> tasks_ok s \<Longrightarrow> tasks_ok (snd (CancelRun i s))"
  using active_id [of s]
  by (auto simp: CancelRun_def cancel_entry_def Let_def tasks_ok_def split: sum.split RunState.split)

lemma DecideRun_tasks: "tasks_ok s \<Longrightarrow> tasks_ok (snd (DecideRun i fs n s))"
  by (auto simp: DecideRun_def tick_def Let_def tasks_ok_def split: option.split list.split)

lemma UntickFile_tasks: "tasks_ok s \<Longrightarrow> tasks_ok (snd (UntickFile i spec s))"
  by (auto simp: UntickFile_def untick_def Let_def tasks_ok_def split: option.split)

lemma SetRunPriority_tasks: "tasks_ok s \<Longrightarrow> tasks_ok (snd (SetRunPriority i p s))"
  by (auto simp: SetRunPriority_def insertWaitingLocked_eq Let_def tasks_ok_def split: option.split)

lemma SetMaxActive_tasks: "tasks_ok s \<Longrightarrow> tasks_ok (snd (SetMaxActiveTorrents n s))"
  by (auto simp: SetMaxActiveTorrents_def tasks_ok_def)

lemma Server_Close_tasks: "core_ok s \<Longrightarrow> tasks_ok s \<Longrightarrow> tasks_ok (Server_Close s)"
proof (cases "sv_stopped s")
  case False
  assume "core_ok s" "tasks_ok s"
  with stranded_all(3,4) [of s] show ?thesis
    unfolding tasks_ok_def Server_Close_fields(4,5) [OF False] by auto
qed (simp add: Server_Close_def)

lemma close_on_tasks: "tasks_ok s \<Longrightarrow> set is \<union> set js \<subseteq> sv_ids s \<Longrightarrow> tasks_ok (close_on is js s)"
  by (auto simp: tasks_ok_def close_on_fields dest: list.set_sel(2) split: if_splits)

lemma clean_entry_tasks: "tasks_ok s \<Longrightarrow> tasks_ok (clean_entry i b s)"
  by (simp add: clean_entry_def tasks_ok_def)

lemma dispatch_tasks_ok:
  assumes s: "core_ok s" and t: "tasks_ok s"
  shows "tasks_ok (dispatch_task runner s)"
proof -
  have h: "hd (sv_waiting s) \<in> sv_ids s" if "sv_waiting s \<noteq> []"
  proof -
    have "\<not> final (re_state (sv_entry s (hd (sv_waiting s))))" using queued_hd(1) [OF s that] by simp
    with reg_ok_listed [OF core_okD(4) [OF s]] have "hd (sv_waiting s) \<in> set (sv_order s)" by blast
    with core_okD(4) [OF s] show ?thesis by (auto simp: reg_ok_def)
  qed
  have d: "tasks_ok (snd (dispatch runner s))"
    using t h by (auto simp: dispatch_def Let_def beginRun_fields tasks_ok_def)
  show ?thesis
  proof (cases "dispatch runner s")
    case (Pair b u)
    with d have "tasks_ok u" by simp
    with Pair show ?thesis by (cases b) (simp_all add: dispatch_task_def tasks_ok_take)
  qed
qed

lemma listThenRun_tasks:
  assumes t: "tasks_ok s" and i: "i \<in> sv_ids s"
  shows "tasks_ok (listThenRun runner ctx i answer s)"
proof -
  from listThenRun_cases [where runner = runner and ctx = ctx and i = i and answer = answer and s = s]
  show ?thesis
  proof (elim disjE exE)
    fix st err
    assume "(final st \<or> st = RunNeedsAction \<and> \<not> sv_stopped s) \<and>
      listThenRun runner ctx i answer s = listing_over st err ctx i (upd i (listed answer) s)"
    then show ?thesis using t i by (auto simp: tasks_ok_def listing_over_fields)
  next
    assume "listThenRun runner ctx i answer s =
      (let s' = snd (beginRun runner ctx i (upd i (listed answer) s))
       in if fst (beginRun runner ctx i (upd i (listed answer) s)) then s' else leave Dispatching s')"
    then show ?thesis using t i by (auto simp: tasks_ok_def beginRun_fields Let_def)
  qed
qed

lemma pump_tasks:
  assumes t: "tasks_ok s" and i: "i \<in> sv_ids s"
  shows "final oc \<Longrightarrow> tasks_ok (pump_event i oc err ev s)" "final oc \<Longrightarrow> tasks_ok (pump_clean i oc err s)"
    "tasks_ok (pump_over i oc err s)" "tasks_ok (pump_release i h s)" "tasks_ok (pump_pass i h s)"
proof -
  show "final oc \<Longrightarrow> tasks_ok (pump_event i oc err ev s)"
    using t i by (cases ev) (auto simp: pump_event_def tasks_ok_def)
  show "final oc \<Longrightarrow> tasks_ok (pump_clean i oc err s)" using t i by (auto simp: pump_clean_def tasks_ok_def)
  show "tasks_ok (pump_over i oc err s)" using t i by (auto simp: pump_over_def Let_def tasks_ok_def)
  show "tasks_ok (pump_release i h s)" using t i by (auto simp: pump_release_def tasks_ok_def)
  show "tasks_ok (pump_pass i h s)" using t i by (auto simp: pump_pass_def pendingPass_def Let_def tasks_ok_def)
qed

definition server_ok :: "Server \<Rightarrow> bool" where
  "server_ok s \<longleftrightarrow> core_ok s \<and> wake_ok s \<and> tasks_ok s"

lemma new_ok: "server_ok (newServer lister replayer width)"
  by (simp add: server_ok_def newServer_def core_ok_def queue_ok_def run_ok_def drive_ok_def reg_ok_def stop_ok_def
      wake_ok_def idle_slot_def tasks_ok_def)

lemma step_ok: "step s s' \<Longrightarrow> server_ok s \<Longrightarrow> server_ok s'"
proof (induction rule: step.induct)
  case (started i s cleanup req)
  then show ?case unfolding server_ok_def by (blast intro: startRun_ok startRun_wake startRun_tasks)
next
  case (retried s i)
  then show ?case unfolding server_ok_def by (blast intro: RetryRun_ok RetryRun_wake RetryRun_tasks)
next
  case (retrying i req s)
  then have o: "core_ok s" "wake_ok s" "tasks_ok s" by (simp_all add: server_ok_def)
  let ?t = "taken_up (Retrying i req) s"
  have "core_ok ?t" "wake_ok ?t" "tasks_ok ?t"
    using o retrying(1) awake_take [OF retrying(1)] by (auto simp: core_ok_take tasks_ok_take wake_ok_def idle_slot_def)
  then show ?case unfolding server_ok_def by (blast intro: again_ok again_wake again_tasks)
next
  case (topped_up s d d' out roofBytes h p i)
  then show ?case unfolding server_ok_def by (blast intro: TopUpRun_ok TopUpRun_wake TopUpRun_tasks)
next
  case (starting req s i)
  then have o: "core_ok s" "wake_ok s" "tasks_ok s" by (simp_all add: server_ok_def)
  let ?t = "taken_up (Starting req) s"
  have "core_ok ?t" "wake_ok ?t" "tasks_ok ?t" "i \<notin> sv_ids ?t"
    using o starting awake_take [OF starting(1)] by (auto simp: core_ok_take tasks_ok_take wake_ok_def idle_slot_def)
  then show ?case unfolding server_ok_def by (blast intro: startRun_ok startRun_wake startRun_tasks)
next
  case (reopened i s h p)
  then show ?case unfolding server_ok_def by (blast intro: ReopenRun_ok ReopenRun_wake ReopenRun_tasks)
next
  case (cancelled s i)
  then show ?case unfolding server_ok_def by (blast intro: CancelRun_ok CancelRun_wake CancelRun_tasks)
next
  case (decided s i files n)
  then show ?case unfolding server_ok_def by (blast intro: DecideRun_ok DecideRun_wake DecideRun_tasks)
next
  case (unticked s i spec)
  then show ?case unfolding server_ok_def by (blast intro: UntickFile_ok UntickFile_wake UntickFile_tasks)
next
  case (prioritised s i p)
  then show ?case unfolding server_ok_def by (blast intro: SetRunPriority_ok SetRunPriority_wake SetRunPriority_tasks)
next
  case (widened s n)
  then show ?case unfolding server_ok_def by (blast intro: SetMaxActive_ok SetMaxActive_wake SetMaxActive_tasks)
next
  case (closed s)
  then show ?case unfolding server_ok_def by (blast intro: Server_Close_ok Server_Close_wake Server_Close_tasks)
next
  case (dispatched s runner)
  then show ?case unfolding server_ok_def by (blast intro: dispatch_task_ok dispatch_tasks_ok)
next
  case (listed i ctx s runner answer)
  then have o: "core_ok s" "wake_ok s" "tasks_ok s" by (simp_all add: server_ok_def)
  let ?s = "listThenRun runner ctx i answer (taken_up (Listing i ctx) s)"
  from listThenRun_ok [OF o(1) listed(1), of runner answer] have "core_ok ?s \<and> wake_ok ?s"
    using o(2) by (auto simp: awake_ok wake_ok_def)
  moreover have "tasks_ok ?s"
    using o(3) listed(1) by (intro listThenRun_tasks tasks_ok_take) (auto simp: tasks_ok_def)
  ultimately show ?case by (simp add: server_ok_def)
next
  case (event i oc err s ev)
  then have o: "core_ok s" "wake_ok s" "tasks_ok s" by (simp_all add: server_ok_def)
  then have "i \<in> sv_ids s" "final oc" using event(1) by (auto simp: tasks_ok_def)
  with o event(1) show ?case by (simp add: server_ok_def pump_event_ok pump_tasks tasks_ok_take)
next
  case (drained i oc err s)
  then have o: "core_ok s" "wake_ok s" "tasks_ok s" by (simp_all add: server_ok_def)
  then have "i \<in> sv_ids s" "final oc" using drained(1) by (auto simp: tasks_ok_def)
  with o drained(1) show ?case by (simp add: server_ok_def pump_clean_ok pump_tasks tasks_ok_take)
next
  case (ended i oc err s)
  then have o: "core_ok s" "wake_ok s" "tasks_ok s" by (simp_all add: server_ok_def)
  then have "i \<in> sv_ids s" "final oc" using ended(1) by (auto simp: tasks_ok_def)
  with o ended(1) show ?case by (simp add: server_ok_def pump_over_ok pump_tasks tasks_ok_take)
next
  case (released i h s)
  then have o: "core_ok s" "wake_ok s" "tasks_ok s" by (simp_all add: server_ok_def)
  then have "i \<in> sv_ids s" using released(1) by (auto simp: tasks_ok_def)
  with o released(1) show ?case by (simp add: server_ok_def pump_release_ok pump_tasks tasks_ok_take)
next
  case (passed i h s)
  then have o: "core_ok s" "wake_ok s" "tasks_ok s" by (simp_all add: server_ok_def)
  then have "i \<in> sv_ids s" using passed(1) by (auto simp: tasks_ok_def)
  with o passed(1) show ?case by (simp add: server_ok_def pump_pass_ok pump_tasks tasks_ok_take)
next
  case (rearmed i h req s)
  then have o: "core_ok s" "wake_ok s" "tasks_ok s" by (simp_all add: server_ok_def)
  let ?t = "taken_up (Rearming i h req) s"
  have "core_ok ?t" using o(1) rearmed(1) by (intro core_ok_take) simp_all
  then have "core_ok (snd (again i h req ?t))" by (rule again_ok)
  moreover have "tasks_ok (snd (again i h req ?t))" using o(3) by (intro again_tasks tasks_ok_take)
  ultimately show ?case by (simp add: server_ok_def tasks_ok_leave awake_ok)
next
  case (cleaned i b s)
  then show ?case unfolding server_ok_def by (blast intro: clean_entry_ok clean_entry_tasks tasks_ok_take)
next
  case (stopping "is" js s)
  then have o: "core_ok s" "wake_ok s" "tasks_ok s" by (simp_all add: server_ok_def)
  then have "set is \<union> set js \<subseteq> sv_ids s" using stopping(1) by (fastforce simp: tasks_ok_def)
  with o stopping(1) show ?case by (simp add: server_ok_def close_on_ok close_on_tasks tasks_ok_take)
next
  case (trimmed b s)
  then have o: "core_ok s" "wake_ok s" "tasks_ok s" by (simp_all add: server_ok_def)
  have "tasks_ok (trim (taken_up (Trimming b) s))" by (rule tasks_ok_fields [OF tasks_ok_take [OF o(3)]]) simp_all
  then have "tasks_ok (trim_task b s)" by (cases b) (simp_all add: trim_task_def Let_def tasks_ok_leave)
  with o trimmed(1) show ?case by (simp add: server_ok_def trim_task_ok)
qed

lemma reachable_ok: "reachable lister replayer width s \<Longrightarrow> server_ok s"
  by (induction rule: reachable.induct) (auto intro: new_ok step_ok)

end
