(* ===== verification/RunCleanups.thy ===== *)
theory RunCleanups
  imports RunReach
begin

text \<open>
  The files staged for uploads and their removal, the cleanups of \<^verbatim>\<open>internal/web/server.go\<close>. Each is run
  outside the lock, some time after the section that ended its entry, so what holds between the sections is
  stated over what is still to be cleaned up. Running an entry again takes its cleanup away; what that
  loses is kept beside the server in a history.
\<close>

section \<open>What is still to be cleaned up\<close>

text \<open>How often a task under way will run the cleanup of an entry, and whether it is a pump that has run it.\<close>

fun cleanings :: "string \<Rightarrow> Task \<Rightarrow> nat" where
  "cleanings i (Cleaning j b) = of_bool (j = i)"
| "cleanings i (Stopping is js) = count_list js i"
| "cleanings i t = 0"

fun settles :: "string \<Rightarrow> Task \<Rightarrow> nat" where
  "settles i (Settling j oc err) = of_bool (j = i)"
| "settles i t = 0"

definition tally :: "(Task \<Rightarrow> nat) \<Rightarrow> Task multiset \<Rightarrow> nat" where
  "tally f T = sum_mset (image_mset f T)"

lemma tally_simps [simp]: "tally f {#} = 0" "tally f (add_mset t T) = f t + tally f T"
  by (simp_all add: tally_def)

lemma tally_take: "t \<in># T \<Longrightarrow> tally f T = f t + tally f (T - {#t#})"
  by (metis insert_DiffM tally_simps(2))

lemma tally_diff: "t \<in># T \<Longrightarrow> tally f (T - {#t#}) = tally f T - f t"
  by (simp add: tally_take)

lemma tally_zero: "(\<And>t. t \<in># T \<Longrightarrow> f t = 0) \<Longrightarrow> tally f T = 0"
  by (simp add: tally_def)

definition cleaners :: "Server \<Rightarrow> string \<Rightarrow> nat" where
  "cleaners s i = tally (cleanings i) (sv_tasks s)"

definition settlers :: "Server \<Rightarrow> string \<Rightarrow> nat" where
  "settlers s i = tally (settles i) (sv_tasks s)"

lemma count_once: "distinct xs \<Longrightarrow> count_list xs x = of_bool (x \<in> set xs)"
  by (induction xs) auto

text \<open>A pump that settles drives its entry.\<close>

lemma settlers_driven: "core_ok s \<Longrightarrow> settlers s i \<le> of_bool (active (re_state (sv_entry s i)))"
proof -
  assume c: "core_ok s"
  have "tally (settles i) T \<le> drivers i T" for T
  proof (induction T)
    case (add t T)
    have "settles i t \<le> of_bool (drives i t)" by (cases t) auto
    with add show ?case by (auto split: if_splits)
  qed simp
  with core_okD(3) [OF c] show ?thesis unfolding settlers_def drive_ok_def by metis
qed

lemma settlers_iff: "0 < settlers s i \<longleftrightarrow> (\<exists>oc err. Settling i oc err \<in># sv_tasks s)"
proof -
  have "0 < tally (settles i) T \<longleftrightarrow> (\<exists>oc err. Settling i oc err \<in># T)" for T
  proof (induction T)
    case (add t T)
    then show ?case by (cases t) auto
  qed simp
  then show ?thesis by (simp add: settlers_def)
qed

lemma not_settling:
  assumes c: "core_ok s" and t: "t \<in># sv_tasks s" "drives i t" "settles i t = 0"
  shows "settlers s i = 0"
proof -
  have "tally (settles i) T \<le> drivers i T" for T
  proof (induction T)
    case (add t T)
    have "settles i t \<le> of_bool (drives i t)" by (cases t) auto
    with add show ?case by (auto split: if_splits)
  qed simp
  from this [of "sv_tasks s - {#t#}"] have "settlers s i \<le> drivers i (sv_tasks s) - 1"
    using t by (simp add: settlers_def tally_take [OF t(1)] drivers_diff)
  moreover have "drivers i (sv_tasks s) \<le> 1" using core_okD(3) [OF c] by (simp add: drive_ok_def)
  ultimately show ?thesis by simp
qed

lemma fresh_tasks: "tasks_ok s \<Longrightarrow> i \<notin> sv_ids s \<Longrightarrow> cleaners s i = 0 \<and> settlers s i = 0"
proof -
  assume t: "tasks_ok s" "i \<notin> sv_ids s"
  have "cleanings i u = 0 \<and> settles i u = 0" if "u \<in># sv_tasks s" for u
  proof -
    have "task_id u \<subseteq> sv_ids s" using t(1) that by (simp add: tasks_ok_def)
    with t(2) show ?thesis by (cases u) (auto intro!: count_notin)
  qed
  then show ?thesis unfolding cleaners_def settlers_def by (auto intro!: tally_zero)
qed

section \<open>The invariant\<close>

text \<open>An entry that is over has its cleanup run, or has exactly one call under way that will run it; the cleanup of
any other entry has been run exactly when its pump has done so on its way to the end.\<close>

definition cleaned_when :: "Server \<Rightarrow> string \<Rightarrow> nat \<Rightarrow> bool" where
  "cleaned_when s i c \<longleftrightarrow>
     (if final (re_state (sv_entry s i)) then cleaners s i = of_bool (c \<notin> set (sv_cleaned s))
      else cleaners s i = 0 \<and> (c \<in> set (sv_cleaned s) \<longleftrightarrow> 0 < settlers s i))"

definition clean_ok :: "Server \<Rightarrow> bool" where
  "clean_ok s \<longleftrightarrow>
     distinct (sv_cleaned s) \<and> set (sv_cleaned s) \<subseteq> sv_staged s \<and>
     (\<forall>i c. re_cleanup (sv_entry s i) = Some c \<longrightarrow> c \<in> sv_staged s \<and> cleaned_when s i c) \<and>
     (\<forall>i j c. re_cleanup (sv_entry s i) = Some c \<longrightarrow> re_cleanup (sv_entry s j) = Some c \<longrightarrow> i = j)"

lemma clean_okD:
  assumes "clean_ok s"
  shows "distinct (sv_cleaned s)" "set (sv_cleaned s) \<subseteq> sv_staged s"
    "\<And>i c. re_cleanup (sv_entry s i) = Some c \<Longrightarrow> c \<in> sv_staged s"
    "\<And>i c. re_cleanup (sv_entry s i) = Some c \<Longrightarrow> cleaned_when s i c"
    "\<And>i j c. re_cleanup (sv_entry s i) = Some c \<Longrightarrow> re_cleanup (sv_entry s j) = Some c \<Longrightarrow> i = j"
  using assms by (auto simp: clean_ok_def)

text \<open>What a step leaves of an entry: its cleanup is gone, or nothing that matters to it has changed.\<close>

definition kept :: "Server \<Rightarrow> Server \<Rightarrow> string \<Rightarrow> bool" where
  "kept s s' j \<longleftrightarrow>
     re_cleanup (sv_entry s' j) = None \<or>
     re_cleanup (sv_entry s' j) = re_cleanup (sv_entry s j) \<and>
     final (re_state (sv_entry s' j)) = final (re_state (sv_entry s j)) \<and>
     cleaners s' j = cleaners s j \<and> settlers s' j = settlers s j"

lemma clean_ok_step:
  assumes c: "clean_ok s" and st: "sv_staged s' = sv_staged s" and ot: "\<And>j. j \<noteq> i \<Longrightarrow> kept s s' j"
    and cl: "sv_cleaned s' = sv_cleaned s @ token x" "x = None \<or> x = re_cleanup (sv_entry s i)"
      "\<And>k. x = Some k \<Longrightarrow> k \<notin> set (sv_cleaned s)"
    and i: "\<And>k. re_cleanup (sv_entry s' i) = Some k \<Longrightarrow>
      re_cleanup (sv_entry s i) = Some k \<and> (cleaned_when s i k \<longrightarrow> cleaned_when s' i k)"
  shows "clean_ok s'"
proof -
  note d = clean_okD [OF c]
  have was: "re_cleanup (sv_entry s j) = Some k" if "re_cleanup (sv_entry s' j) = Some k" for j k
    using that i ot [of j] by (cases "j = i") (auto simp: kept_def)
  have timely: "cleaned_when s' j k" if k: "re_cleanup (sv_entry s' j) = Some k" for j k
  proof (cases "j = i")
    case True
    with i [of k] k d(4) show ?thesis by blast
  next
    case False
    have "k \<in> set (sv_cleaned s') \<longleftrightarrow> k \<in> set (sv_cleaned s)"
    proof -
      have "x \<noteq> Some k" using cl(2) d(5) [OF was [OF k], of i] False by auto
      then show ?thesis by (auto simp: cl(1))
    qed
    with ot [OF False] d(4) [OF was [OF k]] k show ?thesis by (auto simp: kept_def cleaned_when_def)
  qed
  have "distinct (sv_cleaned s')" using d(1) cl(3) by (cases x) (simp_all add: cl(1))
  moreover have "set (sv_cleaned s') \<subseteq> sv_staged s'" using d(2,3) cl(2) by (auto simp: cl(1) st)
  ultimately show ?thesis using timely was d(3,5) unfolding clean_ok_def st by metis
qed

definition undisturbed :: "Server \<Rightarrow> Server \<Rightarrow> bool" where
  "undisturbed s s' \<longleftrightarrow> sv_staged s' = sv_staged s \<and> sv_cleaned s' = sv_cleaned s \<and> (\<forall>j. kept s s' j)"

lemma clean_ok_undisturbed: "clean_ok s \<Longrightarrow> undisturbed s s' \<Longrightarrow> clean_ok s'"
proof -
  assume c: "clean_ok s" and u: "undisturbed s s'"
  have k: "kept s s' j" for j using u by (simp add: undisturbed_def)
  then have "re_cleanup (sv_entry s j) = Some c \<and> (cleaned_when s j c \<longrightarrow> cleaned_when s' j c)"
    if "re_cleanup (sv_entry s' j) = Some c" for j c
    using that k [of j] u by (simp add: kept_def cleaned_when_def undisturbed_def)
  with k u show "clean_ok s'" by (intro clean_ok_step [OF c, of s' "[]" None]) (simp_all add: undisturbed_def)
qed

text \<open>An entry ends, with its cleanup left for after the unlocking.\<close>

lemma clean_ok_finish:
  assumes c: "clean_ok s" and old: "\<not> final (re_state (sv_entry s i))" "settlers s i = 0"
    and new: "re_cleanup (sv_entry s' i) = re_cleanup (sv_entry s i)" "final (re_state (sv_entry s' i))"
      "cleaners s' i = Suc (cleaners s i)"
    and ot: "\<And>j. j \<noteq> i \<Longrightarrow> kept s s' j" and st: "sv_staged s' = sv_staged s" "sv_cleaned s' = sv_cleaned s"
  shows "clean_ok s'"
  by (rule clean_ok_step [OF c st(1) ot, of i None]) (use old new st(2) in \<open>simp_all add: cleaned_when_def\<close>)

section \<open>Steps that touch no cleanup\<close>

lemma counts_leave [simp]:
  "cleaners (leave t s) i = cleanings i t + cleaners s i" "settlers (leave t s) i = settles i t + settlers s i"
  by (simp_all add: cleaners_def settlers_def)

lemma counts_same [simp]:
  "cleaners (upd j f s) i = cleaners s i" "settlers (upd j f s) i = settlers s i"
  "cleaners (run_cleanup c s) i = cleaners s i" "settlers (run_cleanup c s) i = settlers s i"
  "cleaners (end_context c s) i = cleaners s i" "settlers (end_context c s) i = settlers s i"
  "cleaners (enqueueWaitingLocked j s) i = cleaners s i" "settlers (enqueueWaitingLocked j s) i = settlers s i"
  "cleaners (dropWaitingLocked j s) i = cleaners s i" "settlers (dropWaitingLocked j s) i = settlers s i"
  "cleaners (releaseSlotLocked j s) i = cleaners s i" "settlers (releaseSlotLocked j s) i = settlers s i"
  "cleaners (trim s) i = cleaners s i" "settlers (trim s) i = settlers s i"
  by (simp_all add: cleaners_def settlers_def)

lemma counts_fields [simp]:
  "cleaners (s\<lparr>sv_maxActive := n\<rparr>) i = cleaners s i" "settlers (s\<lparr>sv_maxActive := n\<rparr>) i = settlers s i"
  "cleaners (s\<lparr>sv_staged := g\<rparr>) i = cleaners s i" "settlers (s\<lparr>sv_staged := g\<rparr>) i = settlers s i"
  "cleaners (s\<lparr>sv_waiting := w\<rparr>) i = cleaners s i" "settlers (s\<lparr>sv_waiting := w\<rparr>) i = settlers s i"
  "cleaners (s\<lparr>sv_running := r\<rparr>) i = cleaners s i" "settlers (s\<lparr>sv_running := r\<rparr>) i = settlers s i"
  by (simp_all add: cleaners_def settlers_def)

lemma counts_take:
  "t \<in># sv_tasks s \<Longrightarrow> cleaners s i = cleanings i t + cleaners (taken_up t s) i"
  "t \<in># sv_tasks s \<Longrightarrow> settlers s i = settles i t + settlers (taken_up t s) i"
  by (simp_all add: cleaners_def settlers_def tally_take)

lemma undisturbed_refl [simp]: "undisturbed s s"
  by (simp add: undisturbed_def kept_def)

text \<open>A task taken up that neither cleans nor settles does not count.\<close>

lemma undisturbed_take:
  assumes "t \<in># sv_tasks s" "\<And>i. cleanings i t = 0" "\<And>i. settles i t = 0"
  shows "undisturbed (taken_up t s) s' \<longleftrightarrow> undisturbed s s'"
  using counts_take [OF assms(1)] assms(2,3) by (simp add: undisturbed_def kept_def)

lemma again_undisturbed: "undisturbed s (snd (again i h req s))"
  by (auto simp: again_def undisturbed_def kept_def split: option.split)

lemma RetryRun_undisturbed: "undisturbed s (snd (RetryRun i s))"
  by (auto simp: RetryRun_def Let_def undisturbed_def kept_def split: option.split)

lemma TopUpRun_undisturbed: "undisturbed s (snd (TopUpRun d d' out roofBytes h p i s))"
  using again_undisturbed by (auto simp: TopUpRun_def Let_def split: option.split)

lemma ReopenRun_undisturbed: "undisturbed s (snd (ReopenRun h p i s))"
  by (auto simp: ReopenRun_def Let_def undisturbed_def kept_def cleaners_def settlers_def)

lemma tick_undisturbed: "undisturbed s (tick i chosen n s)"
  by (auto simp: tick_def Let_def undisturbed_def kept_def)

lemma DecideRun_undisturbed: "undisturbed s (snd (DecideRun i files n s))"
  using tick_undisturbed by (auto simp: DecideRun_def Let_def split: option.split list.split)

lemma untick_undisturbed: "undisturbed s (untick i spec s)"
  by (auto simp: untick_def Let_def undisturbed_def kept_def)

lemma UntickFile_undisturbed: "undisturbed s (snd (UntickFile i spec s))"
  using untick_undisturbed by (auto simp: UntickFile_def Let_def split: option.split)

lemma SetRunPriority_undisturbed: "undisturbed s (snd (SetRunPriority i p s))"
  by (auto simp: SetRunPriority_def insertWaitingLocked_eq Let_def undisturbed_def kept_def split: option.split)

lemma SetMaxActive_undisturbed: "undisturbed s (snd (SetMaxActiveTorrents n s))"
  by (auto simp: SetMaxActiveTorrents_def undisturbed_def kept_def)

lemma pump_undisturbed:
  "undisturbed s (pump_event i oc err ev s)" "undisturbed s (pump_release i h s)" "undisturbed s (pump_pass i h s)"
  by (auto simp: pump_event_def pump_release_def pump_pass_def pendingPass_def Let_def undisturbed_def kept_def
      split: RunEvent.split)

lemma trim_undisturbed: "undisturbed s (trim_task b s)" if "Trimming b \<in># sv_tasks s"
  using counts_take [OF that] by (cases b) (simp_all add: trim_task_def Let_def undisturbed_def kept_def)

section \<open>Steps that end entries and clean up\<close>

lemma startRun_clean:
  assumes s: "core_ok s" "tasks_ok s" "clean_ok s" and i: "i \<notin> sv_ids s" and c: "set_option cleanup \<inter> sv_staged s = {}"
  shows "clean_ok (snd (startRun req cleanup i s))"
proof -
  note d = clean_okD [OF s(3)]
  have bl: "sv_entry s i = blank" using core_okD(4) [OF s(1)] i by (simp add: reg_ok_def)
  note fr = fresh_tasks [OF s(2) i]
  let ?r = "run_cleanup cleanup (s\<lparr>sv_staged := sv_staged s \<union> set_option cleanup\<rparr>)"
  have w: "cleaned_when ?r j k" if "re_cleanup (sv_entry s j) = Some k" for j k
  proof -
    have "k \<noteq> x" if "cleanup = Some x" for x using that c d(3) [OF \<open>re_cleanup (sv_entry s j) = Some k\<close>] by auto
    with d(4) [OF that] show ?thesis by (cases cleanup) (auto simp: cleaned_when_def)
  qed
  have refused: "clean_ok ?r"
    using d(1-3,5) w c unfolding clean_ok_def by (cases cleanup) auto
  show ?thesis
  proof (cases "rq_Source (req\<lparr>rq_Source := TrimSpace (rq_Source req)\<rparr>) = [] \<or> rq_Count req < 0 \<or> sv_stopped s")
    case True
    then show ?thesis using refused by (auto simp: startRun_def Let_def)
  next
    case False
    define s' where "s' = snd (startRun req cleanup i s)"
    have f: "re_cleanup (sv_entry s' i) = cleanup" "re_state (sv_entry s' i) = RunQueued" "\<And>j. j \<noteq> i \<Longrightarrow> sv_entry s' j = sv_entry s j"
      "sv_staged s' = sv_staged s \<union> set_option cleanup" "sv_cleaned s' = sv_cleaned s"
      using False by (simp_all add: s'_def startRun_def Let_def)
    have n: "cleaners s' j = cleaners s j" "settlers s' j = settlers s j" for j
      using False by (simp_all add: s'_def startRun_def Let_def cleaners_def settlers_def)
    have old: "re_cleanup (sv_entry s j) = Some k \<and> j \<noteq> i" if "re_cleanup (sv_entry s' j) = Some k" "j \<noteq> i" for j k
      using that f(3) by simp
    have apart: "cleanup \<noteq> Some k" if "re_cleanup (sv_entry s j) = Some k" for j k using c d(3) [OF that] by auto
    have "cleaned_when s' j k \<and> k \<in> sv_staged s'" if k: "re_cleanup (sv_entry s' j) = Some k" for j k
    proof (cases "j = i")
      case True
      with k f(1) have "k \<notin> set (sv_cleaned s)" using c d(2) by auto
      with True k f fr n show ?thesis by (simp add: cleaned_when_def)
    next
      case False
      with old [OF k] d(3,4) f(3-5) n show ?thesis by (simp add: cleaned_when_def)
    qed
    moreover have "a = b" if "re_cleanup (sv_entry s' a) = Some k" "re_cleanup (sv_entry s' b) = Some k" for a b k
    proof -
      have o: "x = i \<and> cleanup = Some k \<or> x \<noteq> i \<and> re_cleanup (sv_entry s x) = Some k"
        if "re_cleanup (sv_entry s' x) = Some k" for x using old [OF that] that f(1) by (cases "x = i") simp_all
      from o [OF that(1)] o [OF that(2)] apart [of a k] apart [of b k] d(5) [of a k b] show "a = b" by blast
    qed
    ultimately have "clean_ok s'" using d(1,2) f(4,5) unfolding clean_ok_def by auto
    then show ?thesis by (simp add: s'_def)
  qed
qed

lemma cancel_entry_clean:
  assumes "core_ok s" "clean_ok s"
  shows "clean_ok (snd (cancel_entry i s))"
proof (cases "queueable (re_state (sv_entry s i))")
  case True
  then have n: "\<not> final (re_state (sv_entry s i))" "settlers s i = 0"
    using settlers_driven [OF assms(1), of i] by (auto simp: queueable_def)
  show ?thesis
    using True by (intro clean_ok_finish [OF assms(2) n]) (auto simp: queueable_def cancel_entry_def Let_def kept_def)
next
  case False
  then have "undisturbed s (snd (cancel_entry i s))"
    by (cases "re_state (sv_entry s i)") (auto simp: cancel_entry_def Let_def undisturbed_def kept_def)
  with assms(2) show ?thesis by (rule clean_ok_undisturbed)
qed

lemma CancelRun_clean: "core_ok s \<Longrightarrow> clean_ok s \<Longrightarrow> clean_ok (snd (CancelRun i s))"
  using cancel_entry_clean by (auto simp: CancelRun_def split: sum.split)

lemma beginRun_clean:
  assumes "clean_ok s" and i: "\<not> final (re_state (sv_entry s i))" "settlers s i = 0"
  shows "clean_ok (snd (beginRun runner ctx i s))"
proof -
  let ?s = "snd (beginRun runner ctx i s)"
  have n: "cleaners ?s j = (if re_state (begun runner ctx (sv_entry s i)) = RunRunning then 0 else of_bool (i = j)) + cleaners s j"
    "settlers ?s j = settlers s j" for j
    unfolding cleaners_def settlers_def beginRun_fields by simp_all
  show ?thesis
  proof (cases "re_state (begun runner ctx (sv_entry s i)) = RunRunning")
    case True
    then have "undisturbed s ?s" using i by (auto simp: undisturbed_def kept_def beginRun_fields n)
    with assms(1) show ?thesis by (rule clean_ok_undisturbed)
  next
    case False
    then show ?thesis
      by (intro clean_ok_finish [OF assms(1) i]) (auto simp: kept_def beginRun_fields n split: if_splits)
  qed
qed

lemma listing_over_clean:
  assumes "clean_ok s" and i: "\<not> final (re_state (sv_entry s i))" "settlers s i = 0" and st: "final st \<or> st = RunNeedsAction"
  shows "clean_ok (listing_over st err ctx i s)"
proof -
  let ?s = "listing_over st err ctx i s"
  have n: "cleaners ?s j = (if st = RunNeedsAction then 0 else of_bool (i = j)) + cleaners s j"
    "settlers ?s j = settlers s j" for j
    unfolding cleaners_def settlers_def listing_over_fields by simp_all
  show ?thesis
  proof (cases "st = RunNeedsAction")
    case True
    then have "undisturbed s ?s" using i n by (auto simp: undisturbed_def kept_def listing_over_fields)
    with assms(1) show ?thesis by (rule clean_ok_undisturbed)
  next
    case False
    with st show ?thesis
      by (intro clean_ok_finish [OF assms(1) i]) (auto simp: kept_def listing_over_fields n)
  qed
qed

lemma dispatch_task_clean:
  assumes "core_ok s" "clean_ok s" "Dispatching \<in># sv_tasks s"
  shows "clean_ok (dispatch_task runner s)"
proof (cases "idle_slot s")
  case False
  then have "dispatch runner s = (False, s)" by (auto simp: dispatch_def idle_slot_def)
  then have "dispatch_task runner s = taken_up Dispatching s" by (simp add: dispatch_task_def)
  moreover have "undisturbed s (taken_up Dispatching s)"
    using undisturbed_take [OF assms(3), of "taken_up Dispatching s"] by simp
  ultimately show ?thesis using clean_ok_undisturbed [OF assms(2)] by simp
next
  case True
  define i where "i = hd (sv_waiting s)"
  let ?c = "sv_contexts s"
  define u where "u = s\<lparr>sv_waiting := tl (sv_waiting s), sv_contexts := Suc ?c\<rparr>"
  from True have w: "sv_waiting s \<noteq> []" by (simp add: idle_slot_def)
  have i: "re_state (sv_entry s i) = RunQueued" using queued_hd(1) [OF assms(1) w] by (simp add: i_def)
  have t: "dispatch_task runner s = snd (dispatch runner s)"
    using dispatch_idle [of runner s] True by (cases "dispatch runner s") (auto simp: dispatch_task_def)
  have u: "undisturbed s u" by (simp add: u_def undisturbed_def kept_def cleaners_def settlers_def)
  have cu: "clean_ok u" using assms(2) u by (rule clean_ok_undisturbed)
  have iu: "sv_entry u = sv_entry s" "settlers u i = settlers s i" by (simp_all add: u_def settlers_def)
  show ?thesis
  proof (cases "needsListingLocked u i")
    case nl: True
    have "snd (dispatch runner s) = leave (Listing i ?c)
                ((upd i (\<lambda>e. e\<lparr>re_cancel := Some ?c, re_state := RunRunning\<rparr>) u)\<lparr>sv_running := insert i (sv_running s)\<rparr>)"
      using True nl by (simp add: dispatch_def idle_slot_def Let_def i_def u_def)
    then have "undisturbed u (snd (dispatch runner s))"
      using i by (simp add: undisturbed_def kept_def iu)
    with cu t show ?thesis using clean_ok_undisturbed by simp
  next
    case False
    have "snd (dispatch runner s) = snd (beginRun (runner i) ?c i u)"
      using True False by (simp add: dispatch_def idle_slot_def Let_def i_def u_def)
    moreover have "settlers s i = 0" using settlers_driven [OF assms(1), of i] i by simp
    ultimately show ?thesis using cu i iu t by (simp add: beginRun_clean)
  qed
qed

lemma listThenRun_clean:
  assumes "core_ok s" "clean_ok s" and t: "Listing i ctx \<in># sv_tasks s"
  shows "clean_ok (listThenRun runner ctx i answer (taken_up (Listing i ctx) s))"
proof -
  let ?t = "taken_up (Listing i ctx) s"
  define u where "u = upd i (listed answer) ?t"
  have "undisturbed ?t u" by (simp add: u_def undisturbed_def kept_def)
  then have "undisturbed s u" using undisturbed_take [OF t, of u] by simp
  with assms(2) have cu: "clean_ok u" by (rule clean_ok_undisturbed)
  have "settlers s i = 0" using not_settling [OF assms(1) t] by simp
  then have z: "settlers u i = 0" using counts_take(2) [OF t, of i] by (simp add: u_def)
  have "active (re_state (sv_entry s i))" using drive_ok_active [OF core_okD(3) [OF assms(1)] t] by simp
  then have nf: "\<not> final (re_state (sv_entry u i))" by (auto simp: u_def active_def)
  from listThenRun_cases [where runner = runner and ctx = ctx and i = i and answer = answer and s = ?t, folded u_def]
  show ?thesis
  proof (elim disjE exE)
    fix st err
    assume st: "(final st \<or> st = RunNeedsAction \<and> \<not> sv_stopped ?t) \<and>
      listThenRun runner ctx i answer ?t = listing_over st err ctx i u"
    then have "clean_ok (listing_over st err ctx i u)" by (intro listing_over_clean [OF cu nf z]) auto
    with st show ?thesis by simp
  next
    assume eq: "listThenRun runner ctx i answer ?t =
      (let s' = snd (beginRun runner ctx i u) in if fst (beginRun runner ctx i u) then s' else leave Dispatching s')"
    have b: "clean_ok (snd (beginRun runner ctx i u))" by (rule beginRun_clean [OF cu nf z])
    have "undisturbed v (leave Dispatching v)" for v by (simp add: undisturbed_def kept_def)
    with b show ?thesis unfolding eq Let_def using clean_ok_undisturbed by auto
  qed
qed

lemma pump_clean_clean:
  assumes "core_ok s" "clean_ok s" and t: "Pumping i oc err \<in># sv_tasks s"
  shows "clean_ok (pump_clean i oc err (taken_up (Pumping i oc err) s))"
proof (rule clean_ok_step [OF assms(2), of _ i "re_cleanup (sv_entry s i)"])
  let ?s = "pump_clean i oc err (taken_up (Pumping i oc err) s)"
  have n: "cleaners ?s j = cleaners s j" "settlers ?s j = of_bool (i = j) + settlers s j" for j
    using counts_take [OF t, of j] by (simp_all add: pump_clean_def)
  have z: "settlers s i = 0" using not_settling [OF assms(1) t] by simp
  have "active (re_state (sv_entry s i))" using drive_ok_active [OF core_okD(3) [OF assms(1)] t] by simp
  then have nf: "\<not> final (re_state (sv_entry s i))" by (auto simp: active_def)
  show fresh: "k \<notin> set (sv_cleaned s)" if "re_cleanup (sv_entry s i) = Some k" for k
    using clean_okD(4) [OF assms(2) that] nf z by (simp add: cleaned_when_def)
  show "kept s ?s j" if "j \<noteq> i" for j using that n [of j] by (simp add: kept_def) (simp add: pump_clean_def)
  show "re_cleanup (sv_entry s i) = Some k \<and> (cleaned_when s i k \<longrightarrow> cleaned_when ?s i k)"
    if "re_cleanup (sv_entry ?s i) = Some k" for k
    using that nf n [of i] by (auto simp: cleaned_when_def pump_clean_def)
qed (simp_all add: pump_clean_def)

lemma pump_over_clean:
  assumes "core_ok s" "clean_ok s" and t: "Settling i oc err \<in># sv_tasks s" and oc: "final oc"
  shows "clean_ok (pump_over i oc err (taken_up (Settling i oc err) s))"
proof (rule clean_ok_step [OF assms(2), of _ i None])
  let ?s = "pump_over i oc err (taken_up (Settling i oc err) s)"
  have n: "cleaners ?s j = cleaners s j" "settlers s j = of_bool (i = j) + settlers ?s j" for j
    using counts_take [OF t, of j] by (simp_all add: pump_over_def Let_def)
  have "active (re_state (sv_entry s i))" using drive_ok_active [OF core_okD(3) [OF assms(1)] t] by simp
  then have nf: "\<not> final (re_state (sv_entry s i))" by (auto simp: active_def)
  have f: "final (re_state (sv_entry ?s i))" using oc by (simp add: pump_over_def Let_def)
  have e: "re_cleanup (sv_entry ?s i) = re_cleanup (sv_entry s i)" "sv_cleaned ?s = sv_cleaned s"
    "\<And>j. j \<noteq> i \<Longrightarrow> sv_entry ?s j = sv_entry s j"
    by (simp_all add: pump_over_def Let_def)
  show "kept s ?s j" if "j \<noteq> i" for j using that n [of j] e(3) by (simp add: kept_def)
  show "re_cleanup (sv_entry s i) = Some k \<and> (cleaned_when s i k \<longrightarrow> cleaned_when ?s i k)"
    if "re_cleanup (sv_entry ?s i) = Some k" for k
    using that nf n [of i] f e by (simp add: cleaned_when_def)
qed (simp_all add: pump_over_def Let_def)

text \<open>Running the cleanup of an entry that a task under way is to clean up.\<close>

lemma clean_ok_run:
  assumes "clean_ok s" and i: "cleaners s i = Suc (cleaners s' i)" and e: "sv_entry s' = sv_entry s"
    and st: "sv_staged s' = sv_staged s" "sv_cleaned s' = sv_cleaned s @ token (re_cleanup (sv_entry s i))"
    and ot: "\<And>j. j \<noteq> i \<Longrightarrow> cleaners s' j = cleaners s j" "\<And>j. settlers s' j = settlers s j"
  shows "clean_ok s'"
proof (rule clean_ok_step [OF assms(1) st(1) _ st(2)])
  have w: "final (re_state (sv_entry s i)) \<and> k \<notin> set (sv_cleaned s) \<and> cleaners s' i = 0"
    if "re_cleanup (sv_entry s i) = Some k" for k
    using clean_okD(4) [OF assms(1) that] i by (cases "k \<in> set (sv_cleaned s)") (auto simp: cleaned_when_def split: if_splits)
  then show "k \<notin> set (sv_cleaned s)" if "re_cleanup (sv_entry s i) = Some k" for k using that by blast
  show "re_cleanup (sv_entry s i) = Some k \<and> (cleaned_when s i k \<longrightarrow> cleaned_when s' i k)"
    if "re_cleanup (sv_entry s' i) = Some k" for k
    using that w [of k] by (simp add: e cleaned_when_def st(2))
qed (simp_all add: kept_def e ot)

lemma clean_entry_clean:
  assumes "clean_ok s" and t: "Cleaning i b \<in># sv_tasks s"
  shows "clean_ok (clean_entry i b (taken_up (Cleaning i b) s))"
  by (rule clean_ok_run [OF assms(1), of i]) (use counts_take [OF t] in \<open>simp_all add: clean_entry_def\<close>)

lemma close_on_clean:
  assumes "clean_ok s" and t: "Stopping is js \<in># sv_tasks s"
  shows "clean_ok (close_on is js (taken_up (Stopping is js) s))"
proof (cases "is = [] \<and> js \<noteq> []")
  case True
  then obtain j ks where e: "is = []" "js = j # ks" by (cases js) auto
  show ?thesis
    by (rule clean_ok_run [OF assms(1), of j]) (use counts_take [OF t] in \<open>simp_all add: e\<close>)
next
  case False
  then have "undisturbed s (close_on is js (taken_up (Stopping is js) s))"
    using counts_take [OF t] by (cases "is"; cases js) (auto simp: undisturbed_def kept_def)
  with assms(1) show ?thesis by (rule clean_ok_undisturbed)
qed

lemma Server_Close_clean:
  assumes c: "core_ok s" and s: "clean_ok s"
  shows "clean_ok (Server_Close s)"
proof (cases "sv_stopped s")
  case False
  note f = Server_Close_fields [OF False] and d = clean_okD [OF s]
  have n: "cleaners (Server_Close s) j = count_list (stranded s) j + cleaners s j" "settlers (Server_Close s) j = settlers s j" for j
    by (simp_all add: cleaners_def settlers_def f(5))
  have w: "cleaned_when (Server_Close s) j k" if "re_cleanup (sv_entry s j) = Some k" for j k
  proof (cases "j \<in> set (stranded s)")
    case True
    then have "queueable (re_state (sv_entry s j))" using stranded_all(2) [OF c] by simp
    then have "\<not> final (re_state (sv_entry s j))" "settlers s j = 0"
      using settlers_driven [OF c, of j] by (auto simp: queueable_def)
    moreover have "count_list (stranded s) j = 1" using stranded_all(1) [OF c] True by (simp add: count_once)
    ultimately show ?thesis using d(4) [OF that] True by (simp add: cleaned_when_def f(9,10) n)
  next
    case False
    then have "count_list (stranded s) j = 0" by (rule count_notin)
    with d(4) [OF that] False show ?thesis by (simp add: cleaned_when_def f(9,10) n)
  qed
  have e: "re_cleanup (sv_entry (Server_Close s) j) = re_cleanup (sv_entry s j)" for j by (simp add: f(10))
  show ?thesis using d(1-3,5) w unfolding clean_ok_def f(8,9) e by blast
qed (use s in \<open>simp add: Server_Close_def\<close>)

section \<open>In every reachable server\<close>

lemma step_clean: "step s s' \<Longrightarrow> server_ok s \<Longrightarrow> clean_ok s \<Longrightarrow> clean_ok s'"
proof (induction rule: step.induct)
  case (starting req s i)
  let ?t = "taken_up (Starting req) s"
  have "undisturbed s ?t" using undisturbed_take [OF starting(1), of ?t] by simp
  with starting have "clean_ok ?t" using clean_ok_undisturbed by blast
  with starting show ?case by (intro startRun_clean) (simp_all add: server_ok_def core_ok_take tasks_ok_take)
next
  case (rearmed i h req s)
  have "undisturbed (taken_up (Rearming i h req) s) (leave (Trimming True) (snd (again i h req (taken_up (Rearming i h req) s))))"
    using again_undisturbed [of "taken_up (Rearming i h req) s" i h req] by (simp add: undisturbed_def kept_def)
  then have "undisturbed s (leave (Trimming True) (snd (again i h req (taken_up (Rearming i h req) s))))"
    using undisturbed_take [OF rearmed(1)] by simp
  with rearmed show ?case using clean_ok_undisturbed by blast
next
  case (ended i oc err s)
  then have "final oc" by (auto simp: server_ok_def tasks_ok_def)
  with ended show ?case by (simp add: server_ok_def pump_over_clean)
next
  case (retrying i req s)
  have "undisturbed s (snd (again i [] req (taken_up (Retrying i req) s)))"
    using again_undisturbed [of "taken_up (Retrying i req) s" i "[]" req] undisturbed_take [OF retrying(1)] by simp
  with retrying show ?case using clean_ok_undisturbed by blast
next
  case (event i oc err s ev)
  have "undisturbed s (pump_event i oc err ev (taken_up (Pumping i oc err) s))"
    using pump_undisturbed(1) [of "taken_up (Pumping i oc err) s" i oc err ev] undisturbed_take [OF event(1)] by simp
  with event show ?case using clean_ok_undisturbed by blast
next
  case (released i h s)
  have "undisturbed s (pump_release i h (taken_up (Ending i h) s))"
    using pump_undisturbed(2) [of "taken_up (Ending i h) s" i h] undisturbed_take [OF released(1)] by simp
  with released show ?case using clean_ok_undisturbed by blast
next
  case (passed i h s)
  have "undisturbed s (pump_pass i h (taken_up (Passing i h) s))"
    using pump_undisturbed(3) [of "taken_up (Passing i h) s" i h] undisturbed_take [OF passed(1)] by simp
  with passed show ?case using clean_ok_undisturbed by blast
qed (auto simp: server_ok_def intro: startRun_clean CancelRun_clean dispatch_task_clean listThenRun_clean pump_clean_clean
      clean_entry_clean close_on_clean Server_Close_clean
      clean_ok_undisturbed [OF _ RetryRun_undisturbed] clean_ok_undisturbed [OF _ TopUpRun_undisturbed]
      clean_ok_undisturbed [OF _ ReopenRun_undisturbed] clean_ok_undisturbed [OF _ DecideRun_undisturbed]
      clean_ok_undisturbed [OF _ UntickFile_undisturbed] clean_ok_undisturbed [OF _ SetRunPriority_undisturbed]
      clean_ok_undisturbed [OF _ SetMaxActive_undisturbed] clean_ok_undisturbed [OF _ trim_undisturbed])

lemma reachable_clean: "reachable lister replayer width s \<Longrightarrow> clean_ok s"
proof (induction rule: reachable.induct)
  case reachable_new
  show ?case by (simp add: clean_ok_def newServer_def blank_def)
next
  case (reachable_step s s')
  then show ?case using step_clean reachable_ok by blast
qed

section \<open>What becomes of each cleanup\<close>

definition cleanups :: "Server \<Rightarrow> string \<Rightarrow> nat option" where
  "cleanups s i = re_cleanup (sv_entry s i)"

text \<open>What one step does to the cleanups: it runs at most one, which an entry holds or which it refuses to take; those
it takes are held afterwards or have been run; and an entry keeps its own unless it is run again.\<close>

definition accounts :: "Server \<Rightarrow> Server \<Rightarrow> bool" where
  "accounts s s' \<longleftrightarrow>
     sv_staged s \<subseteq> sv_staged s' \<and>
     (\<exists>x. sv_cleaned s' = sv_cleaned s @ token x \<and> set_option x \<subseteq> (\<Union>i. set_option (cleanups s i)) \<union> (sv_staged s' - sv_staged s) \<and>
        (x = None \<or> cleanups s' = cleanups s)) \<and>
     sv_staged s' - sv_staged s \<subseteq> (\<Union>i. set_option (cleanups s' i)) \<union> set (sv_cleaned s') \<and>
     (\<forall>i. set_option (cleanups s' i) \<subseteq> set_option (cleanups s i) \<union> (sv_staged s' - sv_staged s)) \<and>
     (\<forall>i. cleanups s i \<noteq> None \<longrightarrow> cleanups s' i = cleanups s i \<or>
        final (re_state (sv_entry s i)) \<and> re_state (sv_entry s' i) = RunQueued \<and> cleanups s' i = None)"

lemma accounts_same:
  assumes "sv_staged s' = sv_staged s" "cleanups s' = cleanups s" "sv_cleaned s' = sv_cleaned s"
  shows "accounts s s'"
  using assms by (auto simp: accounts_def intro!: exI [of _ None])

lemma accounts_run:
  assumes "sv_staged s' = sv_staged s" "cleanups s' = cleanups s" "sv_cleaned s' = sv_cleaned s @ token (cleanups s i)"
  shows "accounts s s'"
  using assms by (auto simp: accounts_def intro!: exI [of _ "cleanups s i"])

lemma accounts_fields:
  assumes "accounts s s'"
    and "sv_staged t = sv_staged s" "sv_cleaned t = sv_cleaned s" "sv_entry t = sv_entry s"
    and "sv_staged t' = sv_staged s'" "sv_cleaned t' = sv_cleaned s'" "sv_entry t' = sv_entry s'"
  shows "accounts t t'"
proof -
  have "cleanups t = cleanups s" "cleanups t' = cleanups s'" by (simp_all add: cleanups_def fun_eq_iff assms)
  with assms show ?thesis by (simp add: accounts_def)
qed

lemma startRun_accounts:
  assumes "core_ok s" "i \<notin> sv_ids s" "set_option c \<inter> sv_staged s = {}"
  shows "accounts s (snd (startRun req c i s))"
proof -
  have bl: "sv_entry s i = blank" using core_okD(4) [OF assms(1)] assms(2) by (simp add: reg_ok_def)
  show ?thesis
  proof (cases "rq_Source (req\<lparr>rq_Source := TrimSpace (rq_Source req)\<rparr>) = [] \<or> rq_Count req < 0 \<or> sv_stopped s")
    case True
    then have "snd (startRun req c i s) = run_cleanup c (s\<lparr>sv_staged := sv_staged s \<union> set_option c\<rparr>)"
      by (auto simp: startRun_def Let_def)
    then show ?thesis using assms(3) by (auto simp: accounts_def cleanups_def intro!: exI [of _ c])
  next
    case False
    define s' where "s' = snd (startRun req c i s)"
    have f: "cleanups s' i = c" "\<And>j. j \<noteq> i \<Longrightarrow> cleanups s' j = cleanups s j" "cleanups s i = None"
      "sv_staged s' = sv_staged s \<union> set_option c" "sv_cleaned s' = sv_cleaned s"
      using False by (simp_all add: s'_def startRun_def Let_def cleanups_def bl)
    have j: "cleanups s j \<noteq> None \<longrightarrow> cleanups s' j = cleanups s j"
      "set_option (cleanups s' j) \<subseteq> set_option (cleanups s j) \<union> (sv_staged s' - sv_staged s)" for j
      using f assms(3) by (cases "j = i"; auto)+
    have h: "set_option c \<subseteq> (\<Union>j. set_option (cleanups s' j))" using f(1) by blast
    have "accounts s s'" unfolding accounts_def
      using j h f(4,5) by (intro conjI exI [of _ None]) auto
    then show ?thesis by (simp add: s'_def)
  qed
qed

lemma again_accounts: "accounts s (snd (again i h req s))"
proof (cases "snd (again i h req s) = s \<or> snd (again i h req s) = leave (Starting req) s")
  case True
  then show ?thesis by (elim disjE) (simp_all add: accounts_same cleanups_def fun_eq_iff)
next
  case False
  define s' where "s' = snd (again i h req s)"
  have "final (re_state (sv_entry s i)) \<and> re_state (sv_entry s' i) = RunQueued \<and> re_cleanup (sv_entry s' i) = None \<and>
      sv_staged s' = sv_staged s \<and> sv_cleaned s' = sv_cleaned s \<and> (\<forall>j. j \<noteq> i \<longrightarrow> sv_entry s' j = sv_entry s j)"
    using False by (auto simp: s'_def again_def lookup_run_def split: if_splits)
  then have "accounts s s'"
    by (auto simp: accounts_def cleanups_def intro!: exI [of _ None] split: if_splits) (metis option.set_intros option.simps(14) emptyE)+
  then show ?thesis by (simp add: s'_def)
qed

lemma call_accounts:
  "accounts s (snd (RetryRun i s))" "accounts s (snd (CancelRun i s))" "accounts s (snd (DecideRun i fs n s))"
  "accounts s (snd (UntickFile i spec s))" "accounts s (snd (SetRunPriority i p s))"
  "accounts s (snd (SetMaxActiveTorrents m s))"
proof -
  show "accounts s (snd (RetryRun i s))"
    by (rule accounts_same) (auto simp: RetryRun_def Let_def cleanups_def fun_eq_iff split: option.split)
  show "accounts s (snd (CancelRun i s))"
    by (rule accounts_same)
      (auto simp: CancelRun_def cancel_entry_def Let_def cleanups_def fun_eq_iff split: sum.split RunState.split)
  show "accounts s (snd (DecideRun i fs n s))"
    by (rule accounts_same)
      (auto simp: DecideRun_def tick_def Let_def cleanups_def fun_eq_iff split: option.split list.split)
  show "accounts s (snd (UntickFile i spec s))"
    by (rule accounts_same) (auto simp: UntickFile_def untick_def Let_def cleanups_def fun_eq_iff split: option.split)
  show "accounts s (snd (SetRunPriority i p s))"
    by (rule accounts_same)
      (auto simp: SetRunPriority_def insertWaitingLocked_eq Let_def cleanups_def fun_eq_iff split: option.split)
  show "accounts s (snd (SetMaxActiveTorrents m s))"
    by (rule accounts_same) (auto simp: SetMaxActiveTorrents_def cleanups_def fun_eq_iff)
qed

lemma TopUpRun_accounts: "accounts s (snd (TopUpRun d d' out roofBytes h p i s))"
  using again_accounts accounts_same [of s s] by (auto simp: TopUpRun_def Let_def split: option.split)

lemma ReopenRun_accounts:
  assumes "core_ok s" "i \<notin> sv_ids s" shows "accounts s (snd (ReopenRun h p i s))"
proof -
  have "sv_entry s i = blank" using core_okD(4) [OF assms(1)] assms(2) by (simp add: reg_ok_def)
  then show ?thesis by (intro accounts_same) (auto simp: ReopenRun_def Let_def cleanups_def fun_eq_iff)
qed

lemma pump_accounts:
  "accounts s (pump_event i oc err ev s)" "accounts s (pump_clean i oc err s)" "accounts s (pump_over i oc err s)"
  "accounts s (pump_release i h s)" "accounts s (pump_pass i h s)"
proof -
  show "accounts s (pump_event i oc err ev s)"
    by (rule accounts_same) (auto simp: pump_event_def cleanups_def fun_eq_iff split: RunEvent.split)
  show "accounts s (pump_clean i oc err s)"
    by (rule accounts_run [of _ _ i]) (auto simp: pump_clean_def cleanups_def fun_eq_iff)
  show "accounts s (pump_over i oc err s)"
    by (rule accounts_same) (auto simp: pump_over_def Let_def cleanups_def fun_eq_iff)
  show "accounts s (pump_release i h s)"
    by (rule accounts_same) (auto simp: pump_release_def cleanups_def fun_eq_iff)
  show "accounts s (pump_pass i h s)"
    by (rule accounts_same) (auto simp: pump_pass_def pendingPass_def Let_def cleanups_def fun_eq_iff)
qed

lemma clean_accounts: "accounts s (clean_entry i b s)" "accounts s (close_on is js s)"
proof -
  show "accounts s (clean_entry i b s)"
    by (rule accounts_run [of _ _ i]) (auto simp: clean_entry_def cleanups_def fun_eq_iff)
  show "accounts s (close_on is js s)"
  proof (cases "(is, js, s)" rule: close_on.cases)
    case (1 j ks ls t)
    then show ?thesis by (intro accounts_same) (auto simp: cleanups_def fun_eq_iff)
  next
    case (2 j ks t)
    then show ?thesis by (intro accounts_run [of _ _ j]) (auto simp: cleanups_def fun_eq_iff)
  next
    case 3
    then show ?thesis by (simp add: accounts_same)
  qed
qed

lemma dispatch_task_accounts: "accounts s (dispatch_task runner s)"
proof -
  let ?s = "snd (dispatch runner s)"
  have f: "sv_staged ?s = sv_staged s" "sv_cleaned ?s = sv_cleaned s" "cleanups ?s = cleanups s"
    by (simp_all add: dispatch_def Let_def beginRun_fields cleanups_def fun_eq_iff)
  have "dispatch_task runner s = ?s \<or> dispatch_task runner s = taken_up Dispatching ?s"
    by (cases "dispatch runner s"; cases "fst (dispatch runner s)") (auto simp: dispatch_task_def)
  moreover have "accounts s ?s" "accounts s (taken_up Dispatching ?s)"
    using accounts_same [OF f(1,3,2)] accounts_fields [OF accounts_same [OF f(1,3,2)], of s "taken_up Dispatching ?s"] by simp_all
  ultimately show ?thesis by auto
qed

lemma listThenRun_accounts: "accounts s (listThenRun runner ctx i answer s)"
proof -
  from listThenRun_cases [where runner = runner and ctx = ctx and i = i and answer = answer and s = s]
  show ?thesis
  proof (elim disjE exE)
    fix st err
    assume "(final st \<or> st = RunNeedsAction \<and> \<not> sv_stopped s) \<and>
      listThenRun runner ctx i answer s = listing_over st err ctx i (upd i (listed answer) s)"
    then show ?thesis by (intro accounts_same) (auto simp: listing_over_fields cleanups_def fun_eq_iff)
  next
    assume eq: "listThenRun runner ctx i answer s =
      (let s' = snd (beginRun runner ctx i (upd i (listed answer) s))
       in if fst (beginRun runner ctx i (upd i (listed answer) s)) then s' else leave Dispatching s')"
    show ?thesis
      unfolding eq Let_def by (rule accounts_same) (simp_all add: beginRun_fields cleanups_def fun_eq_iff)
  qed
qed

lemma Server_Close_accounts: "accounts s (Server_Close s)"
proof (cases "sv_stopped s")
  case False
  show ?thesis by (rule accounts_same) (simp_all add: Server_Close_fields(8-10) [OF False] cleanups_def fun_eq_iff)
qed (simp add: Server_Close_def accounts_same)

lemma accounts_take: "accounts (taken_up t s) s' \<longleftrightarrow> accounts s s'"
proof -
  have "cleanups (taken_up t s) = cleanups s" by (simp add: cleanups_def fun_eq_iff)
  then show ?thesis by (simp add: accounts_def)
qed

lemmas accounts_taken =
  accounts_take [THEN iffD1, OF again_accounts] accounts_take [THEN iffD1, OF pump_accounts(1)]
  accounts_take [THEN iffD1, OF pump_accounts(2)] accounts_take [THEN iffD1, OF pump_accounts(3)]
  accounts_take [THEN iffD1, OF pump_accounts(4)] accounts_take [THEN iffD1, OF pump_accounts(5)]
  accounts_take [THEN iffD1, OF clean_accounts(1)] accounts_take [THEN iffD1, OF clean_accounts(2)]
  accounts_take [THEN iffD1, OF listThenRun_accounts]

lemma step_accounts: "step s s' \<Longrightarrow> server_ok s \<Longrightarrow> accounts s s'"
proof (induction rule: step.induct)
  case (starting req s i)
  then have "accounts (taken_up (Starting req) s) (snd (startRun req None i (taken_up (Starting req) s)))"
    by (intro startRun_accounts) (simp_all add: server_ok_def core_ok_take)
  then show ?case by (simp add: accounts_take)
next
  case (rearmed i h req s)
  have "accounts s (snd (again i h req (taken_up (Rearming i h req) s)))"
    using again_accounts [of "taken_up (Rearming i h req) s" i h req] by (simp add: accounts_take)
  then show ?case by (rule accounts_fields) simp_all
next
  case (trimmed b s)
  show ?case by (rule accounts_same) (cases b; simp add: trim_task_def Let_def cleanups_def fun_eq_iff)+
qed (simp_all add: server_ok_def startRun_accounts call_accounts TopUpRun_accounts ReopenRun_accounts
      dispatch_task_accounts Server_Close_accounts accounts_taken)

section \<open>Histories\<close>

text \<open>The cleanups an entry loses in a step before they have been run, and all those lost on the way to a server.\<close>

definition forgets :: "Server \<Rightarrow> Server \<Rightarrow> nat set" where
  "forgets s s' =
     {c. (\<exists>i. re_cleanup (sv_entry s i) = Some c \<and> re_cleanup (sv_entry s' i) \<noteq> Some c) \<and> c \<notin> set (sv_cleaned s)}"

inductive history :: "bool \<Rightarrow> bool \<Rightarrow> int \<Rightarrow> Server \<Rightarrow> nat set \<Rightarrow> bool" for lister replayer width where
  history_new: "history lister replayer width (newServer lister replayer width) {}"
| history_step: "history lister replayer width s lost \<Longrightarrow> step s s' \<Longrightarrow>
     history lister replayer width s' (lost \<union> forgets s s')"

lemma history_reachable: "history lister replayer width s lost \<Longrightarrow> reachable lister replayer width s"
  by (induction rule: history.induct) (auto intro: reachable.intros)

lemma reachable_history: "reachable lister replayer width s \<Longrightarrow> \<exists>lost. history lister replayer width s lost"
  by (induction rule: reachable.induct) (auto intro: history.intros)

definition held :: "Server \<Rightarrow> nat set" where
  "held s = (\<Union>i. set_option (re_cleanup (sv_entry s i)))"

text \<open>Whatever was staged has been removed, is an entry's to remove, or is lost, and never two of the last two.\<close>

definition traced :: "Server \<Rightarrow> nat set \<Rightarrow> bool" where
  "traced s lost \<longleftrightarrow>
     sv_staged s \<subseteq> set (sv_cleaned s) \<union> held s \<union> lost \<and> lost \<subseteq> sv_staged s \<and> lost \<inter> (set (sv_cleaned s) \<union> held s) = {}"

lemma step_traced:
  assumes st: "step s s'" and ok: "server_ok s" "clean_ok s" and t: "traced s lost"
  shows "traced s' (lost \<union> forgets s s')"
proof -
  from step_accounts [OF st ok(1)] obtain x where
    a: "sv_staged s \<subseteq> sv_staged s'" "sv_cleaned s' = sv_cleaned s @ token x"
      "set_option x \<subseteq> held s \<union> (sv_staged s' - sv_staged s)"
      "x = None \<or> cleanups s' = cleanups s"
      "sv_staged s' - sv_staged s \<subseteq> held s' \<union> set (sv_cleaned s')"
      "\<And>i. set_option (re_cleanup (sv_entry s' i)) \<subseteq> set_option (re_cleanup (sv_entry s i)) \<union> (sv_staged s' - sv_staged s)"
    unfolding accounts_def cleanups_def held_def by blast
  note d = clean_okD [OF ok(2)]
  have in_staged: "held s \<subseteq> sv_staged s" using d(3) by (auto simp: held_def)
  have h: "held s' \<subseteq> held s \<union> (sv_staged s' - sv_staged s)" using a(6) unfolding held_def by blast
  have kept: "c \<in> held s' \<or> c \<in> set (sv_cleaned s) \<or> c \<in> forgets s s'" if "c \<in> held s" for c
    using that by (fastforce simp: held_def forgets_def)
  have new: "forgets s s' \<subseteq> held s" by (auto simp: forgets_def held_def)
  have gone: "c \<notin> held s' \<and> c \<notin> set (sv_cleaned s')" if c: "c \<in> forgets s s'" for c
  proof -
    from c obtain i where i: "re_cleanup (sv_entry s i) = Some c" "re_cleanup (sv_entry s' i) \<noteq> Some c" "c \<notin> set (sv_cleaned s)"
      by (auto simp: forgets_def)
    have cs: "c \<in> sv_staged s" using d(3) [OF i(1)] .
    have "re_cleanup (sv_entry s' j) \<noteq> Some c" for j
    proof
      assume j: "re_cleanup (sv_entry s' j) = Some c"
      with a(6) [of j] cs have "re_cleanup (sv_entry s j) = Some c" by auto
      with d(5) [OF i(1)] i(2) j show False by auto
    qed
    moreover have "x \<noteq> Some c"
    proof
      assume "x = Some c"
      with a(4) have "cleanups s' i = cleanups s i" by simp
      with i(1,2) show False by (simp add: cleanups_def)
    qed
    ultimately show ?thesis using i(3) by (auto simp: held_def a(2))
  qed
  show ?thesis
    unfolding traced_def
  proof (intro conjI)
    show "sv_staged s' \<subseteq> set (sv_cleaned s') \<union> held s' \<union> (lost \<union> forgets s s')"
      using t kept a(2,5) by (fastforce simp: traced_def)
    show "lost \<union> forgets s s' \<subseteq> sv_staged s'" using t new in_staged a(1) by (auto simp: traced_def)
    show "(lost \<union> forgets s s') \<inter> (set (sv_cleaned s') \<union> held s') = {}"
      using t gone h a(2,3) by (fastforce simp: traced_def)
  qed
qed

lemma history_traced: "history lister replayer width s lost \<Longrightarrow> traced s lost"
proof (induction rule: history.induct)
  case history_new
  show ?case by (simp add: traced_def newServer_def held_def blank_def)
next
  case (history_step s lost s')
  note r = history_reachable [OF history_step(1)]
  from step_traced [OF history_step(2) reachable_ok [OF r] reachable_clean [OF r] history_step.IH] show ?case .
qed

text \<open>Only an entry whose run is over loses its cleanup, by being queued again.\<close>

lemma step_forgets:
  assumes "step s s'" "server_ok s" "clean_ok s" "c \<in> forgets s s'"
  shows "\<exists>i. re_cleanup (sv_entry s i) = Some c \<and> final (re_state (sv_entry s i)) \<and> cleaners s i = 1 \<and>
    re_state (sv_entry s' i) = RunQueued \<and> re_cleanup (sv_entry s' i) = None"
proof -
  from assms(4) obtain i where i: "re_cleanup (sv_entry s i) = Some c" "re_cleanup (sv_entry s' i) \<noteq> Some c" "c \<notin> set (sv_cleaned s)"
    by (auto simp: forgets_def)
  have "final (re_state (sv_entry s i)) \<and> re_state (sv_entry s' i) = RunQueued \<and> re_cleanup (sv_entry s' i) = None"
  proof -
    have "\<forall>j. cleanups s j \<noteq> None \<longrightarrow> cleanups s' j = cleanups s j \<or>
        final (re_state (sv_entry s j)) \<and> re_state (sv_entry s' j) = RunQueued \<and> cleanups s' j = None"
      using step_accounts [OF assms(1,2)] unfolding accounts_def by (elim conjE)
    from this [rule_format, of i] i(1,2) show ?thesis by (simp add: cleanups_def)
  qed
  moreover from this have "cleaners s i = 1" using clean_okD(4) [OF assms(3) i(1)] i(3) by (simp add: cleaned_when_def)
  ultimately show ?thesis using i(1) by blast
qed

end
