(* ===== verification/RunProperties.thy ===== *)
theory RunProperties
  imports RunCleanups
begin

text \<open>What the run registry promises, for every server reachable by any order of its calls' sections.\<close>

section \<open>A small server\<close>

definition demo_request :: RunRequest where
  "demo_request = no_request\<lparr>rq_Source := ''magnet:?x''\<rparr>"

definition accepting :: "string \<Rightarrow> RunRequest \<Rightarrow> string option" where
  "accepting i q = None"

definition demo0 :: Server where "demo0 = newServer False True 1"
definition demo1 :: Server where "demo1 = snd (startRun demo_request (Some 7) ''a'' demo0)"
definition demo2 :: Server where "demo2 = snd (startRun demo_request None ''b'' demo1)"
definition demo3 :: Server where "demo3 = dispatch_task accepting demo2"

lemma demo_trim: "TrimSpace ''magnet:?x'' = ''magnet:?x''"
  by code_simp

lemmas demo_eval =
  demo0_def demo1_def demo2_def demo3_def newServer_def startRun_def demo_request_def no_request_def demo_trim
  enqueueWaitingLocked_def insertWaitingLocked_def upd_def leave_def queueBefore_def maxActiveOrDefault_def
  dispatch_task_def dispatch_def needsListingLocked_def beginRun_def accepting_def blank_def PriorityNormal_def

lemma demo3_fields:
  "sv_waiting demo3 = [''b'']" "sv_running demo3 = {''a''}" "sv_maxActive demo3 = 1" "\<not> sv_stopped demo3"
  "sv_order demo3 = [''a'', ''b'']" "re_state (sv_entry demo3 ''a'') = RunRunning"
  "re_state (sv_entry demo3 ''b'') = RunQueued" "sv_staged demo3 = {7}" "sv_cleaned demo3 = []"
  "sv_tasks demo3 = {#Dispatching, Dispatching, Pumping ''a'' RunDone None#}"
  by (simp_all add: demo_eval Let_def)

lemma demo3_reachable: "reachable False True 1 demo3"
proof -
  have "reachable False True 1 demo0" unfolding demo0_def by (rule reachable_new)
  moreover have "step demo0 demo1" unfolding demo1_def by (rule started) (simp_all add: demo0_def newServer_def)
  moreover have "step demo1 demo2" unfolding demo2_def
    by (rule started) (simp_all add: demo_eval Let_def)
  moreover have "step demo2 demo3" unfolding demo3_def
    by (rule dispatched) (simp add: demo_eval Let_def)
  ultimately show ?thesis by (blast intro: reachable_step)
qed

section \<open>The queue\<close>

lemma reachable_core: "reachable lister replayer width s \<Longrightarrow> core_ok s"
  using reachable_ok by (simp add: server_ok_def)

definition queued :: "Server \<Rightarrow> string set" where
  "queued s = {i. re_state (sv_entry s i) = RunQueued}"

definition goes_before :: "Server \<Rightarrow> string \<Rightarrow> string \<Rightarrow> bool" where
  "goes_before s i j \<longleftrightarrow> queueBefore (sv_entry s i) (sv_entry s j)"

lemma goes_before_key: "goes_before s i j \<longleftrightarrow> key_before (qkey (sv_entry s) i) (qkey (sv_entry s) j)"
  by (simp add: goes_before_def queueBefore_key)

lemma queue_line:
  assumes "core_ok s"
  shows "sorted_wrt (goes_before s) (sv_waiting s)" "set (sv_waiting s) = queued s"
proof -
  have "goes_before s = (\<lambda>a b. key_before (qkey (sv_entry s) a) (qkey (sv_entry s) b))"
    by (simp add: fun_eq_iff goes_before_key)
  with core_okD(1) [OF assms] show "sorted_wrt (goes_before s) (sv_waiting s)" by (simp add: queue_ok_def)
  show "set (sv_waiting s) = queued s" using core_okD(1) [OF assms] by (auto simp: queue_ok_def queued_def)
qed

text \<open>C35: The queue refines a set of claims. In every reachable server the waiting list is the one and only
list of the queued entries in the order of their claims (higher priority first, then the one enqueued
first), so what the turn of a dispatch takes off it is the queued entry that goes before every other,
and the list then loses exactly that entry.\<close>

theorem queue_is_the_line:
  assumes "reachable lister replayer width s"
  shows "(sorted_wrt (goes_before s) ws \<and> set ws = queued s \<longleftrightarrow> ws = sv_waiting s) \<and>
         (fst (dispatch runner s) \<longrightarrow>
           (\<exists>i. i \<in> queued s \<and> (\<forall>j\<in>queued s. j \<noteq> i \<longrightarrow> goes_before s i j) \<and>
               sv_waiting s = i # sv_waiting (snd (dispatch runner s)) \<and>
               queued (snd (dispatch runner s)) = queued s - {i} \<and>
               re_state (sv_entry (snd (dispatch runner s)) i) \<in> {RunRunning, RunFailed}))"
proof (rule conjI [OF _ impI])
  have c: "core_ok s" using assms by (rule reachable_core)
  have k: "goes_before s = (\<lambda>a b. key_before (qkey (sv_entry s) a) (qkey (sv_entry s) b))"
    by (simp add: fun_eq_iff goes_before_key)
  show "sorted_wrt (goes_before s) ws \<and> set ws = queued s \<longleftrightarrow> ws = sv_waiting s"
    using queue_line [OF c] wl.line_unique [of "qkey (sv_entry s)" ws "sv_waiting s"] unfolding k by blast
  show "\<exists>i. i \<in> queued s \<and> (\<forall>j\<in>queued s. j \<noteq> i \<longrightarrow> goes_before s i j) \<and>
               sv_waiting s = i # sv_waiting (snd (dispatch runner s)) \<and>
               queued (snd (dispatch runner s)) = queued s - {i} \<and>
               re_state (sv_entry (snd (dispatch runner s)) i) \<in> {RunRunning, RunFailed}"
    if go: "fst (dispatch runner s)"
  proof -
    let ?i = "hd (sv_waiting s)" and ?s = "snd (dispatch runner s)"
    from go dispatch_idle [of runner s] have idle: "idle_slot s" by auto
    then have ne: "sv_waiting s \<noteq> []" by (simp add: idle_slot_def)
    then have i: "?i \<in> queued s" using queue_line(2) [OF c] hd_in_set by blast
    have first: "\<forall>j\<in>queued s. j \<noteq> ?i \<longrightarrow> goes_before s ?i j"
      using wl.line_head [of "qkey (sv_entry s)" "sv_waiting s"] queue_line [OF c] unfolding k by auto
    have w: "sv_waiting ?s = tl (sv_waiting s)"
      and st: "re_state (sv_entry ?s ?i) \<in> {RunRunning, RunFailed}"
      and other: "\<And>j. j \<noteq> ?i \<Longrightarrow> sv_entry ?s j = sv_entry s j"
      using idle by (auto simp: dispatch_def idle_slot_def Let_def beginRun_fields)
    have "queued ?s = queued s - {?i}"
    proof (rule set_eqI)
      fix j
      show "j \<in> queued ?s \<longleftrightarrow> j \<in> queued s - {?i}"
        using st other [of j] by (cases "j = ?i") (auto simp: queued_def)
    qed
    moreover have "sv_waiting s = ?i # sv_waiting ?s" using ne w by simp
    ultimately show ?thesis using i first st by blast
  qed
qed

lemma queue_is_the_line_witness:
  "(sorted_wrt (goes_before demo3) [''b''] \<and> set [''b''] = queued demo3 \<longleftrightarrow> [''b''] = sv_waiting demo3) \<and>
   [''b''] = sv_waiting demo3"
  by (rule conjI [OF conjunct1 [OF queue_is_the_line [OF demo3_reachable]] demo3_fields(1) [symmetric]])

section \<open>Who works on what\<close>

text \<open>C36: In every reachable server the slots taken are exactly those of the running entries, each entry
that runs or replays is driven by exactly one goroutine and no other entry by any, the ids of the
registry are distinct, and an entry the registry has dropped is over.\<close>

theorem one_goroutine_each:
  assumes "reachable lister replayer width s"
  shows "sv_running s = {i. re_state (sv_entry s i) = RunRunning} \<and> finite (sv_running s) \<and>
         size (filter_mset (drives i) (sv_tasks s)) =
           (if re_state (sv_entry s i) \<in> {RunRunning, RunReplaying} then 1 else 0) \<and>
         distinct (sv_order s) \<and> (lookup_run s i = None \<longrightarrow> final (re_state (sv_entry s i)))"
proof (intro conjI impI)
  note d = core_okD [OF reachable_core [OF assms]]
  show "sv_running s = {i. re_state (sv_entry s i) = RunRunning}" "finite (sv_running s)"
    using d(2) unfolding run_ok_def by (rule conjunct2, rule conjunct1)
  show "size (filter_mset (drives i) (sv_tasks s)) = (if re_state (sv_entry s i) \<in> {RunRunning, RunReplaying} then 1 else 0)"
    using d(3) by (simp add: drive_ok_def drivers_def active_def)
  show "distinct (sv_order s)" using d(4) by (simp add: reg_ok_def)
  show "lookup_run s i = None \<Longrightarrow> final (re_state (sv_entry s i))"
    using d(4) by (simp add: reg_ok_def lookup_run_def split: if_splits)
qed

lemma one_goroutine_each_witness:
  "sv_running demo3 = {i. re_state (sv_entry demo3 i) = RunRunning} \<and>
   size (filter_mset (drives ''a'') (sv_tasks demo3)) = 1"
  using one_goroutine_each [OF demo3_reachable, of "''a''"] demo3_fields(6)
  by simp

section \<open>Nothing waits beside a free slot\<close>

definition turns :: "(string \<Rightarrow> RunRequest \<Rightarrow> string option) \<Rightarrow> nat \<Rightarrow> Server \<Rightarrow> Server" where
  "turns runner n s = ((\<lambda>s. snd (dispatch runner s)) ^^ n) s"

lemma dispatch_shrinks:
  "fst (dispatch runner s) \<Longrightarrow> length (sv_waiting s) = Suc (length (sv_waiting (snd (dispatch runner s))))"
  by (auto simp: dispatch_def Let_def beginRun_fields split: if_splits)

lemma turns_Suc: "turns runner (Suc n) s = turns runner n (snd (dispatch runner s))"
  by (simp add: turns_def funpow_Suc_right del: funpow.simps)

lemma dispatch_ends:
  "\<exists>n\<le>length (sv_waiting s). \<not> fst (dispatch runner (turns runner n s))"
proof (induction "length (sv_waiting s)" arbitrary: s)
  case 0
  then have "\<not> fst (dispatch runner s)" by (simp add: dispatch_def)
  then show ?case using 0 by (intro exI [of _ 0]) (simp add: turns_def)
next
  case (Suc m)
  show ?case
  proof (cases "fst (dispatch runner s)")
    case False
    then show ?thesis by (intro exI [of _ 0]) (simp add: turns_def)
  next
    case True
    let ?s = "snd (dispatch runner s)"
    from dispatch_shrinks [OF True] Suc.hyps(2) have "m = length (sv_waiting ?s)" by simp
    from Suc.hyps(1) [OF this] obtain n where "n \<le> m" "\<not> fst (dispatch runner (turns runner n ?s))"
      using \<open>m = length (sv_waiting ?s)\<close> by auto
    then show ?thesis
      using Suc.hyps(2) by (intro exI [of _ "Suc n"]) (simp add: turns_Suc)
  qed
qed

text \<open>C37: No wake-up is lost. Whenever a reachable server has a free slot and a waiting entry, some call
under way is still to dispatch. And a dispatch ends: after at most as many turns as entries wait it
takes no further turn, and then either the server is closed, or every slot is taken, or nothing waits.\<close>

theorem no_idle_slot:
  assumes "reachable lister replayer width s"
  shows "(\<not> sv_stopped s \<and> int (card (sv_running s)) < sv_maxActive s \<and> sv_waiting s \<noteq> [] \<longrightarrow>
           (\<exists>t\<in>#sv_tasks s. wakes t)) \<and>
         (\<exists>n\<le>length (sv_waiting s).
           \<not> fst (dispatch runner (turns runner n s)) \<and>
           (sv_stopped (turns runner n s) \<or>
            sv_maxActive (turns runner n s) \<le> int (card (sv_running (turns runner n s))) \<or>
            sv_waiting (turns runner n s) = []))"
proof (rule conjI)
  have "wake_ok s" using reachable_ok [OF assms] by (simp add: server_ok_def)
  then show "\<not> sv_stopped s \<and> int (card (sv_running s)) < sv_maxActive s \<and> sv_waiting s \<noteq> [] \<longrightarrow>
           (\<exists>t\<in>#sv_tasks s. wakes t)"
    by (simp add: wake_ok_def idle_slot_def awake_def)
  obtain n where n: "n \<le> length (sv_waiting s)" "\<not> fst (dispatch runner (turns runner n s))"
    using dispatch_ends by blast
  then have "\<not> idle_slot (turns runner n s)"
    using dispatch_idle [of runner "turns runner n s"] by auto
  with n show "\<exists>n\<le>length (sv_waiting s).
           \<not> fst (dispatch runner (turns runner n s)) \<and>
           (sv_stopped (turns runner n s) \<or>
            sv_maxActive (turns runner n s) \<le> int (card (sv_running (turns runner n s))) \<or>
            sv_waiting (turns runner n s) = [])"
    by (intro exI [of _ n]) (auto simp: idle_slot_def)
qed

lemma demo2_reachable: "reachable False True 1 demo2"
proof -
  have "reachable False True 1 demo0" unfolding demo0_def by (rule reachable_new)
  moreover have "step demo0 demo1" unfolding demo1_def by (rule started) (simp_all add: demo0_def newServer_def)
  moreover have "step demo1 demo2" unfolding demo2_def
    by (rule started) (simp_all add: demo_eval Let_def)
  ultimately show ?thesis by (blast intro: reachable_step)
qed

lemma no_idle_slot_witness: "\<exists>t\<in>#sv_tasks demo2. wakes t"
proof -
  have "\<not> sv_stopped demo2 \<and> int (card (sv_running demo2)) < sv_maxActive demo2 \<and> sv_waiting demo2 \<noteq> []"
    by (simp add: demo_eval Let_def)
  then show ?thesis by (rule mp [OF conjunct1 [OF no_idle_slot [OF demo2_reachable]]])
qed

section \<open>Staged files\<close>

text \<open>C38: A file staged for a run is removed at most once, never while the run may still read it, and never
forgotten but in one way. In every reachable server no cleanup has been run twice, and only cleanups handed to a
start have been run. A cleanup belongs to one entry. While the entry's run is not over, nobody is about to
run it, and it has been run exactly when the run's stream has ended and its pump has done so on the way to the end;
when the run is over without that, exactly one call under way is still to run it, after which none is. Every
cleanup handed over has been run, belongs to such an entry, or is lost, never both of the last; and the one
step that loses a cleanup is running an entry again that is over, between the end of its run and the call
that would have cleaned up after it.\<close>

theorem staged_removed_once:
  assumes "history lister replayer width s lost"
  shows "distinct (sv_cleaned s) \<and> set (sv_cleaned s) \<subseteq> sv_staged s \<and>
         (re_cleanup (sv_entry s i) = Some c \<longrightarrow>
            c \<in> sv_staged s \<and> (\<forall>j. re_cleanup (sv_entry s j) = Some c \<longrightarrow> j = i) \<and>
            (if final (re_state (sv_entry s i)) then cleaners s i = (if c \<in> set (sv_cleaned s) then 0 else 1)
             else cleaners s i = 0 \<and>
               (c \<in> set (sv_cleaned s) \<longleftrightarrow> (\<exists>oc err. Settling i oc err \<in># sv_tasks s)))) \<and>
         (c \<in> sv_staged s \<longrightarrow>
            c \<in> set (sv_cleaned s) \<or> (\<exists>i. re_cleanup (sv_entry s i) = Some c) \<or> c \<in> lost) \<and>
         (c \<in> lost \<longrightarrow>
            c \<in> sv_staged s \<and> c \<notin> set (sv_cleaned s) \<and> (\<forall>i. re_cleanup (sv_entry s i) \<noteq> Some c)) \<and>
         (step s s' \<and> c \<in> forgets s s' \<longrightarrow>
            (\<exists>i. re_cleanup (sv_entry s i) = Some c \<and> final (re_state (sv_entry s i)) \<and> cleaners s i = 1 \<and>
                 re_state (sv_entry s' i) = RunQueued \<and> re_cleanup (sv_entry s' i) = None))"
proof -
  have r: "reachable lister replayer width s" using assms by (rule history_reachable)
  note d = clean_okD [OF reachable_clean [OF r]] and t = history_traced [OF assms]
  have settle: "0 < settlers s i \<longleftrightarrow> (\<exists>oc err. Settling i oc err \<in># sv_tasks s)" for i
    by (rule settlers_iff)
  have own: "c \<in> sv_staged s \<and> (\<forall>j. re_cleanup (sv_entry s j) = Some c \<longrightarrow> j = i) \<and>
      (if final (re_state (sv_entry s i)) then cleaners s i = (if c \<in> set (sv_cleaned s) then 0 else 1)
       else cleaners s i = 0 \<and> (c \<in> set (sv_cleaned s) \<longleftrightarrow> (\<exists>oc err. Settling i oc err \<in># sv_tasks s)))"
    if e: "re_cleanup (sv_entry s i) = Some c"
    using d(3) [OF e] d(4) [OF e] d(5) [OF e] by (auto simp: cleaned_when_def settle split: if_splits)
  have trace: "c \<in> sv_staged s \<longrightarrow> c \<in> set (sv_cleaned s) \<or> (\<exists>i. re_cleanup (sv_entry s i) = Some c) \<or> c \<in> lost"
    "c \<in> lost \<longrightarrow> c \<in> sv_staged s \<and> c \<notin> set (sv_cleaned s) \<and> (\<forall>i. re_cleanup (sv_entry s i) \<noteq> Some c)"
    using t by (auto simp: traced_def held_def)
  have lose: "step s s' \<and> c \<in> forgets s s' \<longrightarrow>
      (\<exists>i. re_cleanup (sv_entry s i) = Some c \<and> final (re_state (sv_entry s i)) \<and> cleaners s i = 1 \<and>
           re_state (sv_entry s' i) = RunQueued \<and> re_cleanup (sv_entry s' i) = None)"
    using step_forgets [OF _ reachable_ok [OF r] reachable_clean [OF r]] by blast
  show ?thesis by (intro conjI d(1,2) trace lose impI own)
qed

lemma demo3_history: "\<exists>lost. history False True 1 demo3 lost"
  using demo3_reachable by (rule reachable_history)

lemma staged_removed_once_witness:
  "re_cleanup (sv_entry demo3 ''a'') = Some 7 \<and> 7 \<in> sv_staged demo3 \<and> cleaners demo3 ''a'' = 0 \<and>
   (\<exists>lost. history False True 1 demo3 lost \<and> 7 \<notin> lost)"
proof -
  obtain lost where h: "history False True 1 demo3 lost" using demo3_history by blast
  have e: "re_cleanup (sv_entry demo3 ''a'') = Some 7" by (simp add: demo_eval Let_def)
  have nf: "\<not> final (re_state (sv_entry demo3 ''a''))" by (simp add: demo3_fields(6))
  note w = staged_removed_once [OF h, of "''a''" 7, THEN conjunct2, THEN conjunct2]
  note own = mp [OF conjunct1 [OF w] e]
  have "7 \<in> sv_staged demo3" by (rule conjunct1 [OF own])
  moreover have "cleaners demo3 ''a'' = 0" using own [THEN conjunct2, THEN conjunct2] nf by (simp only: if_False)
  moreover have "7 \<notin> lost" using w [THEN conjunct2, THEN conjunct2, THEN conjunct1] e by blast
  ultimately show ?thesis using e h by blast
qed

end
