(* ===== verification/RunLife.thy ===== *)
theory RunLife
  imports RunProperties
begin

text \<open>The life of a run as a state machine, what closing stops, and the width of the queue.\<close>

section \<open>Lives\<close>

text \<open>The moves an entry's state can make in one section of one call.\<close>

inductive moves :: "RunState \<Rightarrow> RunState \<Rightarrow> bool" where
  enqueued: "final st \<Longrightarrow> moves st RunQueued"
| replayed: "final st \<Longrightarrow> moves st RunReplaying"
| begun: "moves RunQueued RunRunning"
| refused: "moves RunQueued RunFailed"
| withdrawn: "queueable st \<Longrightarrow> moves st RunCancelled"
| emptied: "moves RunQueued RunNeedsAction"
| picked: "moves RunNeedsAction RunQueued"
| parked: "moves RunRunning RunNeedsAction"
| over: "active st \<Longrightarrow> final st' \<Longrightarrow> moves st st'"

inductive_cases moves_to_RunRunning: "moves st RunRunning"
inductive_simps moves_from_final: "moves RunDone st'"

definition lives :: "Server \<Rightarrow> Server \<Rightarrow> string \<Rightarrow> bool" where
  "lives s s' i \<longleftrightarrow>
     re_state (sv_entry s' i) = re_state (sv_entry s i) \<or>
     moves (re_state (sv_entry s i)) (re_state (sv_entry s' i)) \<and>
       (sv_stopped s \<longrightarrow> final (re_state (sv_entry s' i))) \<and>
       (re_state (sv_entry s' i) = RunReplaying \<longrightarrow> i \<notin> sv_ids s)"

lemma lives_same: "re_state (sv_entry s' i) = re_state (sv_entry s i) \<Longrightarrow> lives s s' i"
  by (simp add: lives_def)

lemma startRun_lives:
  assumes "core_ok s" "j \<notin> sv_ids s"
  shows "lives s (snd (startRun req c j s)) i"
proof -
  have "sv_entry s j = blank" using core_okD(4) [OF assms(1)] assms(2) by (simp add: reg_ok_def)
  then show ?thesis by (auto simp: startRun_def Let_def lives_def intro: moves.enqueued)
qed

lemma again_lives: "lives s (snd (again j h req s)) i"
  by (auto simp: again_def lives_def lookup_run_def split: option.split intro: moves.enqueued)

lemma RetryRun_lives: "lives s (snd (RetryRun j s)) i"
  by (rule lives_same) (auto simp: RetryRun_def Let_def split: option.split)

lemma TopUpRun_lives: "lives s (snd (TopUpRun d d' out roofBytes h p j s)) i"
  using again_lives lives_same [of s i s] by (auto simp: TopUpRun_def Let_def split: option.split)

lemma ReopenRun_lives:
  assumes "core_ok s" "j \<notin> sv_ids s"
  shows "lives s (snd (ReopenRun h p j s)) i"
proof -
  have "sv_entry s j = blank" using core_okD(4) [OF assms(1)] assms(2) by (simp add: reg_ok_def)
  then show ?thesis using assms(2) by (auto simp: ReopenRun_def Let_def lives_def intro: moves.replayed)
qed

lemma cancel_entry_lives: "lives s (snd (cancel_entry j s)) i"
  by (cases "re_state (sv_entry s j)") (auto simp: cancel_entry_def Let_def lives_def intro: moves.withdrawn)

lemma CancelRun_lives: "lives s (snd (CancelRun j s)) i"
  using cancel_entry_lives [of s _ i] lives_same [of s i s]
  by (auto simp: CancelRun_def split: sum.split)

lemma tick_lives:
  assumes "\<not> sv_stopped s"
  shows "lives s (tick j chosen n s) i"
  using assms by (auto simp: tick_def Let_def lives_def intro: moves.picked)

lemma DecideRun_lives: "lives s (snd (DecideRun j fs n s)) i"
  using tick_lives [of s _ _ n i] lives_same [of s i s]
  by (auto simp: DecideRun_def Let_def split: option.split list.split)

lemma untick_lives:
  assumes "\<not> sv_stopped s"
  shows "lives s (untick j spec s) i"
  using assms by (auto simp: untick_def Let_def lives_def intro: moves.emptied)

lemma UntickFile_lives: "lives s (snd (UntickFile j spec s)) i"
  using untick_lives [of s _ _ i] lives_same [of s i s]
  by (auto simp: UntickFile_def Let_def split: option.split)

lemma SetRunPriority_lives: "lives s (snd (SetRunPriority j p s)) i"
  by (rule lives_same) (auto simp: SetRunPriority_def Let_def insertWaitingLocked_eq split: option.split)

lemma SetMaxActive_lives: "lives s (snd (SetMaxActiveTorrents n s)) i"
  by (rule lives_same) (auto simp: SetMaxActiveTorrents_def)

lemma dispatch_task_lives:
  assumes c: "core_ok s"
  shows "lives s (dispatch_task runner s) i"
proof -
  have e: "sv_entry (dispatch_task runner s) = sv_entry (snd (dispatch runner s))"
    by (cases "dispatch runner s"; cases "fst (dispatch runner s)") (simp_all add: dispatch_task_def)
  show ?thesis
  proof (cases "idle_slot s")
    case False
    then have "dispatch runner s = (False, s)" using dispatch_idle [of runner s] by auto
    then show ?thesis using e by (intro lives_same) simp
  next
    case True
    then have ne: "sv_waiting s \<noteq> []" and ns: "\<not> sv_stopped s" by (simp_all add: idle_slot_def)
    have q: "re_state (sv_entry s (hd (sv_waiting s))) = RunQueued" using queued_hd(1) [OF c ne] .
    have "re_state (sv_entry (snd (dispatch runner s)) (hd (sv_waiting s))) \<in> {RunRunning, RunFailed}"
      and "\<And>j. j \<noteq> hd (sv_waiting s) \<Longrightarrow> sv_entry (snd (dispatch runner s)) j = sv_entry s j"
      using True by (auto simp: dispatch_def idle_slot_def Let_def beginRun_fields)
    then show ?thesis
      using q ns by (cases "i = hd (sv_waiting s)") (auto simp: lives_def e intro: moves.begun moves.refused)
  qed
qed

definition listing_at :: "Server \<Rightarrow> bool" where
  "listing_at s \<longleftrightarrow> (\<forall>i ctx. Listing i ctx \<in># sv_tasks s \<longrightarrow> re_state (sv_entry s i) = RunRunning)"

lemma listThenRun_lives:
  assumes r: "re_state (sv_entry s j) = RunRunning"
  shows "lives s (listThenRun runner ctx j answer s) i"
proof -
  from listThenRun_cases [where runner = runner and ctx = ctx and i = j and answer = answer and s = s]
  show ?thesis
  proof (elim disjE exE)
    fix st err
    assume *: "(final st \<or> st = RunNeedsAction \<and> \<not> sv_stopped s) \<and>
      listThenRun runner ctx j answer s = listing_over st err ctx j (upd j (listed answer) s)"
    show ?thesis
    proof (cases "i = j")
      case True
      with * r show ?thesis
        by (auto simp: lives_def listing_over_fields intro: moves.over moves.parked)
    next
      case False
      with * show ?thesis by (intro lives_same) (simp add: listing_over_fields)
    qed
  next
    assume "listThenRun runner ctx j answer s =
      (let s' = snd (beginRun runner ctx j (upd j (listed answer) s))
       in if fst (beginRun runner ctx j (upd j (listed answer) s)) then s' else leave Dispatching s')"
    then have "sv_entry (listThenRun runner ctx j answer s) =
        (sv_entry s)(j := begun runner ctx (listed answer (sv_entry s j)))"
      by (simp add: beginRun_fields Let_def fun_eq_iff)
    with r show ?thesis by (auto simp: lives_def intro: moves.over)
  qed
qed

lemma pump_lives:
  "lives s (pump_event j oc err ev s) i" "lives s (pump_clean j oc err s) i" "lives s (pump_release j h s) i" "lives s (pump_pass j h s) i"
  "active (re_state (sv_entry s j)) \<Longrightarrow> final oc \<Longrightarrow> lives s (pump_over j oc err s) i"
proof -
  show "lives s (pump_event j oc err ev s) i"
    by (rule lives_same) (auto simp: pump_event_def split: RunEvent.split)
  show "lives s (pump_clean j oc err s) i" by (rule lives_same) (simp add: pump_clean_def)
  show "lives s (pump_release j h s) i" by (rule lives_same) (simp add: pump_release_def)
  show "lives s (pump_pass j h s) i" by (rule lives_same) (simp add: pump_pass_def pendingPass_def Let_def)
  show "active (re_state (sv_entry s j)) \<Longrightarrow> final oc \<Longrightarrow> lives s (pump_over j oc err s) i"
    by (auto simp: lives_def pump_over_def Let_def intro: moves.over)
qed

lemma lives_take: "lives (taken_up t s) s' i \<Longrightarrow> lives s s' i"
  by (simp add: lives_def)

lemma Server_Close_state:
  assumes c: "core_ok s"
  shows "re_state (sv_entry (Server_Close s) i) =
     (if sv_stopped s \<or> \<not> queueable (re_state (sv_entry s i)) then re_state (sv_entry s i) else RunCancelled)"
proof (cases "sv_stopped s")
  case False
  then show ?thesis using stranded_all(2) [OF c, of i] by (simp add: Server_Close_fields(10))
qed (simp add: Server_Close_def)

lemma Server_Close_lives: "core_ok s \<Longrightarrow> lives s (Server_Close s) i"
  by (auto simp: lives_def Server_Close_state intro: moves.withdrawn)

lemma step_lives:
  assumes "step s s'" "server_ok s" "listing_at s"
  shows "lives s s' i"
  using assms
proof (induction rule: step.induct)
  case (started j s cleanup req)
  then show ?case by (intro startRun_lives) (simp_all add: server_ok_def)
next
  case (starting req s j)
  let ?t = "taken_up (Starting req) s"
  have "core_ok ?t" using starting by (intro core_ok_take) (simp_all add: server_ok_def)
  then have "lives ?t (snd (startRun req None j ?t)) i" using starting(2) by (intro startRun_lives) simp_all
  then show ?case by (rule lives_take)
next
  case (listed j ctx s runner answer)
  then have "re_state (sv_entry (taken_up (Listing j ctx) s) j) = RunRunning"
    unfolding listing_at_def taken_up_fields by blast
  then show ?case by (intro lives_take [OF listThenRun_lives])
next
  case (ended j oc err s)
  then have "active (re_state (sv_entry s j))" "final oc"
    using drive_ok_active [of "sv_entry s" "sv_tasks s" "Settling j oc err" j]
    by (auto simp: server_ok_def core_ok_def tasks_ok_def)
  then show ?case by (intro lives_take [OF pump_lives(5)]) simp_all
next
  case (rearmed j h req s)
  have "lives (taken_up (Rearming j h req) s) (snd (again j h req (taken_up (Rearming j h req) s))) i" by (rule again_lives)
  then show ?case by (simp add: lives_def)
next
  case (cleaned j b s)
  show ?case by (rule lives_same) (simp add: clean_entry_def)
next
  case (stopping "is" js s)
  show ?case by (rule lives_same) (simp add: close_on_fields)
next
  case (trimmed b s)
  then show ?case by (intro lives_same) (cases b, simp_all add: trim_task_def Let_def)
qed (auto simp: server_ok_def intro: startRun_lives RetryRun_lives TopUpRun_lives lives_take [OF again_lives] ReopenRun_lives CancelRun_lives DecideRun_lives UntickFile_lives
      SetRunPriority_lives SetMaxActive_lives Server_Close_lives dispatch_task_lives lives_take [OF pump_lives(1)]
      lives_take [OF pump_lives(2)] lives_take [OF pump_lives(3)] lives_take [OF pump_lives(4)])

section \<open>Listings belong to running entries\<close>

definition listings :: "Server \<Rightarrow> (string \<times> nat) set" where
  "listings s = {(i, ctx). Listing i ctx \<in># sv_tasks s}"

lemma listings_tasks: "sv_tasks s' = sv_tasks s \<Longrightarrow> listings s' = listings s"
  by (simp add: listings_def)

lemma listings_simps [simp]:
  "listings (upd i f s) = listings s" "listings (end_context c s) = listings s" "listings (run_cleanup c s) = listings s"
  "listings (enqueueWaitingLocked i s) = listings s" "listings (dropWaitingLocked i s) = listings s"
  "listings (leave Dispatching s) = listings s" "listings (leave (Pumping i oc err) s) = listings s"
  "listings (leave (Trimming b) s) = listings s" "listings (leave (Ending i h) s) = listings s"
  "listings (leave (Settling i oc err) s) = listings s" "listings (leave (Retrying i q) s) = listings s"
  "listings (leave (Starting q) s) = listings s" "listings (leave (Cleaning i b) s) = listings s"
  "listings (leave (Stopping is js) s) = listings s" "listings (leave (Passing i h) s) = listings s" "listings (leave (Rearming i h q) s) = listings s"
  "listings (trim s) = listings s"
  by (simp_all add: listings_def)

lemma listings_take: "listings (taken_up t s) \<subseteq> listings s"
  by (auto simp: listings_def dest: in_diffD)

lemma startRun_listings: "listings (snd (startRun req c i s)) = listings s"
  by (auto simp: startRun_def Let_def listings_def)

lemma again_listings: "listings (snd (again i h req s)) = listings s"
  by (auto simp: again_def split: option.split)

lemma call_listings:
  "listings (snd (ReopenRun h p i s)) = listings s" "listings (snd (CancelRun i s)) = listings s"
  "listings (snd (DecideRun i fs n s)) = listings s" "listings (snd (UntickFile i spec s)) = listings s"
  "listings (snd (SetRunPriority i p' s)) = listings s" "listings (snd (SetMaxActiveTorrents m s)) = listings s"
proof -
  show "listings (snd (ReopenRun h p i s)) = listings s" by (auto simp: ReopenRun_def Let_def listings_def)
  show "listings (snd (CancelRun i s)) = listings s"
    by (auto simp: CancelRun_def cancel_entry_def Let_def split: sum.split RunState.split)
  show "listings (snd (DecideRun i fs n s)) = listings s"
    by (auto simp: DecideRun_def tick_def Let_def split: option.split list.split)
  show "listings (snd (UntickFile i spec s)) = listings s"
    by (auto simp: UntickFile_def untick_def Let_def split: option.split)
  show "listings (snd (SetRunPriority i p' s)) = listings s"
    by (auto simp: SetRunPriority_def insertWaitingLocked_eq Let_def listings_def split: option.split)
  show "listings (snd (SetMaxActiveTorrents m s)) = listings s"
    by (auto simp: SetMaxActiveTorrents_def listings_def)
qed

lemma pump_listings:
  "listings (pump_event j oc err ev s) = listings s" "listings (pump_over j oc err s) = listings s"
  "listings (pump_release j h s) = listings s" "listings (pump_pass j h s) = listings s"
  "listings (pump_clean j oc err s) = listings s" "listings (clean_entry i b s) = listings s"
  "listings (close_on is js s) = listings s"
proof -
  show "listings (pump_clean j oc err s) = listings s" by (simp add: pump_clean_def)
  show "listings (clean_entry i b s) = listings s" by (simp add: clean_entry_def)
  show "listings (close_on is js s) = listings s" by (simp add: listings_def close_on_fields)
  show "listings (pump_event j oc err ev s) = listings s" by (simp add: pump_event_def split: RunEvent.split)
  show "listings (pump_over j oc err s) = listings s"
    by (auto simp: pump_over_def Let_def listings_def)
  show "listings (pump_release j h s) = listings s" by (simp add: pump_release_def)
  show "listings (pump_pass j h s) = listings s" by (simp add: pump_pass_def pendingPass_def Let_def)
qed

lemma listThenRun_listings: "listings (listThenRun runner ctx j answer s) = listings s"
proof -
  from listThenRun_cases [where runner = runner and ctx = ctx and i = j and answer = answer and s = s]
  show ?thesis
  proof (elim disjE exE)
    fix st err
    assume "(final st \<or> st = RunNeedsAction \<and> \<not> sv_stopped s) \<and>
      listThenRun runner ctx j answer s = listing_over st err ctx j (upd j (listed answer) s)"
    then show ?thesis by (auto simp: listings_def listing_over_fields)
  next
    assume "listThenRun runner ctx j answer s =
      (let s' = snd (beginRun runner ctx j (upd j (listed answer) s))
       in if fst (beginRun runner ctx j (upd j (listed answer) s)) then s' else leave Dispatching s')"
    then show ?thesis by (auto simp: listings_def beginRun_fields Let_def)
  qed
qed

lemma dispatch_task_listings:
  "(j, ctx) \<in> listings (dispatch_task runner s) \<Longrightarrow>
   (j, ctx) \<in> listings s \<or> re_state (sv_entry (dispatch_task runner s) j) = RunRunning"
proof -
  assume l: "(j, ctx) \<in> listings (dispatch_task runner s)"
  have d: "dispatch_task runner s = (if fst (dispatch runner s) then snd (dispatch runner s)
           else taken_up Dispatching (snd (dispatch runner s)))"
    by (cases "dispatch runner s"; cases "fst (dispatch runner s)") (simp_all add: dispatch_task_def)
  have "(j, ctx) \<in> listings (snd (dispatch runner s)) \<Longrightarrow>
     (j, ctx) \<in> listings s \<or> re_state (sv_entry (snd (dispatch runner s)) j) = RunRunning"
    by (auto simp: dispatch_def Let_def beginRun_fields listings_def split: if_splits)
  with l listings_take [of Dispatching "snd (dispatch runner s)"] show ?thesis
    by (auto simp: d split: if_splits)
qed

lemma Server_Close_listings: "listings (Server_Close s) = listings s"
  by (cases "sv_stopped s") (simp_all add: Server_Close_fields(5) listings_def, simp add: Server_Close_def)

lemma step_listings:
  assumes "step s s'" "core_ok s" "(j, ctx) \<in> listings s'"
  shows "(j, ctx) \<in> listings s \<or> re_state (sv_entry s' j) = RunRunning"
  using assms
proof (induction rule: step.induct)
  case (retried s i)
  then show ?case by (auto simp: RetryRun_def Let_def split: option.splits if_splits)
next
  case (topped_up s d d' out roofBytes h p i)
  then show ?case by (auto simp: TopUpRun_def Let_def again_listings split: option.splits if_splits)
next
  case (dispatched s runner)
  then show ?case by (intro dispatch_task_listings) simp
next
  case (trimmed b s)
  then show ?case using listings_take by (auto simp: trim_task_def Let_def split: if_splits)
qed (use listings_take in \<open>auto simp: startRun_listings again_listings call_listings pump_listings
       listThenRun_listings Server_Close_listings\<close>)

lemma step_listing_at:
  assumes st: "step s s'" and ok: "server_ok s" and l: "listing_at s"
  shows "listing_at s'"
  unfolding listing_at_def
proof (intro allI impI)
  fix i ctx assume t: "Listing i ctx \<in># sv_tasks s'"
  have ok': "server_ok s'" using st ok by (rule step_ok)
  then have act: "active (re_state (sv_entry s' i))"
    using drive_ok_active [OF _ t] by (simp add: server_ok_def core_ok_def)
  from step_listings [OF st _ , of i ctx] ok t
  consider "Listing i ctx \<in># sv_tasks s" | "re_state (sv_entry s' i) = RunRunning"
    by (auto simp: listings_def server_ok_def)
  then show "re_state (sv_entry s' i) = RunRunning"
  proof cases
    case 1
    then have r: "re_state (sv_entry s i) = RunRunning" using l unfolding listing_at_def by blast
    from step_lives [OF st ok l, of i] r act show ?thesis
      by (auto simp: lives_def active_def elim: moves.cases)
  qed
qed

lemma reachable_listing: "reachable lister replayer width s \<Longrightarrow> listing_at s"
proof (induction rule: reachable.induct)
  case reachable_new
  show ?case by (simp add: listing_at_def newServer_def)
next
  case (reachable_step s s')
  then show ?case using step_listing_at reachable_ok by blast
qed

section \<open>Slots\<close>

lemma call_running:
  "sv_running (snd (startRun req c i s)) = sv_running s" "sv_running (snd (again i h req s)) = sv_running s"
  "sv_running (snd (ReopenRun h p i s)) = sv_running s" "sv_running (snd (CancelRun i s)) = sv_running s"
  "sv_running (snd (DecideRun i fs n s)) = sv_running s" "sv_running (snd (UntickFile i spec s)) = sv_running s"
  "sv_running (snd (SetRunPriority i p' s)) = sv_running s" "sv_running (snd (SetMaxActiveTorrents m s)) = sv_running s"
proof -
  show "sv_running (snd (startRun req c i s)) = sv_running s" for req c i by (auto simp: startRun_def Let_def)
  show "sv_running (snd (again i h req s)) = sv_running s" by (auto simp: again_def split: option.split)
  show "sv_running (snd (ReopenRun h p i s)) = sv_running s" by (auto simp: ReopenRun_def Let_def)
  show "sv_running (snd (CancelRun i s)) = sv_running s"
    by (auto simp: CancelRun_def cancel_entry_def Let_def split: sum.split RunState.split)
  show "sv_running (snd (DecideRun i fs n s)) = sv_running s"
    by (auto simp: DecideRun_def tick_def Let_def split: option.split list.split)
  show "sv_running (snd (UntickFile i spec s)) = sv_running s"
    by (auto simp: UntickFile_def untick_def Let_def split: option.split)
  show "sv_running (snd (SetRunPriority i p' s)) = sv_running s"
    by (auto simp: SetRunPriority_def insertWaitingLocked_eq Let_def split: option.split)
  show "sv_running (snd (SetMaxActiveTorrents m s)) = sv_running s" by (auto simp: SetMaxActiveTorrents_def)
qed

lemma Server_Close_running: "sv_running (Server_Close s) = sv_running s"
  by (cases "sv_stopped s") (simp_all add: Server_Close_fields(6), simp add: Server_Close_def)

lemma pump_running:
  "sv_running (pump_event j oc err ev s) = sv_running s" "sv_running (pump_over j oc err s) \<subseteq> sv_running s"
  "sv_running (pump_release j h s) = sv_running s" "sv_running (pump_pass j h s) = sv_running s"
  "sv_running (pump_clean j oc err s) = sv_running s" "sv_running (clean_entry j b s) = sv_running s"
  by (auto simp: pump_event_def pump_over_def pump_release_def pump_pass_def pendingPass_def pump_clean_def clean_entry_def
      Let_def split: RunEvent.split)

lemma listThenRun_running:
  assumes "j \<in> sv_running s"
  shows "sv_running (listThenRun runner ctx j answer s) \<subseteq> sv_running s"
proof -
  from listThenRun_cases [where runner = runner and ctx = ctx and i = j and answer = answer and s = s]
  show ?thesis
  proof (elim disjE exE)
    fix st err
    assume "(final st \<or> st = RunNeedsAction \<and> \<not> sv_stopped s) \<and>
      listThenRun runner ctx j answer s = listing_over st err ctx j (upd j (listed answer) s)"
    then show ?thesis by (auto simp: listing_over_fields)
  next
    assume "listThenRun runner ctx j answer s =
      (let s' = snd (beginRun runner ctx j (upd j (listed answer) s))
       in if fst (beginRun runner ctx j (upd j (listed answer) s)) then s' else leave Dispatching s')"
    then show ?thesis using assms by (auto simp: beginRun_fields Let_def split: if_splits)
  qed
qed

lemma dispatch_task_running:
  "sv_running (dispatch_task runner s) \<subseteq> sv_running s \<or>
   int (card (sv_running s)) < sv_maxActive (dispatch_task runner s) \<and> \<not> sv_stopped s \<and>
   sv_running (dispatch_task runner s) \<subseteq> insert (hd (sv_waiting s)) (sv_running s)"
proof -
  have d: "dispatch_task runner s = (if fst (dispatch runner s) then snd (dispatch runner s)
           else taken_up Dispatching (snd (dispatch runner s)))"
    by (cases "dispatch runner s"; cases "fst (dispatch runner s)") (simp_all add: dispatch_task_def)
  show ?thesis
  proof (cases "idle_slot s")
    case False
    then have "dispatch runner s = (False, s)" using dispatch_idle [of runner s] by auto
    then show ?thesis by (simp add: d)
  next
    case True
    then show ?thesis
      by (auto simp: d dispatch_def idle_slot_def Let_def beginRun_fields)
  qed
qed

lemma step_running:
  assumes "step s s'" "server_ok s" "listing_at s"
  shows "sv_running s' \<subseteq> sv_running s \<or>
    int (card (sv_running s)) < sv_maxActive s' \<and> \<not> sv_stopped s \<and>
    sv_running s' \<subseteq> insert (hd (sv_waiting s)) (sv_running s)"
  using assms
proof (induction rule: step.induct)
  case (retried s i)
  show ?case by (auto simp: RetryRun_def Let_def split: option.split)
next
  case (topped_up s d d' out roofBytes h p i)
  show ?case by (auto simp: TopUpRun_def Let_def call_running split: option.split)
next
  case (listed i ctx s runner answer)
  then have "re_state (sv_entry s i) = RunRunning" unfolding listing_at_def by blast
  then have "i \<in> sv_running (taken_up (Listing i ctx) s)"
    using listed(2) by (simp add: server_ok_def core_ok_def run_ok_def)
  from listThenRun_running [OF this] show ?case by auto
next
  case (ended i oc err s)
  show ?case using pump_running(2) by fastforce
next
  case (trimmed b s)
  show ?case by (cases b) (simp_all add: trim_task_def Let_def)
qed (use dispatch_task_running in \<open>auto simp: call_running pump_running Server_Close_running close_on_fields\<close>)

section \<open>The properties\<close>

text \<open>C39: Runs live by one state machine. In one section of any call an entry keeps its state or makes
one of the moves of \<open>moves\<close>: a finished one is enqueued again or replayed, a queued one begins, is
refused, is withdrawn or is emptied of its files, a parked one is picked or withdrawn, a running one
parks, and what runs or replays ends. A run is cancelled by a withdrawal, or is over. Once the server
is closed an entry that changes state is over, so no run is started, parked or replayed after it, and
nothing waits.\<close>

theorem run_lives:
  assumes "reachable lister replayer width s" "step s s'"
  shows "(re_state (sv_entry s' i) = re_state (sv_entry s i) \<or>
          moves (re_state (sv_entry s i)) (re_state (sv_entry s' i))) \<and>
         (sv_stopped s \<and> re_state (sv_entry s' i) \<noteq> re_state (sv_entry s i) \<longrightarrow>
          final (re_state (sv_entry s' i)) \<and> active (re_state (sv_entry s i))) \<and>
         (sv_stopped s \<longrightarrow> sv_waiting s = [] \<and> re_state (sv_entry s i) \<noteq> RunNeedsAction)"
proof -
  note ok = reachable_ok [OF assms(1)]
  note l = step_lives [OF assms(2) ok reachable_listing [OF assms(1)], of i]
  from l have one: "re_state (sv_entry s' i) = re_state (sv_entry s i) \<or>
         moves (re_state (sv_entry s i)) (re_state (sv_entry s' i))" by (auto simp: lives_def)
  have c: "core_ok s" using ok by (simp add: server_ok_def)
  have n: "sv_waiting s = [] \<and> re_state (sv_entry s i) \<noteq> RunNeedsAction" if "sv_stopped s" for i
  proof -
    have q: "\<not> queueable (re_state (sv_entry s j))" for j using core_okD(5) [OF c] that by (simp add: stop_ok_def)
    then have "set (sv_waiting s) = {}" using queue_line(2) [OF c] by (auto simp: queued_def queueable_def)
    with q [of i] show ?thesis by (auto simp: queueable_def)
  qed
  have e: "final (re_state (sv_entry s' i)) \<and> active (re_state (sv_entry s i))"
    if st: "sv_stopped s" and ch: "re_state (sv_entry s' i) \<noteq> re_state (sv_entry s i)"
  proof -
    from l st ch have m: "moves (re_state (sv_entry s i)) (re_state (sv_entry s' i))" and f: "final (re_state (sv_entry s' i))"
      by (auto simp: lives_def)
    have "\<not> queueable (re_state (sv_entry s i))" using core_okD(5) [OF c] st by (simp add: stop_ok_def)
    with m f show ?thesis by (auto elim: moves.cases)
  qed
  from one n e show ?thesis by blast
qed

definition demo_closed :: Server where "demo_closed = Server_Close demo3"

lemma demo_closed_reachable: "reachable False True 1 demo_closed"
  unfolding demo_closed_def using demo3_reachable closed by (rule reachable_step)

lemma run_lives_witness:
  "moves (re_state (sv_entry demo3 ''b'')) (re_state (sv_entry demo_closed ''b'')) \<and> sv_waiting demo_closed = []"
proof -
  have c: "core_ok demo3" using demo3_reachable by (rule reachable_core)
  have "re_state (sv_entry demo_closed ''b'') = RunCancelled"
    by (simp add: demo_closed_def Server_Close_state [OF c] demo3_fields)
  moreover have "sv_stopped demo_closed"
    using Server_Close_fields(2) demo3_fields by (simp add: demo_closed_def)
  ultimately show ?thesis
    using run_lives [OF demo3_reachable closed, of "''b''"] run_lives [OF demo_closed_reachable closed]
      demo3_fields by (simp add: demo_closed_def)
qed

text \<open>The width of the queue is respected. A section of a call leaves no more runs going than there
were or than the width admits, whichever is more, and it starts at most one; so once the width is
lowered the number going only falls until it is under it, and on a closed server it only falls.\<close>

theorem width_respected:
  assumes "reachable lister replayer width s" "step s s'"
  shows "int (card (sv_running s')) \<le> max (int (card (sv_running s))) (sv_maxActive s') \<and>
         card (sv_running s') \<le> Suc (card (sv_running s)) \<and>
         (sv_stopped s \<longrightarrow> sv_running s' \<subseteq> sv_running s)"
proof -
  note ok = reachable_ok [OF assms(1)]
  have fin: "finite (sv_running s)" using ok by (auto simp: server_ok_def core_ok_def run_ok_def)
  from step_running [OF assms(2) ok reachable_listing [OF assms(1)]]
  consider (less) "sv_running s' \<subseteq> sv_running s"
    | (one) "int (card (sv_running s)) < sv_maxActive s'" "\<not> sv_stopped s"
        "sv_running s' \<subseteq> insert (hd (sv_waiting s)) (sv_running s)" by blast
  then show ?thesis
  proof cases
    case less
    then have "card (sv_running s') \<le> card (sv_running s)" using fin by (rule card_mono [rotated])
    with less show ?thesis by auto
  next
    case one
    have "card (sv_running s') \<le> card (insert (hd (sv_waiting s)) (sv_running s))"
      using one(3) fin by (intro card_mono) simp_all
    also have "\<dots> \<le> Suc (card (sv_running s))" by (rule card_insert_le_m1) simp_all
    finally show ?thesis using one by auto
  qed
qed

lemma width_respected_witness:
  "int (card (sv_running demo3)) \<le> max (int (card (sv_running demo2))) (sv_maxActive demo3) \<and>
   card (sv_running demo3) \<le> Suc (card (sv_running demo2)) \<and>
   sv_running (Server_Close demo_closed) \<subseteq> sv_running demo_closed"
proof -
  have "step demo2 demo3" unfolding demo3_def by (rule dispatched) (simp add: demo_eval Let_def)
  note w = width_respected [OF demo2_reachable this]
  have "sv_stopped demo_closed"
    using Server_Close_fields(2) demo3_fields by (simp add: demo_closed_def)
  with w width_respected [OF demo_closed_reachable closed] show ?thesis by simp
qed

end
