(* ===== verification/RunTicks.thy ===== *)
theory RunTicks
  imports RunLife TopUpLaws
begin

text \<open>Ticked files, what trimming keeps, and five interleavings whose outcome the code's comments do not
describe.\<close>

section \<open>Ticks\<close>

lemma withFiles_append: "\<exists>new. withFiles have want = have @ new"
  by (induction want arbitrary: "have") (auto, metis append.assoc)

lemma set_withFiles [simp]: "set (withFiles have want) = set have \<union> set want"
  by (induction want arbitrary: "have") (auto simp: containsFile_def)

lemma distinct_withFiles: "distinct have \<Longrightarrow> distinct (withFiles have want)"
  by (induction want arbitrary: "have") (auto simp: containsFile_def)

lemma withFiles_same: "length (withFiles have want) = length have \<Longrightarrow> set want \<subseteq> set have"
proof -
  assume l: "length (withFiles have want) = length have"
  obtain new where "withFiles have want = have @ new" using withFiles_append by blast
  with l set_withFiles [of "have" want] show ?thesis by auto
qed

lemma set_withoutFiles [simp]: "set (withoutFiles want have) = set want - set have"
  by (auto simp: withoutFiles_def containsFile_def)

lemma entry_updates [simp]:
  "re_pending (set_count b n e) = re_pending e" "re_asked (set_count b n e) = re_asked e"
  "rq_Files (re_req (set_count b n e)) = rq_Files (re_req e)"
  "re_pending (set_files fs e) = re_pending e" "re_asked (set_files fs e) = re_asked e"
  "rq_Files (re_req (set_files fs e)) = fs"
  by (simp_all add: set_count_def set_files_def)

lemma DecideRun_accepted:
  assumes "DecideRun i files n s = (Inr j, s')"
  shows "j = TrimSpace i" "s' = tick j (map TrimSpace files) n s" "refuseTick (sv_entry s j) = None"
    "\<forall>f\<in>set files. holdsFile (sv_entry s j) (TrimSpace f)" "\<not> sv_stopped s"
proof -
  let ?j = "TrimSpace i" and ?e = "sv_entry s (TrimSpace i)"
  have "j = ?j \<and> s' = tick ?j (map TrimSpace files) n s \<and> refuseTick ?e = None \<and>
        filter (\<lambda>spec. \<not> holdsFile ?e spec) (map TrimSpace files) = [] \<and> \<not> sv_stopped s"
    using assms
    by (auto simp: DecideRun_def Let_def lookup_run_def filter_empty_conv split: if_splits list.splits option.splits)
  then show "j = TrimSpace i" "s' = tick j (map TrimSpace files) n s" "refuseTick (sv_entry s j) = None"
    "\<forall>f\<in>set files. holdsFile (sv_entry s j) (TrimSpace f)" "\<not> sv_stopped s"
    by (auto simp: filter_empty_conv)
qed

definition wanted :: "runEntry \<Rightarrow> string set" where
  "wanted e = set (rq_Files (re_req e)) \<union> set (re_pending e)"

lemma tick_entry:
  fixes j chosen n s
  defines "e \<equiv> sv_entry s j" and "e' \<equiv> sv_entry (tick j chosen n s) j"
  assumes r: "refuseTick e = None" and a: "\<not> asksEveryVideo e"
  shows "wanted e' = wanted e \<union> set chosen" "set (re_asked e') = set (re_asked e) \<union> set chosen"
    "re_state e = RunRunning \<Longrightarrow> rq_Files (re_req e') = rq_Files (re_req e) \<and> re_state e' = RunRunning"
    "re_state e \<noteq> RunRunning \<Longrightarrow> set chosen \<subseteq> set (rq_Files (re_req e')) \<and> re_state e' = RunQueued"
proof -
  have st: "re_state e = RunRunning \<or> re_state e = RunQueued \<or> re_state e = RunNeedsAction"
    using r by (auto simp: refuseTick_def split: if_splits RunState.splits)
  have "wanted e' = wanted e \<union> set chosen \<and> set (re_asked e') = set (re_asked e) \<union> set chosen \<and>
    (re_state e = RunRunning \<longrightarrow> rq_Files (re_req e') = rq_Files (re_req e) \<and> re_state e' = RunRunning) \<and>
    (re_state e \<noteq> RunRunning \<longrightarrow> set chosen \<subseteq> set (rq_Files (re_req e')) \<and> re_state e' = RunQueued)"
  proof (cases "re_state e = RunRunning")
    case True
    then show ?thesis
      using a unfolding e_def e'_def
      by (auto simp: tick_def Let_def wanted_def dest!: withFiles_same)
  next
    case False
    with st show ?thesis
      using a unfolding e_def e'_def
      by (auto simp: tick_def Let_def wanted_def dest!: withFiles_same)
  qed
  then show "wanted e' = wanted e \<union> set chosen" "set (re_asked e') = set (re_asked e) \<union> set chosen"
    "re_state e = RunRunning \<Longrightarrow> rq_Files (re_req e') = rq_Files (re_req e) \<and> re_state e' = RunRunning"
    "re_state e \<noteq> RunRunning \<Longrightarrow> set chosen \<subseteq> set (rq_Files (re_req e')) \<and> re_state e' = RunQueued"
    by blast+
qed

text \<open>Ticks are kept. An accepted tick names only videos of its torrent; unless the run already asks for
every video, the files the run is to fetch are afterwards exactly those it was to fetch and the ticked
ones. A pass in flight keeps its own files, so the new ones wait; a run that waits has them in its
request and is queued. When a pass ends, the files waiting are claimed into one request without a raise,
and claimed once. An accepted un-tick takes its file, and no other, out of what waits, and out of the
request of a run that has not started.\<close>

theorem ticks_kept:
  shows "(DecideRun i files n s = (Inr j, s') \<longrightarrow>
           (\<forall>f\<in>set files. holdsFile (sv_entry s j) (TrimSpace f)) \<and>
           (\<not> asksEveryVideo (sv_entry s j) \<longrightarrow>
              wanted (sv_entry s' j) = wanted (sv_entry s j) \<union> TrimSpace ` set files \<and>
              (if re_state (sv_entry s j) = RunRunning
               then rq_Files (re_req (sv_entry s' j)) = rq_Files (re_req (sv_entry s j))
               else TrimSpace ` set files \<subseteq> set (rq_Files (re_req (sv_entry s' j))) \<and>
                    re_state (sv_entry s' j) = RunQueued))) \<and>
         (pendingPass j s = (Some req, s') \<longrightarrow>
           rq_Files req = re_pending (sv_entry s j) \<and> rq_Files req \<noteq> [] \<and> rq_MaxBytes req = 0 \<and>
           fst (pendingPass j s') = None) \<and>
         (UntickFile i spec s = (Inr j, s') \<longrightarrow>
           re_pending (sv_entry s' j) = filter (\<lambda>f. f \<noteq> TrimSpace spec) (re_pending (sv_entry s j)) \<and>
           rq_Files (re_req (sv_entry s' j)) =
             (if queueable (re_state (sv_entry s j))
              then filter (\<lambda>f. f \<noteq> TrimSpace spec) (rq_Files (re_req (sv_entry s j)))
              else rq_Files (re_req (sv_entry s j))))"
proof (rule conjI [OF impI conjI [OF _ impI]])
  assume d: "DecideRun i files n s = (Inr j, s')"
  note a = DecideRun_accepted [OF d]
  show "(\<forall>f\<in>set files. holdsFile (sv_entry s j) (TrimSpace f)) \<and>
           (\<not> asksEveryVideo (sv_entry s j) \<longrightarrow>
              wanted (sv_entry s' j) = wanted (sv_entry s j) \<union> TrimSpace ` set files \<and>
              (if re_state (sv_entry s j) = RunRunning
               then rq_Files (re_req (sv_entry s' j)) = rq_Files (re_req (sv_entry s j))
               else TrimSpace ` set files \<subseteq> set (rq_Files (re_req (sv_entry s' j))) \<and>
                    re_state (sv_entry s' j) = RunQueued))"
    using a(4) tick_entry [OF a(3), of "map TrimSpace files" n] unfolding a(2) by auto
next
  show "pendingPass j s = (Some req, s') \<longrightarrow>
           rq_Files req = re_pending (sv_entry s j) \<and> rq_Files req \<noteq> [] \<and> rq_MaxBytes req = 0 \<and>
           fst (pendingPass j s') = None"
    by (auto simp: pendingPass_def Let_def split: if_splits)
next
  assume u: "UntickFile i spec s = (Inr j, s')"
  have "j = TrimSpace i \<and> s' = untick j (TrimSpace spec) s"
    using u by (auto simp: UntickFile_def Let_def split: if_splits option.splits)
  then have s': "s' = untick j (TrimSpace spec) s" by simp
  have nil: "filter (\<lambda>f. f \<noteq> x) xs = xs" if "x \<notin> set xs" for x :: string and xs
    using that by (induction xs) auto
  show "re_pending (sv_entry s' j) = filter (\<lambda>f. f \<noteq> TrimSpace spec) (re_pending (sv_entry s j)) \<and>
           rq_Files (re_req (sv_entry s' j)) =
             (if queueable (re_state (sv_entry s j))
              then filter (\<lambda>f. f \<noteq> TrimSpace spec) (rq_Files (re_req (sv_entry s j)))
              else rq_Files (re_req (sv_entry s j)))"
    unfolding s' by (auto simp: untick_def Let_def withoutFiles_def containsFile_def nil)
qed

definition demo_ticking :: Server where
  "demo_ticking = upd ''a'' (\<lambda>e. e\<lparr>re_req := (re_req e)\<lparr>rq_Files := [''0'']\<rparr>, re_videos := [0, 1]\<rparr>) demo3"

lemma demo_spec: "TrimSpace ''a'' = ''a''" "TrimSpace ''1'' = ''1''" "ParseInt ''1'' = Some 1"
  by code_simp+

lemma demo_ticking_decides:
  "fst (DecideRun ''a'' [''1''] 0 demo_ticking) = Inr ''a'' \<and> rq_Files (re_req (sv_entry demo_ticking ''a'')) = [''0''] \<and>
   re_state (sv_entry demo_ticking ''a'') = RunRunning \<and> re_pending (sv_entry demo_ticking ''a'') = []"
  by (simp add: demo_ticking_def demo_eval DecideRun_def Let_def demo_spec lookup_run_def refuseTick_def holdsFile_def)

lemma ticks_kept_witness:
  "wanted (sv_entry (snd (DecideRun ''a'' [''1''] 0 demo_ticking)) ''a'') = {''0'', ''1''}"
proof -
  have "DecideRun ''a'' [''1''] 0 demo_ticking = (Inr ''a'', snd (DecideRun ''a'' [''1''] 0 demo_ticking))"
    using demo_ticking_decides by (simp add: prod_eq_iff)
  with ticks_kept [of "''a''" "[''1'']" 0 demo_ticking "''a''"]
  have "wanted (sv_entry (snd (DecideRun ''a'' [''1''] 0 demo_ticking)) ''a'') =
        wanted (sv_entry demo_ticking ''a'') \<union> TrimSpace ` set [''1'']"
    using demo_ticking_decides by (simp add: asksEveryVideo_def)
  then show ?thesis
    using demo_ticking_decides by (auto simp: wanted_def [of "sv_entry demo_ticking ''a''"] demo_spec)
qed

section \<open>What trimming keeps\<close>

lemma trim_drops_eq: "n \<le> keepFinishedRuns \<Longrightarrow> trim_drops over n is = drop (keepFinishedRuns - n) (filter over is)"
proof (induction over n "is" rule: trim_drops.induct)
  case (2 over n i "is")
  show ?case
  proof (cases "over i")
    case True
    show ?thesis
    proof (cases "n = keepFinishedRuns")
      case k: True
      have "trim_drops over m js = filter over js" if "keepFinishedRuns \<le> m" for m js
        using that by (induction over m js rule: trim_drops.induct) auto
      with True k show ?thesis by simp
    next
      case False
      with 2 True show ?thesis by (simp add: Suc_diff_le drop_Cons')
    qed
  qed (use 2 in simp)
qed simp

lemma filter_not_take: "distinct xs \<Longrightarrow> filter (\<lambda>x. x \<notin> set (take k xs)) xs = drop k xs"
proof -
  assume d: "distinct xs"
  have "filter (\<lambda>x. x \<notin> set (take k xs)) (take k xs @ drop k xs) = drop k xs"
    using d set_take_disj_set_drop_if_distinct [of xs k k]
    by (auto simp: filter_empty_conv filter_id_conv simp del: append_take_drop_id)
  then show ?thesis by simp
qed

text \<open>Trimming a reachable server keeps every entry whose run is not over, in order, and of those that
are over exactly the ten registered last, in order; the runs it drops are all over.\<close>

theorem trim_keeps_latest:
  assumes "reachable lister replayer width s"
  defines "over \<equiv> \<lambda>i. final (re_state (sv_entry s i))"
  shows "filter (\<lambda>i. \<not> over i) (sv_order (trim s)) = filter (\<lambda>i. \<not> over i) (sv_order s) \<and>
         filter over (sv_order (trim s)) =
           drop (length (filter over (sv_order s)) - keepFinishedRuns) (filter over (sv_order s)) \<and>
         length (filter over (sv_order (trim s))) \<le> keepFinishedRuns"
proof (intro conjI)
  let ?F = "filter over (sv_order s)"
  let ?gone = "trim_drops over 0 (rev (sv_order s))"
  have d: "distinct (sv_order s)"
    using core_okD(4) [OF reachable_core [OF assms(1)]] by (simp add: reg_ok_def)
  have o: "sv_order (trim s) = filter (\<lambda>i. i \<notin> set ?gone) (sv_order s)"
    by (simp add: trim_def Let_def over_def)
  have "?gone = drop keepFinishedRuns (rev ?F)" by (simp add: trim_drops_eq rev_filter)
  then have g: "set ?gone = set (take (length ?F - keepFinishedRuns) ?F)" by (simp add: drop_rev)
  have sub: "over i" if "i \<in> set ?gone" for i using trim_drops_over [OF that] by simp
  then show "filter (\<lambda>i. \<not> over i) (sv_order (trim s)) = filter (\<lambda>i. \<not> over i) (sv_order s)"
    by (auto simp: o intro!: filter_cong)
  have "filter over (sv_order (trim s)) = filter (\<lambda>i. i \<notin> set ?gone) ?F"
    by (simp add: o conj_commute)
  also have "\<dots> = drop (length ?F - keepFinishedRuns) ?F"
    unfolding g using d by (intro filter_not_take) simp
  finally show "filter over (sv_order (trim s)) = drop (length ?F - keepFinishedRuns) ?F" .
  then show "length (filter over (sv_order (trim s))) \<le> keepFinishedRuns" by simp
qed

lemma trim_keeps_latest_witness:
  "filter (\<lambda>i. final (re_state (sv_entry demo3 i))) (sv_order (trim demo3)) =
     drop (length (filter (\<lambda>i. final (re_state (sv_entry demo3 i))) (sv_order demo3)) - keepFinishedRuns)
       (filter (\<lambda>i. final (re_state (sv_entry demo3 i))) (sv_order demo3))"
  by (rule conjunct1 [OF conjunct2 [OF trim_keeps_latest [OF demo3_reachable]]])

section \<open>Interleavings\<close>

text \<open>An entry run again while the pump of its last pass is between its sections: the pump reads the
entry's context after the new run has put its own there, and ends it; and the files it claims for another
pass are dropped when that pass is refused, although \<^verbatim>\<open>pump\<close> says of this case that they
are then still on the entry.\<close>

definition race_request :: RunRequest where
  "race_request = no_request\<lparr>rq_Source := ''magnet:?x'', rq_Files := [''0'']\<rparr>"

text \<open>Started with one file, begun, told of two videos, ticked for the other, ended, retried, begun again.\<close>

definition race1 :: Server where "race1 = dispatch_task accepting (snd (startRun race_request None ''a'' demo0))"

definition race2 :: Server where
  "race2 = pump_event ''a'' RunDone None (MetadataReady ''h'' ''n'' [0, 1]) (taken_up (Pumping ''a'' RunDone None) race1)"

definition race3 :: Server where "race3 = snd (DecideRun ''a'' [''1''] 0 race2)"

definition race4 :: Server where
  "race4 = pump_over ''a'' RunDone None (taken_up (Settling ''a'' RunDone None)
     (pump_clean ''a'' RunDone None (taken_up (Pumping ''a'' RunDone None) race3)))"

definition retry_a :: "RunRequest \<Rightarrow> Server \<Rightarrow> Server" where
  "retry_a q s = snd (again ''a'' [] q (taken_up (Retrying ''a'' q) (snd (RetryRun ''a'' s))))"

definition race5 :: Server where "race5 = dispatch_task accepting (retry_a race_request race4)"

definition race6 :: Server where "race6 = pump_release ''a'' ''h'' (taken_up (Ending ''a'' ''h'') race5)"

definition race7 :: Server where "race7 = pump_pass ''a'' ''h'' (taken_up (Passing ''a'' ''h'') race6)"

definition race8 :: Server where
  "race8 = (let q = race_request\<lparr>rq_Files := [''1'']\<rparr> in
     leave (Trimming True) (snd (again ''a'' ''h'' q (taken_up (Rearming ''a'' ''h'' q) race7))))"

lemmas race_eval =
  race1_def race2_def race3_def race4_def race5_def race6_def race7_def race8_def race_request_def
  demo0_def newServer_def startRun_def no_request_def demo_trim enqueueWaitingLocked_def insertWaitingLocked_def
  upd_def leave_def taken_up_def queueBefore_def maxActiveOrDefault_def dispatch_task_def dispatch_def
  needsListingLocked_def beginRun_def accepting_def blank_def PriorityNormal_def pump_event_def DecideRun_def
  lookup_run_def refuseTick_def holdsFile_def demo_spec tick_def asksEveryVideo_def withoutFiles_def
  containsFile_def set_count_def pump_clean_def pump_over_def run_cleanup_def releaseSlotLocked_def RetryRun_def again_def
  retry_a_def
  pump_release_def end_context_def pump_pass_def pendingPass_def

lemma race3_fields:
  "sv_tasks race3 = {#Dispatching, Dispatching, Pumping ''a'' RunDone None#}"
  "re_pending (sv_entry race3 ''a'') = [''1'']" "rq_Files (re_req (sv_entry race3 ''a'')) = [''0'']"
  by (simp_all add: race_eval Let_def)

lemma race_tasks:
  "Dispatching \<in># sv_tasks (snd (startRun race_request None ''a'' demo0))"
  "Pumping ''a'' RunDone None \<in># sv_tasks race1" "Pumping ''a'' RunDone None \<in># sv_tasks race3"
  "Settling ''a'' RunDone None \<in># sv_tasks (pump_clean ''a'' RunDone None (taken_up (Pumping ''a'' RunDone None) race3))"
  "Retrying ''a'' race_request \<in># sv_tasks (snd (RetryRun ''a'' race4))"
  "Dispatching \<in># sv_tasks (retry_a race_request race4)"
  "Ending ''a'' ''h'' \<in># sv_tasks race5" "Passing ''a'' ''h'' \<in># sv_tasks race6"
  "Rearming ''a'' ''h'' (race_request\<lparr>rq_Files := [''1'']\<rparr>) \<in># sv_tasks race7"
  by (simp_all add: race_eval Let_def)

lemma retry_a_reachable:
  assumes "reachable l r w s" "Retrying ''a'' q \<in># sv_tasks (snd (RetryRun ''a'' s))"
  shows "reachable l r w (retry_a q s)"
  unfolding retry_a_def by (rule reachable_step [OF reachable_step [OF assms(1) retried] retrying [OF assms(2)]])

lemma race_reachable: "reachable False True 1 race6" "reachable False True 1 race8"
proof -
  have s: "step demo0 (snd (startRun race_request None ''a'' demo0))"
    by (rule started) (simp_all add: demo0_def newServer_def)
  have "reachable False True 1 demo0" unfolding demo0_def by (rule reachable_new)
  from reachable_step [OF this s] have "reachable False True 1 (snd (startRun race_request None ''a'' demo0))" .
  from reachable_step [OF this dispatched [OF race_tasks(1)]] have "reachable False True 1 race1"
    unfolding race1_def .
  from reachable_step [OF this event [OF race_tasks(2)]] have "reachable False True 1 race2"
    unfolding race2_def .
  from reachable_step [OF this decided] have "reachable False True 1 race3" unfolding race3_def .
  from reachable_step [OF reachable_step [OF this drained [OF race_tasks(3)]] ended [OF race_tasks(4)]]
  have "reachable False True 1 race4" unfolding race4_def .
  from retry_a_reachable [OF this race_tasks(5)] have "reachable False True 1 (retry_a race_request race4)" .
  from reachable_step [OF this dispatched [OF race_tasks(6)]] have "reachable False True 1 race5"
    unfolding race5_def .
  from reachable_step [OF this released [OF race_tasks(7)]] show "reachable False True 1 race6"
    unfolding race6_def .
  from reachable_step [OF this passed [OF race_tasks(8)]] have "reachable False True 1 race7"
    unfolding race7_def .
  from reachable_step [OF this rearmed [OF race_tasks(9)]] show "reachable False True 1 race8"
    unfolding race8_def Let_def .
qed

lemma retried_run_loses_its_context:
  "reachable False True 1 race6 \<and> re_state (sv_entry race6 ''a'') = RunRunning \<and>
   \<not> re_cancelled (sv_entry race6 ''a'') \<and> (\<exists>c\<in>sv_ended race6. re_cancel (sv_entry race6 ''a'') = Some c)"
proof -
  have "re_state (sv_entry race6 ''a'') = RunRunning" "\<not> re_cancelled (sv_entry race6 ''a'')"
    "\<exists>c\<in>sv_ended race6. re_cancel (sv_entry race6 ''a'') = Some c"
    by (simp_all add: race_eval Let_def)
  with race_reachable(1) show ?thesis by blast
qed

lemma claimed_ticks_lost:
  "reachable False True 1 race8 \<and> ''1'' \<in> set (re_asked (sv_entry race8 ''a'')) \<and>
   ''1'' \<notin> wanted (sv_entry race8 ''a'') \<and> sv_order race8 = [''a''] \<and>
   (\<forall>i h q. Rearming i h q \<notin># sv_tasks race8)"
proof -
  have "''1'' \<in> set (re_asked (sv_entry race8 ''a''))" "''1'' \<notin> wanted (sv_entry race8 ''a'')" "sv_order race8 = [''a'']"
    "\<forall>i h q. Rearming i h q \<notin># sv_tasks race8"
    by (simp_all add: wanted_def race_eval Let_def)
  with race_reachable(2) show ?thesis by blast
qed

text \<open>A magnet whose listing failed is marked listed all the same, so running it again starts a run over
every video of the torrent without the choice a first run would have offered.\<close>

definition unlisted0 :: Server where "unlisted0 = newServer True True 1"

definition unlisted1 :: Server where
  "unlisted1 = dispatch_task accepting (snd (startRun demo_request None ''a'' unlisted0))"

definition unlisted2 :: Server where
  "unlisted2 = listThenRun (accepting ''a'') 0 ''a'' (Inl ''no peers'') (taken_up (Listing ''a'' 0) unlisted1)"

definition unlisted3 :: Server where "unlisted3 = dispatch_task accepting (retry_a demo_request unlisted2)"

lemmas unlisted_eval =
  unlisted0_def unlisted1_def unlisted2_def unlisted3_def demo_request_def listThenRun_def listed_def listing_over_def race_eval

lemma retry_skips_the_choice:
  "reachable True True 1 unlisted3 \<and> re_state (sv_entry unlisted3 ''a'') = RunRunning \<and>
   re_videos (sv_entry unlisted3 ''a'') = [] \<and> asksEveryVideo (sv_entry unlisted3 ''a'') \<and>
   Pumping ''a'' RunDone None \<in># sv_tasks unlisted3"
proof -
  have t: "Dispatching \<in># sv_tasks (snd (startRun demo_request None ''a'' unlisted0))"
    "Listing ''a'' 0 \<in># sv_tasks unlisted1" "Retrying ''a'' demo_request \<in># sv_tasks (snd (RetryRun ''a'' unlisted2))"
    "Dispatching \<in># sv_tasks (retry_a demo_request unlisted2)"
    by (simp_all add: unlisted_eval Let_def)
  have s: "step unlisted0 (snd (startRun demo_request None ''a'' unlisted0))"
    by (rule started) (simp_all add: unlisted0_def newServer_def)
  have "reachable True True 1 unlisted0" unfolding unlisted0_def by (rule reachable_new)
  from reachable_step [OF this s]
  have "reachable True True 1 (snd (startRun demo_request None ''a'' unlisted0))" .
  from reachable_step [OF this dispatched [OF t(1)]] have "reachable True True 1 unlisted1"
    unfolding unlisted1_def .
  from reachable_step [OF this step.listed [OF t(2)]] have "reachable True True 1 unlisted2"
    unfolding unlisted2_def .
  from retry_a_reachable [OF this t(3)] have "reachable True True 1 (retry_a demo_request unlisted2)" .
  from reachable_step [OF this dispatched [OF t(4)]] have "reachable True True 1 unlisted3"
    unfolding unlisted3_def .
  moreover have "re_state (sv_entry unlisted3 ''a'') = RunRunning" "re_videos (sv_entry unlisted3 ''a'') = []"
    "asksEveryVideo (sv_entry unlisted3 ''a'')" "Pumping ''a'' RunDone None \<in># sv_tasks unlisted3"
    by (simp_all add: unlisted_eval Let_def)
  ultimately show ?thesis by blast
qed

text \<open>A dropped file staged for a run that is cancelled while it waits: before the cancel, its lock given up, comes to
the cleanup, a top-up of the row runs the entry again and takes the cleanup away. The staged file stays for good.\<close>

definition leak_request :: RunRequest where
  "leak_request = no_request\<lparr>rq_Source := ''magnet:?x'', rq_Label := ''dropped''\<rparr>"

definition leak1 :: Server where "leak1 = snd (CancelRun ''a'' (snd (startRun leak_request (Some 7) ''a'' demo0)))"

definition leak2 :: Server where
  "leak2 = snd (TopUpRun TopUpLaws.demo_disk TopUpLaws.demo_disk ''out'' 500000000 demo_hash demo_params ''a'' leak1)"

definition leak3 :: Server where "leak3 = clean_entry ''a'' False (taken_up (Cleaning ''a'' False) leak2)"

lemma leak_names: "TrimSpace demo_hash = demo_hash" "TrimSpace demo_params = demo_params" "TrimSpace ''a'' = ''a''" "demo_params \<noteq> []"
  by code_simp+

lemma leak_again: "leak2 = snd (again ''a'' demo_hash (request demo_topup TopUpLaws.demo_record) leak1)"
proof -
  have "tu_Params demo_topup = demo_params" unfolding demo_topup_def by code_simp
  then show ?thesis
    using demo_topup demo_LoadRun by (simp add: leak2_def TopUpRun_def Server_TopUp_def Let_def leak_names)
qed

lemmas leak_eval = leak1_def leak_again leak3_def leak_request_def CancelRun_def cancel_entry_def clean_entry_def dropWaitingLocked_def

lemma staged_file_left:
  "\<exists>lost. history False True 1 leak3 lost \<and> 7 \<in> lost \<and> sv_staged leak3 = {7} \<and> sv_cleaned leak3 = [] \<and>
     re_state (sv_entry leak3 ''a'') = RunQueued"
proof -
  have s: "step demo0 (snd (startRun leak_request (Some 7) ''a'' demo0))"
    by (rule started) (simp_all add: demo0_def newServer_def)
  have c: "Cleaning ''a'' False \<in># sv_tasks leak2"
    by (simp add: leak_eval race_eval Let_def)
  have "reachable False True 1 demo0" unfolding demo0_def by (rule reachable_new)
  from reachable_step [OF reachable_step [OF this s] cancelled] have "reachable False True 1 leak1" unfolding leak1_def .
  from reachable_step [OF this topped_up] have "reachable False True 1 leak2" unfolding leak2_def .
  from reachable_step [OF this cleaned [OF c]] have "reachable False True 1 leak3" unfolding leak3_def .
  from reachable_history [OF this] obtain lost where h: "history False True 1 leak3 lost" by blast
  have f: "sv_staged leak3 = {7}" "sv_cleaned leak3 = []" "re_state (sv_entry leak3 ''a'') = RunQueued"
    "re_cleanup (sv_entry leak3 i) = None" for i
    by (simp_all add: leak_eval race_eval Let_def)
  with history_traced [OF h] have "7 \<in> lost" by (auto simp: traced_def held_def)
  with h f(1-3) show ?thesis by blast
qed

text \<open>A close that has given up the lock goes through the runs that were going and ends their contexts; a listing that
comes back in between has ended its own and left the entry none, so the close calls through nil.\<close>

definition close1 :: Server where "close1 = Server_Close unlisted1"

definition close2 :: Server where
  "close2 = listThenRun (accepting ''a'') 0 ''a'' (Inl ''no peers'') (taken_up (Listing ''a'' 0) close1)"

lemmas close_eval = close1_def close2_def Server_Close_def unlisted_eval

lemma close_calls_nil:
  "reachable True True 1 close2 \<and> Stopping [''a''] [] \<in># sv_tasks close2 \<and> re_cancel (sv_entry close2 ''a'') = None"
proof -
  have t: "Dispatching \<in># sv_tasks (snd (startRun demo_request None ''a'' unlisted0))" "Listing ''a'' 0 \<in># sv_tasks close1"
    by (simp_all add: close_eval Let_def)
  have s: "step unlisted0 (snd (startRun demo_request None ''a'' unlisted0))"
    by (rule started) (simp_all add: unlisted0_def newServer_def)
  have "reachable True True 1 unlisted0" unfolding unlisted0_def by (rule reachable_new)
  from reachable_step [OF reachable_step [OF this s] dispatched [OF t(1)]] have "reachable True True 1 unlisted1"
    unfolding unlisted1_def .
  from reachable_step [OF this closed] have "reachable True True 1 close1" unfolding close1_def .
  from reachable_step [OF this step.listed [OF t(2)]] have "reachable True True 1 close2" unfolding close2_def .
  moreover have "Stopping [''a''] [] \<in># sv_tasks close2" "re_cancel (sv_entry close2 ''a'') = None"
    by (simp_all add: close_eval Let_def)
  ultimately show ?thesis by blast
qed

end
