(* ===== verification/RowState.thy ===== *)
theory RowState
  imports RunProperties Sources
begin

text \<open>
  What the page is told of a run: \<^verbatim>\<open>runStateFieldsLocked\<close> and its helpers of
  \<^verbatim>\<open>internal/web/server.go\<close>. A key the code leaves out of the message is \<open>None\<close>,
  or the empty list where the value is a list. The JSON encoding is not modelled.
\<close>

definition fileIndices :: "string list \<Rightarrow> int list" where
  "fileIndices specs = sort (remdups (List.map_filter (\<lambda>spec. ParseInt (TrimSpace spec)) specs))"

definition tickedLocked :: "runEntry \<Rightarrow> int list" where
  "tickedLocked e =
     (if asksEveryVideo e then sort (re_videos e)
      else fileIndices (re_asked e @ rq_Files (re_req e) @ re_pending e))"

definition narrowableLocked :: "runEntry \<Rightarrow> int list" where
  "narrowableLocked e = (if \<not> queueable (re_state e) then [] else fileIndices (rq_Files (re_req e)))"

definition fetchingLocked :: "runEntry \<Rightarrow> int list" where
  "fetchingLocked e =
     (if re_state e \<noteq> RunRunning then []
      else if asksEveryVideo e then sort (re_videos e)
      else fileIndices (rq_Files (re_req e)))"

record RowFields =
  rs_run :: string
  rs_state :: RunState
  rs_active :: bool
  rs_source :: string
  rs_reset :: bool
  rs_infohash :: "string option"
  rs_error :: "string option"
  rs_priority :: "int option"
  rs_queue_position :: "nat option"
  rs_arrival :: "int option"
  rs_name :: "string option"
  rs_provisional_name :: "string option"
  rs_tickable :: bool
  rs_tick_refusal :: "TickRefusal option"
  rs_ticked :: "int list"
  rs_deferred :: "int list"
  rs_fetching :: "int list"
  rs_narrowable :: "int list"
  rs_count :: "int option"

definition runStateFieldsLocked :: "(string \<Rightarrow> Magnet option) \<Rightarrow> Server \<Rightarrow> string \<Rightarrow> bool \<Rightarrow> RowFields" where
  "runStateFieldsLocked parse_magnet s i reset =
     (let e = sv_entry s i; pos = queuePositionLocked s i in
      \<lparr>rs_run = i, rs_state = re_state e,
       rs_active = (re_state e = RunRunning \<or> re_state e = RunReplaying),
       rs_source = re_source e, rs_reset = reset,
       rs_infohash = (if re_infoHash e \<noteq> [] then Some (re_infoHash e) else None),
       rs_error = re_err e,
       rs_priority = (if queueable (re_state e) then Some (re_priority e) else None),
       rs_queue_position = (if queueable (re_state e) \<and> 0 < pos then Some pos else None),
       rs_arrival = (if 0 < re_arrival e then Some (re_arrival e) else None),
       rs_name = (if re_name e \<noteq> [] then Some (re_name e) else None),
       rs_provisional_name = (if re_name e \<noteq> [] then None else MagnetDisplayName parse_magnet (re_source e)),
       rs_tickable = (refuseTick e = None),
       rs_tick_refusal = refuseTick e,
       rs_ticked = tickedLocked e,
       rs_deferred = fileIndices (re_pending e),
       rs_fetching = fetchingLocked e,
       rs_narrowable = narrowableLocked e,
       rs_count = (if 0 < rq_Count (re_req e) then Some (rq_Count (re_req e)) else None)\<rparr>)"

text \<open>The rows of the registry in the order they were registered, each with its place in the queue.\<close>

definition snapshot :: "Server \<Rightarrow> (string \<times> RunState \<times> nat) list" where
  "snapshot s = map (\<lambda>i. (i, re_state (sv_entry s i), queuePositionLocked s i)) (sv_order s)"

section \<open>Index lists\<close>

lemma set_fileIndices:
  "set (fileIndices specs) = {n. \<exists>spec\<in>set specs. ParseInt (TrimSpace spec) = Some n}"
  by (auto simp: fileIndices_def List.map_filter_def) force

lemma fileIndices_ascending: "sorted_wrt (<) (fileIndices specs)"
  by (simp add: fileIndices_def sorted_distinct_less)

lemma fileIndices_mono: "set specs \<subseteq> set specs' \<Longrightarrow> set (fileIndices specs) \<subseteq> set (fileIndices specs')"
  by (auto simp: set_fileIndices)

section \<open>Places in the queue\<close>

lemma position_zero: "position_of ws i = 0 \<longleftrightarrow> i \<notin> set ws"
  by (induction ws) (auto split: nat.split)

lemma position_line:
  assumes "sorted_wrt before ws" "i \<in> set ws" "\<And>a b. before a b \<Longrightarrow> \<not> before b a"
  shows "position_of ws i = Suc (card {j \<in> set ws. before j i})"
  using assms(1,2)
proof (induction ws)
  case (Cons w ws)
  have irr: "\<not> before a a" for a using assms(3) by blast
  show ?case
  proof (cases "w = i")
    case True
    have "{j \<in> set (w # ws). before j i} = {}"
      using Cons.prems(1) True irr assms(3) by auto
    with True show ?thesis by simp
  next
    case False
    with Cons.prems have i: "i \<in> set ws" "before w i" by auto
    have nin: "w \<notin> set ws" using Cons.prems(1) irr by auto
    have "{j \<in> set (w # ws). before j i} = insert w {j \<in> set ws. before j i}" using i(2) by auto
    with nin have "card {j \<in> set (w # ws). before j i} = Suc (card {j \<in> set ws. before j i})" by simp
    moreover have "position_of ws i = Suc (card {j \<in> set ws. before j i})" using Cons i by simp
    ultimately show ?thesis using False by simp
  qed
qed simp

text \<open>C40: What a page is told of a run is consistent. In every reachable server the message gives a place in
the queue exactly for a queued run, and that place is one more than the number of queued runs that go
before it; the index lists that come from file specs are strictly ascending; what a run is fetching and
what can be taken out of it are among what is ticked, and so is what waits for its next pass where the run
does not ask for every video; where it does, nothing can be taken out of it; and a run is called active exactly
when it holds a slot or is replayed.\<close>

theorem row_state_consistent:
  fixes parse_magnet reset
  assumes "reachable lister replayer width s"
  defines "m \<equiv> \<lambda>i. runStateFieldsLocked parse_magnet s i reset"
  shows "rs_queue_position (m i) =
           (if i \<in> queued s then Some (Suc (card {j \<in> queued s. goes_before s j i})) else None) \<and>
         sorted_wrt (<) (rs_deferred (m i)) \<and> sorted_wrt (<) (rs_narrowable (m i)) \<and>
         (\<not> asksEveryVideo (sv_entry s i) \<longrightarrow>
            sorted_wrt (<) (rs_ticked (m i)) \<and> set (rs_deferred (m i)) \<subseteq> set (rs_ticked (m i))) \<and>
         set (rs_fetching (m i)) \<subseteq> set (rs_ticked (m i)) \<and>
         set (rs_narrowable (m i)) \<subseteq> set (rs_ticked (m i)) \<and>
         (asksEveryVideo (sv_entry s i) \<longrightarrow> rs_narrowable (m i) = []) \<and>
         (rs_active (m i) \<longleftrightarrow> i \<in> sv_running s \<or> re_state (sv_entry s i) = RunReplaying) \<and>
         (rs_tickable (m i) \<longleftrightarrow> rs_tick_refusal (m i) = None)"
proof -
  have c: "core_ok s" using assms(1) by (rule reachable_core)
  note q = queue_line [OF c]
  let ?all = "re_asked (sv_entry s i) @ rq_Files (re_req (sv_entry s i)) @ re_pending (sv_entry s i)"
  have pend: "set (fileIndices (re_pending (sv_entry s i))) \<subseteq> set (fileIndices ?all)"
    by (rule fileIndices_mono) auto
  have files: "set (fileIndices (rq_Files (re_req (sv_entry s i)))) \<subseteq> set (fileIndices ?all)"
    by (rule fileIndices_mono) auto
  have pos: "queuePositionLocked s i = (if i \<in> queued s then Suc (card {j \<in> queued s. goes_before s j i}) else 0)"
  proof (cases "i \<in> queued s")
    case True
    have asym: "goes_before s a b \<Longrightarrow> \<not> goes_before s b a" for a b
      unfolding goes_before_key using key_before_trans key_before_irrefl by blast
    from True position_line [OF q(1), of i] asym show ?thesis by (simp add: queuePositionLocked_def q(2))
  next
    case False
    then show ?thesis using position_zero [of "sv_waiting s" i] by (simp add: queuePositionLocked_def q(2))
  qed
  have p1: "rs_queue_position (m i) =
           (if i \<in> queued s then Some (Suc (card {j \<in> queued s. goes_before s j i})) else None)"
    by (simp add: m_def runStateFieldsLocked_def Let_def pos queued_def)
  have p2: "sorted_wrt (<) (rs_deferred (m i)) \<and> sorted_wrt (<) (rs_narrowable (m i))"
    by (simp add: m_def runStateFieldsLocked_def Let_def narrowableLocked_def fileIndices_ascending)
  have p3: "sorted_wrt (<) (rs_ticked (m i)) \<and> set (rs_deferred (m i)) \<subseteq> set (rs_ticked (m i))"
    if "\<not> asksEveryVideo (sv_entry s i)"
    using that pend
    by (simp add: m_def runStateFieldsLocked_def Let_def tickedLocked_def fileIndices_ascending)
  have p4: "set (rs_fetching (m i)) \<subseteq> set (rs_ticked (m i))"
    using files
    by (simp add: m_def runStateFieldsLocked_def Let_def tickedLocked_def fetchingLocked_def)
  have none: "rs_narrowable (m i) = []" if "asksEveryVideo (sv_entry s i)"
  proof -
    have "fileIndices [] = []" by code_simp
    with that show ?thesis by (simp add: m_def runStateFieldsLocked_def Let_def narrowableLocked_def asksEveryVideo_def)
  qed
  have p5: "set (rs_narrowable (m i)) \<subseteq> set (rs_ticked (m i))"
  proof (cases "asksEveryVideo (sv_entry s i)")
    case False
    with files show ?thesis
      by (simp add: m_def runStateFieldsLocked_def Let_def tickedLocked_def narrowableLocked_def)
  qed (simp add: none)
  have p6: "rs_active (m i) \<longleftrightarrow> i \<in> sv_running s \<or> re_state (sv_entry s i) = RunReplaying"
    using core_okD(2) [OF c] by (auto simp: m_def runStateFieldsLocked_def Let_def run_ok_def)
  have p7: "rs_tickable (m i) \<longleftrightarrow> rs_tick_refusal (m i) = None"
    by (simp add: m_def runStateFieldsLocked_def Let_def)
  from p1 p2 p3 p4 p5 p6 p7 none show ?thesis by blast
qed

lemma row_state_consistent_witness:
  "rs_queue_position (runStateFieldsLocked (\<lambda>_. None) demo3 ''b'' False) =
     Some (Suc (card {j \<in> queued demo3. goes_before demo3 j ''b''}))"
  using row_state_consistent [OF demo3_reachable, of "\<lambda>_. None" "''b''" False] demo3_fields(7)
  by (simp add: queued_def)

end
