(* ===== verification/FloatLaws.thy ===== *)
theory FloatLaws
  imports GoFloat
begin

text \<open>
  What the frame planner needs of doubles that are not negative: rounding and the operations built on it
  are monotone, a quotient is off by little, and truncation is the floor.
\<close>

section \<open>Rounding a natural number\<close>

definition rounded :: "nat \<Rightarrow> nat" where
  "rounded m = round_even m (bitlen m - 53) * 2 ^ (bitlen m - 53)"

lemma round_even_bounds: "m div 2 ^ k \<le> round_even m k" "round_even m k \<le> m div 2 ^ k + 1"
  by (simp_all add: round_even_def Let_def)

lemma round_even_mono: "m \<le> n \<Longrightarrow> round_even m k \<le> round_even n k"
proof (cases "m div 2 ^ k = n div 2 ^ k")
  case True
  assume "m \<le> n"
  then have "m mod 2 ^ k \<le> n mod 2 ^ k"
    using div_mult_mod_eq [of m "2 ^ k"] div_mult_mod_eq [of n "2 ^ k"] unfolding True by linarith
  with True show ?thesis by (auto simp: round_even_def Let_def)
next
  case False
  assume "m \<le> n"
  with False have "m div 2 ^ k + 1 \<le> n div 2 ^ k" using div_le_mono [of m n "2 ^ k"] by linarith
  then show ?thesis using round_even_bounds(2) [of m k] round_even_bounds(1) [of n k] by linarith
qed

lemma bitlen_mono: "m \<le> n \<Longrightarrow> bitlen m \<le> bitlen n"
proof (rule ccontr)
  assume le: "m \<le> n" and "\<not> bitlen m \<le> bitlen n"
  then have lt: "bitlen n < bitlen m" by simp
  have "0 < m" using lt by (cases m) (simp_all add: bitlen.simps [of 0])
  with le have "0 < n" by simp
  have "n < 2 ^ bitlen n" using bitlen_bounds [OF \<open>0 < n\<close>] by simp
  also have "\<dots> \<le> (2 :: nat) ^ (bitlen m - 1)" using lt by (intro power_increasing) auto
  also have "\<dots> \<le> m" using bitlen_bounds [OF \<open>0 < m\<close>] by simp
  finally show False using le by simp
qed

lemma bitlen_unique: "2 ^ k \<le> n \<Longrightarrow> n < 2 ^ Suc k \<Longrightarrow> bitlen n = Suc k"
proof -
  assume n: "2 ^ k \<le> n" "n < 2 ^ Suc k"
  have "(0 :: nat) < 2 ^ k" by simp
  with n have "0 < n" by linarith
  from bitlen_bounds [OF this] have b: "2 ^ (bitlen n - 1) \<le> n" "n < 2 ^ bitlen n" by auto
  from n(1) b(2) have "(2 :: nat) ^ k < 2 ^ bitlen n" by linarith
  then have lo: "k < bitlen n" by simp
  from n(2) b(1) have "(2 :: nat) ^ (bitlen n - 1) < 2 ^ Suc k" by linarith
  then have "bitlen n - 1 < Suc k" by (simp del: power_Suc)
  with lo show ?thesis by simp
qed

lemma rounded_mono: "m \<le> n \<Longrightarrow> rounded m \<le> rounded n"
proof -
  assume le: "m \<le> n"
  let ?k = "bitlen m - 53" and ?l = "bitlen n - 53"
  show ?thesis
  proof (cases "?k = ?l")
    case True
    then show ?thesis using round_even_mono [OF le, of ?l] by (simp add: rounded_def)
  next
    case False
    with bitlen_mono [OF le] have l: "bitlen m < bitlen n" "53 < bitlen n" by auto
    then have "0 < n" by (cases n) (simp_all add: bitlen.simps [of 0])
    have "m < 2 ^ bitlen m"
      using bitlen_bounds [of m] by (cases "m = 0") (auto simp: bitlen.simps [of 0])
    also have "(2 :: nat) ^ bitlen m \<le> 2 ^ (53 + ?k)" by (intro power_increasing) auto
    finally have "m < 2 ^ 53 * 2 ^ ?k" by (simp only: power_add)
    then have "m div 2 ^ ?k < 2 ^ 53" by (rule less_mult_imp_div_less)
    then have "rounded m \<le> 2 ^ 53 * 2 ^ ?k"
      unfolding rounded_def using round_even_bounds(2) [of m ?k] by (intro mult_le_mono1) linarith
    also have "\<dots> = 2 ^ (53 + ?k)" by (simp only: power_add)
    also have "\<dots> \<le> 2 ^ (bitlen n - 1)" using False l by (intro power_increasing) auto
    also have "\<dots> = 2 ^ 52 * 2 ^ ?l"
    proof -
      have "bitlen n - 1 = 52 + ?l" using l by simp
      then show ?thesis by (simp only: power_add)
    qed
    also have "\<dots> \<le> rounded n"
    proof -
      have "2 ^ 52 * 2 ^ ?l \<le> n"
      proof -
        have "bitlen n - 1 = 52 + ?l" using l by simp
        then have "(2 :: nat) ^ 52 * 2 ^ ?l = 2 ^ (bitlen n - 1)" by (simp only: power_add)
        then show ?thesis using bitlen_bounds [OF \<open>0 < n\<close>] by simp
      qed
      then have "2 ^ 52 \<le> n div 2 ^ ?l" by (simp add: less_eq_div_iff_mult_less_eq)
      then show ?thesis
        unfolding rounded_def using round_even_bounds(1) [of n ?l] by (intro mult_le_mono1) linarith
    qed
    finally show ?thesis .
  qed
qed

lemma bitlen_double: "0 < m \<Longrightarrow> bitlen (2 * m) = Suc (bitlen m)"
  by (simp add: bitlen.simps [of "2 * m"])

lemma rounded_0 [simp]: "rounded 0 = 0"
  by (simp add: rounded_def round_even_def)

lemma rounded_double: "rounded (2 * m) = 2 * rounded m"
proof (cases "m = 0")
  case False
  then have b: "bitlen (2 * m) = Suc (bitlen m)" by (simp add: bitlen_double)
  show ?thesis
  proof (cases "bitlen m < 53")
    case True
    then show ?thesis by (simp add: rounded_def b)
  next
    case False
    then have k: "Suc (bitlen m) - 53 = Suc (bitlen m - 53)" by simp
    have d: "(2 * m) div 2 ^ Suc k = m div 2 ^ k" for k by simp
    have r: "(2 * m) mod 2 ^ Suc k = 2 * (m mod 2 ^ k)" for k by (simp only: power_Suc mult_mod_right)
    have "round_even (2 * m) (Suc k) = round_even m k" for k
      unfolding round_even_def Let_def d r power_Suc by simp
    then show ?thesis unfolding rounded_def b k by simp
  qed
qed simp

lemma rounded_scale: "rounded (m * 2 ^ j) = rounded m * 2 ^ j"
proof (induction j)
  case (Suc j)
  have "m * 2 ^ Suc j = 2 * (m * 2 ^ j)" by simp
  then have "rounded (m * 2 ^ Suc j) = 2 * (rounded m * 2 ^ j)" by (simp only: rounded_double Suc)
  then show ?case by simp
qed simp

section \<open>Doubles that are not negative\<close>

lemma powi_pos [simp]: "\<not> (2 :: real) powi e \<le> 0" "\<not> (2 :: real) powi e < 0"
  by (simp_all add: not_le not_less)

lemma f64_sign: "0 \<le> f64_val x \<longleftrightarrow> 0 \<le> fst x"
  by (cases x) (simp add: f64_val_def zero_le_mult_iff)

lemma f64_pos: "0 < f64_val x \<longleftrightarrow> 0 < fst x"
  by (cases x) (simp add: f64_val_def zero_less_mult_iff)

lemma f64_one: "f64_val (1, 0) = 1" "f64_val (0, 0) = 0"
  by (simp_all add: f64_val_def)

lemma f64_round_val: "0 \<le> m \<Longrightarrow> f64_val (f64_round (m, e)) = real (rounded (nat m)) * 2 powi e"
proof (cases "m = 0")
  case True
  then show ?thesis by (simp add: f64_val_def f64_round_def Let_def)
next
  case False
  moreover assume "0 \<le> m"
  ultimately show ?thesis by (simp add: f64_val_def f64_round_def Let_def rounded_def power_int_add)
qed

lemma f64_round_mono:
  assumes "0 \<le> m" "0 \<le> n" "f64_val (m, e) \<le> f64_val (n, d)"
  shows "f64_val (f64_round (m, e)) \<le> f64_val (f64_round (n, d))"
proof -
  define l where "l = min e d"
  have p: "(2 :: real) powi e = 2 ^ nat (e - l) * 2 powi l" "(2 :: real) powi d = 2 ^ nat (d - l) * 2 powi l"
    by (simp_all add: l_def flip: power_int_of_nat power_int_add)
  let ?m = "nat m * 2 ^ nat (e - l)" and ?n = "nat n * 2 ^ nat (d - l)"
  have "f64_val (m, e) = real ?m * 2 powi l" "f64_val (n, d) = real ?n * 2 powi l"
    using assms(1,2) by (simp_all add: f64_val_def p)
  with assms(3) have "real ?m \<le> real ?n" by (simp add: mult_le_cancel_right)
  then have "?m \<le> ?n" by (rule of_nat_le_iff [THEN iffD1])
  then have "rounded ?m \<le> rounded ?n" by (rule rounded_mono)
  then have "rounded (nat m) * 2 ^ nat (e - l) \<le> rounded (nat n) * 2 ^ nat (d - l)" by (simp only: rounded_scale)
  then have "real (rounded (nat m) * 2 ^ nat (e - l)) \<le> real (rounded (nat n) * 2 ^ nat (d - l))"
    by (rule of_nat_mono)
  then have "real (rounded (nat m)) * 2 ^ nat (e - l) * 2 powi l \<le> real (rounded (nat n)) * 2 ^ nat (d - l) * 2 powi l"
    by (simp add: mult_right_mono)
  then show ?thesis by (simp add: f64_round_val assms(1,2) p mult.assoc)
qed

lemma f64_trunc_floor: "0 \<le> fst x \<Longrightarrow> f64_trunc x = \<lfloor>f64_val x\<rfloor>"
proof -
  obtain m e where x: "x = (m, e)" by (cases x)
  assume "0 \<le> fst x"
  then have m: "0 \<le> m" by (simp add: x)
  show ?thesis
  proof (cases "0 \<le> e")
    case True
    then have "f64_val x = of_int (m * 2 ^ nat e)" by (simp add: f64_val_def x power_int_def)
    then show ?thesis using True by (simp only: floor_of_int) (simp add: f64_trunc_def x)
  next
    case False
    then have "(2 :: real) powi e = inverse (2 ^ nat (- e))" by (simp add: power_int_def power_one_over inverse_eq_divide)
    then have "f64_val x = of_int m / of_int (2 ^ nat (- e))"
      by (simp add: f64_val_def x divide_inverse)
    then have "\<lfloor>f64_val x\<rfloor> = m div 2 ^ nat (- e)" by (simp only: floor_divide_of_int_eq)
    moreover have "sgn m * (\<bar>m\<bar> div 2 ^ nat (- e)) = m div 2 ^ nat (- e)"
      using m by (cases "m = 0") simp_all
    ultimately show ?thesis using False by (simp add: f64_trunc_def x)
  qed
qed

lemma f64_round_sign: "0 \<le> m \<Longrightarrow> 0 \<le> fst (f64_round (m, e))"
  by (cases "m = 0") (simp_all add: f64_round_def Let_def)

lemma f64_mult_val:
  "0 \<le> m * m' \<Longrightarrow> f64_mult (m, e) (m', e') = f64_round (m * m', e + e') \<and>
     f64_val (m * m', e + e') = f64_val (m, e) * f64_val (m', e')"
  by (simp add: f64_mult_def f64_val_def power_int_add)

lemma f64_mult_sign: "0 \<le> fst x \<Longrightarrow> 0 \<le> fst y \<Longrightarrow> 0 \<le> fst (f64_mult x y)"
  by (cases x, cases y) (simp add: f64_mult_def f64_round_sign)

lemma f64_mult_mono:
  assumes "0 \<le> fst x" "0 \<le> fst y" "0 \<le> fst x'" "0 \<le> fst y'" "f64_val x * f64_val y \<le> f64_val x' * f64_val y'"
  shows "f64_val (f64_mult x y) \<le> f64_val (f64_mult x' y')"
proof -
  obtain m e n d m' e' n' d' where "x = (m, e)" "y = (n, d)" "x' = (m', e')" "y' = (n', d')"
    by (cases x, cases y, cases x', cases y')
  with assms show ?thesis
    using f64_mult_val [of m n e d] f64_mult_val [of m' n' e' d']
    by (auto intro: f64_round_mono)
qed

lemma f64_mult_tight:
  assumes "0 \<le> fst x" "0 \<le> fst y"
  shows "f64_val (f64_mult x y) * 2 ^ 52 \<le> f64_val x * f64_val y * (2 ^ 52 + 1)"
proof -
  obtain m e n d where "x = (m, e)" "y = (n, d)" by (cases x, cases y)
  with assms show ?thesis
    using f64_mult_val [of m n e d] f64_round_tight [of "m * n" "e + d"] by simp
qed

lemma f64_div_sign: "0 \<le> fst x \<Longrightarrow> 0 < fst y \<Longrightarrow> 0 \<le> fst (f64_div x y)"
  by (cases x, cases y, cases "fst x = 0")
    (auto simp: f64_div_def Let_def intro!: f64_round_sign mult_nonneg_nonneg)

text \<open>The sticky bit adds at most one part in \<open>2 ^ 55\<close> before rounding.\<close>

lemma sticky_quotient:
  assumes "0 < a" "0 < b"
  defines "s \<equiv> bitlen b + 55"
  shows "(2 * (a * 2 ^ s div b) + (if a * 2 ^ s mod b = 0 then 0 else 1)) * b * 2 ^ 55 \<le> 2 * (a * 2 ^ s) * (2 ^ 55 + 1)"
proof -
  let ?n = "a * 2 ^ s"
  have "b * 2 ^ 55 \<le> 2 ^ bitlen b * 2 ^ 55" using bitlen_bounds [OF assms(2)] by simp
  also have "\<dots> = 2 ^ s" by (simp only: s_def power_add)
  also have "\<dots> \<le> ?n" using assms(1) by simp
  finally have small: "b * 2 ^ 55 \<le> ?n" .
  have "(2 * (?n div b) + (if ?n mod b = 0 then 0 else 1)) * b \<le> 2 * (?n div b * b) + b"
    by (simp add: distrib_right)
  also have "\<dots> \<le> 2 * ?n + b" using div_times_less_eq_dividend by simp
  finally have "(2 * (?n div b) + (if ?n mod b = 0 then 0 else 1)) * b * 2 ^ 55 \<le> (2 * ?n + b) * 2 ^ 55"
    by (rule mult_le_mono1)
  also have "\<dots> = 2 * ?n * 2 ^ 55 + b * 2 ^ 55" by (simp only: distrib_right)
  also have "\<dots> \<le> 2 * ?n * 2 ^ 55 + 2 * ?n" using small by simp
  finally show ?thesis by (simp only: distrib_left mult_1_right)
qed

lemma f64_div_tight:
  assumes "0 \<le> fst x" "0 < fst y"
  shows "f64_val (f64_div x y) * f64_val y * (2 ^ 52 * 2 ^ 55) \<le> f64_val x * ((2 ^ 52 + 1) * (2 ^ 55 + 1))"
proof -
  obtain m e n d where x: "x = (m, e)" and y: "y = (n, d)" by (cases x, cases y)
  show ?thesis
  proof (cases "m = 0")
    case True
    then have "fst (f64_div x y) = 0" by (simp only: x y f64_div_def f64_round_def Let_def prod.case fst_conv sgn_0 mult_zero_left)
    then have "f64_val (f64_div x y) = 0" by (cases "f64_div x y") (simp add: f64_val_def)
    moreover have "f64_val x = 0" by (simp add: x True f64_val_def)
    ultimately show ?thesis by (simp only: mult_zero_left order_refl)
  next
    case False
    with assms have p: "0 < m" "0 < n" by (simp_all add: x y)
    define a b where "a = nat m" and "b = nat n"
    have ab: "0 < a" "0 < b" "real_of_int m = real a" "real_of_int n = real b" using p by (simp_all add: a_def b_def)
    define s where "s = bitlen b + 55"
    define q where "q = 2 * (a * 2 ^ s div b) + (if a * 2 ^ s mod b = 0 then 0 else 1)"
    define l where "l = e - d - int s - 1"
    have dv: "f64_div x y = f64_round (int q, l)"
      using p by (simp add: f64_div_def x y Let_def a_def b_def s_def q_def l_def)
    have "q * b * 2 ^ 55 \<le> 2 * (a * 2 ^ s) * (2 ^ 55 + 1)"
      using sticky_quotient [OF ab(1,2)] unfolding q_def s_def .
    then have "real (q * b * 2 ^ 55) \<le> real (2 * (a * 2 ^ s) * (2 ^ 55 + 1))" by (rule of_nat_mono)
    then have "real q * real b * 2 ^ 55 \<le> 2 * (real a * 2 ^ s) * (2 ^ 55 + 1)"
      by (simp only: of_nat_mult of_nat_power of_nat_add of_nat_numeral of_nat_1)
    then have h: "real q * real b * 2 ^ 55 * 2 powi (l + d) \<le> 2 * (real a * 2 ^ s) * (2 ^ 55 + 1) * 2 powi (l + d)"
      by (rule mult_right_mono) simp
    have hx: "2 * (real a * 2 ^ s) * 2 powi (l + d) = f64_val x"
    proof -
      have "(2 :: real) powi (l + d) * (2 * 2 ^ s) = 2 powi (l + d + (1 + int s))"
        by (simp add: power_int_add)
      also have "l + d + (1 + int s) = e" by (simp add: l_def)
      finally show ?thesis by (simp add: f64_val_def x ab(3) mult_ac)
    qed
    have hy: "real q * real b * 2 powi (l + d) = f64_val (int q, l) * f64_val y"
      by (simp add: f64_val_def y ab(4) power_int_add mult_ac)
    have "f64_val (int q, l) * f64_val y * 2 ^ 55 = real q * real b * 2 ^ 55 * 2 powi (l + d)"
      unfolding hy [symmetric] by (simp only: mult_ac)
    also note h
    also have "2 * (real a * 2 ^ s) * (2 ^ 55 + 1) * 2 powi (l + d) = f64_val x * (2 ^ 55 + 1)"
      unfolding hx [symmetric] by (simp only: mult_ac)
    finally have v: "f64_val (int q, l) * f64_val y * 2 ^ 55 \<le> f64_val x * (2 ^ 55 + 1)" .
    have "f64_val (f64_div x y) * 2 ^ 52 \<le> f64_val (int q, l) * (2 ^ 52 + 1)"
      unfolding dv by (rule f64_round_tight) simp
    moreover have "0 \<le> f64_val y" using p by (simp add: f64_val_def y)
    ultimately have "f64_val (f64_div x y) * 2 ^ 52 * (f64_val y * 2 ^ 55) \<le>
      f64_val (int q, l) * (2 ^ 52 + 1) * (f64_val y * 2 ^ 55)"
      by (intro mult_right_mono) simp_all
    also have "\<dots> = f64_val (int q, l) * f64_val y * 2 ^ 55 * (2 ^ 52 + 1)" by (simp only: mult_ac)
    also have "\<dots> \<le> f64_val x * (2 ^ 55 + 1) * (2 ^ 52 + 1)" using v by (intro mult_right_mono) simp_all
    finally show ?thesis by (simp only: mult_ac)
  qed
qed

lemma f64_trunc_nonneg: "0 \<le> fst x \<Longrightarrow> 0 \<le> f64_trunc x"
  by (simp add: f64_trunc_floor f64_sign)

end
