(* ===== verification/FramePlan.thy ===== *)
theory FramePlan
  imports FloatLaws
begin

text \<open>
  \<^verbatim>\<open>internal/frames/plan.go\<close>: where the frames of a file are taken. A duration is a
  number of nanoseconds, the window's ends are doubles (finite ones: the model has no NaN), and the
  arithmetic is the code's, rounding included.
\<close>

section \<open>Plans and their points\<close>

record CapturePlan =
  pn_Count :: int
  pn_Start :: f64
  pn_End :: f64

datatype plan_error = CountTooSmall int | WindowOutside f64 f64 | WindowBackwards f64 f64 | BadDuration int

definition DefaultPlan :: CapturePlan where
  "DefaultPlan = \<lparr>pn_Count = 20, pn_Start = (7205759403792794, - 57), pn_End = (8556839292003942, - 53)\<rparr>"

text \<open>\<open>None\<close> is a plan that can produce points.\<close>

definition Plan_Validate :: "CapturePlan \<Rightarrow> plan_error option" where
  "Plan_Validate p =
     (if pn_Count p < 1 then Some (CountTooSmall (pn_Count p))
      else if f64_less (pn_Start p) (0, 0) \<or> f64_less (1, 0) (pn_End p)
      then Some (WindowOutside (pn_Start p) (pn_End p))
      else if f64_le (pn_End p) (pn_Start p) then Some (WindowBackwards (pn_Start p) (pn_End p))
      else None)"

definition Points :: "CapturePlan \<Rightarrow> int \<Rightarrow> (plan_error, int list) result" where
  "Points p duration =
     (case Plan_Validate p of
        Some e \<Rightarrow> Inl e
      | None \<Rightarrow>
          if duration \<le> 0 then Inl (BadDuration duration)
          else
            let first = f64_trunc (f64_mult (f64_of_int duration) (pn_Start p));
                final = f64_trunc (f64_mult (f64_of_int duration) (pn_End p))
            in if pn_Count p = 1 then Inr [first + (final - first) sdiv 2]
               else
                 let step = f64_div (f64_of_int (final - first)) (f64_of_int (pn_Count p - 1));
                     points = map (\<lambda>i. first + f64_trunc (f64_mult (f64_of_int (int i)) step)) [0..<nat (pn_Count p)]
                 in Inr (points[nat (pn_Count p) - 1 := final]))"

section \<open>Where the points fall\<close>

text \<open>A share of a duration: below the duration, and later ends give later points.\<close>

definition share :: "int \<Rightarrow> f64 \<Rightarrow> int" where
  "share d w = f64_trunc (f64_mult (f64_of_int d) w)"

lemma f64_of_int_val: "\<bar>n\<bar> < 2 ^ 53 \<Longrightarrow> f64_val (f64_of_int n) = of_int n \<and> fst (f64_of_int n) = n"
  by (simp add: f64_of_int_exact f64_val_def)

lemma share_mono:
  assumes "0 \<le> d" "d < 2 ^ 53" "0 \<le> f64_val v" "f64_val v \<le> f64_val w"
  shows "share d v \<le> share d w"
proof -
  have d: "f64_val (f64_of_int d) = of_int d" "fst (f64_of_int d) = d" using assms f64_of_int_val [of d] by auto
  have s: "0 \<le> fst v" "0 \<le> fst w" using assms f64_sign [of v] f64_sign [of w] by auto
  have "f64_val (f64_mult (f64_of_int d) v) \<le> f64_val (f64_mult (f64_of_int d) w)"
    using assms s d by (intro f64_mult_mono) (auto intro: mult_left_mono)
  then show ?thesis
    using s d assms(1) by (simp add: share_def f64_trunc_floor f64_mult_sign floor_mono)
qed

lemma f64_mult_one: "0 \<le> d \<Longrightarrow> d < 2 ^ 53 \<Longrightarrow> f64_mult (f64_of_int d) (1, 0) = f64_of_int d"
  by (simp add: f64_of_int_exact f64_mult_def) (simp flip: f64_of_int_def add: f64_of_int_exact)

lemma share_bounds:
  assumes "0 \<le> d" "d < 2 ^ 53" "0 \<le> f64_val w" "f64_val w \<le> 1"
  shows "0 \<le> share d w" "share d w \<le> d"
proof -
  have d: "f64_val (f64_of_int d) = of_int d" "fst (f64_of_int d) = d" using assms f64_of_int_val [of d] by auto
  have "share d (0, 0) \<le> share d w" using assms by (intro share_mono) (simp_all add: f64_one)
  moreover have "share d (0, 0) = 0"
    using assms by (simp add: share_def f64_of_int_exact f64_mult_def f64_round_def f64_trunc_def Let_def)
  ultimately show "0 \<le> share d w" by simp
  have "share d w \<le> share d (1, 0)" using assms by (intro share_mono) (simp_all add: f64_one)
  also have "share d (1, 0) = d"
    using assms by (simp add: share_def f64_mult_one f64_trunc_floor d)
  finally show "share d w \<le> d" .
qed

text \<open>The steps between the ends: they never go back, and the last but one stays below the end.\<close>

definition stride :: "int \<Rightarrow> int \<Rightarrow> f64" where
  "stride s n = f64_div (f64_of_int s) (f64_of_int n)"

lemma stride_sign: "0 \<le> s \<Longrightarrow> s < 2 ^ 53 \<Longrightarrow> 0 < n \<Longrightarrow> n < 2 ^ 53 \<Longrightarrow> 0 \<le> fst (stride s n)"
  unfolding stride_def by (rule f64_div_sign) (simp_all add: f64_of_int_exact)

lemma share_steps:
  assumes "0 \<le> i" "i \<le> j" "j < 2 ^ 53" "0 \<le> fst w"
  shows "share i w \<le> share j w" "0 \<le> share i w"
proof -
  have i: "f64_val (f64_of_int i) = of_int i" "fst (f64_of_int i) = i" using assms f64_of_int_val [of i] by auto
  have j: "f64_val (f64_of_int j) = of_int j" "fst (f64_of_int j) = j" using assms f64_of_int_val [of j] by auto
  have "0 \<le> f64_val w" using assms by (simp add: f64_sign)
  then have "f64_val (f64_mult (f64_of_int i) w) \<le> f64_val (f64_mult (f64_of_int j) w)"
    using assms i j by (intro f64_mult_mono) (auto intro: mult_right_mono)
  then show "share i w \<le> share j w"
    using assms i j by (simp add: share_def f64_trunc_floor f64_mult_sign floor_mono)
  have "0 \<le> fst (f64_mult (f64_of_int i) w)" using assms i by (intro f64_mult_sign) simp_all
  then show "0 \<le> share i w" by (simp add: share_def f64_trunc_floor f64_sign)
qed

lemma share_stride:
  assumes s: "0 \<le> s" "s < 2 ^ 53" and n: "0 < n" "n \<le> 2 ^ 50" and i: "0 \<le> i" "i < n"
  shows "share i (stride s n) \<le> s"
proof -
  let ?w = "stride s n" and ?x = "f64_of_int i"
  have sn: "0 \<le> fst ?w" using s n by (intro stride_sign) simp_all
  have v: "f64_val (f64_of_int s) = of_int s" "fst (f64_of_int s) = s"
    "f64_val (f64_of_int n) = of_int n" "fst (f64_of_int n) = n" "f64_val ?x = of_int i" "fst ?x = i"
    using s n i f64_of_int_val [of s] f64_of_int_val [of n] f64_of_int_val [of i] by auto
  let ?c = "(2 ^ 52 + 1) * (2 ^ 55 + 1) :: real"
  have "f64_val ?w * of_int n * (2 ^ 52 * 2 ^ 55) \<le> of_int s * ?c"
    using f64_div_tight [of "f64_of_int s" "f64_of_int n"] s n unfolding stride_def v by simp
  then have w: "of_int i * (f64_val ?w * of_int n * (2 ^ 52 * 2 ^ 55)) \<le> of_int i * (of_int s * ?c)"
    using i by (intro mult_left_mono) simp_all
  have "f64_val (f64_mult ?x ?w) * 2 ^ 52 \<le> of_int i * f64_val ?w * (2 ^ 52 + 1)"
    using f64_mult_tight [of ?x ?w] sn i unfolding v by simp
  then have "f64_val (f64_mult ?x ?w) * 2 ^ 52 * (of_int n * (2 ^ 52 * 2 ^ 55)) \<le>
    of_int i * f64_val ?w * (2 ^ 52 + 1) * (of_int n * (2 ^ 52 * 2 ^ 55))"
    using n by (intro mult_right_mono) simp_all
  also have "\<dots> = of_int i * (f64_val ?w * of_int n * (2 ^ 52 * 2 ^ 55)) * (2 ^ 52 + 1)" by (simp only: mult_ac)
  also have "\<dots> \<le> of_int i * (of_int s * ?c) * (2 ^ 52 + 1)" using w by (intro mult_right_mono) simp_all
  also have "\<dots> = of_int s * (of_int i * (?c * (2 ^ 52 + 1)))" by (simp only: mult_ac)
  also have "\<dots> \<le> of_int s * (of_int n * (2 ^ 52 * (2 ^ 52 * 2 ^ 55)))"
  proof (rule mult_left_mono)
    have "i * ((2 ^ 52 + 1) * (2 ^ 55 + 1) * (2 ^ 52 + 1)) \<le> n * (2 ^ 52 * (2 ^ 52 * 2 ^ 55))"
      using n i by simp
    then have "(of_int (i * ((2 ^ 52 + 1) * (2 ^ 55 + 1) * (2 ^ 52 + 1))) :: real) \<le>
      of_int (n * (2 ^ 52 * (2 ^ 52 * 2 ^ 55)))" by (rule of_int_le_iff [THEN iffD2])
    then show "of_int i * (?c * (2 ^ 52 + 1)) \<le> (of_int n * (2 ^ 52 * (2 ^ 52 * 2 ^ 55)) :: real)"
      by (simp only: of_int_mult of_int_add of_int_power of_int_numeral of_int_1)
  qed (use s in simp)
  finally have "f64_val (f64_mult ?x ?w) * (2 ^ 52 * (of_int n * (2 ^ 52 * 2 ^ 55))) \<le>
    of_int s * (2 ^ 52 * (of_int n * (2 ^ 52 * 2 ^ 55)))" by (simp only: mult_ac)
  then have "f64_val (f64_mult ?x ?w) \<le> of_int s"
    by (rule mult_right_le_imp_le) (use n in simp)
  moreover have "0 \<le> fst (f64_mult ?x ?w)" using sn i v by (intro f64_mult_sign) simp_all
  ultimately show ?thesis by (simp add: share_def f64_trunc_floor floor_le_iff)
qed

lemma valid_window:
  assumes "Plan_Validate p = None"
  shows "1 \<le> pn_Count p" "0 \<le> f64_val (pn_Start p)" "f64_val (pn_Start p) \<le> f64_val (pn_End p)"
    "f64_val (pn_End p) \<le> 1"
  using assms by (auto simp: Plan_Validate_def f64_less_val f64_le_val f64_one split: if_splits)

lemma Points_valid:
  assumes "Plan_Validate p = None" "0 < d"
  defines "a \<equiv> share d (pn_Start p)" and "b \<equiv> share d (pn_End p)" and "n \<equiv> nat (pn_Count p)"
  shows "Points p d = Inr (if n = 1 then [a + (b - a) sdiv 2]
    else map (\<lambda>i. a + share (int i) (stride (b - a) (int n - 1))) [0..<n - 1] @ [b])"
proof -
  from valid_window [OF assms(1)] have n: "pn_Count p = int n" "1 \<le> n" by (simp_all add: n_def)
  have "(map f [0..<n])[n - 1 := b] = map f [0..<n - 1] @ [b]" for f
  proof -
    from n obtain k where "n = Suc k" by (cases n) auto
    then show ?thesis by (simp add: list_update_append)
  qed
  with n assms(1,2) show ?thesis
    by (simp add: Points_def Let_def share_def stride_def a_def b_def)
qed

text \<open>C18: Planning succeeds exactly for a valid plan and a positive duration, and then it gives exactly the
planned number of capture points, in order, none outside the window and the window inside the file; a
single point is the middle of the window, several begin and end at its ends. The rounding of the
arithmetic, done as the code does it, never pushes a point past the window: this holds for any window,
up to \<open>2 ^ 50\<close> points and durations up to \<open>2 ^ 53\<close> nanoseconds, 104 days.\<close>

theorem points_planned:
  assumes "d < 2 ^ 53" "pn_Count p \<le> 2 ^ 50"
  defines "a \<equiv> share d (pn_Start p)" and "b \<equiv> share d (pn_End p)"
  shows "((\<exists>ps. Points p d = Inr ps) \<longleftrightarrow> Plan_Validate p = None \<and> 0 < d) \<and>
         (\<forall>ps. Points p d = Inr ps \<longrightarrow>
            int (length ps) = pn_Count p \<and> sorted ps \<and> (\<forall>x\<in>set ps. a \<le> x \<and> x \<le> b) \<and>
            0 \<le> a \<and> b \<le> d \<and>
            (if pn_Count p = 1 then ps = [a + (b - a) div 2] else hd ps = a \<and> last ps = b))"
proof -
  have ok: "(\<exists>ps. Points p d = Inr ps) \<longleftrightarrow> Plan_Validate p = None \<and> 0 < d"
    by (auto simp: Points_def Let_def split: option.split)
  have "int (length ps) = pn_Count p \<and> sorted ps \<and> (\<forall>x\<in>set ps. a \<le> x \<and> x \<le> b) \<and> 0 \<le> a \<and> b \<le> d \<and>
      (if pn_Count p = 1 then ps = [a + (b - a) div 2] else hd ps = a \<and> last ps = b)"
    if ps: "Points p d = Inr ps" for ps
  proof -
    from ps ok have v: "Plan_Validate p = None" and d: "0 < d" by blast+
    note w = valid_window [OF v]
    define n where "n = nat (pn_Count p)"
    have n: "pn_Count p = int n" "1 \<le> n" using w(1) by (simp_all add: n_def)
    have ends: "0 \<le> a" "a \<le> b" "b \<le> d"
      using share_bounds [of d "pn_Start p"] share_bounds [of d "pn_End p"] share_mono [of d "pn_Start p" "pn_End p"]
        w d assms(1) by (auto simp: a_def b_def)
    show ?thesis
    proof (cases "n = 1")
      case True
      then have e: "ps = [a + (b - a) div 2]"
        using ps Points_valid [OF v d] ends by (simp add: n_def a_def b_def sdiv_nonneg)
      have "0 \<le> (b - a) div 2" "(b - a) div 2 \<le> b - a" using ends by presburger+
      then show ?thesis using e n True ends by simp
    next
      case False
      let ?f = "\<lambda>i. a + share (int i) (stride (b - a) (int n - 1))"
      have e: "ps = map ?f [0..<n - 1] @ [b]"
        using ps Points_valid [OF v d] False by (simp add: n_def a_def b_def)
      have k: "0 < int n - 1" "int n - 1 \<le> 2 ^ 50" "int n - 1 < 2 ^ 53" "0 \<le> b - a" "b - a < 2 ^ 53"
        using False n assms(1,2) ends by simp_all
      note sg = stride_sign [OF k(4,5,1,3)]
      have up: "?f i \<le> ?f j" if "i \<le> j" "j < n - 1" for i j
        using share_steps(1) [OF _ _ _ sg, of "int i" "int j"] that k by simp
      have low: "a \<le> ?f i" if "i < n - 1" for i
        using share_steps(2) [OF _ _ _ sg, of "int i" "int i"] that k by simp
      have high: "?f i \<le> b" if "i < n - 1" for i
      proof -
        have "int i < int n - 1" using that by linarith
        then show ?thesis using share_stride [OF k(4,5,1,2), of "int i"] by simp
      qed
      have "sorted (map ?f [0..<n - 1])" using up by (auto simp: sorted_iff_nth_mono)
      then have "sorted ps" using high by (auto simp: e sorted_append)
      moreover have "hd ps = a"
      proof -
        have "[0..<n - 1] = 0 # [1..<n - 1]" using False n by (simp add: upt_conv_Cons)
        moreover have "share 0 w = 0" for w
          by (cases w) (simp add: share_def f64_of_int_def f64_mult_def f64_round_def f64_trunc_def Let_def)
        ultimately show ?thesis by (simp add: e)
      qed
      ultimately show ?thesis using e n False low high ends by auto
    qed
  qed
  with ok show ?thesis by blast
qed

lemma default_shares:
  "share (5400 * 10 ^ 9) (pn_Start DefaultPlan) = 270 * 10 ^ 9"
  "share (5400 * 10 ^ 9) (pn_End DefaultPlan) = 5130 * 10 ^ 9"
proof -
  have "bitlen 38911100780481087600000000000 = 95" "bitlen 46206932176821286800000000000 = 96"
    using bitlen_unique [of 94] bitlen_unique [of 95] by simp_all
  then show "share (5400 * 10 ^ 9) (pn_Start DefaultPlan) = 270 * 10 ^ 9"
    "share (5400 * 10 ^ 9) (pn_End DefaultPlan) = 5130 * 10 ^ 9"
    by (simp_all add: share_def DefaultPlan_def f64_of_int_exact f64_mult_def f64_round_def f64_trunc_def
        Let_def round_even_def)
qed

text \<open>The default plan over a film of an hour and a half.\<close>

lemma points_planned_witness:
  "\<exists>ps. Points DefaultPlan (5400 * 10 ^ 9) = Inr ps \<and> length ps = 20 \<and> sorted ps \<and>
     hd ps = 270 * 10 ^ 9 \<and> last ps = 5130 * 10 ^ 9"
proof -
  have v: "Plan_Validate DefaultPlan = None"
    unfolding Plan_Validate_def DefaultPlan_def f64_less_def f64_le_def by simp
  have "(5400 * 10 ^ 9 :: int) < 2 ^ 53" "pn_Count DefaultPlan \<le> 2 ^ 50" and c: "pn_Count DefaultPlan = 20"
    by (simp_all add: DefaultPlan_def)
  note p = points_planned [OF this(1,2), unfolded default_shares]
  from p v obtain ps where ps: "Points DefaultPlan (5400 * 10 ^ 9) = Inr ps" by fastforce
  with p c have "int (length ps) = 20" "sorted ps" "hd ps = 270 * 10 ^ 9" "last ps = 5130 * 10 ^ 9" by simp_all
  with ps show ?thesis by simp
qed

end
