(* ===== verification/Events.thy ===== *)
theory Events
  imports Availability Budget
begin

text \<open>
  \<^verbatim>\<open>internal/core/errors.go\<close> and the readings of \<^verbatim>\<open>internal/core/events.go\<close>: how an
  error is classified, the clock that says for how long a file has been stalled and why, the figures a
  progress event takes from the swarm, and the transfer rate between two readings.
\<close>

section \<open>Error codes\<close>

datatype ErrorCode =
    CodeNoMetadata | CodeNoPeers | CodePrivacyUnresolvable | CodeNoPortAvailable | CodeTorrentBusy
  | CodeNoVideo | CodeNoFileMatch | CodeUnprobeable | CodeReadStalled | CodeUnavailable
  | CodeDecodeFailed | CodeSeekFailed | CodeToolMissing | CodeBudgetExhausted | CodeTrafficRoof
  | CodeCancelled | CodeStorage | CodeInternal

text \<open>Why a container has no usable index, as \<^verbatim>\<open>internal/probe/probe.go\<close> says it.\<close>

datatype Reason = ReasonNoVideoStream | ReasonNoDuration | ReasonKeyframeTimestamp | ReasonKeyframePosition

text \<open>An error is what \<^verbatim>\<open>errors.Is\<close> and \<^verbatim>\<open>errors.As\<close> can find in it, outermost first:
the coded errors of this package, the sentinels of the others, the exit of a tool, and text.\<close>

datatype cause =
    Coded ErrorCode
  | BridgeStalled
  | ContextCanceled
  | ContextDeadline
  | SwarmNoMetadata
  | SwarmPrivacyUnresolvable
  | SwarmNoPortAvailable
  | SwarmTorrentBusy
  | SwarmNoFileMatch
  | ProbeNoIndex Reason
  | FfmpegNotFound
  | ToolExit
  | Plain string

type_synonym go_error = "cause list"

fun code_text :: "ErrorCode option \<Rightarrow> string" where
  "code_text None = []"
| "code_text (Some CodeNoMetadata) = ''no_metadata''"
| "code_text (Some CodeNoPeers) = ''no_peers''"
| "code_text (Some CodePrivacyUnresolvable) = ''privacy_unresolvable''"
| "code_text (Some CodeNoPortAvailable) = ''no_port_available''"
| "code_text (Some CodeTorrentBusy) = ''torrent_busy''"
| "code_text (Some CodeNoVideo) = ''no_video_files''"
| "code_text (Some CodeNoFileMatch) = ''no_file_match''"
| "code_text (Some CodeUnprobeable) = ''unprobeable''"
| "code_text (Some CodeReadStalled) = ''read_stalled''"
| "code_text (Some CodeUnavailable) = ''unavailable''"
| "code_text (Some CodeDecodeFailed) = ''decode_failed''"
| "code_text (Some CodeSeekFailed) = ''seek_failed''"
| "code_text (Some CodeToolMissing) = ''tool_missing''"
| "code_text (Some CodeBudgetExhausted) = ''budget_exhausted''"
| "code_text (Some CodeTrafficRoof) = ''traffic_roof''"
| "code_text (Some CodeCancelled) = ''cancelled''"
| "code_text (Some CodeStorage) = ''storage''"
| "code_text (Some CodeInternal) = ''internal''"

definition Fail :: "ErrorCode \<Rightarrow> go_error \<Rightarrow> go_error" where
  "Fail code err = Coded code # err"

fun first_code :: "go_error \<Rightarrow> ErrorCode option" where
  "first_code [] = None"
| "first_code (Coded c # cs) = Some c"
| "first_code (_ # cs) = first_code cs"

definition no_index :: "cause \<Rightarrow> bool" where
  "no_index c \<longleftrightarrow> (case c of ProbeNoIndex r \<Rightarrow> True | _ \<Rightarrow> False)"

text \<open>\<open>None\<close> is the nil error on the way in and the empty code on the way out.\<close>

definition CodeOf :: "go_error option \<Rightarrow> ErrorCode option" where
  "CodeOf err =
     (case err of
        None \<Rightarrow> None
      | Some cs \<Rightarrow>
          (case first_code cs of
             Some c \<Rightarrow> Some c
           | None \<Rightarrow>
               if BridgeStalled \<in> set cs then Some CodeReadStalled
               else if ContextCanceled \<in> set cs \<or> ContextDeadline \<in> set cs then Some CodeCancelled
               else if SwarmNoMetadata \<in> set cs then Some CodeNoMetadata
               else if SwarmPrivacyUnresolvable \<in> set cs then Some CodePrivacyUnresolvable
               else if SwarmNoPortAvailable \<in> set cs then Some CodeNoPortAvailable
               else if SwarmTorrentBusy \<in> set cs then Some CodeTorrentBusy
               else if SwarmNoFileMatch \<in> set cs then Some CodeNoFileMatch
               else if list_ex no_index cs then Some CodeUnprobeable
               else if FfmpegNotFound \<in> set cs then Some CodeToolMissing
               else if ToolExit \<in> set cs then Some CodeDecodeFailed
               else Some CodeInternal))"

section \<open>How long a file has been stalled\<close>

record Stall =
  st_Code :: ErrorCode
  st_Since :: int

text \<open>\<open>None\<close> is the empty code, and the zero time.\<close>

record stallClock =
  sc_code :: "ErrorCode option"
  sc_startAt :: "int option"

definition newStallClock :: stallClock where
  "newStallClock = \<lparr>sc_code = None, sc_startAt = None\<rparr>"

definition clock_reading :: "stallClock \<Rightarrow> int \<Rightarrow> Stall option" where
  "clock_reading c now =
     (case sc_code c of
        None \<Rightarrow> None
      | Some code \<Rightarrow>
          Some \<lparr>st_Code = code, st_Since = (case sc_startAt c of None \<Rightarrow> max_i64 | Some start \<Rightarrow> time_Sub now start)\<rparr>)"

definition stall_observe :: "stallClock \<Rightarrow> int \<Rightarrow> ErrorCode option \<Rightarrow> Stall option \<times> stallClock" where
  "stall_observe c now code =
     (case code of
        None \<Rightarrow> (None, c\<lparr>sc_code := None\<rparr>)
      | Some k \<Rightarrow>
          (let c = (if Some k \<noteq> sc_code c \<or> sc_startAt c = None
                    then c\<lparr>sc_code := Some k, sc_startAt := Some now\<rparr> else c)
           in (clock_reading c now, c)))"

definition stall_peek :: "stallClock \<Rightarrow> int \<Rightarrow> Stall option" where
  "stall_peek c now = (if sc_code c = None then None else clock_reading c now)"

section \<open>What the swarm holds\<close>

record SwarmAvailability =
  CopiesPerPiece :: f64
  sw_Unavailable :: int
  sw_NumPieces :: int

definition NumPieces :: "Availability \<Rightarrow> int" where
  "NumPieces a = int (length (counts a))"

definition newSwarmAvailability :: "Availability \<Rightarrow> SwarmAvailability option" where
  "newSwarmAvailability a =
     (if \<not> Known a then None
      else if NumPieces a = 0 then None
      else Some \<lparr>CopiesPerPiece =
                   f64_div (f64_of_int (foldl (\<lambda>sum piece. w64 (sum + At a piece)) 0 [0..NumPieces a - 1]))
                     (f64_of_int (NumPieces a)),
                 sw_Unavailable = Unavailable a, sw_NumPieces = NumPieces a\<rparr>)"

definition classifyPointFailure :: "ErrorCode \<Rightarrow> int \<Rightarrow> ErrorCode option" where
  "classifyPointFailure code peers =
     (if code \<noteq> CodeUnavailable \<and> code \<noteq> CodeReadStalled then None
      else if peers = 0 then Some CodeNoPeers
      else Some code)"

definition classifyLiveStall :: "int \<Rightarrow> SwarmAvailability option \<Rightarrow> ErrorCode option" where
  "classifyLiveStall peers swarm =
     (if peers = 0 then Some CodeNoPeers
      else case swarm of
        None \<Rightarrow> None
      | Some s \<Rightarrow>
          if 0 < sw_NumPieces s \<and> sw_NumPieces s \<le> sw_Unavailable s then Some CodeUnavailable else None)"

section \<open>Transfer rates\<close>

record rateSample =
  rs_known :: bool
  rs_bytes :: int
  rs_elapsed :: int

definition newRateSample :: rateSample where
  "newRateSample = \<lparr>rs_known = False, rs_bytes = 0, rs_elapsed = 0\<rparr>"

text \<open>\<^verbatim>\<open>time.Duration.Seconds\<close>: whole seconds and the rest, converted apart and added.\<close>

definition Seconds :: "int \<Rightarrow> f64" where
  "Seconds d = f64_add (f64_of_int (d sdiv 10 ^ 9)) (f64_div (f64_of_int (d smod 10 ^ 9)) (f64_of_int (10 ^ 9)))"

definition rate_next :: "rateSample \<Rightarrow> int \<Rightarrow> int \<Rightarrow> f64 option \<times> rateSample" where
  "rate_next r bytes elapsed =
     (let r' = \<lparr>rs_known = True, rs_bytes = bytes, rs_elapsed = elapsed\<rparr> in
      if \<not> rs_known r then (None, r')
      else let dt = w64 (elapsed - rs_elapsed r) in
        if dt \<le> 0 then (None, r')
        else let delta = w64 (bytes - rs_bytes r) in
          if delta < 0 then (None, r')
          else (Some (f64_div (f64_of_int delta) (Seconds dt)), r'))"

definition runSpeed_sample ::
  "rateSample \<times> rateSample \<Rightarrow> int \<Rightarrow> int \<Rightarrow> int \<Rightarrow> (f64 option \<times> f64 option) \<times> rateSample \<times> rateSample" where
  "runSpeed_sample s downloaded uploaded elapsed =
     (case rate_next (fst s) downloaded elapsed of (d, down) \<Rightarrow>
        case rate_next (snd s) uploaded elapsed of (u, up) \<Rightarrow> ((d, u), down, up))"

end
