(* ===== verification/Probe.thy ===== *)
theory Probe
  imports Events Manifests FloatLaws
begin

text \<open>
  \<^verbatim>\<open>internal/probe/probe.go\<close>: what ffprobe is asked of a published file and how its answers
  are read. Running ffprobe and decoding its JSON are not code of the repository: an answer is the record
  the JSON fills, or nothing if it does not parse, and the packets a query returns are an argument. Of
  \<^verbatim>\<open>strconv.ParseFloat\<close> the decimal forms ffprobe prints are modelled.
\<close>

section \<open>Numbers in ffprobe's answers\<close>

text \<open>An optional sign, digits, an optional fraction and an optional exponent, at least one digit before the
exponent; the value is the quotient rounded once.\<close>

definition decimal :: "string \<Rightarrow> string \<Rightarrow> (nat \<times> nat) option" where
  "decimal whole fraction =
     (if whole = [] \<and> fraction = [] then None
      else map_option (\<lambda>n. (n, length fraction)) (digits_val 0 (whole @ fraction)))"

definition ParseFloat :: "string \<Rightarrow> f64 option" where
  "ParseFloat s =
     (let (neg, body) = (case s of [] \<Rightarrow> (False, [])
                         | c # cs \<Rightarrow> if c = CHR ''-'' then (True, cs) else if c = CHR ''+'' then (False, cs) else (False, s));
          (mant, ex, has) = Cut (ToLower body) (CHR ''e'');
          (whole, fraction, dot) = Cut mant (CHR ''.'')
      in case (if has then ParseInt ex else Some 0) of
           None \<Rightarrow> None
         | Some k \<Rightarrow>
             (case decimal whole fraction of
                None \<Rightarrow> None
              | Some (n, d) \<Rightarrow>
                  let n = (if neg then - int n else int n); k = k - int d
                  in Some (if 0 \<le> k then f64_of_int (n * 10 ^ nat k) else f64_div (n, 0) (10 ^ nat (- k), 0))))"

definition parseSeconds :: "string \<Rightarrow> int \<times> bool" where
  "parseSeconds s =
     (case ParseFloat (TrimSpace s) of
        None \<Rightarrow> (0, False)
      | Some f \<Rightarrow>
          if f64_less f (0, 0) then (0, False)
          else (f64_trunc (f64_mult f (f64_of_int (10 ^ 9))), True))"

definition parseInt :: "string \<Rightarrow> int" where
  "parseInt s = (case ParseInt (TrimSpace s) of None \<Rightarrow> 0 | Some n \<Rightarrow> n)"

definition parseRational :: "string \<Rightarrow> f64" where
  "parseRational s =
     (case Cut (TrimSpace s) (CHR ''/'') of (num, den, ok) \<Rightarrow>
        if \<not> ok then (0, 0)
        else (case (ParseFloat num, ParseFloat den) of
          (Some n, Some d) \<Rightarrow> if fst d = 0 then (0, 0) else f64_div n d
        | _ \<Rightarrow> (0, 0)))"

section \<open>What is in a file\<close>

record RawStream =
  raw_Index :: int
  raw_CodecName :: string
  raw_CodecType :: string
  raw_Profile :: string
  raw_Width :: int
  raw_Height :: int
  raw_AvgFrameRate :: string
  raw_BitRate :: string
  raw_Channels :: int
  raw_ColorRange :: string
  raw_ColorSpace :: string
  raw_ColorTransfer :: string
  raw_ColorPrimaries :: string
  raw_SideData :: "(string \<times> int) list"
  raw_Default :: int
  raw_Forced :: int
  raw_Language :: string
  raw_Title :: string

record RawProbe =
  raw_FormatName :: string
  raw_Duration :: string
  raw_Size :: string
  raw_FormatBitRate :: string
  raw_Streams :: "RawStream list"

definition dolbyVisionSideData :: string where
  "dolbyVisionSideData = ''DOVI configuration record''"

definition EqualFold :: "string \<Rightarrow> string \<Rightarrow> bool" where
  "EqualFold s t \<longleftrightarrow> ToLower s = ToLower t"

fun dolby_profile :: "(string \<times> int) list \<Rightarrow> int" where
  "dolby_profile [] = 0"
| "dolby_profile ((type, profile) # rest) =
     (if EqualFold type dolbyVisionSideData then profile else dolby_profile rest)"

definition video_of :: "RawStream \<Rightarrow> VideoStream" where
  "video_of s =
     \<lparr>vs_Index = raw_Index s, vs_Codec = raw_CodecName s, vs_Profile = raw_Profile s, vs_Width = raw_Width s,
      vs_Height = raw_Height s, vs_FPS = parseRational (raw_AvgFrameRate s), vs_BitRate = parseInt (raw_BitRate s),
      vs_ColorTransfer = raw_ColorTransfer s, vs_ColorPrimaries = raw_ColorPrimaries s,
      vs_ColorSpace = raw_ColorSpace s, vs_ColorRange = raw_ColorRange s,
      vs_DolbyVisionProfile = dolby_profile (raw_SideData s)\<rparr>"

definition audio_of :: "RawStream \<Rightarrow> AudioStream" where
  "audio_of s =
     \<lparr>as_Index = raw_Index s, as_Codec = raw_CodecName s, as_Language = raw_Language s, as_Title = raw_Title s,
      as_Channels = raw_Channels s, as_BitRate = parseInt (raw_BitRate s), as_Default = (raw_Default s = 1)\<rparr>"

definition subtitle_of :: "RawStream \<Rightarrow> SubtitleStream" where
  "subtitle_of s =
     \<lparr>ss_Index = raw_Index s, ss_Codec = raw_CodecName s, ss_Language = raw_Language s, ss_Title = raw_Title s,
      ss_Forced = (raw_Forced s = 1), ss_Default = (raw_Default s = 1)\<rparr>"

text \<open>The first video stream counts, every audio and subtitle stream does.\<close>

definition inspect_stream :: "bool \<times> MediaInfo \<Rightarrow> RawStream \<Rightarrow> bool \<times> MediaInfo" where
  "inspect_stream acc s =
     (case acc of (haveVideo, info) \<Rightarrow>
        if raw_CodecType s = ''video'' then
          (if haveVideo then acc else (True, info\<lparr>mi_Video := video_of s\<rparr>))
        else if raw_CodecType s = ''audio'' then (haveVideo, info\<lparr>mi_Audio := mi_Audio info @ [audio_of s]\<rparr>)
        else if raw_CodecType s = ''subtitle'' then
          (haveVideo, info\<lparr>mi_Subtitles := mi_Subtitles info @ [subtitle_of s]\<rparr>)
        else acc)"

text \<open>The information is returned beside an error too.\<close>

definition parseInspect :: "RawProbe option \<Rightarrow> MediaInfo \<times> go_error option" where
  "parseInspect out =
     (case out of
        None \<Rightarrow> (no_media, Some [Plain ''parse ffprobe output''])
      | Some raw \<Rightarrow>
          (case foldl inspect_stream
             (False, \<lparr>mi_FormatName = raw_FormatName raw, mi_Duration = fst (parseSeconds (raw_Duration raw)),
                      mi_Size = parseInt (raw_Size raw), mi_BitRate = parseInt (raw_FormatBitRate raw),
                      mi_Video = no_video, mi_Audio = [], mi_Subtitles = []\<rparr>) (raw_Streams raw) of
             (haveVideo, info) \<Rightarrow>
               if \<not> haveVideo then (info, Some [ProbeNoIndex ReasonNoVideoStream])
               else if mi_Duration info \<le> 0 then (info, Some [ProbeNoIndex ReasonNoDuration])
               else (if vs_BitRate (mi_Video info) = 0
                     then info\<lparr>mi_Video := (mi_Video info)\<lparr>vs_BitRate := mi_BitRate info\<rparr>\<rparr> else info, None)))"

definition Inspect :: "(go_error, RawProbe option) result \<Rightarrow> MediaInfo \<times> go_error option" where
  "Inspect out = (case out of Inl e \<Rightarrow> (no_media, Some (Plain ''inspect'' # e)) | Inr raw \<Rightarrow> parseInspect raw)"

section \<open>Where the keyframes are\<close>

record packetRow =
  PTSTime :: string
  DTSTime :: string
  Pos :: string
  Flags :: string

record Keyframe =
  kf_PTS :: int
  kf_BytePos :: int

text \<open>A query of packets: eight near a moment, or the first so many.\<close>

datatype interval = NearEight int | FirstPackets int

definition packet_time :: "packetRow \<Rightarrow> int option" where
  "packet_time p =
     (case parseSeconds (PTSTime p) of (pts, ok) \<Rightarrow>
        if ok then Some pts
        else case parseSeconds (DTSTime p) of (dts, ok) \<Rightarrow> if ok then Some dts else None)"

fun first_keyframe :: "packetRow list \<Rightarrow> (go_error, Keyframe) result" where
  "first_keyframe [] = Inl [ProbeNoIndex ReasonKeyframePosition]"
| "first_keyframe (p # ps) =
     (if \<not> HasPrefix (Flags p) ''K'' \<or> parseInt (Pos p) < 0 then first_keyframe ps
      else case packet_time p of
        None \<Rightarrow> Inl [ProbeNoIndex ReasonKeyframeTimestamp]
      | Some t \<Rightarrow> Inr \<lparr>kf_PTS = t, kf_BytePos = parseInt (Pos p)\<rparr>)"

definition KeyframeAt ::
  "(interval \<Rightarrow> (go_error, packetRow list) result) \<Rightarrow> int \<Rightarrow> (go_error, Keyframe) result" where
  "KeyframeAt read moment =
     (let moment = (if moment < 0 then 0 else moment) in
      bind_result (read (NearEight moment)) first_keyframe)"

definition sequentialWindow :: int where "sequentialWindow = 200"
definition sequentialRetries :: nat where "sequentialRetries = 4"

text \<open>The usable keyframes among the packets, up to the count; whether the count was reached.\<close>

fun gather :: "int \<Rightarrow> Keyframe list \<Rightarrow> packetRow list \<Rightarrow> Keyframe list \<times> bool" where
  "gather want out [] = (out, False)"
| "gather want out (p # ps) =
     (if \<not> HasPrefix (Flags p) ''K'' \<or> parseInt (Pos p) < 0 then gather want out ps
      else case packet_time p of
        None \<Rightarrow> gather want out ps
      | Some t \<Rightarrow>
          let out = out @ [\<lparr>kf_PTS = t, kf_BytePos = parseInt (Pos p)\<rparr>]
          in if int (length out) = want then (out, True) else gather want out ps)"

text \<open>The number is how many wider reads are left.\<close>

fun sequential_attempts ::
  "(interval \<Rightarrow> (go_error, packetRow list) result) \<Rightarrow> int \<Rightarrow> int \<Rightarrow> nat \<Rightarrow> (go_error, Keyframe list) result" where
  "sequential_attempts read want window retries =
     (case read (FirstPackets window) of
        Inl e \<Rightarrow> Inl e
      | Inr packets \<Rightarrow>
          (case gather want [] packets of (out, full) \<Rightarrow>
             if full then Inr out
             else if int (length packets) < window \<or> retries = 0 then
               (if out = [] then Inl [ProbeNoIndex ReasonKeyframePosition] else Inr out)
             else (case retries of 0 \<Rightarrow> Inr out | Suc n \<Rightarrow> sequential_attempts read want (window * 4) n)))"

definition SequentialKeyframes ::
  "(interval \<Rightarrow> (go_error, packetRow list) result) \<Rightarrow> int \<Rightarrow> (go_error, Keyframe list) result" where
  "SequentialKeyframes read want =
     (let want = (if want < 1 then 1 else want)
      in sequential_attempts read want sequentialWindow sequentialRetries)"

declare sequential_attempts.simps [simp del]

section \<open>What the answers are good for\<close>

text \<open>A keyframe is never placed before the start, and a list of them is neither empty nor longer than
asked, so the last one the engine takes for the duration exists.\<close>

lemma parseSeconds_nonneg: "0 \<le> fst (parseSeconds s)"
proof (cases "ParseFloat (TrimSpace s)")
  case (Some f)
  show ?thesis
  proof (cases "f64_less f (0, 0)")
    case False
    then have "0 \<le> fst f" by (simp add: f64_less_val f64_one not_less f64_sign)
    then have "0 \<le> fst (f64_mult f (f64_of_int (10 ^ 9)))"
      by (intro f64_mult_sign) (simp_all add: f64_of_int_exact)
    then show ?thesis using False Some by (simp add: parseSeconds_def f64_trunc_nonneg)
  qed (simp add: parseSeconds_def Some)
qed (simp add: parseSeconds_def)

lemma packet_time_nonneg: "packet_time p = Some t \<Longrightarrow> 0 \<le> t"
  using parseSeconds_nonneg [of "PTSTime p"] parseSeconds_nonneg [of "DTSTime p"]
  by (auto simp: packet_time_def split: prod.splits if_splits)

lemma first_keyframe_nonneg: "first_keyframe ps = Inr k \<Longrightarrow> 0 \<le> kf_PTS k \<and> 0 \<le> kf_BytePos k"
  by (induction ps rule: first_keyframe.induct) (auto simp: packet_time_nonneg split: if_splits option.splits)

lemma KeyframeAt_nonneg: "KeyframeAt read t = Inr k \<Longrightarrow> 0 \<le> kf_PTS k \<and> 0 \<le> kf_BytePos k"
  unfolding KeyframeAt_def Let_def bind_result_Inr using first_keyframe_nonneg by blast

lemma gather_count:
  assumes "int (length out) < want"
  shows "int (length (fst (gather want out ps))) \<le> want"
    "snd (gather want out ps) \<longleftrightarrow> int (length (fst (gather want out ps))) = want"
    "(\<forall>k\<in>set out. 0 \<le> kf_PTS k) \<Longrightarrow> \<forall>k\<in>set (fst (gather want out ps)). 0 \<le> kf_PTS k"
  using assms
  by (induction want out ps rule: gather.induct)
    (auto simp: Let_def packet_time_nonneg split: option.splits if_splits)

lemma gather_some:
  assumes "gather want [] ps = (out, full)" "1 \<le> want"
  shows "int (length out) \<le> want" "full \<Longrightarrow> out \<noteq> []" "k \<in> set out \<Longrightarrow> 0 \<le> kf_PTS k"
  using gather_count [of "[]" want ps] assms by auto

lemma sequential_attempts_some:
  assumes "1 \<le> want"
  shows "sequential_attempts read want window n = Inr out \<Longrightarrow>
    out \<noteq> [] \<and> int (length out) \<le> want \<and> (\<forall>k\<in>set out. 0 \<le> kf_PTS k)"
proof (induction n arbitrary: window)
  case 0
  then show ?case
    using assms gather_some by (auto simp: sequential_attempts.simps [of _ _ _ 0] split: sum.splits prod.splits if_splits)
next
  case (Suc n)
  then show ?case
    using assms gather_some
    by (auto simp: sequential_attempts.simps [of _ _ _ "Suc n"] split: sum.splits prod.splits if_splits)
qed

lemma SequentialKeyframes_some:
  assumes "SequentialKeyframes read want = Inr out"
  shows "out \<noteq> []" "int (length out) \<le> max 1 want" "\<forall>k\<in>set out. 0 \<le> kf_PTS k"
  using sequential_attempts_some [of "max 1 want" read sequentialWindow sequentialRetries out] assms
  by (auto simp: SequentialKeyframes_def Let_def max_def split: if_splits)

end
