(* ===== verification/Decoding.thy ===== *)
theory Decoding
  imports Probe
begin

text \<open>
  \<^verbatim>\<open>internal/frames/hdr.go\<close> and \<^verbatim>\<open>extract.go\<close>: what is done about a stream's
  colour before it is decoded, and the attempts at decoding one frame. Running ffmpeg, and reading the size
  out of the image it printed, are not code of the repository: both are arguments.
\<close>

section \<open>Colour\<close>

type_synonym Format = string

definition JPEG :: Format where "JPEG = ''jpeg''"
definition PNG :: Format where "PNG = ''png''"

definition transferPQ :: string where "transferPQ = ''smpte2084''"
definition transferHLG :: string where "transferHLG = ''arib-std-b67''"

record ColorTags =
  ct_Transfer :: string
  ct_Primaries :: string
  ct_Matrix :: string
  ct_Range :: string
  ct_DolbyVisionProfile :: int

record ToneMap =
  tm_Source :: string
  tm_filter :: string

definition ToneMap_Applies :: "ToneMap \<Rightarrow> bool" where
  "ToneMap_Applies t \<longleftrightarrow> tm_filter t \<noteq> []"

definition outputFormatStep :: "Format \<Rightarrow> string" where
  "outputFormatStep format = (if format = PNG then ''format=gbrp16le'' else ''format=yuv420p'')"

definition ToneMap_Filter :: "ToneMap \<Rightarrow> Format \<Rightarrow> string" where
  "ToneMap_Filter t format = (if tm_filter t = [] then [] else tm_filter t @ '','' @ outputFormatStep format)"

definition dolbyVisionSource :: "int \<Rightarrow> string" where
  "dolbyVisionSource profile =
     (if profile = 4 then ''dolby-vision-p4'' else if profile = 5 then ''dolby-vision-p5'' else ''dolby-vision'')"

definition dolbyVisionICtCp :: "int \<Rightarrow> bool" where
  "dolbyVisionICtCp profile \<longleftrightarrow> profile = 4 \<or> profile = 5"

definition tagOr :: "string \<Rightarrow> string \<Rightarrow> string" where
  "tagOr s fallback =
     (let s = ToLower (TrimSpace s) in if s \<noteq> [] \<and> s \<noteq> ''unknown'' \<and> s \<noteq> ''unspecified'' then s else fallback)"

definition primariesOr :: "string \<Rightarrow> string" where "primariesOr s = tagOr s ''bt2020''"
definition matrixOr :: "string \<Rightarrow> string" where "matrixOr s = tagOr s ''bt2020nc''"

definition rangeOr :: "string \<Rightarrow> string" where
  "rangeOr s = (let s = ToLower (TrimSpace s) in if s = ''pc'' \<or> s = ''full'' then ''full'' else ''limited'')"

definition tone_chain :: "string \<Rightarrow> string \<Rightarrow> string \<Rightarrow> string \<Rightarrow> string" where
  "tone_chain transfer primaries matrix colorRange =
     Join [''zscale=tin='' @ transfer @ '':min='' @ matrix @ '':pin='' @ primaries @ '':rin='' @ colorRange @
             '':t=linear:npl='' @ Itoa 100,
           ''format=gbrpf32le'',
           ''zscale=p=bt709'',
           ''tonemap=tonemap=mobius:desat=0:peak='' @ Itoa 10,
           ''zscale=t=bt709:m=bt709:r=tv''] '',''"

definition ToneMapFor :: "ColorTags \<Rightarrow> ToneMap" where
  "ToneMapFor c =
     (let transfer = ToLower (TrimSpace (ct_Transfer c));
          p = ct_DolbyVisionProfile c;
          source = (if transfer = transferPQ then ''hdr10'' else ''hlg'')
      in if transfer \<noteq> transferPQ \<and> transfer \<noteq> transferHLG then
           (if dolbyVisionICtCp p then \<lparr>tm_Source = dolbyVisionSource p, tm_filter = []\<rparr>
            else \<lparr>tm_Source = [], tm_filter = []\<rparr>)
         else if dolbyVisionICtCp p then \<lparr>tm_Source = dolbyVisionSource p, tm_filter = []\<rparr>
         else \<lparr>tm_Source = source,
                tm_filter = tone_chain transfer (primariesOr (ct_Primaries c)) (matrixOr (ct_Matrix c)) (rangeOr (ct_Range c))\<rparr>)"

definition ToneMapOf :: "VideoStream \<Rightarrow> ToneMap" where
  "ToneMapOf v =
     ToneMapFor \<lparr>ct_Transfer = vs_ColorTransfer v, ct_Primaries = vs_ColorPrimaries v, ct_Matrix = vs_ColorSpace v,
                 ct_Range = vs_ColorRange v, ct_DolbyVisionProfile = vs_DolbyVisionProfile v\<rparr>"

definition toneMappedTo :: "ToneMap \<Rightarrow> string" where
  "toneMappedTo t = (if \<not> ToneMap_Applies t then [] else ''bt709'')"

section \<open>Decoding a frame\<close>

record Frame =
  frm_Data :: string
  frm_Width :: int
  frm_Height :: int
  frm_Requested :: int

record Extractor =
  ex_Format :: Format
  ex_Quality :: int
  ex_ProbeSize :: int
  ex_Retries :: nat
  ex_toneMap :: ToneMap

definition NewExtractor :: Extractor where
  "NewExtractor = \<lparr>ex_Format = JPEG, ex_Quality = 2, ex_ProbeSize = 5 * 2 ^ 20, ex_Retries = 2,
                   ex_toneMap = \<lparr>tm_Source = [], tm_filter = []\<rparr>\<rparr>"

definition WithToneMap :: "Extractor \<Rightarrow> ToneMap \<Rightarrow> Extractor" where
  "WithToneMap e t = e\<lparr>ex_toneMap := t\<rparr>"

text \<open>One ffmpeg run: where to seek to if anywhere, how much to probe, the filter if any, and the codec.\<close>

record decode_call =
  dc_Seek :: "int option"
  dc_ProbeSize :: int
  dc_Filter :: "string option"
  dc_Codec :: string

definition decode_args :: "Extractor \<Rightarrow> int \<Rightarrow> int \<Rightarrow> decode_call" where
  "decode_args e moment probeSize =
     (let vf = ToneMap_Filter (ex_toneMap e) (ex_Format e) in
      \<lparr>dc_Seek = (if 0 < moment then Some moment else None), dc_ProbeSize = probeSize,
       dc_Filter = (if vf \<noteq> [] then Some vf else None),
       dc_Codec = (if ex_Format e = PNG then ''png'' else ''mjpeg -q:v '' @ Itoa (ex_Quality e))\<rparr>)"

text \<open>Up to one attempt more than the retries, each probing twice as much; the context is asked after a
failed attempt, and what it answers may differ from one to the next.\<close>

fun frame_attempts ::
  "(decode_call \<Rightarrow> (go_error, string) result) \<Rightarrow> (string \<Rightarrow> (int \<times> int) option) \<Rightarrow> (nat \<Rightarrow> go_error option) \<Rightarrow>
   Extractor \<Rightarrow> int \<Rightarrow> int \<Rightarrow> nat \<Rightarrow> (go_error, Frame) result" where
  "frame_attempts ffmpeg config ctx e moment probeSize left =
     (let again = (\<lambda>err. case ctx left of
          Some c \<Rightarrow> Inl c
        | None \<Rightarrow>
            (case left of
               0 \<Rightarrow> Inl err
             | Suc n \<Rightarrow> frame_attempts ffmpeg config ctx e moment (w64 (probeSize * 2)) n))
      in case ffmpeg (decode_args e moment probeSize) of
           Inl err \<Rightarrow> again err
         | Inr data \<Rightarrow>
             if data = [] then again [Plain ''no frame decoded'']
             else (case config data of
               None \<Rightarrow> Inl [Plain ''not an image'']
             | Some (w, h) \<Rightarrow> Inr \<lparr>frm_Data = data, frm_Width = w, frm_Height = h, frm_Requested = moment\<rparr>))"

declare frame_attempts.simps [simp del]

definition Extractor_Frame ::
  "(decode_call \<Rightarrow> (go_error, string) result) \<Rightarrow> (string \<Rightarrow> (int \<times> int) option) \<Rightarrow> (nat \<Rightarrow> go_error option) \<Rightarrow>
   Extractor \<Rightarrow> int \<Rightarrow> (go_error, Frame) result" where
  "Extractor_Frame ffmpeg config ctx e moment =
     frame_attempts ffmpeg config ctx e (if moment < 0 then 0 else moment) (ex_ProbeSize e) (ex_Retries e)"

text \<open>What is decoded is never empty, and Dolby Vision in ICtCp is never tone mapped.\<close>

lemma frame_attempts_data:
  "frame_attempts ffmpeg config ctx e moment probeSize left = Inr f \<Longrightarrow>
     frm_Data f \<noteq> [] \<and> config (frm_Data f) = Some (frm_Width f, frm_Height f)"
proof (induction left arbitrary: probeSize)
  case 0
  then show ?case
    by (auto simp: frame_attempts.simps [of _ _ _ _ _ _ 0] Let_def split: sum.splits option.splits if_splits)
next
  case (Suc n)
  then show ?case
    by (auto simp: frame_attempts.simps [of _ _ _ _ _ _ "Suc n"] Let_def split: sum.splits option.splits if_splits)
qed

lemma Extractor_Frame_data: "Extractor_Frame ffmpeg config ctx e moment = Inr f \<Longrightarrow> frm_Data f \<noteq> []"
  using frame_attempts_data by (fastforce simp: Extractor_Frame_def)

lemma ictcp_never_mapped: "dolbyVisionICtCp (ct_DolbyVisionProfile c) \<Longrightarrow> \<not> ToneMap_Applies (ToneMapFor c)"
  by (simp add: ToneMapFor_def ToneMap_Applies_def Let_def)

end
