(* ===== verification/Capture.thy ===== *)
theory Capture
  imports Decoding FramePlan Cache
begin

text \<open>
  \<^verbatim>\<open>internal/core/engine.go\<close>, the work on one capture point: which moments are tried, which of
  them the swarm can serve, the keyframe and the frame taken, the step away from blank pictures, whether
  the seek landed, and which frames of an earlier run are kept. The prober, the extractor and the
  judgement of blankness are arguments; the first two are told which call of a point it is, so that the
  answers to one question may differ between calls.
\<close>

section \<open>Moments to try\<close>

definition minSeekTolerance :: int where "minSeekTolerance = 10 * 10 ^ 9"

definition seekTolerance :: "int list \<Rightarrow> int" where
  "seekTolerance points =
     (let spacing = (if 2 \<le> length points then w64 (points ! 1 - points ! 0) else 0)
      in if spacing < minSeekTolerance then minSeekTolerance else spacing)"

definition landedNear :: "int \<Rightarrow> int \<Rightarrow> int \<Rightarrow> bool" where
  "landedNear requested actual tolerance =
     (if w64 (requested + 10 ^ 9) < actual then False else w64 (requested - actual) \<le> tolerance)"

definition maxShift :: int where "maxShift = 2"

definition shiftCandidates :: "int \<Rightarrow> int \<Rightarrow> int \<Rightarrow> int list" where
  "shiftCandidates moment step duration =
     (if step \<le> 0 then [moment]
      else moment #
        concat (map (\<lambda>n. filter (\<lambda>c. 0 < c \<and> (duration \<le> 0 \<or> c < duration))
                          [w64 (moment + w64 (n * step)), w64 (moment - w64 (n * step))]) [1..maxShift]))"

definition reachStart :: int where "reachStart = 2"

definition reachable_point :: "Availability \<Rightarrow> Profile \<Rightarrow> FileInfo \<Rightarrow> int \<Rightarrow> int \<Rightarrow> bool" where
  "reachable_point avail profile f duration moment =
     (if \<not> Known avail \<or> duration \<le> 0 \<or> fi_Length f \<le> 0 then True
      else
        let sp = w64 (av_pieceLength avail * reachStart);
            sp = (if sp \<le> 0 then WindowSize profile 0 else sp);
            off = f64_trunc (f64_mult (f64_of_int (fi_Length f)) (f64_div (f64_of_int moment) (f64_of_int duration)))
        in 0 < OverFileRange avail f off sp)"

section \<open>Taking a frame\<close>

record capture =
  cp_frame :: Frame
  cp_asked :: int
  cp_actual :: int
  cp_shift :: Shift

type_synonym prober = "nat \<Rightarrow> int \<Rightarrow> (go_error, Keyframe) result"
type_synonym extractor = "nat \<Rightarrow> int \<Rightarrow> (go_error, Frame) result"

fun try_candidates ::
  "(int \<Rightarrow> bool) \<Rightarrow> prober \<Rightarrow> extractor \<Rightarrow> int \<Rightarrow> int list \<Rightarrow> (go_error, capture) result" where
  "try_candidates reach kf fr moment [] = Inl (Fail CodeUnavailable [Plain ''no peer holds the pieces''])"
| "try_candidates reach kf fr moment (c # cs) =
     (if \<not> reach c then try_candidates reach kf fr moment cs
      else (case kf 0 c of
        Inl e \<Rightarrow> Inl e
      | Inr k \<Rightarrow>
          (case fr 0 (kf_PTS k) of
             Inl e \<Rightarrow> Inl e
           | Inr frame \<Rightarrow>
               Inr \<lparr>cp_frame = frame, cp_asked = c, cp_actual = kf_PTS k,
                    cp_shift = (if c \<noteq> moment then ShiftUnavailable else ShiftNone)\<rparr>)))"

definition captureOne ::
  "Availability \<Rightarrow> Profile \<Rightarrow> FileInfo \<Rightarrow> prober \<Rightarrow> extractor \<Rightarrow> int \<Rightarrow> int \<Rightarrow> int \<Rightarrow> (go_error, capture) result" where
  "captureOne avail profile f kf fr duration moment step =
     try_candidates (reachable_point avail profile f duration) kf fr moment (shiftCandidates moment step duration)"

section \<open>Stepping away from a blank picture\<close>

definition maxBlankSteps :: nat where "maxBlankSteps = 2"

text \<open>\<open>blank\<close> is nothing where the picture does not decode; the list holds the attempts left.\<close>

fun blank_steps ::
  "prober \<Rightarrow> extractor \<Rightarrow> (string \<Rightarrow> bool option) \<Rightarrow> int \<Rightarrow> int \<Rightarrow> int \<Rightarrow> capture \<Rightarrow> nat list \<Rightarrow> capture" where
  "blank_steps kf fr blank asked step advance best [] = best"
| "blank_steps kf fr blank asked step advance best (a # as) =
     (case kf a (w64 (cp_actual best + advance)) of
        Inl e \<Rightarrow> best
      | Inr k \<Rightarrow>
          if kf_PTS k \<le> cp_actual best then blank_steps kf fr blank asked step (w64 (advance * 2)) best as
          else (case fr a (kf_PTS k) of
            Inl e \<Rightarrow> best
          | Inr frame \<Rightarrow>
              let best' = \<lparr>cp_frame = frame, cp_asked = asked, cp_actual = kf_PTS k, cp_shift = ShiftBlank\<rparr>
              in if blank (frm_Data frame) = Some True then blank_steps kf fr blank asked step step best' as
                 else best'))"

definition rejectBlank ::
  "prober \<Rightarrow> extractor \<Rightarrow> (string \<Rightarrow> bool option) \<Rightarrow> int \<Rightarrow> capture \<Rightarrow> capture" where
  "rejectBlank kf fr blank step shot =
     (if blank (frm_Data (cp_frame shot)) \<noteq> Some True then shot
      else
        let step = (if step \<le> 0 then minSeekTolerance sdiv 4 else step)
        in blank_steps kf fr blank (cp_asked shot) step step shot [1..<Suc maxBlankSteps])"

section \<open>Frames an earlier run took\<close>

definition Milliseconds :: "int \<Rightarrow> int" where
  "Milliseconds d = d sdiv 10 ^ 6"

definition reusable :: "(string \<Rightarrow> int option) \<Rightarrow> int list \<Rightarrow> ManifestFrame \<Rightarrow> bool" where
  "reusable stat points f \<longleftrightarrow>
     (if mf_Index f < 0 \<or> int (length points) \<le> mf_Index f then False
      else if mf_Shift f = ShiftFailed \<or> mf_ActualMS f = None \<or> mf_Path f = [] then False
      else if mf_RequestedMS f \<noteq> Milliseconds (points ! nat (mf_Index f)) then False
      else stat (mf_Path f) \<noteq> None \<and> stat (mf_Path f) \<noteq> Some 0)"

definition reusableFrames ::
  "(string \<Rightarrow> int option) \<Rightarrow> Manifest \<Rightarrow> int list \<Rightarrow> int \<Rightarrow> ManifestFrame option" where
  "reusableFrames stat prior points =
     foldl (\<lambda>out f. if reusable stat points f then out(mf_Index f \<mapsto> f) else out) Map.empty (m_Frames prior)"

section \<open>Where a taken frame comes from\<close>

lemma try_candidates_from:
  "try_candidates reach kf fr moment cs = Inr c \<Longrightarrow>
     cp_asked c \<in> set cs \<and> reach (cp_asked c) \<and> (cp_shift c = ShiftNone \<longleftrightarrow> cp_asked c = moment) \<and>
     cp_shift c \<in> {ShiftNone, ShiftUnavailable} \<and>
     (\<exists>k. kf 0 (cp_asked c) = Inr k \<and> kf_PTS k = cp_actual c \<and> fr 0 (cp_actual c) = Inr (cp_frame c))"
  by (induction cs) (auto split: if_splits sum.splits)

lemma try_candidates_first:
  "try_candidates reach kf fr moment cs = Inr c \<Longrightarrow> \<exists>as bs. cs = as @ cp_asked c # bs \<and> (\<forall>a\<in>set as. \<not> reach a)"
proof (induction cs)
  case (Cons a cs)
  show ?case
  proof (cases "reach a")
    case True
    with Cons.prems have "cp_asked c = a" by (auto split: sum.splits)
    then show ?thesis by (intro exI [of _ "[]"] exI [of _ cs]) simp
  next
    case False
    with Cons obtain as bs where "cs = as @ cp_asked c # bs" "\<forall>a\<in>set as. \<not> reach a" by auto
    with False show ?thesis by (intro exI [of _ "a # as"] exI [of _ bs]) simp
  qed
qed simp

lemma shiftCandidates_bounds:
  assumes "c \<in> set (shiftCandidates moment step duration)"
    and "0 \<le> moment" "0 \<le> step" "moment + 2 * step \<le> max_i64"
  shows "\<bar>c - moment\<bar> \<le> 2 * step" "c \<noteq> moment \<Longrightarrow> 0 < c \<and> (0 < duration \<longrightarrow> c < duration)"
proof -
  have i: "w64 x = x" if "- max_i64 \<le> x" "x \<le> max_i64" for x
    using that by (intro w64_id) (simp_all add: min_i64_def max_i64_def)
  have w: "w64 step = step" "w64 (2 * step) = 2 * step" "w64 (moment + step) = moment + step"
    "w64 (moment - step) = moment - step" "w64 (moment + 2 * step) = moment + 2 * step"
    "w64 (moment - 2 * step) = moment - 2 * step"
    using assms(2-4) by (intro i; linarith)+
  have s: "[1..maxShift] = [1, 2]" by (simp add: maxShift_def upto.simps)
  from assms(1) have "c = moment \<or> (0 < c \<and> (duration \<le> 0 \<or> c < duration) \<and>
      c \<in> {moment + step, moment - step, moment + 2 * step, moment - 2 * step})"
    by (auto simp: shiftCandidates_def s w split: if_splits)
  then show "\<bar>c - moment\<bar> \<le> 2 * step" "c \<noteq> moment \<Longrightarrow> 0 < c \<and> (0 < duration \<longrightarrow> c < duration)"
    using assms(3) by auto
qed

text \<open>A step away from a blank picture keeps what was asked and goes forward, onto a keyframe.\<close>

definition stepped :: "prober \<Rightarrow> extractor \<Rightarrow> int \<Rightarrow> int \<Rightarrow> capture \<Rightarrow> bool" where
  "stepped kf fr asked a0 c \<longleftrightarrow>
     cp_asked c = asked \<and> cp_shift c = ShiftBlank \<and> a0 < cp_actual c \<and>
     (\<exists>n m k. kf n m = Inr k \<and> kf_PTS k = cp_actual c \<and> fr n (cp_actual c) = Inr (cp_frame c))"

lemma blank_steps_from:
  assumes "a0 \<le> cp_actual best"
  shows "blank_steps kf fr blank asked step advance best as = best \<or>
    stepped kf fr asked a0 (blank_steps kf fr blank asked step advance best as)"
  using assms
proof (induction as arbitrary: advance best)
  case (Cons a as)
  show ?case
  proof (cases "kf a (w64 (cp_actual best + advance))")
    case k: (Inr k)
    show ?thesis
    proof (cases "kf_PTS k \<le> cp_actual best")
      case True
      then show ?thesis using Cons k by simp
    next
      case later: False
      show ?thesis
      proof (cases "fr a (kf_PTS k)")
        case f: (Inr frame)
        let ?b = "\<lparr>cp_frame = frame, cp_asked = asked, cp_actual = kf_PTS k, cp_shift = ShiftBlank\<rparr>"
        have "a0 < kf_PTS k" using Cons.prems later by simp
        with k f have one: "stepped kf fr asked a0 ?b" unfolding stepped_def by auto
        have "blank_steps kf fr blank asked step step ?b as = ?b \<or>
          stepped kf fr asked a0 (blank_steps kf fr blank asked step step ?b as)"
          using Cons.IH [of ?b step] Cons.prems later by simp
        with one have "stepped kf fr asked a0 (blank_steps kf fr blank asked step step ?b as)" by auto
        with one show ?thesis using k later f by (simp add: Let_def)
      qed (use k later in simp)
    qed
  qed simp
qed simp

lemma rejectBlank_from:
  "rejectBlank kf fr blank step shot = shot \<or>
     (blank (frm_Data (cp_frame shot)) = Some True \<and>
      stepped kf fr (cp_asked shot) (cp_actual shot) (rejectBlank kf fr blank step shot))"
  using blank_steps_from [OF order_refl, of kf fr blank "cp_asked shot" _ _ shot]
  by (auto simp: rejectBlank_def Let_def)

lemma reusableFrames_some:
  assumes "reusableFrames stat prior points i = Some f"
  shows "f \<in> set (m_Frames prior)" "reusable stat points f" "mf_Index f = i" "0 \<le> i" "i < int (length points)"
proof -
  have "\<forall>i f. foldl (\<lambda>out f. if reusable stat points f then out(mf_Index f \<mapsto> f) else out) m fs i = Some f \<longrightarrow>
      m i = Some f \<or> (f \<in> set fs \<and> reusable stat points f \<and> mf_Index f = i)" for m fs
  proof (induction fs arbitrary: m)
    case (Cons g gs)
    show ?case using Cons [of "if reusable stat points g then m(mf_Index g \<mapsto> g) else m"]
      by (auto split: if_splits)
  qed simp
  from this [of Map.empty "m_Frames prior"] assms
  show *: "f \<in> set (m_Frames prior)" "reusable stat points f" "mf_Index f = i" by (auto simp: reusableFrames_def)
  from *(2,3) show "0 \<le> i" "i < int (length points)" by (auto simp: reusable_def split: if_splits)
qed

end
