(* ===== verification/FileRun.thy ===== *)
theory FileRun
  imports Capture Claims
begin

text \<open>
  \<^verbatim>\<open>internal/core/engine.go\<close>, the work on one file of a run, \<^verbatim>\<open>processFile\<close>: the
  file is inspected and its points planned, each point is reused from an earlier run or taken, and what
  came of it is written down. The swarm, the meters, the clock, ffprobe and ffmpeg, and what other files
  of the run do meanwhile are arguments, one \<open>PointWorld\<close> for each point. The heartbeat of the
  file publishes at the moments a world lists.
\<close>

section \<open>The configuration of a run\<close>

record EngineConfig =
  ec_Source :: string
  ec_OutputRoot :: string
  ec_CacheCeiling :: int
  ec_Plan :: CapturePlan
  ec_Profile :: Profile
  ec_Budget :: Budget
  ec_Roof :: Roof
  ec_Sequential :: bool
  ec_Parallelism :: int
  ec_Format :: Format
  ec_Files :: "string list"

section \<open>Events\<close>

record Metadata =
  me_Name :: string
  me_InfoHash :: string
  me_Private :: bool
  me_Videos :: "FileInfo list"
  me_Files :: "FileInfo list option"
  me_Selected :: "int list"
  me_BlindDHT :: bool

record FrameReady =
  fy_File :: int
  fy_Index :: int
  fy_Requested :: int
  fy_Actual :: int
  fy_Shift :: Shift
  fy_Path :: string
  fy_Width :: int
  fy_Height :: int

record FrameSkipped =
  fk_File :: int
  fk_Index :: int
  fk_Requested :: int
  fk_Code :: string

record Progress =
  pg_File :: int
  pg_FramesDone :: int
  pg_FramesTotal :: int
  pg_DownloadedByte :: int
  pg_UploadedByte :: int
  pg_Elapsed :: int
  pg_Peers :: int
  pg_Seeds :: int
  pg_DownloadRate :: "f64 option"
  pg_UploadRate :: "f64 option"
  pg_Swarm :: "SwarmAvailability option"
  pg_Stall :: "Stall option"

record Finished =
  do_Reason :: StopReason
  do_Files :: int
  do_Frames :: int
  do_DownloadedByte :: int
  do_Elapsed :: int
  do_ClaimedByte :: int
  do_ClaimedPieces :: nat
  do_ClaimedRanges :: "PieceRange list"
  do_TorrentPath :: string
  do_Warnings :: "string list"

datatype Event =
    E_Metadata Metadata
  | E_FileStarted int string MediaInfo "int list"
  | E_FrameReady FrameReady
  | E_FrameSkipped FrameSkipped
  | E_Progress Progress
  | E_BudgetWarning BudgetWarning
  | E_FileDone int string int int string string
  | E_Done Finished
  | E_Failed int string go_error

section \<open>Whether to stop\<close>

datatype ctx_state = CtxLive | CtxCanceled | CtxDeadline

definition haltReason :: "ctx_state \<Rightarrow> BudgetTracker \<Rightarrow> Reading \<Rightarrow> StopReason \<times> bool" where
  "haltReason ctx t r =
     (case ctx of
        CtxDeadline \<Rightarrow> (StopTime, True)
      | CtxCanceled \<Rightarrow> (StopCancelled, True)
      | CtxLive \<Rightarrow> (case Exhausted t r of (ex, reason) \<Rightarrow> if ex then (reason, True) else (StopCompleted, False)))"

text \<open>The stall a publication has met since a count of them was taken, if any.\<close>

definition stallSince :: "nat \<times> go_error option \<Rightarrow> nat \<Rightarrow> go_error option" where
  "stallSince st before = (if fst st \<le> before \<or> snd st = None then None else snd st)"

section \<open>The file's state\<close>

record FileState =
  fs_torrent :: TorrentState
  fs_clock :: stallClock
  fs_events :: "Event list"
  fs_records :: "ManifestFrame list"
  fs_produced :: int
  fs_skipped :: int

definition publish :: "Event \<Rightarrow> FileState \<Rightarrow> FileState" where
  "publish ev s = s\<lparr>fs_events := fs_events s @ [ev]\<rparr>"

definition record_frame :: "ManifestFrame \<Rightarrow> FileState \<Rightarrow> FileState" where
  "record_frame f s = s\<lparr>fs_records := fs_records s @ [f]\<rparr>"

definition on_torrent :: "(TorrentState \<Rightarrow> TorrentState) \<Rightarrow> FileState \<Rightarrow> FileState" where
  "on_torrent g s = s\<lparr>fs_torrent := g (fs_torrent s)\<rparr>"

text \<open>What is read off the meters for one progress event; the two rates come from a sample the run's files
share, as the last of them left it.\<close>

record Gauge =
  g_now :: int
  g_tracker :: BudgetTracker
  g_reading :: Reading
  g_uploaded :: int
  g_connected :: int
  g_seeds :: int
  g_avail :: Availability
  g_speed :: "rateSample \<times> rateSample"

definition progress :: "int \<Rightarrow> int \<Rightarrow> int \<Rightarrow> Gauge \<Rightarrow> Stall option \<Rightarrow> Event" where
  "progress fl made all g stall =
     (case Spent (g_tracker g) (g_reading g) of (spent, elapsed) \<Rightarrow>
        case fst (runSpeed_sample (g_speed g) spent (g_uploaded g) elapsed) of (down, up) \<Rightarrow>
          E_Progress \<lparr>pg_File = fl, pg_FramesDone = made, pg_FramesTotal = all, pg_DownloadedByte = spent,
            pg_UploadedByte = g_uploaded g, pg_Elapsed = elapsed, pg_Peers = g_connected g, pg_Seeds = g_seeds g,
            pg_DownloadRate = down, pg_UploadRate = up, pg_Swarm = newSwarmAvailability (g_avail g),
            pg_Stall = stall\<rparr>)"

definition observe :: "Gauge \<Rightarrow> ErrorCode option \<Rightarrow> FileState \<Rightarrow> Stall option \<times> FileState" where
  "observe g code s =
     (case stall_observe (fs_clock s) (g_now g) code of (stall, clock) \<Rightarrow> (stall, s\<lparr>fs_clock := clock\<rparr>))"

text \<open>One tick of the heartbeat.\<close>

definition heartbeat :: "int \<Rightarrow> FileState \<Rightarrow> Gauge \<Rightarrow> FileState" where
  "heartbeat fl s g =
     (case classifyLiveStall (g_connected g) (newSwarmAvailability (g_avail g)) of
        Some code \<Rightarrow> (case observe g (Some code) s of (stall, s) \<Rightarrow> publish (progress fl 0 0 g stall) s)
      | None \<Rightarrow> publish (progress fl 0 0 g (stall_peek (fs_clock s) (g_now g))) s)"

section \<open>One point\<close>

record PointWorld =
  pw_ctx :: ctx_state
  pw_tracker :: BudgetTracker
  pw_reading :: Reading
  pw_stalls :: nat
  pw_avail :: Availability
  pw_read :: "nat \<Rightarrow> interval \<Rightarrow> (go_error, packetRow list) result"
  pw_ffmpeg :: "nat \<Rightarrow> decode_call \<Rightarrow> (go_error, string) result"
  pw_frame_ctx :: "nat \<Rightarrow> nat \<Rightarrow> go_error option"
  pw_other :: "claim_event list"
  pw_traffic :: "claim_event list"
  pw_beats :: "Gauge list"
  pw_stalls_after :: "nat \<times> go_error option"
  pw_write :: "(go_error, string) result"
  pw_gauge :: Gauge

record FileEnv =
  en_cfg :: EngineConfig
  en_file :: FileInfo
  en_image :: "string \<Rightarrow> (int \<times> int) option"
  en_blank :: "string \<Rightarrow> bool option"
  en_world :: "nat \<Rightarrow> PointWorld"

datatype point_outcome = GoOn | HaltHere | StorageFailed go_error

definition kf_of :: "PointWorld \<Rightarrow> prober" where
  "kf_of w n moment = KeyframeAt (pw_read w n) moment"

definition fr_of :: "FileEnv \<Rightarrow> Extractor \<Rightarrow> PointWorld \<Rightarrow> extractor" where
  "fr_of en ex w n moment = Extractor_Frame (pw_ffmpeg w n) (en_image en) (pw_frame_ctx w n) ex moment"

definition reuse_point :: "FileEnv \<Rightarrow> int \<Rightarrow> nat \<Rightarrow> ManifestFrame \<Rightarrow> FileState \<Rightarrow> FileState" where
  "reuse_point en moment i earlier s =
     (let s = record_frame earlier (s\<lparr>fs_produced := fs_produced s + 1\<rparr>);
          actual = (case mf_ActualMS earlier of None \<Rightarrow> 0 | Some ms \<Rightarrow> w64 (ms * 10 ^ 6))
      in publish (E_FrameReady \<lparr>fy_File = fi_Index (en_file en), fy_Index = int i, fy_Requested = moment,
           fy_Actual = actual, fy_Shift = mf_Shift earlier, fy_Path = mf_Path earlier,
           fy_Width = mf_Width earlier, fy_Height = mf_Height earlier\<rparr>) s)"

definition failed_frame :: "nat \<Rightarrow> int \<Rightarrow> ErrorCode option \<Rightarrow> ManifestFrame" where
  "failed_frame i moment code =
     no_frame\<lparr>mf_Index := int i, mf_RequestedMS := Milliseconds moment, mf_Shift := ShiftFailed, mf_Error := code_text code\<rparr>"

definition skip_event :: "FileEnv \<Rightarrow> nat \<Rightarrow> int \<Rightarrow> ErrorCode option \<Rightarrow> Event" where
  "skip_event en i moment code =
     E_FrameSkipped \<lparr>fk_File = fi_Index (en_file en), fk_Index = int i, fk_Requested = moment, fk_Code = code_text code\<rparr>"

text \<open>The point produced nothing; why is asked of the bridge first.\<close>

definition skip_point ::
  "FileEnv \<Rightarrow> int \<Rightarrow> int \<Rightarrow> nat \<Rightarrow> PointWorld \<Rightarrow> go_error \<Rightarrow> FileState \<Rightarrow> FileState" where
  "skip_point en all moment i w err s =
     (let fl = fi_Index (en_file en);
          s = on_torrent (\<lambda>t. snd (EndClaimLog fl t)) s;
          err = (case stallSince (pw_stalls_after w) (pw_stalls w) of None \<Rightarrow> err | Some stall \<Rightarrow> stall);
          code = CodeOf (Some err);
          s = s\<lparr>fs_skipped := fs_skipped s + 1\<rparr>;
          s = publish (skip_event en i moment code) (record_frame (failed_frame i moment code) s);
          g = pw_gauge w;
          why = (case code of None \<Rightarrow> None | Some c \<Rightarrow> classifyPointFailure c (g_connected g))
      in case observe g why s of (stall, s) \<Rightarrow> publish (progress fl (fs_produced s) all g stall) s)"

definition miss_point :: "FileEnv \<Rightarrow> int \<Rightarrow> nat \<Rightarrow> PointWorld \<Rightarrow> FileState \<Rightarrow> FileState" where
  "miss_point en moment i w s =
     (let s = on_torrent (\<lambda>t. snd (EndClaimLog (fi_Index (en_file en)) t)) s;
          s = s\<lparr>fs_skipped := fs_skipped s + 1\<rparr>;
          s = publish (skip_event en i moment (Some CodeSeekFailed))
                (record_frame (failed_frame i moment (Some CodeSeekFailed)) s)
      in snd (observe (pw_gauge w) None s))"

definition keep_point ::
  "FileEnv \<Rightarrow> int \<Rightarrow> int \<Rightarrow> nat \<Rightarrow> PointWorld \<Rightarrow> capture \<Rightarrow> FileState \<Rightarrow> FileState \<times> point_outcome" where
  "keep_point en all moment i w shot s =
     (let fl = fi_Index (en_file en) in
      case EndClaimLog fl (fs_torrent s) of (byteRanges, t) \<Rightarrow>
        let s = s\<lparr>fs_torrent := t\<rparr> in
        (case pw_write w of
          Inl err \<Rightarrow> (s, StorageFailed (Fail CodeStorage err))
        | Inr path \<Rightarrow>
            let s = s\<lparr>fs_produced := fs_produced s + 1\<rparr>;
                s = record_frame \<lparr>mf_Index = int i, mf_RequestedMS = Milliseconds moment,
                      mf_ActualMS = Some (Milliseconds (cp_actual shot)), mf_Path = path, mf_Shift = cp_shift shot,
                      mf_Width = frm_Width (cp_frame shot), mf_Height = frm_Height (cp_frame shot),
                      mf_Error = [], mf_ByteRanges = byteRanges\<rparr> s;
                s = publish (E_FrameReady \<lparr>fy_File = fl, fy_Index = int i, fy_Requested = moment,
                      fy_Actual = cp_actual shot, fy_Shift = cp_shift shot, fy_Path = path,
                      fy_Width = frm_Width (cp_frame shot), fy_Height = frm_Height (cp_frame shot)\<rparr>) s
            in case observe (pw_gauge w) None s of (stall, s) \<Rightarrow>
                 (publish (progress fl (fs_produced s) all (pw_gauge w) stall) s, GoOn)))"

text \<open>A point that is not reused: the run may have to stop, a ceiling may have come near, the point is
captured with its claims logged, and what was captured is kept if the seek landed.\<close>

definition new_point ::
  "FileEnv \<Rightarrow> Extractor \<Rightarrow> int \<Rightarrow> int list \<Rightarrow> nat \<Rightarrow> FileState \<Rightarrow> FileState \<times> point_outcome" where
  "new_point en ex duration points i s =
     (let w = en_world en i; moment = points ! i; fl = fi_Index (en_file en); tolerance = seekTolerance points;
          all = int (length points); step = tolerance sdiv 4; kf = kf_of w; fr = fr_of en ex w in
      if snd (haltReason (pw_ctx w) (pw_tracker w) (pw_reading w)) then (s, HaltHere)
      else
        let s = (case fst (Warning (pw_tracker w) (pw_reading w)) of None \<Rightarrow> s | Some x \<Rightarrow> publish (E_BudgetWarning x) s);
            s = on_torrent (\<lambda>t. claim_run (StartClaimLog fl t) (pw_traffic w)) s;
            s = foldl (heartbeat fl) s (pw_beats w)
        in case captureOne (pw_avail w) (ec_Profile (en_cfg en)) (en_file en) kf fr duration moment step of
             Inl err \<Rightarrow> (skip_point en all moment i w err s, GoOn)
           | Inr shot \<Rightarrow>
               if \<not> landedNear (cp_asked shot) (cp_actual shot) tolerance then (miss_point en moment i w s, GoOn)
               else keep_point en all moment i w (rejectBlank kf fr (en_blank en) step shot) s)"

section \<open>The points of a file\<close>

fun take_points ::
  "FileEnv \<Rightarrow> Extractor \<Rightarrow> int \<Rightarrow> int list \<Rightarrow> (int \<Rightarrow> ManifestFrame option) \<Rightarrow> nat list \<Rightarrow> FileState \<Rightarrow>
   FileState \<times> go_error option" where
  "take_points en ex duration points done [] s = (s, None)"
| "take_points en ex duration points done (i # is) s =
     (let s = on_torrent (\<lambda>t. claim_run t (pw_other (en_world en i))) s in
      case done (int i) of
        Some earlier \<Rightarrow>
          take_points en ex duration points done is (reuse_point en (points ! i) i earlier s)
      | None \<Rightarrow>
          (case new_point en ex duration points i s of
             (s, GoOn) \<Rightarrow> take_points en ex duration points done is s
           | (s, HaltHere) \<Rightarrow> (s, None)
           | (s, StorageFailed err) \<Rightarrow> (s, Some err)))"

end
