(* ===== verification/FileProcess.thy ===== *)
theory FileProcess
  imports FileRun
begin

text \<open>
  \<^verbatim>\<open>internal/core/engine.go\<close>: one file of a run from its publication to its manifest. The
  answers of the bridge, of ffprobe before any point is planned, and of the file system at the end are
  arguments, as are the facts of the torrent a manifest repeats.
\<close>

section \<open>Which points\<close>

record InspectWorld =
  iw_publish :: "go_error option"
  iw_beats :: "Gauge list"
  iw_stalls :: nat
  iw_inspect :: "(go_error, RawProbe option) result"
  iw_stalls_after :: "nat \<times> go_error option"
  iw_read :: "interval \<Rightarrow> (go_error, packetRow list) result"

fun first_reason :: "go_error \<Rightarrow> Reason option" where
  "first_reason [] = None"
| "first_reason (ProbeNoIndex r # cs) = Some r"
| "first_reason (_ # cs) = first_reason cs"

text \<open>The description of the file, its points, and whether they were read in sequence.\<close>

definition plan_points :: "EngineConfig \<Rightarrow> InspectWorld \<Rightarrow> (go_error, MediaInfo \<times> int list \<times> bool) result" where
  "plan_points cfg w =
     (case Inspect (iw_inspect w) of (info, err) \<Rightarrow>
        (case err of
           Some e \<Rightarrow>
             (case stallSince (iw_stalls_after w) (iw_stalls w) of
                Some stall \<Rightarrow> Inl (Plain ''inspect'' # stall)
              | None \<Rightarrow>
                  if \<not> ec_Sequential cfg \<or> first_reason e \<noteq> Some ReasonNoDuration then Inl e
                  else (case SequentialKeyframes (iw_read w) (pn_Count (ec_Plan cfg)) of
                          Inl _ \<Rightarrow> Inl e
                        | Inr keyframes \<Rightarrow>
                            let points = map kf_PTS keyframes
                            in Inr (info\<lparr>mi_Duration := last points\<rparr>, points, True)))
         | None \<Rightarrow>
             (case Points (ec_Plan cfg) (mi_Duration info) of
                Inl e \<Rightarrow> Inl [Plain ''plan'']
              | Inr points \<Rightarrow> Inr (info, points, False))))"

section \<open>The manifest\<close>

definition availabilityBuckets :: int where "availabilityBuckets = 64"

record FinalWorld =
  fw_other :: "claim_event list"
  fw_gauge :: Gauge
  fw_InfoHash :: string
  fw_Name :: string
  fw_Private :: bool
  fw_manifest :: "Manifest \<Rightarrow> (go_error, string) result"
  fw_sheet :: "int list \<Rightarrow> ManifestFrame list \<Rightarrow> (go_error, string) result"

fun stop_text :: "StopReason \<Rightarrow> string" where
  "stop_text StopCompleted = ''completed''"
| "stop_text StopBudget = ''budget''"
| "stop_text StopTime = ''time''"
| "stop_text StopRoof = ''traffic_roof''"
| "stop_text StopCancelled = ''cancelled''"

definition manifest_audio :: "AudioStream \<Rightarrow> ManifestAudio" where
  "manifest_audio a =
     \<lparr>ma_Index = as_Index a, ma_Language = as_Language a, ma_Codec = as_Codec a, ma_Channels = as_Channels a,
      ma_Title = as_Title a, ma_Default = as_Default a\<rparr>"

definition manifest_subtitle :: "SubtitleStream \<Rightarrow> ManifestSubtitle" where
  "manifest_subtitle u =
     \<lparr>ms_Index = ss_Index u, ms_Language = ss_Language u, ms_Format = ss_Codec u, ms_Title = ss_Title u,
      ms_Forced = ss_Forced u, ms_Default = ss_Default u\<rparr>"

definition writeManifest ::
  "FileEnv \<Rightarrow> FinalWorld \<Rightarrow> TorrentState \<Rightarrow> ToneMap \<Rightarrow> MediaInfo \<Rightarrow> ManifestFrame list \<Rightarrow> bool \<Rightarrow> Manifest" where
  "writeManifest en w t tone info records sequential =
     (let f = en_file en; g = fw_gauge w; v = mi_Video info in
      case Spent (g_tracker g) (g_reading g) of (spent, elapsed) \<Rightarrow>
      case Limits (g_tracker g) of (limitBytes, limitTime) \<Rightarrow>
      case Exhausted (g_tracker g) (g_reading g) of (exhausted, reason) \<Rightarrow>
        \<lparr>m_Torrent = \<lparr>mt_InfoHash = fw_InfoHash w, mt_Name = fw_Name w, mt_PieceLength = pieceLength t,
           mt_Private = fw_Private w, mt_Peers = g_connected g, mt_Seeds = g_seeds g,
           mt_Availability = Coarse (g_avail g) f availabilityBuckets\<rparr>,
         m_File = \<lparr>mfl_Index = fi_Index f, mfl_Path = fi_Path f, mfl_Bytes = fi_Length f,
           mfl_DurationMS = Milliseconds (mi_Duration info), mfl_Container = mi_FormatName info\<rparr>,
         m_Video = \<lparr>mv_Codec = vs_Codec v, mv_Profile = vs_Profile v, mv_Width = vs_Width v, mv_Height = vs_Height v,
           mv_FPS = vs_FPS v, mv_BitRate = vs_BitRate v, mv_BitsPerPixel = BitsPerPixel v,
           mv_DynamicRange = tm_Source tone, mv_ToneMappedTo = toneMappedTo tone,
           mv_ColorTransfer = vs_ColorTransfer v, mv_ColorPrimaries = vs_ColorPrimaries v,
           mv_ColorSpace = vs_ColorSpace v, mv_DolbyVisionProfile = vs_DolbyVisionProfile v\<rparr>,
         m_Audio = map manifest_audio (mi_Audio info), m_Subtitles = map manifest_subtitle (mi_Subtitles info),
         m_Frames = records,
         m_Cost = \<lparr>DownloadedBytes = spent, ElapsedMS = Milliseconds elapsed, Cost_LimitBytes = limitBytes,
           LimitMS = Milliseconds limitTime, LimitHit = (if exhausted then stop_text reason else []),
           Cost_Sequential = sequential\<rparr>\<rparr>)"

section \<open>The file\<close>

text \<open>What a file comes to: how many frames, whether it is complete, the error it ended with if any, the
manifest if it was written.\<close>

record FileResult =
  fo_produced :: int
  fo_complete :: bool
  fo_err :: "go_error option"
  fo_manifest :: "Manifest option"

definition file_failed :: "int \<Rightarrow> go_error \<Rightarrow> FileResult" where
  "file_failed n err = \<lparr>fo_produced = n, fo_complete = False, fo_err = Some err, fo_manifest = None\<rparr>"

definition finish_file ::
  "FileEnv \<Rightarrow> FinalWorld \<Rightarrow> ToneMap \<Rightarrow> MediaInfo \<Rightarrow> int list \<Rightarrow> bool \<Rightarrow> FileState \<Rightarrow> FileResult \<times> FileState" where
  "finish_file en w tone info points sequential s =
     (let s = on_torrent (\<lambda>t. claim_run t (fw_other w)) s;
          m = writeManifest en w (fs_torrent s) tone info (fs_records s) sequential
      in case fw_manifest w m of
           Inl err \<Rightarrow> (file_failed (fs_produced s) (Fail CodeStorage err), s)
         | Inr manifestPath \<Rightarrow>
             (case fw_sheet w points (fs_records s) of
                Inl err \<Rightarrow> (file_failed (fs_produced s) (Fail CodeStorage err)\<lparr>fo_manifest := Some m\<rparr>, s)
              | Inr sheetPath \<Rightarrow>
                  (\<lparr>fo_produced = fs_produced s, fo_complete = (fs_produced s = int (length points)),
                    fo_err = None, fo_manifest = Some m\<rparr>,
                   publish (E_FileDone (fi_Index (en_file en)) (fi_Path (en_file en)) (fs_produced s) (fs_skipped s)
                     manifestPath sheetPath) s)))"

definition new_file_state :: "TorrentState \<Rightarrow> FileState" where
  "new_file_state t =
     \<lparr>fs_torrent = t, fs_clock = newStallClock, fs_events = [], fs_records = [], fs_produced = 0, fs_skipped = 0\<rparr>"

text \<open>\<open>prior\<close> is what \<^verbatim>\<open>LoadManifest\<close> answers for the file.\<close>

definition processFile ::
  "FileEnv \<Rightarrow> (string \<Rightarrow> int option) \<Rightarrow> Manifest option \<Rightarrow> Extractor \<Rightarrow> InspectWorld \<Rightarrow> FinalWorld \<Rightarrow> TorrentState \<Rightarrow>
   FileResult \<times> FileState" where
  "processFile en stat prior ex iw fw t =
     (let s = new_file_state t; fl = fi_Index (en_file en) in
      case iw_publish iw of
        Some err \<Rightarrow> (file_failed 0 err, s)
      | None \<Rightarrow>
          let s = foldl (heartbeat fl) s (iw_beats iw) in
          (case plan_points (en_cfg en) iw of
            Inl err \<Rightarrow> (file_failed 0 err, s)
          | Inr (info, points, sequential) \<Rightarrow>
              let tone = ToneMapOf (mi_Video info);
                  s = publish (E_FileStarted fl (fi_Path (en_file en)) info points) s;
                  done = reusableFrames stat (case prior of None \<Rightarrow> no_manifest | Some m \<Rightarrow> m) points
              in (case take_points en (WithToneMap ex tone) (mi_Duration info) points done [0..<length points] s of
                   (s, Some err) \<Rightarrow> (file_failed (fs_produced s) err, s)
                 | (s, None) \<Rightarrow> finish_file en fw tone info points sequential s)))"

end
