(* ===== verification/FileLaws.thy ===== *)
theory FileLaws
  imports FileProcess
begin

text \<open>
  What \<^verbatim>\<open>processFile\<close> promises: one record for each point it got to, in order, the counts and
  events that go with them, and for each frame it took where it was taken and which bytes it cost.
\<close>

section \<open>What the steps change\<close>

fun ready_index :: "Event \<Rightarrow> int list" where
  "ready_index (E_FrameReady r) = [fy_Index r]"
| "ready_index _ = []"

fun skipped_index :: "Event \<Rightarrow> int list" where
  "skipped_index (E_FrameSkipped r) = [fk_Index r]"
| "skipped_index _ = []"

definition readies :: "FileState \<Rightarrow> int list" where
  "readies s = concat (map ready_index (fs_events s))"

definition skips :: "FileState \<Rightarrow> int list" where
  "skips s = concat (map skipped_index (fs_events s))"

text \<open>What a file has to show, apart from the clock and the other events.\<close>

definition shown :: "FileState \<Rightarrow> TorrentState \<times> ManifestFrame list \<times> int \<times> int \<times> int list \<times> int list" where
  "shown s = (fs_torrent s, fs_records s, fs_produced s, fs_skipped s, readies s, skips s)"

lemma shown_iff:
  "shown s = (t, rs, p, k, a, b) \<longleftrightarrow>
     fs_torrent s = t \<and> fs_records s = rs \<and> fs_produced s = p \<and> fs_skipped s = k \<and> readies s = a \<and> skips s = b"
  by (auto simp: shown_def)

lemma publish_fields [simp]:
  "fs_torrent (publish ev s) = fs_torrent s" "fs_records (publish ev s) = fs_records s"
  "fs_produced (publish ev s) = fs_produced s" "fs_skipped (publish ev s) = fs_skipped s"
  "readies (publish ev s) = readies s @ ready_index ev" "skips (publish ev s) = skips s @ skipped_index ev"
  by (simp_all add: publish_def readies_def skips_def)

lemma on_torrent_fields [simp]:
  "fs_torrent (on_torrent h s) = h (fs_torrent s)" "fs_records (on_torrent h s) = fs_records s"
  "fs_produced (on_torrent h s) = fs_produced s" "fs_skipped (on_torrent h s) = fs_skipped s"
  "readies (on_torrent h s) = readies s" "skips (on_torrent h s) = skips s"
  by (simp_all add: on_torrent_def readies_def skips_def)

lemma record_frame_fields [simp]:
  "fs_torrent (record_frame f s) = fs_torrent s" "fs_records (record_frame f s) = fs_records s @ [f]"
  "fs_produced (record_frame f s) = fs_produced s" "fs_skipped (record_frame f s) = fs_skipped s"
  "readies (record_frame f s) = readies s" "skips (record_frame f s) = skips s"
  by (simp_all add: record_frame_def readies_def skips_def)

lemma counted_fields [simp]:
  "readies (s\<lparr>fs_produced := n\<rparr>) = readies s" "skips (s\<lparr>fs_produced := n\<rparr>) = skips s"
  "readies (s\<lparr>fs_skipped := n\<rparr>) = readies s" "skips (s\<lparr>fs_skipped := n\<rparr>) = skips s"
  "readies (s\<lparr>fs_torrent := u\<rparr>) = readies s" "skips (s\<lparr>fs_torrent := u\<rparr>) = skips s"
  by (simp_all add: readies_def skips_def)

lemma progress_shows [simp]: "ready_index (progress fl n all g st) = []" "skipped_index (progress fl n all g st) = []"
  by (simp_all add: progress_def split: prod.split)

lemma skip_event_shows [simp]:
  "ready_index (skip_event en i moment code) = []" "skipped_index (skip_event en i moment code) = [int i]"
  by (simp_all add: skip_event_def)

lemma observe_shown: "shown (snd (observe g code s)) = shown s"
  by (simp add: observe_def shown_def readies_def skips_def split: prod.split)

lemma observe_then: "shown (case observe g code s of (stall, u) \<Rightarrow> publish (progress fl (n u) all g stall) u) = shown s"
proof -
  obtain st u where o: "observe g code s = (st, u)" by (cases "observe g code s")
  then have "shown u = shown s" using observe_shown [of g code s] by simp
  with o show ?thesis by (simp add: shown_def)
qed

lemma heartbeat_shown: "shown (heartbeat fl s g) = shown s"
  by (simp add: heartbeat_def observe_then split: option.split) (simp add: shown_def)

lemma heartbeats_shown: "shown (foldl (heartbeat fl) s gs) = shown s"
  by (induction gs arbitrary: s) (simp_all add: heartbeat_shown)

section \<open>What one point adds\<close>

definition halted :: "FileEnv \<Rightarrow> nat \<Rightarrow> bool" where
  "halted en i \<longleftrightarrow> (let w = en_world en i in snd (haltReason (pw_ctx w) (pw_tracker w) (pw_reading w)))"

text \<open>The torrent once the point's own traffic has gone by, its log still open.\<close>

definition point_torrent :: "FileEnv \<Rightarrow> nat \<Rightarrow> TorrentState \<Rightarrow> TorrentState" where
  "point_torrent en i t = claim_run (StartClaimLog (fi_Index (en_file en)) t) (pw_traffic (en_world en i))"

text \<open>A frame that was taken: the capture it shows, and the claims that were its own.\<close>

definition taken ::
  "FileEnv \<Rightarrow> Extractor \<Rightarrow> int \<Rightarrow> int list \<Rightarrow> nat \<Rightarrow> TorrentState \<Rightarrow> ManifestFrame \<Rightarrow> bool" where
  "taken en ex duration points i t f \<longleftrightarrow>
     (let w = en_world en i; tolerance = seekTolerance points; step = tolerance sdiv 4;
          kf = kf_of w; fr = fr_of en ex w in
      \<exists>shot c path.
        captureOne (pw_avail w) (ec_Profile (en_cfg en)) (en_file en) kf fr duration (points ! i) step = Inr shot \<and>
        landedNear (cp_asked shot) (cp_actual shot) tolerance \<and> c = rejectBlank kf fr (en_blank en) step shot \<and>
        pw_write w = Inr path \<and>
        f = \<lparr>mf_Index = int i, mf_RequestedMS = Milliseconds (points ! i),
             mf_ActualMS = Some (Milliseconds (cp_actual c)), mf_Path = path, mf_Shift = cp_shift c,
             mf_Width = frm_Width (cp_frame c), mf_Height = frm_Height (cp_frame c), mf_Error = [],
             mf_ByteRanges = fst (EndClaimLog (fi_Index (en_file en)) (point_torrent en i t))\<rparr>)"

lemma claims_layout: "same_layout t (claim_run (StartClaimLog fl t) evs)"
  using same_layout_trans [OF claim_step_layout [of t "EStart fl"] claim_run_layout] by simp

lemma end_log_layout: "same_layout t u \<Longrightarrow> same_layout t (snd (EndClaimLog fl u))"
  using same_layout_trans [OF _ claim_step_layout [of u "EEnd fl"]] by simp

lemma skip_point_shown:
  "\<exists>code. shown (skip_point en all moment i w err s) =
     (snd (EndClaimLog (fi_Index (en_file en)) (fs_torrent s)), fs_records s @ [failed_frame i moment code],
      fs_produced s, fs_skipped s + 1, readies s, skips s @ [int i])"
  unfolding skip_point_def Let_def observe_then by (simp add: shown_def) blast

lemma miss_point_shown:
  "shown (miss_point en moment i w s) =
     (snd (EndClaimLog (fi_Index (en_file en)) (fs_torrent s)),
      fs_records s @ [failed_frame i moment (Some CodeSeekFailed)],
      fs_produced s, fs_skipped s + 1, readies s, skips s @ [int i])"
  unfolding miss_point_def Let_def observe_shown by (simp add: shown_def)

lemma keep_point_shown:
  assumes "keep_point en all moment i w c s = (s', oc)"
  defines "fl \<equiv> fi_Index (en_file en)"
  shows "case pw_write w of
      Inl err \<Rightarrow> oc = StorageFailed (Fail CodeStorage err) \<and>
        shown s' = (snd (EndClaimLog fl (fs_torrent s)), fs_records s, fs_produced s, fs_skipped s, readies s, skips s)
    | Inr path \<Rightarrow> oc = GoOn \<and>
        shown s' = (snd (EndClaimLog fl (fs_torrent s)),
          fs_records s @ [\<lparr>mf_Index = int i, mf_RequestedMS = Milliseconds moment,
             mf_ActualMS = Some (Milliseconds (cp_actual c)), mf_Path = path, mf_Shift = cp_shift c,
             mf_Width = frm_Width (cp_frame c), mf_Height = frm_Height (cp_frame c), mf_Error = [],
             mf_ByteRanges = fst (EndClaimLog fl (fs_torrent s))\<rparr>],
          fs_produced s + 1, fs_skipped s, readies s @ [int i], skips s)"
proof (cases "pw_write w")
  case (Inl err)
  then show ?thesis
    using assms(1) by (auto simp: keep_point_def Let_def shown_def fl_def split: prod.splits)
next
  case (Inr path)
  let ?g = "pw_gauge w"
  have st: "shown s' = shown u \<and> oc = GoOn"
    if "(case observe ?g None u of (stall, u') \<Rightarrow> (publish (progress fl (fs_produced u') all ?g stall) u', GoOn)) = (s', oc)" for u
  proof -
    from that have "s' = (case observe ?g None u of (stall, u') \<Rightarrow> publish (progress fl (fs_produced u') all ?g stall) u')"
      and "oc = GoOn" by (auto split: prod.splits)
    then show ?thesis by (simp add: observe_then)
  qed
  obtain rs u where e: "EndClaimLog fl (fs_torrent s) = (rs, u)" by (cases "EndClaimLog fl (fs_torrent s)")
  from assms(1) have "shown s' = shown (publish (E_FrameReady \<lparr>fy_File = fl, fy_Index = int i, fy_Requested = moment,
        fy_Actual = cp_actual c, fy_Shift = cp_shift c, fy_Path = path, fy_Width = frm_Width (cp_frame c),
        fy_Height = frm_Height (cp_frame c)\<rparr>)
      (record_frame \<lparr>mf_Index = int i, mf_RequestedMS = Milliseconds moment,
             mf_ActualMS = Some (Milliseconds (cp_actual c)), mf_Path = path, mf_Shift = cp_shift c,
             mf_Width = frm_Width (cp_frame c), mf_Height = frm_Height (cp_frame c), mf_Error = [],
             mf_ByteRanges = rs\<rparr> (s\<lparr>fs_torrent := u, fs_produced := fs_produced s + 1\<rparr>))) \<and> oc = GoOn"
    unfolding keep_point_def Let_def fl_def [symmetric] e Inr sum.case prod.case by (intro st) simp
  then show ?thesis by (simp add: Inr e shown_def)
qed

text \<open>What a point that was worked on adds: one record, counted and published as what it is.\<close>

definition adds :: "nat \<Rightarrow> ManifestFrame \<Rightarrow> FileState \<Rightarrow> FileState \<Rightarrow> bool" where
  "adds i f s s' \<longleftrightarrow>
     fs_records s' = fs_records s @ [f] \<and> mf_Index f = int i \<and>
     (if mf_Shift f = ShiftFailed
      then fs_produced s' = fs_produced s \<and> fs_skipped s' = fs_skipped s + 1 \<and>
           readies s' = readies s \<and> skips s' = skips s @ [int i]
      else fs_produced s' = fs_produced s + 1 \<and> fs_skipped s' = fs_skipped s \<and>
           readies s' = readies s @ [int i] \<and> skips s' = skips s)"

definition new_record ::
  "FileEnv \<Rightarrow> Extractor \<Rightarrow> int \<Rightarrow> int list \<Rightarrow> nat \<Rightarrow> TorrentState \<Rightarrow> ManifestFrame \<Rightarrow> bool" where
  "new_record en ex duration points i t f \<longleftrightarrow>
     (\<exists>code. f = failed_frame i (points ! i) code) \<or> taken en ex duration points i t f"

lemma captured_shift:
  assumes "captureOne avail profile f kf fr duration moment step = Inr shot"
  shows "cp_shift (rejectBlank kf fr blank stp shot) \<noteq> ShiftFailed"
  using try_candidates_from [OF assms [unfolded captureOne_def]] rejectBlank_from [of kf fr blank stp shot]
  by (auto simp: stepped_def)

lemma taken_fields:
  assumes "taken en ex duration points i t f"
  shows "mf_Shift f \<noteq> ShiftFailed" "mf_Index f = int i" "mf_RequestedMS f = Milliseconds (points ! i)"
    "mf_ActualMS f \<noteq> None" "pw_write (en_world en i) = Inr (mf_Path f)"
  using assms captured_shift unfolding taken_def Let_def by fastforce+

lemma new_point_adds:
  assumes "new_point en ex duration points i s = (s', oc)"
  shows "(oc = HaltHere \<and> s' = s \<and> halted en i) \<or>
    (\<not> halted en i \<and> same_layout (fs_torrent s) (fs_torrent s') \<and>
      ((\<exists>err. oc = StorageFailed (Fail CodeStorage err) \<and> pw_write (en_world en i) = Inl err \<and>
          snd (shown s') = snd (shown s)) \<or>
       (oc = GoOn \<and> (\<exists>f. adds i f s s' \<and> new_record en ex duration points i (fs_torrent s) f))))"
proof (cases "halted en i")
  case True
  then show ?thesis using assms by (simp add: new_point_def halted_def Let_def)
next
  case False
  let ?w = "en_world en i" and ?fl = "fi_Index (en_file en)" and ?t = "point_torrent en i (fs_torrent s)"
  let ?tol = "seekTolerance points" and ?fr = "fr_of en ex (en_world en i)" and ?kf = "kf_of (en_world en i)"
  let ?all = "int (length points)"
  define u where "u = foldl (heartbeat ?fl) (on_torrent (\<lambda>t. claim_run (StartClaimLog ?fl t) (pw_traffic ?w))
    (case fst (Warning (pw_tracker ?w) (pw_reading ?w)) of None \<Rightarrow> s | Some x \<Rightarrow> publish (E_BudgetWarning x) s)) (pw_beats ?w)"
  have u: "shown u = (?t, snd (shown s))"
    unfolding u_def heartbeats_shown by (simp add: shown_def point_torrent_def split: option.split)
  then have uf: "fs_torrent u = ?t" "fs_records u = fs_records s" "fs_produced u = fs_produced s"
    "fs_skipped u = fs_skipped s" "readies u = readies s" "skips u = skips s" by (simp_all add: shown_def)
  have lay: "same_layout (fs_torrent s) (snd (EndClaimLog ?fl ?t))"
    unfolding point_torrent_def by (intro end_log_layout claims_layout)
  let ?c = "captureOne (pw_avail ?w) (ec_Profile (en_cfg en)) (en_file en) ?kf ?fr duration (points ! i) (?tol sdiv 4)"
  from False have s': "(s', oc) =
    (case ?c of
       Inl err \<Rightarrow> (skip_point en ?all (points ! i) i ?w err u, GoOn)
     | Inr shot \<Rightarrow>
         if \<not> landedNear (cp_asked shot) (cp_actual shot) ?tol then (miss_point en (points ! i) i ?w u, GoOn)
         else keep_point en ?all (points ! i) i ?w (rejectBlank ?kf ?fr (en_blank en) (?tol sdiv 4) shot) u)"
    using assms unfolding new_point_def halted_def Let_def u_def [symmetric] by (simp split: sum.split)
  have failed: ?thesis
    if "shown s' = (snd (EndClaimLog ?fl ?t), fs_records s @ [failed_frame i (points ! i) code],
      fs_produced s, fs_skipped s + 1, readies s, skips s @ [int i])" "oc = GoOn" for code
  proof -
    have "adds i (failed_frame i (points ! i) code) s s'"
      using that(1) by (simp add: adds_def shown_def failed_frame_def)
    moreover have "same_layout (fs_torrent s) (fs_torrent s')" using that(1) lay by (simp add: shown_def)
    ultimately show ?thesis using that(2) False unfolding new_record_def by blast
  qed
  show ?thesis
  proof (cases ?c)
    case (Inl err)
    with s' have "s' = skip_point en ?all (points ! i) i ?w err u" "oc = GoOn" by simp_all
    then show ?thesis using skip_point_shown [of en ?all "points ! i" i ?w err u] failed by (auto simp: uf)
  next
    case (Inr shot)
    show ?thesis
    proof (cases "landedNear (cp_asked shot) (cp_actual shot) ?tol")
      case False
      with s' Inr have "s' = miss_point en (points ! i) i ?w u" "oc = GoOn" by simp_all
      then show ?thesis using miss_point_shown [of en "points ! i" i ?w u] failed by (auto simp: uf)
    next
      case landed: True
      let ?shot = "rejectBlank ?kf ?fr (en_blank en) (?tol sdiv 4) shot"
      from s' Inr landed have k: "keep_point en ?all (points ! i) i ?w ?shot u = (s', oc)" by simp
      note kp = keep_point_shown [OF k]
      show ?thesis
      proof (cases "pw_write ?w")
        case (Inl err)
        with kp lay False show ?thesis by (auto simp: uf shown_def)
      next
        case path: (Inr path)
        let ?f = "\<lparr>mf_Index = int i, mf_RequestedMS = Milliseconds (points ! i),
             mf_ActualMS = Some (Milliseconds (cp_actual ?shot)), mf_Path = path, mf_Shift = cp_shift ?shot,
             mf_Width = frm_Width (cp_frame ?shot), mf_Height = frm_Height (cp_frame ?shot), mf_Error = [],
             mf_ByteRanges = fst (EndClaimLog ?fl ?t)\<rparr>"
        have "taken en ex duration points i (fs_torrent s) ?f"
          unfolding taken_def Let_def using Inr landed path by blast
        moreover have "adds i ?f s s'"
          using kp path captured_shift [OF Inr] by (simp add: adds_def shown_def uf)
        moreover have "same_layout (fs_torrent s) (fs_torrent s')" using kp path lay by (simp add: shown_def uf)
        ultimately show ?thesis using kp path False unfolding new_record_def by auto
      qed
    qed
  qed
qed

section \<open>What the points of a file come to\<close>

definition record_ok ::
  "FileEnv \<Rightarrow> Extractor \<Rightarrow> int \<Rightarrow> int list \<Rightarrow> (int \<Rightarrow> ManifestFrame option) \<Rightarrow> TorrentState \<Rightarrow> nat \<Rightarrow>
   ManifestFrame \<Rightarrow> bool" where
  "record_ok en ex duration points done t i f \<longleftrightarrow>
     (case done (int i) of
        Some earlier \<Rightarrow> f = earlier
      | None \<Rightarrow> \<not> halted en i \<and> (\<exists>u. same_layout t u \<and> new_record en ex duration points i u f))"

abbreviation "is_failed f \<equiv> mf_Shift f = ShiftFailed"

text \<open>The records are those of the first points, in order, and the counts and events are theirs.\<close>

definition file_tally ::
  "FileEnv \<Rightarrow> Extractor \<Rightarrow> int \<Rightarrow> int list \<Rightarrow> (int \<Rightarrow> ManifestFrame option) \<Rightarrow> TorrentState \<Rightarrow> FileState \<Rightarrow> bool" where
  "file_tally en ex duration points done t s \<longleftrightarrow>
     same_layout t (fs_torrent s) \<and>
     map mf_Index (fs_records s) = map int [0..<length (fs_records s)] \<and>
     (\<forall>i<length (fs_records s). record_ok en ex duration points done t i (fs_records s ! i)) \<and>
     readies s = map mf_Index (filter (\<lambda>f. \<not> is_failed f) (fs_records s)) \<and>
     skips s = map mf_Index (filter is_failed (fs_records s)) \<and>
     fs_produced s = int (length (filter (\<lambda>f. \<not> is_failed f) (fs_records s))) \<and>
     fs_skipped s = int (length (filter is_failed (fs_records s)))"

lemma file_tally_adds:
  assumes "file_tally en ex duration points done t s" "adds (length (fs_records s)) f s s'"
    and "same_layout t (fs_torrent s')" "record_ok en ex duration points done t (length (fs_records s)) f"
  shows "file_tally en ex duration points done t s'"
  using assms by (auto simp: file_tally_def adds_def nth_append less_Suc_eq split: if_splits)

lemma file_tally_same:
  assumes "file_tally en ex duration points done t s" "snd (shown s') = snd (shown s)" "same_layout t (fs_torrent s')"
  shows "file_tally en ex duration points done t s'"
  using assms by (simp add: file_tally_def shown_def)

lemma other_claims_shown: "snd (shown (on_torrent h s)) = snd (shown s)"
  by (simp add: shown_def)

lemma reuse_point_adds:
  assumes "mf_Index f = int i" "\<not> is_failed f"
  shows "adds i f s (reuse_point en moment i f s)" "fs_torrent (reuse_point en moment i f s) = fs_torrent s"
  using assms by (simp_all add: reuse_point_def adds_def Let_def)

text \<open>How the points end: all done, or at a point where the run had to stop, or where a frame could not be
written.\<close>

lemma take_points_tally:
  assumes "take_points en ex duration points done [k..<n] s = (s', r)" "k \<le> n" "k = length (fs_records s)"
    and "file_tally en ex duration points done t s"
    and sound: "\<And>i f. done i = Some f \<Longrightarrow> mf_Index f = i \<and> \<not> is_failed f"
  shows "file_tally en ex duration points done t s' \<and> length (fs_records s') \<le> n \<and>
    (r = None \<longrightarrow> length (fs_records s') = n \<or>
       halted en (length (fs_records s')) \<and> done (int (length (fs_records s'))) = None) \<and>
    (\<forall>e. r = Some e \<longrightarrow> length (fs_records s') < n \<and>
       (\<exists>err. e = Fail CodeStorage err \<and> pw_write (en_world en (length (fs_records s'))) = Inl err))"
  using assms(1-4)
proof (induction "n - k" arbitrary: k s)
  case 0
  then show ?case by simp
next
  case (Suc m)
  then have kn: "k < n" "m = n - Suc k" by simp_all
  let ?s = "on_torrent (\<lambda>t. claim_run t (pw_other (en_world en k))) s"
  have lay: "same_layout t (fs_torrent ?s)"
    using Suc.prems(4) same_layout_trans [OF _ claim_run_layout] by (auto simp: file_tally_def)
  have ts: "file_tally en ex duration points done t ?s"
    using file_tally_same [OF Suc.prems(4) other_claims_shown lay] .
  have len: "length (fs_records ?s) = k" using Suc.prems(3) by simp
  have up: "[k..<n] = k # [Suc k..<n]" using kn by (simp add: upt_conv_Cons)
  show ?case
  proof (cases "done (int k)")
    case (Some f)
    from sound [OF Some] have f: "mf_Index f = int k" "\<not> is_failed f" by simp_all
    note a = reuse_point_adds [OF f, where s = ?s and en = en and moment = "points ! k"]
    have "record_ok en ex duration points done t k f" by (simp add: record_ok_def Some)
    with file_tally_adds [OF ts, of f] a lay len have "file_tally en ex duration points done t (reuse_point en (points ! k) k f ?s)"
      by simp
    moreover have "Suc k = length (fs_records (reuse_point en (points ! k) k f ?s))"
      using a(1) len by (simp add: adds_def)
    moreover have "take_points en ex duration points done [Suc k..<n] (reuse_point en (points ! k) k f ?s) = (s', r)"
      using Suc.prems(1) by (simp add: up Some)
    ultimately show ?thesis using kn by (intro Suc.hyps(1)) simp_all
  next
    case None
    obtain u oc where np: "new_point en ex duration points k ?s = (u, oc)"
      by (cases "new_point en ex duration points k ?s")
    from new_point_adds [OF np] consider
        (halt) "oc = HaltHere" "u = ?s" "halted en k"
      | (stuck) err where "oc = StorageFailed (Fail CodeStorage err)" "pw_write (en_world en k) = Inl err"
          "snd (shown u) = snd (shown ?s)" "same_layout (fs_torrent ?s) (fs_torrent u)"
      | (goes) f where "oc = GoOn" "\<not> halted en k" "adds k f ?s u"
          "new_record en ex duration points k (fs_torrent ?s) f" "same_layout (fs_torrent ?s) (fs_torrent u)"
      by blast
    then show ?thesis
    proof cases
      case halt
      then have "s' = ?s" "r = None" using Suc.prems(1) np None by (simp_all add: up)
      with halt None ts len kn show ?thesis by simp
    next
      case stuck
      then have "s' = u" "r = Some (Fail CodeStorage err)" using Suc.prems(1) np None by (simp_all add: up)
      moreover have "fs_records u = fs_records ?s" using stuck(3) by (simp add: shown_def)
      moreover have "file_tally en ex duration points done t u"
        using file_tally_same [OF ts stuck(3)] same_layout_trans [OF lay stuck(4)] by simp
      ultimately show ?thesis using stuck(2) len kn by auto
    next
      case goes
      have "record_ok en ex duration points done t k f"
        using None goes(2,4) lay by (auto simp: record_ok_def)
      with file_tally_adds [OF ts, of f u] goes(3) same_layout_trans [OF lay goes(5)] len
      have "file_tally en ex duration points done t u" by simp
      moreover have "Suc k = length (fs_records u)" using goes(3) len by (simp add: adds_def)
      moreover have "take_points en ex duration points done [Suc k..<n] u = (s', r)"
        using Suc.prems(1) np None goes(1) by (simp add: up)
      ultimately show ?thesis using kn by (intro Suc.hyps(1)) simp_all
    qed
  qed
qed

end
