(* ===== verification/FileProperties.thy ===== *)
theory FileProperties
  imports FileLaws
begin

text \<open>
  The properties of one file's work, and a file small enough to compute: one point in the middle of a film
  of a hundred seconds, whose keyframe lies two seconds before it.
\<close>

section \<open>The whole of a file\<close>

definition prior_frames :: "(string \<Rightarrow> int option) \<Rightarrow> Manifest option \<Rightarrow> int list \<Rightarrow> int \<Rightarrow> ManifestFrame option" where
  "prior_frames stat prior points = reusableFrames stat (case prior of None \<Rightarrow> no_manifest | Some m \<Rightarrow> m) points"

lemma prior_frames_sound:
  "prior_frames stat prior points i = Some f \<Longrightarrow>
     mf_Index f = i \<and> \<not> is_failed f \<and> reusable stat points f \<and> (\<exists>m. prior = Some m \<and> f \<in> set (m_Frames m))"
  using reusableFrames_some [of stat _ points i f]
  by (cases prior) (force simp: prior_frames_def no_manifest_def reusable_def split: if_splits)+

lemma heartbeats_records [simp]: "fs_records (foldl (heartbeat fl) s gs) = fs_records s"
  using heartbeats_shown [of fl s gs] by (simp add: shown_def)

lemma new_file_tally: "file_tally en ex duration points done t (publish ev (foldl (heartbeat fl) (new_file_state t) gs))"
  if "ready_index ev = []" "skipped_index ev = []"
proof -
  have "shown (foldl (heartbeat fl) (new_file_state t) gs) = (t, [], 0, 0, [], [])"
    unfolding heartbeats_shown by (simp add: shown_def new_file_state_def readies_def skips_def)
  then show ?thesis using that by (simp add: file_tally_def shown_def)
qed

lemma finish_file_shown:
  assumes "finish_file en fw tone info points seq s = (r, s')"
  shows "snd (shown s') = snd (shown s)" "same_layout (fs_torrent s) (fs_torrent s')" "fo_produced r = fs_produced s"
    "fo_complete r \<longleftrightarrow> fo_err r = None \<and> fs_produced s = int (length points)"
    "fo_err r = None \<Longrightarrow> \<exists>m a b. fo_manifest r = Some m \<and> m_Frames m = fs_records s \<and>
       last (fs_events s') = E_FileDone (fi_Index (en_file en)) (fi_Path (en_file en)) (fs_produced s) (fs_skipped s) a b"
  using assms claim_run_layout
  by (auto simp: finish_file_def Let_def shown_def file_failed_def publish_def readies_def skips_def on_torrent_def
      writeManifest_def split: sum.splits prod.split)

lemma processFile_tally:
  assumes "processFile en stat prior ex iw fw t = (r, s)" "iw_publish iw = None"
    and "plan_points (en_cfg en) iw = Inr (info, points, seq)"
  defines "n \<equiv> length (fs_records s)" and "done \<equiv> prior_frames stat prior points"
  shows "file_tally en (WithToneMap ex (ToneMapOf (mi_Video info))) (mi_Duration info) points done t s" "n \<le> length points"
    "fo_produced r = fs_produced s"
    "fo_complete r \<longleftrightarrow> fo_err r = None \<and> fs_produced s = int (length points)"
    "fo_err r = None \<Longrightarrow> (n = length points \<or> halted en n \<and> done (int n) = None) \<and>
       (\<exists>m a b. fo_manifest r = Some m \<and> m_Frames m = fs_records s \<and>
         last (fs_events s) = E_FileDone (fi_Index (en_file en)) (fi_Path (en_file en)) (fs_produced s) (fs_skipped s) a b)"
proof -
  let ?ex = "WithToneMap ex (ToneMapOf (mi_Video info))" and ?fl = "fi_Index (en_file en)"
  let ?s0 = "publish (E_FileStarted ?fl (fi_Path (en_file en)) info points) (foldl (heartbeat ?fl) (new_file_state t) (iw_beats iw))"
  obtain u e where tp: "take_points en ?ex (mi_Duration info) points done [0..<length points] ?s0 = (u, e)"
    by (cases "take_points en ?ex (mi_Duration info) points done [0..<length points] ?s0")
  have t0: "file_tally en ?ex (mi_Duration info) points done t ?s0" by (rule new_file_tally) simp_all
  have "fs_records ?s0 = []" using heartbeats_shown [of ?fl "new_file_state t"] by (simp add: shown_def new_file_state_def)
  then have "0 = length (fs_records ?s0)" by simp
  note tt = take_points_tally [OF tp le0 this t0]
  have sound: "done i = Some f \<Longrightarrow> mf_Index f = i \<and> \<not> is_failed f" for i f
    using prior_frames_sound by (simp add: done_def)
  from tt [OF sound] have u: "file_tally en ?ex (mi_Duration info) points done t u" "length (fs_records u) \<le> length points"
    and n: "e = None \<Longrightarrow> length (fs_records u) = length points \<or>
       halted en (length (fs_records u)) \<and> done (int (length (fs_records u))) = None" by blast+
  have res: "(r, s) = (case e of Some err \<Rightarrow> (file_failed (fs_produced u) err, u)
      | None \<Rightarrow> finish_file en fw (ToneMapOf (mi_Video info)) info points seq u)"
    using assms(1-3) tp unfolding processFile_def Let_def prior_frames_def [symmetric]
    by (simp add: done_def split: option.splits)
  show "file_tally en ?ex (mi_Duration info) points done t s" "n \<le> length points" "fo_produced r = fs_produced s"
    "fo_complete r \<longleftrightarrow> fo_err r = None \<and> fs_produced s = int (length points)"
    "fo_err r = None \<Longrightarrow> (n = length points \<or> halted en n \<and> done (int n) = None) \<and>
       (\<exists>m a b. fo_manifest r = Some m \<and> m_Frames m = fs_records s \<and>
         last (fs_events s) = E_FileDone (fi_Index (en_file en)) (fi_Path (en_file en)) (fs_produced s) (fs_skipped s) a b)"
  proof -
    have "file_tally en ?ex (mi_Duration info) points done t s \<and> n \<le> length points \<and> fo_produced r = fs_produced s \<and>
      (fo_complete r \<longleftrightarrow> fo_err r = None \<and> fs_produced s = int (length points)) \<and>
      (fo_err r = None \<longrightarrow> (n = length points \<or> halted en n \<and> done (int n) = None) \<and>
       (\<exists>m a b. fo_manifest r = Some m \<and> m_Frames m = fs_records s \<and>
         last (fs_events s) = E_FileDone (fi_Index (en_file en)) (fi_Path (en_file en)) (fs_produced s) (fs_skipped s) a b))"
    proof (cases e)
      case (Some err)
      then have "r = file_failed (fs_produced u) err" "s = u" using res by simp_all
      with u show ?thesis by (simp add: file_failed_def n_def)
    next
      case None
      then have "finish_file en fw (ToneMapOf (mi_Video info)) info points seq u = (r, s)" using res by simp
      note f = finish_file_shown [OF this]
      have sf: "fs_records s = fs_records u" "fs_produced s = fs_produced u" "fs_skipped s = fs_skipped u"
        using f(1) by (simp_all add: shown_def)
      have "same_layout t (fs_torrent s)" using u(1) f(2) same_layout_trans by (auto simp: file_tally_def)
      then have "file_tally en ?ex (mi_Duration info) points done t s" using file_tally_same [OF u(1) f(1)] by simp
      with f(3-5) n [OF None] u(2) show ?thesis by (simp add: n_def sf)
    qed
    then show "file_tally en ?ex (mi_Duration info) points done t s" "n \<le> length points" "fo_produced r = fs_produced s"
      "fo_complete r \<longleftrightarrow> fo_err r = None \<and> fs_produced s = int (length points)"
      "fo_err r = None \<Longrightarrow> (n = length points \<or> halted en n \<and> done (int n) = None) \<and>
       (\<exists>m a b. fo_manifest r = Some m \<and> m_Frames m = fs_records s \<and>
         last (fs_events s) = E_FileDone (fi_Index (en_file en)) (fi_Path (en_file en)) (fs_produced s) (fs_skipped s) a b)"
      by blast+
  qed
qed

lemma record_requested:
  assumes "record_ok en ex duration points done t i f"
    and "\<And>i f. done i = Some f \<Longrightarrow> mf_Index f = i \<and> reusable stat points f"
  shows "mf_RequestedMS f = Milliseconds (points ! i)"
proof (cases "done (int i)")
  case None
  then show ?thesis
    using assms(1) taken_fields(3) by (auto simp: record_ok_def new_record_def failed_frame_def)
next
  case (Some g)
  with assms(1) have "f = g" by (simp add: record_ok_def)
  moreover from assms(2) [OF Some] have "mf_Index g = int i" "reusable stat points g" by simp_all
  ultimately show ?thesis by (simp add: reusable_def split: if_splits)
qed

text \<open>C7: A file's work adds up. Once its points are planned there is exactly one record for each of the
first of them, in order, naming the moment that was asked for; a frame was announced for exactly the
records that hold one and a skip for exactly the others, and the counts are theirs. The file is complete
exactly when no error ended it and every planned point has a frame. A file that ends without an error
stopped short only at a point where the run had to stop and that no earlier run had captured; its manifest
holds the records and its last event the counts.\<close>

theorem file_accounts:
  assumes "processFile en stat prior ex iw fw t = (r, s)" "iw_publish iw = None"
    and "plan_points (en_cfg en) iw = Inr (info, points, seq)"
  shows "map mf_Index (fs_records s) = map int [0..<length (fs_records s)] \<and>
    length (fs_records s) \<le> length points \<and>
    (\<forall>i<length (fs_records s). mf_RequestedMS (fs_records s ! i) = Milliseconds (points ! i)) \<and>
    readies s = map mf_Index (filter (\<lambda>f. \<not> is_failed f) (fs_records s)) \<and>
    skips s = map mf_Index (filter is_failed (fs_records s)) \<and>
    fo_produced r = int (length (readies s)) \<and> fs_skipped s = int (length (skips s)) \<and>
    (fo_complete r \<longleftrightarrow> fo_err r = None \<and> readies s = map int [0..<length points]) \<and>
    (fo_err r = None \<longrightarrow>
       (length (fs_records s) = length points \<or>
        halted en (length (fs_records s)) \<and> prior_frames stat prior points (int (length (fs_records s))) = None) \<and>
       (\<exists>m a b. fo_manifest r = Some m \<and> m_Frames m = fs_records s \<and>
          last (fs_events s) =
            E_FileDone (fi_Index (en_file en)) (fi_Path (en_file en)) (fo_produced r) (fs_skipped s) a b))"
proof -
  note p = processFile_tally [OF assms]
  let ?R = "fs_records s" and ?n = "length points"
  have ta: "map mf_Index ?R = map int [0..<length ?R]" "readies s = map mf_Index (filter (\<lambda>f. \<not> is_failed f) ?R)"
    "skips s = map mf_Index (filter is_failed ?R)" "fs_produced s = int (length (filter (\<lambda>f. \<not> is_failed f) ?R))"
    "fs_skipped s = int (length (filter is_failed ?R))"
    using p(1) by (simp_all add: file_tally_def)
  have req: "\<forall>i<length ?R. mf_RequestedMS (?R ! i) = Milliseconds (points ! i)"
    using p(1) prior_frames_sound unfolding file_tally_def by (blast intro: record_requested)
  have c: "fo_complete r \<longleftrightarrow> fo_err r = None \<and> readies s = map int [0..<?n]"
  proof -
    have "fs_produced s = int ?n \<longleftrightarrow> readies s = map int [0..<?n]"
    proof
      assume "fs_produced s = int ?n"
      then have "length (filter (\<lambda>f. \<not> is_failed f) ?R) = ?n" using ta(4) by simp
      moreover have "length (filter (\<lambda>f. \<not> is_failed f) ?R) \<le> length ?R" by (rule length_filter_le)
      ultimately have l: "length ?R = ?n" "length (filter (\<lambda>f. \<not> is_failed f) ?R) = length ?R" using p(2) by simp_all
      then have "filter (\<lambda>f. \<not> is_failed f) ?R = ?R"
        by (metis length_filter_less less_irrefl filter_id_conv)
      then show "readies s = map int [0..<?n]" using ta(1,2) l by simp
    next
      assume "readies s = map int [0..<?n]"
      then have "length (readies s) = ?n" by simp
      then show "fs_produced s = int ?n" using ta(2,4) by simp
    qed
    with p(4) show ?thesis by simp
  qed
  have counts: "fo_produced r = int (length (readies s))" "fs_skipped s = int (length (skips s))"
    using ta p(3) by simp_all
  from p(5) have e: "fo_err r = None \<longrightarrow>
       (length ?R = ?n \<or> halted en (length ?R) \<and> prior_frames stat prior points (int (length ?R)) = None) \<and>
       (\<exists>m a b. fo_manifest r = Some m \<and> m_Frames m = ?R \<and>
          last (fs_events s) = E_FileDone (fi_Index (en_file en)) (fi_Path (en_file en)) (fo_produced r) (fs_skipped s) a b)"
    using p(3) by simp
  show ?thesis using ta(1) p(2) req ta(2,3) counts c e by (intro conjI) simp_all
qed

section \<open>Where a frame was taken\<close>

text \<open>A moment was asked for that is the point or a step or two from it, that the swarm could serve; the
keyframe found for it is at most the tolerance before it and a second after it; the frame kept is that
one, or one of a later keyframe where the picture was blank; and it is described as what it is.\<close>

definition placed ::
  "FileEnv \<Rightarrow> PointWorld \<Rightarrow> int \<Rightarrow> int list \<Rightarrow> nat \<Rightarrow> ManifestFrame \<Rightarrow> bool" where
  "placed en w duration points i f \<longleftrightarrow>
     (let p = points ! i; tolerance = seekTolerance points in
      \<exists>asked found actual.
        \<bar>asked - p\<bar> \<le> 2 * (tolerance div 4) \<and>
        (asked \<noteq> p \<longrightarrow> 0 < asked \<and> (0 < duration \<longrightarrow> asked < duration)) \<and>
        reachable_point (pw_avail w) (ec_Profile (en_cfg en)) (en_file en) duration asked \<and>
        (\<exists>k. kf_of w 0 asked = Inr k \<and> kf_PTS k = found) \<and>
        0 \<le> found \<and> asked - tolerance \<le> found \<and> found \<le> asked + 10 ^ 9 \<and>
        (mf_Shift f = ShiftNone \<and> asked = p \<and> actual = found \<or>
         mf_Shift f = ShiftUnavailable \<and> asked \<noteq> p \<and> actual = found \<or>
         mf_Shift f = ShiftBlank \<and> found < actual) \<and>
        mf_ActualMS f = Some (Milliseconds actual))"

lemma seekTolerance_pos: "10 * 10 ^ 9 \<le> seekTolerance points"
  by (simp add: seekTolerance_def minSeekTolerance_def Let_def)

lemma taken_placed:
  assumes t: "taken en ex duration points i u f"
    and p: "0 \<le> points ! i" "points ! i + seekTolerance points \<le> max_i64"
  shows "placed en (en_world en i) duration points i f"
proof -
  let ?w = "en_world en i" and ?tol = "seekTolerance points"
  note tol = seekTolerance_pos [of points]
  have st: "?tol sdiv 4 = ?tol div 4" using tol by (simp add: sdiv_nonneg)
  from t obtain shot c path where
      cap: "captureOne (pw_avail ?w) (ec_Profile (en_cfg en)) (en_file en) (kf_of ?w) (fr_of en ex ?w) duration (points ! i) (?tol div 4) = Inr shot"
    and land: "landedNear (cp_asked shot) (cp_actual shot) ?tol"
    and c: "c = rejectBlank (kf_of ?w) (fr_of en ex ?w) (en_blank en) (?tol div 4) shot"
    and f: "mf_ActualMS f = Some (Milliseconds (cp_actual c))" "mf_Shift f = cp_shift c"
    unfolding taken_def Let_def st by auto
  note src = try_candidates_from [OF cap [unfolded captureOne_def]]
  have "cp_asked shot \<in> set (shiftCandidates (points ! i) (?tol div 4) duration)" using src by blast
  moreover have q: "0 \<le> ?tol div 4 \<and> 2 * (?tol div 4) + 10 ^ 9 \<le> ?tol" using tol by simp presburger
  moreover have "points ! i + 2 * (?tol div 4) \<le> max_i64" using q p by linarith
  ultimately have near: "\<bar>cp_asked shot - points ! i\<bar> \<le> 2 * (?tol div 4)"
    and inside: "cp_asked shot \<noteq> points ! i \<Longrightarrow> 0 < cp_asked shot \<and> (0 < duration \<longrightarrow> cp_asked shot < duration)"
    using shiftCandidates_bounds p(1) by blast+
  from src obtain k where k: "kf_of ?w 0 (cp_asked shot) = Inr k" "kf_PTS k = cp_actual shot" by blast
  then have pos: "0 \<le> cp_actual shot" using KeyframeAt_nonneg by (fastforce simp: kf_of_def)
  have asked: "0 \<le> cp_asked shot" using inside p(1) by fastforce
  have le: "cp_asked shot + 10 ^ 9 \<le> max_i64" using near q p(2) by linarith
  then have a: "w64 (cp_asked shot + 10 ^ 9) = cp_asked shot + 10 ^ 9"
    using asked by (intro w64_id) (simp_all add: min_i64_def)
  from land have up: "cp_actual shot \<le> cp_asked shot + 10 ^ 9" unfolding landedNear_def a by (simp split: if_splits)
  have "w64 (cp_asked shot - cp_actual shot) = cp_asked shot - cp_actual shot"
    using asked pos up le by (intro w64_id) (simp_all add: min_i64_def)
  with land have down: "cp_asked shot - ?tol \<le> cp_actual shot" unfolding landedNear_def by (simp split: if_splits)
  have "(cp_shift c = ShiftNone \<and> cp_asked shot = points ! i \<and> cp_actual c = cp_actual shot) \<or>
      (cp_shift c = ShiftUnavailable \<and> cp_asked shot \<noteq> points ! i \<and> cp_actual c = cp_actual shot) \<or>
      (cp_shift c = ShiftBlank \<and> cp_actual shot < cp_actual c)"
    using rejectBlank_from [of "kf_of ?w" "fr_of en ex ?w" "en_blank en" "?tol div 4" shot] src
    by (auto simp: c stepped_def)
  then show ?thesis
    unfolding placed_def Let_def f using near inside src k pos up down by blast
qed

lemma taken_bytes:
  assumes t: "taken en ex duration points i u f" and l: "same_layout t u"
    and k: "list_all (keeps_log (fi_Index (en_file en))) (pw_traffic (en_world en i))"
  shows "disjoint_spans (mf_ByteRanges f) \<and> span_bytes (mf_ByteRanges f) =
    (\<Union>ev\<in>set (pw_traffic (en_world en i)). span_bytes (logged t (fi_Index (en_file en)) ev))"
proof -
  let ?fl = "fi_Index (en_file en)" and ?tr = "pw_traffic (en_world en i)"
  have f: "mf_ByteRanges f = fst (EndClaimLog ?fl (claim_run (StartClaimLog ?fl u) ?tr))"
    using t by (auto simp: taken_def point_torrent_def Let_def)
  obtain sp u' where e: "EndClaimLog ?fl (claim_run (StartClaimLog ?fl u) ?tr) = (sp, u')"
    by (cases "EndClaimLog ?fl (claim_run (StartClaimLog ?fl u) ?tr)")
  from claim_log_exact [OF k e] f e show ?thesis by (simp add: logged_layout [OF l])
qed

text \<open>C8: Every frame a file's work records is accounted for. Either it is the frame an earlier run recorded
for the very moment, whose file is still there and not empty, and nothing was captured in its place; or
it was taken now, at a point no earlier run had captured and before the run had to stop, where and as it
says: the moment asked for lies within half the tolerance of the point and could be served by the swarm,
the keyframe found lies within the tolerance before it, or the picture was blank and a later keyframe was
taken. The byte ranges recorded for it are exactly the bytes of the file ordered from the swarm while
its point was captured, whatever other files of the run ordered meanwhile.\<close>

theorem frames_accounted:
  assumes "processFile en stat prior ex iw fw t = (r, s)" "iw_publish iw = None"
    and "plan_points (en_cfg en) iw = Inr (info, points, seq)"
    and "i < length (fs_records s)" "\<not> is_failed (fs_records s ! i)"
    and "0 \<le> points ! i" "points ! i + seekTolerance points \<le> max_i64"
    and "list_all (keeps_log (fi_Index (en_file en))) (pw_traffic (en_world en i))"
  shows "case prior_frames stat prior points (int i) of
      Some earlier \<Rightarrow>
        fs_records s ! i = earlier \<and> (\<exists>m. prior = Some m \<and> earlier \<in> set (m_Frames m)) \<and>
        mf_RequestedMS earlier = Milliseconds (points ! i) \<and>
        (\<exists>size. stat (mf_Path earlier) = Some size \<and> size \<noteq> 0)
    | None \<Rightarrow>
        \<not> halted en i \<and> placed en (en_world en i) (mi_Duration info) points i (fs_records s ! i) \<and>
        disjoint_spans (mf_ByteRanges (fs_records s ! i)) \<and>
        span_bytes (mf_ByteRanges (fs_records s ! i)) =
          (\<Union>ev\<in>set (pw_traffic (en_world en i)). span_bytes (logged t (fi_Index (en_file en)) ev))"
proof -
  let ?done = "prior_frames stat prior points" and ?f = "fs_records s ! i"
  have ok: "record_ok en (WithToneMap ex (ToneMapOf (mi_Video info))) (mi_Duration info) points ?done t i ?f"
    using processFile_tally(1) [OF assms(1-3)] assms(4) by (simp add: file_tally_def)
  show ?thesis
  proof (cases "?done (int i)")
    case (Some g)
    note p = prior_frames_sound [OF Some]
    with ok Some show ?thesis by (auto simp: record_ok_def reusable_def split: if_splits)
  next
    case None
    with ok obtain u where h: "\<not> halted en i" and l: "same_layout t u"
      and n: "new_record en (WithToneMap ex (ToneMapOf (mi_Video info))) (mi_Duration info) points i u ?f"
      by (auto simp: record_ok_def)
    from n assms(5) have "taken en (WithToneMap ex (ToneMapOf (mi_Video info))) (mi_Duration info) points i u ?f"
      by (auto simp: new_record_def failed_frame_def)
    with h l assms(6-8) None show ?thesis using taken_placed taken_bytes by fastforce
  qed
qed

section \<open>A second stop at a gap\<close>

text \<open>A run that finishes an earlier one reuses what that one captured. If it has to stop again, at a point
the earlier run had missed, the manifest it writes ends before that point: the frames the earlier run had
captured after it are no longer in it, although their files are on disk and the earlier manifest named
them.\<close>

lemma gap_stop_forgets:
  assumes "processFile en stat prior ex iw fw t = (r, s)" "iw_publish iw = None"
    and "plan_points (en_cfg en) iw = Inr (info, points, seq)" "fo_err r = None"
    and "k < length points" "halted en k" "prior_frames stat prior points (int k) = None"
    and "\<And>i. i < k \<Longrightarrow> prior_frames stat prior points (int i) \<noteq> None"
  shows "\<exists>m. fo_manifest r = Some m \<and> m_Frames m = map (\<lambda>i. the (prior_frames stat prior points (int i))) [0..<k]"
proof -
  note p = processFile_tally [OF assms(1-3)]
  let ?n = "length (fs_records s)" and ?done = "prior_frames stat prior points"
  have ok: "\<forall>i<?n. record_ok en (WithToneMap ex (ToneMapOf (mi_Video info))) (mi_Duration info) points ?done t i (fs_records s ! i)"
    using p(1) by (simp add: file_tally_def)
  have "?n = k"
  proof (cases ?n k rule: linorder_cases)
    case less
    then show ?thesis using p(5) [OF assms(4)] assms(5) assms(8) [OF less] by auto
  next
    case greater
    with ok have "record_ok en (WithToneMap ex (ToneMapOf (mi_Video info))) (mi_Duration info) points ?done t k (fs_records s ! k)"
      by blast
    then show ?thesis using assms(6,7) by (simp add: record_ok_def)
  qed
  moreover have "fs_records s ! i = the (?done (int i))" if "i < k" for i
    using ok assms(8) [OF that] that \<open>?n = k\<close> by (auto simp: record_ok_def)
  ultimately have "fs_records s = map (\<lambda>i. the (?done (int i))) [0..<k]" by (auto intro: nth_equalityI)
  then show ?thesis using p(5) [OF assms(4)] by auto
qed

section \<open>A file to compute\<close>

definition demo_gauge :: Gauge where
  "demo_gauge =
     \<lparr>g_now = 7, g_tracker = newBudgetTracker (DefaultBudget 1) True DefaultRoof True 5,
      g_reading = \<lparr>meter_now = 100, client_now = 100, clock_now = 9\<rparr>, g_uploaded = 0, g_connected = 3, g_seeds = 1,
      g_avail = \<lparr>counts = [], av_peers = 0, av_pieceLength = 16, av_length = 0\<rparr>,
      g_speed = (newRateSample, newRateSample)\<rparr>"

definition demo_packet :: packetRow where
  "demo_packet = \<lparr>PTSTime = ''48'', DTSTime = ''48'', Pos = ''9'', Flags = ''K_''\<rparr>"

definition demo_point :: PointWorld where
  "demo_point =
     \<lparr>pw_ctx = CtxLive, pw_tracker = g_tracker demo_gauge, pw_reading = g_reading demo_gauge, pw_stalls = 0,
      pw_avail = g_avail demo_gauge, pw_read = (\<lambda>_ _. Inr [demo_packet]), pw_ffmpeg = (\<lambda>_ _. Inr ''data''),
      pw_frame_ctx = (\<lambda>_ _. None), pw_other = [], pw_traffic = [EClaim 1 0 20 MinTraffic], pw_beats = [demo_gauge],
      pw_stalls_after = (0, None), pw_write = Inr ''000.jpg'', pw_gauge = demo_gauge\<rparr>"

definition demo_env :: FileEnv where
  "demo_env =
     \<lparr>en_cfg = \<lparr>ec_Source = ''magnet:?x'', ec_OutputRoot = ''out'', ec_CacheCeiling = 0,
        ec_Plan = \<lparr>pn_Count = 1, pn_Start = (0, 0), pn_End = (1, 0)\<rparr>, ec_Profile = MinTraffic,
        ec_Budget = DefaultBudget 1, ec_Roof = DefaultRoof, ec_Sequential = False, ec_Parallelism = 4,
        ec_Format = JPEG, ec_Files = []\<rparr>,
      en_file = tor_files demo_torrent ! 1, en_image = (\<lambda>_. Some (640, 360)), en_blank = (\<lambda>_. Some False),
      en_world = (\<lambda>_. demo_point)\<rparr>"

definition demo_stream :: RawStream where
  "demo_stream =
     \<lparr>raw_Index = 0, raw_CodecName = ''h264'', raw_CodecType = ''video'', raw_Profile = [], raw_Width = 640,
      raw_Height = 360, raw_AvgFrameRate = [], raw_BitRate = ''1000'', raw_Channels = 0, raw_ColorRange = [],
      raw_ColorSpace = [], raw_ColorTransfer = [], raw_ColorPrimaries = [], raw_SideData = [], raw_Default = 1,
      raw_Forced = 0, raw_Language = [], raw_Title = []\<rparr>"

definition demo_inspect :: InspectWorld where
  "demo_inspect =
     \<lparr>iw_publish = None, iw_beats = [], iw_stalls = 0,
      iw_inspect = Inr (Some \<lparr>raw_FormatName = ''mp4'', raw_Duration = ''100'', raw_Size = ''9'',
        raw_FormatBitRate = [], raw_Streams = [demo_stream]\<rparr>),
      iw_stalls_after = (0, None), iw_read = (\<lambda>_. Inr [])\<rparr>"

definition demo_final :: FinalWorld where
  "demo_final =
     \<lparr>fw_other = [], fw_gauge = demo_gauge, fw_InfoHash = ''h'', fw_Name = ''n'', fw_Private = False,
      fw_manifest = (\<lambda>_. Inr ''manifest.json''), fw_sheet = (\<lambda>_ _. Inr ''sheet.jpg'')\<rparr>"

definition demo_result :: "FileResult \<times> FileState" where
  "demo_result = processFile demo_env (\<lambda>_. None) None NewExtractor demo_inspect demo_final demo_torrent"

lemma f64_small: "\<bar>n\<bar> < 2 ^ 53 \<Longrightarrow> f64_round (n, e) = (n, e)"
proof -
  assume "\<bar>n\<bar> < 2 ^ 53"
  then have "f64_round (n, 0) = (n, 0)" using f64_of_int_exact by (simp add: f64_of_int_def)
  then show ?thesis by (simp add: f64_round_def Let_def sgn_mult_abs)
qed

lemma demo_seconds: "parseSeconds ''100'' = (100 * 10 ^ 9, True)" "parseSeconds ''48'' = (48 * 10 ^ 9, True)"
  by (simp_all add: parseSeconds_def ParseFloat_def decimal_def TrimSpace_def trim_left_def trim_right_def is_space_def
      ToLower_def lower_char_def Let_def digit_of_def f64_of_int_exact f64_mult_def f64_small f64_trunc_def f64_less_def)

definition demo_info :: MediaInfo where "demo_info = fst (Inspect (iw_inspect demo_inspect))"

lemma demo_inspected: "Inspect (iw_inspect demo_inspect) = (demo_info, None)" "mi_Duration demo_info = 100 * 10 ^ 9"
proof -
  have "snd (Inspect (iw_inspect demo_inspect)) = None \<and> mi_Duration demo_info = 100 * 10 ^ 9"
    by (simp add: demo_info_def demo_inspect_def demo_stream_def Inspect_def parseInspect_def inspect_stream_def
        demo_seconds)
  then show "Inspect (iw_inspect demo_inspect) = (demo_info, None)" "mi_Duration demo_info = 100 * 10 ^ 9"
    by (simp_all add: demo_info_def prod_eq_iff)
qed

lemma demo_plan: "plan_points (en_cfg demo_env) demo_inspect = Inr (demo_info, [50 * 10 ^ 9], False)"
proof -
  have "Points (ec_Plan (en_cfg demo_env)) (100 * 10 ^ 9) = Inr [50 * 10 ^ 9]"
    by (simp add: Points_def Plan_Validate_def demo_env_def f64_less_def f64_le_def f64_of_int_exact f64_mult_def
        f64_small f64_trunc_def Let_def sdiv_nonneg)
  then show ?thesis by (simp add: plan_points_def demo_inspected)
qed

lemma demo_published: "iw_publish demo_inspect = None"
  by (simp add: demo_inspect_def)

lemma demo_runs: "processFile demo_env (\<lambda>_. None) None NewExtractor demo_inspect demo_final demo_torrent =
    (fst demo_result, snd demo_result)"
  by (simp add: demo_result_def)

lemma demo_keyframe: "kf_of demo_point n moment = Inr \<lparr>kf_PTS = 48 * 10 ^ 9, kf_BytePos = 9\<rparr>"
  by (simp add: kf_of_def KeyframeAt_def demo_point_def demo_packet_def packet_time_def demo_seconds parseInt_def
      TrimSpace_def trim_left_def trim_right_def is_space_def ParseInt_def digit_of_def fits_i64_def min_i64_def
      max_i64_def Let_def)

lemma demo_captured:
  "captureOne (pw_avail demo_point) p f (kf_of demo_point) (fr_of demo_env ex demo_point) d m st =
     Inr \<lparr>cp_frame = \<lparr>frm_Data = ''data'', frm_Width = 640, frm_Height = 360, frm_Requested = 48 * 10 ^ 9\<rparr>,
          cp_asked = m, cp_actual = 48 * 10 ^ 9, cp_shift = ShiftNone\<rparr>"
proof -
  have c: "\<exists>cs. shiftCandidates m st d = m # cs" by (simp add: shiftCandidates_def)
  have "fr_of demo_env ex demo_point 0 (48 * 10 ^ 9) =
      Inr \<lparr>frm_Data = ''data'', frm_Width = 640, frm_Height = 360, frm_Requested = 48 * 10 ^ 9\<rparr>"
    by (simp add: fr_of_def Extractor_Frame_def frame_attempts.simps [of _ _ _ _ _ _ "ex_Retries ex"] demo_point_def
        demo_env_def Let_def)
  moreover have "reachable_point (pw_avail demo_point) p f d m"
    by (simp add: reachable_point_def Known_def demo_point_def demo_gauge_def)
  ultimately show ?thesis using c demo_keyframe by (auto simp: captureOne_def)
qed

lemma demo_not_halted: "\<not> halted demo_env i"
  by (simp add: halted_def haltReason_def demo_env_def demo_point_def demo_gauge_def Exhausted_def Reached_def
      newBudgetTracker_def DefaultBudget_def DefaultRoof_def Spent_def time_Sub_def bytesPerFile_def maxRunBytes_def
      defaultRunTime_def w64_def max_i64_def min_i64_def Let_def)

lemma demo_taken:
  "\<exists>f. fs_records (snd demo_result) = [f] \<and> \<not> is_failed f \<and> mf_ActualMS f = Some 48000 \<and>
     fo_err (fst demo_result) = None"
proof -
  let ?ex = "WithToneMap NewExtractor (ToneMapOf (mi_Video demo_info))"
  let ?s = "publish (E_FileStarted (fi_Index (en_file demo_env)) (fi_Path (en_file demo_env)) demo_info [50 * 10 ^ 9])
    (foldl (heartbeat (fi_Index (en_file demo_env))) (new_file_state demo_torrent) (iw_beats demo_inspect))"
  obtain u oc where np: "new_point demo_env ?ex (100 * 10 ^ 9) [50 * 10 ^ 9] 0 (on_torrent (\<lambda>t. claim_run t (pw_other (en_world demo_env 0))) ?s) = (u, oc)"
    by (cases "new_point demo_env ?ex (100 * 10 ^ 9) [50 * 10 ^ 9] 0 (on_torrent (\<lambda>t. claim_run t (pw_other (en_world demo_env 0))) ?s)")
  have w: "en_world demo_env 0 = demo_point" by (simp add: demo_env_def)
  have l: "landedNear 50000000000 48000000000 (seekTolerance [50000000000])"
    by (simp add: landedNear_def w64_def seekTolerance_def minSeekTolerance_def)
  have b: "en_blank demo_env = (\<lambda>_. Some False)" by (simp add: demo_env_def)
  from np demo_not_halted [of 0] obtain v where
    k: "keep_point demo_env 1 (50 * 10 ^ 9) 0 demo_point
      \<lparr>cp_frame = \<lparr>frm_Data = ''data'', frm_Width = 640, frm_Height = 360, frm_Requested = 48 * 10 ^ 9\<rparr>,
       cp_asked = 50 * 10 ^ 9, cp_actual = 48 * 10 ^ 9, cp_shift = ShiftNone\<rparr> v = (u, oc)"
    and v: "fs_records v = []"
    by (auto simp: new_point_def halted_def Let_def w demo_captured l b rejectBlank_def new_file_state_def
        demo_inspect_def split: option.splits)
  from keep_point_shown [OF k] have oc: "oc = GoOn" and u: "\<exists>f. fs_records u = [f] \<and> \<not> is_failed f \<and> mf_ActualMS f = Some 48000"
    by (auto simp: demo_point_def shown_def v Milliseconds_def)
  have "prior_frames (\<lambda>_. None) None [50 * 10 ^ 9] 0 = None" by (simp add: prior_frames_def reusableFrames_def no_manifest_def)
  then have e: "demo_result = finish_file demo_env demo_final (ToneMapOf (mi_Video demo_info)) demo_info [50 * 10 ^ 9] False u"
    using np oc unfolding demo_result_def processFile_def Let_def prior_frames_def [symmetric]
    by (simp add: demo_published demo_plan demo_inspected)
  then have "finish_file demo_env demo_final (ToneMapOf (mi_Video demo_info)) demo_info [50 * 10 ^ 9] False u =
      (fst demo_result, snd demo_result)"
    by simp
  from finish_file_shown(1) [OF this] have "fs_records (snd demo_result) = fs_records u" by (simp add: shown_def)
  moreover have "fo_err (fst demo_result) = None" unfolding e by (simp add: finish_file_def demo_final_def Let_def)
  ultimately show ?thesis using u by simp
qed

lemma file_accounts_witness:
  "readies (snd demo_result) = [0] \<and> fo_produced (fst demo_result) = 1 \<and> fo_complete (fst demo_result)"
proof -
  note a = file_accounts [OF demo_runs demo_published demo_plan]
  from demo_taken obtain f where "fs_records (snd demo_result) = [f]" "\<not> is_failed f" "fo_err (fst demo_result) = None"
    by blast
  with a show ?thesis by simp
qed

lemma frames_accounted_witness:
  "placed demo_env demo_point (100 * 10 ^ 9) [50 * 10 ^ 9] 0 (hd (fs_records (snd demo_result))) \<and>
   span_bytes (mf_ByteRanges (hd (fs_records (snd demo_result)))) = {0..<90}"
proof -
  from demo_taken obtain f where f: "fs_records (snd demo_result) = [f]" "\<not> is_failed f" by blast
  have w: "en_world demo_env 0 = demo_point" by (simp add: demo_env_def)
  have "list_all (keeps_log (fi_Index (en_file demo_env))) (pw_traffic (en_world demo_env 0))"
    by (simp add: w demo_point_def)
  moreover have "prior_frames (\<lambda>_. None) None [50 * 10 ^ 9] (int 0) = None"
    by (simp add: prior_frames_def reusableFrames_def no_manifest_def)
  ultimately have "placed demo_env demo_point (100 * 10 ^ 9) [50 * 10 ^ 9] 0 f \<and>
      span_bytes (mf_ByteRanges f) = (\<Union>ev\<in>set (pw_traffic demo_point). span_bytes (logged demo_torrent (fi_Index (en_file demo_env)) ev))"
    using frames_accounted [OF demo_runs demo_published demo_plan, of 0] f
    by (simp add: w demo_inspected seekTolerance_def minSeekTolerance_def max_i64_def)
  moreover have "(\<Union>ev\<in>set (pw_traffic demo_point). span_bytes (logged demo_torrent (fi_Index (en_file demo_env)) ev)) = {0..<90}"
    unfolding demo_point_def demo_env_def by code_simp
  ultimately show ?thesis by (simp add: f)
qed

end
