(* ===== verification/Output.thy ===== *)
theory Output
  imports FilePaths Files Manifests
begin

text \<open>
  \<^verbatim>\<open>internal/output/writer.go\<close>, where a run's results live, and the paths of
  \<^verbatim>\<open>internal/manifest/manifest.go\<close>: how a manifest records where its frames are and how a reader
  finds them again, in a tree that may have moved. The tables of \<^verbatim>\<open>unicode\<close> are an argument;
  the writes themselves (a temporary file renamed into place) are not modelled.
\<close>

section \<open>UTF-8\<close>

definition continues :: "char \<Rightarrow> bool" where
  "continues c \<longleftrightarrow> (let n = of_char c :: nat in 128 \<le> n \<and> n < 192)"

definition tail_bits :: "char \<Rightarrow> nat" where
  "tail_bits c = of_char c - 128"

text \<open>The first rune of a text and its width; a byte that starts none is the replacement character.\<close>

definition first_rune :: "char \<Rightarrow> string \<Rightarrow> nat \<times> nat" where
  "first_rune b s =
     (let n = of_char b :: nat in
      if n < 128 then (n, 1)
      else if 194 \<le> n \<and> n < 224 then
        (case s of c # _ \<Rightarrow> if continues c then ((n - 192) * 64 + tail_bits c, 2) else (65533, 1) | _ \<Rightarrow> (65533, 1))
      else if 224 \<le> n \<and> n < 240 then
        (case s of c # d # _ \<Rightarrow>
           if continues c \<and> continues d \<and> (n = 224 \<longrightarrow> 32 \<le> tail_bits c) \<and> (n = 237 \<longrightarrow> tail_bits c < 32)
           then ((n - 224) * 4096 + tail_bits c * 64 + tail_bits d, 3) else (65533, 1) | _ \<Rightarrow> (65533, 1))
      else if 240 \<le> n \<and> n < 245 then
        (case s of c # d # e # _ \<Rightarrow>
           if continues c \<and> continues d \<and> continues e \<and> (n = 240 \<longrightarrow> 16 \<le> tail_bits c) \<and> (n = 244 \<longrightarrow> tail_bits c < 16)
           then ((n - 240) * 262144 + tail_bits c * 4096 + tail_bits d * 64 + tail_bits e, 4) else (65533, 1)
         | _ \<Rightarrow> (65533, 1))
      else (65533, 1))"

function runes :: "string \<Rightarrow> nat list" where
  "runes [] = []"
| "runes (b # s) = (case first_rune b s of (r, w) \<Rightarrow> r # runes (drop (w - 1) s))"
  by pat_completeness auto
termination by (relation "measure length") auto

text \<open>What \<^verbatim>\<open>WriteRune\<close> appends.\<close>

definition rune_bytes :: "nat \<Rightarrow> string" where
  "rune_bytes r =
     (if r < 128 then [char_of r]
      else if r < 2048 then [char_of (192 + r div 64), char_of (128 + r mod 64)]
      else if 1114112 \<le> r \<or> (55296 \<le> r \<and> r < 57344) then [CHR 0xEF, CHR 0xBF, CHR 0xBD]
      else if r < 65536 then [char_of (224 + r div 4096), char_of (128 + r div 64 mod 64), char_of (128 + r mod 64)]
      else [char_of (240 + r div 262144), char_of (128 + r div 4096 mod 64), char_of (128 + r div 64 mod 64),
            char_of (128 + r mod 64)])"

record unicode =
  IsLetter :: "nat \<Rightarrow> bool"
  IsDigit :: "nat \<Rightarrow> bool"
  IsSpace :: "nat \<Rightarrow> bool"
  LowerRune :: "nat \<Rightarrow> nat"

section \<open>Names of directories\<close>

fun slug_runes :: "unicode \<Rightarrow> nat list \<Rightarrow> bool \<Rightarrow> string \<Rightarrow> string" where
  "slug_runes u [] lastDash b = b"
| "slug_runes u (r # rs) lastDash b =
     (if IsLetter u r \<or> IsDigit u r then slug_runes u rs False (b @ rune_bytes (LowerRune u r))
      else if r = 46 \<or> r = 95 \<or> r = 45 \<or> IsSpace u r then
        (if \<not> lastDash \<and> b \<noteq> [] then slug_runes u rs True (b @ ''-'') else slug_runes u rs lastDash b)
      else slug_runes u rs lastDash b)"

definition trim_dashes :: "string \<Rightarrow> string" where
  "trim_dashes s = rev (dropWhile (\<lambda>c. c = CHR ''-'') (rev (dropWhile (\<lambda>c. c = CHR ''-'') s)))"

definition TrimSuffix :: "string \<Rightarrow> string \<Rightarrow> string" where
  "TrimSuffix s t =
     (if length t \<le> length s \<and> drop (length s - length t) s = t then take (length s - length t) s else s)"

text \<open>\<^verbatim>\<open>%0wd\<close>.\<close>

definition padded :: "nat \<Rightarrow> int \<Rightarrow> string" where
  "padded w n =
     (let s = nat_str (nat \<bar>n\<bar>)
      in if n < 0 then CHR ''-'' # replicate (w - 1 - length s) (CHR ''0'') @ s
         else replicate (w - length s) (CHR ''0'') @ s)"

definition maxSlug :: nat where "maxSlug = 60"

definition slug_text :: "unicode \<Rightarrow> string \<Rightarrow> string" where
  "slug_text u path =
     (let normalized = map (\<lambda>c. if c = CHR 0x5C then slash else c) path;
          base = path_Base normalized;
          base = TrimSuffix base (path_Ext base);
          slug = trim_dashes (slug_runes u (runes base) False []);
          slug = (if maxSlug < length slug then trim_dashes (take maxSlug slug) else slug)
      in if slug = [] then ''file'' else slug)"

definition FileSlug :: "unicode \<Rightarrow> int \<Rightarrow> string \<Rightarrow> string" where
  "FileSlug u index path = padded 2 index @ ''-'' @ slug_text u path"

section \<open>The layout of a run's results\<close>

record Layout =
  ly_Root :: string
  ly_InfoHash :: string
  ly_Params :: string

definition RunDir :: "Layout \<Rightarrow> string" where
  "RunDir l = path_Join [ly_Root l, ly_InfoHash l, ly_Params l]"

definition TorrentPath :: "Layout \<Rightarrow> string" where
  "TorrentPath l = path_Join [RunDir l, ly_InfoHash l @ ''.torrent'']"

definition FileDir :: "unicode \<Rightarrow> Layout \<Rightarrow> int \<Rightarrow> string \<Rightarrow> string" where
  "FileDir u l index path = path_Join [RunDir l, FileSlug u index path]"

definition FramesDir :: "unicode \<Rightarrow> Layout \<Rightarrow> int \<Rightarrow> string \<Rightarrow> string" where
  "FramesDir u l index path = path_Join [FileDir u l index path, ''frames'']"

text \<open>The name a frame is written under; the caller's extension may carry its dot.\<close>

definition frame_name :: "int \<Rightarrow> string \<Rightarrow> string" where
  "frame_name index ext = padded 3 index @ ''.'' @ fst (CutPrefix ext ''.'')"

definition WriteFrame :: "unicode \<Rightarrow> Layout \<Rightarrow> int \<Rightarrow> string \<Rightarrow> int \<Rightarrow> string \<Rightarrow> string \<Rightarrow> string option" where
  "WriteFrame u l fileIndex filePath index data ext =
     (if data = [] then None else Some (path_Join [FramesDir u l fileIndex filePath, frame_name index ext]))"

section \<open>The paths of a manifest\<close>

definition mapFramePaths :: "(string \<Rightarrow> string) \<Rightarrow> ManifestFrame list \<Rightarrow> ManifestFrame list" where
  "mapFramePaths convert fs = map (\<lambda>f. if mf_Path f = [] then f else f\<lparr>mf_Path := convert (mf_Path f)\<rparr>) fs"

definition relative_path :: "string \<Rightarrow> string \<Rightarrow> string" where
  "relative_path dir path =
     (case path_Rel dir path of None \<Rightarrow> path | Some rel \<Rightarrow> if IsLocal rel then rel else path)"

definition Relative :: "string \<Rightarrow> Manifest \<Rightarrow> Manifest" where
  "Relative dir m = m\<lparr>m_Frames := mapFramePaths (relative_path dir) (m_Frames m)\<rparr>"

definition frameLocations :: "string \<Rightarrow> string \<Rightarrow> string \<times> string list" where
  "frameLocations dir path =
     (let fallback = (if IsLocal path then path_Join [dir, path] else path);
          candidates = (if IsLocal path then [fallback] else []);
          tail = path_Join [path_Base (path_Dir path), path_Base path];
          neighbour = path_Join [dir, tail];
          candidates = (if IsLocal tail \<and> neighbour \<notin> set candidates then candidates @ [neighbour] else candidates)
      in (fallback, if rooted path then candidates @ [path] else candidates))"

definition resolved_path :: "string \<Rightarrow> (string \<Rightarrow> bool) \<Rightarrow> string \<Rightarrow> string" where
  "resolved_path dir present path =
     (case frameLocations dir path of (fallback, candidates) \<Rightarrow>
        (case find present candidates of Some c \<Rightarrow> c | None \<Rightarrow> fallback))"

definition Resolved :: "string \<Rightarrow> (string \<Rightarrow> bool) \<Rightarrow> Manifest \<Rightarrow> Manifest" where
  "Resolved dir present m = m\<lparr>m_Frames := mapFramePaths (resolved_path dir present) (m_Frames m)\<rparr>"

end
