(* ===== verification/Replay.thy ===== *)
theory Replay
  imports FileRun Output Sources
begin

text \<open>
  \<^verbatim>\<open>internal/core/cached.go\<close>: a run answered from disk, with the events a run publishes. The disk,
  and how long reading it took, are arguments.
\<close>

section \<open>Which results are the same\<close>

text \<open>\<^verbatim>\<open>%.4f\<close>: the exact value rounded to four decimals, ties to even.\<close>

definition tenthousandths :: "f64 \<Rightarrow> nat" where
  "tenthousandths x =
     (let n = nat \<bar>fst x\<bar> * 10000; e = snd x in
      if 0 \<le> e then n * 2 ^ nat e
      else (let k = 2 ^ nat (- e); q = n div k; r = n mod k
            in if k < 2 * r \<or> (2 * r = k \<and> odd q) then q + 1 else q))"

definition fixed4 :: "f64 \<Rightarrow> string" where
  "fixed4 x =
     (let q = tenthousandths x
      in (if fst x < 0 then ''-'' else []) @ nat_str (q div 10000) @ ''.'' @ padded 4 (int (q mod 10000)))"

definition ParamsRaw :: "EngineConfig \<Rightarrow> string" where
  "ParamsRaw cfg =
     Join [''n='' @ Itoa (pn_Count (ec_Plan cfg)), ''start='' @ fixed4 (pn_Start (ec_Plan cfg)),
           ''end='' @ fixed4 (pn_End (ec_Plan cfg)), ''profile='' @ prof_Name (ec_Profile cfg),
           ''format='' @ ec_Format cfg, ''sequential='' @ (if ec_Sequential cfg then ''true'' else ''false'')] '';''"

text \<open>The digest is the hexadecimal form of the first eight bytes of a SHA-256.\<close>

definition ParamsKey :: "(string \<Rightarrow> string) \<Rightarrow> EngineConfig \<Rightarrow> string" where
  "ParamsKey digest cfg = digest (ParamsRaw cfg)"

section \<open>The files of a record\<close>

definition fileInfoFrom :: "CacheFile list \<Rightarrow> FileInfo list" where
  "fileInfoFrom fs =
     map (\<lambda>f. \<lparr>fi_Index = cf_Index f, fi_Path = cf_Path f, fi_Length = cf_Bytes f, fi_Offset = cf_Offset f\<rparr>) fs"

definition videosFromRecord :: "RunRecord \<Rightarrow> FileInfo list" where
  "videosFromRecord r = fileInfoFrom (rr_Videos r)"

definition filesFromRecord :: "RunRecord \<Rightarrow> FileInfo list option" where
  "filesFromRecord r = map_option fileInfoFrom (rr_Files r)"

section \<open>Hits\<close>

record cacheHit =
  ch_layout :: Layout
  ch_record :: RunRecord
  ch_selected :: "FileInfo list"
  ch_manifests :: "Manifest list"

definition file_manifest :: "Disk \<Rightarrow> Layout \<Rightarrow> FileInfo \<Rightarrow> Manifest option" where
  "file_manifest d l f = LoadManifest d (ly_InfoHash l) (ly_Params l) (fi_Index f) (fi_Path f)"

fun hit_manifests :: "Disk \<Rightarrow> Layout \<Rightarrow> int list \<Rightarrow> bool \<Rightarrow> FileInfo list \<Rightarrow> Manifest list option" where
  "hit_manifests d l whole require [] = Some []"
| "hit_manifests d l whole require (f # fs) =
     (if require \<and> fi_Index f \<notin> set whole then None
      else (case file_manifest d l f of
        None \<Rightarrow> None
      | Some m \<Rightarrow>
          if \<not> Usable (StatSize d) m then None
          else map_option ((#) m) (hit_manifests d l whole require fs)))"

definition loadCacheHit :: "Disk \<Rightarrow> Layout \<Rightarrow> RunRecord \<Rightarrow> FileInfo list \<Rightarrow> bool \<Rightarrow> cacheHit option" where
  "loadCacheHit d l r selected requireComplete =
     map_option (\<lambda>ms. \<lparr>ch_layout = l, ch_record = r, ch_selected = selected, ch_manifests = ms\<rparr>)
       (hit_manifests d l (rr_Complete r) requireComplete selected)"

definition producedVideos :: "Disk \<Rightarrow> Layout \<Rightarrow> FileInfo list \<Rightarrow> FileInfo list" where
  "producedVideos d l videos =
     filter (\<lambda>f. case file_manifest d l f of None \<Rightarrow> False | Some m \<Rightarrow> Usable (StatSize d) m) videos"

section \<open>The events of a hit\<close>

definition audioFrom :: "ManifestAudio \<Rightarrow> AudioStream" where
  "audioFrom a =
     \<lparr>as_Index = ma_Index a, as_Codec = ma_Codec a, as_Language = ma_Language a, as_Title = ma_Title a,
      as_Channels = ma_Channels a, as_BitRate = 0, as_Default = ma_Default a\<rparr>"

definition subtitleFrom :: "ManifestSubtitle \<Rightarrow> SubtitleStream" where
  "subtitleFrom u =
     \<lparr>ss_Index = ms_Index u, ss_Codec = ms_Format u, ss_Language = ms_Language u, ss_Title = ms_Title u,
      ss_Forced = ms_Forced u, ss_Default = ms_Default u\<rparr>"

definition mediaFromManifest :: "Manifest \<Rightarrow> MediaInfo" where
  "mediaFromManifest m =
     no_media\<lparr>mi_FormatName := mfl_Container (m_File m), mi_Duration := w64 (mfl_DurationMS (m_File m) * 10 ^ 6),
       mi_Size := mfl_Bytes (m_File m),
       mi_Video := no_video\<lparr>vs_Codec := mv_Codec (m_Video m), vs_Profile := mv_Profile (m_Video m),
         vs_Width := mv_Width (m_Video m), vs_Height := mv_Height (m_Video m), vs_FPS := mv_FPS (m_Video m),
         vs_BitRate := mv_BitRate (m_Video m)\<rparr>,
       mi_Audio := map audioFrom (m_Audio m), mi_Subtitles := map subtitleFrom (m_Subtitles m)\<rparr>"

definition planFromManifest :: "Manifest \<Rightarrow> int list" where
  "planFromManifest m = map (\<lambda>f. w64 (mf_RequestedMS f * 10 ^ 6)) (m_Frames m)"

definition replay_frame :: "int \<Rightarrow> ManifestFrame \<Rightarrow> Event" where
  "replay_frame fl f =
     (if \<not> served f then
        E_FrameSkipped \<lparr>fk_File = fl, fk_Index = mf_Index f,
          fk_Requested = w64 (mf_RequestedMS f * 10 ^ 6), fk_Code = mf_Error f\<rparr>
      else
        E_FrameReady \<lparr>fy_File = fl, fy_Index = mf_Index f,
          fy_Requested = w64 (mf_RequestedMS f * 10 ^ 6),
          fy_Actual = (case mf_ActualMS f of None \<Rightarrow> 0 | Some ms \<Rightarrow> w64 (ms * 10 ^ 6)),
          fy_Shift = mf_Shift f, fy_Path = mf_Path f, fy_Width = mf_Width f, fy_Height = mf_Height f\<rparr>)"

definition on_disk :: "Disk \<Rightarrow> string \<Rightarrow> string" where
  "on_disk d path = (if StatSize d path = None then [] else path)"

definition replay_file :: "unicode \<Rightarrow> Disk \<Rightarrow> Layout \<Rightarrow> Manifest \<Rightarrow> Event list" where
  "replay_file u d l m =
     (let index = mfl_Index (m_File m); path = mfl_Path (m_File m); dir = FileDir u l index path in
      E_FileStarted index path (mediaFromManifest m) (planFromManifest m)
      # map (replay_frame index) (m_Frames m)
      @ [E_FileDone index path (int (length (filter served (m_Frames m)))) 0
           (path_Join [dir, ''manifest.json'']) (on_disk d (path_Join [dir, ''sheet.jpg'']))])"

definition indicesOf :: "FileInfo list \<Rightarrow> int list" where
  "indicesOf fs = map fi_Index fs"

definition hit_publish :: "unicode \<Rightarrow> Disk \<Rightarrow> FileInfo list \<Rightarrow> int \<Rightarrow> cacheHit \<Rightarrow> Event list" where
  "hit_publish u d videos elapsed h =
     (let r = ch_record h in
      E_Metadata \<lparr>me_Name = rr_Name r, me_InfoHash = rr_InfoHash r, me_Private = rr_Private r, me_Videos = videos,
        me_Files = filesFromRecord r, me_Selected = indicesOf (ch_selected h), me_BlindDHT = False\<rparr>
      # concat (map (replay_file u d (ch_layout h)) (ch_manifests h))
      @ [E_Done \<lparr>do_Reason = StopCompleted, do_Files = int (length (ch_manifests h)),
           do_Frames = sum_list (map (\<lambda>m. int (length (filter served (m_Frames m)))) (ch_manifests h)),
           do_DownloadedByte = 0, do_Elapsed = elapsed, do_ClaimedByte = 0, do_ClaimedPieces = 0,
           do_ClaimedRanges = [], do_TorrentPath = on_disk d (TorrentPath (ch_layout h)), do_Warnings = []\<rparr>])"

section \<open>A live request and a reopened run\<close>

definition serveFromCache ::
  "unicode \<Rightarrow> (string \<Rightarrow> string) \<Rightarrow> Disk \<Rightarrow> EngineConfig \<Rightarrow> Source \<Rightarrow> int \<Rightarrow> Event list option" where
  "serveFromCache u digest d cfg src elapsed =
     (case InfoHash src of
        Inl e \<Rightarrow> None
      | Inr hash \<Rightarrow>
          let l = \<lparr>ly_Root = ec_OutputRoot cfg, ly_InfoHash = hash, ly_Params = ParamsKey digest cfg\<rparr> in
          (case LoadRun d hash (ly_Params l) of
             None \<Rightarrow> None
           | Some r \<Rightarrow>
               let videos = videosFromRecord r in
               (case Select videos (ec_Files cfg) of
                  Inl e \<Rightarrow> None
                | Inr selected \<Rightarrow>
                    if selected = [] then None
                    else map_option (hit_publish u d videos elapsed) (loadCacheHit d l r selected True))))"

definition replay_miss :: "string \<Rightarrow> Event list" where
  "replay_miss reason = [E_Failed (-1) (code_text (Some CodeStorage)) [Plain reason]]"

definition ReplayRun :: "unicode \<Rightarrow> Disk \<Rightarrow> string \<Rightarrow> string \<Rightarrow> string \<Rightarrow> int \<Rightarrow> Event list" where
  "ReplayRun u d rt infoHash params elapsed =
     (let l = \<lparr>ly_Root = rt, ly_InfoHash = infoHash, ly_Params = params\<rparr> in
      case LoadRun d infoHash params of
        None \<Rightarrow> replay_miss ''no cached run''
      | Some r \<Rightarrow>
          let videos = videosFromRecord r; selected = producedVideos d l videos in
          if selected = [] then replay_miss ''no frames on disk''
          else (case loadCacheHit d l r selected False of
            None \<Rightarrow> replay_miss ''a frame is missing on disk''
          | Some h \<Rightarrow> hit_publish u d videos elapsed h))"

end
