(* ===== verification/OutputLaws.thy ===== *)
theory OutputLaws
  imports Output
begin

text \<open>
  What the layout promises: a directory of its own for every file of a torrent, under a name that cannot
  lead anywhere else, and manifests that find their frames again wherever the tree is put.
\<close>

section \<open>Names\<close>

text \<open>Of the tables of \<^verbatim>\<open>unicode\<close> only this is used: the lower case of a letter or digit is not a NUL, a dot, a
slash or a backslash.\<close>

definition sane_unicode :: "unicode \<Rightarrow> bool" where
  "sane_unicode u \<longleftrightarrow> (\<forall>r. IsLetter u r \<or> IsDigit u r \<longrightarrow> LowerRune u r \<notin> {0, 46, 47, 92})"

definition safe_char :: "char \<Rightarrow> bool" where
  "safe_char c \<longleftrightarrow> of_char c \<notin> {0, 46, 47, 92 :: nat}"

lemma safe_chars [simp]: "safe_char (CHR ''-'')" "safe_char (CHR ''0'')" "safe_char (CHR ''f'')" "safe_char (CHR ''i'')"
  "safe_char (CHR ''l'')" "safe_char (CHR ''e'')" "\<not> safe_char (CHR ''.'')"
  by (simp_all add: safe_char_def)

lemma safe_not_slash: "safe_char c \<Longrightarrow> c \<noteq> slash"
  by (auto simp: safe_char_def)

lemma high_char: "n < 256 \<Longrightarrow> 128 \<le> n \<Longrightarrow> safe_char (char_of (n :: nat))"
  by (simp add: safe_char_def)

lemma rune_bytes_safe: "r \<notin> {0, 46, 47, 92} \<Longrightarrow> list_all safe_char (rune_bytes r)"
proof -
  assume r: "r \<notin> {0, 46, 47, 92}"
  have m: "safe_char (char_of (128 + n mod 64))" for n :: nat by (rule high_char) simp_all
  show ?thesis
  proof (cases "r < 128")
    case True
    with r show ?thesis by (simp add: rune_bytes_def safe_char_def)
  next
    case False
    have a: "safe_char (char_of (192 + r div 64))" if "r < 2048" using that by (intro high_char) simp_all
    have b: "safe_char (char_of (224 + r div 4096))" if "r < 65536" using that by (intro high_char) simp_all
    have c: "safe_char (char_of (240 + r div 262144))" if "r < 1114112" using that by (intro high_char) simp_all
    have d: "list_all safe_char [CHR 0xEF, CHR 0xBF, CHR 0xBD]" by (simp add: safe_char_def)
    from False a b c d m show ?thesis by (simp add: rune_bytes_def)
  qed
qed

lemma slug_runes_safe:
  "sane_unicode u \<Longrightarrow> list_all safe_char b \<Longrightarrow> list_all safe_char (slug_runes u rs lastDash b)"
  by (induction rs arbitrary: lastDash b) (simp_all add: sane_unicode_def rune_bytes_safe)

lemma set_trim_dashes: "set (trim_dashes s) \<subseteq> set s"
  by (auto simp: trim_dashes_def dest!: set_dropWhileD)

lemma length_trim_dashes: "length (trim_dashes s) \<le> length s"
  by (simp add: trim_dashes_def) (metis length_dropWhile_le length_rev order_trans)

lemma trim_dashes_safe: "list_all safe_char s \<Longrightarrow> list_all safe_char (trim_dashes s)"
  using set_trim_dashes by (auto simp: list_all_iff)

lemma slug_text_safe:
  assumes "sane_unicode u"
  shows "list_all safe_char (slug_text u path)" "slug_text u path \<noteq> []" "length (slug_text u path) \<le> maxSlug"
proof -
  have t: "list_all safe_char s \<Longrightarrow> list_all safe_char (take n s)" for n s
    by (auto simp: list_all_iff dest: in_set_takeD)
  show "list_all safe_char (slug_text u path)"
    using assms by (simp add: slug_text_def Let_def slug_runes_safe trim_dashes_safe t)
  show "slug_text u path \<noteq> []" by (simp add: slug_text_def Let_def)
  show "length (slug_text u path) \<le> maxSlug"
    using length_trim_dashes [of "take maxSlug s" for s] by (auto simp: slug_text_def Let_def maxSlug_def intro: order_trans)
qed

lemma padded_digits: "c \<in> set (padded w n) \<Longrightarrow> c = CHR ''-'' \<and> n < 0 \<or> (\<exists>d. digit_of c = Some d)"
proof -
  assume "c \<in> set (padded w n)"
  then have "c = CHR ''-'' \<and> n < 0 \<or> c = CHR ''0'' \<or> c \<in> set (nat_str (nat \<bar>n\<bar>))"
    by (auto simp: padded_def Let_def split: if_splits)
  moreover have "digit_of (CHR ''0'') = Some 0" by (simp add: digit_of_def)
  ultimately show ?thesis using nat_str_digits by blast
qed

lemma padded_nonempty: "padded w n \<noteq> []"
  by (simp add: padded_def Let_def nat_str_nonempty)

lemma digits_zeros: "digits_val 0 (replicate k (CHR ''0'') @ s) = digits_val 0 s"
  by (induction k) (simp_all add: digit_of_def)

lemma padded_inj: "0 \<le> i \<Longrightarrow> 0 \<le> j \<Longrightarrow> padded w i = padded w j \<Longrightarrow> i = j"
proof -
  assume p: "0 \<le> i" "0 \<le> j" "padded w i = padded w j"
  have v: "digits_val 0 (padded w n) = Some (nat n)" if "0 \<le> n" for n
    using that by (simp add: padded_def Let_def digits_zeros digits_val_nat_str)
  from v [OF p(1)] v [OF p(2)] p(3) have "nat i = nat j" by simp
  with p(1,2) show ?thesis by simp
qed

lemma padded_safe: "list_all safe_char (padded w n)"
proof -
  have "safe_char c" if "digit_of c = Some d" for c d
    using that by (auto simp: digit_of_def safe_char_def Let_def split: if_splits)
  then show ?thesis using padded_digits by (fastforce simp: list_all_iff)
qed

lemma slug_safe: "sane_unicode u \<Longrightarrow> list_all safe_char (FileSlug u i p)"
  by (simp add: FileSlug_def padded_safe slug_text_safe)

lemma slug_plain: "sane_unicode u \<Longrightarrow> plain_part (FileSlug u i p)"
proof -
  assume "sane_unicode u"
  then have s: "list_all safe_char (FileSlug u i p)" by (rule slug_safe)
  have "''.'' \<noteq> FileSlug u i p" "''..'' \<noteq> FileSlug u i p"
    using s safe_chars(7) by (metis list.pred_inject(2))+
  moreover have "slash \<notin> set (FileSlug u i p)" using s safe_not_slash by (auto simp: list_all_iff)
  moreover have "FileSlug u i p \<noteq> []" by (simp add: FileSlug_def)
  ultimately show ?thesis by (simp add: plain_part_def)
qed

lemma slug_inj: "0 \<le> i \<Longrightarrow> 0 \<le> j \<Longrightarrow> FileSlug u i p = FileSlug u j q \<Longrightarrow> i = j"
proof -
  assume a: "0 \<le> i" "0 \<le> j" "FileSlug u i p = FileSlug u j q"
  have nd: "CHR ''-'' \<notin> set (padded 2 n)" if "0 \<le> n" for n
  proof
    assume "CHR ''-'' \<in> set (padded 2 n)"
    with padded_digits [OF this] that show False by (auto simp: digit_of_def)
  qed
  have "Cut (FileSlug u n r) (CHR ''-'') = (padded 2 n, slug_text u r, True)" if "0 \<le> n" for n r
    using Cut_append [OF nd [OF that]] by (simp add: FileSlug_def)
  from this [OF a(1), of p] this [OF a(2), of q] a(3) have "padded 2 i = padded 2 j" by simp
  with padded_inj a(1,2) show ?thesis by blast
qed

lemma RunDir_nonempty: "ly_Root l \<noteq> [] \<Longrightarrow> RunDir l \<noteq> []"
  by (simp add: RunDir_def path_Join_def Clean_nonempty)

lemma FileDir_nonempty: "ly_Root l \<noteq> [] \<Longrightarrow> FileDir u l i p \<noteq> []"
  by (simp add: FileDir_def Join_two_nonempty RunDir_nonempty)

lemma FileDir_parts:
  "ly_Root l \<noteq> [] \<Longrightarrow> sane_unicode u \<Longrightarrow>
     path_parts (FileDir u l i p) = (fst (path_parts (RunDir l)), snd (path_parts (RunDir l)) @ [FileSlug u i p])"
  by (simp add: FileDir_def parts_Join RunDir_nonempty slug_plain)

text \<open>Whatever path a file has inside its torrent, its results go into one directory directly under the
directory of the run, named by a single component that is neither empty nor a step up and holds no
separator, dot or NUL; the part of the name made from the path is at most sixty bytes; and two files of
different indices never share a directory.\<close>

theorem file_dirs_apart:
  assumes "sane_unicode u" "ly_Root l \<noteq> []"
  shows "path_parts (FileDir u l i p) = (fst (path_parts (RunDir l)), snd (path_parts (RunDir l)) @ [FileSlug u i p]) \<and>
    plain_part (FileSlug u i p) \<and> list_all safe_char (FileSlug u i p) \<and> length (slug_text u p) \<le> 60 \<and>
    (0 \<le> i \<and> 0 \<le> j \<and> FileDir u l i p = FileDir u l j q \<longrightarrow> i = j)"
proof -
  have "i = j" if "0 \<le> i" "0 \<le> j" "FileDir u l i p = FileDir u l j q"
  proof -
    from FileDir_parts [OF assms(2,1), of i p] FileDir_parts [OF assms(2,1), of j q] that(3)
    have "FileSlug u i p = FileSlug u j q" by simp
    with slug_inj that(1,2) show ?thesis by blast
  qed
  then show ?thesis
    using FileDir_parts [OF assms(2,1)] slug_plain [OF assms(1)] slug_safe [OF assms(1)] slug_text_safe(3) [OF assms(1)]
    by (simp add: maxSlug_def)
qed

text \<open>The tables of ASCII, with every other rune a letter of one case.\<close>

definition plain_unicode :: unicode where
  "plain_unicode =
     \<lparr>IsLetter = (\<lambda>r. 128 \<le> r \<or> 97 \<le> r \<and> r \<le> 122 \<or> 65 \<le> r \<and> r \<le> 90), IsDigit = (\<lambda>r. 48 \<le> r \<and> r \<le> 57),
      IsSpace = (\<lambda>r. r = 32), LowerRune = (\<lambda>r. if 65 \<le> r \<and> r \<le> 90 then r + 32 else r)\<rparr>"

lemma plain_unicode_sane: "sane_unicode plain_unicode"
  by (auto simp: sane_unicode_def plain_unicode_def)

definition demo_layout :: Layout where
  "demo_layout = \<lparr>ly_Root = ''out'', ly_InfoHash = ''h'', ly_Params = ''p''\<rparr>"

lemma file_dirs_apart_witness:
  "FileDir plain_unicode demo_layout 3 ''../A B.mkv'' = ''out/h/p/03-a-b'' \<and>
   plain_part (FileSlug plain_unicode 3 ''../A B.mkv'') \<and>
   FileDir plain_unicode demo_layout 3 ''../A B.mkv'' \<noteq> FileDir plain_unicode demo_layout 4 ''a.b''"
proof -
  have r: "ly_Root demo_layout \<noteq> []" by (simp add: demo_layout_def)
  have "FileDir plain_unicode demo_layout 3 ''../A B.mkv'' = ''out/h/p/03-a-b''" by code_simp
  with file_dirs_apart [OF plain_unicode_sane r, of 3 "''../A B.mkv''" 4 "''a.b''"] show ?thesis by auto
qed

text \<open>The name is cut at a number of bytes, not of letters: a title in another script can end in half a
letter.\<close>

lemma slug_cuts_letters:
  "last (FileSlug plain_unicode 0 (CHR ''a'' # concat (replicate 30 [CHR 0xD0, CHR 0xB6]) @ ''.mkv'')) = CHR 0xD0"
  by code_simp

section \<open>Manifests that move\<close>

lemma frame_name_plain:
  assumes "slash \<notin> set e"
  shows "plain_part (frame_name n e)"
proof -
  have s: "list_all safe_char (padded 3 n)" by (rule padded_safe)
  obtain c cs where p: "padded 3 n = c # cs" using padded_nonempty [of 3 n] by (cases "padded 3 n") auto
  with s have "c \<noteq> CHR ''.''" by (auto simp: safe_char_def)
  moreover have "slash \<notin> set (fst (CutPrefix e ''.''))"
    using assms by (auto simp: CutPrefix_def dest: in_set_dropD)
  moreover have "slash \<notin> set (padded 3 n)" using s safe_not_slash by (auto simp: list_all_iff)
  ultimately show ?thesis by (simp add: plain_part_def frame_name_def p)
qed

lemma frames_plain: "plain_part ''frames''"
  by (simp add: plain_part_def)

lemma frame_path_parts:
  assumes "d \<noteq> []" "plain_part n"
  shows "path_parts (path_Join [path_Join [d, ''frames''], n]) = (fst (path_parts d), snd (path_parts d) @ [''frames'', n])"
  using assms by (simp add: parts_Join Join_two_nonempty frames_plain)

lemma Join_is_Clean: "d \<noteq> [] \<Longrightarrow> path_Clean (path_Join [d, s]) = path_Join [d, s]"
  by (simp add: path_Join_def Clean_idempotent)

lemma Join_by_parts: "d \<noteq> [] \<Longrightarrow> path_Join [d, s] = path_show (path_parts (path_Join [d, s]))"
  using Join_is_Clean by (simp add: path_Clean_def)

lemma path_Base_last: "n \<noteq> [] \<Longrightarrow> slash \<notin> set n \<Longrightarrow> path_Base (s @ slash # n) = n"
proof -
  assume n: "n \<noteq> []" "slash \<notin> set n"
  then have "hd (rev n) \<noteq> slash" by (metis hd_in_set rev_is_Nil_conv set_rev)
  then have "dropWhile (\<lambda>c. c = slash) (rev n @ slash # rev s) = rev n @ slash # rev s"
    using n(1) by (cases "rev n") simp_all
  moreover have "takeWhile (\<lambda>c. c \<noteq> slash) (rev n @ slash # rev s) = rev n"
    using n(2) by (simp add: takeWhile_append)
  ultimately show ?thesis using n(1) by (simp add: path_Base_def)
qed

lemma path_Base_plain: "plain_part n \<Longrightarrow> path_Base n = n"
proof -
  assume n: "plain_part n"
  then have "hd (rev n) \<noteq> slash" unfolding plain_part_def by (metis hd_in_set rev_is_Nil_conv set_rev)
  then have "dropWhile (\<lambda>c. c = slash) (rev n) = rev n" using n by (cases "rev n") (simp_all add: plain_part_def)
  moreover have "takeWhile (\<lambda>c. c \<noteq> slash) (rev n) = rev n" using n by (auto simp: plain_part_def takeWhile_eq_all_conv)
  then have "rev (takeWhile (\<lambda>c. c \<noteq> slash) (rev n)) = n" by (simp only: rev_rev_ident)
  ultimately show ?thesis using n by (simp add: path_Base_def plain_part_def)
qed

lemma path_Dir_last: "plain_part d \<Longrightarrow> slash \<notin> set n \<Longrightarrow> path_Dir (d @ slash # n) = d"
proof -
  assume d: "plain_part d" and n: "slash \<notin> set n"
  have "dropWhile (\<lambda>c. c \<noteq> slash) (rev n @ slash # rev d) = slash # rev d"
    using n by (subst dropWhile_append2) auto
  then have "path_Dir (d @ slash # n) = path_Clean (d @ [slash])" by (simp add: path_Dir_def)
  also have "\<dots> = d"
    using d by (auto simp: path_Clean_def path_parts_def path_show_def Split_join Split_absent rooted_def plain_part_def
        clean_step_def neq_Nil_conv)
  finally show ?thesis .
qed

lemma relative_frame:
  assumes "d \<noteq> []" "plain_part n"
  shows "relative_path d (path_Join [path_Join [d, ''frames''], n]) = ''frames'' @ slash # n"
proof -
  have "path_Rel d (path_Join [path_Join [d, ''frames''], n]) = Some (path_show (False, [''frames'', n]))"
    by (rule Rel_below) (rule frame_path_parts [OF assms])
  moreover have "IsLocal (path_show (False, [''frames'', n]))"
    using assms(2) frames_plain by (intro show_local) simp_all
  ultimately show ?thesis by (simp add: relative_path_def path_show_def)
qed

lemma resolved_frame:
  assumes "d \<noteq> []" "plain_part n"
  shows "resolved_path d present (''frames'' @ slash # n) = path_Join [path_Join [d, ''frames''], n]"
proof -
  let ?p = "''frames'' @ slash # n"
  have sh: "?p = path_show (False, [''frames'', n])" by (simp add: path_show_def)
  have l: "IsLocal ?p" unfolding sh using assms(2) frames_plain by (intro show_local) simp_all
  have pp: "path_parts ?p = (False, [''frames'', n])"
    unfolding sh using assms(2) frames_plain by (intro parts_show plain_cleaned) simp_all
  have c: "path_Join [path_Base (path_Dir ?p), path_Base ?p] = ?p"
  proof -
    have "path_Dir ?p = ''frames''" "path_Base ?p = n"
      using assms(2) frames_plain by (intro path_Dir_last path_Base_last; simp add: plain_part_def)+
    moreover have "path_Join [''frames'', n] = path_Clean ?p" by (simp add: path_Join_def)
    moreover have "path_Clean ?p = ?p" unfolding path_Clean_def pp by (simp only: sh)
    ultimately show ?thesis using path_Base_plain [OF frames_plain] by simp
  qed
  have "path_Join [d, ?p] = path_show (fst (path_parts d), snd (path_parts d) @ [''frames'', n])"
    using Join_by_parts [OF assms(1), of ?p] parts_local_Join [OF l assms(1)] pp by simp
  also have "\<dots> = path_Join [path_Join [d, ''frames''], n]"
    using frame_path_parts [OF assms] Join_by_parts [OF Join_two_nonempty [OF assms(1)], of "''frames''" n] by simp
  finally have e: "path_Join [d, ?p] = path_Join [path_Join [d, ''frames''], n]" .
  have "rooted ?p = False" by (simp add: rooted_def)
  then show ?thesis using l c e by (simp add: resolved_path_def frameLocations_def Let_def)
qed

text \<open>The frames of a file as a run writes them; \<open>None\<close> is a point without a frame.\<close>

definition at_home ::
  "unicode \<Rightarrow> Layout \<Rightarrow> int \<Rightarrow> string \<Rightarrow> (ManifestFrame \<times> (int \<times> string) option) list \<Rightarrow> ManifestFrame list" where
  "at_home u l i p fs =
     map (\<lambda>(f, name). f\<lparr>mf_Path := (case name of None \<Rightarrow> []
       | Some (n, e) \<Rightarrow> path_Join [FramesDir u l i p, frame_name n e])\<rparr>) fs"

text \<open>C17: A manifest outlives its tree. What a run writes for a file's frames is relative to the file's own
directory, and reading it back from the same place, or from wherever the tree was copied or moved to,
gives every frame its path in the tree that is read, whatever is or is not on disk there; read in place
that is the manifest as it was before it was written.\<close>

theorem manifest_portable:
  assumes "sane_unicode u" "ly_Root l \<noteq> []" "ly_Root l' \<noteq> []"
    and "\<forall>(f, name) \<in> set fs. case name of None \<Rightarrow> True | Some (n, e) \<Rightarrow> slash \<notin> set e"
  shows "Resolved (FileDir u l' i p) present (Relative (FileDir u l i p) (m\<lparr>m_Frames := at_home u l i p fs\<rparr>)) =
    m\<lparr>m_Frames := at_home u l' i p fs\<rparr>"
proof -
  have one: "resolved_path (FileDir u l' i p) present (relative_path (FileDir u l i p)
      (path_Join [FramesDir u l i p, frame_name n e])) = path_Join [FramesDir u l' i p, frame_name n e]"
    "path_Join [FramesDir u l i p, frame_name n e] \<noteq> []"
    "relative_path (FileDir u l i p) (path_Join [FramesDir u l i p, frame_name n e]) \<noteq> []"
    if "slash \<notin> set e" for n e
    using relative_frame [OF FileDir_nonempty [OF assms(2)] frame_name_plain [OF that]]
      resolved_frame [OF FileDir_nonempty [OF assms(3)] frame_name_plain [OF that]]
    by (simp_all add: FramesDir_def Join_two_nonempty FileDir_nonempty [OF assms(2)])
  have "mapFramePaths (resolved_path (FileDir u l' i p) present)
      (mapFramePaths (relative_path (FileDir u l i p)) (at_home u l i p fs)) = at_home u l' i p fs"
    unfolding mapFramePaths_def at_home_def map_map
  proof (rule map_cong [OF refl])
    fix x assume "x \<in> set fs"
    moreover obtain f name where "x = (f, name)" by (cases x)
    ultimately have "case name of None \<Rightarrow> True | Some (n, e) \<Rightarrow> slash \<notin> set e" "x = (f, name)"
      using assms(4) by auto
    with one show "((\<lambda>f. if mf_Path f = [] then f else f\<lparr>mf_Path := resolved_path (FileDir u l' i p) present (mf_Path f)\<rparr>) \<circ>
        ((\<lambda>f. if mf_Path f = [] then f else f\<lparr>mf_Path := relative_path (FileDir u l i p) (mf_Path f)\<rparr>) \<circ>
         (\<lambda>(f, name). f\<lparr>mf_Path := case name of None \<Rightarrow> [] | Some (n, e) \<Rightarrow> path_Join [FramesDir u l i p, frame_name n e]\<rparr>))) x =
       (case x of (f, name) \<Rightarrow> f\<lparr>mf_Path := case name of None \<Rightarrow> []
          | Some (n, e) \<Rightarrow> path_Join [FramesDir u l' i p, frame_name n e]\<rparr>)"
      by (cases name) auto
  qed
  then show ?thesis by (simp add: Resolved_def Relative_def)
qed

lemma manifest_portable_witness:
  "Resolved ''away/h/p/00-a'' (\<lambda>_. False) (Relative ''out/h/p/00-a''
     (no_manifest\<lparr>m_Frames := [no_frame\<lparr>mf_Path := ''out/h/p/00-a/frames/007.jpg''\<rparr>]\<rparr>)) =
   no_manifest\<lparr>m_Frames := [no_frame\<lparr>mf_Path := ''away/h/p/00-a/frames/007.jpg''\<rparr>]\<rparr>"
proof -
  let ?l = "\<lparr>ly_Root = ''away'', ly_InfoHash = ''h'', ly_Params = ''p''\<rparr>"
  have d: "FileDir plain_unicode demo_layout 0 ''a.mkv'' = ''out/h/p/00-a''" "FileDir plain_unicode ?l 0 ''a.mkv'' = ''away/h/p/00-a''"
    by code_simp+
  have f: "path_Join [FramesDir plain_unicode demo_layout 0 ''a.mkv'', frame_name 7 ''jpg''] = ''out/h/p/00-a/frames/007.jpg''"
    "path_Join [FramesDir plain_unicode ?l 0 ''a.mkv'', frame_name 7 ''jpg''] = ''away/h/p/00-a/frames/007.jpg''"
    by code_simp+
  from manifest_portable [OF plain_unicode_sane, of demo_layout ?l "[(no_frame, Some (7, ''jpg''))]" 0 "''a.mkv''" "\<lambda>_. False" no_manifest]
  show ?thesis by (simp add: d f at_home_def) (simp add: demo_layout_def)
qed

text \<open>A frame is only ever looked for inside the directory its manifest was read from, except where an older
manifest names an absolute place or one outside.\<close>

lemma resolved_inside:
  assumes "d \<noteq> []"
  shows "inside d (resolved_path d present s) \<or> \<not> IsLocal s \<and> resolved_path d present s = s"
proof -
  have "case frameLocations d s of (fb, cs) \<Rightarrow> \<forall>c\<in>set (fb # cs). inside d c \<or> \<not> IsLocal s \<and> c = s"
    using assms by (auto simp: frameLocations_def Let_def local_inside IsLocal_def)
  then show ?thesis
    by (auto simp: resolved_path_def split: prod.splits option.splits dest!: find_Some_iff [THEN iffD1] nth_mem)
qed

end
