(* ===== verification/ReplayLaws.thy ===== *)
theory ReplayLaws
  imports Replay FileProperties OutputLaws
begin

text \<open>
  A replay tells what the run told, and the key of a result set says which runs it answers.
\<close>

section \<open>The events of a file's frames\<close>

definition whole_ms :: "int \<Rightarrow> int" where
  "whole_ms d = w64 (Milliseconds d * 10 ^ 6)"

text \<open>A frame event as a manifest can repeat it: its times in whole milliseconds.\<close>

fun whole :: "Event \<Rightarrow> Event" where
  "whole (E_FrameReady r) =
     E_FrameReady (r\<lparr>fy_Requested := whole_ms (fy_Requested r), fy_Actual := whole_ms (fy_Actual r)\<rparr>)"
| "whole (E_FrameSkipped r) = E_FrameSkipped (r\<lparr>fk_Requested := whole_ms (fk_Requested r)\<rparr>)"
| "whole e = e"

fun of_frame :: "Event \<Rightarrow> bool" where
  "of_frame (E_FrameReady r) = True"
| "of_frame (E_FrameSkipped r) = True"
| "of_frame e = False"

definition told :: "FileState \<Rightarrow> Event list" where
  "told s = map whole (filter of_frame (fs_events s))"

lemma told_fields [simp]:
  "told (publish ev s) = told s @ (if of_frame ev then [whole ev] else [])"
  "told (on_torrent h s) = told s" "told (record_frame f s) = told s" "told (s\<lparr>fs_produced := n\<rparr>) = told s"
  "told (s\<lparr>fs_skipped := n\<rparr>) = told s" "told (s\<lparr>fs_torrent := t\<rparr>) = told s" "told (s\<lparr>fs_clock := c\<rparr>) = told s"
  by (simp_all add: told_def publish_def on_torrent_def record_frame_def)

lemma of_frame_progress [simp]: "\<not> of_frame (progress fl n all g st)"
  by (simp add: progress_def split: prod.split)

text \<open>The records and what was told of them grow together.\<close>

definition tells :: "int \<Rightarrow> FileState \<Rightarrow> FileState \<Rightarrow> bool" where
  "tells fl s s' \<longleftrightarrow>
     (\<exists>rs. fs_records s' = fs_records s @ rs \<and> told s' = told s @ map (replay_frame fl) rs)"

lemma tells_refl: "fs_records s' = fs_records s \<Longrightarrow> told s' = told s \<Longrightarrow> tells fl s s'"
  by (simp add: tells_def)

lemma tells_trans: "tells fl s u \<Longrightarrow> tells fl u s' \<Longrightarrow> tells fl s s'"
  unfolding tells_def by (metis append.assoc map_append)

lemma tells_one:
  "fs_records s' = fs_records s @ [f] \<Longrightarrow> told s' = told s @ [replay_frame fl f] \<Longrightarrow> tells fl s s'"
  unfolding tells_def by (intro exI [of _ "[f]"]) simp

lemma observe_quiet [simp]: "told (snd (observe g code s)) = told s" "fs_records (snd (observe g code s)) = fs_records s"
  by (simp_all add: observe_def split: prod.split)

lemma observe_then_quiet [simp]:
  "told (case observe g code s of (stall, u) \<Rightarrow> publish (progress fl (n u) all g stall) u) = told s"
  "fs_records (case observe g code s of (stall, u) \<Rightarrow> publish (progress fl (n u) all g stall) u) = fs_records s"
  using observe_quiet [of g code s] by (cases "observe g code s"; simp)+

lemma heartbeats_quiet [simp]: "told (foldl (heartbeat fl) s gs) = told s"
proof (induction gs arbitrary: s)
  case (Cons g gs)
  have "told (heartbeat fl s g) = told s" by (simp add: heartbeat_def split: option.split)
  with Cons show ?case by simp
qed simp

lemma skip_tells: "whole (skip_event en i moment code) = replay_frame (fi_Index (en_file en)) (failed_frame i moment code)"
  by (simp add: skip_event_def replay_frame_def failed_frame_def served_def whole_ms_def no_frame_def)

lemma of_frame_skip [simp]: "of_frame (skip_event en i moment code)"
  by (simp add: skip_event_def)

lemma reuse_tells:
  assumes "served f" "mf_Index f = int i" "mf_RequestedMS f = Milliseconds moment"
    and "\<And>ms. mf_ActualMS f = Some ms \<Longrightarrow> min_i64 \<le> ms * 10 ^ 6 \<and> ms * 10 ^ 6 \<le> max_i64"
  shows "tells (fi_Index (en_file en)) s (reuse_point en moment i f s)"
proof (rule tells_one)
  have a: "whole_ms (case mf_ActualMS f of None \<Rightarrow> 0 | Some ms \<Rightarrow> w64 (ms * 10 ^ 6)) =
      (case mf_ActualMS f of None \<Rightarrow> 0 | Some ms \<Rightarrow> w64 (ms * 10 ^ 6))"
  proof (cases "mf_ActualMS f")
    case None
    then show ?thesis by (simp add: whole_ms_def Milliseconds_def w64_def)
  next
    case (Some ms)
    have "w64 (ms * 10 ^ 6) = ms * 10 ^ 6" using assms(4) [OF Some] by (intro w64_id) simp_all
    moreover have "(ms * 10 ^ 6) sdiv 10 ^ 6 = ms" by (simp add: signed_divide_int_def sgn_mult abs_mult sgn_mult_abs)
    ultimately show ?thesis using Some by (simp add: whole_ms_def Milliseconds_def)
  qed
  show "fs_records (reuse_point en moment i f s) = fs_records s @ [f]" by (simp add: reuse_point_def Let_def)
  show "told (reuse_point en moment i f s) = told s @ [replay_frame (fi_Index (en_file en)) f]"
    using assms(1-3) a by (simp add: reuse_point_def Let_def replay_frame_def whole_ms_def)
qed

lemma new_point_tells:
  assumes "new_point en ex duration points i s = (s', oc)"
    and "\<And>path. pw_write (en_world en i) = Inr path \<Longrightarrow> path \<noteq> []"
  shows "tells (fi_Index (en_file en)) s s'"
proof (cases "halted en i")
  case True
  then show ?thesis using assms by (simp add: new_point_def halted_def Let_def tells_refl)
next
  case False
  let ?w = "en_world en i" and ?fl = "fi_Index (en_file en)"
  let ?tol = "seekTolerance points" and ?fr = "fr_of en ex (en_world en i)" and ?kf = "kf_of (en_world en i)"
  let ?all = "int (length points)"
  define u where "u = foldl (heartbeat ?fl) (on_torrent (\<lambda>t. claim_run (StartClaimLog ?fl t) (pw_traffic ?w))
    (case fst (Warning (pw_tracker ?w) (pw_reading ?w)) of None \<Rightarrow> s | Some x \<Rightarrow> publish (E_BudgetWarning x) s)) (pw_beats ?w)"
  have "tells ?fl s u" unfolding u_def by (rule tells_refl) (simp_all split: option.split)
  moreover
  let ?c = "captureOne (pw_avail ?w) (ec_Profile (en_cfg en)) (en_file en) ?kf ?fr duration (points ! i) (?tol sdiv 4)"
  from False have s': "(s', oc) =
    (case ?c of
       Inl err \<Rightarrow> (skip_point en ?all (points ! i) i ?w err u, GoOn)
     | Inr shot \<Rightarrow>
         if \<not> landedNear (cp_asked shot) (cp_actual shot) ?tol then (miss_point en (points ! i) i ?w u, GoOn)
         else keep_point en ?all (points ! i) i ?w (rejectBlank ?kf ?fr (en_blank en) (?tol sdiv 4) shot) u)"
    using assms(1) unfolding new_point_def halted_def Let_def u_def [symmetric] by (simp split: sum.split)
  have "tells ?fl u s'"
  proof (cases ?c)
    case (Inl err)
    with s' have e: "s' = skip_point en ?all (points ! i) i ?w err u" by simp
    show ?thesis unfolding e skip_point_def Let_def by (rule tells_one) (simp_all add: skip_tells)
  next
    case (Inr shot)
    show ?thesis
    proof (cases "landedNear (cp_asked shot) (cp_actual shot) ?tol")
      case False
      with s' Inr have e: "s' = miss_point en (points ! i) i ?w u" by simp
      show ?thesis unfolding e miss_point_def Let_def by (rule tells_one) (simp_all add: skip_tells)
    next
      case True
      let ?shot = "rejectBlank ?kf ?fr (en_blank en) (?tol sdiv 4) shot"
      from s' Inr True have k: "keep_point en ?all (points ! i) i ?w ?shot u = (s', oc)" by simp
      obtain rs t where e: "EndClaimLog ?fl (fs_torrent u) = (rs, t)" by (cases "EndClaimLog ?fl (fs_torrent u)")
      show ?thesis
      proof (cases "pw_write ?w")
        case (Inl err)
        with k e have "s' = u\<lparr>fs_torrent := t\<rparr>" by (simp add: keep_point_def)
        then show ?thesis by (simp add: tells_refl)
      next
        case path: (Inr path)
        let ?f = "\<lparr>mf_Index = int i, mf_RequestedMS = Milliseconds (points ! i),
             mf_ActualMS = Some (Milliseconds (cp_actual ?shot)), mf_Path = path, mf_Shift = cp_shift ?shot,
             mf_Width = frm_Width (cp_frame ?shot), mf_Height = frm_Height (cp_frame ?shot), mf_Error = [],
             mf_ByteRanges = rs\<rparr>"
        let ?r = "\<lparr>fy_File = ?fl, fy_Index = int i, fy_Requested = points ! i, fy_Actual = cp_actual ?shot,
             fy_Shift = cp_shift ?shot, fy_Path = path, fy_Width = frm_Width (cp_frame ?shot),
             fy_Height = frm_Height (cp_frame ?shot)\<rparr>"
        let ?v = "publish (E_FrameReady ?r) (record_frame ?f (u\<lparr>fs_torrent := t, fs_produced := fs_produced u + 1\<rparr>))"
        obtain st w where o: "observe (pw_gauge ?w) None ?v = (st, w)" by (cases "observe (pw_gauge ?w) None ?v")
        have "s' = publish (progress ?fl (fs_produced w) ?all (pw_gauge ?w) st) w"
          using k o unfolding keep_point_def Let_def e path by simp
        moreover have "told w = told ?v" "fs_records w = fs_records ?v"
          using observe_quiet [of "pw_gauge ?w" None ?v] unfolding o by simp_all
        moreover have "path \<noteq> []" "cp_shift ?shot \<noteq> ShiftFailed"
          using assms(2) [OF path] captured_shift [OF Inr, of "en_blank en" "?tol sdiv 4"] by simp_all
        ultimately show ?thesis
          by (intro tells_one [where f = ?f]) (simp_all add: replay_frame_def served_def whole_ms_def)
      qed
    qed
  qed
  ultimately show ?thesis by (rule tells_trans)
qed

text \<open>What an earlier run recorded fits a duration.\<close>

definition times_fit :: "Manifest option \<Rightarrow> bool" where
  "times_fit prior \<longleftrightarrow>
     (\<forall>m f ms. prior = Some m \<and> f \<in> set (m_Frames m) \<and> mf_ActualMS f = Some ms \<longrightarrow>
        min_i64 \<le> ms * 10 ^ 6 \<and> ms * 10 ^ 6 \<le> max_i64)"

lemma take_points_tells:
  assumes "take_points en ex duration points (prior_frames stat prior points) is s = (s', r)" "times_fit prior"
    and "\<And>i path. pw_write (en_world en i) = Inr path \<Longrightarrow> path \<noteq> []"
  shows "tells (fi_Index (en_file en)) s s'"
  using assms(1)
proof (induction "is" arbitrary: s)
  case Nil
  then show ?case by (simp add: tells_refl)
next
  case (Cons i "is")
  let ?s = "on_torrent (\<lambda>t. claim_run t (pw_other (en_world en i))) s" and ?fl = "fi_Index (en_file en)"
  have 0: "tells ?fl s ?s" by (simp add: tells_refl)
  show ?case
  proof (cases "prior_frames stat prior points (int i)")
    case (Some f)
    note p = prior_frames_sound [OF Some]
    from p have "served f" "mf_Index f = int i" "mf_RequestedMS f = Milliseconds (points ! i)"
      by (auto simp: reusable_def served_def split: if_splits)
    moreover from p assms(2) have "min_i64 \<le> ms * 10 ^ 6 \<and> ms * 10 ^ 6 \<le> max_i64" if "mf_ActualMS f = Some ms" for ms
      using that by (auto simp: times_fit_def)
    ultimately have "tells ?fl ?s (reuse_point en (points ! i) i f ?s)" by (rule reuse_tells)
    moreover have "tells ?fl (reuse_point en (points ! i) i f ?s) s'"
      using Cons.prems Some by (intro Cons.IH) simp
    ultimately show ?thesis using 0 tells_trans by blast
  next
    case None
    obtain u oc where np: "new_point en ex duration points i ?s = (u, oc)" by (cases "new_point en ex duration points i ?s")
    have "tells ?fl ?s u" by (rule new_point_tells [OF np]) (rule assms(3))
    moreover have "tells ?fl u s'"
    proof (cases oc)
      case GoOn
      with Cons.prems None np show ?thesis by (intro Cons.IH) simp
    qed (use Cons.prems None np in \<open>simp_all add: tells_refl\<close>)
    ultimately show ?thesis using 0 tells_trans by blast
  qed
qed

lemma finish_file_tells:
  assumes "finish_file en fw tone info points seq s = (r, s')"
  shows "told s' = told s" "fs_records s' = fs_records s"
    "fo_err r = None \<Longrightarrow> \<exists>m t. fo_manifest r = Some m \<and> m = writeManifest en fw t tone info (fs_records s) seq"
  using assms by (auto simp: finish_file_def Let_def file_failed_def split: sum.splits)

lemma file_paths:
  assumes "file_tally en ex duration points (prior_frames stat prior points) t s" "f \<in> set (fs_records s)" "\<not> is_failed f"
    and "\<forall>i path. pw_write (en_world en i) = Inr path \<longrightarrow> path \<noteq> []"
  shows "mf_Path f \<noteq> []"
proof -
  from assms(2) obtain i where i: "i < length (fs_records s)" "f = fs_records s ! i" by (auto simp: in_set_conv_nth)
  with assms(1) have ok: "record_ok en ex duration points (prior_frames stat prior points) t i f" by (simp add: file_tally_def)
  show ?thesis
  proof (cases "prior_frames stat prior points (int i)")
    case None
    with ok assms(3) obtain v where "taken en ex duration points i v f"
      by (auto simp: record_ok_def new_record_def failed_frame_def)
    from taken_fields(5) [OF this] assms(4) show ?thesis by blast
  next
    case (Some g)
    with ok prior_frames_sound [OF Some] show ?thesis by (auto simp: record_ok_def reusable_def split: if_splits)
  qed
qed

section \<open>A replay retells the run\<close>

text \<open>C16: A replay tells what the run told. Of a file whose work ended without an error, the manifest repeats
every frame and every gap, in the order and with the index, the shift, the path, the size and the code
the run announced, its times in whole milliseconds; the plan it states is that of the points the run got
to, and the number of frames it gives at the end is the number the run made.\<close>

theorem replay_retells:
  assumes "processFile en stat prior ex iw fw t = (r, s)" "iw_publish iw = None"
    and "plan_points (en_cfg en) iw = Inr (info, points, seq)" "fo_err r = None"
    and "times_fit prior" "\<forall>i path. pw_write (en_world en i) = Inr path \<longrightarrow> path \<noteq> []"
  shows "\<exists>m. fo_manifest r = Some m \<and>
    map whole (filter of_frame (fs_events s)) = filter of_frame (replay_file u d l m) \<and>
    planFromManifest m = map whole_ms (take (length (fs_records s)) points) \<and>
    (\<exists>k p a b. last (replay_file u d l m) = E_FileDone k p (fo_produced r) 0 a b)"
proof -
  note acc = processFile_tally [OF assms(1-3)]
  let ?fl = "fi_Index (en_file en)"
  let ?s0 = "publish (E_FileStarted ?fl (fi_Path (en_file en)) info points) (foldl (heartbeat ?fl) (new_file_state t) (iw_beats iw))"
  let ?ex = "WithToneMap ex (ToneMapOf (mi_Video info))"
  obtain v e where tp: "take_points en ?ex (mi_Duration info) points (prior_frames stat prior points) [0..<length points] ?s0 = (v, e)"
    by (cases "take_points en ?ex (mi_Duration info) points (prior_frames stat prior points) [0..<length points] ?s0")
  have res: "(r, s) = (case e of Some err \<Rightarrow> (file_failed (fs_produced v) err, v)
      | None \<Rightarrow> finish_file en fw (ToneMapOf (mi_Video info)) info points seq v)"
    using assms(1-3) tp unfolding processFile_def Let_def prior_frames_def [symmetric] by (simp split: option.splits)
  with assms(4) have "finish_file en fw (ToneMapOf (mi_Video info)) info points seq v = (r, s)"
    by (cases e) (auto simp: file_failed_def)
  note f = finish_file_tells [OF this]
  from f(3) [OF assms(4)] obtain m t' where m: "fo_manifest r = Some m"
      "m = writeManifest en fw t' (ToneMapOf (mi_Video info)) info (fs_records v) seq" by blast
  have mf: "m_Frames m = fs_records s" "mfl_Index (m_File m) = ?fl"
    using f(2) by (simp_all add: m(2) writeManifest_def Let_def split: prod.split)
  have "tells ?fl ?s0 v" by (rule take_points_tells [OF tp assms(5)]) (use assms(6) in blast)
  moreover have "told ?s0 = [] \<and> fs_records ?s0 = []"
    using heartbeats_shown [of ?fl "new_file_state t"] by (simp add: shown_def new_file_state_def) (simp add: told_def)
  ultimately have "told v = map (replay_frame ?fl) (fs_records v)" by (auto simp: tells_def)
  then have told: "map whole (filter of_frame (fs_events s)) = map (replay_frame ?fl) (m_Frames m)"
    using f(1,2) by (simp add: told_def mf)
  have rep: "filter of_frame (replay_file u d l m) = map (replay_frame ?fl) (m_Frames m)"
    by (simp add: replay_file_def Let_def mf filter_map o_def) (simp add: replay_frame_def)
  have "mf_RequestedMS (fs_records s ! i) = Milliseconds (points ! i)" if "i < length (fs_records s)" for i
    using acc(1) prior_frames_sound that unfolding file_tally_def by (blast intro: record_requested)
  then have "map mf_RequestedMS (fs_records s) = map Milliseconds (take (length (fs_records s)) points)"
    using acc(2) by (auto intro: nth_equalityI)
  then have "map (\<lambda>ms. w64 (ms * 10 ^ 6)) (map mf_RequestedMS (fs_records s)) =
      map (\<lambda>ms. w64 (ms * 10 ^ 6)) (map Milliseconds (take (length (fs_records s)) points))"
    by (rule arg_cong)
  then have "planFromManifest m = map whole_ms (take (length (fs_records s)) points)"
    by (simp add: planFromManifest_def mf whole_ms_def o_def)
  moreover have "filter served (fs_records s) = filter (\<lambda>f. \<not> is_failed f) (fs_records s)"
    using file_paths [OF acc(1)] assms(6) by (intro filter_cong [OF refl]) (auto simp: served_def)
  ultimately show ?thesis using m(1) told rep acc(1,3) by (auto simp: replay_file_def Let_def mf file_tally_def)
qed

lemma replay_retells_witness:
  "\<forall>d. \<exists>m. fo_manifest (fst demo_result) = Some m \<and> length (m_Frames m) = 1 \<and>
     map whole (filter of_frame (fs_events (snd demo_result))) =
     filter of_frame (replay_file plain_unicode d demo_layout m) \<and>
     planFromManifest m = [50 * 10 ^ 9]"
proof
  fix d
  from demo_taken obtain f where f: "fs_records (snd demo_result) = [f]" "fo_err (fst demo_result) = None" by blast
  have w: "\<forall>i path. pw_write (en_world demo_env i) = Inr path \<longrightarrow> path \<noteq> []" by (simp add: demo_env_def demo_point_def)
  have "times_fit None" by (simp add: times_fit_def)
  from replay_retells [OF demo_runs demo_published demo_plan f(2) this w, of plain_unicode d demo_layout] obtain m where
    m: "fo_manifest (fst demo_result) = Some m"
      "map whole (filter of_frame (fs_events (snd demo_result))) = filter of_frame (replay_file plain_unicode d demo_layout m)"
      "planFromManifest m = map whole_ms (take (length (fs_records (snd demo_result))) [50 * 10 ^ 9])"
    by blast
  have "whole_ms (50 * 10 ^ 9) = 50 * 10 ^ 9" by (simp add: whole_ms_def Milliseconds_def w64_def)
  with m(3) f(1) have p: "planFromManifest m = [50 * 10 ^ 9]" by simp
  then have "length (m_Frames m) = 1" by (metis One_nat_def length_Cons length_map list.size(3) planFromManifest_def)
  with m p show "\<exists>m. fo_manifest (fst demo_result) = Some m \<and> length (m_Frames m) = 1 \<and>
     map whole (filter of_frame (fs_events (snd demo_result))) =
     filter of_frame (replay_file plain_unicode d demo_layout m) \<and>
     planFromManifest m = [50 * 10 ^ 9]" by blast
qed

text \<open>What a replay does not repeat: the number of skips a run gives at the end of a file is nought in a
replay, whatever gaps were told before it.\<close>

lemma replay_forgets_skips:
  "\<exists>k p n a b. last (replay_file u d l m) = E_FileDone k p n 0 a b \<and> n = int (length (filter served (m_Frames m)))"
  by (simp add: replay_file_def Let_def)

section \<open>Which runs share a result set\<close>

lemma Itoa_inj: "Itoa a = Itoa b \<Longrightarrow> a = b"
proof -
  assume e: "Itoa a = Itoa b"
  have m: "CHR ''-'' \<notin> set (nat_str n)" for n
    using nat_str_digits [of "CHR ''-''" n] by (auto simp: digit_of_def)
  have v: "nat_str x = nat_str y \<Longrightarrow> x = y" for x y
    by (metis digits_val_nat_str option.inject)
  have "nat_str n \<noteq> CHR ''-'' # s" for n s using m [of n] by auto
  then show ?thesis using e v m by (auto simp: Itoa_def split: if_splits dest!: v) (metis int_nat_eq not_less nat_0_le v)+
qed

lemma fixed4_inj: "fixed4 x = fixed4 y \<longleftrightarrow> (fst x < 0 \<longleftrightarrow> fst y < 0) \<and> tenthousandths x = tenthousandths y"
proof
  assume e: "fixed4 x = fixed4 y"
  let ?q = tenthousandths
  have no: "c \<notin> set (nat_str n)" if "digit_of c = None" for c n using nat_str_digits [of c n] that by auto
  have dash: "hd (fixed4 z) = CHR ''-'' \<longleftrightarrow> fst z < 0" for z
  proof (cases "fst z < 0")
    case False
    have "hd (nat_str (?q z div 10000)) \<noteq> CHR ''-''"
      using no [of "CHR ''-''" "?q z div 10000"] nat_str_nonempty [of "?q z div 10000"]
      by (cases "nat_str (?q z div 10000)") (auto simp: digit_of_def)
    with False show ?thesis by (simp add: fixed4_def Let_def nat_str_nonempty)
  qed (simp add: fixed4_def Let_def)
  have s: "fst x < 0 \<longleftrightarrow> fst y < 0" using dash [of x] dash [of y] e by simp
  have "CHR ''.'' \<notin> set (nat_str n)" for n using no [of "CHR ''.''" n] by (simp add: digit_of_def)
  then have c: "Cut (nat_str (?q z div 10000) @ CHR ''.'' # padded 4 (int (?q z mod 10000))) (CHR ''.'') =
      (nat_str (?q z div 10000), padded 4 (int (?q z mod 10000)), True)" for z by (rule Cut_append)
  define b where "b z = nat_str (?q z div 10000) @ CHR ''.'' # padded 4 (int (?q z mod 10000))" for z
  have "fixed4 z = (if fst z < 0 then ''-'' else []) @ b z" for z by (simp add: fixed4_def Let_def b_def)
  then have "b x = b y" using e s by (cases "fst x < 0") simp_all
  with c [of x, folded b_def] c [of y, folded b_def] have "nat_str (?q x div 10000) = nat_str (?q y div 10000)"
    "padded 4 (int (?q x mod 10000)) = padded 4 (int (?q y mod 10000))" by simp_all
  then have "?q x div 10000 = ?q y div 10000" "?q x mod 10000 = ?q y mod 10000"
    using padded_inj [of "int (?q x mod 10000)" "int (?q y mod 10000)" 4] by (metis digits_val_nat_str option.inject, simp)
  then have "?q x = ?q y" by (metis div_mult_mod_eq)
  with s show "(fst x < 0 \<longleftrightarrow> fst y < 0) \<and> ?q x = ?q y" by simp
qed (simp add: fixed4_def)

definition alike :: "EngineConfig \<Rightarrow> EngineConfig \<Rightarrow> bool" where
  "alike c c' \<longleftrightarrow>
     pn_Count (ec_Plan c) = pn_Count (ec_Plan c') \<and> fixed4 (pn_Start (ec_Plan c)) = fixed4 (pn_Start (ec_Plan c')) \<and>
     fixed4 (pn_End (ec_Plan c)) = fixed4 (pn_End (ec_Plan c')) \<and>
     prof_Name (ec_Profile c) = prof_Name (ec_Profile c') \<and> ec_Format c = ec_Format c' \<and>
     ec_Sequential c = ec_Sequential c'"

lemma ParamsRaw_alike:
  assumes "\<forall>c\<in>{a, b}. CHR '';'' \<notin> set (prof_Name (ec_Profile c)) \<and> CHR '';'' \<notin> set (ec_Format c)"
  shows "ParamsRaw a = ParamsRaw b \<longleftrightarrow> alike a b"
proof
  let ?fs = "\<lambda>cfg. [''n='' @ Itoa (pn_Count (ec_Plan cfg)), ''start='' @ fixed4 (pn_Start (ec_Plan cfg)),
           ''end='' @ fixed4 (pn_End (ec_Plan cfg)), ''profile='' @ prof_Name (ec_Profile cfg),
           ''format='' @ ec_Format cfg, ''sequential='' @ (if ec_Sequential cfg then ''true'' else ''false'')]"
  have no: "CHR '';'' \<notin> set (nat_str n)" for n using nat_str_digits [of "CHR '';''" n] by (auto simp: digit_of_def)
  have p: "CHR '';'' \<notin> set (padded w n)" for w n using padded_digits [of "CHR '';''" w n] by (auto simp: digit_of_def)
  have f: "CHR '';'' \<notin> set (fixed4 x)" for x using no p by (simp add: fixed4_def Let_def)
  have i: "CHR '';'' \<notin> set (Itoa n)" for n using no by (simp add: Itoa_def)
  have t: "CHR '';'' \<notin> set (if z then ''true'' else ''false'')" for z by simp
  have s: "Split (ParamsRaw c) (CHR '';'') = ?fs c" if "c \<in> {a, b}" for c
  proof -
    have "\<forall>x\<in>set (?fs c). CHR '';'' \<notin> set x" using assms that by (auto simp del: if_split simp: f i t)
    then show ?thesis unfolding ParamsRaw_def by (intro Split_Join) auto
  qed
  assume "ParamsRaw a = ParamsRaw b"
  then have "?fs a = ?fs b" using s [of a] s [of b] by simp
  then show "alike a b" by (auto simp: alike_def dest: Itoa_inj split: if_splits)
qed (simp add: alike_def ParamsRaw_def)

text \<open>Two windows less than half a ten-thousandth apart share a result set, although their points differ.\<close>

lemma windows_share_a_key:
  defines "p \<equiv> \<lparr>pn_Count = 1, pn_Start = (1, -4), pn_End = (1, 0)\<rparr>"
    and "p' \<equiv> \<lparr>pn_Count = 1, pn_Start = (65537, -20), pn_End = (1, 0)\<rparr>"
  shows "ParamsKey digest (cfg\<lparr>ec_Plan := p\<rparr>) = ParamsKey digest (cfg\<lparr>ec_Plan := p'\<rparr>)"
    "Points p (10 ^ 11) \<noteq> Points p' (10 ^ 11)"
proof -
  have "fixed4 (1, -4) = fixed4 (65537, -20)" unfolding fixed4_inj by (simp add: tenthousandths_def Let_def)
  then show "ParamsKey digest (cfg\<lparr>ec_Plan := p\<rparr>) = ParamsKey digest (cfg\<lparr>ec_Plan := p'\<rparr>)"
    by (simp add: ParamsKey_def ParamsRaw_def p_def p'_def)
  have m: "f64_mult (100000000000, 0) (1, -4) = (100000000000, -4)"
    "f64_mult (100000000000, 0) (65537, -20) = (6553700000000000, -20)" "f64_mult (100000000000, 0) (1, 0) = (100000000000, 0)"
    by (simp_all add: f64_mult_def f64_small)
  have o: "f64_of_int 100000000000 = (100000000000, 0)" by (simp add: f64_of_int_exact)
  have "f64_trunc (100000000000, -4) = 6250000000" "f64_trunc (6553700000000000, -20) = 6250095367"
    "f64_trunc (100000000000, 0) = 100000000000"
    by (simp_all add: f64_trunc_def)
  then show "Points p (10 ^ 11) \<noteq> Points p' (10 ^ 11)"
    by (simp add: p_def p'_def Points_def Plan_Validate_def f64_less_def f64_le_def o m Let_def sdiv_nonneg)
qed

end
