(* ===== verification/Deletion.thy ===== *)
theory Deletion
  imports Replay OutputLaws
begin

text \<open>
  \<^verbatim>\<open>internal/core/delete.go\<close>: taking one frame, or everything of one file, out of a result set.
  What a call does to the disk is the list of its writes and removals in their order, so that a crash is a
  prefix of it; which of them fail, what survives a removal and what a directory still lists are arguments.
  A disk answers for manifests with their frame paths already resolved, as \<open>Output\<close> does it.
\<close>

section \<open>Writes and removals\<close>

datatype disk_op =
    OpSaveRun RunRecord
  | OpWriteManifest int string Manifest
  | OpRemoveManifest int string
  | OpRemove string
  | OpRemoveAll string
  | OpWriteSheet int string
  | OpRemoveDir string

text \<open>A path names the file its components name. \<open>stays dir\<close> holds of what the removal of a tree leaves, which is nothing
where it succeeds.\<close>

fun apply_op :: "Layout \<Rightarrow> (string \<Rightarrow> string \<Rightarrow> bool) \<Rightarrow> Disk \<Rightarrow> disk_op \<Rightarrow> Disk" where
  "apply_op l stays d (OpSaveRun r) =
     d\<lparr>LoadRun := (LoadRun d)(ly_InfoHash l := (LoadRun d (ly_InfoHash l))(ly_Params l := Some r))\<rparr>"
| "apply_op l stays d (OpWriteManifest i p m) =
     d\<lparr>LoadManifest := (\<lambda>h k j q. if (h, k, j, q) = (ly_InfoHash l, ly_Params l, i, p) then Some m else LoadManifest d h k j q)\<rparr>"
| "apply_op l stays d (OpRemoveManifest i p) =
     d\<lparr>LoadManifest := (\<lambda>h k j q. if (h, k, j, q) = (ly_InfoHash l, ly_Params l, i, p) then None else LoadManifest d h k j q)\<rparr>"
| "apply_op l stays d (OpRemove path) =
     d\<lparr>StatSize := (\<lambda>q. if path_parts q = path_parts path then None else StatSize d q)\<rparr>"
| "apply_op l stays d (OpRemoveAll dir) =
     d\<lparr>StatSize := (\<lambda>q. if inside dir q \<and> \<not> stays dir q then None else StatSize d q)\<rparr>"
| "apply_op l stays d (OpWriteSheet i p) = d"
| "apply_op l stays d (OpRemoveDir dir) = d"

definition apply_ops :: "Layout \<Rightarrow> (string \<Rightarrow> string \<Rightarrow> bool) \<Rightarrow> Disk \<Rightarrow> disk_op list \<Rightarrow> Disk" where
  "apply_ops l stays d ops = foldl (apply_op l stays) d ops"

datatype delete_error =
    ErrNoSuchFrame | ErrNoSuchFile | ErrOutside | ErrWriter | ErrRunRecord | ErrManifest | ErrRemove
  | ErrSheetStale | ErrClearIncomplete

text \<open>Steps taken in turn up to the first that fails, with what was done and the error of that one.\<close>

fun perform :: "(disk_op \<Rightarrow> bool) \<Rightarrow> (disk_op \<times> delete_error) list \<Rightarrow> disk_op list \<times> delete_error option" where
  "perform fails [] = ([], None)"
| "perform fails ((op, e) # steps) =
     (if fails op then ([], Some e) else (case perform fails steps of (ops, r) \<Rightarrow> (op # ops, r)))"

section \<open>One frame\<close>

definition is_within :: "string \<Rightarrow> string \<Rightarrow> bool" where
  "is_within dir path =
     (case path_Rel (path_Clean dir) (path_Clean path) of
        None \<Rightarrow> False
      | Some rel \<Rightarrow> rel \<noteq> ''..'' \<and> \<not> rooted rel \<and> \<not> HasPrefix rel ''../'')"

definition recordedVideoPath :: "RunRecord \<Rightarrow> int \<Rightarrow> string option" where
  "recordedVideoPath r index = map_option cf_Path (find (\<lambda>v. cf_Index v = index) (rr_Videos r))"

definition withoutIndex :: "int list \<Rightarrow> int \<Rightarrow> int list" where
  "withoutIndex indices drp = sort (filter (\<lambda>i. i \<noteq> drp) indices)"

text \<open>The first record with an index, and the others.\<close>

fun take_frame :: "int \<Rightarrow> ManifestFrame list \<Rightarrow> (ManifestFrame \<times> ManifestFrame list) option" where
  "take_frame index [] = None"
| "take_frame index (f # fs) =
     (if mf_Index f = index then Some (f, fs)
      else (case take_frame index fs of None \<Rightarrow> None | Some (gone, kept) \<Rightarrow> Some (gone, f # kept)))"

definition sheetTiles :: "ManifestFrame list \<Rightarrow> int list \<times> ManifestFrame list" where
  "sheetTiles records =
     (let tiles = sort_key mf_Index records
      in (map (\<lambda>f. w64 (mf_RequestedMS f * 10 ^ 6)) tiles,
          map2 (\<lambda>f i. f\<lparr>mf_Index := int i\<rparr>) tiles [0..<length tiles]))"

record delete_world =
  dw_writer :: bool
  dw_fails :: "disk_op \<Rightarrow> bool"
  dw_sheet :: "int list \<times> ManifestFrame list \<Rightarrow> int \<Rightarrow> int \<Rightarrow> bool"

definition sheet_steps :: "unicode \<Rightarrow> Layout \<Rightarrow> delete_world \<Rightarrow> int \<Rightarrow> string \<Rightarrow> Manifest \<Rightarrow> (disk_op \<times> delete_error) list \<times> bool" where
  "sheet_steps u l w fileIndex path m =
     (if m_Frames m = [] then ([(OpRemove (path_Join [FileDir u l fileIndex path, ''sheet.jpg'']), ErrSheetStale)], True)
      else if dw_sheet w (sheetTiles (m_Frames m)) (mv_Width (m_Video m)) (mv_Height (m_Video m))
      then ([(OpWriteSheet fileIndex path, ErrSheetStale)], True)
      else ([], False))"

text \<open>The steps of a deletion that is not refused, up to the contact sheet.\<close>

definition delete_core :: "RunRecord \<Rightarrow> int \<Rightarrow> string \<Rightarrow> Manifest \<Rightarrow> ManifestFrame \<Rightarrow> ManifestFrame list \<Rightarrow>
    (disk_op \<times> delete_error) list" where
  "delete_core r i p m gone kept =
     (if kept = [] then [(OpSaveRun (r\<lparr>rr_Complete := withoutIndex (rr_Complete r) i\<rparr>), ErrRunRecord)] else []) @
     [(OpWriteManifest i p (m\<lparr>m_Frames := kept\<rparr>), ErrManifest)] @
     (if mf_Path gone \<noteq> [] then [(OpRemove (mf_Path gone), ErrRemove)] else [])"

definition delete_ops :: "unicode \<Rightarrow> Layout \<Rightarrow> delete_world \<Rightarrow> RunRecord \<Rightarrow> int \<Rightarrow> string \<Rightarrow> Manifest \<Rightarrow> ManifestFrame \<Rightarrow>
    ManifestFrame list \<Rightarrow> (disk_op \<times> delete_error) list" where
  "delete_ops u l w r i p m gone kept =
     delete_core r i p m gone kept @ fst (sheet_steps u l w i p (m\<lparr>m_Frames := kept\<rparr>))"

definition DeleteFrame ::
  "unicode \<Rightarrow> Disk \<Rightarrow> Layout \<Rightarrow> delete_world \<Rightarrow> int \<Rightarrow> int \<Rightarrow> disk_op list \<times> delete_error option" where
  "DeleteFrame u d l w fileIndex frameIndex =
     (case LoadRun d (ly_InfoHash l) (ly_Params l) of
        None \<Rightarrow> ([], Some ErrNoSuchFrame)
      | Some r \<Rightarrow>
        (case recordedVideoPath r fileIndex of
           None \<Rightarrow> ([], Some ErrNoSuchFrame)
         | Some path \<Rightarrow>
           (case LoadManifest d (ly_InfoHash l) (ly_Params l) fileIndex path of
              None \<Rightarrow> ([], Some ErrNoSuchFrame)
            | Some m \<Rightarrow>
              (case take_frame frameIndex (m_Frames m) of
                 None \<Rightarrow> ([], Some ErrNoSuchFrame)
               | Some (gone, kept) \<Rightarrow>
                 if mf_Path gone \<noteq> [] \<and> \<not> is_within (RunDir l) (mf_Path gone) then ([], Some ErrOutside)
                 else if \<not> dw_writer w then ([], Some ErrWriter)
                 else
                   (case perform (dw_fails w) (delete_ops u l w r fileIndex path m gone kept) of
                      (ops, None) \<Rightarrow>
                        (ops, if snd (sheet_steps u l w fileIndex path (m\<lparr>m_Frames := kept\<rparr>)) then None else Some ErrSheetStale)
                    | failed \<Rightarrow> failed)))))"

section \<open>Everything of one file\<close>

datatype listing = Absent | Unreadable | Entries "string list"

record clear_world =
  cw_fails :: "disk_op \<Rightarrow> bool"
  cw_stays :: "string \<Rightarrow> bool"
  cw_listing :: "string \<Rightarrow> listing"

definition stays_of :: "clear_world \<Rightarrow> string \<Rightarrow> string \<Rightarrow> bool" where
  "stays_of w dir q \<longleftrightarrow> cw_fails w (OpRemoveAll dir) \<and> cw_stays w q"

text \<open>Removals that are all tried; what failed is remembered.\<close>

definition clear_steps :: "unicode \<Rightarrow> Layout \<Rightarrow> int \<Rightarrow> string \<Rightarrow> disk_op list" where
  "clear_steps u l fileIndex path =
     [OpRemoveManifest fileIndex path, OpRemoveAll (FramesDir u l fileIndex path),
      OpRemove (path_Join [FileDir u l fileIndex path, ''sheet.jpg''])]"

text \<open>A removal that fails has no effect, except that of a tree, which may have gone in part.\<close>

definition attempted :: "clear_world \<Rightarrow> disk_op list \<Rightarrow> disk_op list" where
  "attempted w ops = filter (\<lambda>op. \<not> cw_fails w op \<or> (\<exists>dir. op = OpRemoveAll dir)) ops"

definition removeEmptied :: "clear_world \<Rightarrow> string \<Rightarrow> disk_op list \<times> bool" where
  "removeEmptied w dir =
     (case cw_listing w dir of
        Absent \<Rightarrow> ([], True)
      | Unreadable \<Rightarrow> ([], False)
      | Entries es \<Rightarrow>
          if es \<noteq> [] then ([], False)
          else if cw_fails w (OpRemoveDir dir) then ([], False) else ([OpRemoveDir dir], True))"

definition ClearFile ::
  "unicode \<Rightarrow> Disk \<Rightarrow> Layout \<Rightarrow> clear_world \<Rightarrow> int \<Rightarrow> disk_op list \<times> delete_error option" where
  "ClearFile u d l w fileIndex =
     (case LoadRun d (ly_InfoHash l) (ly_Params l) of
        None \<Rightarrow> ([], Some ErrNoSuchFile)
      | Some r \<Rightarrow>
        (case recordedVideoPath r fileIndex of
           None \<Rightarrow> ([], Some ErrNoSuchFile)
         | Some path \<Rightarrow>
           if (case LoadManifest d (ly_InfoHash l) (ly_Params l) fileIndex path of
                 None \<Rightarrow> False
               | Some m \<Rightarrow> list_ex (\<lambda>f. mf_Path f \<noteq> [] \<and> \<not> is_within (RunDir l) (mf_Path f)) (m_Frames m))
           then ([], Some ErrOutside)
           else
             let save = OpSaveRun (r\<lparr>rr_Complete := withoutIndex (rr_Complete r) fileIndex\<rparr>) in
             if cw_fails w save then ([], Some ErrRunRecord)
             else
               let steps = clear_steps u l fileIndex path; ops = save # attempted w steps in
               if list_ex (cw_fails w) steps then (ops, Some ErrClearIncomplete)
               else (case removeEmptied w (FileDir u l fileIndex path) of
                 (last_ops, True) \<Rightarrow> (ops @ last_ops, None)
               | (last_ops, False) \<Rightarrow> (ops @ last_ops, Some ErrClearIncomplete))))"

end
