(* ===== verification/DeletionLaws.thy ===== *)
theory DeletionLaws
  imports Deletion
begin

text \<open>
  A result set stays servable through a deletion: after every write and removal of it, so wherever a crash
  may interrupt it, the record and the manifests promise only what is on disk.
\<close>

section \<open>What a result set promises\<close>

abbreviation manifest_of :: "Disk \<Rightarrow> Layout \<Rightarrow> CacheFile \<Rightarrow> Manifest option" where
  "manifest_of d l v \<equiv> LoadManifest d (ly_InfoHash l) (ly_Params l) (cf_Index v) (cf_Path v)"

abbreviation record_of :: "Disk \<Rightarrow> Layout \<Rightarrow> RunRecord option" where
  "record_of d l \<equiv> LoadRun d (ly_InfoHash l) (ly_Params l)"

definition frame_sound :: "unicode \<Rightarrow> Disk \<Rightarrow> Layout \<Rightarrow> CacheFile \<Rightarrow> ManifestFrame \<Rightarrow> bool" where
  "frame_sound u d l v f \<longleftrightarrow>
     (mf_Path f \<noteq> [] \<longrightarrow>
        mf_Shift f \<noteq> ShiftFailed \<and> StatSize d (mf_Path f) \<noteq> None \<and> StatSize d (mf_Path f) \<noteq> Some 0 \<and>
        inside (FramesDir u l (cf_Index v) (cf_Path v)) (mf_Path f))"

definition frame_paths :: "ManifestFrame list \<Rightarrow> (bool \<times> string list) list" where
  "frame_paths fs = map (\<lambda>f. path_parts (mf_Path f)) (filter (\<lambda>f. mf_Path f \<noteq> []) fs)"

definition file_sound :: "unicode \<Rightarrow> Disk \<Rightarrow> Layout \<Rightarrow> int set \<Rightarrow> CacheFile \<Rightarrow> bool" where
  "file_sound u d l cs v \<longleftrightarrow>
     0 \<le> cf_Index v \<and>
     (\<forall>m. manifest_of d l v = Some m \<longrightarrow> list_all (frame_sound u d l v) (m_Frames m) \<and> distinct (frame_paths (m_Frames m))) \<and>
     (cf_Index v \<in> cs \<longrightarrow>
        (\<exists>m. manifest_of d l v = Some m \<and> m_Frames m \<noteq> [] \<and> list_all (\<lambda>f. mf_Path f \<noteq> []) (m_Frames m)))"

text \<open>Every frame a manifest names is a file that is there, in the directory of its own file and nobody
else's; and a file listed as complete has a manifest with frames and no gap.\<close>

definition set_sound :: "unicode \<Rightarrow> Layout \<Rightarrow> Disk \<Rightarrow> bool" where
  "set_sound u l d \<longleftrightarrow>
     (\<exists>r. record_of d l = Some r \<and> distinct (map cf_Index (rr_Videos r)) \<and>
          list_all (file_sound u d l (set (rr_Complete r))) (rr_Videos r))"

lemma usable_all:
  "list_all (\<lambda>f. mf_Path f \<noteq> [] \<longrightarrow> mf_Shift f \<noteq> ShiftFailed \<and> stat (mf_Path f) \<noteq> None \<and> stat (mf_Path f) \<noteq> Some 0) fs \<Longrightarrow>
     usable_from stat fs n \<longleftrightarrow> 0 < n + length (filter (\<lambda>f. mf_Path f \<noteq> []) fs)"
  by (induction fs arbitrary: n) (auto simp: served_def)

lemma sound_usable:
  assumes "list_all (frame_sound u d l v) (m_Frames m)"
  shows "Usable (StatSize d) m \<longleftrightarrow> (\<exists>f\<in>set (m_Frames m). mf_Path f \<noteq> [])"
proof -
  have "list_all (\<lambda>f. mf_Path f \<noteq> [] \<longrightarrow> mf_Shift f \<noteq> ShiftFailed \<and> StatSize d (mf_Path f) \<noteq> None \<and>
      StatSize d (mf_Path f) \<noteq> Some 0) (m_Frames m)"
    using assms by (auto simp: list_all_iff frame_sound_def)
  from usable_all [OF this, of 0] show ?thesis by (auto simp: Usable_def filter_empty_conv)
qed

text \<open>So a run over files that are complete is answered from disk, and a reopened run never finds a frame
missing.\<close>

lemma sound_hits:
  assumes "set_sound u l d" "record_of d l = Some r" "set selected \<subseteq> set (videosFromRecord r)"
    and "fi_Index ` set selected \<subseteq> set (rr_Complete r)"
  shows "loadCacheHit d l r selected True \<noteq> None"
proof -
  have s: "list_all (file_sound u d l (set (rr_Complete r))) (rr_Videos r)" using assms(1,2) by (simp add: set_sound_def)
  have "\<exists>m. file_manifest d l f = Some m \<and> Usable (StatSize d) m" if f: "f \<in> set selected" for f
  proof -
    from f assms(3) obtain v where v: "v \<in> set (rr_Videos r)" "fi_Index f = cf_Index v" "fi_Path f = cf_Path v"
      by (auto simp: videosFromRecord_def fileInfoFrom_def)
    from f assms(4) v(2) have "cf_Index v \<in> set (rr_Complete r)" by auto
    with s v(1) obtain m where "manifest_of d l v = Some m" "m_Frames m \<noteq> []" "list_all (\<lambda>f. mf_Path f \<noteq> []) (m_Frames m)"
      "list_all (frame_sound u d l v) (m_Frames m)" by (fastforce simp: list_all_iff file_sound_def)
    moreover from this sound_usable have "Usable (StatSize d) m" by (cases "m_Frames m") fastforce+
    ultimately show ?thesis using v by (simp add: file_manifest_def)
  qed
  moreover have "hit_manifests d l (rr_Complete r) True fs \<noteq> None"
    if "\<forall>f\<in>set fs. (\<exists>m. file_manifest d l f = Some m \<and> Usable (StatSize d) m) \<and> fi_Index f \<in> set (rr_Complete r)" for fs
    using that by (induction fs) auto
  ultimately show ?thesis using assms(4) by (simp add: loadCacheHit_def image_subset_iff)
qed

section \<open>What keeps it\<close>

definition named :: "Disk \<Rightarrow> Layout \<Rightarrow> string \<Rightarrow> bool" where
  "named d l q \<longleftrightarrow>
     (\<exists>r v m f. record_of d l = Some r \<and> v \<in> set (rr_Videos r) \<and> manifest_of d l v = Some m \<and>
        f \<in> set (m_Frames m) \<and> mf_Path f = q \<and> q \<noteq> [])"

lemma removal_sound:
  assumes "set_sound u l d" "\<And>q. K q \<Longrightarrow> \<not> named d l q"
  shows "set_sound u l (d\<lparr>StatSize := (\<lambda>q. if K q then None else StatSize d q)\<rparr>)"
proof -
  from assms(1) obtain r where r: "record_of d l = Some r" "distinct (map cf_Index (rr_Videos r))"
    "list_all (file_sound u d l (set (rr_Complete r))) (rr_Videos r)" by (auto simp: set_sound_def)
  have "\<not> K (mf_Path f)" if "v \<in> set (rr_Videos r)" "manifest_of d l v = Some m" "f \<in> set (m_Frames m)" "mf_Path f \<noteq> []" for v m f
    using assms(2) r(1) that unfolding named_def by blast
  then have "file_sound u (d\<lparr>StatSize := (\<lambda>q. if K q then None else StatSize d q)\<rparr>) l (set (rr_Complete r)) v"
    if "v \<in> set (rr_Videos r)" for v
    using r(3) that by (fastforce simp: list_all_iff file_sound_def frame_sound_def)
  with r show ?thesis by (auto simp: set_sound_def list_all_iff)
qed

lemma save_sound:
  assumes "set_sound u l d" "record_of d l = Some r" "set c \<subseteq> set (rr_Complete r)"
  shows "set_sound u l (apply_op l stays d (OpSaveRun (r\<lparr>rr_Complete := c\<rparr>)))"
proof -
  have s: "distinct (map cf_Index (rr_Videos r))" "list_all (file_sound u d l (set (rr_Complete r))) (rr_Videos r)"
    using assms(1,2) by (simp_all add: set_sound_def)
  have "file_sound u (apply_op l stays d (OpSaveRun (r\<lparr>rr_Complete := c\<rparr>))) l (set c) v"
    if "file_sound u d l (set (rr_Complete r)) v" for v
  proof -
    have "frame_sound u (apply_op l stays d (OpSaveRun (r\<lparr>rr_Complete := c\<rparr>))) l v = frame_sound u d l v"
      by (simp add: frame_sound_def fun_eq_iff)
    with that assms(3) show ?thesis by (auto simp: file_sound_def)
  qed
  with s have "list_all (file_sound u (apply_op l stays d (OpSaveRun (r\<lparr>rr_Complete := c\<rparr>))) l (set c)) (rr_Videos r)"
    by (auto simp: list_all_iff)
  with s(1) show ?thesis by (simp add: set_sound_def)
qed

lemma manifest_op_sound:
  assumes "set_sound u l d" "record_of d l = Some r" "v \<in> set (rr_Videos r)"
    and "record_of d' l = Some r" "StatSize d' = StatSize d" "manifest_of d' l v = new"
    and others: "\<And>w. w \<in> set (rr_Videos r) \<Longrightarrow> w \<noteq> v \<Longrightarrow> manifest_of d' l w = manifest_of d l w"
    and new: "\<And>m. new = Some m \<Longrightarrow> list_all (frame_sound u d l v) (m_Frames m) \<and> distinct (frame_paths (m_Frames m))"
    and full: "cf_Index v \<in> set (rr_Complete r) \<Longrightarrow>
        \<exists>m. new = Some m \<and> m_Frames m \<noteq> [] \<and> list_all (\<lambda>f. mf_Path f \<noteq> []) (m_Frames m)"
  shows "set_sound u l d'"
proof -
  have s: "distinct (map cf_Index (rr_Videos r))" "list_all (file_sound u d l (set (rr_Complete r))) (rr_Videos r)"
    using assms(1,2) by (simp_all add: set_sound_def)
  have fs: "frame_sound u d' l = frame_sound u d l" by (simp add: frame_sound_def assms(5) fun_eq_iff)
  have "file_sound u d' l (set (rr_Complete r)) w" if w: "w \<in> set (rr_Videos r)" for w
  proof -
    from s(2) w have "file_sound u d l (set (rr_Complete r)) w" by (simp add: list_all_iff)
    then show ?thesis using new full others [OF w] unfolding file_sound_def fs assms(6) [symmetric] by (cases "w = v") auto
  qed
  with s(1) assms(4) show ?thesis by (simp add: set_sound_def list_all_iff)
qed

section \<open>Directories apart\<close>

lemma FramesDir_parts:
  "ly_Root l \<noteq> [] \<Longrightarrow> sane_unicode u \<Longrightarrow>
     path_parts (FramesDir u l i p) =
       (fst (path_parts (RunDir l)), snd (path_parts (RunDir l)) @ [FileSlug u i p, ''frames''])"
  by (simp add: FramesDir_def parts_Join FileDir_nonempty frames_plain FileDir_parts)

lemma frames_apart:
  assumes "ly_Root l \<noteq> []" "sane_unicode u" "0 \<le> i" "0 \<le> j"
    and "inside (FramesDir u l i p) s" "inside (FramesDir u l j q) s"
  shows "i = j"
proof -
  from assms(5,6) have "FileSlug u i p = FileSlug u j q"
    by (auto simp: inside_def FramesDir_parts [OF assms(1,2)])
  with slug_inj assms(3,4) show ?thesis by blast
qed

lemma sheet_parts:
  "ly_Root l \<noteq> [] \<Longrightarrow> sane_unicode u \<Longrightarrow>
     path_parts (path_Join [FileDir u l i p, ''sheet.jpg'']) =
       (fst (path_parts (RunDir l)), snd (path_parts (RunDir l)) @ [FileSlug u i p, ''sheet.jpg''])"
  by (simp add: parts_Join FileDir_nonempty FileDir_parts plain_part_def)

lemma named_inside:
  assumes "set_sound u l d" "named d l s"
  shows "\<exists>r v. record_of d l = Some r \<and> v \<in> set (rr_Videos r) \<and> 0 \<le> cf_Index v \<and>
    inside (FramesDir u l (cf_Index v) (cf_Path v)) s"
  using assms by (fastforce simp: named_def set_sound_def file_sound_def frame_sound_def list_all_iff)

lemma sheet_not_named:
  assumes "ly_Root l \<noteq> []" "sane_unicode u" "set_sound u l d"
    and "path_parts s = path_parts (path_Join [FileDir u l i p, ''sheet.jpg''])"
  shows "\<not> named d l s"
proof
  assume "named d l s"
  from named_inside [OF assms(3) this] show False
    by (auto simp: inside_def FramesDir_parts [OF assms(1,2)] assms(4) sheet_parts [OF assms(1,2)])
qed

lemma sheet_removal_sound:
  assumes "ly_Root l \<noteq> []" "sane_unicode u" "set_sound u l d"
  shows "set_sound u l (apply_op l stays d (OpRemove (path_Join [FileDir u l i p, ''sheet.jpg''])))"
  using removal_sound [OF assms(3), of "\<lambda>s. path_parts s = path_parts (path_Join [FileDir u l i p, ''sheet.jpg''])"]
    sheet_not_named [OF assms] by simp

section \<open>At every write\<close>

definition crash_safe :: "unicode \<Rightarrow> Layout \<Rightarrow> (string \<Rightarrow> string \<Rightarrow> bool) \<Rightarrow> Disk \<Rightarrow> disk_op list \<Rightarrow> bool" where
  "crash_safe u l stays d ops \<longleftrightarrow> (\<forall>n. set_sound u l (apply_ops l stays d (take n ops)))"

lemma crash_safe_Nil: "crash_safe u l stays d [] \<longleftrightarrow> set_sound u l d"
  by (simp add: crash_safe_def apply_ops_def)

lemma all_nat_cases: "(\<forall>n. P n) \<longleftrightarrow> P 0 \<and> (\<forall>n. P (Suc n))"
  by (metis not0_implies_Suc)

lemma crash_safe_Cons:
  "crash_safe u l stays d (op # ops) \<longleftrightarrow> set_sound u l d \<and> crash_safe u l stays (apply_op l stays d op) ops"
  unfolding crash_safe_def apply_ops_def by (subst (1) all_nat_cases) simp

lemma crash_safe_take: "crash_safe u l stays d ops \<Longrightarrow> crash_safe u l stays d (take k ops)"
  by (simp add: crash_safe_def)

lemma perform_prefix:
  "perform fails steps = (ops, res) \<Longrightarrow>
     (\<exists>k. ops = take k (map fst steps)) \<and> (res = None \<longrightarrow> ops = map fst steps) \<and>
     (\<forall>e. res = Some e \<longrightarrow> length ops < length steps \<and> e = snd (steps ! length ops))"
proof (induction steps arbitrary: ops res)
  case (Cons s steps)
  obtain op e where s: "s = (op, e)" by (cases s)
  show ?case
  proof (cases "fails op")
    case True
    with Cons.prems s show ?thesis by (auto intro: exI [of _ 0])
  next
    case False
    obtain ops' r' where p: "perform fails steps = (ops', r')" by (cases "perform fails steps")
    with Cons.prems s False have o: "ops = op # ops'" "res = r'" by simp_all
    from Cons.IH [OF p] obtain k where "ops' = take k (map fst steps)" by blast
    then have "ops = take (Suc k) (map fst (s # steps))" by (simp add: o s)
    then have "\<exists>k. ops = take k (map fst (s # steps))" by blast
    with Cons.IH [OF p] o s show ?thesis by simp
  qed
qed simp

lemma take_frame_split:
  "take_frame i fs = Some (gone, kept) \<Longrightarrow>
     mf_Index gone = i \<and> (\<exists>as bs. fs = as @ gone # bs \<and> kept = as @ bs \<and> (\<forall>f\<in>set as. mf_Index f \<noteq> i))"
proof (induction fs arbitrary: kept)
  case (Cons f fs)
  show ?case
  proof (cases "mf_Index f = i")
    case True
    with Cons.prems show ?thesis by (auto intro: exI [of _ "[]"])
  next
    case False
    with Cons.prems obtain k where k: "take_frame i fs = Some (gone, k)" "kept = f # k" by (auto split: option.splits)
    from Cons.IH [OF k(1)] obtain as bs where
      "mf_Index gone = i" "fs = as @ gone # bs" "k = as @ bs" "\<forall>f\<in>set as. mf_Index f \<noteq> i" by blast
    then have "f # fs = (f # as) @ gone # bs" "kept = (f # as) @ bs" "\<forall>g\<in>set (f # as). mf_Index g \<noteq> i"
      using False k(2) by simp_all
    with \<open>mf_Index gone = i\<close> show ?thesis by blast
  qed
qed simp

lemma take_frame_some:
  assumes "take_frame i fs = Some (gone, kept)"
  shows "mf_Index gone = i" "gone \<in> set fs" "set kept \<subseteq> set fs" "fs \<noteq> []"
  using take_frame_split [OF assms] by auto

lemma frame_paths_gone:
  assumes "distinct (frame_paths (as @ gone # bs))" "mf_Path gone \<noteq> []" "f \<in> set (as @ bs)" "mf_Path f \<noteq> []"
  shows "path_parts (mf_Path f) \<noteq> path_parts (mf_Path gone)"
proof -
  have "frame_paths (as @ gone # bs) = frame_paths as @ path_parts (mf_Path gone) # frame_paths bs"
    using assms(2) by (simp add: frame_paths_def)
  with assms(1) have "path_parts (mf_Path gone) \<notin> set (frame_paths as @ frame_paths bs)" by simp
  moreover have "frame_paths (as @ bs) = frame_paths as @ frame_paths bs" by (simp add: frame_paths_def)
  moreover have "path_parts (mf_Path f) \<in> set (frame_paths (as @ bs))"
    using assms(3,4) by (auto simp: frame_paths_def)
  ultimately show ?thesis by metis
qed

lemma frame_paths_sub: "distinct (frame_paths (as @ gone # bs)) \<Longrightarrow> distinct (frame_paths (as @ bs))"
  by (auto simp: frame_paths_def split: if_splits)

lemma recorded_video:
  assumes "recordedVideoPath r i = Some p" "distinct (map cf_Index (rr_Videos r))"
  shows "\<exists>v\<in>set (rr_Videos r). cf_Index v = i \<and> cf_Path v = p \<and> (\<forall>w\<in>set (rr_Videos r). cf_Index w = i \<longrightarrow> w = v)"
proof -
  from assms(1) obtain v where v: "find (\<lambda>v. cf_Index v = i) (rr_Videos r) = Some v" "cf_Path v = p"
    by (auto simp: recordedVideoPath_def)
  then have "v \<in> set (rr_Videos r)" "cf_Index v = i" by (auto simp: find_Some_iff)
  moreover from assms(2) have "inj_on cf_Index (set (rr_Videos r))" by (simp add: distinct_map)
  ultimately show ?thesis using v(2) by (auto dest: inj_onD)
qed

section \<open>Deleting a frame\<close>

lemma DeleteFrame_cases:
  assumes "DeleteFrame u d l w i k = (ops, res)"
  shows "ops = [] \<and> res \<noteq> None \<and> res \<noteq> Some ErrSheetStale \<or>
    (\<exists>r p m gone kept. record_of d l = Some r \<and> recordedVideoPath r i = Some p \<and>
       LoadManifest d (ly_InfoHash l) (ly_Params l) i p = Some m \<and> take_frame k (m_Frames m) = Some (gone, kept) \<and>
       (\<exists>res'. perform (dw_fails w) (delete_ops u l w r i p m gone kept) = (ops, res') \<and>
          (if res' = None then res \<in> {None, Some ErrSheetStale} else res = res')))"
proof (cases "record_of d l")
  case None
  with assms show ?thesis by (auto simp: DeleteFrame_def)
next
  case r: (Some r)
  show ?thesis
  proof (cases "recordedVideoPath r i")
    case None
    with assms r show ?thesis by (auto simp: DeleteFrame_def)
  next
    case p: (Some p)
    show ?thesis
    proof (cases "LoadManifest d (ly_InfoHash l) (ly_Params l) i p")
      case None
      with assms r p show ?thesis by (auto simp: DeleteFrame_def)
    next
      case m: (Some m)
      show ?thesis
      proof (cases "take_frame k (m_Frames m)")
        case None
        with assms r p m show ?thesis by (auto simp: DeleteFrame_def)
      next
        case (Some gk)
        obtain gone kept where gk: "gk = (gone, kept)" by (cases gk)
        obtain ops' res' where pf: "perform (dw_fails w) (delete_ops u l w r i p m gone kept) = (ops', res')"
          by (cases "perform (dw_fails w) (delete_ops u l w r i p m gone kept)")
        have e: "DeleteFrame u d l w i k =
            (if mf_Path gone \<noteq> [] \<and> \<not> is_within (RunDir l) (mf_Path gone) then ([], Some ErrOutside)
             else if \<not> dw_writer w then ([], Some ErrWriter)
             else (case (ops', res') of (ops, None) \<Rightarrow> 
                (ops, if snd (sheet_steps u l w i p (m\<lparr>m_Frames := kept\<rparr>)) then None else Some ErrSheetStale) | failed \<Rightarrow> failed))"
          using pf by (simp add: DeleteFrame_def r p m Some gk)
        show ?thesis
        proof (cases "mf_Path gone \<noteq> [] \<and> \<not> is_within (RunDir l) (mf_Path gone) \<or> \<not> dw_writer w")
          case True
          with assms e show ?thesis by (auto split: if_splits)
        next
          case False
          with assms e have "ops = ops'" "if res' = None then res \<in> {None, Some ErrSheetStale} else res = res'"
            by (auto split: option.splits if_splits)
          with r p m Some gk pf show ?thesis by blast
        qed
      qed
    qed
  qed
qed

lemma gone_not_named:
  assumes "ly_Root l \<noteq> []" "sane_unicode u" "set_sound u l d" "record_of d l = Some r" "v \<in> set (rr_Videos r)"
    and "manifest_of d l v = Some m" "distinct (frame_paths (m_Frames m @ [gone]))" "mf_Path gone \<noteq> []"
    and "inside (FramesDir u l (cf_Index v) (cf_Path v)) (mf_Path gone)"
    and "path_parts q = path_parts (mf_Path gone)"
  shows "\<not> named d l q"
proof
  assume "named d l q"
  then obtain w mw f where w: "w \<in> set (rr_Videos r)" "manifest_of d l w = Some mw" "f \<in> set (m_Frames mw)"
      "mf_Path f = q" "q \<noteq> []" using assms(4) unfolding named_def by (metis option.inject)
  have s: "distinct (map cf_Index (rr_Videos r))" "list_all (file_sound u d l (set (rr_Complete r))) (rr_Videos r)"
    using assms(3,4) by (simp_all add: set_sound_def)
  have fw: "file_sound u d l (set (rr_Complete r)) w" "file_sound u d l (set (rr_Complete r)) v"
    using s(2) w(1) assms(5) by (simp_all add: list_all_iff)
  with w(2,3) have "frame_sound u d l w f" by (simp add: file_sound_def list_all_iff)
  with w(4,5) have "inside (FramesDir u l (cf_Index w) (cf_Path w)) q" by (simp add: frame_sound_def)
  moreover from fw have "0 \<le> cf_Index w" "0 \<le> cf_Index v" by (simp_all add: file_sound_def)
  moreover have "inside (FramesDir u l (cf_Index v) (cf_Path v)) q" using assms(9,10) by (simp add: inside_def)
  ultimately have "cf_Index w = cf_Index v" using frames_apart [OF assms(1,2)] by blast
  with s(1) w(1) assms(5) have "w = v" by (auto simp: distinct_map dest: inj_onD)
  with w assms(6) have "f \<in> set (m_Frames m @ [])" "mf_Path f \<noteq> []" by simp_all
  from frame_paths_gone [OF assms(7,8) this] w(4) assms(10) show False by simp
qed

lemma delete_ops_safe:
  assumes "ly_Root l \<noteq> []" "sane_unicode u" "set_sound u l d" "record_of d l = Some r"
    and "recordedVideoPath r i = Some p" "LoadManifest d (ly_InfoHash l) (ly_Params l) i p = Some m"
    and "take_frame k (m_Frames m) = Some (gone, kept)"
  shows "crash_safe u l stays d (map fst (delete_ops u l w r i p m gone kept))"
proof -
  let ?m = "m\<lparr>m_Frames := kept\<rparr>"
  have s: "distinct (map cf_Index (rr_Videos r))" "list_all (file_sound u d l (set (rr_Complete r))) (rr_Videos r)"
    using assms(3,4) by (simp_all add: set_sound_def)
  from recorded_video [OF assms(5) s(1)] obtain v where v: "v \<in> set (rr_Videos r)" "cf_Index v = i" "cf_Path v = p"
      "\<And>x. x \<in> set (rr_Videos r) \<Longrightarrow> cf_Index x = i \<Longrightarrow> x = v" by blast
  have mv: "manifest_of d l v = Some m" using assms(6) v(2,3) by simp
  from s(2) v(1) have fs: "file_sound u d l (set (rr_Complete r)) v" by (simp add: list_all_iff)
  with mv have ms: "list_all (frame_sound u d l v) (m_Frames m)" "distinct (frame_paths (m_Frames m))"
    by (simp_all add: file_sound_def)
  from take_frame_split [OF assms(7)] obtain as bs where ab: "m_Frames m = as @ gone # bs" "kept = as @ bs" by blast
  define r1 where "r1 = (if kept = [] then r\<lparr>rr_Complete := withoutIndex (rr_Complete r) i\<rparr> else r)"
  define un where "un = (if kept = [] then [OpSaveRun r1] else [])"
  define d1 where "d1 = apply_ops l stays d un"
  have d1: "set_sound u l d1" "record_of d1 l = Some r1" "manifest_of d1 l = manifest_of d l" "StatSize d1 = StatSize d"
      "rr_Videos r1 = rr_Videos r" "set (rr_Complete r1) \<subseteq> set (rr_Complete r)" "kept = [] \<Longrightarrow> i \<notin> set (rr_Complete r1)"
    using assms(3,4) save_sound [OF assms(3,4), of "withoutIndex (rr_Complete r) i" stays]
    by (auto simp: d1_def un_def r1_def apply_ops_def withoutIndex_def)
  define d2 where "d2 = apply_op l stays d1 (OpWriteManifest i p ?m)"
  have new: "list_all (frame_sound u d1 l v) kept \<and> distinct (frame_paths kept)"
  proof -
    have "frame_sound u d1 l v = frame_sound u d l v" by (simp add: frame_sound_def d1(4) fun_eq_iff)
    then show ?thesis using ms ab frame_paths_sub [of as gone bs] by (simp add: list_all_append)
  qed
  have d2: "set_sound u l d2"
  proof (rule manifest_op_sound [OF d1(1,2), of v _ "Some ?m"])
    show "v \<in> set (rr_Videos r1)" using v(1) d1(5) by simp
    show "record_of d2 l = Some r1" "StatSize d2 = StatSize d1" "manifest_of d2 l v = Some ?m"
      using d1(2) v(2,3) by (simp_all add: d2_def)
    show "manifest_of d2 l x = manifest_of d1 l x" if "x \<in> set (rr_Videos r1)" "x \<noteq> v" for x
      using v(4) [of x] that d1(5) by (auto simp: d2_def)
    show "list_all (frame_sound u d1 l v) (m_Frames n) \<and> distinct (frame_paths (m_Frames n))" if "Some ?m = Some n" for n
      using new that by auto
    show "\<exists>n. Some ?m = Some n \<and> m_Frames n \<noteq> [] \<and> list_all (\<lambda>f. mf_Path f \<noteq> []) (m_Frames n)"
      if "cf_Index v \<in> set (rr_Complete r1)"
    proof -
      from that v(2) d1(7) have "kept \<noteq> []" by blast
      moreover from that d1(6) fs mv ab have "list_all (\<lambda>f. mf_Path f \<noteq> []) kept" by (auto simp: file_sound_def)
      ultimately show ?thesis by simp
    qed
  qed
  define unl where "unl = (if mf_Path gone \<noteq> [] then [OpRemove (mf_Path gone)] else [])"
  define d3 where "d3 = apply_ops l stays d2 unl"
  have d3: "set_sound u l d3"
  proof (cases "mf_Path gone = []")
    case False
    have "inside (FramesDir u l (cf_Index v) (cf_Path v)) (mf_Path gone)"
      using ms(1) ab False by (auto simp: frame_sound_def)
    moreover have "record_of d2 l = Some r1" "manifest_of d2 l v = Some ?m" "v \<in> set (rr_Videos r1)"
      using d1(2,5) v(1,2,3) by (simp_all add: d2_def)
    moreover have "distinct (frame_paths (m_Frames ?m @ [gone]))"
      using ms(2) ab by (auto simp: frame_paths_def split: if_splits)
    ultimately have "\<not> named d2 l q" if "path_parts q = path_parts (mf_Path gone)" for q
      using gone_not_named [OF assms(1,2) d2, of r1 v ?m gone q] False that by blast
    from removal_sound [OF d2, of "\<lambda>q. path_parts q = path_parts (mf_Path gone)"] this False show ?thesis
      by (simp add: d3_def unl_def apply_ops_def)
  qed (simp add: d3_def unl_def apply_ops_def d2)
  have sheet: "crash_safe u l stays d3 (map fst (fst (sheet_steps u l w i p ?m)))"
    using d3 sheet_removal_sound [OF assms(1,2) d3] by (simp add: sheet_steps_def crash_safe_Cons crash_safe_Nil)
  have "map fst (delete_ops u l w r i p m gone kept) =
      un @ OpWriteManifest i p ?m # unl @ map fst (fst (sheet_steps u l w i p ?m))"
    by (simp add: delete_ops_def delete_core_def un_def unl_def r1_def)
  moreover have "crash_safe u l stays d2 (unl @ map fst (fst (sheet_steps u l w i p ?m)))"
    using d2 sheet by (simp add: unl_def d3_def crash_safe_Cons apply_ops_def split: if_splits)
  then have "crash_safe u l stays d1 (OpWriteManifest i p ?m # unl @ map fst (fst (sheet_steps u l w i p ?m)))"
    by (simp only: crash_safe_Cons d1(1) d2_def simp_thms)
  moreover have "crash_safe u l stays d (un @ ops)" if "crash_safe u l stays d1 ops" for ops
    using that assms(3) by (simp add: un_def d1_def crash_safe_Cons apply_ops_def del: apply_op.simps split: if_splits)
  ultimately show ?thesis by simp
qed

lemma delete_ops_effect:
  fixes stays :: "string \<Rightarrow> string \<Rightarrow> bool" and m :: Manifest and gone :: ManifestFrame and kept :: "ManifestFrame list"
  assumes "record_of d l = Some r" "set xs \<subseteq> set (map fst (fst (sheet_steps u l w i p m')))"
  defines "d' \<equiv> apply_ops l stays d (map fst (delete_core r i p m gone kept) @ xs)"
  shows "LoadManifest d' = (\<lambda>h k j q.
      if (h, k, j, q) = (ly_InfoHash l, ly_Params l, i, p) then Some (m\<lparr>m_Frames := kept\<rparr>) else LoadManifest d h k j q)"
    "mf_Path gone \<noteq> [] \<longrightarrow> StatSize d' (mf_Path gone) = None"
    "\<exists>c. record_of d' l = Some (r\<lparr>rr_Complete := c\<rparr>)"
proof -
  define d1 where "d1 = apply_ops l stays d (map fst (delete_core r i p m gone kept))"
  have "LoadManifest d1 = (\<lambda>h k j q.
      if (h, k, j, q) = (ly_InfoHash l, ly_Params l, i, p) then Some (m\<lparr>m_Frames := kept\<rparr>) else LoadManifest d h k j q) \<and>
    (mf_Path gone \<noteq> [] \<longrightarrow> StatSize d1 (mf_Path gone) = None) \<and> (\<exists>c. record_of d1 l = Some (r\<lparr>rr_Complete := c\<rparr>))"
    using assms(1) by (cases "kept = []"; cases "mf_Path gone = []")
      (auto simp: d1_def delete_core_def apply_ops_def fun_eq_iff intro: exI [of _ "rr_Complete r"])
  moreover
  have sh: "x \<in> {OpWriteSheet i p, OpRemove (path_Join [FileDir u l i p, ''sheet.jpg''])}" if "x \<in> set xs" for x
    using that assms(2) by (auto simp: sheet_steps_def split: if_splits)
  have "LoadManifest (foldl (apply_op l stays) e ys) = LoadManifest e \<and>
      LoadRun (foldl (apply_op l stays) e ys) = LoadRun e \<and>
      (\<forall>q. StatSize e q = None \<longrightarrow> StatSize (foldl (apply_op l stays) e ys) q = None)"
    if "set ys \<subseteq> set xs" for ys e
    using that
  proof (induction ys arbitrary: e)
    case (Cons y ys)
    from Cons.prems sh [of y] have "LoadManifest (apply_op l stays e y) = LoadManifest e \<and>
      LoadRun (apply_op l stays e y) = LoadRun e \<and> (\<forall>q. StatSize e q = None \<longrightarrow> StatSize (apply_op l stays e y) q = None)"
      by auto
    with Cons.IH [of "apply_op l stays e y"] Cons.prems show ?case by simp
  qed simp
  from this [OF order_refl, of d1] have "LoadManifest d' = LoadManifest d1" "LoadRun d' = LoadRun d1"
    "\<forall>q. StatSize d1 q = None \<longrightarrow> StatSize d' q = None" by (simp_all add: d'_def d1_def apply_ops_def)
  ultimately show "LoadManifest d' = (\<lambda>h k j q.
      if (h, k, j, q) = (ly_InfoHash l, ly_Params l, i, p) then Some (m\<lparr>m_Frames := kept\<rparr>) else LoadManifest d h k j q)"
    "mf_Path gone \<noteq> [] \<longrightarrow> StatSize d' (mf_Path gone) = None"
    "\<exists>c. record_of d' l = Some (r\<lparr>rr_Complete := c\<rparr>)"
    by simp_all
qed

lemma delete_done:
  assumes "perform fails (delete_ops u l w r i p m gone kept) = (ops, res)" "res \<in> {None, Some ErrSheetStale}"
  shows "\<exists>xs. ops = map fst (delete_core r i p m gone kept) @ xs \<and>
    set xs \<subseteq> set (map fst (fst (sheet_steps u l w i p (m\<lparr>m_Frames := kept\<rparr>))))"
proof -
  let ?c = "delete_core r i p m gone kept" and ?s = "fst (sheet_steps u l w i p (m\<lparr>m_Frames := kept\<rparr>))"
  note pf = perform_prefix [OF assms(1)]
  then obtain n where n: "ops = take n (map fst ?c @ map fst ?s)" by (auto simp: delete_ops_def)
  have "length ?c \<le> length ops"
  proof (cases res)
    case None
    with pf show ?thesis by (simp add: delete_ops_def)
  next
    case (Some e)
    show ?thesis
    proof (rule ccontr)
      assume "\<not> length ?c \<le> length ops"
      moreover from Some pf assms(2) have "snd ((?c @ ?s) ! length ops) = ErrSheetStale" by (auto simp: delete_ops_def)
      ultimately have "snd (?c ! length ops) = ErrSheetStale" "length ops < length ?c" by (simp_all add: nth_append)
      then have "ErrSheetStale \<in> snd ` set ?c" by (metis image_eqI nth_mem)
      then show False by (auto simp: delete_core_def split: if_splits)
    qed
  qed
  then have "length ?c \<le> n" using n by simp
  then have "ops = map fst ?c @ take (n - length ?c) (map fst ?s)" using n by (simp add: take_append)
  then show ?thesis using set_take_subset by metis
qed

text \<open>C14: Deleting a frame never breaks the set it is in. After each of its writes and removals, wherever a
crash or a failure stops it, every manifest names only frames that are there and every file listed as
complete has its manifest with frames and no gap, so what was servable from disk stays servable. When it
is reported done, with or without a stale sheet, the first record with that index is gone from the
manifest and its file from the disk, the other records stay as they are, with their indices, and no other
file's manifest, nor what the run was asked for, is touched.\<close>

theorem delete_frame:
  assumes "ly_Root l \<noteq> []" "sane_unicode u" "set_sound u l d"
    and "DeleteFrame u d l w i k = (ops, res)"
  shows "crash_safe u l stays d ops \<and>
    (res \<in> {None, Some ErrSheetStale} \<longrightarrow>
       (\<exists>r p m gone as bs c.
          record_of d l = Some r \<and> recordedVideoPath r i = Some p \<and>
          LoadManifest d (ly_InfoHash l) (ly_Params l) i p = Some m \<and>
          m_Frames m = as @ gone # bs \<and> mf_Index gone = k \<and> (\<forall>f\<in>set as. mf_Index f \<noteq> k) \<and>
          LoadManifest (apply_ops l stays d ops) = (\<lambda>h e j q.
            if (h, e, j, q) = (ly_InfoHash l, ly_Params l, i, p) then Some (m\<lparr>m_Frames := as @ bs\<rparr>)
            else LoadManifest d h e j q) \<and>
          (mf_Path gone \<noteq> [] \<longrightarrow> StatSize (apply_ops l stays d ops) (mf_Path gone) = None) \<and>
          record_of (apply_ops l stays d ops) l = Some (r\<lparr>rr_Complete := c\<rparr>)))"
  using DeleteFrame_cases [OF assms(4)]
proof
  assume "ops = [] \<and> res \<noteq> None \<and> res \<noteq> Some ErrSheetStale"
  with assms(3) show ?thesis by (auto simp: crash_safe_Nil)
next
  assume "\<exists>r p m gone kept. record_of d l = Some r \<and> recordedVideoPath r i = Some p \<and>
       LoadManifest d (ly_InfoHash l) (ly_Params l) i p = Some m \<and> take_frame k (m_Frames m) = Some (gone, kept) \<and>
       (\<exists>res'. perform (dw_fails w) (delete_ops u l w r i p m gone kept) = (ops, res') \<and>
          (if res' = None then res \<in> {None, Some ErrSheetStale} else res = res'))"
  then obtain r p m gone kept res' where c: "record_of d l = Some r" "recordedVideoPath r i = Some p"
      "LoadManifest d (ly_InfoHash l) (ly_Params l) i p = Some m" "take_frame k (m_Frames m) = Some (gone, kept)"
      "perform (dw_fails w) (delete_ops u l w r i p m gone kept) = (ops, res')"
      "if res' = None then res \<in> {None, Some ErrSheetStale} else res = res'" by blast
  note pf = perform_prefix [OF c(5)]
  from pf obtain n where "ops = take n (map fst (delete_ops u l w r i p m gone kept))" by blast
  with crash_safe_take [OF delete_ops_safe [OF assms(1-3) c(1-4)]] have safe: "crash_safe u l stays d ops" by simp
  moreover
  from take_frame_split [OF c(4)] obtain as bs where ab: "mf_Index gone = k" "m_Frames m = as @ gone # bs" "kept = as @ bs"
      "\<forall>f\<in>set as. mf_Index f \<noteq> k" by blast
  have "\<exists>c. record_of (apply_ops l stays d ops) l = Some (r\<lparr>rr_Complete := c\<rparr>) \<and>
      LoadManifest (apply_ops l stays d ops) = (\<lambda>h e j q.
            if (h, e, j, q) = (ly_InfoHash l, ly_Params l, i, p) then Some (m\<lparr>m_Frames := as @ bs\<rparr>)
            else LoadManifest d h e j q) \<and>
          (mf_Path gone \<noteq> [] \<longrightarrow> StatSize (apply_ops l stays d ops) (mf_Path gone) = None)"
    if "res \<in> {None, Some ErrSheetStale}"
  proof -
    from that c(6) have "res' \<in> {None, Some ErrSheetStale}" by (auto split: if_splits)
    from delete_done [OF c(5) this] obtain xs where
      xs: "ops = map fst (delete_core r i p m gone kept) @ xs"
        "set xs \<subseteq> set (map fst (fst (sheet_steps u l w i p (m\<lparr>m_Frames := kept\<rparr>))))" by blast
    note e = delete_ops_effect [OF c(1) xs(2), where stays = stays and m = m and gone = gone and kept = kept, folded xs(1)]
    from e(3) e(1,2) show ?thesis unfolding ab(3) by blast
  qed
  ultimately show ?thesis using c(1-3) ab(1,2,4) by blast
qed

section \<open>Clearing a file\<close>

lemma clear_steps_safe:
  assumes "ly_Root l \<noteq> []" "sane_unicode u" "set_sound u l d" "record_of d l = Some r" "v \<in> set (rr_Videos r)"
    and "cf_Index v \<notin> set (rr_Complete r)" "\<not> cw_fails w (OpRemoveManifest (cf_Index v) (cf_Path v))"
  shows "crash_safe u l stays d (attempted w (clear_steps u l (cf_Index v) (cf_Path v)) @
    (if b then [OpRemoveDir (FileDir u l (cf_Index v) (cf_Path v))] else []))"
proof -
  let ?i = "cf_Index v" and ?p = "cf_Path v"
  define d1 where "d1 = apply_op l stays d (OpRemoveManifest ?i ?p)"
  have s: "distinct (map cf_Index (rr_Videos r))" "list_all (file_sound u d l (set (rr_Complete r))) (rr_Videos r)"
    using assms(3,4) by (simp_all add: set_sound_def)
  have other: "cf_Index x \<noteq> ?i" if "x \<in> set (rr_Videos r)" "x \<noteq> v" for x
    using s(1) that assms(5) by (auto simp: distinct_map dest: inj_onD)
  have d1: "set_sound u l d1"
  proof (rule manifest_op_sound [OF assms(3-5), of _ None])
    show "record_of d1 l = Some r" "StatSize d1 = StatSize d" "manifest_of d1 l v = None"
      using assms(4) by (simp_all add: d1_def)
    show "manifest_of d1 l x = manifest_of d l x" if "x \<in> set (rr_Videos r)" "x \<noteq> v" for x
      using other [OF that] by (simp add: d1_def)
  qed (use assms(6) in simp_all)
  define d2 where "d2 = apply_op l stays d1 (OpRemoveAll (FramesDir u l ?i ?p))"
  have "\<not> named d1 l q" if "inside (FramesDir u l ?i ?p) q" for q
  proof
    assume "named d1 l q"
    then obtain r' x m f where x: "record_of d1 l = Some r'" "x \<in> set (rr_Videos r')" "manifest_of d1 l x = Some m"
        "f \<in> set (m_Frames m)" "mf_Path f = q" "q \<noteq> []" unfolding named_def by blast
    from x(1) assms(4) have r': "r' = r" by (simp add: d1_def)
    have "x \<noteq> v" using x(3) by (auto simp: d1_def)
    with other x(2) r' have ne: "cf_Index x \<noteq> ?i" by blast
    have "list_all (file_sound u d1 l (set (rr_Complete r))) (rr_Videos r)" using d1 x(1) r' by (simp add: set_sound_def)
    then have fx: "file_sound u d1 l (set (rr_Complete r)) x" "file_sound u d1 l (set (rr_Complete r)) v"
      using x(2) r' assms(5) by (simp_all add: list_all_iff)
    with x(3,4) have "frame_sound u d1 l x f" by (simp add: file_sound_def list_all_iff)
    with x(5,6) have "inside (FramesDir u l (cf_Index x) (cf_Path x)) q" by (simp add: frame_sound_def)
    with frames_apart [OF assms(1,2) _ _ this that] ne fx show False by (simp add: file_sound_def)
  qed
  then have d2: "set_sound u l d2"
    using removal_sound [OF d1, of "\<lambda>q. inside (FramesDir u l ?i ?p) q \<and> \<not> stays (FramesDir u l ?i ?p) q"]
    by (simp add: d2_def)
  define d3 where "d3 = apply_op l stays d2 (OpRemove (path_Join [FileDir u l ?i ?p, ''sheet.jpg'']))"
  have d3: "set_sound u l d3" unfolding d3_def by (rule sheet_removal_sound [OF assms(1,2) d2])
  have dir: "crash_safe u l stays e (if b then [OpRemoveDir (FileDir u l ?i ?p)] else [])" if "set_sound u l e" for e
    using that by (simp add: crash_safe_Cons crash_safe_Nil)
  have c: "crash_safe u l stays d (OpRemoveManifest ?i ?p # OpRemoveAll (FramesDir u l ?i ?p) #
      (if cw_fails w (OpRemove (path_Join [FileDir u l ?i ?p, ''sheet.jpg''])) then []
       else [OpRemove (path_Join [FileDir u l ?i ?p, ''sheet.jpg''])]) @ (if b then [OpRemoveDir (FileDir u l ?i ?p)] else []))"
    unfolding crash_safe_Cons using assms(3) d1 d2 d3
    by (simp add: crash_safe_Cons crash_safe_Nil apply_op.simps(7) d1_def [symmetric] d2_def [symmetric] d3_def [symmetric] del: apply_op.simps(1-6))
  have "attempted w (clear_steps u l ?i ?p) = OpRemoveManifest ?i ?p # OpRemoveAll (FramesDir u l ?i ?p) #
      (if cw_fails w (OpRemove (path_Join [FileDir u l ?i ?p, ''sheet.jpg''])) then []
       else [OpRemove (path_Join [FileDir u l ?i ?p, ''sheet.jpg''])])"
    using assms(7) by (simp add: attempted_def clear_steps_def)
  with c show ?thesis by simp
qed

lemma ClearFile_cases:
  assumes "ClearFile u d l w i = (ops, res)"
  shows "ops = [] \<and> res \<in> {Some ErrNoSuchFile, Some ErrOutside, Some ErrRunRecord} \<or>
    (\<exists>r p b. record_of d l = Some r \<and> recordedVideoPath r i = Some p \<and>
       ops = OpSaveRun (r\<lparr>rr_Complete := withoutIndex (rr_Complete r) i\<rparr>) # attempted w (clear_steps u l i p) @
         (if b then [OpRemoveDir (FileDir u l i p)] else []) \<and>
       res \<in> {None, Some ErrClearIncomplete} \<and> (res = None \<longrightarrow> \<not> list_ex (cw_fails w) (clear_steps u l i p)))"
proof (cases "record_of d l")
  case None
  with assms show ?thesis by (simp add: ClearFile_def)
next
  case r: (Some r)
  show ?thesis
  proof (cases "recordedVideoPath r i")
    case None
    with assms r show ?thesis by (simp add: ClearFile_def)
  next
    case p: (Some p)
    let ?save = "OpSaveRun (r\<lparr>rr_Complete := withoutIndex (rr_Complete r) i\<rparr>)"
    obtain lo b where re: "removeEmptied w (FileDir u l i p) = (lo, b)" by (cases "removeEmptied w (FileDir u l i p)")
    then have lo: "lo = (if lo = [] then [] else [OpRemoveDir (FileDir u l i p)])"
      by (auto simp: removeEmptied_def split: listing.splits if_splits)
    from assms have "ops = [] \<and> res \<in> {Some ErrNoSuchFile, Some ErrOutside, Some ErrRunRecord} \<or>
        ops = ?save # attempted w (clear_steps u l i p) @ [] \<and> res = Some ErrClearIncomplete \<or>
        ops = ?save # attempted w (clear_steps u l i p) @ lo \<and> res \<in> {None, Some ErrClearIncomplete} \<and>
        \<not> list_ex (cw_fails w) (clear_steps u l i p)"
      unfolding ClearFile_def r p option.case Let_def re by (cases b) (auto split: if_splits)
    then show ?thesis
    proof (elim disjE)
      assume "ops = ?save # attempted w (clear_steps u l i p) @ [] \<and> res = Some ErrClearIncomplete"
      with r p show ?thesis by (intro disjI2 exI [of _ r] exI [of _ p] exI [of _ False]) simp
    next
      assume "ops = ?save # attempted w (clear_steps u l i p) @ lo \<and> res \<in> {None, Some ErrClearIncomplete} \<and>
        \<not> list_ex (cw_fails w) (clear_steps u l i p)"
      with r p lo show ?thesis by (intro disjI2 exI [of _ r] exI [of _ p] exI [of _ "lo \<noteq> []"]) auto
    qed simp
  qed
qed

text \<open>How the read-back of the directory decides: nothing of it may be left, and where it was still there, empty,
its removal was done.\<close>

lemma ClearFile_verdict:
  assumes "ClearFile u d l w i = (ops, res)" "res \<in> {None, Some ErrClearIncomplete}"
    and "record_of d l = Some r" "recordedVideoPath r i = Some p"
  shows "(OpRemoveDir (FileDir u l i p) \<in> set ops \<longleftrightarrow> \<not> list_ex (cw_fails w) (clear_steps u l i p) \<and>
       cw_listing w (FileDir u l i p) = Entries [] \<and> \<not> cw_fails w (OpRemoveDir (FileDir u l i p))) \<and>
     (res = None \<longleftrightarrow> \<not> list_ex (cw_fails w) (clear_steps u l i p) \<and>
       (cw_listing w (FileDir u l i p) = Absent \<or> OpRemoveDir (FileDir u l i p) \<in> set ops))"
proof -
  have "OpRemoveDir x \<notin> set (attempted w (clear_steps u l i p))" for x by (auto simp: attempted_def clear_steps_def)
  with assms show ?thesis
    by (auto simp: ClearFile_def Let_def removeEmptied_def split: if_splits listing.splits)
qed

lemma steps_reach:
  "ops = attempted w (clear_steps u l i p) @ (if b then [OpRemoveDir (FileDir u l i p)] else []) \<Longrightarrow>
   LoadRun (apply_ops l (stays_of w) d ops) = LoadRun d \<and> ReadDir (apply_ops l (stays_of w) d ops) = ReadDir d \<and>
   (\<forall>h k j q. (h, k, j, q) \<noteq> (ly_InfoHash l, ly_Params l, i, p) \<longrightarrow>
      LoadManifest (apply_ops l (stays_of w) d ops) h k j q = LoadManifest d h k j q) \<and>
   (\<forall>q. StatSize (apply_ops l (stays_of w) d ops) q \<noteq> StatSize d q \<longrightarrow>
      StatSize (apply_ops l (stays_of w) d ops) q = None \<and>
      (inside (FramesDir u l i p) q \<or> path_parts q = path_parts (path_Join [FileDir u l i p, ''sheet.jpg''])))"
  by (auto simp: attempted_def clear_steps_def apply_ops_def)

lemma inside_apart:
  assumes "ly_Root l \<noteq> []" "sane_unicode u" "0 \<le> j" "0 \<le> i" "j \<noteq> i" "inside (FramesDir u l j x) q"
  shows "\<not> (inside (FramesDir u l i p) q \<or> path_parts q = path_parts (path_Join [FileDir u l i p, ''sheet.jpg'']))"
  using frames_apart [OF assms(1,2,3,4,6)] assms
  by (auto simp: inside_def FramesDir_parts [OF assms(1,2)] sheet_parts [OF assms(1,2)])

text \<open>C15: Clearing a file takes that file away and nothing else. A refusal leaves the disk as it is; otherwise the
record is written first and no longer lists the file as complete, while what was asked for stays; if the manifest
can be removed then, after every single write and removal, what the set promises is on disk. Whatever fails, no
other record, no other manifest and no file but this file's frames and its contact sheet is touched, so that every
frame of every other file keeps its bytes. A clear is reported done exactly when no removal failed and the file's
directory, read back, is gone, or lists nothing and was removed then: a directory that still lists something, that
cannot be read or that cannot be removed is reported as incomplete. And one reported done has left no manifest and
nothing in the file's directory of frames.\<close>

theorem clear_file:
  assumes "ly_Root l \<noteq> []" "sane_unicode u" "set_sound u l d"
    and "ClearFile u d l w i = (ops, res)"
  shows "(res \<in> {Some ErrNoSuchFile, Some ErrOutside, Some ErrRunRecord} \<and> ops = [] \<or>
     (\<exists>r p. record_of d l = Some r \<and> recordedVideoPath r i = Some p \<and>
        res \<in> {None, Some ErrClearIncomplete} \<and> ops \<noteq> [] \<and>
        hd ops = OpSaveRun (r\<lparr>rr_Complete := withoutIndex (rr_Complete r) i\<rparr>) \<and>
        i \<notin> set (withoutIndex (rr_Complete r) i) \<and>
        (\<not> cw_fails w (OpRemoveManifest i p) \<longrightarrow> crash_safe u l (stays_of w) d ops) \<and>
        (let d' = apply_ops l (stays_of w) d ops; dir = FileDir u l i p in
          LoadRun d' = (LoadRun d)(ly_InfoHash l := (LoadRun d (ly_InfoHash l))(ly_Params l :=
            Some (r\<lparr>rr_Complete := withoutIndex (rr_Complete r) i\<rparr>))) \<and>
          ReadDir d' = ReadDir d \<and>
          (\<forall>h k j q. (h, k, j, q) \<noteq> (ly_InfoHash l, ly_Params l, i, p) \<longrightarrow> LoadManifest d' h k j q = LoadManifest d h k j q) \<and>
          (\<forall>q. StatSize d' q \<noteq> StatSize d q \<longrightarrow> StatSize d' q = None \<and>
             (inside (FramesDir u l i p) q \<or> path_parts q = path_parts (path_Join [dir, ''sheet.jpg'']))) \<and>
          (\<forall>v\<in>set (rr_Videos r). cf_Index v \<noteq> i \<longrightarrow>
             (\<forall>q. inside (FramesDir u l (cf_Index v) (cf_Path v)) q \<longrightarrow> StatSize d' q = StatSize d q)) \<and>
          (OpRemoveDir dir \<in> set ops \<longrightarrow> cw_listing w dir = Entries [] \<and> \<not> cw_fails w (OpRemoveDir dir)) \<and>
          (res = None \<longleftrightarrow> \<not> list_ex (cw_fails w) (clear_steps u l i p) \<and>
             (cw_listing w dir = Absent \<or> OpRemoveDir dir \<in> set ops)) \<and>
          (res = None \<longrightarrow> LoadManifest d' (ly_InfoHash l) (ly_Params l) i p = None \<and>
             (\<forall>q. inside (FramesDir u l i p) q \<longrightarrow> StatSize d' q = None)))))"
  using ClearFile_cases [OF assms(4)]
proof (elim disjE exE conjE)
  fix r :: RunRecord and p b
  let ?r = "r\<lparr>rr_Complete := withoutIndex (rr_Complete r) i\<rparr>"
  let ?rest = "attempted w (clear_steps u l i p) @ (if b then [OpRemoveDir (FileDir u l i p)] else [])"
  assume c: "record_of d l = Some r" "recordedVideoPath r i = Some p"
    and ops: "ops = OpSaveRun ?r # ?rest"
    and res: "res \<in> {None, Some ErrClearIncomplete}" "res = None \<longrightarrow> \<not> list_ex (cw_fails w) (clear_steps u l i p)"
  let ?d = "apply_op l (stays_of w) d (OpSaveRun ?r)" and ?d' = "apply_ops l (stays_of w) d ops"
  have out: "i \<notin> set (withoutIndex (rr_Complete r) i)" by (simp add: withoutIndex_def)
  have s: "distinct (map cf_Index (rr_Videos r))" "list_all (file_sound u d l (set (rr_Complete r))) (rr_Videos r)"
    using assms(3) c(1) by (simp_all add: set_sound_def)
  from recorded_video [OF c(2) s(1)] obtain v where v: "v \<in> set (rr_Videos r)" "cf_Index v = i" "cf_Path v = p" by blast
  have nonneg: "0 \<le> cf_Index x" if "x \<in> set (rr_Videos r)" for x using s(2) that by (simp add: list_all_iff file_sound_def)
  have d: "set_sound u l ?d" "record_of ?d l = Some ?r"
    using save_sound [OF assms(3) c(1), of "withoutIndex (rr_Complete r) i" "stays_of w"] by (auto simp: withoutIndex_def)
  have safe: "crash_safe u l (stays_of w) d ops" if "\<not> cw_fails w (OpRemoveManifest i p)"
    using clear_steps_safe [OF assms(1,2) d, of v w "stays_of w" b] v out that assms(3)
    by (cases b) (simp_all add: ops crash_safe_Cons del: apply_op.simps)
  have d': "?d' = apply_ops l (stays_of w) ?d ?rest" by (simp add: ops apply_ops_def)
  note reach = steps_reach [OF refl, of l w ?d u i p b, folded d']
  have others: "StatSize ?d' q = StatSize d q"
    if "x \<in> set (rr_Videos r)" "cf_Index x \<noteq> i" "inside (FramesDir u l (cf_Index x) (cf_Path x)) q" for x q
    using reach inside_apart [OF assms(1,2) nonneg [OF that(1)] _ that(2,3), of p] nonneg [OF v(1)] v(2) by auto
  have gone: "LoadManifest ?d' (ly_InfoHash l) (ly_Params l) i p = None \<and>
      (\<forall>q. inside (FramesDir u l i p) q \<longrightarrow> StatSize ?d' q = None)" if "res = None"
  proof -
    from res(2) that have "\<not> list_ex (cw_fails w) (clear_steps u l i p)" by blast
    then have "attempted w (clear_steps u l i p) = clear_steps u l i p" "\<not> cw_fails w (OpRemoveAll (FramesDir u l i p))"
      by (simp_all add: attempted_def list_ex_iff clear_steps_def)
    then show ?thesis by (simp add: ops apply_ops_def clear_steps_def stays_of_def)
  qed
  have run: "LoadRun ?d' = (LoadRun d)(ly_InfoHash l := (LoadRun d (ly_InfoHash l))(ly_Params l := Some ?r))"
    "ReadDir ?d' = ReadDir d" using reach by simp_all
  have sets: "LoadManifest ?d' h k j q = LoadManifest d h k j q" if "(h, k, j, q) \<noteq> (ly_InfoHash l, ly_Params l, i, p)" for h k j q
    using reach that by simp
  have files: "StatSize ?d' q = None \<and> (inside (FramesDir u l i p) q \<or> path_parts q = path_parts (path_Join [FileDir u l i p, ''sheet.jpg'']))"
    if "StatSize ?d' q \<noteq> StatSize d q" for q using reach that by simp
  note verdict = ClearFile_verdict [OF assms(4) res(1) c]
  show ?thesis unfolding Let_def
  proof (intro disjI2 exI [of _ r] exI [of _ p] conjI)
    show "hd ops = OpSaveRun ?r" "ops \<noteq> []" by (simp_all add: ops)
    show "\<not> cw_fails w (OpRemoveManifest i p) \<longrightarrow> crash_safe u l (stays_of w) d ops" using safe by blast
    show "\<forall>h k j q. (h, k, j, q) \<noteq> (ly_InfoHash l, ly_Params l, i, p) \<longrightarrow> LoadManifest ?d' h k j q = LoadManifest d h k j q"
      using sets by blast
    show "\<forall>q. StatSize ?d' q \<noteq> StatSize d q \<longrightarrow> StatSize ?d' q = None \<and>
        (inside (FramesDir u l i p) q \<or> path_parts q = path_parts (path_Join [FileDir u l i p, ''sheet.jpg'']))"
      using files by blast
    show "\<forall>v\<in>set (rr_Videos r). cf_Index v \<noteq> i \<longrightarrow>
        (\<forall>q. inside (FramesDir u l (cf_Index v) (cf_Path v)) q \<longrightarrow> StatSize ?d' q = StatSize d q)" using others by blast
    show "OpRemoveDir (FileDir u l i p) \<in> set ops \<longrightarrow>
        cw_listing w (FileDir u l i p) = Entries [] \<and> \<not> cw_fails w (OpRemoveDir (FileDir u l i p))"
      using conjunct1 [OF verdict] by blast
    show "res = None \<longrightarrow> LoadManifest ?d' (ly_InfoHash l) (ly_Params l) i p = None \<and>
        (\<forall>q. inside (FramesDir u l i p) q \<longrightarrow> StatSize ?d' q = None)" using gone by blast
  qed (fact c res(1) out run conjunct2 [OF verdict])+
qed simp

section \<open>A set to delete from\<close>

definition demo_frame :: "int \<Rightarrow> string \<Rightarrow> ManifestFrame" where
  "demo_frame i path = no_frame\<lparr>mf_Index := i, mf_ActualMS := Some 0, mf_Path := path\<rparr>"

definition demo_path :: "char \<Rightarrow> string" where
  "demo_path c = ''out/h/p/00-a/frames/00'' @ c # ''.jpg''"

definition demo_manifest :: Manifest where
  "demo_manifest = no_manifest\<lparr>m_Frames := [demo_frame 0 (demo_path (CHR ''0'')), demo_frame 1 (demo_path (CHR ''1''))]\<rparr>"

definition demo_video :: CacheFile where
  "demo_video = \<lparr>cf_Index = 0, cf_Path = ''a.mkv'', cf_Bytes = 9, cf_Offset = 0\<rparr>"

definition demo_record :: RunRecord where
  "demo_record =
     \<lparr>rr_Source = ''magnet:?x'', rr_InfoHash = ''h'', rr_Name = ''n'', rr_Private = False,
      rr_Plan = \<lparr>pl_Count = 2, pl_Start = (0, 0), pl_End = (1, 0), pl_Profile = ''min-time'', pl_Format = ''jpeg'',
        pl_Sequential = False\<rparr>,
      rr_Videos = [demo_video], rr_Files = None, rr_Selected = Some [0], rr_Complete = [0], rr_Claimed = None,
      rr_CreatedAt = 0\<rparr>"

definition demo_disk :: Disk where
  "demo_disk =
     \<lparr>LoadRun = (\<lambda>h k. if h = ''h'' \<and> k = ''p'' then Some demo_record else None),
      LoadManifest = (\<lambda>h k i p. if h = ''h'' \<and> k = ''p'' \<and> i = 0 \<and> p = ''a.mkv'' then Some demo_manifest else None),
      ReadDir = (\<lambda>d. None),
      StatSize = (\<lambda>q. if q = demo_path (CHR ''0'') \<or> q = demo_path (CHR ''1'') then Some 5 else None)\<rparr>"

lemma demo_root: "ly_Root demo_layout \<noteq> []"
  by (simp add: demo_layout_def)

lemma demo_sound: "set_sound plain_unicode demo_layout demo_disk"
proof -
  have p: "path_parts (FramesDir plain_unicode demo_layout 0 ''a.mkv'') = (False, [''out'', ''h'', ''p'', ''00-a'', ''frames''])"
    "path_parts (demo_path (CHR ''0'')) = (False, [''out'', ''h'', ''p'', ''00-a'', ''frames'', ''000.jpg''])"
    "path_parts (demo_path (CHR ''1'')) = (False, [''out'', ''h'', ''p'', ''00-a'', ''frames'', ''001.jpg''])"
    by code_simp+
  have n: "demo_path c \<noteq> []" for c by (simp add: demo_path_def)
  have "record_of demo_disk demo_layout = Some demo_record" "manifest_of demo_disk demo_layout demo_video = Some demo_manifest"
    by (simp_all add: demo_disk_def demo_layout_def demo_video_def)
  then show ?thesis
    by (simp add: set_sound_def file_sound_def frame_sound_def frame_paths_def demo_record_def demo_video_def
        demo_manifest_def demo_frame_def no_frame_def n inside_def p) (simp add: demo_disk_def)
qed

definition demo_world :: delete_world where
  "demo_world = \<lparr>dw_writer = True, dw_fails = (\<lambda>_. False), dw_sheet = (\<lambda>_ _ _. True)\<rparr>"

lemma delete_frame_witness:
  "\<exists>ops. DeleteFrame plain_unicode demo_disk demo_layout demo_world 0 0 = (ops, None) \<and>
     crash_safe plain_unicode demo_layout (\<lambda>_ _. False) demo_disk ops \<and>
     StatSize (apply_ops demo_layout (\<lambda>_ _. False) demo_disk ops) (demo_path (CHR ''0'')) = None"
proof -
  have "is_within (RunDir demo_layout) (demo_path (CHR ''0''))" by code_simp
  moreover have n: "demo_path c \<noteq> []" for c by (simp add: demo_path_def)
  ultimately have "snd (DeleteFrame plain_unicode demo_disk demo_layout demo_world 0 0) = None"
    by (simp add: DeleteFrame_def demo_disk_def demo_layout_def demo_record_def demo_video_def recordedVideoPath_def
        demo_manifest_def demo_frame_def no_frame_def demo_world_def delete_ops_def delete_core_def sheet_steps_def)
  then obtain ops where d: "DeleteFrame plain_unicode demo_disk demo_layout demo_world 0 0 = (ops, None)"
    by (cases "DeleteFrame plain_unicode demo_disk demo_layout demo_world 0 0") auto
  from delete_frame [OF demo_root plain_unicode_sane demo_sound d, of "\<lambda>_ _. False"]
  obtain r p m gone as bs where
    c: "crash_safe plain_unicode demo_layout (\<lambda>_ _. False) demo_disk ops" "record_of demo_disk demo_layout = Some r"
      "recordedVideoPath r 0 = Some p" "LoadManifest demo_disk (ly_InfoHash demo_layout) (ly_Params demo_layout) 0 p = Some m"
      "m_Frames m = as @ gone # bs" "mf_Index gone = 0" "\<forall>f\<in>set as. mf_Index f \<noteq> 0"
      "mf_Path gone \<noteq> [] \<longrightarrow> StatSize (apply_ops demo_layout (\<lambda>_ _. False) demo_disk ops) (mf_Path gone) = None"
    by blast
  from c(2-4) have "m = demo_manifest"
    by (auto simp: demo_disk_def demo_layout_def split: if_splits)
  with c(5-7) have "gone = demo_frame 0 (demo_path (CHR ''0''))"
    by (cases as) (auto simp: demo_manifest_def demo_frame_def no_frame_def)
  with c(1,8) d n show ?thesis by (auto simp: demo_frame_def no_frame_def)
qed

definition demo_clear :: clear_world where
  "demo_clear = \<lparr>cw_fails = (\<lambda>_. False), cw_stays = (\<lambda>_. False), cw_listing = (\<lambda>_. Absent)\<rparr>"

lemma clear_file_witness:
  "\<exists>ops. ClearFile plain_unicode demo_disk demo_layout demo_clear 0 = (ops, None) \<and>
     crash_safe plain_unicode demo_layout (stays_of demo_clear) demo_disk ops \<and>
     StatSize (apply_ops demo_layout (stays_of demo_clear) demo_disk ops) (demo_path (CHR ''1'')) = None"
proof -
  have w: "is_within (RunDir demo_layout) (demo_path (CHR ''0''))" "is_within (RunDir demo_layout) (demo_path (CHR ''1''))"
    by code_simp+
  then have "snd (ClearFile plain_unicode demo_disk demo_layout demo_clear 0) = None"
    by (simp add: ClearFile_def demo_disk_def demo_layout_def demo_record_def demo_video_def recordedVideoPath_def
        demo_manifest_def demo_frame_def no_frame_def demo_clear_def clear_steps_def removeEmptied_def)
  then obtain ops where d: "ClearFile plain_unicode demo_disk demo_layout demo_clear 0 = (ops, None)"
    by (cases "ClearFile plain_unicode demo_disk demo_layout demo_clear 0") auto
  from clear_file [OF demo_root plain_unicode_sane demo_sound d, unfolded Let_def] obtain r p where
    c: "record_of demo_disk demo_layout = Some r" "recordedVideoPath r 0 = Some p"
      "\<not> cw_fails demo_clear (OpRemoveManifest 0 p) \<longrightarrow> crash_safe plain_unicode demo_layout (stays_of demo_clear) demo_disk ops"
      "\<forall>q. inside (FramesDir plain_unicode demo_layout 0 p) q \<longrightarrow>
         StatSize (apply_ops demo_layout (stays_of demo_clear) demo_disk ops) q = None"
    by blast
  from c(1,2) have "p = ''a.mkv''"
    by (auto simp: demo_disk_def demo_layout_def demo_record_def demo_video_def recordedVideoPath_def split: if_splits)
  moreover have "path_parts (FramesDir plain_unicode demo_layout 0 ''a.mkv'') = (False, [''out'', ''h'', ''p'', ''00-a'', ''frames''])"
    "path_parts (demo_path (CHR ''1'')) = (False, [''out'', ''h'', ''p'', ''00-a'', ''frames'', ''001.jpg''])"
    by code_simp+
  ultimately have "inside (FramesDir plain_unicode demo_layout 0 p) (demo_path (CHR ''1''))" by (simp add: inside_def)
  with c(3,4) d show ?thesis by (auto simp: demo_clear_def)
qed

end
