(* ===== verification/Eviction.thy ===== *)
theory Eviction
  imports Cache FilePaths
begin

text \<open>
  \<^verbatim>\<open>internal/cache/evict.go\<close>: the result sets under a root, and which of them a ceiling on their
  bytes removes; with the directories \<^verbatim>\<open>Engine.markLive\<close> protects. The directories, the walk of each and
  the removals that fail are arguments; so is \<^verbatim>\<open>sort.Slice\<close>, which sorts and is not stable. A time is a
  number of nanoseconds.
\<close>

section \<open>The sets on disk\<close>

record CacheSet =
  se_InfoHash :: string
  se_Params :: string
  se_Dir :: string
  se_Bytes :: int
  se_CreatedAt :: int
  se_Aged :: bool

text \<open>What \<^verbatim>\<open>WalkDir\<close> shows of a tree: errors, directories, and files with their sizes where \<^verbatim>\<open>Info\<close> gives them.\<close>

datatype visit = VisitError | VisitDir | VisitFile "int option"

fun dirSize :: "int \<Rightarrow> visit list \<Rightarrow> int option" where
  "dirSize total_bytes [] = Some total_bytes"
| "dirSize total_bytes (VisitError # vs) = None"
| "dirSize total_bytes (VisitDir # vs) = dirSize total_bytes vs"
| "dirSize total_bytes (VisitFile None # vs) = None"
| "dirSize total_bytes (VisitFile (Some n) # vs) = dirSize (w64 (total_bytes + n)) vs"

definition scan_set :: "Disk \<Rightarrow> (string \<Rightarrow> visit list) \<Rightarrow> string \<Rightarrow> string \<Rightarrow> string \<times> bool \<Rightarrow> CacheSet option" where
  "scan_set d walk hashPath hash entry =
     (if \<not> snd entry then None
      else let dir = path_Join [hashPath, fst entry] in
        (case dirSize 0 (walk dir) of
           None \<Rightarrow> None
         | Some bytes \<Rightarrow>
             let r = LoadRun d hash (fst entry) in
             Some \<lparr>se_InfoHash = hash, se_Params = fst entry, se_Dir = dir, se_Bytes = bytes,
                   se_CreatedAt = (case r of None \<Rightarrow> 0 | Some record \<Rightarrow> rr_CreatedAt record), se_Aged = (r \<noteq> None)\<rparr>))"

definition scan_hash :: "Disk \<Rightarrow> (string \<Rightarrow> visit list) \<Rightarrow> string \<Rightarrow> string \<times> bool \<Rightarrow> CacheSet list" where
  "scan_hash d walk base entry =
     (if \<not> snd entry then []
      else let hashPath = path_Join [base, fst entry] in
        (case ReadDir d hashPath of
           None \<Rightarrow> []
         | Some entries \<Rightarrow> List.map_filter (scan_set d walk hashPath (fst entry)) entries))"

definition Scan :: "Disk \<Rightarrow> (string \<Rightarrow> visit list) \<Rightarrow> string \<Rightarrow> CacheSet list" where
  "Scan d walk base =
     (case ReadDir d base of None \<Rightarrow> [] | Some entries \<Rightarrow> concat (map (scan_hash d walk base) entries))"

section \<open>Evicting and clearing\<close>

record EvictResult =
  er_Removed :: "CacheSet list"
  er_Freed :: int

definition nothing_removed :: EvictResult where
  "nothing_removed = \<lparr>er_Removed = [], er_Freed = 0\<rparr>"

definition evictable :: "string list \<Rightarrow> CacheSet \<Rightarrow> bool" where
  "evictable live s \<longleftrightarrow> \<not> (\<not> se_Aged s \<or> path_Clean (se_Dir s) \<in> set (map path_Clean live))"

definition sum_bytes :: "int \<Rightarrow> CacheSet list \<Rightarrow> int" where
  "sum_bytes n sets = foldl (\<lambda>t s. w64 (t + se_Bytes s)) n sets"

fun evict_loop :: "(string \<Rightarrow> bool) \<Rightarrow> int \<Rightarrow> int \<Rightarrow> EvictResult \<Rightarrow> CacheSet list \<Rightarrow> EvictResult \<times> string option" where
  "evict_loop fails cap t r [] = (r, None)"
| "evict_loop fails cap t r (s # sets) =
     (if t \<le> cap then (r, None)
      else if fails (se_Dir s) then (r, Some (se_Dir s))
      else evict_loop fails cap (w64 (t - se_Bytes s))
             (r\<lparr>er_Removed := er_Removed r @ [s], er_Freed := w64 (er_Freed r + se_Bytes s)\<rparr>) sets)"

definition Evict ::
  "Disk \<Rightarrow> (string \<Rightarrow> visit list) \<Rightarrow> (string \<Rightarrow> bool) \<Rightarrow> (CacheSet list \<Rightarrow> CacheSet list) \<Rightarrow>
   string \<Rightarrow> int \<Rightarrow> string list \<Rightarrow> EvictResult \<times> string option" where
  "Evict d walk fails slice base cap live =
     (if cap \<le> 0 then (nothing_removed, None)
      else
        let sets = Scan d walk base
        in evict_loop fails cap (sum_bytes 0 sets) nothing_removed (slice (filter (evictable live) sets)))"

text \<open>What \<^verbatim>\<open>Stat\<close> says of a directory: there, missing, or an error.\<close>

datatype stat_answer = Present | Missing | StatError

definition Clear :: "(string \<Rightarrow> stat_answer) \<Rightarrow> (string \<Rightarrow> bool) \<Rightarrow> string \<Rightarrow> string \<Rightarrow> string \<Rightarrow> bool \<times> bool" where
  "Clear stat fails base infoHash params =
     (let dir = path_Join [base, infoHash, params] in
      case stat dir of
        Missing \<Rightarrow> (False, False)
      | StatError \<Rightarrow> (False, True)
      | Present \<Rightarrow> if fails dir then (False, True) else (True, False))"

fun clear_loop :: "(string \<Rightarrow> bool) \<Rightarrow> EvictResult \<Rightarrow> CacheSet list \<Rightarrow> EvictResult \<times> string option" where
  "clear_loop fails r [] = (r, None)"
| "clear_loop fails r (s # sets) =
     (if fails (se_Dir s) then (r, Some (se_Dir s))
      else clear_loop fails
             (r\<lparr>er_Removed := er_Removed r @ [s], er_Freed := w64 (er_Freed r + se_Bytes s)\<rparr>) sets)"

definition ClearAll :: "Disk \<Rightarrow> (string \<Rightarrow> visit list) \<Rightarrow> (string \<Rightarrow> bool) \<Rightarrow> string \<Rightarrow> EvictResult \<times> string option" where
  "ClearAll d walk fails base = clear_loop fails nothing_removed (Scan d walk base)"

section \<open>The directories runs are writing to\<close>

type_synonym LiveDirs = "string \<Rightarrow> nat option"

definition markLive :: "string \<Rightarrow> LiveDirs \<Rightarrow> LiveDirs" where
  "markLive dir e = e(dir \<mapsto> (case e dir of None \<Rightarrow> 1 | Some n \<Rightarrow> Suc n))"

definition unmarkLive :: "string \<Rightarrow> LiveDirs \<Rightarrow> LiveDirs" where
  "unmarkLive dir e =
     (case e dir of None \<Rightarrow> e | Some n \<Rightarrow> if n \<le> 1 then e(dir := None) else e(dir \<mapsto> n - 1))"

definition is_liveDirs :: "LiveDirs \<Rightarrow> string list \<Rightarrow> bool" where
  "is_liveDirs e dirs \<longleftrightarrow> distinct dirs \<and> set dirs = dom e"

end
