(* ===== verification/EvictionLaws.thy ===== *)
theory EvictionLaws
  imports Eviction "HOL-Library.Multiset"
begin

text \<open>
  What an eviction removes: whole sets, oldest first, none that a run is writing to, and no more of them
  than the ceiling asks for.
\<close>

section \<open>Directories in use\<close>

datatype live_event = Mark string | Unmark string

fun live_step :: "LiveDirs \<Rightarrow> live_event \<Rightarrow> LiveDirs" where
  "live_step e (Mark dir) = markLive dir e"
| "live_step e (Unmark dir) = unmarkLive dir e"

definition live_after :: "live_event list \<Rightarrow> LiveDirs" where
  "live_after evs = foldl live_step Map.empty evs"

text \<open>How many runs have marked a directory and not unmarked it.\<close>

fun writers :: "string \<Rightarrow> live_event list \<Rightarrow> nat" where
  "writers dir [] = 0"
| "writers dir (Mark x # evs) = (if x = dir then Suc (writers dir evs) else writers dir evs)"
| "writers dir (Unmark x # evs) = (if x = dir then writers dir evs - 1 else writers dir evs)"

text \<open>The newest event comes first here, as a run unmarks only what it has marked before.\<close>

lemma live_count:
  "foldr (\<lambda>ev e. live_step e ev) evs Map.empty dir = (if writers dir evs = 0 then None else Some (writers dir evs))"
proof (induction evs)
  case (Cons ev evs)
  then show ?case by (cases ev) (auto simp: markLive_def unmarkLive_def split: option.splits if_splits)
qed simp

lemma live_domain: "dom (live_after evs) = {dir. writers dir (rev evs) > 0}"
  using live_count [of "rev evs"] by (auto simp: live_after_def foldl_conv_foldr dom_def)

section \<open>The loop\<close>

definition bytes_of :: "CacheSet list \<Rightarrow> int" where
  "bytes_of sets = sum_list (map se_Bytes sets)"

lemma bytes_simps [simp]:
  "bytes_of [] = 0" "bytes_of (s # sets) = se_Bytes s + bytes_of sets" "bytes_of (as @ bs) = bytes_of as + bytes_of bs"
  by (simp_all add: bytes_of_def)

lemma bytes_nonneg: "\<forall>s\<in>set sets. 0 \<le> se_Bytes s \<Longrightarrow> 0 \<le> bytes_of sets"
  by (induction sets) auto

lemma bytes_mset: "mset as = mset bs \<Longrightarrow> bytes_of as = bytes_of bs"
  by (simp add: bytes_of_def flip: sum_mset_sum_list)

lemma sum_bytes_exact:
  "\<forall>s\<in>set sets. 0 \<le> se_Bytes s \<Longrightarrow> 0 \<le> n \<Longrightarrow> n + bytes_of sets < 2 ^ 63 \<Longrightarrow> sum_bytes n sets = n + bytes_of sets"
proof (induction sets arbitrary: n)
  case (Cons s sets)
  have "0 \<le> bytes_of sets" using Cons.prems(1) by (intro bytes_nonneg) simp
  with Cons.prems have "w64 (n + se_Bytes s) = n + se_Bytes s" by (intro w64_id) (auto simp: min_i64_def max_i64_def)
  with Cons show ?case by (simp add: sum_bytes_def)
qed (simp add: sum_bytes_def)

lemma bytes_filter: "\<forall>s\<in>set sets. 0 \<le> se_Bytes s \<Longrightarrow> bytes_of (filter P sets) \<le> bytes_of sets"
  by (induction sets) auto

lemma evict_loop_exact:
  "evict_loop fails cap t r sets = (res, err) \<Longrightarrow> \<forall>s\<in>set sets. 0 \<le> se_Bytes s \<Longrightarrow>
   0 \<le> er_Freed r \<Longrightarrow> er_Freed r + t < 2 ^ 63 \<Longrightarrow> bytes_of sets \<le> t \<Longrightarrow>
   \<exists>gone rest. sets = gone @ rest \<and> er_Removed res = er_Removed r @ gone \<and> er_Freed res = er_Freed r + bytes_of gone \<and>
     (\<forall>s\<in>set gone. \<not> fails (se_Dir s)) \<and> (\<forall>k<length gone. cap < t - bytes_of (take k gone)) \<and>
     (case err of None \<Rightarrow> t - bytes_of gone \<le> cap \<or> rest = []
      | Some dir \<Rightarrow> cap < t - bytes_of gone \<and> (\<exists>s more. rest = s # more \<and> se_Dir s = dir \<and> fails dir))"
proof (induction sets arbitrary: t r)
  case (Cons s sets)
  show ?case
  proof (cases "t \<le> cap \<or> fails (se_Dir s)")
    case True
    with Cons.prems(1) show ?thesis
      by (intro exI [of _ "[]"] exI [of _ "s # sets"]) (auto split: if_splits)
  next
    case False
    have "0 \<le> bytes_of sets" using Cons.prems(2) by (intro bytes_nonneg) simp
    from this Cons.prems(2-5) have w: "w64 (t - se_Bytes s) = t - se_Bytes s" "w64 (er_Freed r + se_Bytes s) = er_Freed r + se_Bytes s"
      by (auto intro!: w64_id simp: min_i64_def max_i64_def)
    let ?r = "r\<lparr>er_Removed := er_Removed r @ [s], er_Freed := er_Freed r + se_Bytes s\<rparr>"
    from False Cons.prems(1) w have "evict_loop fails cap (t - se_Bytes s) ?r sets = (res, err)" by simp
    from Cons.IH [OF this] Cons.prems \<open>0 \<le> bytes_of sets\<close> obtain gone rest where ih:
      "sets = gone @ rest" "er_Removed res = er_Removed r @ s # gone" "er_Freed res = er_Freed r + se_Bytes s + bytes_of gone"
      "\<forall>s\<in>set gone. \<not> fails (se_Dir s)" "\<forall>k<length gone. cap < t - se_Bytes s - bytes_of (take k gone)"
      "case err of None \<Rightarrow> t - se_Bytes s - bytes_of gone \<le> cap \<or> rest = []
        | Some dir \<Rightarrow> cap < t - se_Bytes s - bytes_of gone \<and> (\<exists>s more. rest = s # more \<and> se_Dir s = dir \<and> fails dir)"
      by auto
    have "\<forall>k<length (s # gone). cap < t - bytes_of (take k (s # gone))"
    proof (intro allI impI)
      fix k assume "k < length (s # gone)"
      then show "cap < t - bytes_of (take k (s # gone))"
        using False ih(5) [rule_format, of "k - 1"] by (cases k) (auto simp: algebra_simps)
    qed
    then show ?thesis using ih False
      by (intro exI [of _ "s # gone"] exI [of _ rest]) (auto simp: algebra_simps split: option.splits)
  qed
qed auto

section \<open>What an eviction removes\<close>

text \<open>The contract of \<^verbatim>\<open>sort.Slice\<close> for the order given.\<close>

definition sorts_by_age :: "(CacheSet list \<Rightarrow> CacheSet list) \<Rightarrow> bool" where
  "sorts_by_age slice \<longleftrightarrow> (\<forall>sets. mset (slice sets) = mset sets \<and> sorted (map se_CreatedAt (slice sets)))"

lemma sorts_by_age_sort_key: "sorts_by_age (sort_key se_CreatedAt)"
  by (simp add: sorts_by_age_def)

text \<open>C13: An eviction is the least the ceiling asks for, oldest first. Without a ceiling nothing goes. Otherwise what
goes are whole sets of the tree that have an age and whose directory no run has marked and not unmarked;
they go from the oldest on, each only while the tree is still over the ceiling; every such set that stays is
at least as young as every one that went. The figure returned is exactly their bytes. If no removal fails,
the tree then fits, or nothing that may go is left; if one fails, it is that of the next set in turn, and
the tree was still too big.\<close>

theorem evicts_oldest:
  assumes "Evict d walk fails slice base cap live = (res, err)" "sorts_by_age slice"
    and "is_liveDirs (live_after evs) live"
    and "\<forall>s\<in>set (Scan d walk base). 0 \<le> se_Bytes s" "bytes_of (Scan d walk base) < 2 ^ 63"
  shows "(cap \<le> 0 \<and> er_Removed res = [] \<and> er_Freed res = 0 \<and> err = None) \<or>
    (\<exists>rest. mset (er_Removed res @ rest) = mset (filter (evictable live) (Scan d walk base)) \<and>
       sorted (map se_CreatedAt (er_Removed res @ rest)) \<and>
       (\<forall>s\<in>set (er_Removed res). se_Aged s \<and> \<not> fails (se_Dir s) \<and>
          (\<forall>dir. path_Clean dir = path_Clean (se_Dir s) \<longrightarrow> writers dir (rev evs) = 0)) \<and>
       er_Freed res = bytes_of (er_Removed res) \<and>
       (\<forall>k<length (er_Removed res). cap < bytes_of (Scan d walk base) - bytes_of (take k (er_Removed res))) \<and>
       (case err of
          None \<Rightarrow> bytes_of (Scan d walk base) - er_Freed res \<le> cap \<or> rest = []
        | Some dir \<Rightarrow> cap < bytes_of (Scan d walk base) - er_Freed res \<and>
            (\<exists>s more. rest = s # more \<and> se_Dir s = dir \<and> fails dir)))"
proof (cases "cap \<le> 0")
  case True
  with assms(1) show ?thesis by (auto simp: Evict_def nothing_removed_def)
next
  case False
  let ?sets = "Scan d walk base" and ?c = "filter (evictable live) (Scan d walk base)"
  have slice: "mset (slice ?c) = mset ?c" "sorted (map se_CreatedAt (slice ?c))" using assms(2) by (auto simp: sorts_by_age_def)
  then have members: "set (slice ?c) = set ?c" by (metis set_mset_mset)
  have total: "sum_bytes 0 ?sets = bytes_of ?sets" using sum_bytes_exact [OF assms(4), of 0] assms(5) by simp
  from assms(1) False total have "evict_loop fails cap (bytes_of ?sets) nothing_removed (slice ?c) = (res, err)"
    by (simp add: Evict_def Let_def)
  from evict_loop_exact [OF this] members assms(4,5) bytes_filter [OF assms(4)] bytes_mset [OF slice(1)]
  obtain gone rest where e: "slice ?c = gone @ rest" "er_Removed res = gone" "er_Freed res = bytes_of gone"
      "\<forall>s\<in>set gone. \<not> fails (se_Dir s)" "\<forall>k<length gone. cap < bytes_of ?sets - bytes_of (take k gone)"
      "case err of None \<Rightarrow> bytes_of ?sets - bytes_of gone \<le> cap \<or> rest = []
      | Some dir \<Rightarrow> cap < bytes_of ?sets - bytes_of gone \<and> (\<exists>s more. rest = s # more \<and> se_Dir s = dir \<and> fails dir)"
    by (auto simp: nothing_removed_def)
  have "se_Aged s \<and> (\<forall>dir. path_Clean dir = path_Clean (se_Dir s) \<longrightarrow> writers dir (rev evs) = 0)" if "s \<in> set gone" for s
  proof -
    from that members e(1) have "evictable live s" by auto
    moreover have "set live = {dir. writers dir (rev evs) > 0}" using assms(3) live_domain by (simp add: is_liveDirs_def)
    ultimately have "se_Aged s" "path_Clean (se_Dir s) \<notin> path_Clean ` {dir. writers dir (rev evs) > 0}"
      by (simp_all add: evictable_def)
    then show ?thesis by (metis imageI mem_Collect_eq neq0_conv)
  qed
  with e slice show ?thesis by (intro disjI2 exI [of _ rest]) (simp split: option.splits)
qed

definition demo_walk :: "string \<Rightarrow> visit list" where
  "demo_walk dir = [VisitDir, VisitFile (Some 60), VisitFile (Some 40)]"

definition aged :: "int \<Rightarrow> RunRecord" where
  "aged t = \<lparr>rr_Source = [], rr_InfoHash = [], rr_Name = [], rr_Private = False,
     rr_Plan = \<lparr>pl_Count = 1, pl_Start = (0, 0), pl_End = (0, 0), pl_Profile = [], pl_Format = [], pl_Sequential = False\<rparr>,
     rr_Videos = [], rr_Files = None, rr_Selected = None, rr_Complete = [], rr_Claimed = None, rr_CreatedAt = t\<rparr>"

definition old_tree :: Disk where
  "old_tree = \<lparr>LoadRun = (\<lambda>h p. if p = ''a'' then Some (aged 3) else if p = ''b'' then Some (aged 1) else if p = ''c'' then Some (aged 2) else None),
     LoadManifest = (\<lambda>h p i q. None),
     ReadDir = (\<lambda>dir. if dir = ''out'' then Some [(''h'', True), (''note'', False)]
       else Some [(''a'', True), (''b'', True), (''c'', True), (''x'', True)]),
     StatSize = (\<lambda>p. None)\<rparr>"

lemma old_tree_sets:
  "Scan old_tree demo_walk ''out'' = map (\<lambda>(p, t, a). \<lparr>se_InfoHash = ''h'', se_Params = p, se_Dir = ''out/h/'' @ p,
     se_Bytes = 100, se_CreatedAt = t, se_Aged = a\<rparr>) [(''a'', 3, True), (''b'', 1, True), (''c'', 2, True), (''x'', 0, False)]"
  by code_simp

text \<open>Of four sets of a hundred bytes the oldest is being written to again and one has no readable record.\<close>

lemma evicts_oldest_witness:
  "\<exists>res. Evict old_tree demo_walk (\<lambda>_. False) (sort_key se_CreatedAt) ''out'' 250 [''out/h/b''] = (res, None) \<and>
     map se_Params (er_Removed res) = [''c'', ''a''] \<and> er_Freed res = bytes_of (er_Removed res)"
proof -
  let ?E = "Evict old_tree demo_walk (\<lambda>_. False) (sort_key se_CreatedAt) ''out'' 250 [''out/h/b'']"
  have run: "map se_Params (er_Removed (fst ?E)) = [''c'', ''a'']" "snd ?E = None"
    unfolding Evict_def old_tree_sets by code_simp+
  obtain res err where e: "?E = (res, err)" by (cases ?E)
  have "is_liveDirs (live_after [Mark ''out/h/b'']) [''out/h/b'']" by (simp add: is_liveDirs_def live_after_def markLive_def)
  from evicts_oldest [OF e sorts_by_age_sort_key this] run e show ?thesis by (auto simp: old_tree_sets bytes_of_def)
qed

text \<open>The directories in use are read once, before the tree is: a run that marks its directory between that reading
and the removal loses it.\<close>

lemma marked_too_late:
  "let live = []; res = fst (Evict old_tree demo_walk (\<lambda>_. False) (sort_key se_CreatedAt) ''out'' 350 live) in
   is_liveDirs (live_after []) live \<and> ''out/h/b'' \<in> set (map se_Dir (er_Removed res)) \<and>
   ''out/h/b'' \<in> dom (live_after [Mark ''out/h/b''])"
proof -
  have "''out/h/b'' \<in> set (map se_Dir (er_Removed (fst (Evict old_tree demo_walk (\<lambda>_. False) (sort_key se_CreatedAt) ''out'' 350 []))))"
    unfolding Evict_def old_tree_sets by code_simp
  then show ?thesis by (simp add: Let_def is_liveDirs_def live_after_def markLive_def)
qed

end
