(* ===== verification/EngineRun.thy ===== *)
theory EngineRun
  imports FileProcess Replay Pools Eviction
begin

text \<open>
  \<^verbatim>\<open>Engine.Run\<close> and \<^verbatim>\<open>Engine.run\<close> of \<^verbatim>\<open>internal/core/engine.go\<close>: one run from its request to its
  last event. It is answered from disk or refused at the roof, or it attaches its torrent to the pool,
  chooses its files, and has them worked on side by side; in the end it records what came of it and
  may evict older results. What is deferred is a stack that every exit unwinds. The pool is the one of \<open>Pools\<close>,
  the work on one file that of \<open>FileProcess\<close>; the swarm, the disk, the meters and the clock are arguments.
\<close>

section \<open>Errors of the swarm, and what the output directory is given\<close>

fun swarm_cause :: "swarm_error \<Rightarrow> go_error" where
  "swarm_cause ErrNoMetadata = [SwarmNoMetadata]"
| "swarm_cause ErrPrivacyUnresolvable = [SwarmPrivacyUnresolvable]"
| "swarm_cause NoPortAvailable = [SwarmNoPortAvailable]"
| "swarm_cause (ErrTorrentBusy key) = [SwarmTorrentBusy, Plain key]"
| "swarm_cause e = [Plain ''swarm'']"

definition NewWriter :: "Layout \<Rightarrow> go_error option \<Rightarrow> go_error option" where
  "NewWriter l mkdir = (if ly_Root l = [] then Some [Plain ''output root must not be empty''] else mkdir)"

text \<open>Errors are their texts here, as these end up among the warnings.\<close>

definition WriteTorrent :: "Layout \<Rightarrow> string \<Rightarrow> string option \<Rightarrow> (string, string) result" where
  "WriteTorrent l data place =
     (if data = [] then Inl (''the torrent file for '' @ ly_InfoHash l @ '' is empty'')
      else let path = TorrentPath l in
        (case place of Some e \<Rightarrow> Inl e | None \<Rightarrow> Inr (path_Join [path_Dir path, path_Base path])))"

definition saveTorrentFile :: "Layout \<Rightarrow> (string, string) result \<Rightarrow> string option \<Rightarrow> (string, string) result" where
  "saveTorrentFile l render place =
     (case render of Inl e \<Rightarrow> Inl (''render the torrent file: '' @ e) | Inr data \<Rightarrow> WriteTorrent l data place)"

definition extensionFor :: "Format \<Rightarrow> string" where
  "extensionFor format = (if format = PNG then ''png'' else ''jpg'')"

definition budgetFor :: "EngineConfig \<Rightarrow> int \<Rightarrow> Budget" where
  "budgetFor cfg selected =
     (if MaxBytes (ec_Budget cfg) = 0 \<and> MaxTime (ec_Budget cfg) = 0 then DefaultBudget selected else ec_Budget cfg)"

section \<open>The request\<close>

definition DefaultParallelism :: int where "DefaultParallelism = 4"

definition with_defaults :: "EngineConfig \<Rightarrow> EngineConfig" where
  "with_defaults cfg =
     (let cfg = (if ec_Parallelism cfg < 1 then cfg\<lparr>ec_Parallelism := DefaultParallelism\<rparr> else cfg)
      in if ec_Format cfg = [] then cfg\<lparr>ec_Format := JPEG\<rparr> else cfg)"

definition Engine_Run ::
  "(string \<Rightarrow> Magnet option) \<Rightarrow> (string \<Rightarrow> bool) \<Rightarrow> (string \<Rightarrow> MetaInfo option) \<Rightarrow> EngineConfig \<Rightarrow>
   (go_error, EngineConfig \<times> Source) result" where
  "Engine_Run parse_magnet readable load cfg =
     (let cfg = with_defaults cfg in
      case Plan_Validate (ec_Plan cfg) of
        Some e \<Rightarrow> Inl (Fail CodeInternal [Plain ''plan''])
      | None \<Rightarrow>
          (case ParseSource parse_magnet readable load (ec_Source cfg) of
             Inl e \<Rightarrow> Inl (Fail CodeInternal [Plain ''source''])
           | Inr src \<Rightarrow> Inr (cfg, src)))"

section \<open>Beginning a run\<close>

datatype deferred =
    DeferClosePool
  | DeferDetach nat
  | DeferCancel
  | DeferUnmark string
  | DeferCloseBridge

fun undo :: "Env \<Rightarrow> System \<times> LiveDirs \<Rightarrow> deferred \<Rightarrow> System \<times> LiveDirs" where
  "undo env (sys, live) DeferClosePool = (pool_step env sys DoClose, live)"
| "undo env (sys, live) (DeferDetach i) = (pool_step env sys (DoDetach i), live)"
| "undo env (sys, live) DeferCancel = (sys, live)"
| "undo env (sys, live) (DeferUnmark dir) = (sys, unmarkLive dir live)"
| "undo env (sys, live) DeferCloseBridge = (sys, live)"

definition unwind :: "Env \<Rightarrow> deferred list \<Rightarrow> System \<times> LiveDirs \<Rightarrow> System \<times> LiveDirs" where
  "unwind env defers st = foldl (undo env) st defers"

record EngineWorld =
  gw_unicode :: unicode
  gw_digest :: "string \<Rightarrow> string"
  gw_disk :: Disk
  gw_replay_elapsed :: int
  gw_env :: Env
  gw_peers :: "string list"
  gw_Name :: string
  gw_Files :: "FileInfo list"
  gw_mkdir :: "go_error option"
  gw_render :: "(string, string) result"
  gw_place :: "string option"
  gw_bridge :: "go_error option"
  gw_start :: int

record RunBegun =
  rb_att :: Attachment
  rb_videos :: "FileInfo list"
  rb_selected :: "FileInfo list"
  rb_tracker :: BudgetTracker
  rb_layout :: Layout
  rb_torrentPath :: string
  rb_warnings :: "string list"

record RunStart =
  ru_events :: "Event list"
  ru_defers :: "deferred list"
  ru_system :: System
  ru_live :: LiveDirs
  ru_begun :: "RunBegun option"

definition run_failed :: "ErrorCode option \<Rightarrow> go_error \<Rightarrow> Event" where
  "run_failed code err = E_Failed (-1) (code_text code) err"

definition blind_attachment :: "Attachment \<Rightarrow> World \<Rightarrow> bool" where
  "blind_attachment a w = (case att_sess a of None \<Rightarrow> False | Some h \<Rightarrow> WentOnlineBlind w h)"

text \<open>What follows the attach, given the attachment.\<close>

definition run_attached ::
  "EngineWorld \<Rightarrow> EngineConfig \<Rightarrow> Attachment \<Rightarrow> deferred list \<Rightarrow> System \<Rightarrow> LiveDirs \<Rightarrow> RunStart" where
  "run_attached w cfg a defers sys live =
     (let torrent = att_torrent a;
          videos = SelectVideos (gw_Files w);
          choice = Select videos (ec_Files cfg);
          selected = (case choice of Inl e \<Rightarrow> [] | Inr fs \<Rightarrow> fs);
          told = [E_Metadata \<lparr>me_Name = gw_Name w, me_InfoHash = t_hash torrent, me_Private = Private torrent,
            me_Videos = videos, me_Files = Some (gw_Files w), me_Selected = indicesOf selected,
            me_BlindDHT = blind_attachment a (snd (sys_st sys))\<rparr>];
          over = (\<lambda>ev ds live. \<lparr>ru_events = told @ [ev], ru_defers = ds, ru_system = sys, ru_live = live, ru_begun = None\<rparr>)
      in if videos = [] then over (run_failed (Some CodeNoVideo) [Plain ''no video files'']) defers live
         else (case choice of
           Inl (ErrNoFileMatch spec) \<Rightarrow>
             over (run_failed (CodeOf (Some [SwarmNoFileMatch, Plain spec])) [SwarmNoFileMatch, Plain spec]) defers live
         | Inr selected \<Rightarrow>
             let tracker = newBudgetTracker (budgetFor cfg (int (length selected))) True (ec_Roof cfg) True (gw_start w);
                 defers = DeferCancel # defers;
                 l = \<lparr>ly_Root = ec_OutputRoot cfg, ly_InfoHash = t_hash torrent, ly_Params = ParamsKey (gw_digest w) cfg\<rparr>
             in (case NewWriter l (gw_mkdir w) of
               Some err \<Rightarrow> over (run_failed (Some CodeStorage) err) defers live
             | None \<Rightarrow>
                 let live = markLive (RunDir l) live; defers = DeferUnmark (RunDir l) # defers;
                     saved = saveTorrentFile l (gw_render w) (gw_place w);
                     torrentPath = (case saved of Inl e \<Rightarrow> [] | Inr path \<Rightarrow> path);
                     warnings = (case saved of Inl e \<Rightarrow> [e] | Inr path \<Rightarrow> [])
                 in (case gw_bridge w of
                   Some err \<Rightarrow> over (run_failed (Some CodeInternal) err) defers live
                 | None \<Rightarrow>
                     \<lparr>ru_events = told, ru_defers = DeferCloseBridge # defers, ru_system = sys, ru_live = live,
                       ru_begun = Some \<lparr>rb_att = a, rb_videos = videos, rb_selected = selected, rb_tracker = tracker,
                         rb_layout = l, rb_torrentPath = torrentPath, rb_warnings = warnings\<rparr>\<rparr>))))"

text \<open>\<open>own\<close>: the run brought the pool into being for itself.\<close>

definition run_begin ::
  "EngineWorld \<Rightarrow> bool \<Rightarrow> EngineConfig \<Rightarrow> Source \<Rightarrow> System \<Rightarrow> LiveDirs \<Rightarrow> RunStart" where
  "run_begin w own cfg src sys live =
     (let over = (\<lambda>evs ds sys. \<lparr>ru_events = evs, ru_defers = ds, ru_system = sys, ru_live = live, ru_begun = None\<rparr>) in
      case serveFromCache (gw_unicode w) (gw_digest w) (gw_disk w) cfg src (gw_replay_elapsed w) of
        Some evs \<Rightarrow> over evs [] sys
      | None \<Rightarrow>
          let defers = (if own then [DeferClosePool] else []) in
          if Reached (ec_Roof cfg) (Downloaded (sys_st sys))
          then over [run_failed (Some CodeTrafficRoof) [Plain ''roof'']] defers sys
          else
            let sys' = pool_step (gw_env w) sys (DoAttach src (gw_peers w)) in
            (case fst (Attach (gw_env w) src (gw_peers w) (sys_st sys)) of
               Inl e \<Rightarrow> over [run_failed (CodeOf (Some (swarm_cause e))) (swarm_cause e)] defers sys'
             | Inr a \<Rightarrow> run_attached w cfg a (DeferDetach (length (sys_atts sys)) # defers) sys' live))"

section \<open>The files, side by side\<close>

text \<open>Files are to be started, wait for their turn, or are worked on; one that is worked on has its result and the
events it has yet to publish. The context and the meters are as they read now.\<close>

record Work =
  wk_todo :: "FileInfo list"
  wk_waiting :: "FileInfo list"
  wk_busy :: "(FileInfo \<times> FileResult \<times> Event list) list"
  wk_made :: int
  wk_done :: int
  wk_stopped :: StopReason
  wk_finished :: "int list"
  wk_bus :: "Event list"
  wk_ctx :: ctx_state
  wk_reading :: Reading

definition work_begin :: "FileInfo list \<Rightarrow> Event list \<Rightarrow> ctx_state \<Rightarrow> Reading \<Rightarrow> Work" where
  "work_begin selected told ctx r =
     \<lparr>wk_todo = selected, wk_waiting = [], wk_busy = [], wk_made = 0, wk_done = 0, wk_stopped = StopCompleted,
       wk_finished = [], wk_bus = told, wk_ctx = ctx, wk_reading = r\<rparr>"

definition halt_now :: "BudgetTracker \<Rightarrow> Work \<Rightarrow> StopReason \<times> bool" where
  "halt_now tr k = haltReason (wk_ctx k) tr (wk_reading k)"

definition spawn :: "BudgetTracker \<Rightarrow> FileInfo \<Rightarrow> FileInfo list \<Rightarrow> Work \<Rightarrow> Work" where
  "spawn tr f fs k =
     (case halt_now tr k of (reason, halt) \<Rightarrow>
        if halt then k\<lparr>wk_stopped := reason, wk_todo := []\<rparr>
        else k\<lparr>wk_todo := fs, wk_waiting := wk_waiting k @ [f]\<rparr>)"

definition leave_work :: "BudgetTracker \<Rightarrow> FileInfo \<Rightarrow> FileResult \<Rightarrow> Work \<Rightarrow> Work" where
  "leave_work tr f res k =
     (let k = k\<lparr>wk_made := wk_made k + fo_produced res\<rparr> in
      case fo_err res of
        None \<Rightarrow> k\<lparr>wk_done := wk_done k + 1,
                  wk_finished := (if fo_complete res then wk_finished k @ [fi_Index f] else wk_finished k)\<rparr>
      | Some err \<Rightarrow>
          (case halt_now tr k of (reason, halt) \<Rightarrow>
             if halt then k\<lparr>wk_stopped := reason\<rparr>
             else k\<lparr>wk_bus := wk_bus k @ [E_Failed (fi_Index f) (code_text (CodeOf (Some err))) err]\<rparr>))"

text \<open>\<open>outcome f res evs\<close>: working on \<open>f\<close> may give \<open>res\<close> and publish \<open>evs\<close>.\<close>

inductive work_move ::
  "(FileInfo \<Rightarrow> FileResult \<Rightarrow> Event list \<Rightarrow> bool) \<Rightarrow> nat \<Rightarrow> BudgetTracker \<Rightarrow> Work \<Rightarrow> Work \<Rightarrow> bool"
  for outcome par tr where
  Spawn: "wk_todo k = f # fs \<Longrightarrow> work_move outcome par tr k (spawn tr f fs k)"
| Enter: "wk_waiting k = as @ f # bs \<Longrightarrow> length (wk_busy k) < par \<Longrightarrow> outcome f res evs \<Longrightarrow>
    work_move outcome par tr k (k\<lparr>wk_waiting := as @ bs, wk_busy := wk_busy k @ [(f, res, evs)]\<rparr>)"
| Emit: "wk_busy k = as @ (f, res, ev # evs) # bs \<Longrightarrow>
    work_move outcome par tr k (k\<lparr>wk_busy := as @ (f, res, evs) # bs, wk_bus := wk_bus k @ [ev]\<rparr>)"
| Leave: "wk_busy k = as @ (f, res, []) # bs \<Longrightarrow>
    work_move outcome par tr k (leave_work tr f res (k\<lparr>wk_busy := as @ bs\<rparr>))"

text \<open>Time passes: meters grow, and a context that is over stays so.\<close>

inductive time_passes :: "Work \<Rightarrow> Work \<Rightarrow> bool" where
  "meter_now (wk_reading k) \<le> meter_now r \<Longrightarrow> client_now (wk_reading k) \<le> client_now r \<Longrightarrow>
   clock_now (wk_reading k) \<le> clock_now r \<Longrightarrow> wk_ctx k = CtxLive \<or> ctx = wk_ctx k \<Longrightarrow>
   time_passes k (k\<lparr>wk_ctx := ctx, wk_reading := r\<rparr>)"

definition work_step ::
  "(FileInfo \<Rightarrow> FileResult \<Rightarrow> Event list \<Rightarrow> bool) \<Rightarrow> nat \<Rightarrow> BudgetTracker \<Rightarrow> Work \<Rightarrow> Work \<Rightarrow> bool" where
  "work_step outcome par tr k k' \<longleftrightarrow> work_move outcome par tr k k' \<or> time_passes k k'"

definition work_over :: "Work \<Rightarrow> bool" where
  "work_over k \<longleftrightarrow> wk_todo k = [] \<and> wk_waiting k = [] \<and> wk_busy k = []"

section \<open>What a run records\<close>

definition recordedSource :: "string \<Rightarrow> Source \<Rightarrow> string \<Rightarrow> string \<Rightarrow> string" where
  "recordedSource source src torrentPath magnet = (if torrentPath = [] \<or> IsMagnet src then source else magnet)"

definition mergeIndices :: "int list \<Rightarrow> int list \<Rightarrow> int list" where
  "mergeIndices existing next = sorted_list_of_set (set existing \<union> set next)"

definition cache_file :: "FileInfo \<Rightarrow> CacheFile" where
  "cache_file f = \<lparr>cf_Index = fi_Index f, cf_Path = fi_Path f, cf_Bytes = fi_Length f, cf_Offset = fi_Offset f\<rparr>"

definition recordFiles :: "FileInfo list \<Rightarrow> CacheFile list option" where
  "recordFiles fs = (if fs = [] then None else Some (map cache_file fs))"

definition claimedPairs :: "PieceRange list \<Rightarrow> (int \<times> int) list option" where
  "claimedPairs ranges = (if ranges = [] then None else Some (map (\<lambda>r. (Begin r, End r)) ranges))"

record EndWorld =
  xw_disk :: Disk
  xw_now :: int
  xw_Magnet :: string
  xw_torrent :: TorrentState
  xw_save :: "go_error option"
  xw_walk :: "string \<Rightarrow> visit list"
  xw_fails :: "string \<Rightarrow> bool"
  xw_slice :: "CacheSet list \<Rightarrow> CacheSet list"
  xw_live :: "string list"
  xw_reading :: Reading
  xw_elapsed :: int

definition saveRunRecord ::
  "EngineWorld \<Rightarrow> EndWorld \<Rightarrow> EngineConfig \<Rightarrow> RunBegun \<Rightarrow> int list \<Rightarrow> string \<Rightarrow> RunRecord" where
  "saveRunRecord w x cfg b finished source =
     (let l = rb_layout b; prior = LoadRun (xw_disk x) (ly_InfoHash l) (ly_Params l) in
      \<lparr>rr_Source = source, rr_InfoHash = t_hash (att_torrent (rb_att b)), rr_Name = gw_Name w,
       rr_Private = Private (att_torrent (rb_att b)),
       rr_Plan = \<lparr>pl_Count = pn_Count (ec_Plan cfg), pl_Start = pn_Start (ec_Plan cfg), pl_End = pn_End (ec_Plan cfg),
         pl_Profile = prof_Name (ec_Profile cfg), pl_Format = ec_Format cfg, pl_Sequential = ec_Sequential cfg\<rparr>,
       rr_Videos = map cache_file (rb_videos b), rr_Files = recordFiles (gw_Files w),
       rr_Selected = Some (mergeIndices (case prior of None \<Rightarrow> [] | Some r \<Rightarrow> (case rr_Selected r of None \<Rightarrow> [] | Some s \<Rightarrow> s))
         (indicesOf (rb_selected b))),
       rr_Complete = mergeIndices (case prior of None \<Rightarrow> [] | Some r \<Rightarrow> rr_Complete r) finished,
       rr_Claimed = claimedPairs (ClaimedRanges (xw_torrent x)), rr_CreatedAt = xw_now x\<rparr>)"

section \<open>Ending a run\<close>

record RunEnd =
  rx_events :: "Event list"
  rx_saved :: "RunRecord option"
  rx_evicted :: "EvictResult option"

definition run_end :: "EngineWorld \<Rightarrow> EndWorld \<Rightarrow> EngineConfig \<Rightarrow> Source \<Rightarrow> RunBegun \<Rightarrow> Work \<Rightarrow> RunEnd" where
  "run_end w x cfg src b k =
     (let stopped = (case halt_now (rb_tracker b) k of (reason, halt) \<Rightarrow> if halt then reason else wk_stopped k);
          record = saveRunRecord w x cfg b (wk_finished k)
            (recordedSource (ec_Source cfg) src (rb_torrentPath b) (xw_Magnet x));
          evicts = (xw_save x = None \<and> 0 < ec_CacheCeiling cfg);
          ev = Evict (xw_disk x) (xw_walk x) (xw_fails x) (xw_slice x) (ec_OutputRoot cfg) (ec_CacheCeiling cfg) (xw_live x);
          warnings = rb_warnings b @
            (if evicts then (case snd ev of None \<Rightarrow> [] | Some dir \<Rightarrow> [''cache eviction: evict '' @ dir]) else []);
          done = E_Done \<lparr>do_Reason = stopped, do_Files = wk_done k, do_Frames = wk_made k,
            do_DownloadedByte = fst (Spent (rb_tracker b) (xw_reading x)), do_Elapsed = xw_elapsed x,
            do_ClaimedByte = snd (Claimed (xw_torrent x)), do_ClaimedPieces = fst (Claimed (xw_torrent x)),
            do_ClaimedRanges = ClaimedRanges (xw_torrent x), do_TorrentPath = rb_torrentPath b, do_Warnings = warnings\<rparr>
      in \<lparr>rx_events = wk_bus k @ (case xw_save x of None \<Rightarrow> [] | Some err \<Rightarrow> [run_failed (Some CodeStorage) err]) @ [done],
          rx_saved = (if xw_save x = None then Some record else None),
          rx_evicted = (if evicts then Some (fst ev) else None)\<rparr>)"

section \<open>Listing a torrent\<close>

text \<open>\<^verbatim>\<open>internal/core/list.go\<close>: attach, read what the metadata says, and let go again. The meter of the torrent
is an argument.\<close>

record Contents =
  co_Name :: string
  co_InfoHash :: string
  co_Private :: bool
  co_Videos :: "FileInfo list"
  co_Files :: "FileInfo list"
  co_Downloaded :: int

definition Engine_List ::
  "(string \<Rightarrow> Magnet option) \<Rightarrow> (string \<Rightarrow> bool) \<Rightarrow> (string \<Rightarrow> MetaInfo option) \<Rightarrow> EngineWorld \<Rightarrow> int \<Rightarrow>
   bool \<Rightarrow> EngineConfig \<Rightarrow> System \<Rightarrow> LiveDirs \<Rightarrow> (go_error, Contents) result \<times> System \<times> LiveDirs" where
  "Engine_List parse_magnet readable load w downloaded own cfg sys live =
     (case ParseSource parse_magnet readable load (ec_Source cfg) of
        Inl e \<Rightarrow> (Inl (Fail CodeInternal [Plain ''source'']), sys, live)
      | Inr src \<Rightarrow>
          let defers = (if own then [DeferClosePool] else []);
              sys' = pool_step (gw_env w) sys (DoAttach src (gw_peers w))
          in (case fst (Attach (gw_env w) src (gw_peers w) (sys_st sys)) of
               Inl e \<Rightarrow> (Inl (case CodeOf (Some (swarm_cause e)) of None \<Rightarrow> swarm_cause e | Some c \<Rightarrow> Fail c (swarm_cause e)),
                         unwind (gw_env w) defers (sys', live))
             | Inr a \<Rightarrow>
                 (Inr \<lparr>co_Name = gw_Name w, co_InfoHash = t_hash (att_torrent a), co_Private = Private (att_torrent a),
                       co_Videos = SelectVideos (gw_Files w), co_Files = gw_Files w, co_Downloaded = downloaded\<rparr>,
                  unwind (gw_env w) (DeferDetach (length (sys_atts sys)) # defers) (sys', live))))"

end
