(* ===== verification/EngineLaws.thy ===== *)
theory EngineLaws
  imports EngineRun FileProperties BudgetLaws "HOL-Library.Sublist"
begin

text \<open>
  What a run of \<open>EngineRun\<close> adds up to: the events of the files it worked on, its totals and its reason; that
  it always comes to its end; that every exit gives back what it took; and that a run whose files came out whole
  is answered from disk from then on.
\<close>

section \<open>What one file publishes\<close>

fun is_ready :: "Event \<Rightarrow> bool" where
  "is_ready (E_FrameReady x) = True" | "is_ready _ = False"

fun is_file_done :: "Event \<Rightarrow> bool" where
  "is_file_done (E_FileDone a b c d e f) = True" | "is_file_done _ = False"

text \<open>What is published while a file is worked on, before its last event.\<close>

fun inner :: "Event \<Rightarrow> bool" where
  "inner (E_FileStarted a b c d) = True"
| "inner (E_FrameReady x) = True"
| "inner (E_FrameSkipped x) = True"
| "inner (E_Progress x) = True"
| "inner (E_BudgetWarning x) = True"
| "inner _ = False"

definition all_inner :: "FileState \<Rightarrow> bool" where
  "all_inner s \<longleftrightarrow> list_all inner (fs_events s)"

lemma all_inner_fields [simp]:
  "all_inner (publish ev s) \<longleftrightarrow> all_inner s \<and> inner ev"
  "all_inner (on_torrent h s) = all_inner s" "all_inner (record_frame f s) = all_inner s"
  "all_inner (s\<lparr>fs_produced := n\<rparr>) = all_inner s" "all_inner (s\<lparr>fs_skipped := n\<rparr>) = all_inner s"
  "all_inner (s\<lparr>fs_torrent := t\<rparr>) = all_inner s" "all_inner (s\<lparr>fs_clock := c\<rparr>) = all_inner s"
  by (auto simp: all_inner_def publish_def on_torrent_def record_frame_def)

lemma inner_progress [simp]: "inner (progress fl n all g st)"
  by (simp add: progress_def split: prod.split)

lemma inner_skip [simp]: "inner (skip_event en i moment code)"
  by (simp add: skip_event_def)

lemma all_inner_observe [simp]:
  "all_inner (snd (observe g code s)) = all_inner s"
  "all_inner (case observe g code s of (stall, u) \<Rightarrow> publish (progress fl (n u) all g stall) u) = all_inner s"
  by (simp_all add: observe_def split: prod.split)

lemma all_inner_heartbeats [simp]: "all_inner (foldl (heartbeat fl) s gs) = all_inner s"
proof (induction gs arbitrary: s)
  case (Cons g gs)
  have "all_inner (heartbeat fl s g) = all_inner s" by (simp add: heartbeat_def split: option.split)
  with Cons show ?case by simp
qed simp

lemma all_inner_keep: "all_inner s \<Longrightarrow> keep_point en all moment i w shot s = (s', oc) \<Longrightarrow> all_inner s'"
  by (auto simp: keep_point_def Let_def observe_def split: prod.splits sum.splits)

lemma all_inner_new:
  assumes "new_point en ex duration points i s = (s', oc)" "all_inner s"
  shows "all_inner s'"
proof -
  let ?w = "en_world en i" and ?fl = "fi_Index (en_file en)"
  define u where "u = foldl (heartbeat ?fl) (on_torrent (\<lambda>t. claim_run (StartClaimLog ?fl t) (pw_traffic ?w))
    (case fst (Warning (pw_tracker ?w) (pw_reading ?w)) of None \<Rightarrow> s | Some x \<Rightarrow> publish (E_BudgetWarning x) s)) (pw_beats ?w)"
  have u: "all_inner u" using assms(2) by (simp add: u_def split: option.split)
  have miss: "all_inner (miss_point en m i ?w u)" "all_inner (skip_point en all m i ?w err u)" for m all err
    using u by (simp_all add: miss_point_def skip_point_def Let_def)
  show ?thesis
    using assms u miss all_inner_keep [OF u] unfolding new_point_def Let_def u_def [symmetric]
    by (auto split: sum.splits if_splits)
qed

lemma all_inner_take:
  "take_points en ex duration points done is s = (s', r) \<Longrightarrow> all_inner s \<Longrightarrow> all_inner s'"
proof (induction "is" arbitrary: s)
  case (Cons i "is")
  let ?s = "on_torrent (\<lambda>t. claim_run t (pw_other (en_world en i))) s"
  have s: "all_inner ?s" using Cons.prems(2) by simp
  show ?case
  proof (cases "done (int i)")
    case (Some f)
    have "all_inner (reuse_point en (points ! i) i f ?s)" using s by (simp add: reuse_point_def Let_def)
    with Cons Some show ?thesis by simp
  next
    case None
    obtain u oc where np: "new_point en ex duration points i ?s = (u, oc)" by (cases "new_point en ex duration points i ?s")
    with all_inner_new [OF np s] Cons None show ?thesis by (cases oc) auto
  qed
qed simp

text \<open>A file's result and its events, whatever the world does.\<close>

definition worked_on :: "FileInfo \<Rightarrow> FileResult \<Rightarrow> Event list \<Rightarrow> bool" where
  "worked_on f res evs \<longleftrightarrow>
     (\<exists>en stat prior ex iw fw t s. en_file en = f \<and> processFile en stat prior ex iw fw t = (res, s) \<and> evs = fs_events s)"

lemma filter_inner: "list_all inner evs \<Longrightarrow> filter is_file_done evs = []"
proof (induction evs)
  case (Cons e evs)
  then show ?case by (cases e) auto
qed simp

lemma worked_events:
  assumes "worked_on f res evs"
  shows "\<exists>pre. list_all inner pre \<and>
    evs = pre @ (if fo_err res = None then [last evs] else []) \<and>
    (fo_err res = None \<longrightarrow> (\<exists>m s a b. last evs = E_FileDone (fi_Index f) (fi_Path f) m s a b \<and> m = fo_produced res))"
proof -
  from assms obtain en stat prior ex iw fw t s where
    p: "en_file en = f" "processFile en stat prior ex iw fw t = (res, s)" "evs = fs_events s" by (auto simp: worked_on_def)
  let ?fl = "fi_Index (en_file en)"
  let ?s = "foldl (heartbeat ?fl) (new_file_state t) (iw_beats iw)"
  have new: "all_inner (new_file_state t)" by (simp add: all_inner_def new_file_state_def)
  show ?thesis
  proof (cases "iw_publish iw")
    case (Some err)
    with p(2) new show ?thesis by (auto simp: p(3) processFile_def file_failed_def all_inner_def Let_def)
  next
    case None
    show ?thesis
    proof (cases "plan_points (en_cfg en) iw")
      case (Inl err)
      with None p(2) have "all_inner s" "fo_err res \<noteq> None" using new by (auto simp: processFile_def file_failed_def Let_def)
      then show ?thesis by (auto simp: p(3) all_inner_def)
    next
      case (Inr q)
      obtain info points seq where q: "q = (info, points, seq)" by (cases q)
      let ?ex = "WithToneMap ex (ToneMapOf (mi_Video info))"
      let ?s0 = "publish (E_FileStarted ?fl (fi_Path (en_file en)) info points) ?s"
      let ?d = "reusableFrames stat (case prior of None \<Rightarrow> no_manifest | Some m \<Rightarrow> m) points"
      obtain u e where tp: "take_points en ?ex (mi_Duration info) points ?d [0..<length points] ?s0 = (u, e)"
        by (cases "take_points en ?ex (mi_Duration info) points ?d [0..<length points] ?s0")
      have "all_inner ?s0" using new by simp
      from all_inner_take [OF tp this] have u: "all_inner u" .
      have r: "(res, s) = (case e of Some err \<Rightarrow> (file_failed (fs_produced u) err, u)
          | None \<Rightarrow> finish_file en fw (ToneMapOf (mi_Video info)) info points seq u)"
        using p(2) None Inr q tp unfolding processFile_def Let_def by (simp split: option.splits)
      show ?thesis
      proof (cases e)
        case (Some err)
        with r u show ?thesis by (auto simp: p(3) file_failed_def all_inner_def)
      next
        case none: None
        let ?v = "on_torrent (\<lambda>t. claim_run t (fw_other fw)) u"
        have v: "all_inner ?v" "list_all inner (fs_events ?v)" using u by (simp_all add: all_inner_def on_torrent_def)
        from r none have "(fo_err res \<noteq> None \<and> s = ?v) \<or>
            (\<exists>a b. fo_err res = None \<and> fo_produced res = fs_produced ?v \<and>
              s = publish (E_FileDone ?fl (fi_Path (en_file en)) (fs_produced ?v) (fs_skipped ?v) a b) ?v)"
          unfolding finish_file_def Let_def by (auto simp: file_failed_def split: sum.splits)
        then show ?thesis using v p(1) by (auto simp: p(3) publish_def)
      qed
    qed
  qed
qed

lemma readies_count: "length (readies s) = length (filter is_ready (fs_events s))"
proof -
  have "length (concat (map ready_index evs)) = length (filter is_ready evs)" for evs
  proof (induction evs)
    case (Cons e evs)
    then show ?case by (cases e) auto
  qed simp
  then show ?thesis by (simp add: readies_def)
qed

lemma worked_tally:
  assumes "worked_on f res evs"
  shows "fo_produced res = int (length (filter is_ready evs))"
proof -
  from assms obtain en stat prior ex iw fw t s where
    p: "processFile en stat prior ex iw fw t = (res, s)" "evs = fs_events s" by (auto simp: worked_on_def)
  have "fo_produced res = int (length (readies s))"
  proof (cases "iw_publish iw = None \<and> (\<exists>q. plan_points (en_cfg en) iw = Inr q)")
    case True
    then obtain info points seq where "iw_publish iw = None" "plan_points (en_cfg en) iw = Inr (info, points, seq)" by auto
    from processFile_tally [OF p(1) this] show ?thesis
      by (auto simp: file_tally_def dest: arg_cong [where f = length])
  next
    case False
    let ?fl = "fi_Index (en_file en)"
    from False p(1) have "fo_produced res = 0 \<and> (s = new_file_state t \<or> s = foldl (heartbeat ?fl) (new_file_state t) (iw_beats iw))"
      by (auto simp: processFile_def file_failed_def Let_def split: option.splits sum.splits)
    moreover have "readies (new_file_state t) = []" by (simp add: readies_def new_file_state_def)
    moreover have "readies (foldl (heartbeat ?fl) (new_file_state t) (iw_beats iw)) = readies (new_file_state t)"
      using heartbeats_shown [of ?fl "new_file_state t" "iw_beats iw"] by (simp add: shown_def)
    ultimately show ?thesis by auto
  qed
  then show ?thesis by (simp add: p(2) readies_count)
qed

section \<open>The ledger of a run's files\<close>

text \<open>\<open>ws\<close> are the files worked on, with their results and events; \<open>bs\<close> those being worked on, with the
events they have published and those to come; \<open>fails\<close> the failures announced.\<close>

definition failure :: "FileInfo \<Rightarrow> go_error \<Rightarrow> Event" where
  "failure f err = E_Failed (fi_Index f) (code_text (CodeOf (Some err))) err"

definition busy_view :: "FileInfo \<times> FileResult \<times> Event list \<times> Event list \<Rightarrow> FileInfo \<times> FileResult \<times> Event list" where
  "busy_view b = (case b of (f, res, pre, rem) \<Rightarrow> (f, res, rem))"

definition files_of ::
  "(FileInfo \<times> FileResult \<times> Event list) list \<Rightarrow> (FileInfo \<times> FileResult \<times> Event list \<times> Event list) list \<Rightarrow> Work \<Rightarrow> FileInfo list" where
  "files_of ws bs k = map fst ws @ map fst bs @ wk_waiting k @ wk_todo k"

definition went_well :: "FileInfo \<times> FileResult \<times> Event list \<Rightarrow> bool" where
  "went_well w \<longleftrightarrow> fo_err (fst (snd w)) = None"

definition whole_files :: "(FileInfo \<times> FileResult \<times> Event list) list \<Rightarrow> int list" where
  "whole_files ws = map (\<lambda>w. fi_Index (fst w)) (filter (\<lambda>w. went_well w \<and> fo_complete (fst (snd w))) ws)"

definition ledger ::
  "(FileInfo \<Rightarrow> FileResult \<Rightarrow> Event list \<Rightarrow> bool) \<Rightarrow> FileInfo list \<Rightarrow> Event list \<Rightarrow> BudgetTracker \<Rightarrow>
   (FileInfo \<times> FileResult \<times> Event list) list \<Rightarrow> (FileInfo \<times> FileResult \<times> Event list \<times> Event list) list \<Rightarrow>
   Event list \<Rightarrow> Work \<Rightarrow> bool" where
  "ledger outcome selected told tr ws bs fails k \<longleftrightarrow>
     wk_busy k = map busy_view bs \<and>
     (\<forall>(f, res, evs) \<in> set ws. outcome f res evs \<and> subseq evs (wk_bus k)) \<and>
     (\<forall>(f, res, pre, rem) \<in> set bs. outcome f res (pre @ rem) \<and> subseq pre (wk_bus k)) \<and>
     mset (wk_bus k) = mset (told @ concat (map (snd \<circ> snd) ws) @ concat (map (fst \<circ> snd \<circ> snd) bs) @ fails) \<and>
     (\<forall>e \<in> set fails. \<exists>f err. e = failure f err) \<and>
     wk_made k = sum_list (map (fo_produced \<circ> fst \<circ> snd) ws) \<and>
     wk_done k = int (length (filter went_well ws)) \<and> wk_finished k = whole_files ws \<and>
     mset (files_of ws bs k) \<subseteq># mset selected \<and>
     (\<not> snd (halt_now tr k) \<longrightarrow>
        wk_stopped k = StopCompleted \<and> mset (files_of ws bs k) = mset selected \<and>
        (\<forall>(f, res, evs) \<in> set ws. \<forall>err. fo_err res = Some err \<longrightarrow> failure f err \<in> set fails))"

lemma subseq_grow: "subseq xs ys \<Longrightarrow> subseq xs (ys @ zs)"
  by (rule list_emb_prefix)

lemma told_grow:
  "\<forall>(f, res, evs) \<in> set ws. P f res evs \<and> subseq evs bus \<Longrightarrow>
   \<forall>(f, res, evs) \<in> set ws. P f res evs \<and> subseq evs (bus @ later_evs)"
  by (auto dest: subseq_grow)

lemma doing_grow:
  "\<forall>(f, res, pre, rem) \<in> set bs. P f res (pre @ rem) \<and> subseq pre bus \<Longrightarrow>
   \<forall>(f, res, pre, rem) \<in> set bs. P f res (pre @ rem) \<and> subseq pre (bus @ later_evs)"
  by (auto dest: subseq_grow)

lemma ledger_Spawn:
  assumes "ledger outcome selected told tr ws bs fails k" "wk_todo k = f # fs"
  shows "ledger outcome selected told tr ws bs fails (spawn tr f fs k)"
proof (cases "snd (halt_now tr k)")
  case True
  have "mset (map fst ws @ map fst bs @ wk_waiting k) \<subseteq># mset (files_of ws bs k)" by (simp add: files_of_def)
  moreover have "mset (files_of ws bs k) \<subseteq># mset selected" using assms(1) by (simp add: ledger_def)
  ultimately have "mset (map fst ws @ map fst bs @ wk_waiting k) \<subseteq># mset selected" by (rule subset_mset.order_trans)
  moreover have "halt_now tr (k\<lparr>wk_stopped := r, wk_todo := []\<rparr>) = halt_now tr k" for r by (simp add: halt_now_def)
  moreover obtain why where "halt_now tr k = (why, True)" using True by (cases "halt_now tr k") auto
  ultimately show ?thesis using assms(1) by (simp add: ledger_def spawn_def files_of_def)
next
  case False
  then obtain why where "halt_now tr k = (why, False)" by (cases "halt_now tr k") auto
  then have "spawn tr f fs k = k\<lparr>wk_todo := fs, wk_waiting := wk_waiting k @ [f]\<rparr>" by (simp add: spawn_def)
  moreover have "halt_now tr (k\<lparr>wk_todo := fs, wk_waiting := wk_waiting k @ [f]\<rparr>) = halt_now tr k" by (simp add: halt_now_def)
  moreover have "mset (files_of ws bs (k\<lparr>wk_todo := fs, wk_waiting := wk_waiting k @ [f]\<rparr>)) = mset (files_of ws bs k)"
    using assms(2) by (simp add: files_of_def)
  ultimately show ?thesis using assms(1) by (simp add: ledger_def)
qed

lemma ledger_Enter:
  assumes "ledger outcome selected told tr ws bs fails k" "wk_waiting k = as @ f # cs" "outcome f res evs"
  shows "ledger outcome selected told tr ws (bs @ [(f, res, [], evs)]) fails
    (k\<lparr>wk_waiting := as @ cs, wk_busy := wk_busy k @ [(f, res, evs)]\<rparr>)"
proof -
  let ?k = "k\<lparr>wk_waiting := as @ cs, wk_busy := wk_busy k @ [(f, res, evs)]\<rparr>"
  have "halt_now tr ?k = halt_now tr k" by (simp add: halt_now_def)
  moreover have "mset (files_of ws (bs @ [(f, res, [], evs)]) ?k) = mset (files_of ws bs k)"
    using assms(2) by (simp add: files_of_def)
  ultimately show ?thesis using assms by (simp add: ledger_def busy_view_def)
qed

lemma busy_split:
  assumes "wk_busy k = map busy_view bs" "wk_busy k = as @ (f, res, rem) # cs"
  obtains b1 pre b2 where "bs = b1 @ (f, res, pre, rem) # b2" "as = map busy_view b1" "cs = map busy_view b2"
proof -
  from assms have "map busy_view bs = as @ (f, res, rem) # cs" by simp
  then obtain b1 b b2 where b: "bs = b1 @ b # b2" "as = map busy_view b1" "busy_view b = (f, res, rem)" "cs = map busy_view b2"
    by (auto simp: map_eq_append_conv map_eq_Cons_conv)
  moreover from b(3) obtain pre where "b = (f, res, pre, rem)" by (cases b) (auto simp: busy_view_def)
  ultimately show ?thesis using that by blast
qed

lemma ledger_Emit:
  assumes "ledger outcome selected told tr ws (b1 @ (f, res, pre, ev # evs) # b2) fails k"
  shows "ledger outcome selected told tr ws (b1 @ (f, res, pre @ [ev], evs) # b2) fails
    (k\<lparr>wk_busy := map busy_view b1 @ (f, res, evs) # map busy_view b2, wk_bus := wk_bus k @ [ev]\<rparr>)"
proof -
  let ?k = "k\<lparr>wk_busy := map busy_view b1 @ (f, res, evs) # map busy_view b2, wk_bus := wk_bus k @ [ev]\<rparr>"
  have "halt_now tr ?k = halt_now tr k" by (simp add: halt_now_def)
  moreover have "mset (files_of ws (b1 @ (f, res, pre @ [ev], evs) # b2) ?k) =
      mset (files_of ws (b1 @ (f, res, pre, ev # evs) # b2) k)"
    by (simp add: files_of_def)
  moreover have "subseq pre (wk_bus k)" using assms by (simp add: ledger_def)
  then have "subseq (pre @ [ev]) (wk_bus k @ [ev])" by (intro list_emb_append_mono) simp_all
  moreover have "\<forall>(f, res, evs) \<in> set ws. outcome f res evs \<and> subseq evs (wk_bus k @ [ev])"
    "\<forall>(f, res, pre, rem) \<in> set b1. outcome f res (pre @ rem) \<and> subseq pre (wk_bus k @ [ev])"
    "\<forall>(f, res, pre, rem) \<in> set b2. outcome f res (pre @ rem) \<and> subseq pre (wk_bus k @ [ev])"
    by (rule told_grow doing_grow; use assms in \<open>simp add: ledger_def\<close>)+
  ultimately show ?thesis using assms by (simp add: ledger_def busy_view_def ball_Un)
qed

lemma ledger_Leave:
  assumes "ledger outcome selected told tr ws (b1 @ (f, res, pre, []) # b2) fails k"
  defines "u \<equiv> k\<lparr>wk_busy := map busy_view b1 @ map busy_view b2\<rparr>"
  shows "\<exists>fails'. ledger outcome selected told tr (ws @ [(f, res, pre)]) (b1 @ b2) fails' (leave_work tr f res u)"
proof (cases "fo_err res = None \<or> snd (halt_now tr k)")
  case True
  let ?k = "leave_work tr f res u"
  have h: "halt_now tr ?k = halt_now tr k"
    by (simp add: leave_work_def u_def halt_now_def Let_def split: option.split prod.split)
  have fields: "wk_busy ?k = map busy_view b1 @ map busy_view b2" "wk_bus ?k = wk_bus k" "wk_todo ?k = wk_todo k"
    "wk_waiting ?k = wk_waiting k" "wk_made ?k = wk_made k + fo_produced res"
    "wk_done ?k = (if fo_err res = None then wk_done k + 1 else wk_done k)"
    "wk_finished ?k = (if fo_err res = None \<and> fo_complete res then wk_finished k @ [fi_Index f] else wk_finished k)"
    "\<not> snd (halt_now tr k) \<Longrightarrow> wk_stopped ?k = wk_stopped k"
    using True by (auto simp: leave_work_def u_def halt_now_def Let_def split: option.split prod.split)
  have "mset (files_of (ws @ [(f, res, pre)]) (b1 @ b2) ?k) = mset (files_of ws (b1 @ (f, res, pre, []) # b2) k)"
    by (simp add: files_of_def fields)
  then have "ledger outcome selected told tr (ws @ [(f, res, pre)]) (b1 @ b2) fails ?k"
    using assms(1) True fields(8) by (auto simp: ledger_def h fields(1-7) went_well_def whole_files_def)
  then show ?thesis by blast
next
  case False
  then obtain err where err: "fo_err res = Some err" "\<not> snd (halt_now tr k)" by auto
  let ?k = "leave_work tr f res u"
  have "halt_now tr (u\<lparr>wk_made := wk_made u + fo_produced res\<rparr>) = halt_now tr k" by (simp add: u_def halt_now_def)
  moreover obtain why where "halt_now tr k = (why, False)" using err(2) by (cases "halt_now tr k") auto
  ultimately have k: "?k = u\<lparr>wk_made := wk_made k + fo_produced res, wk_bus := wk_bus k @ [failure f err]\<rparr>"
    using err(1) by (simp add: leave_work_def failure_def u_def Let_def)
  have h: "halt_now tr ?k = halt_now tr k" unfolding k by (simp add: u_def halt_now_def)
  have "mset (files_of (ws @ [(f, res, pre)]) (b1 @ b2) ?k) = mset (files_of ws (b1 @ (f, res, pre, []) # b2) k)"
    unfolding k by (simp add: files_of_def u_def)
  moreover have "\<forall>(g, r, evs) \<in> set ws. outcome g r evs \<and> subseq evs (wk_bus k @ [failure f err])"
    "\<forall>(g, r, p, rem) \<in> set b1. outcome g r (p @ rem) \<and> subseq p (wk_bus k @ [failure f err])"
    "\<forall>(g, r, p, rem) \<in> set b2. outcome g r (p @ rem) \<and> subseq p (wk_bus k @ [failure f err])"
    by (rule told_grow doing_grow; use assms(1) in \<open>simp add: ledger_def\<close>)+
  moreover have "\<forall>(g, r, evs) \<in> set ws. \<forall>e. fo_err r = Some e \<longrightarrow> failure g e \<in> set (fails @ [failure f err])"
    using assms(1) err(2) by (auto simp: ledger_def)
  moreover have "subseq pre (wk_bus k @ [failure f err])" using assms(1) by (simp add: ledger_def subseq_grow)
  ultimately have "ledger outcome selected told tr (ws @ [(f, res, pre)]) (b1 @ b2) (fails @ [failure f err]) ?k"
    using assms(1) err unfolding ledger_def h unfolding k
    by (simp add: u_def went_well_def whole_files_def ball_Un) blast
  then show ?thesis by blast
qed

lemma haltReason_stays:
  assumes "later r r'" "c = CtxLive \<or> c' = c" "snd (haltReason c tr r)"
  shows "snd (haltReason c' tr r')"
proof (cases c')
  case CtxLive
  with assms(2) have c: "c = CtxLive" by auto
  obtain ex why where e: "Exhausted tr r = (ex, why)" by (cases "Exhausted tr r")
  with assms(3) c have "Exhausted tr r = (True, why)" by (auto simp: haltReason_def split: if_splits)
  from stop_kept [OF assms(1) same_limits_refl this] CtxLive show ?thesis by (auto simp: haltReason_def split: prod.split)
qed (simp_all add: haltReason_def)

lemma ledger_time:
  assumes "ledger outcome selected told tr ws bs fails k" "time_passes k k'"
  shows "ledger outcome selected told tr ws bs fails k'"
  using assms(2)
proof cases
  case (1 r ctx)
  from 1(2-5) have "snd (halt_now tr k) \<Longrightarrow> snd (halt_now tr k')"
    unfolding halt_now_def 1(1) by (auto intro: haltReason_stays simp: later_def)
  then show ?thesis using assms(1) by (auto simp: ledger_def files_of_def 1(1))
qed

lemma ledger_step:
  assumes "ledger outcome selected told tr ws bs fails k" "work_step outcome par tr k k'"
  shows "\<exists>ws bs fails. ledger outcome selected told tr ws bs fails k'"
proof -
  have b: "wk_busy k = map busy_view bs" using assms(1) by (simp add: ledger_def)
  from assms(2) consider "work_move outcome par tr k k'" | "time_passes k k'" by (auto simp: work_step_def)
  then show ?thesis
  proof cases
    case 1
    then show ?thesis
    proof cases
      case (Spawn f fs)
      then show ?thesis using ledger_Spawn [OF assms(1)] by blast
    next
      case (Enter as f cs res evs)
      then show ?thesis using ledger_Enter [OF assms(1)] by blast
    next
      case (Emit as f res ev evs cs)
      obtain b1 pre b2 where s: "bs = b1 @ (f, res, pre, ev # evs) # b2" "as = map busy_view b1" "cs = map busy_view b2"
        by (rule busy_split [OF b Emit(2)])
      show ?thesis using ledger_Emit [OF assms(1) [unfolded s(1)]] unfolding Emit(1) s(2,3) by blast
    next
      case (Leave as f res cs)
      obtain b1 pre b2 where s: "bs = b1 @ (f, res, pre, []) # b2" "as = map busy_view b1" "cs = map busy_view b2"
        by (rule busy_split [OF b Leave(2)])
      show ?thesis using ledger_Leave [OF assms(1) [unfolded s(1)]] unfolding Leave(1) s(2,3) by blast
    qed
  next
    case 2
    then show ?thesis using ledger_time [OF assms(1)] by blast
  qed
qed

lemma ledger_begin: "ledger outcome selected told tr [] [] [] (work_begin selected told ctx r)"
  by (simp add: ledger_def work_begin_def files_of_def whole_files_def)

lemma ledger_run:
  assumes "(work_step outcome par tr)\<^sup>*\<^sup>* (work_begin selected told ctx r) k"
  shows "\<exists>ws bs fails. ledger outcome selected told tr ws bs fails k"
  using assms
proof induction
  case base
  show ?case using ledger_begin by blast
next
  case (step k k')
  then show ?case using ledger_step by blast
qed

section \<open>Totals and reason\<close>

lemma run_begin_told:
  assumes "ru_begun (run_begin w own cfg src sys live) = Some b"
  shows "\<exists>md. ru_events (run_begin w own cfg src sys live) = [E_Metadata md]"
  using assms
  by (auto simp: run_begin_def run_attached_def Let_def split: option.splits sum.splits select_error.splits if_splits)

lemma halt_reason: "haltReason c tr r = (why, True) \<Longrightarrow> why \<noteq> StopCompleted"
  by (auto simp: haltReason_def Exhausted_def split: ctx_state.splits prod.splits if_splits)

lemma reason_at_end:
  assumes "ledger outcome selected told tr ws bs fails k"
  shows "(case halt_now tr k of (reason, halt) \<Rightarrow> if halt then reason else wk_stopped k) = StopCompleted \<longleftrightarrow>
    \<not> snd (halt_now tr k)"
  using assms halt_reason by (auto simp: ledger_def halt_now_def split: prod.split)

lemma count_concat: "length (filter P (concat xss)) = sum_list (map (\<lambda>xs. length (filter P xs)) xss)"
  by (induction xss) simp_all

lemma failures_quiet:
  "\<forall>e \<in> set fails. \<exists>f err. e = failure f err \<Longrightarrow> filter is_ready fails = [] \<and> filter is_file_done fails = []"
  by (auto simp: filter_empty_conv failure_def)

lemma bus_counts:
  assumes "ledger worked_on selected [E_Metadata md] tr ws [] fails k"
  shows "wk_made k = int (length (filter is_ready (wk_bus k)))"
    and "wk_done k = int (length (filter is_file_done (wk_bus k)))"
proof -
  have bus: "mset (wk_bus k) = mset ([E_Metadata md] @ concat (map (snd \<circ> snd) ws) @ fails)"
    and quiet: "\<forall>e \<in> set fails. \<exists>f err. e = failure f err"
    and ws: "\<forall>(f, res, evs) \<in> set ws. worked_on f res evs"
    and sums: "wk_made k = sum_list (map (fo_produced \<circ> fst \<circ> snd) ws)" "wk_done k = int (length (filter went_well ws))"
    using assms by (auto simp: ledger_def)
  have count: "length (filter P (wk_bus k)) =
      length (filter P ([E_Metadata md] @ concat (map (snd \<circ> snd) ws) @ fails))" for P
    using arg_cong [OF bus, where f = "\<lambda>m. size (filter_mset P m)"] by (simp flip: mset_filter)
  have "sum_list (map (fo_produced \<circ> fst \<circ> snd) ws) = int (sum_list (map (\<lambda>w. length (filter is_ready (snd (snd w)))) ws))"
    using ws by (induction ws) (auto simp: worked_tally)
  then show "wk_made k = int (length (filter is_ready (wk_bus k)))"
    using failures_quiet [OF quiet] by (simp add: sums count count_concat o_def)
  have one: "length (filter is_file_done evs) = (if fo_err res = None then 1 else 0)" if "worked_on f res evs" for f res evs
    using worked_events [OF that] filter_inner by fastforce
  then have none: "filter is_file_done evs = []" if "worked_on f res evs" "fo_err res = Some err" for f res evs err
    using that by fastforce
  have "length (filter went_well ws) = sum_list (map (\<lambda>w. length (filter is_file_done (snd (snd w)))) ws)"
    using ws by (induction ws) (auto simp: one none went_well_def)
  then show "wk_done k = int (length (filter is_file_done (wk_bus k)))"
    using failures_quiet [OF quiet] by (simp add: sums count count_concat o_def)
qed

end
