(* ===== verification/EngineProperties.thy ===== *)
theory EngineProperties
  imports EngineLaws PoolProperties OutputLaws
begin

text \<open>
  A run comes to its end, gives back what it took at every exit, and is answered from disk once its files
  came out whole; with concrete runs for the laws of \<open>EngineLaws\<close>.
\<close>

section \<open>Totals and reason of a run\<close>

text \<open>C9: A run's last event tells the truth about it. However its files interleave, each is worked on at most once, and
what it publishes appears in its own order; the frames and files of the final event are exactly the frames and
finished files that were announced, and the record names as complete exactly those that came out whole. The
run says it completed exactly when nothing had it stop at its end; then every selected file was worked on, and
each was announced as done or as failed.\<close>

theorem run_accounts:
  assumes "ru_begun (run_begin w own cfg src sys live) = Some b"
    and "(work_step worked_on par (rb_tracker b))\<^sup>*\<^sup>*
      (work_begin (rb_selected b) (ru_events (run_begin w own cfg src sys live)) ctx r) k" "work_over k"
  shows "\<exists>ws d. last (rx_events (run_end w x cfg src b k)) = E_Done d \<and>
    mset (map fst ws) \<subseteq># mset (rb_selected b) \<and>
    (\<forall>(f, res, evs) \<in> set ws. worked_on f res evs \<and> subseq evs (rx_events (run_end w x cfg src b k))) \<and>
    do_Frames d = int (length (filter is_ready (rx_events (run_end w x cfg src b k)))) \<and>
    do_Files d = int (length (filter is_file_done (rx_events (run_end w x cfg src b k)))) \<and>
    wk_finished k = whole_files ws \<and>
    (do_Reason d = StopCompleted \<longleftrightarrow> \<not> snd (halt_now (rb_tracker b) k)) \<and>
    (do_Reason d = StopCompleted \<longrightarrow> mset (map fst ws) = mset (rb_selected b) \<and>
      (\<forall>(f, res, evs) \<in> set ws. case fo_err res of
          None \<Rightarrow> \<exists>s a c. E_FileDone (fi_Index f) (fi_Path f) (fo_produced res) s a c \<in> set (rx_events (run_end w x cfg src b k))
        | Some err \<Rightarrow> failure f err \<in> set (rx_events (run_end w x cfg src b k))))"
proof -
  let ?e = "run_end w x cfg src b k" and ?told = "ru_events (run_begin w own cfg src sys live)"
  obtain md where md: "?told = [E_Metadata md]" using run_begin_told [OF assms(1)] by blast
  from ledger_run [OF assms(2)] obtain ws bs fails where l: "ledger worked_on (rb_selected b) ?told (rb_tracker b) ws bs fails k" by blast
  with assms(3) have bs: "bs = []" by (simp add: ledger_def work_over_def)
  note l = l [unfolded md bs]
  define d where "d = (case last (rx_events ?e) of E_Done d \<Rightarrow> d)"
  have e: "rx_events ?e = wk_bus k @ (case xw_save x of None \<Rightarrow> [] | Some err \<Rightarrow> [run_failed (Some CodeStorage) err]) @ [E_Done d]"
    and d: "do_Files d = wk_done k" "do_Frames d = wk_made k"
      "do_Reason d = (case halt_now (rb_tracker b) k of (reason, halt) \<Rightarrow> if halt then reason else wk_stopped k)"
    by (simp_all add: d_def run_end_def Let_def)
  have counts: "filter is_ready (rx_events ?e) = filter is_ready (wk_bus k)"
    "filter is_file_done (rx_events ?e) = filter is_file_done (wk_bus k)"
    by (simp_all add: e run_failed_def split: option.split)
  have reason: "do_Reason d = StopCompleted \<longleftrightarrow> \<not> snd (halt_now (rb_tracker b) k)"
    unfolding d(3) by (rule reason_at_end [OF l])
  have ws: "\<forall>(f, res, evs) \<in> set ws. worked_on f res evs \<and> subseq evs (wk_bus k)" using l by (simp add: ledger_def)
  then have sub: "\<forall>(f, res, evs) \<in> set ws. worked_on f res evs \<and> subseq evs (rx_events ?e)"
    unfolding e by (rule told_grow)
  have files: "mset (map fst ws) \<subseteq># mset (rb_selected b)" "wk_finished k = whole_files ws"
    using l assms(3) by (simp_all add: ledger_def files_of_def work_over_def)
  have all: "mset (map fst ws) = mset (rb_selected b)" "\<forall>(f, res, evs) \<in> set ws. \<forall>err. fo_err res = Some err \<longrightarrow> failure f err \<in> set fails"
    if "do_Reason d = StopCompleted"
    using l assms(3) that reason by (simp_all add: ledger_def files_of_def work_over_def)
  have "set fails \<subseteq> set (wk_bus k)" using l by (metis (no_types, lifting) ledger_def mset_eq_setD set_append Un_upper2 subset_trans)
  then have fails: "set fails \<subseteq> set (rx_events ?e)" by (auto simp: e)
  have announced: "case fo_err res of
      None \<Rightarrow> \<exists>s a c. E_FileDone (fi_Index f) (fi_Path f) (fo_produced res) s a c \<in> set (rx_events ?e)
    | Some err \<Rightarrow> failure f err \<in> set (rx_events ?e)"
    if "do_Reason d = StopCompleted" "(f, res, evs) \<in> set ws" for f res evs
  proof (cases "fo_err res")
    case None
    from sub that(2) have w: "worked_on f res evs" "subseq evs (rx_events ?e)" by auto
    from worked_events [OF w(1)] None obtain s a c where
      "last evs = E_FileDone (fi_Index f) (fi_Path f) (fo_produced res) s a c" "last evs \<in> set evs" by (metis last_in_set snoc_eq_iff_butlast)
    moreover have "set evs \<subseteq> set (rx_events ?e)" using w(2) by (auto dest: list_emb_set)
    ultimately show ?thesis using None by auto
  next
    case (Some err)
    with all(2) [OF that(1)] that(2) fails show ?thesis by fastforce
  qed
  show ?thesis
    using files sub counts d(1,2) reason all(1) announced bus_counts [OF l]
    by (intro exI [of _ ws] exI [of _ d]) (auto simp: e)
qed

section \<open>A run comes to its end\<close>

lemma worked_on_something: "\<exists>res evs. worked_on f res evs"
proof -
  define en :: FileEnv where "en = (undefined :: FileEnv)\<lparr>en_file := f\<rparr>"
  obtain res s where "processFile en undefined undefined undefined undefined undefined undefined = (res, s)"
    by (meson surj_pair)
  moreover have "en_file en = f" by (simp add: en_def)
  ultimately show ?thesis unfolding worked_on_def by blast
qed

definition yet_to_begin :: "Work \<Rightarrow> nat" where
  "yet_to_begin k = 2 * length (wk_todo k) + length (wk_waiting k)"

definition yet_to_publish :: "Work \<Rightarrow> nat" where
  "yet_to_publish k = length (wk_busy k) + sum_list (map (\<lambda>b. length (snd (snd b))) (wk_busy k))"

lemma move_decreases:
  assumes "work_move outcome par tr k k'"
  shows "yet_to_begin k' < yet_to_begin k \<or> yet_to_begin k' = yet_to_begin k \<and> yet_to_publish k' < yet_to_publish k"
  using assms
proof cases
  case (Spawn f fs)
  then show ?thesis by (auto simp: yet_to_begin_def spawn_def split: prod.split)
next
  case (Enter as f bs res evs)
  then show ?thesis by (simp add: yet_to_begin_def)
next
  case (Emit as f res ev evs bs)
  then show ?thesis by (simp add: yet_to_begin_def yet_to_publish_def)
next
  case (Leave as f res bs)
  then have "wk_busy k' = as @ bs" "wk_todo k' = wk_todo k" "wk_waiting k' = wk_waiting k"
    by (simp_all add: leave_work_def Let_def split: option.split prod.split)
  then show ?thesis using Leave(2) by (simp add: yet_to_begin_def yet_to_publish_def)
qed

lemma time_keeps: "time_passes k k' \<Longrightarrow> yet_to_begin k' = yet_to_begin k \<and> yet_to_publish k' = yet_to_publish k"
  by (auto simp: time_passes.simps yet_to_begin_def yet_to_publish_def)

lemma times_keep: "time_passes\<^sup>*\<^sup>* k k' \<Longrightarrow> yet_to_begin k' = yet_to_begin k \<and> yet_to_publish k' = yet_to_publish k"
  by (induction rule: rtranclp_induct) (auto dest: time_keeps)

lemma never_stuck:
  assumes "0 < par" "\<not> work_over k"
  shows "\<exists>k'. work_move worked_on par tr k k'"
proof (cases "wk_todo k")
  case (Cons f fs)
  then show ?thesis by (blast intro: work_move.Spawn)
next
  case todo: Nil
  show ?thesis
  proof (cases "wk_busy k")
    case Nil
    with assms todo obtain f fs where w: "wk_waiting k = [] @ f # fs" by (cases "wk_waiting k") (auto simp: work_over_def)
    obtain res evs where o: "worked_on f res evs" using worked_on_something by blast
    have "length (wk_busy k) < par" using Nil assms(1) by simp
    from work_move.Enter [where outcome = worked_on, OF w this o] show ?thesis by blast
  next
    case (Cons b bs)
    obtain f res evs where b: "b = (f, res, evs)" by (cases b)
    show ?thesis
    proof (cases evs)
      case Nil
      with Cons b have "wk_busy k = [] @ (f, res, []) # bs" by simp
      then show ?thesis by (blast intro: work_move.Leave)
    next
      case (Cons ev more)
      with \<open>wk_busy k = b # bs\<close> b have "wk_busy k = [] @ (f, res, ev # more) # bs" by simp
      then show ?thesis by (blast intro: work_move.Emit)
    qed
  qed
qed

lemma busy_bound:
  assumes "(work_step outcome par tr)\<^sup>*\<^sup>* (work_begin selected told ctx r) k"
  shows "length (wk_busy k) \<le> par"
  using assms
proof induction
  case (step k k')
  from step(2) consider "work_move outcome par tr k k'" | "time_passes k k'" by (auto simp: work_step_def)
  then show ?case
  proof cases
    case 1
    then show ?thesis
    proof cases
      case (Leave as f res bs)
      then have "wk_busy k' = as @ bs" by (simp add: leave_work_def Let_def split: option.split prod.split)
      with step(3) Leave(2) show ?thesis by simp
    qed (use step(3) in \<open>auto simp: spawn_def split: prod.split\<close>)
  next
    case 2
    with step(3) show ?thesis by (auto simp: time_passes.simps)
  qed
qed (simp add: work_begin_def)

text \<open>C10: A run comes to its end. However much time passes between, its files cannot take steps forever, and as long
as one is to be started, waits or is worked on, one of them can take a step; never are more of them worked on
at once than the run allows.\<close>

theorem run_ends:
  assumes "0 < par"
  shows "wf {(k', k). \<exists>j. time_passes\<^sup>*\<^sup>* k j \<and> work_move worked_on par tr j k'} \<and>
    (\<forall>k. \<not> work_over k \<longrightarrow> (\<exists>k'. work_move worked_on par tr k k')) \<and>
    (\<forall>selected told ctx r k. (work_step worked_on par tr)\<^sup>*\<^sup>* (work_begin selected told ctx r) k \<longrightarrow>
       length (wk_busy k) \<le> par)"
proof (intro conjI allI impI)
  let ?m = "\<lambda>k. (yet_to_begin k, yet_to_publish k)"
  have "{(k', k). \<exists>j. time_passes\<^sup>*\<^sup>* k j \<and> work_move worked_on par tr j k'} \<subseteq> inv_image (less_than <*lex*> less_than) ?m"
    by (auto dest!: move_decreases times_keep)
  then show "wf {(k', k). \<exists>j. time_passes\<^sup>*\<^sup>* k j \<and> work_move worked_on par tr j k'}"
    by (rule wf_subset [rotated]) auto
qed (use never_stuck [OF assms] busy_bound in blast)+

section \<open>Every exit gives back\<close>

definition closers :: "bool \<Rightarrow> deferred list" where
  "closers own = (if own then [DeferClosePool] else [])"

definition quiet_defer :: "deferred \<Rightarrow> bool" where
  "quiet_defer d \<longleftrightarrow> d = DeferCancel \<or> d = DeferCloseBridge \<or> (\<exists>dir. d = DeferUnmark dir)"

lemma run_attached_shape:
  "\<exists>xs. ru_defers (run_attached w cfg a defers sys live) = xs @ defers \<and> list_all quiet_defer xs \<and>
     ru_system (run_attached w cfg a defers sys live) = sys \<and>
     (\<exists>dir. concat (map (\<lambda>d. case d of DeferUnmark dir \<Rightarrow> [dir] | _ \<Rightarrow> []) xs) = [dir] \<and>
        ru_live (run_attached w cfg a defers sys live) = markLive dir live \<or>
      concat (map (\<lambda>d. case d of DeferUnmark dir \<Rightarrow> [dir] | _ \<Rightarrow> []) xs) = [] \<and>
        ru_live (run_attached w cfg a defers sys live) = live)"
proof -
  let ?l = "\<lparr>ly_Root = ec_OutputRoot cfg, ly_InfoHash = t_hash (att_torrent a), ly_Params = ParamsKey (gw_digest w) cfg\<rparr>"
  consider "SelectVideos (gw_Files w) = [] \<or> (\<exists>e. Select (SelectVideos (gw_Files w)) (ec_Files cfg) = Inl e)"
    | fs e where "SelectVideos (gw_Files w) \<noteq> []" "Select (SelectVideos (gw_Files w)) (ec_Files cfg) = Inr fs" "NewWriter ?l (gw_mkdir w) = Some e"
    | fs where "SelectVideos (gw_Files w) \<noteq> []" "Select (SelectVideos (gw_Files w)) (ec_Files cfg) = Inr fs" "NewWriter ?l (gw_mkdir w) = None"
    by (cases "Select (SelectVideos (gw_Files w)) (ec_Files cfg)"; cases "NewWriter ?l (gw_mkdir w)"; cases "SelectVideos (gw_Files w) = []") auto
  then show ?thesis
  proof cases
    case 1
    then show ?thesis by (intro exI [of _ "[]"]) (auto simp: run_attached_def Let_def split: sum.split select_error.split)
  next
    case 2
    then show ?thesis by (intro exI [of _ "[DeferCancel]"]) (simp add: run_attached_def Let_def quiet_defer_def)
  next
    case 3
    show ?thesis
    proof (cases "gw_bridge w")
      case None
      with 3 show ?thesis
        by (intro exI [of _ "[DeferCloseBridge, DeferUnmark (RunDir ?l), DeferCancel]"])
           (simp add: run_attached_def Let_def quiet_defer_def)
    next
      case (Some e)
      with 3 show ?thesis
        by (intro exI [of _ "[DeferUnmark (RunDir ?l), DeferCancel]"])
           (simp add: run_attached_def Let_def quiet_defer_def)
    qed
  qed
qed

definition unmarked :: "deferred list \<Rightarrow> string list" where
  "unmarked ds = concat (map (\<lambda>d. case d of DeferUnmark dir \<Rightarrow> [dir] | _ \<Rightarrow> []) ds)"

lemma unwind_append: "unwind env (xs @ ys) st = unwind env ys (unwind env xs st)"
  by (simp add: unwind_def)

lemma unwind_quiet:
  "list_all quiet_defer xs \<Longrightarrow> unwind env xs (sys, live) = (sys, foldl (\<lambda>e dir. unmarkLive dir e) live (unmarked xs))"
proof (induction xs arbitrary: live)
  case (Cons d xs)
  from Cons.prems have "undo env (sys, live) d = (sys, foldl (\<lambda>e dir. unmarkLive dir e) live (unmarked [d]))"
    by (auto simp: quiet_defer_def unmarked_def)
  with Cons show ?case by (simp add: unwind_def unmarked_def)
qed (simp add: unwind_def unmarked_def)

text \<open>A run was answered at once, was refused before it had a torrent, or was attached.\<close>

lemma run_begin_cases:
  assumes "st = run_begin w own cfg src sys live"
  obtains
    (Served) "ru_defers st = []" "ru_system st = sys" "ru_live st = live"
  | (Refused) "ru_defers st = closers own" "ru_system st = sys" "ru_live st = live"
  | (Failed) e where "fst (Attach (gw_env w) src (gw_peers w) (sys_st sys)) = Inl e" "ru_defers st = closers own"
      "ru_system st = pool_step (gw_env w) sys (DoAttach src (gw_peers w))" "ru_live st = live"
  | (Attached) a xs where "fst (Attach (gw_env w) src (gw_peers w) (sys_st sys)) = Inr a"
      "ru_defers st = xs @ DeferDetach (length (sys_atts sys)) # closers own" "list_all quiet_defer xs"
      "ru_system st = pool_step (gw_env w) sys (DoAttach src (gw_peers w))"
      "unmarked xs = [] \<and> ru_live st = live \<or> (\<exists>dir. unmarked xs = [dir] \<and> ru_live st = markLive dir live)"
proof (cases "serveFromCache (gw_unicode w) (gw_digest w) (gw_disk w) cfg src (gw_replay_elapsed w)")
  case (Some evs)
  then show ?thesis using assms by (intro Served) (simp_all add: run_begin_def)
next
  case miss: None
  show ?thesis
  proof (cases "Reached (ec_Roof cfg) (Downloaded (sys_st sys))")
    case True
    with miss show ?thesis using assms by (intro Refused) (simp_all add: run_begin_def closers_def)
  next
    case False
    let ?sys = "pool_step (gw_env w) sys (DoAttach src (gw_peers w))"
    show ?thesis
    proof (cases "fst (Attach (gw_env w) src (gw_peers w) (sys_st sys))")
      case (Inl e)
      with miss False show ?thesis using assms
        by (intro Failed [OF Inl]) (simp_all add: run_begin_def closers_def Let_def del: pool_step.simps)
    next
      case (Inr a)
      let ?d = "DeferDetach (length (sys_atts sys)) # closers own"
      from miss False Inr have st: "st = run_attached w cfg a ?d ?sys live"
        by (simp add: assms run_begin_def closers_def Let_def del: pool_step.simps)
      from run_attached_shape [of w cfg a ?d ?sys live, folded st unmarked_def] obtain xs where
        "ru_defers st = xs @ ?d" "list_all quiet_defer xs" "ru_system st = ?sys"
        "unmarked xs = [] \<and> ru_live st = live \<or> (\<exists>dir. unmarked xs = [dir] \<and> ru_live st = markLive dir live)" by blast
      from Attached [OF Inr this] show ?thesis .
    qed
  qed
qed

lemma attach_atts:
  "fst (Attach env src peers (sys_st s)) = Inl e \<Longrightarrow> sys_atts (pool_step env s (DoAttach src peers)) = sys_atts s"
  "fst (Attach env src peers (sys_st s)) = Inr a \<Longrightarrow> sys_atts (pool_step env s (DoAttach src peers)) = sys_atts s @ [(a, False)]"
  by (cases "Attach env src peers (sys_st s)"; simp)+

lemma step_keeps_att:
  assumes "ev \<noteq> DoDetach i" "i < length (sys_atts s)"
  shows "i < length (sys_atts (pool_step env s ev)) \<and> sys_atts (pool_step env s ev) ! i = sys_atts s ! i"
proof (cases ev)
  case (DoAttach src peers)
  then show ?thesis using assms attach_atts [of env src peers s]
    by (cases "fst (Attach env src peers (sys_st s))") (auto simp: nth_append simp del: pool_step.simps)
qed (use assms in auto)

lemma steps_keep_att:
  "DoDetach i \<notin> set evs \<Longrightarrow> i < length (sys_atts s) \<Longrightarrow>
   i < length (sys_atts (foldl (pool_step env) s evs)) \<and> sys_atts (foldl (pool_step env) s evs) ! i = sys_atts s ! i"
proof (induction evs arbitrary: s)
  case (Cons ev evs)
  then have "i < length (sys_atts (pool_step env s ev))" "sys_atts (pool_step env s ev) ! i = sys_atts s ! i"
    using step_keeps_att [of ev i s env] by auto
  with Cons show ?case by (simp del: pool_step.simps)
qed simp

lemma steps_inv: "sys_inv s \<Longrightarrow> list_all (ok_event env) evs \<Longrightarrow> sys_inv (foldl (pool_step env) s evs)"
  by (induction evs arbitrary: s) (simp_all add: pool_step_inv(1) del: pool_step.simps)

lemma steps_other_atts:
  assumes "j \<noteq> i" "j < length (sys_atts s)"
  shows "sys_atts (pool_step env s (DoDetach i)) ! j = sys_atts s ! j"
  using assms by simp

lemma detach_frees:
  assumes "sys_inv s" "i < length (sys_atts s)" "sys_atts s ! i = (a, False)"
  shows "sys_atts (pool_step env s (DoDetach i)) ! i = (a, True)"
    and "att_key a \<notin> set (held (fst (sys_st (pool_step env s (DoDetach i)))))"
proof -
  obtain p w where st: "sys_st s = (p, w)" by fastforce
  obtain p' w' where d: "detach a (p, w) = (p', w')" by fastforce
  from d st assms(2,3) detach_shape(1) [OF d]
  show "sys_atts (pool_step env s (DoDetach i)) ! i = (a, True)"
    "att_key a \<notin> set (held (fst (sys_st (pool_step env s (DoDetach i)))))" by simp_all
qed

lemma close_held: "held (fst (sys_st (pool_step env s DoClose))) = held (fst (sys_st s))"
  "sys_atts (pool_step env s DoClose) = sys_atts s"
  by (cases "sys_st s"; simp add: Pool_Close_def split: option.split)+

section \<open>A pool of the run's own\<close>

lemma bytes_only:
  "\<forall>ev \<in> set evs. \<exists>h n. ev = Bytes h n \<Longrightarrow>
   fst (sys_st (foldl (pool_step env) s evs)) = fst (sys_st s) \<and> sys_atts (foldl (pool_step env) s evs) = sys_atts s"
  by (induction evs arbitrary: s) auto

lemma attach_not_closed:
  assumes "sys_inv s" "ok_event env (DoAttach src peers)"
  shows "p_closed (fst (sys_st (pool_step env s (DoAttach src peers)))) = p_closed (fst (sys_st s))"
proof -
  obtain p w where st: "sys_st s = (p, w)" by fastforce
  obtain r p' w' where r: "Attach env src peers (p, w) = (r, (p', w'))" by (metis prod.collapse)
  have "p_closed p' = p_closed p"
    using Attach_cases [OF sys_invD(1) [OF assms(1) st] _ _ alone_held [OF assms(1) st] r] assms(2)
    by (auto simp: granted_def pool_frame_def release_def split: sum.splits)
  with st r show ?thesis by (simp split: sum.split)
qed

lemma detach_not_closed: "p_closed (fst (sys_st (pool_step env s (DoDetach i)))) = p_closed (fst (sys_st s))"
  by (cases "sys_st s") (simp add: detach_def Let_def release_def retire_def split: option.split)

lemma close_ends: "\<not> p_closed (fst (sys_st s)) \<Longrightarrow> p_sess (fst (sys_st (pool_step env s DoClose))) = None"
  by (cases "sys_st s") (simp add: Pool_Close_def split: option.split)

text \<open>What a run may do to a pool of its own leaves nothing behind.\<close>

lemma own_pool_empty:
  assumes "valid_PortSet ps" "list_all (ok_event env) (DoAttach src peers # evs)"
    and "\<forall>ev \<in> set evs. \<exists>h n. ev = Bytes h n"
    and "E = evs \<or> E = evs @ [DoClose] \<or>
      E = DoAttach src peers # evs @ (if fst (Attach env src peers (sys_st (init_system c ps))) \<in> range Inl then [] else [DoDetach 0]) @ [DoClose]"
  shows "Pool_Free (pool (w_ports (run_world env c ps E))) = PortSet_Len ps \<and>
    (\<forall>h < nses (run_world env c ps E). sess_cl (get_session (run_world env c ps E) h) = None)"
proof -
  let ?init = "init_system c ps" and ?step = "pool_step env"
  let ?att = "?step ?init (DoAttach src peers)"
  have ok: "list_all (ok_event env) E" using assms(2,4) by auto
  have none: "p_sess (fst (sys_st ?init)) = None" "sys_atts ?init = []" "\<not> p_closed (fst (sys_st ?init))"
    by (simp_all add: init_system_def NewPool_def)
  have "live_atts (pool_run env c ps E) = [] \<and> p_sess (run_pool env c ps E) = None"
    using assms(4)
  proof (elim disjE)
    assume "E = evs"
    then show ?thesis using bytes_only [OF assms(3), of env ?init] none by (simp add: pool_run_def live_atts_def)
  next
    assume "E = evs @ [DoClose]"
    then show ?thesis using bytes_only [OF assms(3), of env ?init] none
        close_ends [of "foldl ?step ?init evs" env] close_held(2) [of env "foldl ?step ?init evs"]
      by (simp add: pool_run_def live_atts_def del: pool_step.simps)
  next
    assume E: "E = DoAttach src peers # evs @
      (if fst (Attach env src peers (sys_st ?init)) \<in> range Inl then [] else [DoDetach 0]) @ [DoClose]"
    let ?mid = "foldl ?step ?att evs"
    have mid: "fst (sys_st ?mid) = fst (sys_st ?att)" "sys_atts ?mid = sys_atts ?att"
      using bytes_only [OF assms(3)] by blast+
    have open_att: "\<not> p_closed (fst (sys_st ?mid))"
      using attach_not_closed [OF init_system_inv] assms(2) none(3) mid(1) by (simp del: pool_step.simps)
    show ?thesis
    proof (cases "fst (Attach env src peers (sys_st ?init))")
      case (Inl e)
      then have "E = DoAttach src peers # evs @ [DoClose]" using E by simp
      then show ?thesis using attach_atts(1) [OF Inl] none(2) mid(2) close_ends [OF open_att] close_held(2) [of env ?mid]
        by (simp add: pool_run_def live_atts_def del: pool_step.simps)
    next
      case (Inr a)
      let ?d = "?step ?mid (DoDetach 0)"
      have E: "E = DoAttach src peers # evs @ [DoDetach 0, DoClose]" using E Inr by auto
      have "sys_atts ?mid = [(a, False)]" using attach_atts(2) [OF Inr] none(2) mid(2) by simp
      then have "sys_atts ?d = [(a, True)]" by simp
      then show ?thesis using close_ends [of ?d env] detach_not_closed [of env ?mid 0] open_att close_held(2) [of env ?d]
        by (simp add: E pool_run_def live_atts_def del: pool_step.simps)
    qed
  qed
  then show ?thesis using empty_pool_returned [OF assms(1) ok] by blast
qed

text \<open>C11: A run gives back what it took, whichever exit it takes and whatever other runs of the pool do meanwhile: the
torrent it attached is let go of and may be attached again, nobody else's attachment is touched, its directory
is unmarked as often as it was marked; and if it brought the pool into being for itself, no client is left
open and every port is free again.\<close>

theorem run_lets_go:
  assumes "st = run_begin w own cfg src sys live" "sys_inv sys"
    and "list_all (ok_event (gw_env w)) (DoAttach src (gw_peers w) # evs)" "DoDetach (length (sys_atts sys)) \<notin> set evs"
    and "sys2 = foldl (pool_step (gw_env w)) (ru_system st) evs"
    and "unwind (gw_env w) (ru_defers st) (sys2, live2) = (sys3, live3)"
  shows "(\<forall>a. sys_atts (ru_system st) = sys_atts sys @ [(a, False)] \<longrightarrow>
       sys_atts sys3 ! length (sys_atts sys) = (a, True) \<and> att_key a \<notin> set (held (fst (sys_st sys3)))) \<and>
    (\<forall>j < length (sys_atts sys2). j \<noteq> length (sys_atts sys) \<longrightarrow> sys_atts sys3 ! j = sys_atts sys2 ! j) \<and>
    (ru_live st = live \<and> live3 = live2 \<or> (\<exists>dir. ru_live st = markLive dir live \<and> live3 = unmarkLive dir live2)) \<and>
    (\<forall>c ps. own \<and> sys = init_system c ps \<and> valid_PortSet ps \<and> (\<forall>ev \<in> set evs. \<exists>h n. ev = Bytes h n) \<longrightarrow>
       Pool_Free (pool (w_ports (snd (sys_st sys3)))) = PortSet_Len ps \<and>
       (\<forall>h < nses (snd (sys_st sys3)). sess_cl (get_session (snd (sys_st sys3)) h) = None))"
proof -
  let ?i = "length (sys_atts sys)" and ?env = "gw_env w" and ?att = "DoAttach src (gw_peers w)"
  let ?free = "\<lambda>s c ps. Pool_Free (pool (w_ports (snd (sys_st s)))) = PortSet_Len ps \<and>
       (\<forall>h < nses (snd (sys_st s)). sess_cl (get_session (snd (sys_st s)) h) = None)"
  have close: "unwind ?env (closers own) (s, l) = (if own then pool_step ?env s DoClose else s, l)" for s l
    by (simp add: closers_def unwind_def)
  have free: "?free (foldl (pool_step ?env) sys E) c ps"
    if "sys = init_system c ps" "valid_PortSet ps" "\<forall>ev \<in> set evs. \<exists>h n. ev = Bytes h n"
      and "E = evs \<or> E = evs @ [DoClose] \<or>
      E = ?att # evs @ (if fst (Attach ?env src (gw_peers w) (sys_st (init_system c ps))) \<in> range Inl then [] else [DoDetach 0]) @ [DoClose]"
    for E c ps
    using own_pool_empty [OF that(2) assms(3) that(3,4)] that(1) by (simp add: pool_run_def)
  from assms(1) show ?thesis
  proof (cases rule: run_begin_cases)
    case Served
    then have "sys3 = sys2" "live3 = live2" using assms(6) by (simp_all add: unwind_def)
    then show ?thesis using Served assms(5) free [of _ _ evs] by auto
  next
    case Refused
    then have e: "sys3 = (if own then pool_step ?env sys2 DoClose else sys2)" "live3 = live2" using assms(6) close by auto
    then show ?thesis using Refused assms(5) free [of _ _ "evs @ [DoClose]"] close_held(2) [of ?env sys2] by auto
  next
    case (Failed e)
    then have e: "sys3 = (if own then pool_step ?env sys2 DoClose else sys2)" "live3 = live2" using assms(6) close by auto
    have "\<exists>x. fst (Attach ?env src (gw_peers w) (sys_st sys)) = Inl x" using Failed(1) by blast
    then show ?thesis
      using Failed(3,4) attach_atts(1) [OF Failed(1)] assms(5) free [of _ _ "?att # evs @ [DoClose]"] close_held(2) [of ?env sys2] e
      by (auto simp del: pool_step.simps)
  next
    case (Attached a xs)
    let ?d = "pool_step ?env sys2 (DoDetach ?i)"
    have "unwind ?env (ru_defers st) (sys2, live2) =
        unwind ?env (DeferDetach ?i # closers own) (sys2, foldl (\<lambda>e dir. unmarkLive dir e) live2 (unmarked xs))"
      unfolding Attached(2) unwind_append unwind_quiet [OF Attached(3)] ..
    also have "\<dots> = unwind ?env (closers own) (?d, foldl (\<lambda>e dir. unmarkLive dir e) live2 (unmarked xs))"
      by (simp add: unwind_def)
    finally have "(sys3, live3) = (if own then pool_step ?env ?d DoClose else ?d, foldl (\<lambda>e dir. unmarkLive dir e) live2 (unmarked xs))"
      unfolding close by (rule trans [OF assms(6) [symmetric]])
    then have e: "sys3 = (if own then pool_step ?env ?d DoClose else ?d)"
        "live3 = foldl (\<lambda>e dir. unmarkLive dir e) live2 (unmarked xs)"
      unfolding prod.inject by blast+
    have a: "sys_atts (ru_system st) = sys_atts sys @ [(a, False)]" using attach_atts(2) [OF Attached(1)] Attached(4) by simp
    have inv: "sys_inv sys2"
      unfolding assms(5) Attached(4) using assms(2,3) by (intro steps_inv pool_step_inv(1)) simp_all
    have i: "?i < length (sys_atts sys2)" "sys_atts sys2 ! ?i = (a, False)"
      using steps_keep_att [OF assms(4), of "ru_system st" ?env] unfolding assms(5) a by simp_all
    note d = detach_frees [OF inv i, of ?env]
    have other: "\<forall>j < length (sys_atts sys2). j \<noteq> ?i \<longrightarrow> sys_atts ?d ! j = sys_atts sys2 ! j"
      using steps_other_atts by blast
    have "sys_atts sys3 = sys_atts ?d" "held (fst (sys_st sys3)) = held (fst (sys_st ?d))"
      using close_held [of ?env ?d] by (simp_all add: e(1) del: pool_step.simps)
    moreover have "ru_live st = live \<and> live3 = live2 \<or> (\<exists>dir. ru_live st = markLive dir live \<and> live3 = unmarkLive dir live2)"
      using Attached(5) e(2) by auto
    moreover have "?free sys3 c ps"
      if "own" "sys = init_system c ps" "valid_PortSet ps" "\<forall>ev \<in> set evs. \<exists>h n. ev = Bytes h n" for c ps
    proof -
      have "sys_atts sys = []" using that(2) by (simp add: init_system_def)
      then have "sys3 = foldl (pool_step ?env) sys (?att # evs @ [DoDetach 0, DoClose])"
        using that(1) by (simp add: e(1) assms(5) Attached(4) del: pool_step.simps)
      moreover have "fst (Attach ?env src (gw_peers w) (sys_st (init_system c ps))) \<notin> range Inl"
        using Attached(1) that(2) by auto
      ultimately show ?thesis using free [OF that(2-4), of "?att # evs @ [DoDetach 0, DoClose]"] by simp
    qed
    ultimately show ?thesis using a d other by simp
  qed
qed

section \<open>Answered from disk from then on\<close>

lemma cache_file_roundtrip: "fileInfoFrom (map cache_file fs) = fs"
  by (induction fs) (simp_all add: fileInfoFrom_def cache_file_def)

lemma run_begun_fields:
  assumes "ru_begun (run_begin w own cfg src sys live) = Some b"
  shows "rb_layout b = \<lparr>ly_Root = ec_OutputRoot cfg, ly_InfoHash = t_hash (att_torrent (rb_att b)), ly_Params = ParamsKey (gw_digest w) cfg\<rparr>"
    and "Select (rb_videos b) (ec_Files cfg) = Inr (rb_selected b)"
    and "rb_tracker b = newBudgetTracker (budgetFor cfg (int (length (rb_selected b)))) True (ec_Roof cfg) True (gw_start w)"
  using assms
  by (auto simp: run_begin_def run_attached_def Let_def split: option.splits sum.splits select_error.splits if_splits)

lemma set_mergeIndices [simp]: "set (mergeIndices a b) = set a \<union> set b"
  by (simp add: mergeIndices_def)

lemma hit_all:
  "\<forall>f \<in> set fs. fi_Index f \<in> set whole \<and> (\<exists>m. file_manifest d l f = Some m \<and> Usable (StatSize d) m) \<Longrightarrow>
   \<exists>ms. hit_manifests d l whole True fs = Some ms \<and> length ms = length fs"
  by (induction fs) auto

text \<open>C12: What a run finished need not be fetched again. Once a run's record is saved and every file it selected came out
whole, the same request is answered from disk, as long as the disk holds that record and the files' manifests
with their frames: no byte is downloaded, none claimed, and every selected file is served.\<close>

theorem rerun_served:
  assumes "ru_begun (run_begin w own cfg src sys live) = Some b" "rb_selected b \<noteq> []"
    and "rx_saved (run_end w x cfg src b k) = Some r"
    and "fi_Index ` set (rb_selected b) \<subseteq> set (wk_finished k)"
    and "InfoHash src = Inr (t_hash (att_torrent (rb_att b)))"
    and "LoadRun d (ly_InfoHash (rb_layout b)) (ly_Params (rb_layout b)) = Some r"
    and "\<forall>f \<in> set (rb_selected b). \<exists>m. file_manifest d (rb_layout b) f = Some m \<and> Usable (StatSize d) m"
  shows "\<exists>evs fin. serveFromCache u (gw_digest w) d cfg src elapsed = Some evs \<and> last evs = E_Done fin \<and>
    do_Reason fin = StopCompleted \<and> do_Files fin = int (length (rb_selected b)) \<and>
    do_DownloadedByte fin = 0 \<and> do_ClaimedByte fin = 0 \<and> do_ClaimedPieces fin = 0"
proof -
  note b = run_begun_fields [OF assms(1)]
  from assms(3) have r: "rr_Videos r = map cache_file (rb_videos b)" "set (wk_finished k) \<subseteq> set (rr_Complete r)"
    by (auto simp: run_end_def saveRunRecord_def Let_def split: if_splits)
  have videos: "videosFromRecord r = rb_videos b" by (simp add: videosFromRecord_def r(1) cache_file_roundtrip)
  have "\<forall>f \<in> set (rb_selected b). fi_Index f \<in> set (rr_Complete r) \<and>
      (\<exists>m. file_manifest d (rb_layout b) f = Some m \<and> Usable (StatSize d) m)"
    using assms(4,7) r(2) by blast
  from hit_all [OF this] obtain ms where ms: "hit_manifests d (rb_layout b) (rr_Complete r) True (rb_selected b) = Some ms"
      "length ms = length (rb_selected b)" by blast
  let ?h = "\<lparr>ch_layout = rb_layout b, ch_record = r, ch_selected = rb_selected b, ch_manifests = ms\<rparr>"
  have "serveFromCache u (gw_digest w) d cfg src elapsed = Some (hit_publish u d (rb_videos b) elapsed ?h)"
    using assms(2,5,6) b(1,2) ms(1) by (simp add: serveFromCache_def loadCacheHit_def videos)
  moreover have "\<exists>fin. last (hit_publish u d (rb_videos b) elapsed ?h) = E_Done fin \<and> do_Reason fin = StopCompleted \<and>
      do_Files fin = int (length (rb_selected b)) \<and> do_DownloadedByte fin = 0 \<and> do_ClaimedByte fin = 0 \<and> do_ClaimedPieces fin = 0"
    by (simp add: hit_publish_def ms(2) Let_def)
  ultimately show ?thesis by blast
qed

text \<open>A record's list of whole files only grows, whatever the run made of them: a file that a later run takes again
and leaves with a gap stays listed.\<close>

lemma stale_complete:
  assumes "rx_saved (run_end w x cfg src b k) = Some r"
    and "LoadRun (xw_disk x) (ly_InfoHash (rb_layout b)) (ly_Params (rb_layout b)) = Some prior"
  shows "set (rr_Complete r) = set (rr_Complete prior) \<union> set (wk_finished k)"
  using assms by (auto simp: run_end_def saveRunRecord_def Let_def split: if_splits)

text \<open>A run whose time is used up before it begins says it was cancelled: its context is cancelled, not expired.\<close>

lemma used_up_is_cancelled:
  "BT_Context t r = AlreadyOver \<Longrightarrow> haltReason CtxCanceled t r = (StopCancelled, True) \<and> 0 < MaxTime (bt_budget t)"
  by (auto simp: haltReason_def BT_Context_def split: if_splits)

section \<open>A run\<close>

definition one_file :: FileInfo where "one_file = tor_files demo_torrent ! 1"

definition one_cfg :: EngineConfig where "one_cfg = en_cfg FileProperties.demo_env"

definition one_world :: EngineWorld where
  "one_world =
     \<lparr>gw_unicode = plain_unicode, gw_digest = (\<lambda>s. ''p''),
      gw_disk = \<lparr>LoadRun = (\<lambda>_ _. None), LoadManifest = (\<lambda>_ _ _ _. None), ReadDir = (\<lambda>_. None), StatSize = (\<lambda>_. None)\<rparr>,
      gw_replay_elapsed = 0, gw_env = PoolProperties.demo_env, gw_peers = [], gw_Name = ''n'', gw_Files = [one_file],
      gw_mkdir = None, gw_render = Inr ''d'', gw_place = None, gw_bridge = None, gw_start = 5\<rparr>"

definition one_source :: Source where "one_source = demo_magnet ''aa'' [''udp'']"

definition one_start :: RunStart where
  "one_start = run_begin one_world True one_cfg one_source (init_system demo_cfg demo_ports) Map.empty"

lemma one_attached:
  "\<exists>a. fst (Attach (gw_env one_world) one_source [] (sys_st (init_system demo_cfg demo_ports))) = Inr a \<and>
     t_hash (att_torrent a) = ''aa''"
proof -
  have "case fst (Attach (gw_env one_world) one_source [] (sys_st (init_system demo_cfg demo_ports))) of
      Inl e \<Rightarrow> False | Inr a \<Rightarrow> t_hash (att_torrent a) = ''aa''"
    unfolding one_world_def one_source_def by code_simp
  then show ?thesis by (auto split: sum.splits)
qed

lemma one_begun: "\<exists>b. ru_begun one_start = Some b \<and> rb_selected b = [one_file] \<and> t_hash (att_torrent (rb_att b)) = ''aa''"
proof -
  obtain a where a: "fst (Attach (gw_env one_world) one_source [] (sys_st (init_system demo_cfg demo_ports))) = Inr a"
      "t_hash (att_torrent a) = ''aa''"
    using one_attached by blast
  have s: "serveFromCache (gw_unicode one_world) (gw_digest one_world) (gw_disk one_world) one_cfg one_source 0 = None"
    by (simp add: serveFromCache_def one_world_def Let_def split: sum.split)
  have "\<not> Reached (ec_Roof one_cfg) (Downloaded (sys_st (init_system demo_cfg demo_ports)))"
    by (simp add: one_cfg_def FileProperties.demo_env_def Reached_def DefaultRoof_def init_system_def Downloaded_def NewPool_def
        init_world_def)
  moreover have v: "SelectVideos [one_file] = [one_file]" unfolding one_file_def demo_torrent_def by code_simp
  moreover have f: "ec_Files one_cfg = []" "ec_OutputRoot one_cfg = ''out''" by (simp_all add: one_cfg_def FileProperties.demo_env_def)
  ultimately show ?thesis using a s
    by (simp add: one_start_def run_begin_def run_attached_def Let_def Select_def NewWriter_def one_world_def del: pool_step.simps)
qed

lemma emit_all:
  "wk_busy k = [(f, res, evs)] \<Longrightarrow>
   (work_step outcome par tr)\<^sup>*\<^sup>* k (k\<lparr>wk_busy := [(f, res, [])], wk_bus := wk_bus k @ evs\<rparr>)"
proof (induction evs arbitrary: k)
  case (Cons ev evs)
  let ?k = "k\<lparr>wk_busy := [(f, res, evs)], wk_bus := wk_bus k @ [ev]\<rparr>"
  from Cons.prems have "wk_busy k = [] @ (f, res, ev # evs) # []" by simp
  from work_move.Emit [OF this] have "work_step outcome par tr k ?k" by (simp add: work_step_def)
  moreover have "(work_step outcome par tr)\<^sup>*\<^sup>* ?k (?k\<lparr>wk_busy := [(f, res, [])], wk_bus := wk_bus ?k @ evs\<rparr>)"
    by (rule Cons.IH) simp
  ultimately show ?case by (simp add: converse_rtranclp_into_rtranclp)
next
  case Nil
  then have "k\<lparr>wk_busy := [(f, res, [])], wk_bus := wk_bus k @ []\<rparr> = k" by (cases k) simp
  then show ?case by simp
qed

definition one_reading :: Reading where "one_reading = \<lparr>meter_now = 100, client_now = 100, clock_now = 9\<rparr>"

lemma one_not_halted:
  "haltReason CtxLive (newBudgetTracker (budgetFor one_cfg n) True (ec_Roof one_cfg) True 5) one_reading = (StopCompleted, False)"
  by (simp add: haltReason_def one_cfg_def FileProperties.demo_env_def budgetFor_def Exhausted_def Reached_def newBudgetTracker_def
      DefaultBudget_def DefaultRoof_def Spent_def time_Sub_def bytesPerFile_def maxRunBytes_def defaultRunTime_def w64_def
      max_i64_def min_i64_def one_reading_def Let_def)

lemma one_works: "worked_on one_file (fst demo_result) (fs_events (snd demo_result))"
proof -
  have "en_file FileProperties.demo_env = one_file" by (simp add: one_file_def FileProperties.demo_env_def)
  with demo_runs show ?thesis unfolding worked_on_def by blast
qed

lemma one_run:
  assumes "ru_begun one_start = Some b"
  shows "\<exists>k. (work_step worked_on 4 (rb_tracker b))\<^sup>*\<^sup>* (work_begin (rb_selected b) (ru_events one_start) CtxLive one_reading) k \<and>
    work_over k \<and> \<not> snd (halt_now (rb_tracker b) k) \<and> fo_err (fst demo_result) = None \<and>
    (fo_complete (fst demo_result) \<longrightarrow> wk_finished k = [1])"
proof -
  let ?tr = "rb_tracker b" and ?step = "work_step worked_on 4 (rb_tracker b)" and ?evs = "fs_events (snd demo_result)"
  have sel: "rb_selected b = [one_file]" using one_begun assms by auto
  have tr: "?tr = newBudgetTracker (budgetFor one_cfg 1) True (ec_Roof one_cfg) True 5"
    using run_begun_fields(3) [OF assms [unfolded one_start_def]] sel by (simp add: one_world_def)
  have h: "haltReason CtxLive ?tr one_reading = (StopCompleted, False)" unfolding tr by (rule one_not_halted)
  let ?k0 = "work_begin [one_file] (ru_events one_start) CtxLive one_reading"
  let ?k1 = "?k0\<lparr>wk_todo := [], wk_waiting := [one_file]\<rparr>"
  let ?k2 = "?k1\<lparr>wk_waiting := [], wk_busy := [(one_file, fst demo_result, ?evs)]\<rparr>"
  let ?k3 = "?k2\<lparr>wk_busy := [(one_file, fst demo_result, [])], wk_bus := wk_bus ?k2 @ ?evs\<rparr>"
  let ?k4 = "leave_work ?tr one_file (fst demo_result) (?k3\<lparr>wk_busy := []\<rparr>)"
  have "spawn ?tr one_file [] ?k0 = ?k1" using h by (simp add: spawn_def halt_now_def work_begin_def)
  moreover have "wk_todo ?k0 = one_file # []" by (simp add: work_begin_def)
  ultimately have 1: "?step ?k0 ?k1" using work_move.Spawn [of ?k0 one_file "[]" worked_on 4 ?tr] by (simp add: work_step_def)
  have "wk_waiting ?k1 = [] @ one_file # []" "length (wk_busy ?k1) < 4" by (simp_all add: work_begin_def)
  from work_move.Enter [where outcome = worked_on, OF this one_works] have 2: "?step ?k1 ?k2"
    by (simp add: work_step_def work_begin_def)
  have 3: "?step\<^sup>*\<^sup>* ?k2 ?k3" by (rule emit_all) simp
  have "wk_busy ?k3 = [] @ (one_file, fst demo_result, []) # []" by simp
  from work_move.Leave [OF this] have 4: "?step ?k3 ?k4" by (simp add: work_step_def)
  have "?step\<^sup>*\<^sup>* ?k0 ?k4" using 1 2 3 4 by (meson converse_rtranclp_into_rtranclp rtranclp.rtrancl_into_rtrancl)
  moreover have e: "fo_err (fst demo_result) = None" using demo_taken by blast
  moreover have "work_over ?k4 \<and> wk_ctx ?k4 = CtxLive \<and> wk_reading ?k4 = one_reading \<and>
      (fo_complete (fst demo_result) \<longrightarrow> wk_finished ?k4 = [fi_Index one_file])"
    using e by (simp add: leave_work_def work_over_def work_begin_def Let_def)
  moreover have "fi_Index one_file = 1" by (simp add: one_file_def demo_torrent_def)
  ultimately show ?thesis using h unfolding sel by (intro exI [of _ ?k4]) (simp add: halt_now_def)
qed

lemma one_complete: "fo_complete (fst demo_result)"
proof -
  note p = processFile_tally [OF demo_runs demo_published demo_plan]
  from demo_taken obtain f where "fs_records (snd demo_result) = [f]" "\<not> is_failed f" "fo_err (fst demo_result) = None" by blast
  with p(1,4) show ?thesis by (simp add: file_tally_def)
qed

definition one_end :: EndWorld where
  "one_end =
     \<lparr>xw_disk = gw_disk one_world, xw_now = 7, xw_Magnet = ''magnet:'', xw_torrent = demo_torrent, xw_save = None,
      xw_walk = (\<lambda>_. []), xw_fails = (\<lambda>_. False), xw_slice = (\<lambda>s. s), xw_live = [''out/aa/p''],
      xw_reading = one_reading, xw_elapsed = 4\<rparr>"

lemma run_accounts_witness:
  "\<exists>b k d. ru_begun one_start = Some b \<and> work_over k \<and>
     last (rx_events (run_end one_world one_end one_cfg one_source b k)) = E_Done d \<and> do_Reason d = StopCompleted \<and>
     do_Frames d = int (length (filter is_ready (rx_events (run_end one_world one_end one_cfg one_source b k))))"
proof -
  obtain b where b: "ru_begun one_start = Some b" using one_begun by blast
  from one_run [OF b] obtain k where k:
    "(work_step worked_on 4 (rb_tracker b))\<^sup>*\<^sup>* (work_begin (rb_selected b) (ru_events one_start) CtxLive one_reading) k"
    "work_over k" "\<not> snd (halt_now (rb_tracker b) k)" by blast
  from run_accounts [OF b [unfolded one_start_def] k(1) [unfolded one_start_def] k(2), of one_end] obtain d where
    "last (rx_events (run_end one_world one_end one_cfg one_source b k)) = E_Done d"
    "do_Frames d = int (length (filter is_ready (rx_events (run_end one_world one_end one_cfg one_source b k))))"
    "do_Reason d = StopCompleted \<longleftrightarrow> \<not> snd (halt_now (rb_tracker b) k)" by blast
  with b k(2,3) show ?thesis by blast
qed

lemma run_ends_witness:
  "\<exists>k'. work_move worked_on 4 demo_tracker
     (work_begin [one_file] [] CtxLive one_reading) k'"
proof -
  have "\<not> work_over (work_begin [one_file] [] CtxLive one_reading)" by (simp add: work_over_def work_begin_def)
  then show ?thesis using run_ends [of 4 demo_tracker] by simp
qed

lemma run_lets_go_witness:
  "\<exists>sys3 live3.
     unwind (gw_env one_world) (ru_defers one_start) (foldl (pool_step (gw_env one_world)) (ru_system one_start) [Bytes 0 7], Map.empty) =
       (sys3, live3) \<and>
     Pool_Free (pool (w_ports (snd (sys_st sys3)))) = 4"
proof -
  let ?sys2 = "foldl (pool_step (gw_env one_world)) (ru_system one_start) [Bytes 0 7]"
  obtain sys3 live3 where u: "unwind (gw_env one_world) (ru_defers one_start) (?sys2, Map.empty) = (sys3, live3)"
    by (meson surj_pair)
  have v: "valid_PortSet demo_ports" by (simp add: valid_PortSet_def bindable_def)
  have o: "list_all (ok_event (gw_env one_world)) (DoAttach one_source (gw_peers one_world) # [Bytes 0 7])"
    by (simp add: one_source_def demo_magnet_def wf_source_def stable_file_def)
  have n: "DoDetach (length (sys_atts (init_system demo_cfg demo_ports))) \<notin> set [Bytes 0 7]" by simp
  from run_lets_go [OF one_start_def init_system_inv o n refl u] v
  have "Pool_Free (pool (w_ports (snd (sys_st sys3)))) = PortSet_Len demo_ports" by simp
  with u show ?thesis by (auto simp: PortSet_Len_def)
qed

lemma rerun_served_witness:
  "\<exists>b k r d evs fin. ru_begun one_start = Some b \<and>
     rx_saved (run_end one_world one_end one_cfg one_source b k) = Some r \<and>
     LoadRun d ''aa'' ''p'' = Some r \<and>
     serveFromCache plain_unicode (gw_digest one_world) d one_cfg one_source 1 = Some evs \<and>
     last evs = E_Done fin \<and> do_Files fin = 1 \<and> do_DownloadedByte fin = 0"
proof -
  obtain b where b: "ru_begun one_start = Some b" "rb_selected b = [one_file]" "t_hash (att_torrent (rb_att b)) = ''aa''"
    using one_begun by blast
  from one_run [OF b(1)] one_complete obtain k :: Work where k: "wk_finished k = [1]" by blast
  have "xw_save one_end = None" by (simp add: one_end_def)
  then obtain r where r: "rx_saved (run_end one_world one_end one_cfg one_source b k) = Some r" by (simp add: run_end_def Let_def)
  let ?m = "no_manifest\<lparr>m_Frames := [no_frame\<lparr>mf_Path := ''000.jpg''\<rparr>]\<rparr>"
  let ?d = "\<lparr>LoadRun = (\<lambda>_ _. Some r), LoadManifest = (\<lambda>_ _ _ _. Some ?m), ReadDir = (\<lambda>_. None), StatSize = (\<lambda>_. Some 5)\<rparr>"
  have f: "fi_Index one_file = 1" by (simp add: one_file_def demo_torrent_def)
  have l: "ly_InfoHash (rb_layout b) = ''aa''" "ly_Params (rb_layout b) = ''p''"
    using run_begun_fields(1) [OF b(1) [unfolded one_start_def]] b(3) by (simp_all add: ParamsKey_def one_world_def)
  have "InfoHash one_source = Inr (t_hash (att_torrent (rb_att b)))"
    by (simp add: b(3) InfoHash_def one_source_def demo_magnet_def)
  moreover have "Usable (StatSize ?d) ?m" by (simp add: Usable_def served_def no_manifest_def no_frame_def)
  ultimately obtain evs fin where
    "serveFromCache plain_unicode (gw_digest one_world) ?d one_cfg one_source 1 = Some evs" "last evs = E_Done fin"
    "do_Files fin = 1" "do_DownloadedByte fin = 0"
    using rerun_served [OF b(1) [unfolded one_start_def] _ r, of ?d plain_unicode 1] b k f l
    by (auto simp: file_manifest_def)
  moreover have "LoadRun ?d ''aa'' ''p'' = Some r" by simp
  ultimately show ?thesis using b(1) r by blast
qed

end
