(* ===== verification/EventBus.thy ===== *)
theory EventBus
  imports FileRun "HOL-Library.Sublist"
begin

text \<open>
  \<^verbatim>\<open>internal/core/bus.go\<close>: the bus that hands a run's events to its subscribers, with as many
  publishers at once as a run has goroutines. A call of \<^verbatim>\<open>Publish\<close> is its locked part, which takes the
  snapshot, and then one send for each subscriber in it, outside the lock; what other calls do in between is
  any of the moves below. A channel is the list of events in it, its room, and whether it is closed; a send
  on a closed channel panics, as in Go. The order in which a map is walked is an argument of \<open>Publishes\<close>.
\<close>

section \<open>The bus\<close>

record subscriber =
  su_ch :: "Event list"
  su_room :: nat
  su_shut :: bool
  su_cancelled :: bool
  su_dropped :: int

text \<open>Subscribers are addressed by the number they were given: a snapshot keeps them when the map no longer does.\<close>

record Bus =
  bs_ptr :: "nat \<Rightarrow> subscriber"
  bs_subs :: "nat list"
  bs_nextID :: nat
  bs_closed :: bool
  bs_buffer :: nat

definition DefaultBuffer :: int where
  "DefaultBuffer = 64"

definition no_subscriber :: subscriber where
  "no_subscriber = \<lparr>su_ch = [], su_room = 0, su_shut = False, su_cancelled = False, su_dropped = 0\<rparr>"

definition NewBus :: "int \<Rightarrow> Bus" where
  "NewBus buffer =
     \<lparr>bs_ptr = (\<lambda>_. no_subscriber), bs_subs = [], bs_nextID = 0, bs_closed = False,
      bs_buffer = nat (if buffer \<le> 0 then DefaultBuffer else buffer)\<rparr>"

definition on_subscriber :: "nat \<Rightarrow> (subscriber \<Rightarrow> subscriber) \<Rightarrow> Bus \<Rightarrow> Bus" where
  "on_subscriber i g b = b\<lparr>bs_ptr := (bs_ptr b)(i := g (bs_ptr b i))\<rparr>"

text \<open>\<open>None\<close> stands for the channel a closed bus returns: closed, and of no subscriber.\<close>

definition Subscribe :: "Bus \<Rightarrow> nat option \<times> Bus" where
  "Subscribe b =
     (if bs_closed b then (None, b)
      else let i = bs_nextID b in
        (Some i, (on_subscriber i (\<lambda>_. no_subscriber\<lparr>su_room := bs_buffer b\<rparr>) b)
                   \<lparr>bs_nextID := i + 1, bs_subs := bs_subs b @ [i]\<rparr>))"

definition unsubscribe :: "nat \<Rightarrow> Bus \<Rightarrow> Bus" where
  "unsubscribe i b =
     (if i \<in> set (bs_subs b) then on_subscriber i (\<lambda>u. u\<lparr>su_cancelled := True\<rparr>) b else b)"

definition isTerminal :: "Event \<Rightarrow> bool" where
  "isTerminal ev = (case ev of E_Done d \<Rightarrow> True | E_Failed f c e \<Rightarrow> True | _ \<Rightarrow> False)"

text \<open>The channels of a group of subscribers closed, and their entries taken out of the map.\<close>

definition shut :: "nat list \<Rightarrow> Bus \<Rightarrow> Bus" where
  "shut is b = b\<lparr>bs_ptr := (\<lambda>i. if i \<in> set is then (bs_ptr b i)\<lparr>su_shut := True\<rparr> else bs_ptr b i),
                 bs_subs := filter (\<lambda>i. i \<notin> set is) (bs_subs b)\<rparr>"

definition cancelled_subs :: "Bus \<Rightarrow> nat list" where
  "cancelled_subs b = filter (\<lambda>i. su_cancelled (bs_ptr b i)) (bs_subs b)"

definition countDrop :: "nat \<Rightarrow> Bus \<Rightarrow> Bus" where
  "countDrop i = on_subscriber i (\<lambda>u. u\<lparr>su_dropped := su_dropped u + 1\<rparr>)"

definition Dropped :: "Bus \<Rightarrow> int" where
  "Dropped b = sum_list (map (\<lambda>i. su_dropped (bs_ptr b i)) (bs_subs b))"

definition Bus_Close :: "Bus \<Rightarrow> Bus" where
  "Bus_Close b = (if bs_closed b then b else shut (bs_subs b) (b\<lparr>bs_closed := True\<rparr>))"

section \<open>Publishing\<close>

text \<open>Where a call of \<^verbatim>\<open>Publish\<close> is after its locked part: about to send to the first of the subscribers
left, or about to count an event it could not place.\<close>

datatype publisher =
    Sending Event "nat list"
  | Counting nat Event "nat list"

definition publish_locked :: "Event \<Rightarrow> nat list \<Rightarrow> Bus \<Rightarrow> publisher \<times> Bus" where
  "publish_locked ev walk b =
     (if bs_closed b then (Sending ev [], b)
      else let b' = shut (cancelled_subs b) b in (Sending ev (filter (\<lambda>i. i \<in> set (bs_subs b')) walk), b'))"

text \<open>One send: the publisher afterwards and the bus, a panic, or nothing while it waits.\<close>

datatype sent = Panics | Waits | Moves publisher Bus

definition publish_send :: "Event \<Rightarrow> nat \<Rightarrow> nat list \<Rightarrow> Bus \<Rightarrow> sent" where
  "publish_send ev i rest b =
     (let u = bs_ptr b i in
      if su_shut u then Panics
      else if length (su_ch u) < su_room u
        then Moves (Sending ev rest) (on_subscriber i (\<lambda>u. u\<lparr>su_ch := su_ch u @ [ev]\<rparr>) b)
      else if isTerminal ev then Waits
      else Moves (Counting i ev rest) b)"

section \<open>A bus in use\<close>

text \<open>A bus, the calls of \<^verbatim>\<open>Publish\<close> under way, and what a proof keeps of the past: what each reader has
taken, and what was published while it was subscribed.\<close>

record BusRun =
  br_bus :: Bus
  br_pubs :: "publisher list"
  br_got :: "nat \<Rightarrow> Event list"
  br_due :: "nat \<Rightarrow> Event list"
  br_panicked :: bool

datatype bus_event =
    Subscribes
  | Cancels nat
  | Publishes Event "nat list"
  | Sends nat
  | GivesUp nat
  | Counts nat
  | Takes nat
  | Closes

definition bus_start :: "int \<Rightarrow> BusRun" where
  "bus_start buffer =
     \<lparr>br_bus = NewBus buffer, br_pubs = [], br_got = (\<lambda>_. []), br_due = (\<lambda>_. []), br_panicked = False\<rparr>"

fun publisher_left :: "publisher \<Rightarrow> nat list" where
  "publisher_left (Sending ev is) = is"
| "publisher_left (Counting i ev is) = i # is"

definition walks_map :: "Bus \<Rightarrow> nat list \<Rightarrow> bool" where
  "walks_map b walk \<longleftrightarrow> distinct walk \<and> set walk = set (bs_subs b)"

text \<open>\<open>None\<close> where a move is not possible; nothing happens in a program that has panicked.\<close>

fun bus_apply :: "BusRun \<Rightarrow> bus_event \<Rightarrow> BusRun option" where
  "bus_apply s Subscribes = Some (s\<lparr>br_bus := snd (Subscribe (br_bus s))\<rparr>)"
| "bus_apply s (Cancels i) = Some (s\<lparr>br_bus := unsubscribe i (br_bus s)\<rparr>)"
| "bus_apply s (Publishes ev walk) =
     (if \<not> walks_map (br_bus s) walk then None
      else case publish_locked ev walk (br_bus s) of (p, b) \<Rightarrow>
        Some (s\<lparr>br_bus := b, br_pubs := br_pubs s @ [p],
                br_due := (\<lambda>i. br_due s i @ (if i \<in> set (publisher_left p) then [ev] else []))\<rparr>))"
| "bus_apply s (Sends k) =
     (if length (br_pubs s) \<le> k then None
      else case br_pubs s ! k of
        Sending ev (i # rest) \<Rightarrow>
          (case publish_send ev i rest (br_bus s) of
             Panics \<Rightarrow> Some (s\<lparr>br_panicked := True\<rparr>)
           | Waits \<Rightarrow> None
           | Moves p b \<Rightarrow> Some (s\<lparr>br_bus := b, br_pubs := (br_pubs s)[k := p]\<rparr>))
      | _ \<Rightarrow> None)"
| "bus_apply s (GivesUp k) =
     (if length (br_pubs s) \<le> k then None
      else case br_pubs s ! k of
        Sending ev (i # rest) \<Rightarrow>
          (if isTerminal ev then Some (s\<lparr>br_pubs := (br_pubs s)[k := Counting i ev rest]\<rparr>) else None)
      | _ \<Rightarrow> None)"
| "bus_apply s (Counts k) =
     (if length (br_pubs s) \<le> k then None
      else case br_pubs s ! k of
        Counting i ev rest \<Rightarrow>
          Some (s\<lparr>br_bus := countDrop i (br_bus s), br_pubs := (br_pubs s)[k := Sending ev rest]\<rparr>)
      | _ \<Rightarrow> None)"
| "bus_apply s (Takes i) =
     (case su_ch (bs_ptr (br_bus s) i) of
        [] \<Rightarrow> None
      | ev # evs \<Rightarrow>
          Some (s\<lparr>br_bus := on_subscriber i (\<lambda>u. u\<lparr>su_ch := evs\<rparr>) (br_bus s),
                  br_got := (br_got s)(i := br_got s i @ [ev])\<rparr>))"
| "bus_apply s Closes = Some (s\<lparr>br_bus := Bus_Close (br_bus s)\<rparr>)"

definition bus_step :: "BusRun \<Rightarrow> bus_event \<Rightarrow> BusRun option" where
  "bus_step s e = (if br_panicked s then None else bus_apply s e)"

fun bus_run :: "BusRun \<Rightarrow> bus_event list \<Rightarrow> BusRun option" where
  "bus_run s [] = Some s"
| "bus_run s (e # es) = (case bus_step s e of None \<Rightarrow> None | Some s' \<Rightarrow> bus_run s' es)"

text \<open>A call of \<^verbatim>\<open>Publish\<close> that has returned.\<close>

definition returned :: "publisher \<Rightarrow> bool" where
  "returned p \<longleftrightarrow> publisher_left p = []"

end
