(* ===== verification/BusLaws.thy ===== *)
theory BusLaws
  imports EventBus
begin

text \<open>
  What the bus promises: every event published to a subscriber is taken, buffered, still to be offered or
  counted as dropped, whatever the order of the moves; it does not panic as long as nothing is closed under a
  call of \<^verbatim>\<open>Publish\<close>; and a single publisher is heard in order.
\<close>

section \<open>Publishers\<close>

fun waits_for :: "nat \<Rightarrow> publisher \<Rightarrow> Event list" where
  "waits_for i (Sending ev is) = (if i \<in> set is then [ev] else [])"
| "waits_for i (Counting j ev is) = (if i \<in> set is then [ev] else [])"

fun counts_for :: "nat \<Rightarrow> publisher \<Rightarrow> bool" where
  "counts_for i (Sending ev is) = False"
| "counts_for i (Counting j ev is) = (j = i)"

definition offered :: "BusRun \<Rightarrow> nat \<Rightarrow> Event list" where
  "offered s i = concat (map (waits_for i) (br_pubs s))"

definition uncounted :: "BusRun \<Rightarrow> nat \<Rightarrow> int" where
  "uncounted s i = int (length (filter (counts_for i) (br_pubs s)))"

lemma returned_waits [simp]: "returned p \<Longrightarrow> waits_for i p = []" "returned p \<Longrightarrow> \<not> counts_for i p"
  by (cases p; simp add: returned_def)+

lemma all_returned_offered: "list_all returned (br_pubs s) \<Longrightarrow> offered s i = [] \<and> uncounted s i = 0"
  by (auto simp: offered_def uncounted_def list_all_iff filter_empty_conv)

lemma at_publisher:
  assumes "k < length ps"
  obtains qs rs where "ps = qs @ ps ! k # rs" "\<And>p. ps[k := p] = qs @ p # rs"
  using assms by (metis id_take_nth_drop upd_conv_take_nth_drop)

lemma bus_step_cases:
  assumes "bus_step s e = Some s'"
  obtains
    (subscribe) "e = Subscribes" "s' = s\<lparr>br_bus := snd (Subscribe (br_bus s))\<rparr>"
  | (cancel) i where "e = Cancels i" "s' = s\<lparr>br_bus := unsubscribe i (br_bus s)\<rparr>"
  | (publish) ev walk p b where "e = Publishes ev walk" "walks_map (br_bus s) walk"
      "publish_locked ev walk (br_bus s) = (p, b)"
      "s' = s\<lparr>br_bus := b, br_pubs := br_pubs s @ [p],
             br_due := (\<lambda>i. br_due s i @ (if i \<in> set (publisher_left p) then [ev] else []))\<rparr>"
  | (panic) k ev i rest qs rs where "e = Sends k" "br_pubs s = qs @ Sending ev (i # rest) # rs"
      "su_shut (bs_ptr (br_bus s) i)" "s' = s\<lparr>br_panicked := True\<rparr>"
  | (send) k ev i rest qs rs where "e = Sends k" "br_pubs s = qs @ Sending ev (i # rest) # rs"
      "\<not> su_shut (bs_ptr (br_bus s) i)" "length (su_ch (bs_ptr (br_bus s) i)) < su_room (bs_ptr (br_bus s) i)"
      "s' = s\<lparr>br_bus := on_subscriber i (\<lambda>u. u\<lparr>su_ch := su_ch u @ [ev]\<rparr>) (br_bus s),
             br_pubs := qs @ Sending ev rest # rs\<rparr>"
  | (give_up) k ev i rest qs rs where "br_pubs s = qs @ Sending ev (i # rest) # rs"
      "s' = s\<lparr>br_pubs := qs @ Counting i ev rest # rs\<rparr>" "e = Sends k \<and> \<not> isTerminal ev \<or> e = GivesUp k \<and> isTerminal ev"
  | (counted) k ev i rest qs rs where "e = Counts k" "br_pubs s = qs @ Counting i ev rest # rs"
      "s' = s\<lparr>br_bus := countDrop i (br_bus s), br_pubs := qs @ Sending ev rest # rs\<rparr>"
  | (taken) i ev evs where "e = Takes i" "su_ch (bs_ptr (br_bus s) i) = ev # evs"
      "s' = s\<lparr>br_bus := on_subscriber i (\<lambda>u. u\<lparr>su_ch := evs\<rparr>) (br_bus s),
             br_got := (br_got s)(i := br_got s i @ [ev])\<rparr>"
  | (closed) "e = Closes" "s' = s\<lparr>br_bus := Bus_Close (br_bus s)\<rparr>"
proof -
  have a: "bus_apply s e = Some s'" using assms by (simp add: bus_step_def split: if_splits)
  show thesis
  proof (cases e)
    case (Sends k)
    with a have k: "k < length (br_pubs s)" by (simp split: if_splits)
    obtain qs rs where q: "br_pubs s = qs @ br_pubs s ! k # rs" "\<And>p. (br_pubs s)[k := p] = qs @ p # rs"
      using at_publisher [OF k] by blast
    from a Sends k obtain ev i rest where n: "br_pubs s ! k = Sending ev (i # rest)"
      by (auto split: publisher.splits list.splits)
    note q1 = q(1) [unfolded n]
    from a Sends k n q(2) show thesis
      by (auto simp: publish_send_def Let_def split: if_splits
          intro: panic [OF Sends q1] send [OF Sends q1] give_up [OF q1])
  next
    case (GivesUp k)
    with a have k: "k < length (br_pubs s)" by (simp split: if_splits)
    obtain qs rs where q: "br_pubs s = qs @ br_pubs s ! k # rs" "\<And>p. (br_pubs s)[k := p] = qs @ p # rs"
      using at_publisher [OF k] by blast
    from a GivesUp k obtain ev i rest where n: "br_pubs s ! k = Sending ev (i # rest)"
      by (auto split: publisher.splits list.splits)
    from a GivesUp k n q show thesis by (auto split: if_splits intro: give_up)
  next
    case (Counts k)
    with a have k: "k < length (br_pubs s)" by (simp split: if_splits)
    obtain qs rs where q: "br_pubs s = qs @ br_pubs s ! k # rs" "\<And>p. (br_pubs s)[k := p] = qs @ p # rs"
      using at_publisher [OF k] by blast
    from a Counts k obtain ev i rest where n: "br_pubs s ! k = Counting i ev rest"
      by (auto split: publisher.splits)
    from a Counts k n q show thesis by (auto intro: counted)
  next
    case (Publishes ev walk)
    with a show thesis by (auto split: if_splits prod.splits intro: publish)
  next
    case (Takes i)
    with a show thesis by (auto split: list.splits intro: taken)
  qed (use a in \<open>auto intro: subscribe cancel closed\<close>)
qed

section \<open>Every event is accounted for\<close>

definition accounted :: "(Event \<Rightarrow> bool) \<Rightarrow> BusRun \<Rightarrow> nat \<Rightarrow> bool" where
  "accounted Q s i \<longleftrightarrow>
     (\<exists>lost. mset (br_due s i) =
               mset (br_got s i) + mset (su_ch (bs_ptr (br_bus s) i)) + mset (offered s i) + lost \<and>
             int (size lost) = su_dropped (bs_ptr (br_bus s) i) + uncounted s i \<and> (\<forall>ev \<in># lost. Q ev))"

definition bus_ok :: "(Event \<Rightarrow> bool) \<Rightarrow> BusRun \<Rightarrow> bool" where
  "bus_ok Q s \<longleftrightarrow>
     (\<forall>i. accounted Q s i \<and> length (su_ch (bs_ptr (br_bus s) i)) \<le> bs_buffer (br_bus s)
          \<and> su_room (bs_ptr (br_bus s) i) \<le> bs_buffer (br_bus s)) \<and>
     distinct (bs_subs (br_bus s)) \<and>
     (\<forall>i \<in> set (bs_subs (br_bus s)). i < bs_nextID (br_bus s) \<and> \<not> su_shut (bs_ptr (br_bus s) i)) \<and>
     (\<forall>i \<ge> bs_nextID (br_bus s). br_due s i = [] \<and> bs_ptr (br_bus s) i = no_subscriber) \<and>
     (\<forall>p \<in> set (br_pubs s). distinct (publisher_left p) \<and> (\<forall>i \<in> set (publisher_left p). i < bs_nextID (br_bus s)))"

lemmas bus_simps = on_subscriber_def countDrop_def shut_def offered_def uncounted_def no_subscriber_def


lemma accounted_cong:
  assumes "accounted Q s i" "br_due s' i = br_due s i" "br_got s' i = br_got s i"
    "su_ch (bs_ptr (br_bus s') i) = su_ch (bs_ptr (br_bus s) i)"
    "su_dropped (bs_ptr (br_bus s') i) = su_dropped (bs_ptr (br_bus s) i)" "br_pubs s' = br_pubs s"
  shows "accounted Q s' i"
  using assms by (simp add: accounted_def offered_def uncounted_def)

lemma bus_ok_accounted: "bus_ok Q s \<Longrightarrow> accounted Q s i"
  by (simp add: bus_ok_def)

lemma bus_start_ok: "bus_ok Q (bus_start n)"
  by (auto simp: bus_ok_def bus_start_def NewBus_def accounted_def bus_simps)

lemma subscribe_ok:
  assumes "bus_ok Q s" shows "bus_ok Q (s\<lparr>br_bus := snd (Subscribe (br_bus s))\<rparr>)"
proof -
  let ?s' = "s\<lparr>br_bus := snd (Subscribe (br_bus s))\<rparr>"
  have "accounted Q ?s' i" for i
    by (rule accounted_cong [of _ s]) (use assms bus_ok_accounted [OF assms] in \<open>auto simp: bus_ok_def Subscribe_def Let_def on_subscriber_def no_subscriber_def\<close>)
  moreover have "bs_nextID (br_bus s) \<notin> set (bs_subs (br_bus s))" using assms by (auto simp: bus_ok_def)
  ultimately show ?thesis using assms unfolding bus_ok_def
    by (auto simp: Subscribe_def Let_def on_subscriber_def no_subscriber_def less_Suc_eq)
qed

lemma unsubscribe_ok:
  assumes "bus_ok Q s" shows "bus_ok Q (s\<lparr>br_bus := unsubscribe i (br_bus s)\<rparr>)"
proof -
  let ?s' = "s\<lparr>br_bus := unsubscribe i (br_bus s)\<rparr>"
  have "accounted Q ?s' j" for j
    by (rule accounted_cong [of _ s]) (use assms in \<open>auto simp: bus_ok_def unsubscribe_def bus_simps\<close>)
  then show ?thesis using assms by (auto simp: bus_ok_def unsubscribe_def bus_simps)
qed

lemma shut_ok:
  assumes "bus_ok Q s" "set is \<subseteq> set (bs_subs (br_bus s))" "br_bus s' = shut is (br_bus s)"
    "br_pubs s' = br_pubs s" "br_got s' = br_got s" "br_due s' = br_due s"
  shows "bus_ok Q s'"
proof -
  have "accounted Q s' j" for j
    by (rule accounted_cong [of _ s]) (use assms in \<open>auto simp: bus_ok_def shut_def\<close>)
  then show ?thesis using assms unfolding bus_ok_def by (auto simp: shut_def no_subscriber_def) fastforce+
qed

lemma close_ok:
  assumes "bus_ok Q s" shows "bus_ok Q (s\<lparr>br_bus := Bus_Close (br_bus s)\<rparr>)"
proof (cases "bs_closed (br_bus s)")
  case False
  let ?t = "s\<lparr>br_bus := (br_bus s)\<lparr>bs_closed := True\<rparr>\<rparr>"
  have "accounted Q ?t j" for j
    by (rule accounted_cong [of _ s]) (use assms in \<open>auto simp: bus_ok_def\<close>)
  then have "bus_ok Q ?t" using assms by (simp add: bus_ok_def)
  then show ?thesis by (rule shut_ok [of _ _ "bs_subs (br_bus s)"]) (use False in \<open>simp_all add: Bus_Close_def\<close>)
qed (use assms in \<open>simp add: Bus_Close_def\<close>)

lemma publish_ok:
  assumes ok: "bus_ok Q s" and w: "walks_map (br_bus s) walk"
    and p: "publish_locked ev walk (br_bus s) = (p, b)"
  shows "bus_ok Q (s\<lparr>br_bus := b, br_pubs := br_pubs s @ [p],
             br_due := (\<lambda>i. br_due s i @ (if i \<in> set (publisher_left p) then [ev] else []))\<rparr>)"
    and "bs_subs b = filter (\<lambda>i. i \<in> set (bs_subs b)) (bs_subs (br_bus s))"
    and "\<exists>xs. p = Sending ev xs" "set (publisher_left p) \<subseteq> set (bs_subs b)"
proof -
  let ?t = "s\<lparr>br_bus := b\<rparr>"
  have "\<exists>xs. p = Sending ev xs \<and> distinct xs \<and> set xs \<subseteq> set (bs_subs b)"
    using p w by (auto simp: publish_locked_def walks_map_def Let_def split: if_splits)
  then obtain xs where x: "p = Sending ev xs" "distinct xs" "set xs \<subseteq> set (bs_subs b)" by blast
  then show "\<exists>xs. p = Sending ev xs" "set (publisher_left p) \<subseteq> set (bs_subs b)" by simp_all
  have t: "bus_ok Q ?t"
  proof (cases "bs_closed (br_bus s)")
    case False
    show ?thesis by (rule shut_ok [OF ok, of "cancelled_subs (br_bus s)"])
        (use p False in \<open>auto simp: publish_locked_def Let_def cancelled_subs_def\<close>)
  next
    case True
    with p have "b = br_bus s" by (simp add: publish_locked_def)
    with ok show ?thesis by simp
  qed
  have lt: "\<forall>i \<in> set xs. i < bs_nextID b" using t x(3) unfolding bus_ok_def by (auto dest: subsetD)
  have "accounted Q (s\<lparr>br_bus := b, br_pubs := br_pubs s @ [p],
             br_due := (\<lambda>i. br_due s i @ (if i \<in> set xs then [ev] else []))\<rparr>) j" for j
    using bus_ok_accounted [OF t, of j] x(1) by (auto simp: accounted_def offered_def uncounted_def)
  then show "bus_ok Q (s\<lparr>br_bus := b, br_pubs := br_pubs s @ [p],
             br_due := (\<lambda>i. br_due s i @ (if i \<in> set (publisher_left p) then [ev] else []))\<rparr>)"
    using t x lt unfolding bus_ok_def by auto
  show "bs_subs b = filter (\<lambda>i. i \<in> set (bs_subs b)) (bs_subs (br_bus s))"
    using p by (auto simp: publish_locked_def Let_def shut_def cancelled_subs_def filter_id_conv intro!: filter_cong split: if_splits)
qed

lemma send_ok:
  assumes ok: "bus_ok Q s" and q: "br_pubs s = qs @ Sending ev (i # rest) # rs"
    and room: "length (su_ch (bs_ptr (br_bus s) i)) < su_room (bs_ptr (br_bus s) i)"
  shows "bus_ok Q (s\<lparr>br_bus := on_subscriber i (\<lambda>u. u\<lparr>su_ch := su_ch u @ [ev]\<rparr>) (br_bus s),
             br_pubs := qs @ Sending ev rest # rs\<rparr>)" (is "bus_ok Q ?s'")
proof -
  have i: "i \<notin> set rest" "i < bs_nextID (br_bus s)" using ok q by (auto simp: bus_ok_def)
  have "accounted Q ?s' j" for j
    using bus_ok_accounted [OF ok, of j] q i(1)
    by (cases "j = i") (auto simp: accounted_def on_subscriber_def offered_def uncounted_def)
  then show ?thesis using ok q i room unfolding bus_ok_def
    by (auto simp: on_subscriber_def) (metis Suc_leI order_trans)+
qed

lemma give_up_ok:
  assumes ok: "bus_ok Q s" and q: "br_pubs s = qs @ Sending ev (i # rest) # rs" and ev: "Q ev"
  shows "bus_ok Q (s\<lparr>br_pubs := qs @ Counting i ev rest # rs\<rparr>)" (is "bus_ok Q ?s'")
proof -
  have i: "i \<notin> set rest" using ok q by (auto simp: bus_ok_def)
  have "accounted Q ?s' j" for j
  proof (cases "j = i")
    case True
    obtain lost where l: "mset (br_due s i) = mset (br_got s i) + mset (su_ch (bs_ptr (br_bus s) i)) + mset (offered s i) + lost"
        "int (size lost) = su_dropped (bs_ptr (br_bus s) i) + uncounted s i" "\<forall>ev \<in># lost. Q ev"
      using bus_ok_accounted [OF ok, of i] unfolding accounted_def by blast
    show ?thesis unfolding accounted_def
      by (rule exI [of _ "add_mset ev lost"]) (use l q i True ev in \<open>auto simp: offered_def uncounted_def\<close>)
  qed (use bus_ok_accounted [OF ok, of j] q in \<open>auto simp: accounted_def offered_def uncounted_def\<close>)
  then show ?thesis using ok q unfolding bus_ok_def by auto
qed

lemma counted_ok:
  assumes ok: "bus_ok Q s" and q: "br_pubs s = qs @ Counting i ev rest # rs"
  shows "bus_ok Q (s\<lparr>br_bus := countDrop i (br_bus s), br_pubs := qs @ Sending ev rest # rs\<rparr>)" (is "bus_ok Q ?s'")
proof -
  have i: "i < bs_nextID (br_bus s)" using ok q by (auto simp: bus_ok_def)
  have "accounted Q ?s' j" for j
    using bus_ok_accounted [OF ok, of j] q
    by (cases "j = i") (auto simp: accounted_def countDrop_def on_subscriber_def offered_def uncounted_def)
  then show ?thesis using ok q i unfolding bus_ok_def by (auto simp: on_subscriber_def countDrop_def)
qed

lemma taken_ok:
  assumes ok: "bus_ok Q s" and c: "su_ch (bs_ptr (br_bus s) i) = ev # evs"
  shows "bus_ok Q (s\<lparr>br_bus := on_subscriber i (\<lambda>u. u\<lparr>su_ch := evs\<rparr>) (br_bus s),
             br_got := (br_got s)(i := br_got s i @ [ev])\<rparr>)" (is "bus_ok Q ?s'")
proof -
  have "bs_ptr (br_bus s) i \<noteq> no_subscriber" using c by (auto simp: no_subscriber_def)
  then have i: "i < bs_nextID (br_bus s)" using ok unfolding bus_ok_def by (meson not_less)
  have "accounted Q ?s' j" for j
    using bus_ok_accounted [OF ok, of j] c
    by (cases "j = i") (auto simp: accounted_def on_subscriber_def offered_def uncounted_def)
  moreover have "length evs \<le> bs_buffer (br_bus s)" using ok c unfolding bus_ok_def by (metis Suc_leD length_Cons)
  ultimately show ?thesis using ok i unfolding bus_ok_def by (auto simp: on_subscriber_def)
qed

lemma bus_step_ok:
  assumes "bus_step s e = Some s'" "bus_ok Q s" "\<And>ev. \<not> isTerminal ev \<Longrightarrow> Q ev"
    "\<And>k ev. e = GivesUp k \<Longrightarrow> Q ev"
  shows "bus_ok Q s'"
  using assms(1)
proof (cases rule: bus_step_cases)
  case panic
  have "accounted Q s' j" for j
    by (rule accounted_cong [of _ s]) (use assms(2) panic in \<open>auto simp: bus_ok_def\<close>)
  with panic assms(2) show ?thesis by (simp add: bus_ok_def)
next
  case (give_up k ev i rest qs rs)
  with assms(3,4) have "Q ev" by blast
  with give_up assms(2) show ?thesis by (auto intro: give_up_ok)
qed (use assms(2) in \<open>auto intro: subscribe_ok unsubscribe_ok publish_ok send_ok counted_ok taken_ok close_ok\<close>)

lemma bus_run_keeps:
  assumes "bus_run s es = Some s'" "P s" "\<And>s e s'. bus_step s e = Some s' \<Longrightarrow> e \<in> set es \<Longrightarrow> P s \<Longrightarrow> P s'"
  shows "P s'"
  using assms by (induction s es rule: bus_run.induct) (auto split: option.splits)

lemma buffer_kept:
  assumes "bus_step s e = Some s'" shows "bs_buffer (br_bus s') = bs_buffer (br_bus s)"
  using assms by (cases rule: bus_step_cases)
    (auto simp: on_subscriber_def countDrop_def shut_def Subscribe_def unsubscribe_def Bus_Close_def publish_locked_def Let_def
      split: if_splits)

section \<open>Nothing is closed under a sender\<close>

text \<open>Moves that close a channel only when every call of \<^verbatim>\<open>Publish\<close> has returned: the bus itself, and in
\<^verbatim>\<open>Publish\<close> the subscribers that were cancelled.\<close>

fun careful :: "BusRun \<Rightarrow> bus_event list \<Rightarrow> bool" where
  "careful s [] \<longleftrightarrow> True"
| "careful s (e # es) \<longleftrightarrow>
     (case e of
        Publishes ev walk \<Rightarrow> list_all returned (br_pubs s) \<or> cancelled_subs (br_bus s) = []
      | Closes \<Rightarrow> list_all returned (br_pubs s)
      | _ \<Rightarrow> True) \<and>
     (case bus_step s e of None \<Rightarrow> True | Some s' \<Rightarrow> careful s' es)"

definition open_ahead :: "BusRun \<Rightarrow> bool" where
  "open_ahead s \<longleftrightarrow> bus_ok (\<lambda>_. True) s \<and> \<not> br_panicked s \<and>
     (\<forall>p \<in> set (br_pubs s). \<forall>i \<in> set (publisher_left p). \<not> su_shut (bs_ptr (br_bus s) i))"

lemma shut_none: "shut [] b = b"
  by (simp add: shut_def)

lemma open_step:
  assumes step: "bus_step s e = Some s'" and ok: "open_ahead s" and c: "careful s (e # es)"
  shows "open_ahead s'"
proof -
  have b: "bus_ok (\<lambda>_. True) s'" by (rule bus_step_ok [OF step]) (use ok in \<open>simp_all add: open_ahead_def\<close>)
  show ?thesis using step
  proof (cases rule: bus_step_cases)
    case subscribe
    with ok b show ?thesis
      by (auto simp: open_ahead_def bus_ok_def Subscribe_def Let_def on_subscriber_def no_subscriber_def)
  next
    case (publish ev walk p b')
    note facts = publish_ok [OF conjunct1 [OF ok [unfolded open_ahead_def]] publish(2,3)]
    have "\<not> su_shut (bs_ptr b' i)" if "i \<in> set (publisher_left p)" for i
      using facts(1,4) that unfolding bus_ok_def by auto
    moreover have "\<not> su_shut (bs_ptr b' i)" if "q \<in> set (br_pubs s)" "i \<in> set (publisher_left q)" for q i
    proof -
      have "cancelled_subs (br_bus s) = []" using c publish(1) that by (auto simp: list_all_iff returned_def)
      then have "b' = br_bus s" using publish(3) by (auto simp: publish_locked_def Let_def shut_none split: if_splits)
      with ok that show ?thesis by (auto simp: open_ahead_def)
    qed
    ultimately show ?thesis using b publish(4) ok by (auto simp: open_ahead_def)
  next
    case closed
    with c ok b show ?thesis by (auto simp: open_ahead_def list_all_iff returned_def)
  next
    case (panic k ev i rest qs rs)
    with ok show ?thesis by (auto simp: open_ahead_def)
  qed (use b ok in \<open>auto simp: open_ahead_def unsubscribe_def on_subscriber_def countDrop_def\<close>)
qed

lemma careful_open:
  assumes "bus_run s es = Some s'" "open_ahead s" "careful s es"
  shows "open_ahead s'"
  using assms
proof (induction s es rule: bus_run.induct)
  case (2 s e es)
  then show ?case using open_step [of s e _ es] by (auto split: option.splits)
qed simp

section \<open>One publisher at a time\<close>

fun alone :: "BusRun \<Rightarrow> bus_event list \<Rightarrow> bool" where
  "alone s [] \<longleftrightarrow> True"
| "alone s (e # es) \<longleftrightarrow>
     (case e of Publishes ev walk \<Rightarrow> list_all returned (br_pubs s) | _ \<Rightarrow> True) \<and>
     (case bus_step s e of None \<Rightarrow> True | Some s' \<Rightarrow> alone s' es)"

definition in_order :: "BusRun \<Rightarrow> bool" where
  "in_order s \<longleftrightarrow> bus_ok (\<lambda>_. True) s \<and>
     (\<forall>i. subseq (br_got s i @ su_ch (bs_ptr (br_bus s) i) @ offered s i) (br_due s i)) \<and>
     length (filter (\<lambda>p. \<not> returned p) (br_pubs s)) \<le> 1"

lemma lone_publisher:
  assumes "length (filter (\<lambda>p. \<not> returned p) (qs @ q # rs)) \<le> 1" "\<not> returned q"
  shows "concat (map (waits_for i) qs) = []" "concat (map (waits_for i) rs) = []"
    "filter (\<lambda>p. \<not> returned p) qs = []" "filter (\<lambda>p. \<not> returned p) rs = []"
  using assms by (auto simp: filter_empty_conv)

lemma in_order_send:
  assumes ok: "in_order s" and q: "br_pubs s = qs @ q # rs" "\<not> returned q"
    and w: "\<And>j. waits_for j p = (if j = i then [] else waits_for j q)"
    and s': "br_pubs s' = qs @ p # rs" "br_due s' = br_due s" "br_got s' = br_got s" "bus_ok (\<lambda>_. True) s'"
    and ch: "\<And>j. j \<noteq> i \<Longrightarrow> su_ch (bs_ptr (br_bus s') j) = su_ch (bs_ptr (br_bus s) j)"
      "subseq (su_ch (bs_ptr (br_bus s') i)) (su_ch (bs_ptr (br_bus s) i) @ waits_for i q)"
  shows "in_order s'"
proof -
  have l: "length (filter (\<lambda>p. \<not> returned p) (qs @ q # rs)) \<le> 1" using ok q by (simp add: in_order_def)
  note lone = lone_publisher [OF l q(2)]
  have o: "offered s j = waits_for j q" "offered s' j = waits_for j p" for j
    using lone(1,2) [of j] unfolding offered_def q(1) s'(1) by (simp_all del: concat_eq_Nil_conv)
  have "subseq (br_got s' j @ su_ch (bs_ptr (br_bus s') j) @ offered s' j) (br_due s' j)" for j
  proof -
    have "subseq (br_got s j @ su_ch (bs_ptr (br_bus s) j) @ offered s j) (br_due s j)" using ok by (simp add: in_order_def)
    moreover have "subseq (br_got s' j @ su_ch (bs_ptr (br_bus s') j) @ offered s' j)
        (br_got s j @ su_ch (bs_ptr (br_bus s) j) @ offered s j)"
      using ch w s' by (cases "j = i") (auto simp: o intro: list_emb_append_mono)
    ultimately show ?thesis using s'(2) by (metis subseq_order.order_trans)
  qed
  then show ?thesis using lone(3,4) s' by (simp add: in_order_def)
qed

lemma in_order_step:
  assumes step: "bus_step s e = Some s'" and ok: "in_order s" and a: "alone s (e # es)"
  shows "in_order s'"
proof -
  have b: "bus_ok (\<lambda>_. True) s'" by (rule bus_step_ok [OF step]) (use ok in \<open>simp_all add: in_order_def\<close>)
  have left: "i \<notin> set rest" if "q = Sending ev (i # rest) \<or> q = Counting i ev rest" "q \<in> set (br_pubs s)" for q ev i rest
    using ok that by (auto simp: in_order_def bus_ok_def)
  show ?thesis using step
  proof (cases rule: bus_step_cases)
    case subscribe
    have "bs_ptr (br_bus s) (bs_nextID (br_bus s)) = no_subscriber" using ok by (auto simp: in_order_def bus_ok_def)
    then have "su_ch (bs_ptr (br_bus s') i) = su_ch (bs_ptr (br_bus s) i)" for i
      using subscribe by (simp add: Subscribe_def Let_def on_subscriber_def no_subscriber_def)
    with b ok subscribe show ?thesis by (simp add: in_order_def offered_def)
  next
    case (publish ev walk p b')
    have r: "list_all returned (br_pubs s)" using a publish(1) by simp
    obtain xs where x: "p = Sending ev xs" using publish(3) by (auto simp: publish_locked_def Let_def split: if_splits)
    have c: "su_ch (bs_ptr b' i) = su_ch (bs_ptr (br_bus s) i)" for i
      using publish(3) by (auto simp: publish_locked_def shut_def Let_def split: if_splits)
    have n: "filter (\<lambda>p. \<not> returned p) (br_pubs s) = []" using r by (auto simp: list_all_iff filter_empty_conv)
    have "subseq (br_got s i @ su_ch (bs_ptr (br_bus s) i)) (br_due s i)" for i
      using ok all_returned_offered [OF r] by (simp add: in_order_def)
    moreover have "offered s' i = waits_for i p" for i
      using all_returned_offered [OF r, of i] publish(4) unfolding offered_def by (simp del: concat_eq_Nil_conv)
    ultimately have "subseq (br_got s' i @ su_ch (bs_ptr (br_bus s') i) @ offered s' i) (br_due s' i)" for i
      using publish(4) x c by (auto simp flip: append_assoc intro: list_emb_append_mono)
    with b n publish(4) show ?thesis by (simp add: in_order_def)
  next
    case (send k ev i rest qs rs)
    then show ?thesis
      by (intro in_order_send [OF ok send(2) _ _ _ _ _ b, of _ i])
        (use left [of "Sending ev (i # rest)" ev i rest] in \<open>auto simp: returned_def on_subscriber_def\<close>)
  next
    case (give_up qs ev i rest rs)
    then show ?thesis
      by (intro in_order_send [OF ok give_up(1) _ _ _ _ _ b, of _ i])
        (use left [of "Sending ev (i # rest)" ev i rest] in \<open>auto simp: returned_def\<close>)
  next
    case (counted k ev i rest qs rs)
    then show ?thesis
      by (intro in_order_send [OF ok counted(2) _ _ _ _ _ b, of _ i])
        (use left [of "Counting i ev rest" ev i rest] in \<open>auto simp: returned_def on_subscriber_def countDrop_def\<close>)
  next
    case (taken i ev evs)
    have "br_got s' j @ su_ch (bs_ptr (br_bus s') j) @ offered s' j = br_got s j @ su_ch (bs_ptr (br_bus s) j) @ offered s j" for j
      using taken by (simp add: on_subscriber_def offered_def)
    with ok b taken show ?thesis by (simp add: in_order_def)
  qed (use b ok in \<open>auto simp: in_order_def offered_def unsubscribe_def on_subscriber_def Bus_Close_def shut_def\<close>)
qed

lemma alone_in_order:
  assumes "bus_run s es = Some s'" "in_order s" "alone s es"
  shows "in_order s'"
  using assms
proof (induction s es rule: bus_run.induct)
  case (2 s e es)
  then show ?case using in_order_step [of s e _ es] by (auto split: option.splits)
qed simp

section \<open>Properties\<close>

text \<open>C24: Every event published to a subscriber is accounted for, however publishers, readers, subscriptions and a
Close interleave: it was read, it is in the buffer, it is still to be offered, or it is one the bus counts (or
is about to count) as dropped. A buffer never holds more than the bus allows, a channel is closed once at most,
and a terminal event is dropped only when its wait expired.\<close>

theorem bus_accounts:
  assumes "bus_run (bus_start n) es = Some s"
  shows "(\<exists>lost. mset (br_due s i) =
             mset (br_got s i) + mset (su_ch (bs_ptr (br_bus s) i)) + mset (offered s i) + lost \<and>
           int (size lost) = su_dropped (bs_ptr (br_bus s) i) + uncounted s i \<and>
           ((\<forall>k. GivesUp k \<notin> set es) \<longrightarrow> (\<forall>ev \<in># lost. \<not> isTerminal ev))) \<and>
    length (su_ch (bs_ptr (br_bus s) i)) \<le> nat (if n \<le> 0 then 64 else n) \<and>
    (i \<in> set (bs_subs (br_bus s)) \<longrightarrow> \<not> su_shut (bs_ptr (br_bus s) i))"
proof -
  let ?Q = "\<lambda>ev. (\<forall>k. GivesUp k \<notin> set es) \<longrightarrow> \<not> isTerminal ev"
  have ok: "bus_ok ?Q s"
    by (rule bus_run_keeps [OF assms, of "bus_ok ?Q"]) (auto intro: bus_start_ok bus_step_ok)
  have "bs_buffer (br_bus s) = nat (if n \<le> 0 then 64 else n)"
    by (rule bus_run_keeps [OF assms])
      (auto simp: bus_start_def NewBus_def DefaultBuffer_def buffer_kept)
  then show ?thesis using ok unfolding bus_ok_def accounted_def by auto
qed

text \<open>C25: As long as channels are closed only when every call of Publish has returned, which holds of a bus whose
subscribers never cancel and which is closed after its publishers, no publisher ever sends on a closed channel.\<close>

theorem bus_no_panic:
  assumes "bus_run (bus_start n) es = Some s" "careful (bus_start n) es"
  shows "\<not> br_panicked s"
proof -
  have "open_ahead (bus_start n)" using bus_start_ok by (auto simp: open_ahead_def) (simp_all add: bus_start_def)
  from careful_open [OF assms(1) this assms(2)] show ?thesis by (simp add: open_ahead_def)
qed

text \<open>While one publisher at a time is at work, a subscriber hears its events in the order they were
published: what it has read, then what waits in its buffer, then what is still to be offered to it, is what was
published to it with some events left out.\<close>

theorem bus_in_order:
  assumes "bus_run (bus_start n) es = Some s" "alone (bus_start n) es"
  shows "subseq (br_got s i @ su_ch (bs_ptr (br_bus s) i) @ offered s i) (br_due s i)"
proof -
  have "in_order (bus_start n)"
    using bus_start_ok by (auto simp: in_order_def) (simp_all add: bus_start_def NewBus_def no_subscriber_def offered_def)
  from alone_in_order [OF assms(1) this assms(2)] show ?thesis by (simp add: in_order_def)
qed

section \<open>Small runs\<close>

definition tick_event :: "nat \<Rightarrow> Event" where
  "tick_event k = E_FileDone (int k) ''a.mkv'' 1 0 [] []"

definition failed_run :: Event where
  "failed_run = E_Failed (-1) [] [Plain []]"

text \<open>A bus with room for one event: the second is dropped, the terminal one waits until the reader has read.\<close>

definition demo_moves :: "bus_event list" where
  "demo_moves = [Subscribes, Publishes (tick_event 0) [0], Sends 0, Publishes (tick_event 1) [0], Sends 1, Counts 1,
     Publishes failed_run [0], Takes 0, Sends 2, Takes 0, Closes]"

lemmas bus_eval = bus_start_def NewBus_def demo_moves_def bus_step_def Subscribe_def on_subscriber_def no_subscriber_def
  walks_map_def publish_locked_def cancelled_subs_def shut_none publish_send_def tick_event_def failed_run_def isTerminal_def
  countDrop_def Bus_Close_def shut_def unsubscribe_def Let_def returned_def

lemma demo_bus:
  "\<exists>s. bus_run (bus_start 1) demo_moves = Some s \<and> br_got s 0 = [tick_event 0, failed_run] \<and>
     br_due s 0 = [tick_event 0, tick_event 1, failed_run] \<and> su_dropped (bs_ptr (br_bus s) 0) = 1 \<and>
     careful (bus_start 1) demo_moves \<and> alone (bus_start 1) demo_moves"
  by (simp add: bus_eval)

lemma bus_accounts_witness:
  "\<exists>s lost. bus_run (bus_start 1) demo_moves = Some s \<and>
     mset [tick_event 0, tick_event 1, failed_run] = mset [tick_event 0, failed_run] + lost \<and> (\<forall>ev \<in># lost. \<not> isTerminal ev)"
proof -
  obtain s where s: "bus_run (bus_start 1) demo_moves = Some s" "br_got s 0 = [tick_event 0, failed_run]"
    "br_due s 0 = [tick_event 0, tick_event 1, failed_run]" using demo_bus by blast
  have "offered s 0 = []" "su_ch (bs_ptr (br_bus s) 0) = []"
    using s(1) by (auto simp: bus_eval offered_def)
  moreover have "\<forall>k. GivesUp k \<notin> set demo_moves" by (simp add: demo_moves_def)
  ultimately show ?thesis using bus_accounts [OF s(1), of 0] s by auto
qed

lemma bus_no_panic_witness: "\<exists>s. bus_run (bus_start 1) demo_moves = Some s \<and> \<not> br_panicked s"
  using demo_bus bus_no_panic [of 1 demo_moves] by blast

lemma bus_in_order_witness:
  "\<exists>s. bus_run (bus_start 1) demo_moves = Some s \<and> subseq (br_got s 0) (br_due s 0)"
proof -
  obtain s where s: "bus_run (bus_start 1) demo_moves = Some s" "alone (bus_start 1) demo_moves" using demo_bus by blast
  have "offered s 0 = []" "su_ch (bs_ptr (br_bus s) 0) = []"
    using s(1) by (auto simp: bus_eval offered_def)
  with bus_in_order [OF s, of 0] s(1) show ?thesis by auto
qed

text \<open>Two ways to a panic. A publisher that took its snapshot before the bus was closed sends on a closed
channel; and one publisher closes the channel of a subscriber that cancelled while another, with an older
snapshot, is about to send to it.\<close>

lemma late_send_panics:
  "\<exists>s. bus_run (bus_start 1) [Subscribes, Publishes (tick_event 0) [0], Closes, Sends 0] = Some s \<and> br_panicked s"
  by (simp add: bus_eval)

lemma cancelled_send_panics:
  "\<exists>s. bus_run (bus_start 1)
         [Subscribes, Publishes (tick_event 0) [0], Cancels 0, Publishes (tick_event 1) [0], Sends 0] = Some s \<and> br_panicked s"
  by (simp add: bus_eval)

text \<open>What \<^verbatim>\<open>Dropped\<close> reports forgets a subscriber as soon as it is taken out of the map.\<close>

lemma closed_reports_none: "Dropped (Bus_Close b) = 0" if "\<not> bs_closed b"
  using that by (simp add: Dropped_def Bus_Close_def shut_def filter_False)

end
