(* ===== verification/Hub.thy ===== *)
theory Hub
  imports Prelude "HOL-Library.Sublist"
begin

text \<open>
  \<^verbatim>\<open>internal/web/hub.go\<close>: the hub that hands encoded messages to every connected browser and replays
  them to one that connects later. Every operation is one critical section. A connection is addressed by the
  number of its subscription; its queue is the list of messages in it and whether the channel is closed. Runs are
  a map from their ids to their histories, walked in the order these opened.
\<close>

section \<open>The hub\<close>

record Record =
  re_data :: string
  re_progress :: bool
  re_file :: int

record runHistory =
  rh_records :: "Record list"
  rh_progressAt :: "int \<Rightarrow> nat option"

record client =
  cl_out :: "string list"
  cl_shut :: bool

record hub =
  hb_head :: Record
  hb_runs :: "string \<Rightarrow> runHistory option"
  hb_order :: "string list"
  hb_client :: "nat \<Rightarrow> client"
  hb_clients :: "nat list"
  hb_minted :: nat
  hb_closed :: bool

definition clientBuffer :: nat where
  "clientBuffer = 512"

definition newHub :: "Record \<Rightarrow> hub" where
  "newHub head =
     \<lparr>hb_head = head, hb_runs = Map.empty, hb_order = [], hb_client = (\<lambda>_. \<lparr>cl_out = [], cl_shut = False\<rparr>),
      hb_clients = [], hb_minted = 0, hb_closed = False\<rparr>"

definition on_client :: "nat \<Rightarrow> (client \<Rightarrow> client) \<Rightarrow> hub \<Rightarrow> hub" where
  "on_client c g h = h\<lparr>hb_client := (hb_client h)(c := g (hb_client h c))\<rparr>"

definition history :: "hub \<Rightarrow> string \<Rightarrow> Record list" where
  "history h run = (case hb_runs h run of None \<Rightarrow> [] | Some rh \<Rightarrow> rh_records rh)"

text \<open>A closed hub hands back a closed queue and no backlog.\<close>

definition hub_subscribe :: "hub \<Rightarrow> nat \<times> string list \<times> hub" where
  "hub_subscribe h =
     (let c = hb_minted h;
          h' = (on_client c (\<lambda>_. \<lparr>cl_out = [], cl_shut = hb_closed h\<rparr>) h)\<lparr>hb_minted := c + 1\<rparr> in
      if hb_closed h then (c, [], h')
      else (c, re_data (hb_head h) # concat (map (\<lambda>run. map re_data (history h run)) (hb_order h)),
            h'\<lparr>hb_clients := c # hb_clients h'\<rparr>))"

definition dropLocked :: "nat \<Rightarrow> hub \<Rightarrow> hub" where
  "dropLocked c h =
     (if c \<notin> set (hb_clients h) then h
      else (on_client c (\<lambda>u. u\<lparr>cl_shut := True\<rparr>) h)\<lparr>hb_clients := removeAll c (hb_clients h)\<rparr>)"

definition hub_remove :: "nat \<Rightarrow> hub \<Rightarrow> hub" where
  "hub_remove c h = dropLocked c h"

definition history_add :: "Record \<Rightarrow> runHistory \<Rightarrow> runHistory" where
  "history_add rec rh =
     (case rh_progressAt rh (re_file rec) of
        Some at \<Rightarrow>
          if re_progress rec then rh\<lparr>rh_records := (rh_records rh)[at := rec]\<rparr>
          else rh\<lparr>rh_records := rh_records rh @ [rec]\<rparr>
      | None \<Rightarrow>
          if re_progress rec
          then rh\<lparr>rh_records := rh_records rh @ [rec],
                  rh_progressAt := (rh_progressAt rh)(re_file rec \<mapsto> length (rh_records rh))\<rparr>
          else rh\<lparr>rh_records := rh_records rh @ [rec]\<rparr>)"

definition appendLocked :: "string \<Rightarrow> Record \<Rightarrow> hub \<Rightarrow> hub" where
  "appendLocked run rec h =
     (case hb_runs h run of
        None \<Rightarrow> h
      | Some rh \<Rightarrow> h\<lparr>hb_runs := (hb_runs h)(run \<mapsto> history_add rec rh)\<rparr>)"

text \<open>One message to one connection; one whose queue is full is dropped.\<close>

definition offer :: "Record \<Rightarrow> nat \<Rightarrow> hub \<Rightarrow> hub" where
  "offer rec c h =
     (if length (cl_out (hb_client h c)) < clientBuffer
      then on_client c (\<lambda>u. u\<lparr>cl_out := cl_out u @ [re_data rec]\<rparr>) h
      else dropLocked c h)"

definition broadcastLocked :: "Record \<Rightarrow> hub \<Rightarrow> hub" where
  "broadcastLocked rec h = fold (offer rec) (hb_clients h) h"

definition hub_begin :: "string \<Rightarrow> Record \<Rightarrow> hub \<Rightarrow> hub" where
  "hub_begin run rec h =
     (if hb_closed h then h
      else
        let h' = (if hb_runs h run = None
                  then h\<lparr>hb_runs := (hb_runs h)(run \<mapsto> \<lparr>rh_records = [], rh_progressAt = Map.empty\<rparr>),
                         hb_order := hb_order h @ [run]\<rparr>
                  else h)
        in broadcastLocked rec (appendLocked run rec h'))"

definition hub_publish :: "string \<Rightarrow> Record \<Rightarrow> hub \<Rightarrow> hub" where
  "hub_publish run rec h = (if hb_closed h then h else broadcastLocked rec (appendLocked run rec h))"

definition hub_drop :: "string \<Rightarrow> hub \<Rightarrow> hub" where
  "hub_drop run h =
     (if hb_runs h run = None then h
      else h\<lparr>hb_runs := (hb_runs h)(run := None), hb_order := remove1 run (hb_order h)\<rparr>)"

definition hub_close :: "hub \<Rightarrow> hub" where
  "hub_close h = (if hb_closed h then h else fold dropLocked (hb_clients h) (h\<lparr>hb_closed := True\<rparr>))"

section \<open>A hub in use\<close>

text \<open>What a proof keeps of the past: what each run has said since its history opened, and for each connection
the backlog it was given, what it has read, and what was broadcast since it subscribed.\<close>

record HubRun =
  hr_hub :: hub
  hr_said :: "string \<Rightarrow> Record list"
  hr_backlog :: "nat \<Rightarrow> string list"
  hr_got :: "nat \<Rightarrow> string list"
  hr_due :: "nat \<Rightarrow> string list"

datatype hub_event =
    Connects
  | Leaves nat
  | Begins string Record
  | Says string Record
  | Drops string
  | Reads nat
  | Shuts

definition hub_start :: "Record \<Rightarrow> HubRun" where
  "hub_start head =
     \<lparr>hr_hub = newHub head, hr_said = (\<lambda>_. []), hr_backlog = (\<lambda>_. []), hr_got = (\<lambda>_. []), hr_due = (\<lambda>_. [])\<rparr>"

text \<open>A message told to everyone: what it adds to the ghosts. Connections not minted yet are owed nothing.\<close>

definition told_all :: "string \<Rightarrow> Record \<Rightarrow> HubRun \<Rightarrow> hub \<Rightarrow> HubRun" where
  "told_all run rec s h =
     s\<lparr>hr_hub := h,
       hr_said := (if hb_closed (hr_hub s) \<or> hb_runs h run = None then hr_said s
                   else (hr_said s)(run := hr_said s run @ [rec])),
       hr_due := (\<lambda>c. if hb_closed (hr_hub s) \<or> hb_minted (hr_hub s) \<le> c then hr_due s c
                      else hr_due s c @ [re_data rec])\<rparr>"

fun hub_step :: "HubRun \<Rightarrow> hub_event \<Rightarrow> HubRun" where
  "hub_step s Connects =
     (case hub_subscribe (hr_hub s) of (c, backlog, h) \<Rightarrow>
        s\<lparr>hr_hub := h, hr_backlog := (hr_backlog s)(c := backlog)\<rparr>)"
| "hub_step s (Leaves c) = s\<lparr>hr_hub := hub_remove c (hr_hub s)\<rparr>"
| "hub_step s (Begins run rec) = told_all run rec s (hub_begin run rec (hr_hub s))"
| "hub_step s (Says run rec) = told_all run rec s (hub_publish run rec (hr_hub s))"
| "hub_step s (Drops run) = s\<lparr>hr_hub := hub_drop run (hr_hub s), hr_said := (hr_said s)(run := [])\<rparr>"
| "hub_step s (Reads c) =
     (case cl_out (hb_client (hr_hub s) c) of
        [] \<Rightarrow> s
      | m # ms \<Rightarrow> s\<lparr>hr_hub := on_client c (\<lambda>u. u\<lparr>cl_out := ms\<rparr>) (hr_hub s), hr_got := (hr_got s)(c := hr_got s c @ [m])\<rparr>)"
| "hub_step s Shuts = s\<lparr>hr_hub := hub_close (hr_hub s)\<rparr>"

definition hub_run :: "Record \<Rightarrow> hub_event list \<Rightarrow> HubRun" where
  "hub_run head es = foldl hub_step (hub_start head) es"

end
