(* ===== verification/HubLaws.thy ===== *)
theory HubLaws
  imports Hub
begin

text \<open>
  What the hub promises a browser: the history a late one is given says the same as everything that was said,
  with each file's heartbeats folded into its last one, and a connection sees every later message in order until
  it is dropped.
\<close>

section \<open>Histories\<close>

definition same_beat :: "Record \<Rightarrow> Record \<Rightarrow> bool" where
  "same_beat r x \<longleftrightarrow> re_progress x \<and> re_file x = re_file r"

text \<open>The reference: every heartbeat of a file is replaced by the file's last one, where its first one stood.\<close>

function collapse :: "Record list \<Rightarrow> Record list" where
  "collapse [] = []"
| "collapse (r # rs) =
     (if re_progress r
      then last (r # filter (same_beat r) rs) # collapse (filter (\<lambda>x. \<not> same_beat r x) rs)
      else r # collapse rs)"
  by pat_completeness auto

termination
  by (relation "measure length") (auto simp: less_Suc_eq_le)

lemma collapse_subset: "set (collapse rs) \<subseteq> set rs"
proof (induction rs rule: collapse.induct)
  case (2 r rs)
  have "last (r # filter (same_beat r) rs) \<in> set (r # rs)"
    using last_in_set [of "r # filter (same_beat r) rs"] by auto
  with 2 show ?case by auto
qed simp

lemma collapse_snoc:
  "collapse (rs @ [r]) =
     (if re_progress r \<and> list_ex (same_beat r) rs
      then map (\<lambda>x. if same_beat r x then r else x) (collapse rs) else collapse rs @ [r])"
proof (induction rs rule: collapse.induct)
  case (2 q rs)
  show ?case
  proof (cases "re_progress q")
    case p: True
    show ?thesis
    proof (cases "re_progress r \<and> same_beat q r")
      case True
      then have e: "same_beat r = same_beat q" "same_beat q q" "same_beat q r"
        using p by (auto simp: same_beat_def fun_eq_iff)
      have "last (q # filter (same_beat q) rs) \<in> set (q # filter (same_beat q) rs)" by (rule last_in_set) simp
      then have l: "same_beat q (last (q # filter (same_beat q) rs))" using e(2) by auto
      have "map (\<lambda>x. if same_beat q x then r else x) (collapse (filter (\<lambda>x. \<not> same_beat q x) rs)) =
          collapse (filter (\<lambda>x. \<not> same_beat q x) rs)"
        using collapse_subset [of "filter (\<lambda>x. \<not> same_beat q x) rs"] by (intro map_idI) auto
      with True p e l show ?thesis by simp
    next
      case False
      then have n: "\<not> same_beat q r" by (auto simp: same_beat_def)
      have x: "re_progress r \<Longrightarrow> list_ex (same_beat r) (filter (\<lambda>x. \<not> same_beat q x) rs) = list_ex (same_beat r) rs"
        using n by (auto simp: list_ex_iff same_beat_def)
      have "last (q # filter (same_beat q) rs) \<in> set (q # filter (same_beat q) rs)" by (rule last_in_set) simp
      then have "same_beat q (last (q # filter (same_beat q) rs))" using p by (auto simp: same_beat_def)
      then have l: "re_progress r \<Longrightarrow> \<not> same_beat r (last (q # filter (same_beat q) rs))"
        using n by (auto simp: same_beat_def)
      have "re_progress r \<Longrightarrow> \<not> same_beat r q" using p n by (auto simp: same_beat_def)
      with 2(1) [OF p] p n l x show ?thesis by auto
    qed
  next
    case False
    then have "\<not> same_beat r q" by (simp add: same_beat_def)
    with 2(2) [OF False] False show ?thesis by simp
  qed
qed simp

definition beats_at :: "runHistory \<Rightarrow> bool" where
  "beats_at rh \<longleftrightarrow>
     (\<forall>f i. rh_progressAt rh f = Some i \<longleftrightarrow>
        i < length (rh_records rh) \<and> re_progress (rh_records rh ! i) \<and> re_file (rh_records rh ! i) = f)"

lemma history_add_collapse:
  assumes "beats_at rh" "rh_records rh = collapse rs"
  shows "beats_at (history_add r rh) \<and> rh_records (history_add r rh) = collapse (rs @ [r])"
proof (cases "re_progress r")
  case False
  then have "history_add r rh = rh\<lparr>rh_records := rh_records rh @ [r]\<rparr>"
    by (simp add: history_add_def split: option.split)
  with False assms show ?thesis
    by (auto simp: collapse_snoc beats_at_def nth_append less_Suc_eq)
next
  case p: True
  show ?thesis
  proof (cases "rh_progressAt rh (re_file r)")
    case None
    have "\<not> same_beat r x" if "x \<in> set (collapse rs)" for x
      using assms None that unfolding beats_at_def same_beat_def by (metis in_set_conv_nth option.distinct(1))
    moreover have "list_ex (same_beat r) rs \<longleftrightarrow> list_ex (same_beat r) (collapse rs)"
    proof (induction rs rule: collapse.induct)
      case (2 q rs)
      show ?case
      proof (cases "re_progress q")
        case True
        have "last (q # filter (same_beat q) rs) \<in> set (q # filter (same_beat q) rs)" by (rule last_in_set) simp
        then have l: "same_beat q (last (q # filter (same_beat q) rs))" using True by (auto simp: same_beat_def)
        show ?thesis using 2(1) [OF True] l True by (auto simp: list_ex_iff same_beat_def)
      qed (use 2(2) in simp)
    qed simp
    ultimately have c: "collapse (rs @ [r]) = collapse rs @ [r]" by (auto simp: collapse_snoc list_ex_iff)
    let ?rh = "rh\<lparr>rh_records := rh_records rh @ [r], rh_progressAt := (rh_progressAt rh)(re_file r \<mapsto> length (rh_records rh))\<rparr>"
    have "history_add r rh = ?rh" using None p by (simp add: history_add_def)
    moreover have "beats_at ?rh" unfolding beats_at_def
    proof (intro allI)
      fix f i
      have o: "rh_progressAt rh g = Some j \<longleftrightarrow>
          j < length (rh_records rh) \<and> re_progress (rh_records rh ! j) \<and> re_file (rh_records rh ! j) = g" for g j
        using assms(1) by (simp add: beats_at_def)
      show "rh_progressAt ?rh f = Some i \<longleftrightarrow>
          i < length (rh_records ?rh) \<and> re_progress (rh_records ?rh ! i) \<and> re_file (rh_records ?rh ! i) = f"
      proof (cases "i < length (rh_records rh)")
        case True
        with o [of f i] o [of "re_file r" i] None show ?thesis by (auto simp: nth_append)
      next
        case False
        with o [of f i] p show ?thesis by (auto simp: nth_append less_Suc_eq)
      qed
    qed
    ultimately show ?thesis using c assms(2) by simp
  next
    case (Some i)
    then have i: "i < length (rh_records rh)" "same_beat r (rh_records rh ! i)"
      using assms(1) by (auto simp: beats_at_def same_beat_def)
    then have ex: "list_ex (same_beat r) rs"
      using collapse_subset [of rs] assms(2) by (metis list_ex_iff nth_mem subsetD)
    have u: "j = i" if "j < length (rh_records rh)" "same_beat r (rh_records rh ! j)" for j
    proof -
      have "rh_progressAt rh (re_file r) = Some j" using assms(1) that by (simp add: beats_at_def same_beat_def)
      with Some show ?thesis by simp
    qed
    have "(rh_records rh)[i := r] = map (\<lambda>x. if same_beat r x then r else x) (rh_records rh)"
    proof (rule nth_equalityI)
      fix j
      assume j: "j < length ((rh_records rh)[i := r])"
      show "(rh_records rh)[i := r] ! j = map (\<lambda>x. if same_beat r x then r else x) (rh_records rh) ! j"
      proof (cases "j = i")
        case False
        with u [of j] j have "\<not> same_beat r (rh_records rh ! j)" by (metis length_list_update)
        with False j show ?thesis by simp
      qed (use i in simp)
    qed simp
    moreover have "history_add r rh = rh\<lparr>rh_records := (rh_records rh)[i := r]\<rparr>"
      using Some p by (simp add: history_add_def)
    moreover have "beats_at (rh\<lparr>rh_records := (rh_records rh)[i := r]\<rparr>)"
      using assms(1) i p by (simp add: beats_at_def same_beat_def nth_list_update)
    ultimately show ?thesis using ex p assms(2) by (simp add: collapse_snoc)
  qed
qed

section \<open>Connections\<close>

definition room :: "hub \<Rightarrow> nat \<Rightarrow> bool" where
  "room h c \<longleftrightarrow> length (cl_out (hb_client h c)) < clientBuffer"

lemma on_client_fields [simp]:
  "hb_runs (on_client c g h) = hb_runs h" "hb_order (on_client c g h) = hb_order h"
  "hb_clients (on_client c g h) = hb_clients h" "hb_minted (on_client c g h) = hb_minted h"
  "hb_closed (on_client c g h) = hb_closed h" "hb_head (on_client c g h) = hb_head h"
  "hb_client (on_client c g h) = (hb_client h)(c := g (hb_client h c))"
  by (simp_all add: on_client_def)

lemma dropLocked_fields [simp]:
  "hb_runs (dropLocked c h) = hb_runs h" "hb_order (dropLocked c h) = hb_order h"
  "hb_minted (dropLocked c h) = hb_minted h" "hb_closed (dropLocked c h) = hb_closed h" "hb_head (dropLocked c h) = hb_head h"
  "hb_clients (dropLocked c h) = removeAll c (hb_clients h)" "cl_out (hb_client (dropLocked c h) d) = cl_out (hb_client h d)"
  "cl_shut (hb_client (dropLocked c h) d) = (cl_shut (hb_client h d) \<or> d = c \<and> c \<in> set (hb_clients h))"
  by (auto simp: dropLocked_def)

lemma offer_fields [simp]:
  "hb_runs (offer r c h) = hb_runs h" "hb_order (offer r c h) = hb_order h"
  "hb_minted (offer r c h) = hb_minted h" "hb_closed (offer r c h) = hb_closed h" "hb_head (offer r c h) = hb_head h"
  "hb_clients (offer r c h) = (if room h c then hb_clients h else removeAll c (hb_clients h))"
  "cl_out (hb_client (offer r c h) d) = cl_out (hb_client h d) @ (if d = c \<and> room h c then [re_data r] else [])"
  "cl_shut (hb_client (offer r c h) d) =
     (cl_shut (hb_client h d) \<or> d = c \<and> c \<in> set (hb_clients h) \<and> \<not> room h c)"
  by (auto simp: offer_def room_def)

lemma offers:
  assumes "distinct cs" "set cs \<subseteq> set (hb_clients h)"
  shows "hb_runs (fold (offer r) cs h) = hb_runs h \<and> hb_order (fold (offer r) cs h) = hb_order h \<and>
    hb_minted (fold (offer r) cs h) = hb_minted h \<and> hb_closed (fold (offer r) cs h) = hb_closed h \<and>
    hb_clients (fold (offer r) cs h) = filter (\<lambda>c. c \<notin> set cs \<or> room h c) (hb_clients h) \<and>
    (\<forall>d. cl_out (hb_client (fold (offer r) cs h) d) =
       cl_out (hb_client h d) @ (if d \<in> set cs \<and> room h d then [re_data r] else [])) \<and>
    (\<forall>d. cl_shut (hb_client (fold (offer r) cs h) d) = (cl_shut (hb_client h d) \<or> d \<in> set cs \<and> \<not> room h d))"
  using assms
proof (induction cs arbitrary: h)
  case (Cons c cs)
  let ?h = "offer r c h"
  have "set cs \<subseteq> set (hb_clients ?h)" using Cons.prems by auto
  note IH = Cons.IH [OF _ this]
  have rm: "room ?h d = room h d" if "d \<in> set cs" for d
    using that Cons.prems(1) by (auto simp: room_def)
  have f: "hb_clients (fold (offer r) cs ?h) = filter (\<lambda>d. d \<notin> set (c # cs) \<or> room h d) (hb_clients h)"
    using IH Cons.prems(1) rm by (auto simp: removeAll_filter_not_eq filter_filter intro!: filter_cong)
  have o: "cl_out (hb_client (fold (offer r) cs ?h) d) =
       cl_out (hb_client h d) @ (if d \<in> set (c # cs) \<and> room h d then [re_data r] else [])" for d
    using IH Cons.prems(1) rm by (cases "d = c"; cases "d \<in> set cs") auto
  have s: "cl_shut (hb_client (fold (offer r) cs ?h) d) = (cl_shut (hb_client h d) \<or> d \<in> set (c # cs) \<and> \<not> room h d)" for d
    using IH Cons.prems rm by (cases "d = c"; cases "d \<in> set cs") auto
  show ?case using IH Cons.prems(1) f o s by simp
qed simp

lemma drops:
  "hb_runs (fold dropLocked cs h) = hb_runs h \<and> hb_order (fold dropLocked cs h) = hb_order h \<and>
   hb_minted (fold dropLocked cs h) = hb_minted h \<and> hb_closed (fold dropLocked cs h) = hb_closed h \<and>
   hb_clients (fold dropLocked cs h) = filter (\<lambda>c. c \<notin> set cs) (hb_clients h) \<and>
   (\<forall>d. cl_out (hb_client (fold dropLocked cs h) d) = cl_out (hb_client h d))"
  by (induction cs arbitrary: h) (auto simp: removeAll_filter_not_eq filter_filter intro!: filter_cong)

section \<open>The invariant\<close>

definition told_well :: "HubRun \<Rightarrow> bool" where
  "told_well s \<longleftrightarrow>
     (\<forall>run. hb_runs (hr_hub s) run = None \<longrightarrow> hr_said s run = []) \<and>
     (\<forall>run rh. hb_runs (hr_hub s) run = Some rh \<longrightarrow> beats_at rh \<and> rh_records rh = collapse (hr_said s run)) \<and>
     distinct (hb_order (hr_hub s)) \<and> set (hb_order (hr_hub s)) = dom (hb_runs (hr_hub s))"

definition heard_well :: "HubRun \<Rightarrow> bool" where
  "heard_well s \<longleftrightarrow>
     distinct (hb_clients (hr_hub s)) \<and>
     (\<forall>c \<in> set (hb_clients (hr_hub s)). c < hb_minted (hr_hub s) \<and> \<not> cl_shut (hb_client (hr_hub s) c) \<and>
        hr_got s c @ cl_out (hb_client (hr_hub s) c) = hr_due s c) \<and>
     (\<forall>c. prefix (hr_got s c @ cl_out (hb_client (hr_hub s) c)) (hr_due s c) \<and>
        length (cl_out (hb_client (hr_hub s) c)) \<le> clientBuffer) \<and>
     (\<forall>c \<ge> hb_minted (hr_hub s). hr_got s c = [] \<and> hr_due s c = [] \<and> cl_out (hb_client (hr_hub s) c) = [] \<and>
        hr_backlog s c = []) \<and>
     (hb_closed (hr_hub s) \<longrightarrow> hb_clients (hr_hub s) = [])"

lemma hub_start_well: "told_well (hub_start head)" "heard_well (hub_start head)"
  by (simp_all add: told_well_def heard_well_def hub_start_def newHub_def)

lemma broadcast_heard:
  assumes ok: "heard_well s" and up: "\<not> hb_closed (hr_hub s)"
    and h: "hb_client h = hb_client (hr_hub s)" "hb_clients h = hb_clients (hr_hub s)"
      "hb_minted h = hb_minted (hr_hub s)" "hb_closed h = hb_closed (hr_hub s)"
  shows "heard_well (told_all run rec s (broadcastLocked rec h))" (is "heard_well ?s'")
proof -
  let ?cs = "hb_clients (hr_hub s)" and ?b = "broadcastLocked rec h"
  have d: "distinct ?cs" using ok by (simp add: heard_well_def)
  note o = offers [of ?cs h rec, unfolded h(2), OF d order_refl]
  have b: "?b = fold (offer rec) ?cs h" by (simp add: broadcastLocked_def h(2))
  have c: "hb_clients ?b = filter (room h) ?cs" using o b by (auto intro!: filter_cong)
  have out: "cl_out (hb_client ?b d) = cl_out (hb_client (hr_hub s) d) @ (if d \<in> set ?cs \<and> room h d then [re_data rec] else [])" for d
    using o b h(1) by simp
  have r: "room h d \<longleftrightarrow> length (cl_out (hb_client (hr_hub s) d)) < clientBuffer" for d by (simp add: room_def h(1))
  have old: "c < hb_minted (hr_hub s) \<and> \<not> cl_shut (hb_client (hr_hub s) c) \<and>
        hr_got s c @ cl_out (hb_client (hr_hub s) c) = hr_due s c" if "c \<in> set ?cs" for c
    using ok that by (simp add: heard_well_def)
  have all: "prefix (hr_got s c @ cl_out (hb_client (hr_hub s) c)) (hr_due s c)"
    "length (cl_out (hb_client (hr_hub s) c)) \<le> clientBuffer" for c
    using ok by (simp_all add: heard_well_def)
  have due: "hr_due ?s' c = hr_due s c @ (if c < hb_minted (hr_hub s) then [re_data rec] else [])" for c
    using up by (simp add: told_all_def)
  have f: "hr_hub ?s' = ?b" "hr_got ?s' = hr_got s" "hr_backlog ?s' = hr_backlog s"
    "hb_minted ?b = hb_minted (hr_hub s)" "hb_closed ?b = hb_closed (hr_hub s)"
    using o b h by (simp_all add: told_all_def)
  have shut: "cl_shut (hb_client ?b c) = (cl_shut (hb_client (hr_hub s) c) \<or> c \<in> set ?cs \<and> \<not> room h c)" for c
    using o b h(1) by simp
  have held: "c < hb_minted (hr_hub s) \<and> \<not> cl_shut (hb_client ?b c) \<and> hr_got s c @ cl_out (hb_client ?b c) = hr_due ?s' c"
    if "c \<in> set (hb_clients ?b)" for c
    using that old [of c] by (simp add: c due shut out flip: append_assoc)
  have pre: "prefix (hr_got s c @ cl_out (hb_client ?b c)) (hr_due ?s' c)" for c
    using old [of c] all(1) [of c] by (cases "c \<in> set ?cs") (auto simp: out due simp flip: append_assoc)
  have len: "length (cl_out (hb_client ?b c)) \<le> clientBuffer" for c
    using all(2) [of c] by (auto simp: out r)
  have "hr_got s c = [] \<and> hr_due ?s' c = [] \<and> cl_out (hb_client ?b c) = [] \<and> hr_backlog s c = []"
    if "hb_minted (hr_hub s) \<le> c" for c
    using ok that old [of c] by (auto simp: heard_well_def due out)
  moreover have "distinct (hb_clients ?b)" using d c by simp
  ultimately show ?thesis using held pre len up unfolding heard_well_def f by blast
qed

lemma broadcast_runs [simp]:
  "distinct (hb_clients h) \<Longrightarrow> hb_runs (broadcastLocked rec h) = hb_runs h \<and>
     hb_order (broadcastLocked rec h) = hb_order h"
  using offers [of "hb_clients h" h rec] by (simp add: broadcastLocked_def)

lemma append_fields [simp]:
  "hb_client (appendLocked run rec h) = hb_client h" "hb_clients (appendLocked run rec h) = hb_clients h"
  "hb_minted (appendLocked run rec h) = hb_minted h" "hb_closed (appendLocked run rec h) = hb_closed h"
  "hb_order (appendLocked run rec h) = hb_order h"
  "hb_runs (appendLocked run rec h) =
     (case hb_runs h run of None \<Rightarrow> hb_runs h | Some rh \<Rightarrow> (hb_runs h)(run \<mapsto> history_add rec rh))"
  by (simp_all add: appendLocked_def split: option.split)

lemma append_told:
  assumes "told_well s" "distinct (hb_clients h)" "\<not> hb_closed (hr_hub s)" "hb_runs h = hb_runs (hr_hub s)"
    "hb_order h = hb_order (hr_hub s)"
  shows "told_well (told_all run rec s (broadcastLocked rec (appendLocked run rec h)))"
  using assms history_add_collapse [of _ "hr_said s run" rec]
  by (cases "hb_runs (hr_hub s) run") (auto simp: told_well_def told_all_def)

lemma begun_told:
  assumes "told_well s" "\<not> hb_closed (hr_hub s)" "hb_runs (hr_hub s) run = None" "distinct (hb_clients (hr_hub s))"
  shows "told_well (told_all run rec s (hub_begin run rec (hr_hub s)))"
proof -
  let ?rh = "\<lparr>rh_records = [], rh_progressAt = Map.empty\<rparr>"
  have "beats_at ?rh" by (simp add: beats_at_def)
  moreover have "hr_said s run = []" using assms(1,3) by (simp add: told_well_def)
  ultimately have "beats_at (history_add rec ?rh) \<and> rh_records (history_add rec ?rh) = collapse (hr_said s run @ [rec])"
    by (intro history_add_collapse) simp_all
  then show ?thesis
    using assms by (auto simp: told_well_def told_all_def hub_begin_def Let_def)
qed

lemma hub_step_well:
  assumes "told_well s" "heard_well s"
  shows "told_well (hub_step s e) \<and> heard_well (hub_step s e)"
proof (cases e)
  case Connects
  show ?thesis
  proof
    show "told_well (hub_step s e)"
      using assms(1) Connects by (auto simp: told_well_def hub_subscribe_def Let_def split: option.splits)
    show "heard_well (hub_step s e)"
      using assms(2) Connects unfolding heard_well_def
      by (auto simp: hub_subscribe_def Let_def less_Suc_eq clientBuffer_def)
  qed
next
  case (Leaves c)
  with assms show ?thesis
    by (auto simp: told_well_def heard_well_def hub_remove_def distinct_removeAll)
next
  case (Begins run rec)
  have d: "distinct (hb_clients (hr_hub s))" using assms(2) by (simp add: heard_well_def)
  show ?thesis
  proof (cases "hb_closed (hr_hub s)")
    case False
    have "told_well (hub_step s e)"
      using assms(1) False d Begins begun_told [of s run rec] append_told [of s "hr_hub s" run rec]
      by (cases "hb_runs (hr_hub s) run = None") (auto simp: hub_begin_def Let_def)
    moreover have "heard_well (hub_step s e)"
      using False Begins by (auto simp: hub_begin_def Let_def intro!: broadcast_heard [OF assms(2)])
    ultimately show ?thesis by simp
  qed (use assms Begins in \<open>simp add: told_all_def hub_begin_def told_well_def heard_well_def\<close>)
next
  case (Says run rec)
  have d: "distinct (hb_clients (hr_hub s))" using assms(2) by (simp add: heard_well_def)
  show ?thesis
  proof (cases "hb_closed (hr_hub s)")
    case False
    then have "told_well (hub_step s e)"
      using assms(1) d Says append_told [of s "hr_hub s" run rec] by (simp add: hub_publish_def)
    moreover have "heard_well (hub_step s e)"
      using False Says by (auto simp: hub_publish_def intro!: broadcast_heard [OF assms(2)])
    ultimately show ?thesis by simp
  qed (use assms Says in \<open>simp add: told_all_def hub_publish_def told_well_def heard_well_def\<close>)
next
  case (Drops run)
  have "told_well (hub_step s e)" using assms(1) Drops
    by (auto simp: told_well_def hub_drop_def split: option.splits)
  with assms(2) Drops show ?thesis by (simp add: heard_well_def hub_drop_def)
next
  case (Reads c)
  have "told_well (hub_step s e)" using assms(1) Reads by (auto simp: told_well_def split: list.split)
  moreover have "heard_well (hub_step s e)"
  proof (cases "cl_out (hb_client (hr_hub s) c)")
    case (Cons m ms)
    have "length ms < clientBuffer" using assms(2) Cons unfolding heard_well_def by (metis Suc_le_eq length_Cons)
    moreover have "c < hb_minted (hr_hub s)" using assms(2) Cons unfolding heard_well_def by (metis list.distinct(1) not_less)
    moreover have "prefix (hr_got s c @ m # ms) (hr_due s c)" using assms(2) Cons unfolding heard_well_def by metis
    ultimately show ?thesis using assms(2) Cons Reads unfolding heard_well_def by auto
  qed (use assms(2) Reads in simp)
  ultimately show ?thesis by simp
next
  case Shuts
  show ?thesis
  proof (cases "hb_closed (hr_hub s)")
    case False
    note d = drops [of "hb_clients (hr_hub s)" "(hr_hub s)\<lparr>hb_closed := True\<rparr>"]
    have "told_well (hub_step s e)" using assms(1) Shuts d by (simp add: told_well_def hub_close_def)
    moreover have "heard_well (hub_step s e)"
      using assms(2) Shuts d False by (simp add: heard_well_def hub_close_def)
    ultimately show ?thesis by simp
  qed (use assms Shuts in \<open>simp add: hub_close_def\<close>)
qed

lemma hub_run_well: "told_well (hub_run head es) \<and> heard_well (hub_run head es)"
  unfolding hub_run_def
proof (induction es rule: rev_induct)
  case (snoc e es)
  then show ?case using hub_step_well by simp
qed (simp add: hub_start_well)

section \<open>Properties\<close>

text \<open>C26: What a browser that connects is given first is the head and then, run by run in the order their histories opened,
everything the run has said since, with all heartbeats of one file replaced by its last one where the first one
stood. A run whose history was dropped is not in it.\<close>

theorem hub_replays:
  assumes "hr_hub (hub_run head es) = h" "\<not> hb_closed h"
  shows "distinct (hb_order h) \<and> set (hb_order h) = dom (hb_runs h) \<and>
    fst (snd (hub_subscribe h)) =
      re_data (hb_head h) # concat (map (\<lambda>run. map re_data (collapse (hr_said (hub_run head es) run))) (hb_order h))"
proof -
  have t: "told_well (hub_run head es)" using hub_run_well by blast
  then have "history h run = collapse (hr_said (hub_run head es) run)" for run
    using assms(1) by (cases "hb_runs h run") (auto simp: told_well_def history_def)
  then show ?thesis using t assms
    by (auto simp: told_well_def hub_subscribe_def Let_def)
qed

text \<open>C27: A connection never has a gap. While the hub holds it, what it has read and what waits in its queue are
all the messages told since it connected, in order, and its queue is open; once it was dropped it is a beginning
of them; and no queue ever holds more than 512 messages.\<close>

theorem hub_no_gap:
  assumes "hub_run head es = s"
  shows "(c \<in> set (hb_clients (hr_hub s)) \<longrightarrow>
      hr_got s c @ cl_out (hb_client (hr_hub s) c) = hr_due s c \<and> \<not> cl_shut (hb_client (hr_hub s) c)) \<and>
    prefix (hr_got s c @ cl_out (hb_client (hr_hub s) c)) (hr_due s c) \<and>
    length (cl_out (hb_client (hr_hub s) c)) \<le> 512"
  using hub_run_well [of head es] assms by (auto simp: heard_well_def clientBuffer_def)

definition beat :: "string \<Rightarrow> Record" where
  "beat d = \<lparr>re_data = d, re_progress = True, re_file = 0\<rparr>"

definition say :: "string \<Rightarrow> Record" where
  "say d = \<lparr>re_data = d, re_progress = False, re_file = 0\<rparr>"

definition demo_said :: "hub_event list" where
  "demo_said = [Connects, Begins ''r'' (say ''a''), Says ''r'' (beat ''b''), Says ''r'' (say ''c''), Reads 0,
     Says ''r'' (beat ''d''), Says ''gone'' (say ''e'')]"

lemmas hub_eval = hub_run_def hub_start_def newHub_def demo_said_def beat_def say_def hub_subscribe_def hub_begin_def
  hub_publish_def broadcastLocked_def appendLocked_def history_add_def offer_def told_all_def on_client_def history_def
  clientBuffer_def Let_def

lemma demo_hub:
  "\<not> hb_closed (hr_hub (hub_run (say ''h'') demo_said))"
  "fst (snd (hub_subscribe (hr_hub (hub_run (say ''h'') demo_said)))) = [''h'', ''a'', ''d'', ''c'']"
  "hr_due (hub_run (say ''h'') demo_said) 0 = [''a'', ''b'', ''c'', ''d'', ''e'']"
  "hr_said (hub_run (say ''h'') demo_said) ''r'' = [say ''a'', beat ''b'', say ''c'', beat ''d'']"
  by (simp_all add: hub_eval)

lemma hub_replays_witness:
  "[''h'', ''a'', ''d'', ''c''] =
       ''h'' # concat (map (\<lambda>run. map re_data (collapse (hr_said (hub_run (say ''h'') demo_said) run))) [''r''])"
proof -
  have h: "re_data (hb_head (hr_hub (hub_run (say ''h'') demo_said))) = ''h''" by (simp add: hub_eval)
  have o: "hb_order (hr_hub (hub_run (say ''h'') demo_said)) = [''r'']" by (simp add: hub_eval)
  from hub_replays [OF refl demo_hub(1)] show ?thesis unfolding demo_hub(2) h o by blast
qed

lemma hub_no_gap_witness:
  "hr_got (hub_run (say ''h'') demo_said) 0 = [''a''] \<and>
   [''a''] @ cl_out (hb_client (hr_hub (hub_run (say ''h'') demo_said)) 0) = [''a'', ''b'', ''c'', ''d'', ''e'']"
proof -
  have g: "hr_got (hub_run (say ''h'') demo_said) 0 = [''a'']" by (simp add: hub_eval)
  have "0 \<in> set (hb_clients (hr_hub (hub_run (say ''h'') demo_said)))" by (simp add: hub_eval)
  with hub_no_gap [OF refl, of 0 "say ''h''" demo_said] g demo_hub(3) show ?thesis by simp
qed

end
