(* ===== verification/ResultSets.thy ===== *)
theory ResultSets
  imports Replay Eviction
begin

text \<open>
  \<^verbatim>\<open>internal/web/listing.go\<close>, the readers of \<^verbatim>\<open>compare.go\<close>, and \<^verbatim>\<open>files.go\<close>: what a page is
  told of the results on disk, and which paths it may ask for. The disk is an argument, as in \<open>Cache\<close>, with
  directories named by their paths, and so is the digest that names a published file. A time is a number of
  nanoseconds. JSON is not modelled.
\<close>

section \<open>Files a page may ask for\<close>

type_synonym fileSet = "string \<Rightarrow> string option"

definition newFileSet :: fileSet where
  "newFileSet = Map.empty"

definition publish_file :: "(string \<Rightarrow> string) \<Rightarrow> string \<Rightarrow> fileSet \<Rightarrow> string \<times> fileSet" where
  "publish_file digest path f =
     (if path = [] then ([], f) else let i = digest path in (''files/'' @ i, f(i \<mapsto> path)))"

definition lookup_file :: "string \<Rightarrow> fileSet \<Rightarrow> string option" where
  "lookup_file i f = f i"

section \<open>What a set's frames were taken from\<close>

record Reach =
  rc_FirstPiece :: int
  rc_Pieces :: int
  rc_PieceBytes :: int
  rc_ClaimedPieces :: int
  rc_Claimed :: "(int \<times> int) list"
  rc_Captured :: int
  rc_Located :: int

text \<open>The bytes of a range that lie in the file, as the pieces holding them.\<close>

definition pieceSpanOf :: "int \<times> int \<Rightarrow> CacheFile \<Rightarrow> int \<Rightarrow> (int \<times> int) option" where
  "pieceSpanOf r file pb =
     (let b = (if fst r < 0 then 0 else fst r);
          e = (if cf_Bytes file < snd r then cf_Bytes file else snd r) in
      if e \<le> b then None
      else Some (w64 (cf_Offset file + b) sdiv pb, w64 (w64 (cf_Offset file + e) - 1) sdiv pb + 1))"

definition coalescePieceRanges :: "(int \<times> int) list \<Rightarrow> (int \<times> int) list" where
  "coalescePieceRanges ranges = (case sort ranges of [] \<Rightarrow> [] | r # rest \<Rightarrow> merge_spans r rest)"

definition frame_spans :: "CacheFile \<Rightarrow> int \<Rightarrow> int \<Rightarrow> ManifestFrame \<Rightarrow> (int \<times> int) list" where
  "frame_spans file pb first f =
     map (\<lambda>(b, e). (b - first, e - first)) (List.map_filter (\<lambda>r. pieceSpanOf r file pb) (mf_ByteRanges f))"

definition reachOf :: "ManifestFrame list \<Rightarrow> CacheFile \<Rightarrow> int \<Rightarrow> Reach option" where
  "reachOf frames file pb =
     (if pb \<le> 0 \<or> cf_Bytes file \<le> 0 then None
      else
        let first = cf_Offset file sdiv pb;
            final = w64 (w64 (cf_Offset file + cf_Bytes file) - 1) sdiv pb;
            captured = filter served frames;
            located = filter (\<lambda>f. mf_ByteRanges f \<noteq> []) captured;
            ranges = concat (map (frame_spans file pb first) located) in
        if captured = [] \<or> located = [] then None
        else let claimed = coalescePieceRanges ranges in
          Some \<lparr>rc_FirstPiece = first, rc_Pieces = final - first + 1, rc_PieceBytes = pb,
                rc_ClaimedPieces = sum_list (map (\<lambda>(b, e). e - b) claimed), rc_Claimed = claimed,
                rc_Captured = int (length captured), rc_Located = int (length located)\<rparr>)"

section \<open>One set's frames of one file\<close>

record FrameRef =
  ref_TimeMS :: int
  ref_Shift :: Shift
  ref_Error :: string
  ref_URL :: string
  ref_Params :: string
  ref_Index :: int
  ref_Width :: int
  ref_Height :: int

record resultSet =
  rset_Params :: string
  rset_Path :: string
  rset_Name :: string
  rset_Count :: int
  rset_DurationMS :: int
  rset_Width :: int
  rset_Height :: int
  rset_Frames :: "FrameRef list"
  rset_Reach :: "Reach option"

definition videoEntry :: "RunRecord \<Rightarrow> int \<Rightarrow> CacheFile option" where
  "videoEntry r index = find (\<lambda>v. cf_Index v = index) (rr_Videos r)"

definition videoPath :: "RunRecord \<Rightarrow> int \<Rightarrow> string option" where
  "videoPath r index = map_option cf_Path (videoEntry r index)"

text \<open>A frame's file is there when it exists and is not empty.\<close>

definition file_there :: "Disk \<Rightarrow> string \<Rightarrow> bool" where
  "file_there d path \<longleftrightarrow> \<not> (StatSize d path = None \<or> StatSize d path = Some 0)"

definition frame_ref :: "string \<Rightarrow> string \<Rightarrow> ManifestFrame \<Rightarrow> FrameRef" where
  "frame_ref params url f =
     \<lparr>ref_TimeMS = (case mf_ActualMS f of None \<Rightarrow> mf_RequestedMS f | Some ms \<Rightarrow> ms), ref_Shift = mf_Shift f,
      ref_Error = (if url = [] then mf_Error f else []), ref_URL = url, ref_Params = params, ref_Index = mf_Index f,
      ref_Width = (if url = [] then 0 else mf_Width f), ref_Height = (if url = [] then 0 else mf_Height f)\<rparr>"

fun set_frames :: "(string \<Rightarrow> string) \<Rightarrow> Disk \<Rightarrow> string \<Rightarrow> ManifestFrame list \<Rightarrow> fileSet \<Rightarrow> FrameRef list \<times> fileSet" where
  "set_frames digest d params [] fz = ([], fz)"
| "set_frames digest d params (f # fs) fz =
     (if mf_Path f = [] then
        (case set_frames digest d params fs fz of (refs, fz') \<Rightarrow> (frame_ref params [] f # refs, fz'))
      else if \<not> file_there d (mf_Path f) then set_frames digest d params fs fz
      else
        (case publish_file digest (mf_Path f) fz of (url, fz1) \<Rightarrow>
           (case set_frames digest d params fs fz1 of (refs, fz') \<Rightarrow> (frame_ref params url f # refs, fz'))))"

definition loadResultSet ::
  "(string \<Rightarrow> string) \<Rightarrow> Disk \<Rightarrow> string \<Rightarrow> string \<Rightarrow> string \<Rightarrow> int \<Rightarrow> fileSet \<Rightarrow> resultSet option \<times> fileSet" where
  "loadResultSet digest d out_root infoHash params index fz =
     (if out_root = [] then (None, fz)
      else case LoadRun d infoHash params of
        None \<Rightarrow> (None, fz)
      | Some run \<Rightarrow>
        (case videoPath run index of
           None \<Rightarrow> (None, fz)
         | Some path \<Rightarrow>
           (case LoadManifest d infoHash params index path of
              None \<Rightarrow> (None, fz)
            | Some m \<Rightarrow>
              (case set_frames digest d params (m_Frames m) fz of (refs, fz') \<Rightarrow>
                 (if refs = [] then None
                  else Some \<lparr>rset_Params = params, rset_Path = path, rset_Name = rr_Name run,
                    rset_Count = pl_Count (rr_Plan run), rset_DurationMS = mfl_DurationMS (m_File m),
                    rset_Width = mv_Width (m_Video m), rset_Height = mv_Height (m_Video m), rset_Frames = refs,
                    rset_Reach = (case videoEntry run index of None \<Rightarrow> None
                                  | Some file \<Rightarrow> reachOf (m_Frames m) file (mt_PieceLength (m_Torrent m)))\<rparr>,
                  fz')))))"

section \<open>All sets of one file\<close>

record FrameSet =
  fse_Params :: string
  fse_Count :: int
  fse_Frames :: int
  fse_Reach :: "Reach option"

record FileDetail =
  fd_Index :: int
  fd_Path :: string
  fd_Sets :: "FrameSet list"
  fd_Frames :: "FrameRef list"

fun gather_sets :: "(string \<Rightarrow> string) \<Rightarrow> Disk \<Rightarrow> string \<Rightarrow> string \<Rightarrow> FileDetail \<Rightarrow> (string \<times> bool) list \<Rightarrow> fileSet
    \<Rightarrow> FileDetail \<times> fileSet" where
  "gather_sets digest d out_root infoHash det [] fz = (det, fz)"
| "gather_sets digest d out_root infoHash det ((name, isdir) # dirs) fz =
     (if \<not> isdir then gather_sets digest d out_root infoHash det dirs fz
      else case loadResultSet digest d out_root infoHash name (fd_Index det) fz of
        (None, fz') \<Rightarrow> gather_sets digest d out_root infoHash det dirs fz'
      | (Some s, fz') \<Rightarrow>
          gather_sets digest d out_root infoHash
            (det\<lparr>fd_Frames := fd_Frames det @ rset_Frames s, fd_Path := rset_Path s,
                 fd_Sets := fd_Sets det @
                   [\<lparr>fse_Params = rset_Params s, fse_Count = rset_Count s, fse_Frames = int (length (rset_Frames s)),
                     fse_Reach = rset_Reach s\<rparr>]\<rparr>) dirs fz')"

text \<open>\<^verbatim>\<open>sort.SliceStable\<close> by a strict order, as the insertion sort it amounts to.\<close>

fun insert_stable :: "('a \<Rightarrow> 'a \<Rightarrow> bool) \<Rightarrow> 'a \<Rightarrow> 'a list \<Rightarrow> 'a list" where
  "insert_stable lt x [] = [x]"
| "insert_stable lt x (y # ys) = (if lt y x then y # insert_stable lt x ys else x # y # ys)"

definition sort_stable :: "('a \<Rightarrow> 'a \<Rightarrow> bool) \<Rightarrow> 'a list \<Rightarrow> 'a list" where
  "sort_stable lt xs = foldr (insert_stable lt) xs []"

text \<open>Strings are ordered byte by byte.\<close>

fun str_less :: "string \<Rightarrow> string \<Rightarrow> bool" where
  "str_less s [] = False"
| "str_less [] (c # t) = True"
| "str_less (b # s) (c # t) =
     ((of_char b :: nat) < of_char c \<or> b = c \<and> str_less s t)"

definition frame_before :: "FrameRef \<Rightarrow> FrameRef \<Rightarrow> bool" where
  "frame_before a b =
     (if ref_TimeMS a \<noteq> ref_TimeMS b then ref_TimeMS a < ref_TimeMS b else str_less (ref_Params a) (ref_Params b))"

definition merge_times :: "FrameRef list \<Rightarrow> FrameRef list" where
  "merge_times frames =
     foldl (\<lambda>merged f. if merged \<noteq> [] \<and> ref_TimeMS (last merged) = ref_TimeMS f then merged else merged @ [f]) [] frames"

definition fileDetail ::
  "(string \<Rightarrow> string) \<Rightarrow> Disk \<Rightarrow> string \<Rightarrow> string \<Rightarrow> int \<Rightarrow> fileSet \<Rightarrow> FileDetail option \<times> fileSet" where
  "fileDetail digest d out_root infoHash index fz =
     (if out_root = [] \<or> \<not> validInfoHash infoHash \<or> index < 0 then (None, fz)
      else case ReadDir d (path_Join [out_root, infoHash]) of
        None \<Rightarrow> (None, fz)
      | Some dirs \<Rightarrow>
        (case gather_sets digest d out_root infoHash
                \<lparr>fd_Index = index, fd_Path = [], fd_Sets = [], fd_Frames = []\<rparr> dirs fz of
           (det, fz') \<Rightarrow>
             if fd_Frames det = [] then (None, fz')
             else (Some (det\<lparr>fd_Frames := merge_times (sort_stable frame_before (fd_Frames det))\<rparr>), fz')))"

definition framesOnDisk :: "Disk \<Rightarrow> Manifest \<Rightarrow> int" where
  "framesOnDisk d m = int (length (filter (\<lambda>f. mf_Path f \<noteq> [] \<and> file_there d (mf_Path f)) (m_Frames m)))"

definition holds_frames :: "Disk \<Rightarrow> string \<Rightarrow> int \<Rightarrow> string \<times> bool \<Rightarrow> bool" where
  "holds_frames d infoHash index dir \<longleftrightarrow>
     snd dir \<and>
     (case LoadRun d infoHash (fst dir) of
        None \<Rightarrow> False
      | Some run \<Rightarrow>
        (case videoPath run index of
           None \<Rightarrow> False
         | Some path \<Rightarrow>
           (case LoadManifest d infoHash (fst dir) index path of None \<Rightarrow> False | Some m \<Rightarrow> framesOnDisk d m \<noteq> 0)))"

definition setsHoldingFrames :: "Disk \<Rightarrow> string \<Rightarrow> string \<Rightarrow> int \<Rightarrow> string list" where
  "setsHoldingFrames d out_root infoHash index =
     (if out_root = [] \<or> \<not> validInfoHash infoHash \<or> index < 0 then []
      else case ReadDir d (path_Join [out_root, infoHash]) of
        None \<Rightarrow> []
      | Some dirs \<Rightarrow> map fst (filter (holds_frames d infoHash index) dirs))"

end
