(* ===== verification/ResultLaws.thy ===== *)
theory ResultLaws
  imports ResultSets
begin

text \<open>
  What the readers of results promise: the stretch of a file a set reaches is exactly the pieces its frames were
  read from, the frames of a file come once for each moment in ascending order, a file is offered to be cleared
  exactly where it shows a picture, and a page can only ask for paths the server published.
\<close>

section \<open>Published files\<close>

definition publish_all :: "(string \<Rightarrow> string) \<Rightarrow> string list \<Rightarrow> fileSet \<Rightarrow> fileSet" where
  "publish_all digest paths f = foldl (\<lambda>f p. snd (publish_file digest p f)) f paths"

lemma publish_all_lookup:
  assumes "lookup_file i (publish_all digest paths f) = Some p"
  shows "lookup_file i f = Some p \<or> (p \<in> set paths \<and> p \<noteq> [] \<and> i = digest p)"
  using assms
proof (induction paths arbitrary: f)
  case (Cons q paths)
  have "publish_all digest (q # paths) f = publish_all digest paths (snd (publish_file digest q f))"
    by (simp add: publish_all_def)
  from Cons.IH [OF Cons.prems [unfolded this]] show ?case
    by (auto simp: publish_file_def lookup_file_def Let_def split: if_splits)
qed (simp add: publish_all_def)

lemma set_frames_publish:
  "snd (set_frames digest d params fs fz) =
     publish_all digest (filter (file_there d) (filter (\<lambda>p. p \<noteq> []) (map mf_Path fs))) fz"
  by (induction fs arbitrary: fz) (simp_all add: publish_all_def publish_file_def Let_def case_prod_beta)

lemma set_frames_refs:
  "fst (set_frames digest d params fs fz) =
     map (\<lambda>f. frame_ref params (if mf_Path f = [] then [] else ''files/'' @ digest (mf_Path f)) f)
       (filter (\<lambda>f. mf_Path f = [] \<or> file_there d (mf_Path f)) fs)"
  by (induction fs arbitrary: fz) (simp_all add: publish_file_def Let_def case_prod_beta)

section \<open>Reach\<close>

lemma piece_span:
  fixes b :: int
  assumes "0 < pb" "b < e"
  shows "{(off + b) div pb..<(off + e - 1) div pb + 1} = {p. \<exists>k. b \<le> k \<and> k < e \<and> (off + k) div pb = p}"
proof (intro set_eqI iffI)
  fix p assume p: "p \<in> {(off + b) div pb..<(off + e - 1) div pb + 1}"
  show "p \<in> {p. \<exists>k. b \<le> k \<and> k < e \<and> (off + k) div pb = p}"
  proof (cases "p = (off + b) div pb")
    case True
    then show ?thesis using assms(2) by auto
  next
    case False
    then have gt: "(off + b) div pb < p" and le: "p \<le> (off + e - 1) div pb" using p by auto
    have "off + b < p * pb"
    proof (rule ccontr)
      assume "\<not> off + b < p * pb"
      then have "p * pb div pb \<le> (off + b) div pb" using assms(1) by (intro zdiv_mono1) auto
      with gt assms(1) show False by simp
    qed
    moreover have "p * pb \<le> off + e - 1"
    proof -
      have "p * pb \<le> (off + e - 1) div pb * pb" using le assms(1) by (intro mult_right_mono) auto
      also have "\<dots> \<le> off + e - 1" using assms(1) pos_mod_sign [of pb "off + e - 1"] minus_mod_eq_div_mult [of "off + e - 1" pb] by linarith
      finally show ?thesis .
    qed
    ultimately show ?thesis using assms(1) by (intro CollectI exI [of _ "p * pb - off"]) auto
  qed
next
  fix p assume "p \<in> {p. \<exists>k. b \<le> k \<and> k < e \<and> (off + k) div pb = p}"
  then obtain k where k: "b \<le> k" "k \<le> e - 1" "(off + k) div pb = p" by auto
  have "(off + b) div pb \<le> (off + k) div pb" "(off + k) div pb \<le> (off + e - 1) div pb"
    using k assms(1) by (auto intro: zdiv_mono1)
  with k(3) show "p \<in> {(off + b) div pb..<(off + e - 1) div pb + 1}" by auto
qed

lemma pieceSpanOf_spec:
  assumes "0 < pb" "0 \<le> cf_Offset file" "cf_Offset file + cf_Bytes file \<le> max_i64"
  shows "pieceSpanOf (x, y) file pb = None \<longleftrightarrow> \<not> (\<exists>k. x \<le> k \<and> k < y \<and> 0 \<le> k \<and> k < cf_Bytes file)"
    and "pieceSpanOf (x, y) file pb = Some (lo, hi) \<Longrightarrow> lo < hi \<and> cf_Offset file div pb \<le> lo \<and>
      hi \<le> (cf_Offset file + cf_Bytes file - 1) div pb + 1 \<and>
      {lo..<hi} = {p. \<exists>k. x \<le> k \<and> k < y \<and> 0 \<le> k \<and> k < cf_Bytes file \<and> (cf_Offset file + k) div pb = p}"
proof -
  define b where "b = (if x < 0 then 0 else x)"
  define e where "e = (if cf_Bytes file < y then cf_Bytes file else y)"
  have in_file: "x \<le> k \<and> k < y \<and> 0 \<le> k \<and> k < cf_Bytes file \<longleftrightarrow> b \<le> k \<and> k < e" for k by (auto simp: b_def e_def)
  have ex: "(\<exists>k. b \<le> k \<and> k < e) \<longleftrightarrow> b < e" by (meson order_le_less_trans order_refl)
  have span: "pieceSpanOf (x, y) file pb =
      (if e \<le> b then None
       else Some (w64 (cf_Offset file + b) sdiv pb, w64 (w64 (cf_Offset file + e) - 1) sdiv pb + 1))"
    by (simp add: pieceSpanOf_def b_def e_def Let_def)
  then show "pieceSpanOf (x, y) file pb = None \<longleftrightarrow> \<not> (\<exists>k. x \<le> k \<and> k < y \<and> 0 \<le> k \<and> k < cf_Bytes file)"
    unfolding in_file ex by auto
  assume s: "pieceSpanOf (x, y) file pb = Some (lo, hi)"
  then have lt: "b < e" using span by (simp split: if_splits)
  have b0: "0 \<le> b" "e \<le> cf_Bytes file" by (auto simp: b_def e_def)
  have m: "min_i64 \<le> 0" by (simp add: min_i64_def)
  have w: "w64 (cf_Offset file + b) = cf_Offset file + b" "w64 (cf_Offset file + e) = cf_Offset file + e"
    using assms lt b0 m by (intro w64_id; linarith)+
  have w1: "w64 (cf_Offset file + e - 1) = cf_Offset file + e - 1" using assms lt b0 m by (intro w64_id; linarith)
  have lh: "lo = (cf_Offset file + b) div pb" "hi = (cf_Offset file + e - 1) div pb + 1"
    using s lt b0 assms unfolding span w w1 by (auto simp: sdiv_nonneg)
  have "(cf_Offset file + b) div pb \<le> (cf_Offset file + e - 1) div pb" using lt assms(1) by (intro zdiv_mono1) auto
  moreover have "cf_Offset file div pb \<le> (cf_Offset file + b) div pb" using b0 assms(1) by (intro zdiv_mono1) auto
  moreover have "(cf_Offset file + e - 1) div pb \<le> (cf_Offset file + cf_Bytes file - 1) div pb"
    using b0 assms(1) by (intro zdiv_mono1) auto
  moreover have "{lo..<hi} = {p. \<exists>k. b \<le> k \<and> k < e \<and> (cf_Offset file + k) div pb = p}"
    unfolding lh by (rule piece_span [OF assms(1) lt])
  moreover have "(\<exists>k. x \<le> k \<and> k < y \<and> 0 \<le> k \<and> k < cf_Bytes file \<and> P k) \<longleftrightarrow> (\<exists>k. b \<le> k \<and> k < e \<and> P k)" for P
    using in_file by blast
  ultimately show "lo < hi \<and> cf_Offset file div pb \<le> lo \<and>
      hi \<le> (cf_Offset file + cf_Bytes file - 1) div pb + 1 \<and>
      {lo..<hi} = {p. \<exists>k. x \<le> k \<and> k < y \<and> 0 \<le> k \<and> k < cf_Bytes file \<and> (cf_Offset file + k) div pb = p}"
    using lh by simp
qed

lemma disjoint_spans_card:
  "disjoint_spans xs \<Longrightarrow> finite (span_bytes xs) \<and> sum_list (map (\<lambda>(b, e). e - b) xs) = int (card (span_bytes xs))"
proof (induction xs)
  case (Cons x xs)
  obtain a b where x: "x = (a, b)" by fastforce
  have d: "disjoint_spans xs" and ab: "a < b" using Cons.prems by (auto simp: disjoint_spans_def x)
  have s: "span_bytes (x # xs) = {a..<b} \<union> span_bytes xs" by (simp add: span_bytes_def x)
  have "{a..<b} \<inter> span_bytes xs = {}"
    using Cons.prems by (fastforce simp: span_bytes_def disjoint_spans_def x)
  with Cons.IH [OF d] s ab show ?case by (simp add: x card_Un_disjoint)
qed (simp add: span_bytes_def)

lemma coalescePieceRanges_spec:
  assumes "\<forall>(a, b) \<in> set xs. a < b"
  shows "disjoint_spans (coalescePieceRanges xs) \<and> span_bytes (coalescePieceRanges xs) = span_bytes xs"
  using coalesceSpans_spec [OF assms] by (simp add: coalescePieceRanges_def coalesceSpans_def)

lemma frame_spans_spec:
  assumes "0 < pb" "0 \<le> cf_Offset file" "cf_Offset file + cf_Bytes file \<le> max_i64" "first = cf_Offset file div pb"
  shows "\<forall>(a, b) \<in> set (frame_spans file pb first f). a < b \<and> 0 \<le> a \<and>
      b \<le> (cf_Offset file + cf_Bytes file - 1) div pb + 1 - first"
    and "p \<in> span_bytes (frame_spans file pb first f) \<longleftrightarrow>
      (\<exists>(x, y) \<in> set (mf_ByteRanges f). \<exists>k. x \<le> k \<and> k < y \<and> 0 \<le> k \<and> k < cf_Bytes file \<and>
         (cf_Offset file + k) div pb = first + p)"
proof -
  note spec = pieceSpanOf_spec [OF assms(1-3)]
  have mem: "(a, b) \<in> set (frame_spans file pb first f) \<longleftrightarrow>
      (\<exists>(x, y) \<in> set (mf_ByteRanges f). pieceSpanOf (x, y) file pb = Some (a + first, b + first))" for a b
    by (force simp: frame_spans_def List.map_filter_def)
  have "a < b \<and> 0 \<le> a \<and> b \<le> (cf_Offset file + cf_Bytes file - 1) div pb + 1 - first"
    if "(a, b) \<in> set (frame_spans file pb first f)" for a b
  proof -
    from that obtain x y where "pieceSpanOf (x, y) file pb = Some (a + first, b + first)" unfolding mem by blast
    from spec(2) [OF this] show ?thesis using assms(4) by auto
  qed
  then show "\<forall>(a, b) \<in> set (frame_spans file pb first f). a < b \<and> 0 \<le> a \<and>
      b \<le> (cf_Offset file + cf_Bytes file - 1) div pb + 1 - first" by blast
  have one: "(\<exists>a b. pieceSpanOf (x, y) file pb = Some (a + first, b + first) \<and> a \<le> p \<and> p < b) \<longleftrightarrow>
      (\<exists>k. x \<le> k \<and> k < y \<and> 0 \<le> k \<and> k < cf_Bytes file \<and> (cf_Offset file + k) div pb = first + p)" for x y
  proof (cases "pieceSpanOf (x, y) file pb")
    case None
    with spec(1) [of x y] show ?thesis by auto
  next
    case (Some lh)
    obtain lo hi where lh: "lh = (lo, hi)" by fastforce
    from spec(2) [of x y lo hi] Some lh
    have "first + p \<in> {lo..<hi} \<longleftrightarrow>
        (\<exists>k. x \<le> k \<and> k < y \<and> 0 \<le> k \<and> k < cf_Bytes file \<and> (cf_Offset file + k) div pb = first + p)" by auto
    moreover have "(\<exists>a b. Some (lo, hi) = Some (a + first, b + first) \<and> a \<le> p \<and> p < b) \<longleftrightarrow> first + p \<in> {lo..<hi}"
    proof
      assume "first + p \<in> {lo..<hi}"
      then show "\<exists>a b. Some (lo, hi) = Some (a + first, b + first) \<and> a \<le> p \<and> p < b"
        by (intro exI [of _ "lo - first"] exI [of _ "hi - first"]) auto
    qed auto
    ultimately show ?thesis using Some lh by simp
  qed
  have "p \<in> span_bytes (frame_spans file pb first f) \<longleftrightarrow>
      (\<exists>(x, y) \<in> set (mf_ByteRanges f). \<exists>a b. pieceSpanOf (x, y) file pb = Some (a + first, b + first) \<and> a \<le> p \<and> p < b)"
  proof -
    have sb: "p \<in> span_bytes xs \<longleftrightarrow> (\<exists>a b. (a, b) \<in> set xs \<and> a \<le> p \<and> p < b)" for xs by (force simp: span_bytes_def)
    show ?thesis unfolding sb mem by blast
  qed
  then show "p \<in> span_bytes (frame_spans file pb first f) \<longleftrightarrow>
      (\<exists>(x, y) \<in> set (mf_ByteRanges f). \<exists>k. x \<le> k \<and> k < y \<and> 0 \<le> k \<and> k < cf_Bytes file \<and>
         (cf_Offset file + k) div pb = first + p)"
    using one by simp
qed

text \<open>C29: The stretch of a file a set reaches is exactly the pieces its frames were read from: a piece of the file
is in it if and only if some byte of the file in a recorded range of a captured frame lies in that piece. Its
ranges are ascending, non-empty, apart from each other and inside the file's pieces, and its total is their number.\<close>

theorem reach_exact:
  assumes "reachOf frames file pb = Some r"
    and "0 \<le> cf_Offset file" "cf_Offset file + cf_Bytes file \<le> max_i64"
  shows "(\<forall>p. p \<in> span_bytes (rc_Claimed r) \<longleftrightarrow>
      (\<exists>f \<in> set frames. served f \<and> (\<exists>(x, y) \<in> set (mf_ByteRanges f). \<exists>k. x \<le> k \<and> k < y \<and> 0 \<le> k \<and>
         k < cf_Bytes file \<and> (cf_Offset file + k) div pb = rc_FirstPiece r + p))) \<and>
    disjoint_spans (rc_Claimed r) \<and> span_bytes (rc_Claimed r) \<subseteq> {0..<rc_Pieces r} \<and>
    rc_ClaimedPieces r = int (card (span_bytes (rc_Claimed r)))"
proof -
  define first where "first = cf_Offset file div pb"
  define xs where "xs = concat (map (frame_spans file pb first) (filter (\<lambda>f. mf_ByteRanges f \<noteq> []) (filter served frames)))"
  have pos: "0 < pb" "0 < cf_Bytes file" using assms(1) by (auto simp: reachOf_def split: if_splits)
  have s: "cf_Offset file sdiv pb = first" using pos assms(2) by (simp add: first_def sdiv_nonneg)
  have m: "min_i64 \<le> 0" by (simp add: min_i64_def)
  have w: "w64 (cf_Offset file + cf_Bytes file) = cf_Offset file + cf_Bytes file"
    "w64 (cf_Offset file + cf_Bytes file - 1) = cf_Offset file + cf_Bytes file - 1"
    using assms pos m by (intro w64_id; linarith)+
  have n: "(cf_Offset file + cf_Bytes file - 1) sdiv pb = (cf_Offset file + cf_Bytes file - 1) div pb"
    using pos assms(2) by (simp add: sdiv_nonneg)
  have r: "rc_Claimed r = coalescePieceRanges xs" "rc_FirstPiece r = first"
    "rc_Pieces r = (cf_Offset file + cf_Bytes file - 1) div pb - first + 1"
    "rc_ClaimedPieces r = sum_list (map (\<lambda>(b, e). e - b) (rc_Claimed r))"
    using assms(1) unfolding reachOf_def s w n by (auto simp: xs_def Let_def split: if_splits)
  note spans = frame_spans_spec [OF pos(1) assms(2,3) first_def]
  have lt: "\<forall>(a, b) \<in> set xs. a < b" using spans(1) by (fastforce simp: xs_def)
  note co = coalescePieceRanges_spec [OF lt]
  have mem: "p \<in> span_bytes xs \<longleftrightarrow> (\<exists>f \<in> set frames. served f \<and> p \<in> span_bytes (frame_spans file pb first f))" for p
    by (force simp: xs_def span_bytes_def frame_spans_def List.map_filter_def)
  have "p \<in> {0..<rc_Pieces r}" if "p \<in> span_bytes xs" for p
  proof -
    from that mem obtain f where "p \<in> span_bytes (frame_spans file pb first f)" by blast
    then obtain a b where "(a, b) \<in> set (frame_spans file pb first f)" "a \<le> p" "p < b" by (auto simp: span_bytes_def)
    with spans(1) [of f] have "0 \<le> a" "b \<le> (cf_Offset file + cf_Bytes file - 1) div pb + 1 - first" by blast+
    with \<open>a \<le> p\<close> \<open>p < b\<close> show ?thesis by (simp add: r(3))
  qed
  then have "span_bytes xs \<subseteq> {0..<rc_Pieces r}" by blast
  moreover have "rc_ClaimedPieces r = int (card (span_bytes (rc_Claimed r)))"
    using disjoint_spans_card co r by simp
  ultimately show ?thesis using co mem spans(2) by (simp add: r(1,2))
qed

lemma reach_exact_witness:
  "let file = \<lparr>cf_Index = 0, cf_Path = ''a'', cf_Bytes = 100, cf_Offset = 15\<rparr>;
       f = no_frame\<lparr>mf_Path := ''a.jpg'', mf_ByteRanges := [(0, 12), (80, 300)]\<rparr> in
   map_option rc_Claimed (reachOf [f] file 10) = Some [(0, 2), (8, 11)] \<and>
   (\<forall>r. reachOf [f] file 10 = Some r \<longrightarrow> rc_ClaimedPieces r = int (card (span_bytes (rc_Claimed r))))"
proof -
  let ?file = "\<lparr>cf_Index = 0, cf_Path = ''a'', cf_Bytes = 100, cf_Offset = 15\<rparr>"
  let ?f = "no_frame\<lparr>mf_Path := ''a.jpg'', mf_ByteRanges := [(0, 12), (80, 300)]\<rparr>"
  have "map_option rc_Claimed (reachOf [?f] ?file 10) = Some [(0, 2), (8, 11)]" by code_simp
  moreover have "rc_ClaimedPieces r = int (card (span_bytes (rc_Claimed r)))" if "reachOf [?f] ?file 10 = Some r" for r
    using reach_exact [OF that] by (simp add: max_i64_def)
  ultimately show ?thesis unfolding Let_def by blast
qed

section \<open>Sorting\<close>

lemma insert_stable_mset: "mset (insert_stable lt x ys) = add_mset x (mset ys)"
  by (induction ys) auto

lemma sort_stable_mset: "mset (sort_stable lt xs) = mset xs"
  by (induction xs) (simp_all add: sort_stable_def insert_stable_mset)

lemma sort_stable_set [simp]: "set (sort_stable lt xs) = set xs"
  by (metis set_mset_mset sort_stable_mset)

text \<open>A list sorted by an order that refines a key is sorted by the key.\<close>

lemma sort_stable_sorted:
  fixes key :: "'a \<Rightarrow> 'k :: linorder"
  assumes "\<And>a b. lt a b \<Longrightarrow> key a \<le> key b" "\<And>a b. \<not> lt a b \<Longrightarrow> key b \<le> key a"
  shows "sorted (map key (sort_stable lt xs))"
proof -
  have ins: "sorted (map key ys) \<Longrightarrow> sorted (map key (insert_stable lt x ys))" for x ys
  proof (induction ys)
    case (Cons y ys)
    have "\<forall>z \<in> set (insert_stable lt x ys). key y \<le> key z" if "lt y x"
      using Cons.prems assms(1) [OF that]
      by (metis (no_types, lifting) image_eqI insert_iff insert_stable_mset list.set_map list.simps(9) set_mset_add_mset_insert set_mset_mset sorted_simps(2))
    moreover have "\<forall>z \<in> set (y # ys). key x \<le> key z" if "\<not> lt y x"
      using Cons.prems assms(2) [OF that] by (auto intro: order_trans)
    ultimately show ?case using Cons by auto
  qed simp
  show ?thesis by (induction xs) (simp_all add: sort_stable_def ins)
qed

lemma frame_before_time:
  "frame_before a b \<Longrightarrow> ref_TimeMS a \<le> ref_TimeMS b" "\<not> frame_before a b \<Longrightarrow> ref_TimeMS b \<le> ref_TimeMS a"
  by (auto simp: frame_before_def split: if_splits)

definition merge_one :: "FrameRef list \<Rightarrow> FrameRef \<Rightarrow> FrameRef list" where
  "merge_one merged f = (if merged \<noteq> [] \<and> ref_TimeMS (last merged) = ref_TimeMS f then merged else merged @ [f])"

lemma below_last: "sorted (map key xs) \<Longrightarrow> x \<in> set xs \<Longrightarrow> key x \<le> key (last xs)"
  by (induction xs rule: rev_induct) (auto simp: sorted_append)

lemma merge_times_from:
  assumes "sorted_wrt (<) (map ref_TimeMS acc)" "sorted (map ref_TimeMS fs)"
    and "acc \<noteq> [] \<Longrightarrow> \<forall>f \<in> set fs. ref_TimeMS (last acc) \<le> ref_TimeMS f"
  shows "sorted_wrt (<) (map ref_TimeMS (foldl merge_one acc fs)) \<and>
    ref_TimeMS ` set (foldl merge_one acc fs) = ref_TimeMS ` set acc \<union> ref_TimeMS ` set fs \<and>
    set (foldl merge_one acc fs) \<subseteq> set acc \<union> set fs"
  using assms
proof (induction fs arbitrary: acc)
  case (Cons f fs)
  show ?case
  proof (cases "acc \<noteq> [] \<and> ref_TimeMS (last acc) = ref_TimeMS f")
    case True
    then have e: "merge_one acc f = acc" by (simp add: merge_one_def)
    have "ref_TimeMS f \<in> ref_TimeMS ` set acc" using True by (metis image_eqI last_in_set)
    moreover note Cons.IH [of acc]
    ultimately show ?thesis using Cons.prems by (auto simp: e)
  next
    case False
    then have e: "merge_one acc f = acc @ [f]" by (auto simp: merge_one_def)
    have "ref_TimeMS g < ref_TimeMS f" if g: "g \<in> set acc" for g
    proof -
      have "ref_TimeMS g \<le> ref_TimeMS (last acc)"
        using g Cons.prems(1) by (intro below_last) (simp add: strict_sorted_iff)
      moreover have "ref_TimeMS (last acc) < ref_TimeMS f"
      proof -
        have "acc \<noteq> []" using g by auto
        with False Cons.prems(3) have "ref_TimeMS (last acc) \<noteq> ref_TimeMS f" "ref_TimeMS (last acc) \<le> ref_TimeMS f" by auto
        then show ?thesis by simp
      qed
      ultimately show ?thesis by simp
    qed
    then have "sorted_wrt (<) (map ref_TimeMS (acc @ [f]))" using Cons.prems(1) by (auto simp: sorted_wrt_append)
    from Cons.IH [OF this] show ?thesis using Cons.prems(2) by (auto simp: e)
  qed
qed simp

lemma merge_times_spec:
  assumes "sorted (map ref_TimeMS fs)"
  shows "sorted_wrt (<) (map ref_TimeMS (merge_times fs)) \<and>
    ref_TimeMS ` set (merge_times fs) = ref_TimeMS ` set fs \<and> set (merge_times fs) \<subseteq> set fs"
proof -
  have "merge_times fs = foldl merge_one [] fs" by (simp add: merge_times_def merge_one_def [abs_def])
  with merge_times_from [of "[]" fs] assms show ?thesis by simp
qed

section \<open>A file's frames\<close>

text \<open>The set of a directory, whatever was published before.\<close>

definition set_in :: "(string \<Rightarrow> string) \<Rightarrow> Disk \<Rightarrow> string \<Rightarrow> string \<Rightarrow> int \<Rightarrow> string \<Rightarrow> resultSet option" where
  "set_in digest d out_root infoHash index name = fst (loadResultSet digest d out_root infoHash name index newFileSet)"

lemma load_set_in: "fst (loadResultSet digest d out_root infoHash name index fz) = set_in digest d out_root infoHash index name"
  using set_frames_refs [of digest d name _ fz] set_frames_refs [of digest d name _ newFileSet]
  by (auto simp: set_in_def loadResultSet_def case_prod_beta split: option.split)

definition dir_frames :: "(string \<Rightarrow> string) \<Rightarrow> Disk \<Rightarrow> string \<Rightarrow> string \<Rightarrow> int \<Rightarrow> string \<times> bool \<Rightarrow> FrameRef list" where
  "dir_frames digest d out_root infoHash index dir =
     (if snd dir then (case set_in digest d out_root infoHash index (fst dir) of None \<Rightarrow> [] | Some s \<Rightarrow> rset_Frames s) else [])"

lemma gather_sets_frames:
  "fd_Frames (fst (gather_sets digest d out_root infoHash det dirs fz)) =
     fd_Frames det @ concat (map (dir_frames digest d out_root infoHash (fd_Index det)) dirs) \<and>
   fd_Index (fst (gather_sets digest d out_root infoHash det dirs fz)) = fd_Index det"
proof (induction dirs arbitrary: det fz)
  case (Cons dir dirs)
  obtain name isdir where dir: "dir = (name, isdir)" by fastforce
  show ?case
  proof (cases "loadResultSet digest d out_root infoHash name (fd_Index det) fz")
    case (Pair s fz')
    then have "set_in digest d out_root infoHash (fd_Index det) name = s"
      using load_set_in by (metis fst_conv)
    then have "dir_frames digest d out_root infoHash (fd_Index det) dir =
        (if isdir then case s of None \<Rightarrow> [] | Some s \<Rightarrow> rset_Frames s else [])"
      by (simp add: dir_frames_def dir)
    with Pair Cons show ?thesis by (cases s) (simp_all add: dir)
  qed
qed simp

text \<open>What a page is shown of a file has one frame for each moment, in ascending order: the moments are
exactly those of all result sets of the torrent that hold the file, and every frame shown comes from one of them.\<close>

theorem detail_merges:
  assumes "fst (fileDetail digest d out_root infoHash index fz) = Some det"
    and "ReadDir d (path_Join [out_root, infoHash]) = Some dirs"
  shows "sorted_wrt (<) (map ref_TimeMS (fd_Frames det)) \<and>
    ref_TimeMS ` set (fd_Frames det) = ref_TimeMS ` (\<Union>dir \<in> set dirs. set (dir_frames digest d out_root infoHash index dir)) \<and>
    set (fd_Frames det) \<subseteq> (\<Union>dir \<in> set dirs. set (dir_frames digest d out_root infoHash index dir))"
proof -
  let ?start = "\<lparr>fd_Index = index, fd_Path = [], fd_Sets = [], fd_Frames = []\<rparr>"
  let ?all = "concat (map (dir_frames digest d out_root infoHash index) dirs)"
  have all: "fd_Frames (fst (gather_sets digest d out_root infoHash ?start dirs fz)) = ?all"
    using gather_sets_frames [of digest d out_root infoHash ?start dirs fz] by simp
  then have "fd_Frames det = merge_times (sort_stable frame_before ?all)"
    using assms by (auto simp: fileDetail_def case_prod_beta split: if_splits)
  moreover have "sorted (map ref_TimeMS (sort_stable frame_before ?all))"
    by (rule sort_stable_sorted) (auto intro: frame_before_time)
  moreover have "set (sort_stable frame_before ?all) = (\<Union>dir \<in> set dirs. set (dir_frames digest d out_root infoHash index dir))"
    by simp
  ultimately show ?thesis using merge_times_spec [of "sort_stable frame_before ?all"] by simp
qed

text \<open>The walk that counts frames and the one that publishes them agree.\<close>

lemma holds_pictures:
  assumes "out_root \<noteq> []"
  shows "(\<exists>f \<in> set (dir_frames digest d out_root infoHash index (name, True)). ref_URL f \<noteq> []) \<longleftrightarrow>
    holds_frames d infoHash index (name, True)"
proof -
  have "framesOnDisk d m \<noteq> 0 \<longleftrightarrow>
      (\<exists>f \<in> set (fst (set_frames digest d name (m_Frames m) newFileSet)). ref_URL f \<noteq> [])" for m
    by (auto simp: framesOnDisk_def set_frames_refs frame_ref_def filter_empty_conv)
  with assms show ?thesis
    by (auto simp: dir_frames_def set_in_def loadResultSet_def holds_frames_def case_prod_beta split: option.splits)
qed

text \<open>A result set is offered to be cleared of a file exactly when the page shows a picture of that file
from it: the two walks over the disk, one counting frames and one publishing them, agree.\<close>

theorem clear_offered:
  assumes "out_root \<noteq> []" "validInfoHash infoHash" "0 \<le> index"
    and "ReadDir d (path_Join [out_root, infoHash]) = Some dirs"
  shows "name \<in> set (setsHoldingFrames d out_root infoHash index) \<longleftrightarrow>
    (name, True) \<in> set dirs \<and>
    (\<exists>f \<in> set (dir_frames digest d out_root infoHash index (name, True)). ref_URL f \<noteq> [])"
proof -
  have "holds_frames d infoHash index (name, b) \<Longrightarrow> b" for b by (simp add: holds_frames_def)
  then show ?thesis using assms holds_pictures [OF assms(1), of digest d infoHash index name]
    by (force simp: setsHoldingFrames_def)
qed

section \<open>A small disk\<close>

definition two_hash :: string where
  "two_hash = replicate 40 (CHR ''a'')"

definition two_frame :: "int \<Rightarrow> string \<Rightarrow> ManifestFrame" where
  "two_frame ms path = no_frame\<lparr>mf_RequestedMS := ms, mf_Path := path\<rparr>"

definition two_run :: RunRecord where
  "two_run =
     \<lparr>rr_Source = [], rr_InfoHash = two_hash, rr_Name = ''film'', rr_Private = False,
      rr_Plan = \<lparr>pl_Count = 3, pl_Start = (0, 0), pl_End = (1, 0), pl_Profile = [], pl_Format = [], pl_Sequential = False\<rparr>,
      rr_Videos = [\<lparr>cf_Index = 0, cf_Path = ''a.mkv'', cf_Bytes = 100, cf_Offset = 0\<rparr>], rr_Files = None,
      rr_Selected = None, rr_Complete = [], rr_Claimed = None, rr_CreatedAt = 0\<rparr>"

text \<open>Two sets of one file that share a moment; of the second, one point failed and one picture is gone.\<close>

definition two_disk :: Disk where
  "two_disk =
     \<lparr>LoadRun = (\<lambda>h p. if p = ''x'' \<or> p = ''y'' then Some two_run else None),
      LoadManifest = (\<lambda>h p i path.
        if p = ''x'' then Some (no_manifest\<lparr>m_Frames := [two_frame 10 ''p'', two_frame 20 ''q'']\<rparr>)
        else Some (no_manifest\<lparr>m_Frames := [two_frame 20 [], two_frame 30 ''gone'']\<rparr>)),
      ReadDir = (\<lambda>_. Some [(''note'', False), (''x'', True), (''y'', True)]),
      StatSize = (\<lambda>path. if path = ''p'' \<or> path = ''q'' then Some 7 else None)\<rparr>"

lemmas two_eval = two_disk_def two_run_def two_frame_def no_frame_def no_manifest_def set_in_def loadResultSet_def
  dir_frames_def videoPath_def videoEntry_def publish_file_def file_there_def frame_ref_def newFileSet_def Let_def

lemma two_frames:
  "map (\<lambda>f. (ref_TimeMS f, ref_URL f)) (dir_frames id two_disk ''out'' two_hash 0 (''x'', True)) =
     [(10, ''files/p''), (20, ''files/q'')]"
  "map (\<lambda>f. (ref_TimeMS f, ref_URL f)) (dir_frames id two_disk ''out'' two_hash 0 (''y'', True)) = [(20, [])]"
  "dir_frames id two_disk ''out'' two_hash 0 (''note'', False) = []"
  by (simp_all add: two_eval)

lemma two_hash_valid: "validInfoHash two_hash"
  by (simp add: validInfoHash_def hexOfLength_def two_hash_def list_all_iff)

lemma detail_merges_witness:
  "\<exists>det. fst (fileDetail id two_disk ''out'' two_hash 0 newFileSet) = Some det \<and>
     sorted_wrt (<) (map ref_TimeMS (fd_Frames det)) \<and> ref_TimeMS ` set (fd_Frames det) = {10, 20}"
proof -
  let ?dirs = "[(''note'', False), (''x'', True), (''y'', True)]"
  have "ReadDir two_disk (path_Join [''out'', two_hash]) = Some ?dirs" by (simp add: two_disk_def)
  moreover have "\<exists>det. fst (fileDetail id two_disk ''out'' two_hash 0 newFileSet) = Some det"
  proof -
    let ?start = "\<lparr>fd_Index = 0, fd_Path = [], fd_Sets = [], fd_Frames = []\<rparr>"
    have "fd_Frames (fst (gather_sets id two_disk ''out'' two_hash ?start ?dirs newFileSet)) \<noteq> []"
      using gather_sets_frames [of id two_disk "''out''" two_hash ?start ?dirs newFileSet] two_frames by auto
    then show ?thesis using two_hash_valid by (simp add: fileDetail_def two_disk_def case_prod_beta)
  qed
  ultimately obtain det where det: "fst (fileDetail id two_disk ''out'' two_hash 0 newFileSet) = Some det"
    and dirs: "ReadDir two_disk (path_Join [''out'', two_hash]) = Some ?dirs" by blast
  have t: "ref_TimeMS ` set (dir_frames id two_disk ''out'' two_hash 0 (''x'', True)) = {10, 20}"
    "ref_TimeMS ` set (dir_frames id two_disk ''out'' two_hash 0 (''y'', True)) = {20}"
    "dir_frames id two_disk ''out'' two_hash 0 (''note'', False) = []"
    by (simp_all add: two_eval)
  from detail_merges [OF det dirs] t det show ?thesis by (auto simp: image_Un)
qed

lemma clear_offered_witness:
  "''x'' \<in> set (setsHoldingFrames two_disk ''out'' two_hash 0) \<and>
   ''y'' \<notin> set (setsHoldingFrames two_disk ''out'' two_hash 0)"
proof -
  have "ReadDir two_disk (path_Join [''out'', two_hash]) = Some [(''note'', False), (''x'', True), (''y'', True)]"
    by (simp add: two_disk_def)
  note c = clear_offered [OF _ two_hash_valid _ this, of 0 _ id]
  have "\<exists>f \<in> set (dir_frames id two_disk ''out'' two_hash 0 (''x'', True)). ref_URL f \<noteq> []"
    "\<not> (\<exists>f \<in> set (dir_frames id two_disk ''out'' two_hash 0 (''y'', True)). ref_URL f \<noteq> [])"
    by (simp_all add: two_eval)
  with c [of "''x''"] c [of "''y''"] show ?thesis by simp
qed

end
