(* ===== verification/Comparison.thy ===== *)
theory Comparison
  imports ResultLaws FloatLaws
begin

text \<open>
  \<^verbatim>\<open>internal/web/compare.go\<close>: two result sets as a list of moments a page can flip between. Positions are
  doubles, with the code's arithmetic; \<^verbatim>\<open>sort.SearchFloat64s\<close> finds the first position that is not below a
  value, as its documentation promises of an ascending slice.
\<close>

section \<open>Addresses of sets\<close>

record setAddr =
  sa_InfoHash :: string
  sa_Params :: string
  sa_Index :: int

definition setAddr_String :: "setAddr \<Rightarrow> string" where
  "setAddr_String a = sa_InfoHash a @ '':'' @ sa_Params a @ '':'' @ Itoa (sa_Index a)"

definition parseSetAddr :: "string \<Rightarrow> setAddr option" where
  "parseSetAddr s =
     (case Split (TrimSpace s) (CHR '':'') of
        [h, p, i] \<Rightarrow>
          if \<not> validInfoHash h \<or> \<not> validParams p then None
          else (case Atoi i of
                  None \<Rightarrow> None
                | Some index \<Rightarrow> if index < 0 then None else Some \<lparr>sa_InfoHash = h, sa_Params = p, sa_Index = index\<rparr>)
      | _ \<Rightarrow> None)"

section \<open>Sets to choose from\<close>

record CompareSet =
  cs_InfoHash :: string
  cs_Params :: string
  cs_Index :: int
  cs_Name :: string
  cs_Path :: string
  cs_Count :: int
  cs_Points :: int
  cs_Frames :: int
  cs_DurationMS :: int
  cs_Addr :: string

definition selectedIndices :: "RunRecord \<Rightarrow> int list" where
  "selectedIndices run = (case rr_Selected run of None \<Rightarrow> map cf_Index (rr_Videos run) | Some sel \<Rightarrow> sort sel)"

definition compare_set :: "string \<Rightarrow> string \<Rightarrow> int \<Rightarrow> resultSet \<Rightarrow> CompareSet" where
  "compare_set infoHash params index s =
     \<lparr>cs_InfoHash = infoHash, cs_Params = params, cs_Index = index, cs_Name = rset_Name s, cs_Path = rset_Path s,
      cs_Count = rset_Count s, cs_Points = int (length (rset_Frames s)),
      cs_Frames = int (length (filter (\<lambda>f. ref_URL f \<noteq> []) (rset_Frames s))), cs_DurationMS = rset_DurationMS s,
      cs_Addr = setAddr_String \<lparr>sa_InfoHash = infoHash, sa_Params = params, sa_Index = index\<rparr>\<rparr>"

fun index_sets :: "(string \<Rightarrow> string) \<Rightarrow> Disk \<Rightarrow> string \<Rightarrow> string \<Rightarrow> string \<Rightarrow> int list \<Rightarrow> fileSet \<Rightarrow> CompareSet list \<times> fileSet" where
  "index_sets digest d out_root infoHash params [] fz = ([], fz)"
| "index_sets digest d out_root infoHash params (i # is) fz =
     (case loadResultSet digest d out_root infoHash params i fz of (s, fz1) \<Rightarrow>
        case index_sets digest d out_root infoHash params is fz1 of (rest, fz2) \<Rightarrow>
          ((case s of None \<Rightarrow> rest | Some s \<Rightarrow> compare_set infoHash params i s # rest), fz2))"

fun params_sets :: "(string \<Rightarrow> string) \<Rightarrow> Disk \<Rightarrow> string \<Rightarrow> string \<Rightarrow> (string \<times> bool) list \<Rightarrow> fileSet
    \<Rightarrow> CompareSet list \<times> fileSet" where
  "params_sets digest d out_root infoHash [] fz = ([], fz)"
| "params_sets digest d out_root infoHash ((params, isdir) # dirs) fz =
     (if \<not> isdir then params_sets digest d out_root infoHash dirs fz
      else case LoadRun d infoHash params of
        None \<Rightarrow> params_sets digest d out_root infoHash dirs fz
      | Some run \<Rightarrow>
          (case index_sets digest d out_root infoHash params (selectedIndices run) fz of (here, fz1) \<Rightarrow>
             case params_sets digest d out_root infoHash dirs fz1 of (rest, fz2) \<Rightarrow> (here @ rest, fz2)))"

fun hash_sets :: "(string \<Rightarrow> string) \<Rightarrow> Disk \<Rightarrow> string \<Rightarrow> (string \<times> bool) list \<Rightarrow> fileSet \<Rightarrow> CompareSet list \<times> fileSet" where
  "hash_sets digest d out_root [] fz = ([], fz)"
| "hash_sets digest d out_root ((infoHash, isdir) # dirs) fz =
     (if \<not> isdir \<or> \<not> validInfoHash infoHash then hash_sets digest d out_root dirs fz
      else case ReadDir d (path_Join [out_root, infoHash]) of
        None \<Rightarrow> hash_sets digest d out_root dirs fz
      | Some params \<Rightarrow>
          (case params_sets digest d out_root infoHash params fz of (here, fz1) \<Rightarrow>
             case hash_sets digest d out_root dirs fz1 of (rest, fz2) \<Rightarrow> (here @ rest, fz2)))"

definition set_before :: "CompareSet \<Rightarrow> CompareSet \<Rightarrow> bool" where
  "set_before a b =
     (if cs_Name a \<noteq> cs_Name b then str_less (cs_Name a) (cs_Name b)
      else if cs_Index a \<noteq> cs_Index b then cs_Index a < cs_Index b
      else str_less (cs_Params a) (cs_Params b))"

definition comparableSets :: "(string \<Rightarrow> string) \<Rightarrow> Disk \<Rightarrow> string \<Rightarrow> fileSet \<Rightarrow> CompareSet list \<times> fileSet" where
  "comparableSets digest d out_root fz =
     (if out_root = [] then ([], fz)
      else case ReadDir d out_root of
        None \<Rightarrow> ([], fz)
      | Some dirs \<Rightarrow> (case hash_sets digest d out_root dirs fz of (sets, fz') \<Rightarrow> (sort_stable set_before sets, fz')))"

section \<open>Pairing\<close>

definition f64_neg :: "f64 \<Rightarrow> f64" where
  "f64_neg x = (- fst x, snd x)"

definition f64_sub :: "f64 \<Rightarrow> f64 \<Rightarrow> f64" where
  "f64_sub x y = f64_add x (f64_neg y)"

definition f64_abs :: "f64 \<Rightarrow> f64" where
  "f64_abs v = (if f64_less v (0, 0) then f64_neg v else v)"

definition f64_max :: "f64 \<Rightarrow> f64 \<Rightarrow> f64" where
  "f64_max x y = (if f64_less x y then y else x)"

text \<open>The double nearest to 0.01, and a thousand.\<close>

definition fractionFloor :: f64 where
  "fractionFloor = (5764607523034235, -59)"

definition timeFloorMS :: f64 where
  "timeFloorMS = (1000, 0)"

datatype Basis = BasisFraction | BasisTime

definition ascendingByTime :: "FrameRef list \<Rightarrow> FrameRef list" where
  "ascendingByTime frames = sort_stable (\<lambda>a b. ref_TimeMS a < ref_TimeMS b) frames"

definition positions :: "FrameRef list \<Rightarrow> int \<Rightarrow> Basis \<Rightarrow> f64 list" where
  "positions frames durationMS basis =
     map (\<lambda>f. if basis = BasisTime \<or> durationMS \<le> 0 then f64_of_int (ref_TimeMS f)
              else f64_div (f64_of_int (ref_TimeMS f)) (f64_of_int durationMS)) frames"

definition halfStep :: "f64 list \<Rightarrow> f64" where
  "halfStep pos =
     (if length pos < 2 then (0, 0)
      else f64_div (f64_sub (last pos) (hd pos)) (f64_of_int (2 * (int (length pos) - 1))))"

definition pairingTolerance :: "f64 list \<Rightarrow> f64 list \<Rightarrow> f64 \<Rightarrow> f64" where
  "pairingTolerance a b fl = f64_max (f64_max (halfStep a) (halfStep b)) fl"

definition SearchFloat64s :: "f64 list \<Rightarrow> f64 \<Rightarrow> nat" where
  "SearchFloat64s ps v = length (takeWhile (\<lambda>x. f64_less x v) ps)"

definition nearestIndex :: "f64 list \<Rightarrow> f64 \<Rightarrow> nat" where
  "nearestIndex ps v =
     (let i = SearchFloat64s ps v in
      if i = 0 then 0
      else if i = length ps then length ps - 1
      else if f64_le (f64_sub v (ps ! (i - 1))) (f64_sub (ps ! i) v) then i - 1
      else i)"

definition pairs_up :: "f64 list \<Rightarrow> f64 list \<Rightarrow> f64 \<Rightarrow> nat \<Rightarrow> bool" where
  "pairs_up a b tolerance i \<longleftrightarrow>
     (let j = nearestIndex b (a ! i) in
      nearestIndex a (b ! j) = i \<and> \<not> f64_less tolerance (f64_abs (f64_sub (a ! i) (b ! j))))"

definition pairNearest :: "f64 list \<Rightarrow> f64 list \<Rightarrow> f64 \<Rightarrow> (nat \<times> nat) list" where
  "pairNearest a b tolerance =
     (if a = [] \<or> b = [] then []
      else map (\<lambda>i. (i, nearestIndex b (a ! i))) (filter (pairs_up a b tolerance) [0..<length a]))"

section \<open>Comparisons\<close>

record ComparisonArm =
  ca_InfoHash :: string
  ca_Params :: string
  ca_Index :: int
  ca_Name :: string
  ca_Path :: string
  ca_Addr :: string
  ca_Count :: int
  ca_Points :: int
  ca_DurationMS :: int
  ca_Width :: int
  ca_Height :: int
  ca_Unpaired :: int

record ComparePosition =
  cp_A :: FrameRef
  cp_B :: FrameRef
  cp_Fraction :: f64
  cp_Drift :: f64

record Comparison =
  co_A :: ComparisonArm
  co_B :: ComparisonArm
  co_Basis :: Basis
  co_Positions :: "ComparePosition list"

definition compare_arm :: "setAddr \<Rightarrow> resultSet \<Rightarrow> int \<Rightarrow> ComparisonArm" where
  "compare_arm a s unpaired =
     \<lparr>ca_InfoHash = sa_InfoHash a, ca_Params = sa_Params a, ca_Index = sa_Index a, ca_Name = rset_Name s,
      ca_Path = rset_Path s, ca_Addr = setAddr_String a, ca_Count = rset_Count s,
      ca_Points = int (length (rset_Frames s)), ca_DurationMS = rset_DurationMS s, ca_Width = rset_Width s,
      ca_Height = rset_Height s, ca_Unpaired = unpaired\<rparr>"

definition compare_position :: "Basis \<Rightarrow> FrameRef \<Rightarrow> FrameRef \<Rightarrow> f64 \<Rightarrow> f64 \<Rightarrow> ComparePosition" where
  "compare_position basis fa fb x y =
     (let scale = (if basis = BasisTime then (0, 0) else (1, 0)) in
      \<lparr>cp_A = fa, cp_B = fb, cp_Fraction = f64_div (f64_mult scale (f64_add x y)) (2, 0),
       cp_Drift = f64_mult scale (f64_abs (f64_sub x y))\<rparr>)"

definition compare_sets :: "setAddr \<Rightarrow> setAddr \<Rightarrow> resultSet \<Rightarrow> resultSet \<Rightarrow> Comparison" where
  "compare_sets a b left right =
     (let time = rset_DurationMS left \<le> 0 \<or> rset_DurationMS right \<le> 0;
          basis = (if time then BasisTime else BasisFraction);
          fl = (if time then timeFloorMS else fractionFloor);
          leftFrames = ascendingByTime (rset_Frames left);
          rightFrames = ascendingByTime (rset_Frames right);
          leftPos = positions leftFrames (rset_DurationMS left) basis;
          rightPos = positions rightFrames (rset_DurationMS right) basis;
          pairs = pairNearest leftPos rightPos (pairingTolerance leftPos rightPos fl)
      in \<lparr>co_A = compare_arm a left (int (length leftFrames) - int (length pairs)),
          co_B = compare_arm b right (int (length rightFrames) - int (length pairs)),
          co_Basis = basis,
          co_Positions = map (\<lambda>(i, j). compare_position basis (leftFrames ! i) (rightFrames ! j)
                                 (leftPos ! i) (rightPos ! j)) pairs\<rparr>)"

text \<open>The set that is missing, or the comparison.\<close>

definition comparison ::
  "(string \<Rightarrow> string) \<Rightarrow> Disk \<Rightarrow> string \<Rightarrow> setAddr \<Rightarrow> setAddr \<Rightarrow> fileSet \<Rightarrow> (setAddr, Comparison) result \<times> fileSet" where
  "comparison digest d out_root a b fz =
     (case loadResultSet digest d out_root (sa_InfoHash a) (sa_Params a) (sa_Index a) fz of
        (None, fz1) \<Rightarrow> (Inl a, fz1)
      | (Some left, fz1) \<Rightarrow>
        (case loadResultSet digest d out_root (sa_InfoHash b) (sa_Params b) (sa_Index b) fz1 of
           (None, fz2) \<Rightarrow> (Inl b, fz2)
         | (Some right, fz2) \<Rightarrow> (Inr (compare_sets a b left right), fz2)))"

end
