(* ===== verification/ComparisonLaws.thy ===== *)
theory ComparisonLaws
  imports Comparison
begin

text \<open>
  What a comparison promises: each of its moments is a frame of either set and the nearest one the other set
  has, no frame is shown twice, moments never cross, and naming the sets the other way round gives the same moments.
\<close>

section \<open>Signed doubles\<close>

lemma f64_neg_val [simp]: "f64_val (f64_neg x) = - f64_val x"
  by (cases x) (simp add: f64_neg_def f64_val_def)

lemma f64_round_neg: "f64_round (- m, e) = f64_neg (f64_round (m, e))"
  by (simp add: f64_round_def f64_neg_def Let_def)

lemma f64_round_monotone:
  assumes "f64_val (m, e) \<le> f64_val (n, d)"
  shows "f64_val (f64_round (m, e)) \<le> f64_val (f64_round (n, d))"
proof -
  have s: "0 \<le> f64_val (k, l) \<longleftrightarrow> 0 \<le> k" for k l using f64_sign [of "(k, l)"] by simp
  consider "0 \<le> m" "0 \<le> n" | "m \<le> 0" "0 \<le> n" | "m \<le> 0" "n \<le> 0" | "0 \<le> m" "n < 0" by linarith
  then show ?thesis
  proof cases
    case 1
    then show ?thesis using assms by (rule f64_round_mono)
  next
    case 2
    have "0 \<le> f64_val (f64_round (- m, e))" "0 \<le> f64_val (f64_round (n, d))"
      using 2 by (auto intro: f64_round_nonneg)
    then show ?thesis by (simp add: f64_round_neg)
  next
    case 3
    have "f64_val (- n, d) \<le> f64_val (- m, e)" using assms by (simp add: f64_val_def)
    then have "f64_val (f64_round (- n, d)) \<le> f64_val (f64_round (- m, e))" using 3 by (intro f64_round_mono) auto
    then show ?thesis by (simp add: f64_round_neg)
  next
    case 4
    then have False using assms s [of m e] s [of n d] by linarith
    then show ?thesis ..
  qed
qed

lemma f64_add_exact: "\<exists>m l. f64_add x y = f64_round (m, l) \<and> f64_val (m, l) = f64_val x + f64_val y"
proof -
  obtain m e m' e' where xy: "x = (m, e)" "y = (m', e')" by (cases x, cases y)
  define l where "l = min e e'"
  have p: "(2 :: real) powi e = 2 ^ nat (e - l) * 2 powi l" "(2 :: real) powi e' = 2 ^ nat (e' - l) * 2 powi l"
    by (simp_all add: l_def flip: power_int_of_nat power_int_add)
  have "f64_val (m * 2 ^ nat (e - l) + m' * 2 ^ nat (e' - l), l) = f64_val x + f64_val y"
    unfolding xy f64_val_def by (simp add: p algebra_simps)
  then show ?thesis by (intro exI) (auto simp: f64_add_def xy l_def Let_def)
qed

lemma f64_add_comm: "f64_add x y = f64_add y x"
  by (cases x; cases y) (simp add: f64_add_def Let_def min.commute add.commute)

lemma f64_sub_mono:
  assumes "f64_val x - f64_val y \<le> f64_val x' - f64_val y'"
  shows "f64_val (f64_sub x y) \<le> f64_val (f64_sub x' y')"
proof -
  obtain m l m' l' where "f64_sub x y = f64_round (m, l)" "f64_val (m, l) = f64_val x - f64_val y"
    "f64_sub x' y' = f64_round (m', l')" "f64_val (m', l') = f64_val x' - f64_val y'"
    using f64_add_exact [of x "f64_neg y"] f64_add_exact [of x' "f64_neg y'"] by (auto simp: f64_sub_def)
  with assms show ?thesis by (metis f64_round_monotone)
qed

lemma f64_sub_self: "f64_val (f64_sub x x) = 0"
  by (cases x) (simp add: f64_sub_def f64_add_def f64_neg_def f64_round_def f64_val_def Let_def)

lemma f64_sub_nonneg: "f64_val y \<le> f64_val x \<Longrightarrow> 0 \<le> f64_val (f64_sub x y)"
  using f64_sub_mono [of x x x y] by (simp add: f64_sub_self)

lemma f64_sub_flip: "f64_sub y x = f64_neg (f64_sub x y)"
proof -
  obtain m e m' e' where xy: "x = (m, e)" "y = (m', e')" by (cases x, cases y)
  let ?B = "m * 2 ^ nat (e - min e e') + - m' * 2 ^ nat (e' - min e e')"
  have "f64_sub y x = f64_round (- ?B, min e e')"
    by (simp add: f64_sub_def f64_add_def xy f64_neg_def Let_def min.commute)
  moreover have "f64_sub x y = f64_round (?B, min e e')"
    by (simp add: f64_sub_def f64_add_def xy f64_neg_def Let_def)
  ultimately show ?thesis by (simp only: f64_round_neg)
qed

lemma f64_abs_eq: "f64_abs v = (\<bar>fst v\<bar>, snd v)"
  by (cases v) (auto simp: f64_abs_def f64_neg_def f64_less_def mult_less_0_iff)

lemma f64_abs_val: "f64_val (f64_abs v) = \<bar>f64_val v\<bar>"
  by (cases v) (simp add: f64_abs_eq f64_val_def abs_mult)

lemma f64_abs_flip: "f64_abs (f64_sub y x) = f64_abs (f64_sub x y)"
  by (simp add: f64_sub_flip [of y x] f64_abs_eq f64_neg_def)

lemma f64_max_val: "f64_val (f64_max x y) = max (f64_val x) (f64_val y)"
  by (simp add: f64_max_def f64_less_val)

lemma f64_distance_mono:
  assumes "\<bar>f64_val x - f64_val y\<bar> \<le> \<bar>f64_val x' - f64_val y'\<bar>"
  shows "f64_val (f64_abs (f64_sub x y)) \<le> f64_val (f64_abs (f64_sub x' y'))"
proof -
  have d: "f64_val (f64_abs (f64_sub u v)) = f64_val (if f64_val v \<le> f64_val u then f64_sub u v else f64_sub v u)" for u v
  proof (cases "f64_val v \<le> f64_val u")
    case True
    then show ?thesis using f64_sub_nonneg [OF True] by (simp add: f64_abs_val)
  next
    case False
    then have "f64_val u \<le> f64_val v" by simp
    from f64_sub_nonneg [OF this] False show ?thesis by (simp add: f64_abs_val f64_sub_flip [of u v])
  qed
  show ?thesis unfolding d using assms by (auto intro!: f64_sub_mono split: if_splits)
qed

section \<open>The nearest position\<close>

definition ascending_f64 :: "f64 list \<Rightarrow> bool" where
  "ascending_f64 ps \<longleftrightarrow> sorted (map f64_val ps)"

lemma search_below: "k < SearchFloat64s ps v \<Longrightarrow> f64_val (ps ! k) < f64_val v"
  unfolding SearchFloat64s_def
  by (metis f64_less_val nth_mem set_takeWhileD takeWhile_nth)

lemma search_le: "SearchFloat64s ps v \<le> length ps"
  by (simp add: SearchFloat64s_def length_takeWhile_le)

lemma search_above:
  assumes "ascending_f64 ps" "SearchFloat64s ps v \<le> k" "k < length ps"
  shows "f64_val v \<le> f64_val (ps ! k)"
proof -
  have i: "SearchFloat64s ps v < length ps" using assms by simp
  then have "\<not> f64_less (ps ! SearchFloat64s ps v) v"
    unfolding SearchFloat64s_def by (rule nth_length_takeWhile)
  moreover have "f64_val (ps ! SearchFloat64s ps v) \<le> f64_val (ps ! k)"
    using assms i sorted_nth_mono [of "map f64_val ps" "SearchFloat64s ps v" k] by (simp add: ascending_f64_def)
  ultimately show ?thesis by (simp add: f64_less_val)
qed

lemma search_mono: "f64_val v \<le> f64_val v' \<Longrightarrow> SearchFloat64s ps v \<le> SearchFloat64s ps v'"
  unfolding SearchFloat64s_def by (induction ps) (auto simp: f64_less_val)

lemma nearest_in: "ps \<noteq> [] \<Longrightarrow> nearestIndex ps v < length ps"
  using search_le [of ps v] by (auto simp: nearestIndex_def Let_def)

lemma nearest_mono:
  assumes "f64_val v \<le> f64_val v'"
  shows "nearestIndex ps v \<le> nearestIndex ps v'"
proof -
  let ?i = "SearchFloat64s ps v" and ?i' = "SearchFloat64s ps v'"
  have le: "?i \<le> ?i'" by (rule search_mono [OF assms])
  have near: "SearchFloat64s ps u - 1 \<le> nearestIndex ps u \<and> nearestIndex ps u \<le> SearchFloat64s ps u" for u
    using search_le [of ps u] by (auto simp: nearestIndex_def Let_def)
  show ?thesis
  proof (cases "?i = ?i'")
    case False
    with le near [of v] near [of v'] show ?thesis by linarith
  next
    case True
    have "f64_val (f64_sub v (ps ! (?i - 1))) \<le> f64_val (f64_sub v' (ps ! (?i - 1)))"
      "f64_val (f64_sub (ps ! ?i) v') \<le> f64_val (f64_sub (ps ! ?i) v)"
      using assms by (auto intro: f64_sub_mono)
    with True show ?thesis by (auto simp: nearestIndex_def Let_def f64_le_val)
  qed
qed

lemma nearest_best:
  assumes "ascending_f64 ps" "k < length ps"
  shows "f64_le (f64_abs (f64_sub v (ps ! nearestIndex ps v))) (f64_abs (f64_sub v (ps ! k)))"
proof -
  let ?i = "SearchFloat64s ps v" and ?d = "\<lambda>j. f64_val (f64_abs (f64_sub v (ps ! j)))"
  have mono: "j \<le> l \<Longrightarrow> l < length ps \<Longrightarrow> f64_val (ps ! j) \<le> f64_val (ps ! l)" for j l
    using assms(1) sorted_nth_mono [of "map f64_val ps" j l] by (simp add: ascending_f64_def)
  have below: "?d (?i - 1) \<le> ?d k" if "k < ?i"
  proof -
    have "f64_val (ps ! (?i - 1)) < f64_val v" "f64_val (ps ! k) \<le> f64_val (ps ! (?i - 1))"
      using that search_below [of "?i - 1" ps v] mono [of k "?i - 1"] search_le [of ps v] by auto
    then show ?thesis by (intro f64_distance_mono) auto
  qed
  have above: "?d ?i \<le> ?d k" if "?i \<le> k"
  proof -
    have "f64_val v \<le> f64_val (ps ! ?i)" "f64_val (ps ! ?i) \<le> f64_val (ps ! k)"
      using that assms search_above [OF assms(1)] mono [of ?i k] by auto
    then show ?thesis by (intro f64_distance_mono) auto
  qed
  have low: "0 < ?i \<Longrightarrow> ?d (?i - 1) = f64_val (f64_sub v (ps ! (?i - 1)))"
    using search_below [of "?i - 1" ps v] f64_sub_nonneg [of "ps ! (?i - 1)" v] by (simp add: f64_abs_val)
  have high: "?i < length ps \<Longrightarrow> ?d ?i = f64_val (f64_sub (ps ! ?i) v)"
    using search_above [OF assms(1) order_refl, of v] f64_sub_nonneg [of v "ps ! ?i"]
    by (simp add: f64_abs_val f64_sub_flip [of v])
  have "?d (nearestIndex ps v) \<le> ?d k"
  proof (cases "k < ?i")
    case True
    have "?d (nearestIndex ps v) \<le> ?d (?i - 1)"
      using True low high search_le [of ps v] by (auto simp: nearestIndex_def Let_def f64_le_val)
    with below [OF True] show ?thesis by simp
  next
    case False
    then have "?i < length ps" using assms(2) by simp
    then have "?d (nearestIndex ps v) \<le> ?d ?i"
      using low high by (auto simp: nearestIndex_def Let_def f64_le_val)
    with above False show ?thesis by simp
  qed
  then show ?thesis by (simp add: f64_le_val)
qed

section \<open>Pairs\<close>

lemma pair_in:
  "(i, j) \<in> set (pairNearest a b t) \<longleftrightarrow>
     i < length a \<and> j < length b \<and> nearestIndex b (a ! i) = j \<and> nearestIndex a (b ! j) = i \<and>
     \<not> f64_less t (f64_abs (f64_sub (a ! i) (b ! j)))"
  using nearest_in [of b "a ! i"] by (auto simp: pairNearest_def pairs_up_def Let_def)

lemma pairs_ascend:
  assumes "ascending_f64 a"
  shows "sorted_wrt (\<lambda>p q. fst p < fst q \<and> snd p < snd q) (pairNearest a b t)"
proof -
  have up: "sorted_wrt (\<lambda>i k. i < k \<and> nearestIndex b (a ! i) < nearestIndex b (a ! k))
      (filter (pairs_up a b t) [0..<length a])"
  proof (rule sorted_wrt_mono_rel [rotated])
    show "sorted_wrt (<) (filter (pairs_up a b t) [0..<length a])" by (intro sorted_wrt_filter) simp
    fix i k assume m: "i \<in> set (filter (pairs_up a b t) [0..<length a])" "k \<in> set (filter (pairs_up a b t) [0..<length a])"
      and lt: "i < k"
    have "f64_val (a ! i) \<le> f64_val (a ! k)"
      using assms m lt sorted_nth_mono [of "map f64_val a" i k] by (simp add: ascending_f64_def)
    from nearest_mono [OF this] have "nearestIndex b (a ! i) \<le> nearestIndex b (a ! k)" .
    moreover have "nearestIndex b (a ! i) \<noteq> nearestIndex b (a ! k)"
      using m lt by (auto simp: pairs_up_def Let_def)
    ultimately show "i < k \<and> nearestIndex b (a ! i) < nearestIndex b (a ! k)" using lt by simp
  qed
  then show ?thesis by (simp add: pairNearest_def sorted_wrt_map)
qed

text \<open>C32: Pairing by mutual nearest neighbours is sound and complete: the pairs of two ascending lists of
positions ascend on both sides, so that none cross and no position is used twice; a pair is in it exactly when
each of the two is the nearest position the search finds for the other and they are within the tolerance; and
what the search finds is nearest indeed: no other position is closer.\<close>

theorem pairs_nearest:
  assumes "ascending_f64 a" "ascending_f64 b"
  shows "sorted_wrt (\<lambda>p q. fst p < fst q \<and> snd p < snd q) (pairNearest a b t) \<and>
    (\<forall>i j. (i, j) \<in> set (pairNearest a b t) \<longleftrightarrow>
       i < length a \<and> j < length b \<and> nearestIndex b (a ! i) = j \<and> nearestIndex a (b ! j) = i \<and>
       f64_le (f64_abs (f64_sub (a ! i) (b ! j))) t) \<and>
    (\<forall>(i, j) \<in> set (pairNearest a b t).
       (\<forall>k < length b. f64_le (f64_abs (f64_sub (a ! i) (b ! j))) (f64_abs (f64_sub (a ! i) (b ! k)))) \<and>
       (\<forall>k < length a. f64_le (f64_abs (f64_sub (a ! i) (b ! j))) (f64_abs (f64_sub (a ! k) (b ! j)))))"
proof -
  have best: "f64_le (f64_abs (f64_sub (a ! i) (b ! j))) (f64_abs (f64_sub (a ! i) (b ! k)))"
    if "(i, j) \<in> set (pairNearest a b t)" "k < length b" for i j k
    using nearest_best [OF assms(2) that(2), of "a ! i"] that(1) by (simp add: pair_in)
  moreover have "f64_le (f64_abs (f64_sub (a ! i) (b ! j))) (f64_abs (f64_sub (a ! k) (b ! j)))"
    if "(i, j) \<in> set (pairNearest a b t)" "k < length a" for i j k
    using nearest_best [OF assms(1) that(2), of "b ! j"] that(1)
    by (simp add: pair_in f64_abs_flip [of "b ! j"])
  ultimately show ?thesis using pairs_ascend [OF assms(1)] by (auto simp: pair_in f64_le_def)
qed

lemma pairs_flip:
  assumes "ascending_f64 a" "ascending_f64 b" "f64_val t = f64_val t'"
  shows "pairNearest b a t' = map (\<lambda>(i, j). (j, i)) (pairNearest a b t)"
proof -
  have lt: "sorted_wrt (<) xs" if "sorted_wrt (\<lambda>p q. fst p < fst q \<and> snd p < snd q) xs" for xs :: "(nat \<times> nat) list"
    using that by (rule sorted_wrt_mono_rel [rotated]) (auto simp: less_prod_def)
  have "sorted_wrt (\<lambda>p q. fst p < fst q \<and> snd p < snd q) (map (\<lambda>(i, j). (j, i)) (pairNearest a b t))"
    using pairs_ascend [OF assms(1)] by (simp add: sorted_wrt_map case_prod_beta conj_commute)
  moreover have "set (pairNearest b a t') = set (map (\<lambda>(i, j). (j, i)) (pairNearest a b t))"
  proof (rule set_eqI)
    fix p :: "nat \<times> nat"
    obtain j i where p: "p = (j, i)" by fastforce
    have "(j, i) \<in> set (pairNearest b a t') \<longleftrightarrow> (i, j) \<in> set (pairNearest a b t)"
      using assms(3) f64_abs_flip [of "b ! j" "a ! i"] by (auto simp: pair_in f64_less_val)
    then show "p \<in> set (pairNearest b a t') \<longleftrightarrow> p \<in> set (map (\<lambda>(i, j). (j, i)) (pairNearest a b t))"
      by (force simp: p)
  qed
  ultimately show ?thesis using lt pairs_ascend [OF assms(2)] by (intro strict_sorted_equal) auto
qed

section \<open>Positions of frames\<close>

definition sticky_div :: "nat \<Rightarrow> nat \<Rightarrow> nat" where
  "sticky_div a d = 2 * (a div d) + (if a mod d = 0 then 0 else 1)"

lemma sticky_div_mono: "a \<le> b \<Longrightarrow> sticky_div a d \<le> sticky_div b d"
proof (cases "a div d = b div d")
  case True
  assume "a \<le> b"
  with True have "a mod d \<le> b mod d" by (metis add_le_cancel_left mult_div_mod_eq)
  with True show ?thesis by (simp add: sticky_div_def)
next
  case False
  assume "a \<le> b"
  with False have "a div d < b div d" by (meson div_le_mono le_neq_implies_less)
  then show ?thesis by (simp add: sticky_div_def)
qed

lemma f64_val_mono: "m \<le> n \<Longrightarrow> f64_val (m, e) \<le> f64_val (n, e)"
  by (simp add: f64_val_def mult_right_mono)

lemma f64_div_mono:
  assumes "n \<le> n'" "0 < fst y"
  shows "f64_val (f64_div (n, e) y) \<le> f64_val (f64_div (n', e) y)"
proof -
  obtain d e' where y: "y = (d, e')" by (cases y)
  let ?s = "bitlen (nat \<bar>d\<bar>) + 55"
  let ?g = "\<lambda>n. sgn n * int (sticky_div (nat \<bar>n\<bar> * 2 ^ ?s) (nat \<bar>d\<bar>))"
  have div: "f64_div (n, e) y = f64_round (?g n, e - e' - int ?s - 1)" for n
    using assms(2) by (simp add: f64_div_def y sticky_div_def Let_def)
  have pos: "int (sticky_div (nat \<bar>k\<bar> * 2 ^ ?s) (nat \<bar>d\<bar>)) \<le> int (sticky_div (nat \<bar>l\<bar> * 2 ^ ?s) (nat \<bar>d\<bar>))"
    if "\<bar>k\<bar> \<le> \<bar>l\<bar>" for k l
    using that by (intro of_nat_mono sticky_div_mono mult_right_mono) auto
  have "?g n \<le> ?g n'"
  proof -
    consider "0 \<le> n" | "n < 0" "0 \<le> n'" | "n' < 0" using assms(1) by linarith
    then show ?thesis
    proof cases
      case 1
      then show ?thesis using pos [of n n'] assms(1) by (cases "n = 0"; cases "n' = 0") auto
    next
      case 2
      then have "?g n \<le> 0" "0 \<le> ?g n'" by (auto simp: sgn_if)
      then show ?thesis by linarith
    next
      case 3
      then show ?thesis using pos [of n' n] assms(1) by auto
    qed
  qed
  from f64_val_mono [OF this] show ?thesis unfolding div by (rule f64_round_monotone)
qed

definition timed :: "FrameRef list \<Rightarrow> bool" where
  "timed frames \<longleftrightarrow> (\<forall>f \<in> set frames. \<bar>ref_TimeMS f\<bar> < 2 ^ 53)"

lemma ascendingByTime_sorted: "sorted (map ref_TimeMS (ascendingByTime frames))"
  unfolding ascendingByTime_def by (rule sort_stable_sorted) auto

lemma f64_of_int_pos: "0 < n \<Longrightarrow> 0 < fst (f64_of_int n)"
proof -
  assume n: "0 < n"
  let ?k = "bitlen (nat n) - 53"
  have "0 < round_even (nat n) ?k"
  proof (cases "?k = 0")
    case False
    have "2 ^ ?k \<le> (2::nat) ^ (bitlen (nat n) - 1)" using False by (intro power_increasing) auto
    also have "\<dots> \<le> nat n" using bitlen_bounds [of "nat n"] n by simp
    finally have "0 < nat n div 2 ^ ?k" by (simp add: div_greater_zero_iff)
    with round_even_bounds(1) [of "nat n" ?k] show ?thesis by linarith
  qed (use n in simp)
  with n show ?thesis by (simp add: f64_of_int_def f64_round_def Let_def)
qed

lemma positions_ascend:
  assumes "timed frames"
  shows "ascending_f64 (positions (ascendingByTime frames) durationMS basis)"
proof -
  let ?fs = "ascendingByTime frames"
  let ?pos = "\<lambda>f. if basis = BasisTime \<or> durationMS \<le> 0 then f64_of_int (ref_TimeMS f)
              else f64_div (f64_of_int (ref_TimeMS f)) (f64_of_int durationMS)"
  have exact: "f64_of_int (ref_TimeMS f) = (ref_TimeMS f, 0)" if "f \<in> set ?fs" for f
    using that assms by (intro f64_of_int_exact) (simp add: timed_def ascendingByTime_def)
  have "sorted_wrt (\<lambda>f g. ref_TimeMS f \<le> ref_TimeMS g) ?fs"
    using ascendingByTime_sorted [of frames] by (simp add: sorted_wrt_map)
  then have "sorted_wrt (\<lambda>f g. f64_val (?pos f) \<le> f64_val (?pos g)) ?fs"
  proof (rule sorted_wrt_mono_rel [rotated])
    fix f g assume "f \<in> set ?fs" "g \<in> set ?fs" "ref_TimeMS f \<le> ref_TimeMS g"
    then show "f64_val (?pos f) \<le> f64_val (?pos g)"
      using f64_div_mono [OF _ f64_of_int_pos, of "ref_TimeMS f" "ref_TimeMS g" durationMS 0]
      by (auto simp: exact intro: f64_val_mono)
  qed
  then show ?thesis by (simp add: ascending_f64_def positions_def sorted_wrt_map)
qed

section \<open>The other way round\<close>

definition flip_position :: "ComparePosition \<Rightarrow> ComparePosition" where
  "flip_position p = p\<lparr>cp_A := cp_B p, cp_B := cp_A p\<rparr>"

definition flip_comparison :: "Comparison \<Rightarrow> Comparison" where
  "flip_comparison c = c\<lparr>co_A := co_B c, co_B := co_A c, co_Positions := map flip_position (co_Positions c)\<rparr>"

lemma position_flip: "flip_position (compare_position basis f g x y) = compare_position basis g f y x"
  by (simp add: flip_position_def compare_position_def Let_def f64_add_comm [of x y] f64_abs_flip [of x y])

lemma tolerance_flip: "f64_val (pairingTolerance a b fl) = f64_val (pairingTolerance b a fl)"
  by (simp add: pairingTolerance_def f64_max_val max.commute)

lemma compare_sets_flip:
  assumes "timed (rset_Frames left)" "timed (rset_Frames right)"
  shows "compare_sets b a right left = flip_comparison (compare_sets a b left right)"
proof -
  let ?time = "rset_DurationMS left \<le> 0 \<or> rset_DurationMS right \<le> 0"
  let ?basis = "if ?time then BasisTime else BasisFraction" and ?fl = "if ?time then timeFloorMS else fractionFloor"
  let ?l = "positions (ascendingByTime (rset_Frames left)) (rset_DurationMS left) ?basis"
  let ?r = "positions (ascendingByTime (rset_Frames right)) (rset_DurationMS right) ?basis"
  have p: "pairNearest ?r ?l (pairingTolerance ?r ?l ?fl) =
      map (\<lambda>(i, j). (j, i)) (pairNearest ?l ?r (pairingTolerance ?l ?r ?fl))"
    by (rule pairs_flip [OF positions_ascend [OF assms(1)] positions_ascend [OF assms(2)] tolerance_flip])
  have t: "(rset_DurationMS right \<le> 0 \<or> rset_DurationMS left \<le> 0) = ?time" by auto
  show ?thesis
    unfolding compare_sets_def Let_def t p by (simp add: flip_comparison_def case_prod_beta position_flip)
qed

text \<open>A comparison does not depend on which set is named first: naming them the other way round gives the same
moments in the same order, with the same places and drifts, and the two sides exchanged.\<close>

theorem comparison_flips:
  assumes "fst (comparison digest d out_root a b fz) = Inr c"
    and "\<forall>x \<in> {a, b}. \<forall>s. set_in digest d out_root (sa_InfoHash x) (sa_Index x) (sa_Params x) = Some s \<longrightarrow>
      timed (rset_Frames s)"
  shows "fst (comparison digest d out_root b a fz') = Inr (flip_comparison c)"
proof -
  let ?s = "\<lambda>x. set_in digest d out_root (sa_InfoHash x) (sa_Index x) (sa_Params x)"
  have form: "fst (comparison digest d out_root x y fz) =
      (case ?s x of None \<Rightarrow> Inl x | Some left \<Rightarrow> (case ?s y of None \<Rightarrow> Inl y | Some right \<Rightarrow> Inr (compare_sets x y left right)))"
    for x y fz
    unfolding comparison_def load_set_in [symmetric, of _ _ _ _ _ _ fz]
    by (auto split: prod.splits option.splits) (metis fst_conv load_set_in option.distinct(1) option.inject)+
  obtain left right where lr: "?s a = Some left" "?s b = Some right" "c = compare_sets a b left right"
    using assms(1) unfolding form by (auto split: option.splits)
  then have "timed (rset_Frames left)" "timed (rset_Frames right)" using assms(2) by auto
  from compare_sets_flip [OF this] lr show ?thesis unfolding form by simp
qed

section \<open>Addresses\<close>

lemma hexOfLength_chars:
  assumes "hexOfLength s n" "c \<in> set s"
  shows "\<not> is_space c \<and> c \<noteq> CHR '':''"
  using assms by (auto simp: hexOfLength_def list_all_iff is_space_def Let_def)

lemma addr_parses:
  assumes "validInfoHash (sa_InfoHash a)" "validParams (sa_Params a)" "0 \<le> sa_Index a" "sa_Index a \<le> max_i64"
  shows "parseSetAddr (setAddr_String a) = Some a"
proof -
  let ?h = "sa_InfoHash a" and ?p = "sa_Params a" and ?i = "Itoa (sa_Index a)"
  have h: "CHR '':'' \<notin> set ?h" "CHR '':'' \<notin> set ?p" "\<forall>c \<in> set ?h \<union> set ?p. \<not> is_space c"
    using assms(1,2) hexOfLength_chars by (auto simp: validInfoHash_def validParams_def)
  have i: "CHR '':'' \<notin> set ?i"
    using nat_str_digits [of "CHR '':''" "nat (sa_Index a)"] assms(3) by (auto simp: Itoa_def digit_of_def)
  have "TrimSpace (setAddr_String a) = setAddr_String a"
    using h(3) Itoa_chars [OF assms(3)] by (intro TrimSpace_id) (auto simp: setAddr_String_def is_space_def)
  moreover have "Split (setAddr_String a) (CHR '':'') = [?h, ?p, ?i]"
    using h(1,2) i by (simp add: setAddr_String_def Split_append Split_absent)
  ultimately show ?thesis using assms ParseInt_Itoa [OF assms(3,4)] by (simp add: parseSetAddr_def)
qed

section \<open>Small comparisons\<close>

lemma pairs_nearest_witness:
  "pairNearest [(0, 0), (1, 0), (4, 0)] [(1, 0), (3, 0)] (1, 0) = [(1, 0), (2, 1)] \<and>
   f64_le (f64_abs (f64_sub (4, 0) (3, 0))) (f64_abs (f64_sub (4, 0) (1, 0)))"
proof -
  let ?a = "[(0, 0), (1, 0), (4, 0)] :: f64 list" and ?b = "[(1, 0), (3, 0)] :: f64 list"
  have p: "pairNearest ?a ?b (1, 0) = [(1, 0), (2, 1)]" by code_simp
  have asc: "ascending_f64 ?a" "ascending_f64 ?b" by (simp_all add: ascending_f64_def f64_val_def)
  have "(2, 1) \<in> set (pairNearest ?a ?b (1, 0))" unfolding p by simp
  from bspec [OF conjunct2 [OF conjunct2 [OF pairs_nearest [OF asc, of "(1, 0)"]]] this]
  have "\<forall>k < length ?b. f64_le (f64_abs (f64_sub (?a ! 2) (?b ! 1))) (f64_abs (f64_sub (?a ! 2) (?b ! k)))"
    unfolding prod.case by (rule conjunct1)
  from spec [OF this, of 0] p show ?thesis by simp
qed

lemma comparison_flips_witness:
  "\<exists>c. fst (comparison id two_disk ''out'' \<lparr>sa_InfoHash = two_hash, sa_Params = ''x'', sa_Index = 0\<rparr>
      \<lparr>sa_InfoHash = two_hash, sa_Params = ''y'', sa_Index = 0\<rparr> newFileSet) = Inr c \<and>
    fst (comparison id two_disk ''out'' \<lparr>sa_InfoHash = two_hash, sa_Params = ''y'', sa_Index = 0\<rparr>
      \<lparr>sa_InfoHash = two_hash, sa_Params = ''x'', sa_Index = 0\<rparr> newFileSet) = Inr (flip_comparison c)"
proof -
  let ?a = "\<lparr>sa_InfoHash = two_hash, sa_Params = ''x'', sa_Index = 0\<rparr>" and ?b = "\<lparr>sa_InfoHash = two_hash, sa_Params = ''y'', sa_Index = 0\<rparr>"
  have fr: "rset_Frames s = dir_frames id two_disk ''out'' two_hash 0 (name, True)"
    if "set_in id two_disk ''out'' two_hash 0 name = Some s" for name s
    using that by (simp add: dir_frames_def)
  have t: "timed (dir_frames id two_disk ''out'' two_hash 0 (name, True))"
    if "map (\<lambda>f. (ref_TimeMS f, ref_URL f)) (dir_frames id two_disk ''out'' two_hash 0 (name, True)) = xs"
      "\<forall>x \<in> set xs. \<bar>fst x\<bar> < 2 ^ 53" for name xs
    using that by (auto simp: timed_def)
  have "timed (dir_frames id two_disk ''out'' two_hash 0 (''x'', True))" by (rule t [OF two_frames(1)]) simp
  moreover have "timed (dir_frames id two_disk ''out'' two_hash 0 (''y'', True))" by (rule t [OF two_frames(2)]) simp
  ultimately have times: "\<forall>x \<in> {?a, ?b}. \<forall>s. set_in id two_disk ''out'' (sa_InfoHash x) (sa_Index x) (sa_Params x) = Some s \<longrightarrow>
      timed (rset_Frames s)" using fr by auto
  have "set_in id two_disk ''out'' two_hash 0 ''x'' \<noteq> None" "set_in id two_disk ''out'' two_hash 0 ''y'' \<noteq> None"
    using two_frames(1,2) by (auto simp: dir_frames_def split: option.splits)
  then have "\<exists>c. fst (comparison id two_disk ''out'' ?a ?b newFileSet) = Inr c"
    by (auto simp: comparison_def split: prod.splits option.splits) (metis fst_conv load_set_in option.distinct(1))+
  then obtain c where c: "fst (comparison id two_disk ''out'' ?a ?b newFileSet) = Inr c" ..
  from comparison_flips [OF c times] c show ?thesis by blast
qed

end
