(* ===== verification/Listing.thy ===== *)
theory Listing
  imports ResultLaws RowState
begin

text \<open>
  \<^verbatim>\<open>internal/web/listing.go\<close>: the rows of the run panel, the registry's live entries merged with the
  records on disk. What an entry tells of itself (\<^verbatim>\<open>runEntry.info\<close>) is an argument; a time is a number of
  nanoseconds, \<open>None\<close> the zero time.
\<close>

section \<open>Readings\<close>

record RowStall =
  rst_Code :: string
  rst_SinceMS :: int

record RowAvailability =
  rav_CopiesPerPiece :: f64
  rav_Unavailable :: int
  rav_Pieces :: int

record Live =
  lv_Peers :: int
  lv_Seeds :: int
  lv_DownloadBps :: "f64 option"
  lv_UploadBps :: "f64 option"
  lv_Swarm :: "RowAvailability option"
  lv_Stall :: "RowStall option"

definition renderStall :: "Events.Stall option \<Rightarrow> RowStall option" where
  "renderStall s =
     map_option (\<lambda>s. \<lparr>rst_Code = code_text (Some (st_Code s)), rst_SinceMS = Milliseconds (st_Since s)\<rparr>) s"

definition renderAvailability :: "SwarmAvailability option \<Rightarrow> RowAvailability option" where
  "renderAvailability a =
     map_option (\<lambda>a. \<lparr>rav_CopiesPerPiece = CopiesPerPiece a, rav_Unavailable = sw_Unavailable a,
                      rav_Pieces = sw_NumPieces a\<rparr>) a"

section \<open>Rows\<close>

record RunInfo =
  rn_ID :: string
  rn_State :: RunState
  rn_Source :: string
  rn_InfoHash :: string
  rn_Name :: string
  rn_Err :: string
  rn_QueuedAt :: int
  rn_StartedAt :: "int option"
  rn_EndedAt :: "int option"
  rn_Live :: "Live option"
  rn_Priority :: int
  rn_QueuePosition :: int
  rn_Arrival :: int

record diskRun =
  dr_InfoHash :: string
  dr_Params :: string
  dr_Name :: string
  dr_Source :: string
  dr_Files :: int
  dr_Complete :: int
  dr_Selected :: int
  dr_CreatedAt :: int

record RunSummary =
  su_ID :: string
  su_State :: "RunState option"
  su_Source :: string
  su_Name :: string
  su_ProvisionalName :: string
  su_InfoHash :: string
  su_Params :: string
  su_Files :: int
  su_Complete :: int
  su_Selected :: int
  su_Err :: string
  su_When :: int
  su_Live :: "Live option"
  su_Priority :: "int option"
  su_QueuePosition :: int
  su_Arrival :: int

definition short_of :: "int \<Rightarrow> int \<Rightarrow> bool" where
  "short_of whole_files asked \<longleftrightarrow> 0 < asked \<and> whole_files < asked"

definition Partial :: "RunSummary \<Rightarrow> bool" where
  "Partial r \<longleftrightarrow> short_of (su_Complete r) (su_Selected r)"

definition liveWhen :: "RunInfo \<Rightarrow> int" where
  "liveWhen info =
     (case rn_EndedAt info of
        Some t \<Rightarrow> t
      | None \<Rightarrow> (case rn_StartedAt info of Some t \<Rightarrow> t | None \<Rightarrow> rn_QueuedAt info))"

text \<open>A live entry's own row, and what a record adds to it.\<close>

definition live_row :: "RunInfo \<Rightarrow> RunSummary" where
  "live_row info =
     \<lparr>su_ID = rn_ID info, su_State = Some (rn_State info), su_Source = rn_Source info, su_Name = rn_Name info,
      su_ProvisionalName = [], su_InfoHash = rn_InfoHash info, su_Params = [], su_Files = 0, su_Complete = 0,
      su_Selected = 0, su_Err = rn_Err info, su_When = liveWhen info, su_Live = rn_Live info,
      su_Priority = (if queueable (rn_State info) then Some (rn_Priority info) else None),
      su_QueuePosition = (if queueable (rn_State info) then rn_QueuePosition info else 0), su_Arrival = rn_Arrival info\<rparr>"

definition merged_row :: "diskRun \<Rightarrow> RunSummary \<Rightarrow> RunSummary" where
  "merged_row d r =
     r\<lparr>su_Name := (if su_Name r = [] then dr_Name d else su_Name r), su_Params := dr_Params d,
       su_Files := dr_Files d, su_Complete := dr_Complete d, su_Selected := dr_Selected d,
       su_Source := (if su_Source r = [] then dr_Source d else su_Source r)\<rparr>"

definition provisional :: "(string \<Rightarrow> Magnet option) \<Rightarrow> RunSummary \<Rightarrow> RunSummary" where
  "provisional parse_magnet r =
     (if su_Name r \<noteq> [] then r
      else case MagnetDisplayName parse_magnet (su_Source r) of
        None \<Rightarrow> r
      | Some dn \<Rightarrow> r\<lparr>su_ProvisionalName := dn\<rparr>)"

definition disk_row :: "diskRun \<Rightarrow> RunSummary" where
  "disk_row d =
     \<lparr>su_ID = [], su_State = None, su_Source = dr_Source d, su_Name = dr_Name d, su_ProvisionalName = [],
      su_InfoHash = dr_InfoHash d, su_Params = dr_Params d, su_Files = dr_Files d, su_Complete = dr_Complete d,
      su_Selected = dr_Selected d, su_Err = [], su_When = dr_CreatedAt d, su_Live = None, su_Priority = None,
      su_QueuePosition = 0, su_Arrival = 0\<rparr>"

definition byHash :: "diskRun list \<Rightarrow> string \<Rightarrow> nat list" where
  "byHash disk infoHash = filter (\<lambda>i. dr_InfoHash (disk ! i) = infoHash) [0..<length disk]"

text \<open>The record a live entry takes: its torrent's only one, unless an earlier entry has it.\<close>

definition taken_record :: "diskRun list \<Rightarrow> nat list \<Rightarrow> RunInfo \<Rightarrow> nat option" where
  "taken_record disk consumed info =
     (if rn_InfoHash info = [] then None
      else case byHash disk (rn_InfoHash info) of
        [i] \<Rightarrow> if i \<in> set consumed then None else Some i
      | _ \<Rightarrow> None)"

fun live_rows :: "(string \<Rightarrow> Magnet option) \<Rightarrow> diskRun list \<Rightarrow> nat list \<Rightarrow> RunInfo list \<Rightarrow> RunSummary list \<times> nat list" where
  "live_rows parse_magnet disk consumed [] = ([], consumed)"
| "live_rows parse_magnet disk consumed (info # infos) =
     (case taken_record disk consumed info of
        None \<Rightarrow>
          (case live_rows parse_magnet disk consumed infos of (rows, c) \<Rightarrow>
             (provisional parse_magnet (live_row info) # rows, c))
      | Some i \<Rightarrow>
          (case live_rows parse_magnet disk (i # consumed) infos of (rows, c) \<Rightarrow>
             (provisional parse_magnet (merged_row (disk ! i) (live_row info)) # rows, c)))"

definition unconsumed :: "diskRun list \<Rightarrow> nat list \<Rightarrow> diskRun list" where
  "unconsumed disk consumed = map ((!) disk) (filter (\<lambda>i. i \<notin> set consumed) [0..<length disk])"

definition listRuns :: "(string \<Rightarrow> Magnet option) \<Rightarrow> RunInfo list \<Rightarrow> diskRun list \<Rightarrow> RunSummary list" where
  "listRuns parse_magnet live disk =
     (case live_rows parse_magnet disk [] live of (rows, consumed) \<Rightarrow>
        sort_stable (\<lambda>a b. su_When b < su_When a) (rows @ map disk_row (unconsumed disk consumed)))"

section \<open>The records on disk\<close>

definition disk_run :: "string \<Rightarrow> RunRecord \<Rightarrow> diskRun" where
  "disk_run params run =
     \<lparr>dr_InfoHash = rr_InfoHash run, dr_Params = params, dr_Name = rr_Name run, dr_Source = rr_Source run,
      dr_Files = int (length (rr_Videos run)), dr_Complete = int (length (rr_Complete run)),
      dr_Selected = SelectedCount run, dr_CreatedAt = rr_CreatedAt run\<rparr>"

definition walk_params :: "Disk \<Rightarrow> string \<Rightarrow> (string \<times> bool) list \<Rightarrow> diskRun list" where
  "walk_params d infoHash dirs =
     List.map_filter (\<lambda>(params, isdir). if \<not> isdir then None else map_option (disk_run params) (LoadRun d infoHash params)) dirs"

definition walkRuns :: "Disk \<Rightarrow> string \<Rightarrow> diskRun list" where
  "walkRuns d out_root =
     (if out_root = [] then []
      else case ReadDir d out_root of
        None \<Rightarrow> []
      | Some dirs \<Rightarrow>
          concat (map (\<lambda>(infoHash, isdir).
            if \<not> isdir then []
            else case ReadDir d (path_Join [out_root, infoHash]) of None \<Rightarrow> [] | Some ps \<Rightarrow> walk_params d infoHash ps) dirs))"

text \<open>The files, whole files and selected files of a torrent's only record.\<close>

definition runRecordCounts :: "Disk \<Rightarrow> string \<Rightarrow> string \<Rightarrow> (int \<times> int \<times> int) option" where
  "runRecordCounts d out_root infoHash =
     (if out_root = [] \<or> infoHash = [] then None
      else case ReadDir d (path_Join [out_root, infoHash]) of
        None \<Rightarrow> None
      | Some dirs \<Rightarrow>
          (case walk_params d infoHash dirs of
             [r] \<Rightarrow> Some (dr_Files r, dr_Complete r, dr_Selected r)
           | _ \<Rightarrow> None))"

end
