(* ===== verification/ListingLaws.thy ===== *)
theory ListingLaws
  imports Listing
begin

text \<open>
  What the run panel promises: every live run is one row and every record on disk is one row, whichever of them
  were merged, newest first; and the counts pushed to a page agree with the ones it lists.
\<close>

section \<open>Rows\<close>

definition row_record :: "RunSummary \<Rightarrow> string \<times> string \<times> int \<times> int \<times> int" where
  "row_record r = (su_InfoHash r, su_Params r, su_Files r, su_Complete r, su_Selected r)"

definition disk_record :: "diskRun \<Rightarrow> string \<times> string \<times> int \<times> int \<times> int" where
  "disk_record d = (dr_InfoHash d, dr_Params d, dr_Files d, dr_Complete d, dr_Selected d)"

lemma provisional_fields [simp]:
  "su_ID (provisional pm r) = su_ID r" "su_Params (provisional pm r) = su_Params r"
  "row_record (provisional pm r) = row_record r" "su_When (provisional pm r) = su_When r"
  by (auto simp: provisional_def row_record_def split: option.split)

lemma taken_record_spec:
  assumes "taken_record disk consumed info = Some i"
  shows "i < length disk" "i \<notin> set consumed" "dr_InfoHash (disk ! i) = rn_InfoHash info"
proof -
  have "byHash disk (rn_InfoHash info) = [i]" and i: "i \<notin> set consumed"
    using assms by (auto simp: taken_record_def split: if_splits list.splits)
  then have "i \<in> set (byHash disk (rn_InfoHash info))" by simp
  then show "i < length disk" "dr_InfoHash (disk ! i) = rn_InfoHash info" by (auto simp: byHash_def)
  show "i \<notin> set consumed" by (rule i)
qed

lemma unconsumed_take:
  assumes "i < length disk" "i \<notin> set consumed"
  shows "mset (unconsumed disk consumed) = add_mset (disk ! i) (mset (unconsumed disk (i # consumed)))"
proof -
  have "mset (filter (\<lambda>j. j \<notin> set consumed) [0..<length disk]) =
      add_mset i (mset (filter (\<lambda>j. j \<notin> set (i # consumed)) [0..<length disk]))"
  proof -
    have "filter (\<lambda>j. j \<notin> set (i # consumed)) [0..<length disk] =
        removeAll i (filter (\<lambda>j. j \<notin> set consumed) [0..<length disk])"
      by (auto simp: removeAll_filter_not_eq intro!: filter_cong)
    moreover have "distinct (filter (\<lambda>j. j \<notin> set consumed) [0..<length disk])" by simp
    moreover have "i \<in> set (filter (\<lambda>j. j \<notin> set consumed) [0..<length disk])" using assms by simp
    ultimately show ?thesis by (simp add: distinct_remove1_removeAll [symmetric])
  qed
  then show ?thesis by (simp add: unconsumed_def)
qed

lemma live_rows_spec:
  assumes "\<forall>d \<in> set disk. dr_Params d \<noteq> []"
  shows "map su_ID (fst (live_rows pm disk consumed infos)) = map rn_ID infos \<and>
    mset (map row_record (filter (\<lambda>r. su_Params r \<noteq> []) (fst (live_rows pm disk consumed infos)))) +
      mset (map disk_record (unconsumed disk (snd (live_rows pm disk consumed infos)))) =
    mset (map disk_record (unconsumed disk consumed))"
proof (induction infos arbitrary: consumed)
  case (Cons info infos)
  show ?case
  proof (cases "taken_record disk consumed info")
    case None
    with Cons show ?thesis by (simp add: case_prod_beta live_row_def)
  next
    case (Some i)
    note t = taken_record_spec [OF Some]
    have "dr_Params (disk ! i) \<noteq> []" using assms t(1) by simp
    moreover have "row_record (merged_row (disk ! i) (live_row info)) = disk_record (disk ! i)"
      using t(3) by (simp add: row_record_def merged_row_def live_row_def disk_record_def)
    ultimately show ?thesis using Some Cons [of "i # consumed"] unconsumed_take [OF t(1,2)]
      by (simp add: case_prod_beta) (simp add: merged_row_def live_row_def)
  qed
qed simp

text \<open>C28: The panel lists every live run in exactly one row and every record on disk in exactly one row, with that
record's counts, whether the two were merged or not; and its rows are ordered newest first.\<close>

theorem panel_lists:
  assumes "\<forall>info \<in> set live. rn_ID info \<noteq> []" "\<forall>d \<in> set disk. dr_Params d \<noteq> []"
  shows "mset (map su_ID (filter (\<lambda>r. su_ID r \<noteq> []) (listRuns pm live disk))) = mset (map rn_ID live) \<and>
    mset (map row_record (filter (\<lambda>r. su_Params r \<noteq> []) (listRuns pm live disk))) = mset (map disk_record disk) \<and>
    sorted (map (\<lambda>r. - su_When r) (listRuns pm live disk))"
proof -
  let ?rows = "fst (live_rows pm disk [] live)" and ?c = "snd (live_rows pm disk [] live)"
  have l: "mset (listRuns pm live disk) = mset ?rows + mset (map disk_row (unconsumed disk ?c))"
    by (simp add: listRuns_def case_prod_beta sort_stable_mset)
  have parts: "mset (map f (filter P (listRuns pm live disk))) =
      mset (map f (filter P ?rows)) + mset (map f (filter P (map disk_row (unconsumed disk ?c))))" for f :: "RunSummary \<Rightarrow> 'b" and P
    by (simp only: mset_map mset_filter l filter_union_mset image_mset_union)
  note spec = live_rows_spec [OF assms(2), of pm "[]" live]
  have u: "set (unconsumed disk ?c) \<subseteq> set disk" by (auto simp: unconsumed_def)
  have "unconsumed disk [] = disk" by (simp add: unconsumed_def map_nth)
  moreover have "map row_record (filter (\<lambda>r. su_Params r \<noteq> []) (map disk_row (unconsumed disk ?c))) =
      map disk_record (unconsumed disk ?c)"
  proof -
    have "filter (\<lambda>r. su_Params r \<noteq> []) (map disk_row (unconsumed disk ?c)) = map disk_row (unconsumed disk ?c)"
      using assms(2) u by (intro filter_True) (auto simp: disk_row_def)
    then show ?thesis by (simp add: disk_row_def row_record_def disk_record_def)
  qed
  ultimately have disk: "mset (map row_record (filter (\<lambda>r. su_Params r \<noteq> []) (listRuns pm live disk))) = mset (map disk_record disk)"
    using spec by (simp only: parts)
  have "filter (\<lambda>r. su_ID r \<noteq> []) (map disk_row (unconsumed disk ?c)) = []"
    by (auto simp: filter_empty_conv disk_row_def)
  moreover have "filter (\<lambda>r. su_ID r \<noteq> []) ?rows = ?rows"
  proof (rule filter_True)
    show "\<forall>r \<in> set ?rows. su_ID r \<noteq> []" using spec assms(1) by (metis (no_types, lifting) imageE image_eqI list.set_map)
  qed
  ultimately have ids: "mset (map su_ID (filter (\<lambda>r. su_ID r \<noteq> []) (listRuns pm live disk))) = mset (map rn_ID live)"
    by (simp only: parts list.map(1) mset.simps(1) add_0_right conjunct1 [OF spec])
  have "sorted (map (\<lambda>r. - su_When r) (listRuns pm live disk))"
    unfolding listRuns_def case_prod_beta by (rule sort_stable_sorted) auto
  with disk ids show ?thesis by blast
qed

section \<open>Counts\<close>

text \<open>A tree as its runs leave it: a directory for each torrent, and in it records of that torrent.\<close>

definition tidy :: "Disk \<Rightarrow> string \<Rightarrow> (string \<times> bool) list \<Rightarrow> string \<Rightarrow> bool" where
  "tidy d out_root dirs h \<longleftrightarrow>
     ReadDir d out_root = Some dirs \<and> distinct (map fst dirs) \<and>
     (ReadDir d (path_Join [out_root, h]) \<noteq> None \<longrightarrow> (h, True) \<in> set dirs) \<and>
     (\<forall>g p r. LoadRun d g p = Some r \<longrightarrow> rr_InfoHash r = g)"

lemma walk_params_hash:
  assumes "tidy d out_root dirs h" "r \<in> set (walk_params d g ps)"
  shows "dr_InfoHash r = g"
  using assms by (auto simp: walk_params_def List.map_filter_def disk_run_def tidy_def split: if_splits)

text \<open>The counts a page is pushed when a run ends are those the panel lists: there are some exactly when the
torrent has a single record in the listing, and then they are that record's.\<close>

theorem counts_agree:
  assumes "tidy d out_root dirs h" "out_root \<noteq> []" "h \<noteq> []"
  shows "runRecordCounts d out_root h =
    (case filter (\<lambda>r. dr_InfoHash r = h) (walkRuns d out_root) of
       [r] \<Rightarrow> Some (dr_Files r, dr_Complete r, dr_Selected r)
     | _ \<Rightarrow> None)"
proof -
  let ?at = "\<lambda>(g, isdir). if \<not> isdir then [] else case ReadDir d (path_Join [out_root, g]) of None \<Rightarrow> [] | Some ps \<Rightarrow> walk_params d g ps"
  let ?here = "case ReadDir d (path_Join [out_root, h]) of None \<Rightarrow> [] | Some ps \<Rightarrow> walk_params d h ps"
  have hash: "dr_InfoHash r = fst gd" if "r \<in> set (?at gd)" for r gd
    using that walk_params_hash [OF assms(1)] by (auto split: if_splits option.splits prod.splits)
  have one: "filter (\<lambda>r. dr_InfoHash r = h) (?at gd) = (if fst gd = h then ?at gd else [])" for gd
    using hash [of _ gd] by (auto simp: filter_empty_conv filter_id_conv)
  have "filter (\<lambda>r. dr_InfoHash r = h) (concat (map ?at ds)) = concat (map ?at (filter (\<lambda>gd. fst gd = h) ds))" for ds
    by (induction ds) (simp_all only: list.map concat.simps filter_append one filter.simps, simp_all)
  moreover have "concat (map ?at (filter (\<lambda>gd. fst gd = h) dirs)) = ?here"
  proof (cases "(h, True) \<in> set dirs")
    case True
    have "distinct (map fst dirs)" using assms(1) by (simp add: tidy_def)
    with True have "filter (\<lambda>gd. fst gd = h) dirs = [(h, True)]"
    proof (induction dirs)
      case (Cons gd ds)
      show ?case
      proof (cases "gd = (h, True)")
        case True
        with Cons.prems show ?thesis by (auto simp: filter_empty_conv)
      next
        case False
        with Cons.prems have "(h, True) \<in> set ds" by simp
        then have "fst gd \<noteq> h" using Cons.prems by (metis distinct.simps(2) fst_conv image_eqI list.set_map list.simps(9))
        with Cons False show ?thesis by simp
      qed
    qed simp
    then show ?thesis by simp
  next
    case False
    then have n: "ReadDir d (path_Join [out_root, h]) = None" using assms by (auto simp: tidy_def)
    have "filter (\<lambda>gd. fst gd = h) dirs = filter (\<lambda>gd. gd = (h, False)) dirs"
      using False by (intro filter_cong) auto
    then have "\<forall>gd \<in> set (filter (\<lambda>gd. fst gd = h) dirs). gd = (h, False)" by simp
    then have "concat (map ?at (filter (\<lambda>gd. fst gd = h) dirs)) = []" by auto
    with n show ?thesis by simp
  qed
  ultimately have "filter (\<lambda>r. dr_InfoHash r = h) (walkRuns d out_root) = ?here"
    using assms by (simp add: walkRuns_def tidy_def)
  then show ?thesis using assms(2,3) by (simp add: runRecordCounts_def split: option.split)
qed

section \<open>A small panel\<close>

definition panel_info :: "string \<Rightarrow> string \<Rightarrow> int \<Rightarrow> RunInfo" where
  "panel_info i h t =
     \<lparr>rn_ID = i, rn_State = RunRunning, rn_Source = ''s'', rn_InfoHash = h, rn_Name = [], rn_Err = [], rn_QueuedAt = t,
      rn_StartedAt = None, rn_EndedAt = None, rn_Live = None, rn_Priority = 0, rn_QueuePosition = 0, rn_Arrival = 1\<rparr>"

definition demo_found :: "string \<Rightarrow> string \<Rightarrow> int \<Rightarrow> diskRun" where
  "demo_found h p t =
     \<lparr>dr_InfoHash = h, dr_Params = p, dr_Name = ''n'', dr_Source = ''m'', dr_Files = 2, dr_Complete = 1, dr_Selected = 2,
      dr_CreatedAt = t\<rparr>"

text \<open>Two runs of one torrent and its record, which only the first takes, and a torrent with two records.\<close>

lemma panel_lists_witness:
  "let rows = listRuns (\<lambda>_. None) [panel_info ''1'' ''a'' 5, panel_info ''2'' ''a'' 9, panel_info ''3'' ''b'' 7]
     [demo_found ''a'' ''p'' 1, demo_found ''b'' ''q'' 3, demo_found ''b'' ''r'' 8] in
   map (\<lambda>r. (su_ID r, su_Params r)) rows = [(''2'', []), ([], ''r''), (''3'', []), (''1'', ''p''), ([], ''q'')] \<and>
   mset (map row_record (filter (\<lambda>r. su_Params r \<noteq> []) rows)) =
     mset (map disk_record [demo_found ''a'' ''p'' 1, demo_found ''b'' ''q'' 3, demo_found ''b'' ''r'' 8])"
proof -
  let ?live = "[panel_info ''1'' ''a'' 5, panel_info ''2'' ''a'' 9, panel_info ''3'' ''b'' 7]"
  let ?disk = "[demo_found ''a'' ''p'' 1, demo_found ''b'' ''q'' 3, demo_found ''b'' ''r'' 8]"
  have "map (\<lambda>r. (su_ID r, su_Params r)) (listRuns (\<lambda>_. None) ?live ?disk) =
      [(''2'', []), ([], ''r''), (''3'', []), (''1'', ''p''), ([], ''q'')]"
    by (simp add: listRuns_def taken_record_def byHash_def panel_info_def demo_found_def live_row_def merged_row_def
        provisional_def MagnetDisplayName_def unconsumed_def disk_row_def sort_stable_def liveWhen_def upt_rec)
  moreover have "\<forall>info \<in> set ?live. rn_ID info \<noteq> []" "\<forall>d \<in> set ?disk. dr_Params d \<noteq> []"
    by (simp_all add: panel_info_def demo_found_def)
  note panel_lists [OF this, of "\<lambda>_. None"]
  ultimately show ?thesis unfolding Let_def by blast
qed

definition tidy_disk :: Disk where
  "tidy_disk =
     \<lparr>LoadRun = (\<lambda>h p. if h = two_hash \<and> p = ''x'' then Some two_run else None), LoadManifest = (\<lambda>_ _ _ _. None),
      ReadDir = (\<lambda>path. if path = ''out'' then Some [(''note'', False), (two_hash, True)] else Some [(''x'', True), (''y'', True)]),
      StatSize = (\<lambda>_. None)\<rparr>"

lemma counts_agree_witness:
  "filter (\<lambda>r. dr_InfoHash r = two_hash) (walkRuns tidy_disk ''out'') = [disk_run ''x'' two_run] \<and>
   runRecordCounts tidy_disk ''out'' two_hash = Some (1, 0, 1)"
proof -
  have j: "path_Join [''out'', two_hash] \<noteq> ''out''" by (simp add: two_hash_def) code_simp
  have "two_hash \<noteq> ''note''" "two_hash \<noteq> []" by (simp_all add: two_hash_def numeral_eq_Suc)
  then have t: "tidy tidy_disk ''out'' [(''note'', False), (two_hash, True)] two_hash"
    by (auto simp: tidy_def tidy_disk_def two_run_def)
  have f: "filter (\<lambda>r. dr_InfoHash r = two_hash) (walkRuns tidy_disk ''out'') = [disk_run ''x'' two_run]"
    using j by (simp add: walkRuns_def tidy_disk_def walk_params_def List.map_filter_def disk_run_def two_run_def)
  have "runRecordCounts tidy_disk ''out'' two_hash = Some (1, 0, 1)"
    using f \<open>two_hash \<noteq> []\<close>
    by (subst counts_agree [OF t]) (simp_all add: disk_run_def two_run_def SelectedCount_def)
  with f show ?thesis by simp
qed

end
