(* ===== verification/DownloadLaws.thy ===== *)
theory DownloadLaws
  imports Downloads
begin

text \<open>
  The header of a download is safe whatever a torrent is called: its quoted part is plain text without quotes,
  separators or control characters, its encoded part is made of characters no parser stops at, and what it
  encodes is the sanitised name, cut between letters.
\<close>

section \<open>Bytes of runes\<close>

text \<open>A byte a saved name must not hold.\<close>

definition hostile :: "char \<Rightarrow> bool" where
  "hostile c \<longleftrightarrow> (of_char c :: nat) < 32 \<or> of_char c = (127 :: nat) \<or> c = dquote \<or> c = CHR ''/'' \<or> c = CHR 0x5C"

lemma rune_bytes_high:
  assumes "128 \<le> r" "c \<in> set (rune_bytes r)"
  shows "128 \<le> (of_char c :: nat)"
proof -
  have n: "128 \<le> (of_char (char_of (k :: nat)) :: nat) \<longleftrightarrow> 128 \<le> k mod 256" for k by simp
  have "r < 2048 \<Longrightarrow> r div 64 < 32" "r < 65536 \<Longrightarrow> r div 4096 < 16" "r < 1114112 \<Longrightarrow> r div 262144 < 5" by simp_all
  moreover have "k mod 64 < 64" for k :: nat by simp
  ultimately show ?thesis using assms
    by (auto simp: rune_bytes_def split: if_splits)
qed

lemma rune_bytes_low: "r < 128 \<Longrightarrow> rune_bytes r = [char_of r]"
  by (simp add: rune_bytes_def)

lemma rune_bytes_shape: "\<exists>b t. rune_bytes r = b # t \<and> \<not> continues b \<and> list_all continues t"
proof -
  have t: "continues (char_of (128 + k mod 64 :: nat))" for k :: nat
  proof -
    have "k mod 64 < 64" by simp
    then show ?thesis by (simp add: continues_def Let_def)
  qed
  have l: "\<not> continues (char_of (192 + k :: nat))" if "k < 64" for k
    using that by (simp add: continues_def Let_def)
  show ?thesis
  proof (cases "r < 128")
    case True
    then show ?thesis by (simp add: rune_bytes_def continues_def Let_def)
  next
    case f1: False
    show ?thesis
    proof (cases "r < 2048")
      case True
      then have "r div 64 < 64" by simp
      with f1 True t [of r] l [of "r div 64"] show ?thesis by (simp add: rune_bytes_def)
    next
      case f2: False
      show ?thesis
      proof (cases "1114112 \<le> r \<or> (55296 \<le> r \<and> r < 57344)")
        case True
        with f1 f2 show ?thesis by (simp add: rune_bytes_def continues_def Let_def)
      next
        case f3: False
        show ?thesis
        proof (cases "r < 65536")
          case True
          then have "32 + r div 4096 < 64" by simp
          from l [OF this] have "\<not> continues (char_of (224 + r div 4096))" by (simp add: algebra_simps)
          with f1 f2 f3 True t [of r] t [of "r div 64"] show ?thesis by (auto simp: rune_bytes_def)
        next
          case False
          from f3 have "48 + r div 262144 < 64" by auto
          from l [OF this] have "\<not> continues (char_of (240 + r div 262144))" by (simp add: algebra_simps)
          with f1 f2 f3 False t [of r] t [of "r div 64"] t [of "r div 4096"] show ?thesis by (auto simp: rune_bytes_def)
        qed
      qed
    qed
  qed
qed

section \<open>Whole letters\<close>

definition whole_runes :: "string \<Rightarrow> bool" where
  "whole_runes s \<longleftrightarrow> (\<exists>rs. s = concat (map rune_bytes rs))"

lemma whole_Nil [simp]: "whole_runes []"
  unfolding whole_runes_def by (rule exI [of _ "[]"]) simp

lemma whole_append: "whole_runes s \<Longrightarrow> whole_runes t \<Longrightarrow> whole_runes (s @ t)"
  unfolding whole_runes_def by (metis concat_append map_append)

lemma whole_rune: "whole_runes (rune_bytes r)"
  unfolding whole_runes_def by (rule exI [of _ "[r]"]) simp

lemma sanitize_rune_whole: "whole_runes (sanitize_rune r)"
proof -
  have "rune_bytes 45 = ''-''" "rune_bytes 39 = [CHR 0x27]" by (code_simp+)
  then have "whole_runes ''-''" "whole_runes [CHR 0x27]" using whole_rune [of 45] whole_rune [of 39] by simp_all
  then show ?thesis using whole_rune by (simp add: sanitize_rune_def)
qed

lemma whole_concat: "(\<And>x. x \<in> set xs \<Longrightarrow> whole_runes (f x)) \<Longrightarrow> whole_runes (concat (map f xs))"
  by (induction xs) (auto intro: whole_append)

lemma high_not_blank: "128 \<le> (of_char c :: nat) \<Longrightarrow> \<not> blank_or_dot c"
  by (auto simp: blank_or_dot_def)

lemma trim_left_whole: "whole_runes s \<Longrightarrow> whole_runes (dropWhile blank_or_dot s)"
proof -
  have "whole_runes (dropWhile blank_or_dot (concat (map rune_bytes rs)))" for rs
  proof (induction rs)
    case (Cons r rs)
    show ?case
    proof (cases "r < 128")
      case True
      have "whole_runes (char_of r # concat (map rune_bytes rs))"
        using whole_concat [of "r # rs" rune_bytes] whole_rune True by (simp add: rune_bytes_low)
      with Cons True show ?thesis by (simp add: rune_bytes_low)
    next
      case False
      obtain b t where b: "rune_bytes r = b # t" using rune_bytes_shape by blast
      then have "\<not> blank_or_dot b" using False rune_bytes_high [of r b] high_not_blank by simp
      then show ?thesis using whole_concat [of "r # rs" rune_bytes] whole_rune b by simp
    qed
  qed simp
  then show "whole_runes s \<Longrightarrow> whole_runes (dropWhile blank_or_dot s)" by (auto simp: whole_runes_def [of s])
qed

lemma trim_right_whole: "whole_runes s \<Longrightarrow> whole_runes (rev (dropWhile blank_or_dot (rev s)))"
proof -
  have "whole_runes (rev (dropWhile blank_or_dot (rev (concat (map rune_bytes rs)))))" for rs
  proof (induction rs rule: rev_induct)
    case (snoc r rs)
    show ?case
    proof (cases "r < 128")
      case True
      have "whole_runes (concat (map rune_bytes rs) @ [char_of r])"
        using whole_concat [of "rs @ [r]" rune_bytes] whole_rune True by (simp add: rune_bytes_low)
      with snoc True show ?thesis by (simp add: rune_bytes_low)
    next
      case False
      obtain b t where "rune_bytes r = b # t" using rune_bytes_shape by blast
      then obtain l u where b: "rev (rune_bytes r) = l # u" by (metis list.distinct(1) neq_Nil_conv rev_is_Nil_conv)
      then have "l \<in> set (rune_bytes r)" by (metis list.set_intros(1) set_rev)
      with False have "128 \<le> (of_char l :: nat)" by (intro rune_bytes_high [of r]) auto
      then have "\<not> blank_or_dot l" by (rule high_not_blank)
      then have "dropWhile blank_or_dot (rev (concat (map rune_bytes (rs @ [r])))) = rev (concat (map rune_bytes (rs @ [r])))"
        by (simp add: b)
      then have "rev (dropWhile blank_or_dot (rev (concat (map rune_bytes (rs @ [r]))))) = concat (map rune_bytes (rs @ [r]))"
        by (simp only: rev_rev_ident)
      then show ?thesis using whole_concat [of "rs @ [r]" rune_bytes] whole_rune by simp
    qed
  qed simp
  then show "whole_runes s \<Longrightarrow> whole_runes (rev (dropWhile blank_or_dot (rev s)))" by (auto simp: whole_runes_def [of s])
qed

lemma cut_at_spec: "cut_at s n \<le> n \<and> (cut_at s n = 0 \<or> \<not> continues (s ! cut_at s n))"
  by (induction n) auto

lemma take_whole:
  assumes "k < length (concat (map rune_bytes rs))" "k = 0 \<or> \<not> continues (concat (map rune_bytes rs) ! k)"
  shows "whole_runes (take k (concat (map rune_bytes rs)))"
  using assms
proof (induction rs arbitrary: k)
  case (Cons r rs)
  obtain b t where b: "rune_bytes r = b # t" "list_all continues t" using rune_bytes_shape by blast
  show ?case
  proof (cases "k = 0")
    case False
    show ?thesis
    proof (cases "k < length (rune_bytes r)")
      case True
      with False b have "continues (rune_bytes r ! k)" by (simp add: list_all_length nth_Cons')
      with True False Cons.prems(2) show ?thesis by (simp add: nth_append)
    next
      case f: False
      let ?k = "k - length (rune_bytes r)"
      have "whole_runes (take ?k (concat (map rune_bytes rs)))"
        using Cons.prems False f by (intro Cons.IH) (auto simp: nth_append)
      with f show ?thesis using whole_append [OF whole_rune [of r]] by simp
    qed
  qed simp
qed simp

lemma truncate_whole: "whole_runes s \<Longrightarrow> whole_runes (truncateUTF8 s n)"
proof (cases "length s \<le> n")
  case False
  assume "whole_runes s"
  then obtain rs where s: "s = concat (map rune_bytes rs)" by (auto simp: whole_runes_def)
  have "cut_at s n < length s" using False cut_at_spec [of s n] by simp
  then have "whole_runes (take (cut_at s n) s)" using cut_at_spec [of s n] unfolding s by (intro take_whole) auto
  with False show ?thesis by (simp add: truncateUTF8_def)
qed (simp add: truncateUTF8_def)

section \<open>Nothing hostile\<close>

lemma sanitize_rune_safe: "c \<in> set (sanitize_rune r) \<Longrightarrow> \<not> hostile c"
proof -
  assume c: "c \<in> set (sanitize_rune r)"
  show "\<not> hostile c"
  proof (cases "128 \<le> r")
    case True
    then have "c \<in> set (rune_bytes r)" using c by (auto simp: sanitize_rune_def split: if_splits)
    from rune_bytes_high [OF True this] show ?thesis by (auto simp: hostile_def dquote_def)
  next
    case False
    then have "c \<in> {CHR ''-'', CHR 0x27} \<or> (c = char_of r \<and> 32 \<le> r \<and> r < 127 \<and> r \<noteq> 34 \<and> r \<noteq> 47 \<and> r \<noteq> 92)"
      using c by (auto simp: sanitize_rune_def rune_bytes_low IsControl_def split: if_splits)
    then show ?thesis
    proof
      assume r: "c = char_of r \<and> 32 \<le> r \<and> r < 127 \<and> r \<noteq> 34 \<and> r \<noteq> 47 \<and> r \<noteq> 92"
      then have "of_char c = r" by simp
      with r have n: "32 \<le> (of_char c :: nat) \<and> of_char c < (127 :: nat) \<and> of_char c \<noteq> (34 :: nat) \<and>
          of_char c \<noteq> (47 :: nat) \<and> of_char c \<noteq> (92 :: nat)" by simp
      then have "c \<noteq> dquote" "c \<noteq> CHR ''/''" "c \<noteq> CHR 0x5C" by (auto simp: dquote_def)
      with n show ?thesis by (simp add: hostile_def)
    qed (auto simp: hostile_def dquote_def)
  qed
qed

lemma trim_subset: "set (Trim_blank_dot s) \<subseteq> set s"
  by (auto simp: Trim_blank_dot_def dest!: set_dropWhileD)

lemma truncate_subset: "set (truncateUTF8 s n) \<subseteq> set s"
  by (auto simp: truncateUTF8_def dest: in_set_takeD)

lemma sanitized_safe: "c \<in> set (sanitizeTorrentName name) \<Longrightarrow> \<not> hostile c"
  using truncate_subset trim_subset sanitize_rune_safe unfolding sanitizeTorrentName_def by fastforce

lemma sanitized_short: "length (sanitizeTorrentName name) \<le> 200"
  using cut_at_spec by (auto simp: sanitizeTorrentName_def truncateUTF8_def maxTorrentNameBytes_def min_def intro: order_trans)

lemma sanitized_whole: "whole_runes (sanitizeTorrentName name)"
  unfolding sanitizeTorrentName_def Trim_blank_dot_def
  by (intro truncate_whole trim_right_whole trim_left_whole whole_concat sanitize_rune_whole)

section \<open>The quoted name\<close>

lemma first_rune_ascii: "first_rune b s = (r, w) \<Longrightarrow> r < 128 \<Longrightarrow> b = char_of r"
  by (auto simp: first_rune_def Let_def split: if_splits list.splits)

lemma runes_ascii: "r \<in> set (runes s) \<Longrightarrow> r < 128 \<Longrightarrow> char_of r \<in> set s"
proof (induction s rule: runes.induct)
  case (2 b s)
  obtain q w where q: "first_rune b s = (q, w)" by (cases "first_rune b s")
  from 2(2) q consider "r = q" | "r \<in> set (runes (drop (w - 1) s))" by auto
  then show ?case
  proof cases
    case 1
    with first_rune_ascii [OF q] 2(3) show ?thesis by simp
  next
    case 2
    with "2.IH" [OF q [symmetric]] q \<open>r < 128\<close> have "char_of r \<in> set (drop (w - 1) s)" by simp
    then show ?thesis by (auto dest: in_set_dropD)
  qed
qed simp

lemma ascii_from: "c \<in> set (asciiOnly s) \<Longrightarrow> c \<in> set s \<and> (of_char c :: nat) < 127"
proof -
  assume "c \<in> set (asciiOnly s)"
  then have "c \<in> set (concat (map (\<lambda>r. if r \<le> 126 then rune_bytes r else []) (runes s)))"
    using trim_subset unfolding asciiOnly_def by blast
  then obtain r where r: "r \<in> set (runes s)" "r \<le> 126" "c \<in> set (rune_bytes r)" by (auto split: if_splits)
  then show ?thesis using runes_ascii [of r s] by (auto simp: rune_bytes_low)
qed

section \<open>The encoded name\<close>

lemma byte_bound: "(of_char (c :: char) :: nat) < 256"
  by (cases c) (simp only: of_char_Char, rule order.strict_trans2 [OF horner_sum_of_bool_2_less], simp)

text \<open>A reader's decoding: what a percent sign and two upper case hexadecimal digits stand for.\<close>

definition hex_value :: "char \<Rightarrow> nat option" where
  "hex_value c =
     (let n = of_char c :: nat in
      if 48 \<le> n \<and> n \<le> 57 then Some (n - 48) else if 65 \<le> n \<and> n \<le> 70 then Some (n - 55) else None)"

fun percent_decode :: "string \<Rightarrow> string option" where
  "percent_decode [] = Some []"
| "percent_decode (c # s) =
     (if c = CHR ''%''
      then (case s of
              x # y # t \<Rightarrow>
                (case (hex_value x, hex_value y) of
                   (Some m, Some n) \<Rightarrow> map_option ((#) (char_of (16 * m + n))) (percent_decode t)
                 | _ \<Rightarrow> None)
            | _ \<Rightarrow> None)
      else map_option ((#) c) (percent_decode s))"

lemma hex_digit: "n < 16 \<Longrightarrow> hex_value (rfc5987Hex ! n) = Some n \<and> isRFC5987AttrChar (rfc5987Hex ! n)"
proof -
  have "list_all (\<lambda>n. hex_value (rfc5987Hex ! n) = Some n \<and> isRFC5987AttrChar (rfc5987Hex ! n)) [0..<16]" by code_simp
  then show "n < 16 \<Longrightarrow> hex_value (rfc5987Hex ! n) = Some n \<and> isRFC5987AttrChar (rfc5987Hex ! n)"
    by (simp add: list_all_iff)
qed

lemma percent_not_attr: "\<not> isRFC5987AttrChar (CHR ''%'')"
  by code_simp

lemma decode_byte: "percent_decode (percent_byte c @ s) = map_option ((#) c) (percent_decode s)"
proof (cases "isRFC5987AttrChar c")
  case True
  then have "c \<noteq> CHR ''%''" using percent_not_attr by metis
  with True show ?thesis by (simp add: percent_byte_def)
next
  case False
  have "of_char c div 16 < (16 :: nat)" using byte_bound by (intro less_mult_imp_div_less) simp
  then have h: "hex_value (rfc5987Hex ! (of_char c div 16)) = Some (of_char c div 16)"
    "hex_value (rfc5987Hex ! (of_char c mod 16)) = Some (of_char c mod 16)" by (simp_all add: hex_digit)
  have "char_of (16 * (of_char c div 16) + of_char c mod 16 :: nat) = c" by simp
  with False h show ?thesis by (simp add: percent_byte_def)
qed

lemma decode_encoded: "percent_decode (percentEncodeRFC5987 s) = Some s"
  by (induction s) (simp_all add: percentEncodeRFC5987_def decode_byte)

lemma encoded_plain: "c \<in> set (percentEncodeRFC5987 s) \<Longrightarrow> isRFC5987AttrChar c \<or> c = CHR ''%''"
proof -
  assume "c \<in> set (percentEncodeRFC5987 s)"
  then obtain b where b: "c \<in> set (percent_byte b)" by (auto simp: percentEncodeRFC5987_def)
  have "of_char b div 16 < (16 :: nat)" using byte_bound by (intro less_mult_imp_div_less) simp
  with b hex_digit show ?thesis by (auto simp: percent_byte_def split: if_splits)
qed

section \<open>The header\<close>

text \<open>A name that needs no mending: letters in proper encoding, none of them a control character or one that means
something in a path, not beginning or ending with a blank or a dot, and short enough.\<close>

definition fit_to_save :: "string \<Rightarrow> bool" where
  "fit_to_save name \<longleftrightarrow>
     name \<noteq> [] \<and> concat (map rune_bytes (runes name)) = name \<and>
     list_all (\<lambda>r. \<not> IsControl r \<and> r \<notin> {34, 42, 47, 58, 60, 62, 63, 92, 124}) (runes name) \<and>
     \<not> blank_or_dot (hd name) \<and> \<not> blank_or_dot (last name) \<and> length name \<le> 200"

lemma trim_fit: "s \<noteq> [] \<Longrightarrow> \<not> blank_or_dot (hd s) \<Longrightarrow> \<not> blank_or_dot (last s) \<Longrightarrow> Trim_blank_dot s = s"
proof -
  assume s: "s \<noteq> []" "\<not> blank_or_dot (hd s)" "\<not> blank_or_dot (last s)"
  then have "dropWhile blank_or_dot s = s" "dropWhile blank_or_dot (rev s) = rev s"
    using dropWhile_eq_self_iff [of blank_or_dot s] dropWhile_eq_self_iff [of blank_or_dot "rev s"] by (simp_all add: hd_rev)
  then show "Trim_blank_dot s = s" by (simp add: Trim_blank_dot_def)
qed

lemma fit_kept: "fit_to_save name \<Longrightarrow> sanitizeTorrentName name = name"
proof -
  assume f: "fit_to_save name"
  have "sanitize_rune r = rune_bytes r" if "r \<in> set (runes name)" for r
  proof -
    have "\<not> IsControl r \<and> r \<notin> {34, 42, 47, 58, 60, 62, 63, 92, 124}"
      using f that unfolding fit_to_save_def list_all_iff by blast
    moreover have "IsControl 0" by (simp add: IsControl_def)
    ultimately show ?thesis unfolding sanitize_rune_def by (cases "r = 0") simp_all
  qed
  then have "concat (map sanitize_rune (runes name)) = concat (map rune_bytes (runes name))"
    by (metis map_eq_conv)
  with f show ?thesis
    by (simp add: sanitizeTorrentName_def fit_to_save_def trim_fit truncateUTF8_def maxTorrentNameBytes_def)
qed

text \<open>C33: A torrent may be called anything, and the header that offers it for saving says one thing, its name. What
follows the quotes, percent encoded in characters that end nothing, decodes to exactly the sanitised name: at most
200 bytes of whole letters, of any script, with nothing hostile in them, and the very name of the torrent where that
needed no mending. Between the quotes stands the plain part of that name, text under 127 with no quote, separator or
control character; the fallback, the digest the file is stored under, stands there only where nothing plain is left,
and alone where no name is. It has to be plain text itself.\<close>

theorem download_header:
  assumes "\<forall>c \<in> set fallback. (of_char c :: nat) < 127 \<and> \<not> hostile c"
  shows "\<exists>plain encoded.
    contentDispositionAttachment name fallback =
      ''attachment; filename='' @ [dquote] @ plain @ ''.torrent'' @ [dquote] @ encoded \<and>
    plain = (if asciiOnly (sanitizeTorrentName name) = [] then fallback else asciiOnly (sanitizeTorrentName name)) \<and>
    (\<forall>c \<in> set plain. (of_char c :: nat) < 127 \<and> \<not> hostile c) \<and>
    (sanitizeTorrentName name = [] \<and> encoded = [] \<or>
     sanitizeTorrentName name \<noteq> [] \<and>
     (\<exists>p. encoded = ''; filename*=UTF-8'' @ [CHR 0x27, CHR 0x27] @ p @ ''.torrent'' \<and>
        (\<forall>c \<in> set p. isRFC5987AttrChar c \<or> c = CHR ''%'') \<and>
        percent_decode p = Some (sanitizeTorrentName name))) \<and>
    length (sanitizeTorrentName name) \<le> 200 \<and> whole_runes (sanitizeTorrentName name) \<and>
    (\<forall>c \<in> set (sanitizeTorrentName name). \<not> hostile c) \<and>
    (fit_to_save name \<longrightarrow> sanitizeTorrentName name = name)"
proof -
  let ?s = "sanitizeTorrentName name"
  let ?a = "if asciiOnly ?s = [] then fallback else asciiOnly ?s"
  let ?e = "if ?s = [] then [] else ''; filename*=UTF-8'' @ [CHR 0x27, CHR 0x27] @ percentEncodeRFC5987 ?s @ ''.torrent''"
  have a: "\<forall>c \<in> set ?a. (of_char c :: nat) < 127 \<and> \<not> hostile c"
    using assms ascii_from sanitized_safe by simp blast
  have s: "\<forall>c \<in> set ?s. \<not> hostile c" using sanitized_safe by blast
  have p: "\<forall>c \<in> set (percentEncodeRFC5987 ?s). isRFC5987AttrChar c \<or> c = CHR ''%''" using encoded_plain by blast
  have "asciiOnly [] = []" by code_simp
  then have h: "contentDispositionAttachment name fallback =
      ''attachment; filename='' @ [dquote] @ ?a @ ''.torrent'' @ [dquote] @ ?e"
    by (simp add: contentDispositionAttachment_def Let_def)
  have e: "?s = [] \<and> ?e = [] \<or> ?s \<noteq> [] \<and> (\<exists>p. ?e = ''; filename*=UTF-8'' @ [CHR 0x27, CHR 0x27] @ p @ ''.torrent'' \<and>
      (\<forall>c \<in> set p. isRFC5987AttrChar c \<or> c = CHR ''%'') \<and> percent_decode p = Some ?s)"
    using p decode_encoded [of ?s] by auto
  show ?thesis
    by (rule exI [of _ ?a], rule exI [of _ ?e])
      (intro conjI impI h a e s refl sanitized_short sanitized_whole fit_kept)
qed

lemma download_header_witness:
  "sanitizeTorrentName ''../a:b'' = ''-a-b'' \<and>
   (\<exists>p. contentDispositionAttachment ''../a:b'' ''0f'' =
        ''attachment; filename='' @ [dquote] @ ''-a-b.torrent'' @ [dquote] @ ''; filename*=UTF-8'' @
          [CHR 0x27, CHR 0x27] @ p @ ''.torrent'' \<and>
      percent_decode p = Some ''-a-b'')"
proof -
  have f: "\<forall>c \<in> set ''0f''. (of_char c :: nat) < 127 \<and> \<not> hostile c" by (simp add: hostile_def dquote_def)
  have n: "sanitizeTorrentName ''../a:b'' = ''-a-b''" "asciiOnly ''-a-b'' = ''-a-b''" by code_simp+
  from download_header [OF f, of "''../a:b''"] n show ?thesis by auto
qed

end
