(* ===== verification/Removal.thy ===== *)
theory Removal
  imports ResultSets Deletion
begin

text \<open>
  The two removals a page can ask for, \<^verbatim>\<open>internal/web/server.go\<close> and \<^verbatim>\<open>handlers.go\<close>: the server checks what
  reaches the filesystem, calls the deleter it was given, \<^verbatim>\<open>internal/cli/web.go\<close>, and answers with what the
  disk has left. An error is which sentinels \<^verbatim>\<open>errors.Is\<close> finds in it.
\<close>

section \<open>The deleter\<close>

record Deleter =
  dl_DeleteFrame :: "string \<Rightarrow> string \<Rightarrow> int \<Rightarrow> int \<Rightarrow> Disk \<Rightarrow> delete_error option \<times> Disk"
  dl_ClearFile :: "string \<Rightarrow> string \<Rightarrow> int \<Rightarrow> Disk \<Rightarrow> delete_error option \<times> Disk"

text \<open>Which operations fail, for each result set.\<close>

record removal_world =
  rw_delete :: "string \<Rightarrow> delete_world"
  rw_clear :: "string \<Rightarrow> clear_world"

definition layout_of :: "string \<Rightarrow> string \<Rightarrow> string \<Rightarrow> Layout" where
  "layout_of out_root infoHash params = \<lparr>ly_Root = out_root, ly_InfoHash = infoHash, ly_Params = params\<rparr>"

definition output_DeleteFrame ::
  "unicode \<Rightarrow> removal_world \<Rightarrow> string \<Rightarrow> string \<Rightarrow> string \<Rightarrow> int \<Rightarrow> int \<Rightarrow> Disk \<Rightarrow> delete_error option \<times> Disk" where
  "output_DeleteFrame u w out_root infoHash params fileIndex frameIndex d =
     (let l = layout_of out_root infoHash params in
      case DeleteFrame u d l (rw_delete w params) fileIndex frameIndex of
        (ops, e) \<Rightarrow> (e, apply_ops l (\<lambda>_ _. False) d ops))"

definition output_ClearFile ::
  "unicode \<Rightarrow> removal_world \<Rightarrow> string \<Rightarrow> string \<Rightarrow> string \<Rightarrow> int \<Rightarrow> Disk \<Rightarrow> delete_error option \<times> Disk" where
  "output_ClearFile u w out_root infoHash params fileIndex d =
     (let l = layout_of out_root infoHash params in
      case ClearFile u d l (rw_clear w params) fileIndex of
        (ops, e) \<Rightarrow> (e, apply_ops l (stays_of (rw_clear w params)) d ops))"

definition outputDeleter :: "unicode \<Rightarrow> removal_world \<Rightarrow> string \<Rightarrow> Deleter" where
  "outputDeleter u w out_root =
     \<lparr>dl_DeleteFrame = output_DeleteFrame u w out_root, dl_ClearFile = output_ClearFile u w out_root\<rparr>"

section \<open>The server's removals\<close>

datatype removal_error = Unavailable | Malformed | Core "delete_error list"

definition is_core :: "delete_error \<Rightarrow> removal_error \<Rightarrow> bool" where
  "is_core e r = (case r of Core es \<Rightarrow> e \<in> set es | _ \<Rightarrow> False)"

definition empty_detail :: "int \<Rightarrow> FileDetail" where
  "empty_detail i = \<lparr>fd_Index = i, fd_Path = [], fd_Sets = [], fd_Frames = []\<rparr>"

definition fileDetailOrEmpty ::
  "(string \<Rightarrow> string) \<Rightarrow> Disk \<Rightarrow> string \<Rightarrow> string \<Rightarrow> int \<Rightarrow> fileSet \<Rightarrow> FileDetail \<times> fileSet" where
  "fileDetailOrEmpty digest d out_root infoHash fileIndex fz =
     (case fileDetail digest d out_root infoHash fileIndex fz of
        (Some detail, fz') \<Rightarrow> (detail, fz')
      | (None, fz') \<Rightarrow> (empty_detail fileIndex, fz'))"

text \<open>A refusal has the zero detail, which nobody reads.\<close>

type_synonym removed = "(FileDetail \<times> removal_error option) \<times> Disk \<times> fileSet"

definition removal_refused :: "removal_error \<Rightarrow> Disk \<Rightarrow> fileSet \<Rightarrow> removed" where
  "removal_refused e d fz = ((empty_detail 0, Some e), d, fz)"

definition answered :: "(string \<Rightarrow> string) \<Rightarrow> string \<Rightarrow> string \<Rightarrow> int \<Rightarrow> removal_error option \<Rightarrow> Disk \<Rightarrow> fileSet \<Rightarrow> removed" where
  "answered digest out_root infoHash fileIndex e d fz =
     (case fileDetailOrEmpty digest d out_root infoHash fileIndex fz of (detail, fz') \<Rightarrow> ((detail, e), d, fz'))"

definition Server_DeleteFrame ::
  "(string \<Rightarrow> string) \<Rightarrow> Deleter option \<Rightarrow> string \<Rightarrow> string \<Rightarrow> string \<Rightarrow> int \<Rightarrow> int \<Rightarrow> Disk \<Rightarrow> fileSet \<Rightarrow> removed" where
  "Server_DeleteFrame digest deleter out_root infoHash params fileIndex frameIndex d fz =
     (case deleter of
        None \<Rightarrow> removal_refused Unavailable d fz
      | Some dl \<Rightarrow>
        if out_root = [] then removal_refused Unavailable d fz
        else if \<not> validInfoHash infoHash \<or> fileIndex < 0 \<or> frameIndex < 0
        then removal_refused (Core [ErrNoSuchFrame]) d fz
        else if \<not> validParams params then removal_refused Malformed d fz
        else
          (case dl_DeleteFrame dl infoHash params fileIndex frameIndex d of
             (Some e, d') \<Rightarrow>
               if e \<noteq> ErrSheetStale then removal_refused (Core [e]) d' fz
               else answered digest out_root infoHash fileIndex (Some (Core [e])) d' fz
           | (None, d') \<Rightarrow> answered digest out_root infoHash fileIndex None d' fz))"

text \<open>Every set is tried: how many reached their commit point, what went wrong, and the disk.\<close>

fun clear_each :: "(string \<Rightarrow> Disk \<Rightarrow> delete_error option \<times> Disk) \<Rightarrow> string list \<Rightarrow> Disk \<Rightarrow> nat \<times> delete_error list \<times> Disk" where
  "clear_each clear [] d = (0, [], d)"
| "clear_each clear (name # names) d =
     (case clear name d of (e, d1) \<Rightarrow>
        case clear_each clear names d1 of (n, problems, d2) \<Rightarrow>
          (case e of
             None \<Rightarrow> (Suc n, problems, d2)
           | Some e \<Rightarrow> (if e = ErrClearIncomplete then Suc n else n, e # problems, d2)))"

text \<open>Where no set got that far it is a refusal; otherwise what went wrong is a warning beside the detail.\<close>

definition clear_answer ::
  "(string \<Rightarrow> string) \<Rightarrow> string \<Rightarrow> string \<Rightarrow> int \<Rightarrow> fileSet \<Rightarrow> nat \<times> delete_error list \<times> Disk \<Rightarrow> removed" where
  "clear_answer digest out_root infoHash fileIndex fz r =
     (case r of (n, problems, d') \<Rightarrow>
        if n = 0 then removal_refused (Core problems) d' fz
        else answered digest out_root infoHash fileIndex
          (if problems = [] then None
           else if ErrClearIncomplete \<in> set problems then Some (Core problems)
           else Some (Core (ErrClearIncomplete # problems))) d' fz)"

definition Server_ClearFile ::
  "(string \<Rightarrow> string) \<Rightarrow> Deleter option \<Rightarrow> string \<Rightarrow> string \<Rightarrow> string \<Rightarrow> int \<Rightarrow> Disk \<Rightarrow> fileSet \<Rightarrow> removed" where
  "Server_ClearFile digest deleter out_root infoHash params fileIndex d fz =
     (case deleter of
        None \<Rightarrow> removal_refused Unavailable d fz
      | Some dl \<Rightarrow>
        if out_root = [] then removal_refused Unavailable d fz
        else if \<not> validInfoHash infoHash \<or> fileIndex < 0 then removal_refused (Core [ErrNoSuchFile]) d fz
        else if params \<noteq> [] \<and> \<not> validParams params then removal_refused Malformed d fz
        else
          let sets = (if params = [] then setsHoldingFrames d out_root infoHash fileIndex else [params]) in
          if sets = [] then answered digest out_root infoHash fileIndex None d fz
          else
            clear_answer digest out_root infoHash fileIndex fz
              (clear_each (\<lambda>name. dl_ClearFile dl infoHash name fileIndex) sets d))"

section \<open>The handlers\<close>

datatype 'a reply = Refuse nat | Reply nat 'a

definition deleteStatus :: "removal_error \<Rightarrow> nat" where
  "deleteStatus e =
     (if is_core ErrNoSuchFrame e \<or> is_core ErrNoSuchFile e then 404
      else if e = Malformed then 400
      else if e = Unavailable then 503
      else 500)"

text \<open>What the path and the query of a request said are arguments; the reply carries the warning, if any.\<close>

definition handleDeleteFrame ::
  "(string \<Rightarrow> string) \<Rightarrow> Deleter option \<Rightarrow> string \<Rightarrow> string \<Rightarrow> string \<Rightarrow> string \<Rightarrow> string \<Rightarrow> Disk \<Rightarrow> fileSet \<Rightarrow>
     (FileDetail \<times> removal_error option) reply \<times> Disk \<times> fileSet" where
  "handleDeleteFrame digest deleter out_root infoHash index frame params d fz =
     (case (Atoi index, Atoi frame) of
        (Some i, Some k) \<Rightarrow>
          (case Server_DeleteFrame digest deleter out_root infoHash (TrimSpace params) i k d fz of
             ((detail, e), d', fz') \<Rightarrow>
               (case e of
                  None \<Rightarrow> (Reply 200 (detail, None), d', fz')
                | Some e \<Rightarrow>
                    (if is_core ErrSheetStale e then Reply 200 (detail, Some e) else Refuse (deleteStatus e), d', fz')))
      | _ \<Rightarrow> (Refuse 404, d, fz))"

definition handleClearFile ::
  "(string \<Rightarrow> string) \<Rightarrow> Deleter option \<Rightarrow> string \<Rightarrow> string \<Rightarrow> string \<Rightarrow> string \<Rightarrow> Disk \<Rightarrow> fileSet \<Rightarrow>
     (FileDetail \<times> removal_error option) reply \<times> Disk \<times> fileSet" where
  "handleClearFile digest deleter out_root infoHash index params d fz =
     (case Atoi index of
        None \<Rightarrow> (Refuse 404, d, fz)
      | Some i \<Rightarrow>
          (case Server_ClearFile digest deleter out_root infoHash (TrimSpace params) i d fz of
             ((detail, e), d', fz') \<Rightarrow>
               (case e of
                  None \<Rightarrow> (Reply 200 (detail, None), d', fz')
                | Some e \<Rightarrow>
                    (if is_core ErrClearIncomplete e then Reply 200 (detail, Some e) else Refuse (deleteStatus e),
                     d', fz'))))"

end
