(* ===== verification/RemovalLaws.thy ===== *)
theory RemovalLaws
  imports Removal ResultLaws DeletionLaws
begin

text \<open>
  What a page may rely on when it removes results: a refused request changed nothing, whichever refusal it was,
  and a clear that is answered without a warning leaves no picture of the file in any result set.
\<close>

section \<open>Clearing one set after another\<close>

text \<open>What the server relies on of the clear it calls for each set: it says whether it did anything, it never
brings a picture back, and where it reports success the set holds none.\<close>

locale clearing =
  fixes clear :: "string \<Rightarrow> Disk \<Rightarrow> delete_error option \<times> Disk"
    and holds :: "Disk \<Rightarrow> string \<Rightarrow> bool"
  assumes untouched: "clear p d = (Some e, d') \<Longrightarrow> e \<noteq> ErrClearIncomplete \<Longrightarrow> d' = d"
    and no_more: "clear p d = (res, d') \<Longrightarrow> holds d' q \<Longrightarrow> holds d q"
    and emptied: "clear p d = (None, d') \<Longrightarrow> \<not> holds d' p"
begin

lemma each_no_more: "clear_each clear ps d = (n, problems, d') \<Longrightarrow> holds d' q \<Longrightarrow> holds d q"
proof (induction ps arbitrary: d n problems)
  case (Cons p ps)
  obtain e d1 where c: "clear p d = (e, d1)" by fastforce
  obtain m es d2 where r: "clear_each clear ps d1 = (m, es, d2)" by (metis prod_cases3)
  then have "clear_each clear ps d1 = (m, es, d')" using Cons.prems(1) c by (auto split: option.splits)
  from Cons.IH [OF this Cons.prems(2)] no_more [OF c] show ?case by simp
qed simp

lemma each_emptied: "clear_each clear ps d = (n, [], d') \<Longrightarrow> p \<in> set ps \<Longrightarrow> \<not> holds d' p"
proof (induction ps arbitrary: d n)
  case (Cons q ps)
  obtain e d1 where c: "clear q d = (e, d1)" by fastforce
  obtain m es d2 where r: "clear_each clear ps d1 = (m, es, d2)" by (metis prod_cases3)
  have e: "e = None" "es = []" "d2 = d'" using Cons.prems(1) c r by (auto split: option.splits)
  show ?case
  proof (cases "p = q")
    case True
    have "\<not> holds d1 q" using emptied c e(1) by simp
    with True each_no_more [OF r, of p] e(3) show ?thesis by blast
  next
    case False
    with Cons r e show ?thesis by simp
  qed
qed simp

lemma each_untouched: "clear_each clear ps d = (0, problems, d') \<Longrightarrow> d' = d"
proof (induction ps arbitrary: d problems)
  case (Cons p ps)
  obtain e d1 where c: "clear p d = (e, d1)" by fastforce
  obtain m es d2 where r: "clear_each clear ps d1 = (m, es, d2)" by (metis prod_cases3)
  from Cons.prems c r have e: "m = 0" "d2 = d'" "\<exists>x. e = Some x \<and> x \<noteq> ErrClearIncomplete"
    by (auto split: option.splits if_splits)
  with untouched c have "d1 = d" by blast
  with Cons.IH r e show ?case by simp
qed simp

lemma each_complete: "clear_each clear ps d = (0, problems, d') \<Longrightarrow> ErrClearIncomplete \<notin> set problems"
proof (induction ps arbitrary: d problems)
  case (Cons p ps)
  obtain e d1 where c: "clear p d = (e, d1)" by fastforce
  obtain m es d2 where r: "clear_each clear ps d1 = (m, es, d2)" by (metis prod_cases3)
  with Cons c show ?case by (auto split: option.splits if_splits)
qed simp

end

section \<open>The clear of the program\<close>

text \<open>A disk with less on it: the same videos and directories, and no manifest or file that was not there.\<close>

definition less_on :: "Disk \<Rightarrow> Disk \<Rightarrow> bool" where
  "less_on d' d \<longleftrightarrow>
     (\<forall>h p. map_option rr_Videos (LoadRun d' h p) = map_option rr_Videos (LoadRun d h p)) \<and>
     (\<forall>h p i q. LoadManifest d' h p i q \<in> {None, LoadManifest d h p i q}) \<and>
     (\<forall>q. StatSize d' q \<in> {None, StatSize d q}) \<and> ReadDir d' = ReadDir d"

lemma less_on_refl: "less_on d d"
  by (simp add: less_on_def)

lemma less_on_trans: "less_on a b \<Longrightarrow> less_on b c \<Longrightarrow> less_on a c"
  unfolding less_on_def by (metis insert_iff singletonD)

lemma less_videoPath: "less_on d' d \<Longrightarrow> LoadRun d' h p = Some r' \<Longrightarrow>
    \<exists>r. LoadRun d h p = Some r \<and> videoPath r' i = videoPath r i"
proof -
  assume "less_on d' d" "LoadRun d' h p = Some r'"
  then have "map_option rr_Videos (LoadRun d h p) = Some (rr_Videos r')"
    unfolding less_on_def by (metis option.simps(9))
  then show ?thesis by (auto simp: videoPath_def videoEntry_def)
qed

lemma less_framesOnDisk:
  assumes "less_on d' d" "framesOnDisk d' m \<noteq> 0" shows "framesOnDisk d m \<noteq> 0"
proof -
  from assms(2) obtain f where f: "f \<in> set (m_Frames m)" "mf_Path f \<noteq> []" "file_there d' (mf_Path f)"
    by (auto simp: framesOnDisk_def filter_empty_conv)
  have "StatSize d' (mf_Path f) \<in> {None, StatSize d (mf_Path f)}" using assms(1) by (simp add: less_on_def)
  with f(3) have "file_there d (mf_Path f)" by (auto simp: file_there_def)
  with f show ?thesis by (auto simp: framesOnDisk_def filter_empty_conv)
qed

lemma less_holds: "less_on d' d \<Longrightarrow> holds_frames d' h i dir \<Longrightarrow> holds_frames d h i dir"
proof -
  assume l: "less_on d' d" and "holds_frames d' h i dir"
  then obtain r' path m where o: "snd dir" "LoadRun d' h (fst dir) = Some r'" "videoPath r' i = Some path"
    "LoadManifest d' h (fst dir) i path = Some m" "framesOnDisk d' m \<noteq> 0"
    by (auto simp: holds_frames_def split: option.splits)
  from less_videoPath [OF l o(2), of i] o(3) obtain r where "LoadRun d h (fst dir) = Some r" "videoPath r i = Some path" by auto
  moreover have "LoadManifest d h (fst dir) i path = Some m"
    using l o(4) unfolding less_on_def by (metis insert_iff option.distinct(1) singletonD)
  ultimately show ?thesis using o(1,5) less_framesOnDisk [OF l] by (simp add: holds_frames_def)
qed

definition removes :: "disk_op \<Rightarrow> bool" where
  "removes op =
     (case op of OpRemoveManifest i p \<Rightarrow> True | OpRemoveAll s \<Rightarrow> True | OpRemove t \<Rightarrow> True | OpRemoveDir v \<Rightarrow> True | _ \<Rightarrow> False)"

lemma less_apply:
  assumes "removes op \<or>
    (\<exists>r r'. op = OpSaveRun r' \<and> LoadRun d (ly_InfoHash l) (ly_Params l) = Some r \<and> rr_Videos r' = rr_Videos r)"
  shows "less_on (apply_op l stays d op) d"
  using assms by (auto simp: less_on_def removes_def split: disk_op.splits)

lemma less_applies:
  assumes "\<forall>op \<in> set ops. removes op"
  shows "less_on (apply_ops l stays d ops) d"
  using assms
proof (induction ops arbitrary: d)
  case (Cons op ops)
  then have "less_on (apply_op l stays d op) d" by (intro less_apply) simp
  moreover have "less_on (apply_ops l stays (apply_op l stays d op) ops) (apply_op l stays d op)" using Cons by simp
  ultimately show ?case by (auto simp: apply_ops_def intro: less_on_trans)
qed (simp add: apply_ops_def less_on_refl)

lemma removals_only: "op \<in> set (attempted w (clear_steps u l i p)) \<Longrightarrow> removes op"
  by (auto simp: attempted_def clear_steps_def removes_def split: if_splits)

lemma clear_less:
  assumes "ClearFile u d l w i = (ops, res)" shows "less_on (apply_ops l stays d ops) d"
  using ClearFile_cases [OF assms]
proof
  assume "\<exists>r p b. record_of d l = Some r \<and> recordedVideoPath r i = Some p \<and>
       ops = OpSaveRun (r\<lparr>rr_Complete := withoutIndex (rr_Complete r) i\<rparr>) # attempted w (clear_steps u l i p) @
         (if b then [OpRemoveDir (FileDir u l i p)] else []) \<and>
       res \<in> {None, Some ErrClearIncomplete} \<and> (res = None \<longrightarrow> \<not> list_ex (cw_fails w) (clear_steps u l i p))"
  then obtain r p b where r: "record_of d l = Some r"
    and ops: "ops = OpSaveRun (r\<lparr>rr_Complete := withoutIndex (rr_Complete r) i\<rparr>) # attempted w (clear_steps u l i p) @
         (if b then [OpRemoveDir (FileDir u l i p)] else [])" by blast
  let ?save = "OpSaveRun (r\<lparr>rr_Complete := withoutIndex (rr_Complete r) i\<rparr>)"
  let ?rest = "attempted w (clear_steps u l i p) @ (if b then [OpRemoveDir (FileDir u l i p)] else [])"
  have "less_on (apply_op l stays d ?save) d" using r by (intro less_apply) auto
  moreover have "\<forall>op \<in> set ?rest. removes op"
    using removals_only by (auto simp: removes_def [of "OpRemoveDir _"])
  from less_applies [OF this] have "less_on (apply_ops l stays (apply_op l stays d ?save) ?rest) (apply_op l stays d ?save)" .
  ultimately have "less_on (apply_ops l stays (apply_op l stays d ?save) ?rest) d" by (blast intro: less_on_trans)
  then show ?thesis by (simp add: ops apply_ops_def)
qed (simp add: apply_ops_def less_on_refl)

lemma clear_empties:
  assumes "ClearFile u d l w i = (ops, None)" "ly_InfoHash l = h" "ly_Params l = k"
  shows "\<not> holds_frames (apply_ops l stays d ops) h i (k, True)"
proof -
  from ClearFile_cases [OF assms(1)] obtain r p b where r: "record_of d l = Some r" "recordedVideoPath r i = Some p"
    and ops: "ops = OpSaveRun (r\<lparr>rr_Complete := withoutIndex (rr_Complete r) i\<rparr>) # attempted w (clear_steps u l i p) @
         (if b then [OpRemoveDir (FileDir u l i p)] else [])"
    and ok: "\<not> list_ex (cw_fails w) (clear_steps u l i p)" by auto
  let ?d = "apply_ops l stays d ops"
  let ?save = "OpSaveRun (r\<lparr>rr_Complete := withoutIndex (rr_Complete r) i\<rparr>)"
  let ?more = "[OpRemoveAll (FramesDir u l i p), OpRemove (path_Join [FileDir u l i p, ''sheet.jpg''])] @
    (if b then [OpRemoveDir (FileDir u l i p)] else [])"
  let ?d2 = "apply_op l stays (apply_op l stays d ?save) (OpRemoveManifest i p)"
  have "attempted w (clear_steps u l i p) = clear_steps u l i p"
    using ok by (simp add: attempted_def clear_steps_def)
  then have d: "?d = apply_ops l stays ?d2 ?more" by (simp add: ops apply_ops_def clear_steps_def)
  have "\<forall>op \<in> set ?more. removes op" by (simp add: removes_def)
  from less_applies [OF this] have l: "less_on ?d ?d2" unfolding d .
  have "LoadManifest ?d2 h k i p = None" using assms(2,3) by simp
  with l have m: "LoadManifest ?d h k i p = None" unfolding less_on_def by (metis insert_iff singletonD)
  have v: "videoPath r' i = Some p" if "LoadRun ?d h k = Some r'" for r'
    using less_videoPath [OF l that, of i] assms(2,3) r(2) by (auto simp: videoPath_def videoEntry_def recordedVideoPath_def)
  show ?thesis
  proof
    assume "holds_frames ?d h i (k, True)"
    then obtain r' where "LoadRun ?d h k = Some r'" "videoPath r' i \<noteq> None" "\<forall>q. videoPath r' i = Some q \<longrightarrow> LoadManifest ?d h k i q \<noteq> None"
      by (auto simp: holds_frames_def split: option.splits)
    with v m show False by auto
  qed
qed

lemma sets_iff: "q \<in> set (setsHoldingFrames d out_root h i) \<longleftrightarrow>
    out_root \<noteq> [] \<and> validInfoHash h \<and> 0 \<le> i \<and>
    (\<exists>dirs. ReadDir d (path_Join [out_root, h]) = Some dirs \<and> (q, True) \<in> set dirs) \<and> holds_frames d h i (q, True)"
proof -
  have h: "holds_frames d h i (q, b) \<Longrightarrow> b" for b by (simp add: holds_frames_def)
  have "q \<in> fst ` {x \<in> set dirs. holds_frames d h i x} \<longleftrightarrow> (q, True) \<in> set dirs \<and> holds_frames d h i (q, True)" for dirs
  proof
    assume "q \<in> fst ` {x \<in> set dirs. holds_frames d h i x}"
    then obtain b where "(q, b) \<in> set dirs" "holds_frames d h i (q, b)" by auto
    with h [of b] show "(q, True) \<in> set dirs \<and> holds_frames d h i (q, True)" by simp
  next
    assume "(q, True) \<in> set dirs \<and> holds_frames d h i (q, True)"
    then have "(q, True) \<in> {x \<in> set dirs. holds_frames d h i x}" by simp
    then show "q \<in> fst ` {x \<in> set dirs. holds_frames d h i x}" by (rule rev_image_eqI) simp
  qed
  then show ?thesis by (cases "ReadDir d (path_Join [out_root, h])") (simp_all add: setsHoldingFrames_def not_less, linarith)
qed

lemma less_sets: "less_on d' d \<Longrightarrow> q \<in> set (setsHoldingFrames d' out_root h i) \<Longrightarrow> q \<in> set (setsHoldingFrames d out_root h i)"
  using less_holds [of d' d h i "(q, True)"] by (auto simp: sets_iff less_on_def)

text \<open>The program's clear of one set keeps the contract.\<close>

interpretation program_clear: clearing
  "\<lambda>params. output_ClearFile u w out_root infoHash params fileIndex"
  "\<lambda>d params. params \<in> set (setsHoldingFrames d out_root infoHash fileIndex)"
  for u w out_root infoHash fileIndex
proof
  fix p d e d' assume "output_ClearFile u w out_root infoHash p fileIndex d = (Some e, d')" "e \<noteq> ErrClearIncomplete"
  then obtain ops where "ClearFile u d (layout_of out_root infoHash p) (rw_clear w p) fileIndex = (ops, Some e)"
    "d' = apply_ops (layout_of out_root infoHash p) (stays_of (rw_clear w p)) d ops"
    by (auto simp: output_ClearFile_def Let_def split: prod.splits)
  with ClearFile_cases [of u d "layout_of out_root infoHash p" "rw_clear w p" fileIndex ops "Some e"]
    \<open>e \<noteq> ErrClearIncomplete\<close> show "d' = d" by (auto simp: apply_ops_def)
next
  fix p d res d' q assume "output_ClearFile u w out_root infoHash p fileIndex d = (res, d')"
    "q \<in> set (setsHoldingFrames d' out_root infoHash fileIndex)"
  then show "q \<in> set (setsHoldingFrames d out_root infoHash fileIndex)"
    by (auto simp: output_ClearFile_def Let_def split: prod.splits intro: less_sets clear_less)
next
  fix p d d' assume "output_ClearFile u w out_root infoHash p fileIndex d = (None, d')"
  then have "\<not> holds_frames d' infoHash fileIndex (p, True)"
    using clear_empties by (auto simp: output_ClearFile_def Let_def layout_of_def split: prod.splits)
  then show "p \<notin> set (setsHoldingFrames d' out_root infoHash fileIndex)" by (simp add: sets_iff)
qed

section \<open>The server's answers\<close>

lemma answered_disk: "fst (snd (answered digest out_root h i e d fz)) = d" "snd (fst (answered digest out_root h i e d fz)) = e"
  by (simp_all add: answered_def split: prod.splits)

lemma refused_disk: "removal_refused e d fz = ((empty_detail 0, Some e), d, fz)"
  by (simp add: removal_refused_def)

lemma no_sets_no_pictures:
  assumes "setsHoldingFrames d out_root h i = []" "f \<in> set (fd_Frames (fst (fileDetailOrEmpty digest d out_root h i fz)))"
  shows "ref_URL f = []"
proof (cases "fst (fileDetail digest d out_root h i fz)")
  case (Some det)
  then obtain dirs where o: "out_root \<noteq> []" "validInfoHash h" "\<not> i < 0" "ReadDir d (path_Join [out_root, h]) = Some dirs"
    by (auto simp: fileDetail_def split: if_splits option.splits)
  have "f \<in> set (fd_Frames det)" using assms(2) Some by (auto simp: fileDetailOrEmpty_def split: prod.splits option.splits)
  then obtain name b where n: "(name, b) \<in> set dirs" "f \<in> set (dir_frames digest d out_root h i (name, b))"
    using detail_merges [OF Some o(4)] by fastforce
  then have b by (cases b) (simp_all add: dir_frames_def)
  have "(name, True) \<notin> set (filter (holds_frames d h i) dirs)"
    using assms(1) o by (auto simp: setsHoldingFrames_def filter_empty_conv)
  with n \<open>b\<close> have "\<not> holds_frames d h i (name, True)" by simp
  with holds_pictures [OF o(1), of digest d h i name] n(2) \<open>b\<close> show ?thesis by auto
next
  case None
  with assms(2) show ?thesis by (auto simp: fileDetailOrEmpty_def empty_detail_def split: prod.splits option.splits)
qed

text \<open>C30: A file that was cleared is clear. When the server answers a request to clear a file of everything without
a warning, no result set of the torrent is offered to be cleared of it any more, and the detail in the answer has
no picture left; only moments that never gave one may remain.\<close>

theorem clear_clears:
  assumes "out_root \<noteq> []" "validInfoHash h" "0 \<le> i"
    and "Server_ClearFile digest (Some (outputDeleter u w out_root)) out_root h [] i d fz = ((detail, None), d', fz')"
  shows "setsHoldingFrames d' out_root h i = [] \<and> (\<forall>f \<in> set (fd_Frames detail). ref_URL f = [])"
proof -
  let ?clear = "\<lambda>name. output_ClearFile u w out_root h name i"
  let ?sets = "setsHoldingFrames d out_root h i"
  have "setsHoldingFrames d' out_root h i = [] \<and> detail = fst (fileDetailOrEmpty digest d' out_root h i fz)"
  proof (cases "?sets = []")
    case True
    with assms show ?thesis
      by (auto simp: Server_ClearFile_def answered_def split: prod.splits)
  next
    case False
    obtain n problems d2 where c: "clear_each ?clear ?sets d = (n, problems, d2)" by (metis prod_cases3)
    from assms False c have e: "problems = []" "d2 = d'" "detail = fst (fileDetailOrEmpty digest d' out_root h i fz)"
      by (auto simp: Server_ClearFile_def clear_answer_def outputDeleter_def answered_def removal_refused_def split: prod.splits if_splits)
    have "q \<notin> set (setsHoldingFrames d' out_root h i)" for q
      using program_clear.each_emptied [OF c [unfolded e(1,2)]] program_clear.each_no_more [OF c [unfolded e(2)]] by blast
    then have "setsHoldingFrames d' out_root h i = []" by (metis all_not_in_conv set_empty2)
    then show ?thesis using e(3) by simp
  qed
  then show ?thesis using no_sets_no_pictures by blast
qed

lemma delete_refused:
  assumes "output_DeleteFrame u w out_root h p i k d = (Some e, d')" "e \<in> {ErrNoSuchFrame, ErrNoSuchFile}"
  shows "d' = d"
proof -
  let ?l = "layout_of out_root h p"
  obtain ops where o: "DeleteFrame u d ?l (rw_delete w p) i k = (ops, Some e)" and d: "d' = apply_ops ?l (\<lambda>_ _. False) d ops"
    using assms(1) by (auto simp: output_DeleteFrame_def Let_def split: prod.splits)
  have "ops = []"
  proof (rule ccontr)
    assume "ops \<noteq> []"
    with DeleteFrame_cases [OF o] assms(2) obtain r q m gone kept where
      f: "perform (dw_fails (rw_delete w p)) (delete_ops u ?l (rw_delete w p) r i q m gone kept) = (ops, Some e)"
      by (auto split: if_splits)
    have "e \<in> snd ` set (delete_ops u ?l (rw_delete w p) r i q m gone kept)"
      using perform_prefix [OF f] by (metis image_eqI nth_mem)
    with assms(2) show False by (auto simp: delete_ops_def delete_core_def sheet_steps_def split: if_splits)
  qed
  with d show ?thesis by (simp add: apply_ops_def)
qed

lemma server_clear_refused:
  assumes "Server_ClearFile digest (Some (outputDeleter u w out_root)) out_root h params i d fz = ((det, Some e), d', fz')"
    and "\<not> is_core ErrClearIncomplete e"
  shows "d' = d"
proof -
  let ?sets = "if params = [] then setsHoldingFrames d out_root h i else [params]"
  obtain n problems d2 where c: "clear_each (\<lambda>name. output_ClearFile u w out_root h name i) ?sets d = (n, problems, d2)"
    by (metis prod_cases3)
  have r: "n = 0 \<Longrightarrow> d2 = d" using program_clear.each_untouched c by blast
  show ?thesis
  proof (cases "out_root = [] \<or> \<not> validInfoHash h \<or> i < 0 \<or> (params \<noteq> [] \<and> \<not> validParams params)")
    case True
    with assms(1) show ?thesis by (auto simp: Server_ClearFile_def removal_refused_def split: if_splits)
  next
    case go: False
    show ?thesis
    proof (cases "?sets = []")
      case True
      with go assms(1) show ?thesis by (auto simp: Server_ClearFile_def answered_def split: prod.splits if_splits)
    next
      case False
      with go have "Server_ClearFile digest (Some (outputDeleter u w out_root)) out_root h params i d fz =
          clear_answer digest out_root h i fz (n, problems, d2)"
        using c by (auto simp: Server_ClearFile_def outputDeleter_def Let_def)
      with assms r show ?thesis
        by (auto simp: clear_answer_def removal_refused_def answered_def is_core_def split: if_splits prod.splits)
    qed
  qed
qed

lemma server_delete_refused:
  assumes "Server_DeleteFrame digest (Some (outputDeleter u w out_root)) out_root h params i k d fz = ((det, Some e), d', fz')"
    and "\<not> is_core ErrSheetStale e" "deleteStatus e \<noteq> 500"
  shows "d' = d"
proof -
  obtain x d2 where c: "output_DeleteFrame u w out_root h params i k d = (x, d2)" by fastforce
  show ?thesis
  proof (cases "out_root = [] \<or> \<not> validInfoHash h \<or> i < 0 \<or> k < 0 \<or> \<not> validParams params")
    case True
    with assms(1) show ?thesis by (auto simp: Server_DeleteFrame_def removal_refused_def split: if_splits)
  next
    case False
    with assms(1,2) c obtain b where "x = Some b" "e = Core [b]" "d' = d2"
      by (cases x) (auto simp: Server_DeleteFrame_def outputDeleter_def removal_refused_def answered_def is_core_def
          split: if_splits prod.splits)
    moreover from this have "b \<in> {ErrNoSuchFrame, ErrNoSuchFile}" using assms(3)
      by (auto simp: deleteStatus_def is_core_def split: if_splits)
    ultimately show ?thesis using delete_refused c by blast
  qed
qed

text \<open>C31: A refusal changed nothing. A clear that is answered with an error of any kind left the disk as it was, and
so did a deletion of a frame answered with anything but 500, which says that a write failed.\<close>

theorem refusal_changes_nothing:
  "(handleClearFile digest (Some (outputDeleter u w out_root)) out_root h index params d fz = (Refuse s, d', fz') \<longrightarrow>
      d' = d \<and> s \<in> {400, 404, 500, 503}) \<and>
   (handleDeleteFrame digest (Some (outputDeleter u w out_root)) out_root h index frame params d fz = (Refuse s, d', fz') \<longrightarrow>
      s \<in> {400, 404, 500, 503} \<and> (s \<noteq> 500 \<longrightarrow> d' = d))"
proof -
  have status: "deleteStatus e \<in> {400, 404, 500, 503}" for e by (simp add: deleteStatus_def)
  have "d' = d \<and> s \<in> {400, 404, 500, 503}"
    if a: "handleClearFile digest (Some (outputDeleter u w out_root)) out_root h index params d fz = (Refuse s, d', fz')"
  proof (cases "Atoi index")
    case (Some i)
    obtain det e d2 fz2 where c: "Server_ClearFile digest (Some (outputDeleter u w out_root)) out_root h (TrimSpace params) i d fz =
        ((det, e), d2, fz2)" by (metis prod.collapse)
    with a Some obtain x where "e = Some x" "\<not> is_core ErrClearIncomplete x" "d' = d2" "s = deleteStatus x"
      by (auto simp: handleClearFile_def split: option.splits if_splits)
    with server_clear_refused c status show ?thesis by blast
  qed (use a in \<open>simp add: handleClearFile_def\<close>)
  moreover have "s \<in> {400, 404, 500, 503} \<and> (s \<noteq> 500 \<longrightarrow> d' = d)"
    if a: "handleDeleteFrame digest (Some (outputDeleter u w out_root)) out_root h index frame params d fz = (Refuse s, d', fz')"
  proof (cases "Atoi index = None \<or> Atoi frame = None")
    case False
    then obtain i k where ik: "Atoi index = Some i" "Atoi frame = Some k" by auto
    obtain det e d2 fz2 where c: "Server_DeleteFrame digest (Some (outputDeleter u w out_root)) out_root h (TrimSpace params) i k d fz =
        ((det, e), d2, fz2)" by (metis prod.collapse)
    with a ik obtain x where "e = Some x" "\<not> is_core ErrSheetStale x" "d' = d2" "s = deleteStatus x"
      by (auto simp: handleDeleteFrame_def split: option.splits if_splits)
    with server_delete_refused c status show ?thesis by blast
  qed (use a in \<open>auto simp: handleDeleteFrame_def split: option.splits\<close>)
  ultimately show ?thesis by blast
qed

section \<open>A disk with one picture\<close>

definition film_dir :: string where
  "film_dir = ''out/'' @ two_hash @ ''/p/00-a/frames/''"

definition film_disk :: Disk where
  "film_disk =
     \<lparr>LoadRun = (\<lambda>h p. if p = ''p'' then Some two_run else None),
      LoadManifest = (\<lambda>h p i path. Some (no_manifest\<lparr>m_Frames := [two_frame 10 (film_dir @ ''0000.jpg''), two_frame 20 []]\<rparr>)),
      ReadDir = (\<lambda>_. Some [(''p'', True)]),
      StatSize = (\<lambda>path. if path = film_dir @ ''0000.jpg'' then Some 7 else None)\<rparr>"

definition film_world :: "bool \<Rightarrow> removal_world" where
  "film_world ok =
     \<lparr>rw_delete = (\<lambda>_. demo_world),
      rw_clear = (\<lambda>_. demo_clear\<lparr>cw_fails := (\<lambda>op. \<not> ok \<and> (case op of OpSaveRun r \<Rightarrow> True | _ \<Rightarrow> False))\<rparr>)\<rparr>"

lemma film_within: "is_within (RunDir (layout_of ''out'' two_hash ''p'')) (film_dir @ ''0000.jpg'')"
  by code_simp

lemma film_cleared:
  "fst (output_ClearFile plain_unicode (film_world True) ''out'' two_hash ''p'' 0 film_disk) = None"
  "fst (output_ClearFile plain_unicode (film_world False) ''out'' two_hash ''p'' 0 film_disk) = Some ErrRunRecord"
  using film_within
  by (simp_all add: output_ClearFile_def ClearFile_def film_disk_def film_world_def demo_clear_def two_run_def two_frame_def
      no_frame_def no_manifest_def recordedVideoPath_def clear_steps_def attempted_def removeEmptied_def layout_of_def
      Let_def case_prod_beta)

lemma film_sets: "setsHoldingFrames film_disk ''out'' two_hash 0 = [''p'']"
  using two_hash_valid
  by (simp add: setsHoldingFrames_def holds_frames_def film_disk_def two_eval framesOnDisk_def file_there_def)

lemma clear_clears_witness:
  "\<exists>detail d' fz'. Server_ClearFile id (Some (outputDeleter plain_unicode (film_world True) ''out'')) ''out'' two_hash [] 0
       film_disk newFileSet = ((detail, None), d', fz') \<and>
     setsHoldingFrames film_disk ''out'' two_hash 0 = [''p''] \<and> setsHoldingFrames d' ''out'' two_hash 0 = []"
proof -
  obtain d1 where "output_ClearFile plain_unicode (film_world True) ''out'' two_hash ''p'' 0 film_disk = (None, d1)"
    using film_cleared(1) by (metis prod.collapse)
  then obtain detail d' fz' where "Server_ClearFile id (Some (outputDeleter plain_unicode (film_world True) ''out'')) ''out'' two_hash [] 0
       film_disk newFileSet = ((detail, None), d', fz')"
    using two_hash_valid film_sets
    by (cases "fileDetailOrEmpty id d1 ''out'' two_hash 0 newFileSet")
      (simp add: Server_ClearFile_def clear_answer_def outputDeleter_def answered_def)
  with clear_clears [OF _ two_hash_valid _ this] film_sets show ?thesis by auto
qed

lemma refusal_changes_nothing_witness:
  "\<exists>fz'. handleClearFile id (Some (outputDeleter plain_unicode (film_world False) ''out'')) ''out'' two_hash ''0'' []
     film_disk newFileSet = (Refuse 500, film_disk, fz')"
proof -
  obtain d1 where o: "output_ClearFile plain_unicode (film_world False) ''out'' two_hash ''p'' 0 film_disk = (Some ErrRunRecord, d1)"
    using film_cleared(2) by (metis prod.collapse)
  have "Atoi ''0'' = Some 0" "TrimSpace [] = []" by code_simp+
  then obtain d' fz' where h: "handleClearFile id (Some (outputDeleter plain_unicode (film_world False) ''out'')) ''out'' two_hash ''0'' []
     film_disk newFileSet = (Refuse 500, d', fz')"
    using o two_hash_valid film_sets
    by (auto simp: handleClearFile_def Server_ClearFile_def clear_answer_def outputDeleter_def removal_refused_def is_core_def deleteStatus_def)
  with refusal_changes_nothing show ?thesis by blast
qed

end
