(* ===== verification/Spec2Isabelle.thy ===== *)
theory Spec2Isabelle
  imports PoolProperties BridgeLaws Availability TopUpLaws RunTicks RowState FramePlan FileProperties
    ReplayLaws DeletionLaws EvictionLaws EngineProperties BusLaws HubLaws ResultLaws ComparisonLaws ListingLaws DownloadLaws RemovalLaws
begin

text \<open>
  A verification development for torpeek, a program that shows frames of the videos in a torrent without
  downloading them: it joins the swarm, lets ffmpeg read the few pieces around each capture point through a local
  HTTP bridge, and keeps the frames on disk for a web page to show.

  \<^bold>\<open>How the program hangs together.\<close> A run asks the torrent pool (\<^verbatim>\<open>internal/swarm\<close>) for its torrent, which comes on the
  shared client or, when it is private, on one of its own; selects files; publishes each on the bridge
  (\<^verbatim>\<open>internal/bridge\<close>); and hands ffprobe and ffmpeg its address. A read of theirs claims pieces, which is what a run
  costs. The engine (\<^verbatim>\<open>internal/core\<close>) plans the capture points of a file (\<^verbatim>\<open>internal/frames\<close>), takes each, watches the
  budgets, and tells what happens as events on a bus. What a file came to is its manifest, what the run came to its
  record (\<^verbatim>\<open>internal/manifest\<close>, \<^verbatim>\<open>internal/cache\<close>, \<^verbatim>\<open>internal/output\<close>); a request that matches a record is answered from
  disk. The web server (\<^verbatim>\<open>internal/web\<close>) keeps the registry of runs and its queue, hands their events on to browsers
  through the hub, and answers for what is on disk: listings, details, comparisons, deletions and top-ups.

  \<^bold>\<open>Foundations.\<close> \<open>Prelude\<close> has the fact collections and 64-bit integers: an \<open>int\<close> that Go's arithmetic could overflow
  goes through \<open>w64\<close>, division that truncates is \<open>sdiv\<close>. \<open>GoText\<close> and \<open>FilePaths\<close> are the parts of \<^verbatim>\<open>strings\<close>,
  \<^verbatim>\<open>strconv\<close> and \<^verbatim>\<open>path/filepath\<close> the program calls, over strings of bytes. \<open>GoFloat\<close> has finite doubles as exact
  pairs of mantissa and exponent with IEEE rounding to nearest even, \<open>FloatLaws\<close> their order laws.

  \<^bold>\<open>Swarm.\<close> \<open>Ports\<close> (\<^verbatim>\<open>ports.go\<close>) has the allocated ports, their parser and printer, and the pool of leases, whose laws are
  the locale \<open>slot_pool\<close>. \<open>Sources\<close> (\<^verbatim>\<open>source.go\<close>, \<^verbatim>\<open>policy.go\<close>), \<open>Sessions\<close> (\<^verbatim>\<open>session.go\<close>) and \<open>Pools\<close> (\<^verbatim>\<open>pool.go\<close>) carry
  a torrent from its source to a client: a world of sessions, leases and torrents is passed through every
  operation. \<open>SessionLaws\<close>, \<open>PoolLaws\<close>, \<open>PoolSafety\<close>, \<open>PortUse\<close>, \<open>PoolRuns\<close> and \<open>PoolProperties\<close> prove over every sequence of
  attaches, detaches, arriving bytes and closes that no private torrent meets a client with DHT, that attachments,
  leases and byte totals are exact, and that everything can be given back. Operations on the pool interleave whole.
  \<open>Files\<close> (\<^verbatim>\<open>files.go\<close>) selects videos. \<open>Pieces\<close>, \<open>PieceLaws\<close> and \<open>Claims\<close> (\<^verbatim>\<open>fetch.go\<close>, \<^verbatim>\<open>torrent.go\<close>) are the geometry of
  pieces and the record of what was ordered; \<open>Availability\<close> (\<^verbatim>\<open>availability.go\<close>) counts copies.

  \<^bold>\<open>Bridge.\<close> \<open>Bridge\<close> and \<open>BridgeLaws\<close> (\<^verbatim>\<open>bridge.go\<close>, \<^verbatim>\<open>httprange.go\<close>, \<^verbatim>\<open>torrent.go\<close>): range headers, what a request is
  served, the claims it makes and the stalls it leaves.

  \<^bold>\<open>Engine.\<close> \<open>Budget\<close>, \<open>BudgetLaws\<close> (\<^verbatim>\<open>budget.go\<close>): ceilings, the tracker and its latches; meters and the clock are
  readings. \<open>Events\<close> (\<^verbatim>\<open>events.go\<close>, \<^verbatim>\<open>errors.go\<close>), \<open>FramePlan\<close> (\<^verbatim>\<open>plan.go\<close>), \<open>Probe\<close> (\<^verbatim>\<open>probe.go\<close>), \<open>Decoding\<close> (\<^verbatim>\<open>hdr.go\<close>,
  \<^verbatim>\<open>extract.go\<close>). \<open>Capture\<close>, \<open>FileRun\<close> and \<open>FileProcess\<close> are \<^verbatim>\<open>captureOne\<close>, the loop over the points of a file and
  \<^verbatim>\<open>processFile\<close>; what ffprobe, ffmpeg, the swarm, the meters and the disk answer at each step is an argument, a
  function of the step. \<open>FileLaws\<close>, \<open>FileProperties\<close> account for every point. \<open>EngineRun\<close> is \<^verbatim>\<open>Engine.Run\<close>: a beginning
  (cache, roof, attach, selection), the work as steps of the files that run side by side (\<open>work_move\<close>) and of time,
  and an end; the stack of deferred calls is kept and undone at every exit. \<open>EngineLaws\<close> and \<open>EngineProperties\<close> show that
  totals and events agree, that a run ends, that it lets go of what it took, and that its result answers the next
  request. \<open>EventBus\<close>, \<open>BusLaws\<close> (\<^verbatim>\<open>bus.go\<close>): a call of \<^verbatim>\<open>Publish\<close> is its locked part and one send for each
  subscriber, with any interleaving of publishers, readers and closings; sends on closed channels panic.

  \<^bold>\<open>Results.\<close> \<open>Manifests\<close>, \<open>Output\<close>, \<open>OutputLaws\<close>, \<open>Cache\<close>: what is on disk and under which names. A disk is what its readers
  get of it (\<open>Disk\<close>): records, manifests, directory entries and file sizes. \<open>Replay\<close>, \<open>ReplayLaws\<close> (\<^verbatim>\<open>cached.go\<close>): a run told
  again from disk. \<open>Deletion\<close>, \<open>DeletionLaws\<close> (\<^verbatim>\<open>delete.go\<close>): a deletion is the list of its writes and removals, a crash
  a prefix of it. \<open>Eviction\<close>, \<open>EvictionLaws\<close> (\<^verbatim>\<open>evict.go\<close>): the ceiling of a tree.

  \<^bold>\<open>Web server.\<close> \<open>WaitingLine\<close> is the contract of a queue, the locale \<open>waiting_line\<close>, which \<open>RunLaws\<close> interprets on the
  queue of \<open>RunQueue\<close>. \<open>RunQueue\<close> and \<open>RunOps\<close> (\<^verbatim>\<open>server.go\<close>, \<^verbatim>\<open>runs.go\<close>) are the operations on the registry, each split
  into its critical sections; a goroutine left behind, and what a call still does once it has given up the lock
  (cleanups, ended contexts, a dispatch, the second section of a retry), is a task of the state. \<open>RunSteps\<close> lets
  sections of any calls and tasks happen in any order; \<open>RunLaws\<close>, \<open>RunInvariant\<close>, \<open>RunReach\<close>, \<open>RunCleanups\<close>,
  \<open>RunProperties\<close>, \<open>RunLife\<close> and \<open>RunTicks\<close> prove what holds of every reachable server. \<open>RunCleanups\<close> accounts for the
  files staged for uploads and keeps a history of those the code loses; \<open>RunTicks\<close> ends with five interleavings that
  the comments of the code do not foresee. \<open>RowState\<close> is what a page is told of a run, \<open>TopUps\<close> and \<open>TopUpLaws\<close> the
  account of a stopped set. \<open>Hub\<close>, \<open>HubLaws\<close> (\<^verbatim>\<open>hub.go\<close>): histories and connections, each operation whole. \<open>ResultSets\<close>,
  \<open>ResultLaws\<close>, \<open>Listing\<close>, \<open>ListingLaws\<close>, \<open>Comparison\<close> and \<open>ComparisonLaws\<close> (\<^verbatim>\<open>listing.go\<close>, \<^verbatim>\<open>compare.go\<close>, \<^verbatim>\<open>files.go\<close>): what pages are
  shown of the disk. \<open>Downloads\<close>, \<open>DownloadLaws\<close> (\<^verbatim>\<open>handlers.go\<close>): the header a torrent is saved under.
  \<open>Removal\<close> and \<open>RemovalLaws\<close> (\<^verbatim>\<open>server.go\<close>, \<^verbatim>\<open>handlers.go\<close>): a request to remove a frame or a file, through the deleter
  of \<^verbatim>\<open>internal/cli/web.go\<close> to the answer; what the server relies on of a clear is the locale \<open>clearing\<close>.
  \<^bold>\<open>Arguments.\<close> Code outside the repository is an argument wherever it is used: the BitTorrent client, ffprobe and
  ffmpeg, image decoding, SHA digests, the file system, clocks and random ids, the tables of \<^verbatim>\<open>unicode\<close>, the unstable
  \<^verbatim>\<open>sort.Slice\<close>, magnet and metainfo parsing. What a theorem needs of them stands in its hypotheses, and its witness
  gives concrete ones.

  \<^bold>\<open>Bounds.\<close> Loops are structural recursions or have a termination proof, so nothing runs on fuel but the work of an
  engine, whose steps are given from outside; \<open>run_ends\<close> shows that only so many of them are possible. Doubles are finite:
  sources of NaN and infinities are outside the model, and a finding says what they would do.

  \<^bold>\<open>Not modelled.\<close> Drawing (pixels, fonts and the blank judgement of \<^verbatim>\<open>blank.go\<close>, whose sums Go may fuse differently on
  each processor), the texts of errors, JSON on disk and on the wire, sockets, atomic file writes, the waiting for a port to
  become bindable, \<^verbatim>\<open>ReadRange\<close> and swarm statistics, which are library calls; the command line, which parses flags and
  wires processes; starting ffmpeg; the routing of HTTP requests; and test support.
\<close>

end
